(* ===== verification/Prelude.thy ===== *)
theory Prelude
  imports Main "HOL-Library.Multiset" "HOL-Library.List_Lexorder" "HOL-Library.Char_ord"
begin

text \<open>
  What every component shares: thrown errors as values of a sum type, the stable sort of
  \<^verbatim>\<open>Array.prototype.sort\<close> for a comparator function, first-occurrence deduplication as a
  JavaScript \<^verbatim>\<open>Set\<close> does it, and the contracts (locales) of a comparator and of a state
  machine with an invariant.

  A JavaScript string is modelled as a \<open>string\<close>: its characters are the code units below 256.
  A JavaScript number is modelled as an \<open>int\<close> where the code has established that it is an
  integer; the theory \<open>Js_Value\<close> has the numbers and the untyped values as they arrive.
\<close>

named_theorems result_simps \<open>unfolding of computations that may throw\<close>
named_theorems table_simps \<open>reads and writes of the tables of the database\<close>

section \<open>Thrown errors\<close>

datatype js_error =
    TypeError string
  | RangeError string
  | JsError string

type_synonym 'a result = "js_error + 'a"

definition bindE :: "'e + 'a \<Rightarrow> ('a \<Rightarrow> 'e + 'b) \<Rightarrow> 'e + 'b" where
  "bindE m f = (case m of Inl e \<Rightarrow> Inl e | Inr a \<Rightarrow> f a)"

definition throwIf :: "bool \<Rightarrow> 'e \<Rightarrow> 'e + unit" where
  "throwIf b e = (if b then Inl e else Inr ())"

fun mapE :: "('a \<Rightarrow> 'e + 'b) \<Rightarrow> 'a list \<Rightarrow> 'e + 'b list" where
  "mapE f [] = Inr []"
| "mapE f (x # xs) = bindE (f x) (\<lambda>y. bindE (mapE f xs) (\<lambda>ys. Inr (y # ys)))"

lemma bindE_simps [simp]:
  "bindE (Inl e) f = Inl e"
  "bindE (Inr a) f = f a"
  by (simp_all add: bindE_def)

lemma throwIf_simps [simp]:
  "throwIf True e = Inl e"
  "throwIf False e = Inr ()"
  by (simp_all add: throwIf_def)

lemma bindE_eq_Inr: "bindE m f = Inr b \<longleftrightarrow> (\<exists>a. m = Inr a \<and> f a = Inr b)"
  by (cases m) auto

lemma bindE_throwIf: "bindE (throwIf b e) f = (if b then Inl e else f ())"
  by simp

lemma throwIf_eq_Inr: "throwIf b e = Inr u \<longleftrightarrow> \<not> b"
  by (simp add: throwIf_def)

lemmas resultE = bindE_eq_Inr throwIf_eq_Inr

declare bindE_throwIf [result_simps] resultE [result_simps]

lemma mapE_eq_Inr:
  "mapE f xs = Inr ys \<longleftrightarrow> list_all2 (\<lambda>x y. f x = Inr y) xs ys"
proof (induction xs arbitrary: ys)
  case Nil
  show ?case by (cases ys) auto
next
  case (Cons x xs)
  show ?case by (cases ys) (auto simp: bindE_eq_Inr Cons.IH)
qed

lemma mapE_Inr: "(\<And>x. x \<in> set xs \<Longrightarrow> f x = Inr (g x)) \<Longrightarrow> mapE f xs = Inr (map g xs)"
  by (induction xs) auto

section \<open>Deduplication in insertion order\<close>

text \<open>\<open>uniq\<close> is the order of iteration of \<^verbatim>\<open>new Set(xs)\<close>: every value at its first position.\<close>

fun uniq_acc :: "'a list \<Rightarrow> 'a list \<Rightarrow> 'a list" where
  "uniq_acc seen [] = []"
| "uniq_acc seen (x # xs) =
     (if x \<in> set seen then uniq_acc seen xs else x # uniq_acc (x # seen) xs)"

definition uniq :: "'a list \<Rightarrow> 'a list" where
  "uniq xs = uniq_acc [] xs"

lemma set_uniq_acc: "set (uniq_acc seen xs) = set xs - set seen"
  by (induction seen xs rule: uniq_acc.induct) auto

lemma distinct_uniq_acc: "distinct (uniq_acc seen xs)"
  by (induction seen xs rule: uniq_acc.induct) (auto simp: set_uniq_acc)

lemma set_uniq [simp]: "set (uniq xs) = set xs"
  by (simp add: uniq_def set_uniq_acc)

lemma distinct_uniq [simp]: "distinct (uniq xs)"
  by (simp add: uniq_def distinct_uniq_acc)

lemma uniq_acc_disjoint:
  "distinct xs \<Longrightarrow> set xs \<inter> set seen = {} \<Longrightarrow> uniq_acc seen xs = xs"
  by (induction seen xs rule: uniq_acc.induct) auto

lemma uniq_acc_cong: "set s = set s' \<Longrightarrow> uniq_acc s xs = uniq_acc s' xs"
proof (induction xs arbitrary: s s')
  case (Cons x xs)
  have "uniq_acc s xs = uniq_acc s' xs" "uniq_acc (x # s) xs = uniq_acc (x # s') xs"
    by (rule Cons.IH, simp add: Cons.prems)+
  then show ?case by (simp add: Cons.prems)
qed simp

lemma uniq_distinct: "distinct xs \<Longrightarrow> uniq xs = xs"
  by (simp add: uniq_def uniq_acc_disjoint)

lemma uniq_acc_absorb: "set ys \<subseteq> set xs \<union> set seen \<Longrightarrow> uniq_acc seen (xs @ ys) = uniq_acc seen xs"
proof (induction xs arbitrary: seen)
  case Nil
  then show ?case by (induction ys) auto
next
  case (Cons x xs)
  have "set ys \<subseteq> set xs \<union> set (x # seen)" using Cons.prems by auto
  then show ?case using Cons.IH [of "x # seen"] Cons.IH [of seen] Cons.prems by auto
qed

lemma uniq_absorb: "distinct xs \<Longrightarrow> set ys \<subseteq> set xs \<Longrightarrow> uniq (xs @ ys) = xs"
  by (simp add: uniq_def uniq_acc_absorb uniq_acc_disjoint)

lemma find_later: "find p (xs @ ys) = (case find p xs of Some x \<Rightarrow> Some x | None \<Rightarrow> find p ys)"
  by (induction xs) auto

section \<open>The contract of a comparator, and the sort that relies on it\<close>

text \<open>
  \<^verbatim>\<open>Array.prototype.sort(cmp)\<close> is stable and, for a consistent comparator, determined by its
  specification. It is modelled by insertion: an element goes before the first one that does not
  compare below it, from the right, so equal elements keep their order.
\<close>

fun insert_by :: "('a \<Rightarrow> 'a \<Rightarrow> int) \<Rightarrow> 'a \<Rightarrow> 'a list \<Rightarrow> 'a list" where
  "insert_by cmp x [] = [x]"
| "insert_by cmp x (y # ys) = (if cmp x y \<le> 0 then x # y # ys else y # insert_by cmp x ys)"

fun js_sort :: "('a \<Rightarrow> 'a \<Rightarrow> int) \<Rightarrow> 'a list \<Rightarrow> 'a list" where
  "js_sort cmp [] = []"
| "js_sort cmp (x # xs) = insert_by cmp x (js_sort cmp xs)"

lemma mset_insert_by [simp]: "mset (insert_by cmp x ys) = add_mset x (mset ys)"
  by (induction ys) auto

lemma mset_js_sort [simp]: "mset (js_sort cmp xs) = mset xs"
  by (induction xs) auto

lemma set_js_sort [simp]: "set (js_sort cmp xs) = set xs"
  by (metis mset_js_sort set_mset_mset)

lemma length_js_sort [simp]: "length (js_sort cmp xs) = length xs"
  by (metis mset_js_sort size_mset)

lemma set_insert_by [simp]: "set (insert_by cmp x ys) = insert x (set ys)"
  by (induction ys) auto

lemma distinct_js_sort [simp]: "distinct (js_sort cmp xs) = distinct xs"
  by (metis mset_js_sort mset_eq_imp_distinct_iff)

locale js_comparator =
  fixes cmp :: "'a \<Rightarrow> 'a \<Rightarrow> int"
  assumes cmp_flip: "sgn (cmp y x) = - sgn (cmp x y)"
    and cmp_trans: "cmp x y \<le> 0 \<Longrightarrow> cmp y z \<le> 0 \<Longrightarrow> cmp x z \<le> 0"
begin

lemma cmp_zero_sym: "cmp x y = 0 \<longleftrightarrow> cmp y x = 0"
  using cmp_flip [of x y] by (auto simp: sgn_if split: if_splits)

lemma cmp_neg_flip: "cmp x y < 0 \<longleftrightarrow> 0 < cmp y x"
  using cmp_flip [of x y] by (auto simp: sgn_if split: if_splits)

lemma cmp_refl: "cmp x x = 0"
  using cmp_flip [of x x] by (auto simp: sgn_if split: if_splits)

lemma cmp_total: "cmp x y \<le> 0 \<or> cmp y x \<le> 0"
  using cmp_neg_flip [of x y] by linarith

lemma cmp_zero_left: "cmp x y = 0 \<Longrightarrow> cmp x z \<le> 0 \<longleftrightarrow> cmp y z \<le> 0"
  by (metis cmp_trans cmp_zero_sym order_refl)

lemma cmp_zero_right: "cmp x y = 0 \<Longrightarrow> cmp z x \<le> 0 \<longleftrightarrow> cmp z y \<le> 0"
  by (metis cmp_trans cmp_zero_sym order_refl)

lemma cmp_zero_cong: "cmp x y = 0 \<Longrightarrow> cmp z x = 0 \<longleftrightarrow> cmp z y = 0"
  by (metis cmp_neg_flip cmp_zero_left cmp_zero_right cmp_zero_sym less_le not_less)

lemma cmp_less_trans: "cmp x y < 0 \<Longrightarrow> cmp y z \<le> 0 \<Longrightarrow> cmp x z < 0"
  by (metis cmp_neg_flip cmp_trans linorder_not_less order_le_less)

lemma sorted_insert_by:
  "sorted_wrt (\<lambda>a b. cmp a b \<le> 0) ys \<Longrightarrow> sorted_wrt (\<lambda>a b. cmp a b \<le> 0) (insert_by cmp x ys)"
proof (induction ys)
  case Nil
  then show ?case by simp
next
  case (Cons y ys)
  then show ?case using cmp_total [of x y] by (auto intro: cmp_trans)
qed

lemma sorted_js_sort: "sorted_wrt (\<lambda>a b. cmp a b \<le> 0) (js_sort cmp xs)"
  by (induction xs) (auto simp: sorted_insert_by)

text \<open>Stability: the elements that compare equal to \<open>a\<close> keep their order.\<close>

lemma filter_insert_by:
  "filter (\<lambda>y. cmp a y = 0) (insert_by cmp x ys) =
   (if cmp a x = 0 then x # filter (\<lambda>y. cmp a y = 0) ys else filter (\<lambda>y. cmp a y = 0) ys)"
proof (induction ys)
  case Nil
  then show ?case by simp
next
  case (Cons y ys)
  have "cmp a y \<noteq> 0" if "cmp a x = 0" "\<not> cmp x y \<le> 0"
    using that cmp_zero_left [of a x y] by auto
  then show ?case using Cons by auto
qed

lemma stable_js_sort: "filter (\<lambda>y. cmp a y = 0) (js_sort cmp xs) = filter (\<lambda>y. cmp a y = 0) xs"
  by (induction xs) (auto simp: filter_insert_by)

text \<open>A comparator that separates the elements sorts to one list only.\<close>

lemma sorted_unique:
  assumes "mset xs = mset ys"
    and "sorted_wrt (\<lambda>a b. cmp a b \<le> 0) xs" and "sorted_wrt (\<lambda>a b. cmp a b \<le> 0) ys"
    and "\<And>a b. a \<in> set xs \<Longrightarrow> b \<in> set xs \<Longrightarrow> cmp a b = 0 \<Longrightarrow> a = b"
  shows "xs = ys"
  using assms
proof (induction xs arbitrary: ys)
  case Nil
  then show ?case by simp
next
  case (Cons x xs)
  from Cons.prems(1) obtain y ys' where ys: "ys = y # ys'" by (cases ys) auto
  have eq: "set (x # xs) = set ys" using Cons.prems(1) by (metis set_mset_mset)
  have "y = x \<or> y \<in> set xs" and "x = y \<or> x \<in> set ys'" using eq ys by auto
  then have "cmp x y \<le> 0" and "cmp y x \<le> 0"
    using Cons.prems(2,3) ys cmp_refl by auto
  then have "cmp x y = 0" using cmp_neg_flip [of x y] by linarith
  then have "x = y" using Cons.prems(4) eq ys by auto
  moreover have "xs = ys'" using Cons.prems ys \<open>x = y\<close> by (intro Cons.IH) auto
  ultimately show ?case using ys by simp
qed

end

section \<open>The contract of a state machine with an invariant\<close>

locale guarded_machine =
  fixes step :: "'s \<Rightarrow> 'c \<Rightarrow> 's"
    and good :: "'s \<Rightarrow> bool"
  assumes step_good: "good s \<Longrightarrow> good (step s c)"
begin

lemma run_good: "good s \<Longrightarrow> good (foldl step s cs)"
  by (induction cs arbitrary: s) (auto simp: step_good)

lemma prefix_good: "good s \<Longrightarrow> good (foldl step s (take n cs))"
  by (rule run_good)

end

text \<open>The number of steps of a run that change the state.\<close>

fun changes :: "('s \<Rightarrow> 'c \<Rightarrow> 's) \<Rightarrow> 's \<Rightarrow> 'c list \<Rightarrow> nat" where
  "changes step s [] = 0"
| "changes step s (c # cs) = (if step s c \<noteq> s then 1 else 0) + changes step (step s c) cs"

text \<open>A machine whose every step either leaves the state alone or uses up some of a budget.\<close>

locale budget_machine = guarded_machine step good
  for step :: "'s \<Rightarrow> 'c \<Rightarrow> 's" and good :: "'s \<Rightarrow> bool" +
  fixes budget :: "'s \<Rightarrow> nat"
  assumes step_budget: "good s \<Longrightarrow> step s c \<noteq> s \<Longrightarrow> budget (step s c) < budget s"
begin

lemma changes_bounded: "good s \<Longrightarrow> changes step s cs + budget (foldl step s cs) \<le> budget s"
proof (induction cs arbitrary: s)
  case Nil
  then show ?case by simp
next
  case (Cons c cs)
  have "changes step (step s c) cs + budget (foldl step (step s c) cs) \<le> budget (step s c)"
    using Cons step_good by blast
  then show ?case using step_budget [OF Cons.prems, of c] by auto
qed

end


text \<open>A machine whose states only evolve along a preorder.\<close>

locale evolving_machine = guarded_machine step good
  for step :: "'s \<Rightarrow> 'c \<Rightarrow> 's" and good :: "'s \<Rightarrow> bool" +
  fixes evolves :: "'s \<Rightarrow> 's \<Rightarrow> bool"
  assumes evolves_refl: "evolves s s"
    and evolves_trans: "evolves s s' \<Longrightarrow> evolves s' s'' \<Longrightarrow> evolves s s''"
    and step_evolves: "good s \<Longrightarrow> evolves s (step s c)"
begin

lemma run_evolves: "good s \<Longrightarrow> evolves s (foldl step s cs)"
proof (induction cs arbitrary: s)
  case Nil
  show ?case by (simp add: evolves_refl)
next
  case (Cons c cs)
  then show ?case using evolves_trans step_evolves step_good by (metis foldl_Cons)
qed

end

end
