(* ===== verification/Js_Value.thy ===== *)
theory Js_Value
  imports Complex_Main Prelude
begin

text \<open>
  The untyped values a boundary of the program receives (\<^verbatim>\<open>unknown\<close> in the source) and the
  tests the code makes on them: \<^verbatim>\<open>typeof\<close>, property reads of an object, \<^verbatim>\<open>Number.isInteger\<close>,
  \<^verbatim>\<open>Number.isSafeInteger\<close> and \<^verbatim>\<open>Number.isFinite\<close>. A finite number is a rational; arithmetic is
  only done by the code on integers small enough to be exact, so rounding does not occur.
\<close>

datatype js_number = NaN | PosInfinity | NegInfinity | Num rat

datatype js_value =
    Undefined
  | Null
  | Boolean bool
  | Number js_number
  | String string
  | Array "js_value list"
  | Object "(string \<times> js_value) list"

fun is_finite :: "js_number \<Rightarrow> bool" where
  "is_finite (Num r) = True"
| "is_finite _ = False"

fun is_integer :: "js_number \<Rightarrow> bool" where
  "is_integer (Num r) = (snd (quotient_of r) = 1)"
| "is_integer _ = False"

definition MAX_SAFE_INTEGER :: int where
  "MAX_SAFE_INTEGER = 9007199254740991"

fun js_floor :: "js_number \<Rightarrow> int" where
  "js_floor (Num r) = \<lfloor>r\<rfloor>"
| "js_floor _ = 0"

definition is_safe_int :: "int \<Rightarrow> bool" where
  "is_safe_int i \<longleftrightarrow> - MAX_SAFE_INTEGER \<le> i \<and> i \<le> MAX_SAFE_INTEGER"

definition is_safe_integer :: "js_number \<Rightarrow> bool" where
  "is_safe_integer n \<longleftrightarrow> is_integer n \<and> is_safe_int (js_floor n)"

definition JInt :: "int \<Rightarrow> js_value" where
  "JInt i = Number (Num (of_int i))"

definition int_number :: "int \<Rightarrow> js_number" where
  "int_number i = Num (of_int i)"

text \<open>An object for \<^verbatim>\<open>typeof value === 'object' && value !== null\<close>: arrays are objects too.\<close>

fun is_object :: "js_value \<Rightarrow> bool" where
  "is_object (Object fs) = True"
| "is_object (Array xs) = True"
| "is_object _ = False"

text \<open>A property read: an absent property, and any named property of an array, is undefined.\<close>

fun js_field :: "js_value \<Rightarrow> string \<Rightarrow> js_value" where
  "js_field (Object fs) k = (case map_of fs k of None \<Rightarrow> Undefined | Some v \<Rightarrow> v)"
| "js_field _ k = Undefined"

text \<open>The integer of a value of type number that is an integer.\<close>

fun as_integer :: "js_value \<Rightarrow> int option" where
  "as_integer (Number n) = (if is_integer n then Some (js_floor n) else None)"
| "as_integer _ = None"

lemma quotient_of_one: "snd (quotient_of r) = 1 \<longleftrightarrow> (\<exists>i. r = of_int i)"
proof
  assume "snd (quotient_of r) = 1"
  then have "quotient_of r = (fst (quotient_of r), 1)" by (metis prod.collapse)
  then have "r = of_int (fst (quotient_of r))" using quotient_of_div by fastforce
  then show "\<exists>i. r = of_int i" ..
next
  assume "\<exists>i. r = of_int i"
  then show "snd (quotient_of r) = 1" by (auto simp: quotient_of_int)
qed

lemma is_integer_of_int [simp]: "is_integer (Num (of_int i))"
  by (simp add: quotient_of_int)

lemma is_integer_iff: "is_integer n \<longleftrightarrow> (\<exists>i. n = Num (of_int i))"
  by (cases n) (auto simp: quotient_of_one)

lemma as_integer_JInt [simp]: "as_integer (JInt i) = Some i"
  by (simp add: JInt_def)

lemma as_integer_Some: "as_integer v = Some i \<longleftrightarrow> v = JInt i"
proof
  assume "as_integer v = Some i"
  then show "v = JInt i"
    by (cases v) (auto simp: JInt_def is_integer_iff simp del: is_integer.simps split: if_splits)
qed simp

lemma is_safe_integer_int [simp]: "is_safe_integer (int_number i) = is_safe_int i"
  by (simp add: is_safe_integer_def int_number_def)

lemma js_floor_int [simp]: "js_floor (int_number i) = i"
  by (simp add: int_number_def)

lemma JInt_inject [simp]: "JInt i = JInt j \<longleftrightarrow> i = j"
  by (simp add: JInt_def)

lemma JInt_distinct [simp]:
  "JInt i \<noteq> Undefined" "JInt i \<noteq> Null" "JInt i \<noteq> Boolean b" "JInt i \<noteq> String s"
  "JInt i \<noteq> Array xs" "JInt i \<noteq> Object fs"
  by (simp_all add: JInt_def)

end
