(* ===== verification/Attempt_Engine.thy ===== *)
theory Attempt_Engine
  imports Js_Value
begin

text \<open>
  \<^verbatim>\<open>packages/domain/src/attempt-engine.ts\<close>: the state machine of one attempt at the daily case.
  An attempt has an evidence level, the wrong guesses at that level and in total, and a state; the
  transitions are a guess, a reveal of the next evidence, giving up and expiry. Every transition
  first checks its argument (\<open>assertValidAttemptSnapshot\<close>), which throws on a snapshot that no
  play can produce.

  Results: the check accepts exactly the reachable snapshots; every transition keeps validity;
  an attempt is over after at most fifteen transitions; the score's range and monotonicity.
\<close>

section \<open>Data\<close>

datatype attempt_state = ACTIVE | SOLVED | GIVEN_UP | EXHAUSTED | EXPIRED

definition ATTEMPT_STATES :: "attempt_state list" where
  "ATTEMPT_STATES = [ACTIVE, SOLVED, GIVEN_UP, EXHAUSTED, EXPIRED]"

definition EVIDENCE_LEVELS :: "int list" where
  "EVIDENCE_LEVELS = [0, 1, 2, 3, 4]"

fun state_name :: "attempt_state \<Rightarrow> string" where
  "state_name ACTIVE = ''ACTIVE''"
| "state_name SOLVED = ''SOLVED''"
| "state_name GIVEN_UP = ''GIVEN_UP''"
| "state_name EXHAUSTED = ''EXHAUSTED''"
| "state_name EXPIRED = ''EXPIRED''"

datatype solve_rank = Cold_Case_Solve | Loremaster | Investigator | Detective | Case_Closed

record attempt_counters =
  evidenceLevel :: int
  wrongGuessesAtLevel :: int
  totalWrongGuesses :: int

record attempt_snapshot = attempt_counters +
  state :: attempt_state

record score_breakdown =
  solveRank :: solve_rank
  tierScore :: int
  wrongGuessPenalty :: int
  timeBonus :: int
  score :: int

datatype transition_rejection = EVIDENCE_LIMIT | TERMINAL_ATTEMPT

datatype transition_result =
    Accepted attempt_snapshot bool
  | Rejected transition_rejection attempt_snapshot

section \<open>The check of a snapshot\<close>

definition isAttemptState :: "js_value \<Rightarrow> bool" where
  "isAttemptState v \<longleftrightarrow> v \<in> set (map (String \<circ> state_name) ATTEMPT_STATES)"

definition isEvidenceLevel :: "js_value \<Rightarrow> bool" where
  "isEvidenceLevel v \<longleftrightarrow> v \<in> set (map JInt EVIDENCE_LEVELS)"

definition isWrongGuessesAtLevel :: "js_value \<Rightarrow> bool" where
  "isWrongGuessesAtLevel v \<longleftrightarrow> v = JInt 0 \<or> v = JInt 1 \<or> v = JInt 2"

definition assertValidAttemptSnapshot :: "js_value \<Rightarrow> unit result" where
  "assertValidAttemptSnapshot v =
    (if \<not> is_object v then Inl (TypeError ''attempt must be an object'')
     else
       let st = js_field v ''state'';
           e = js_field v ''evidenceLevel'';
           w = js_field v ''wrongGuessesAtLevel'';
           t = js_field v ''totalWrongGuesses''
       in
       if \<not> isAttemptState st then Inl (RangeError ''attempt state is invalid'')
       else if \<not> isEvidenceLevel e
         then Inl (RangeError ''evidenceLevel must be between zero and four'')
       else if \<not> isWrongGuessesAtLevel w
         then Inl (RangeError ''wrongGuessesAtLevel must be between zero and two'')
       else (case (as_integer e, as_integer w, as_integer t) of
         (Some ei, Some wi, Some ti) \<Rightarrow>
           if ti < 0 then Inl (RangeError ''totalWrongGuesses must be a non-negative integer'')
           else if st = String ''EXHAUSTED''
             then (if ei \<noteq> 4 \<or> wi \<noteq> 2 \<or> ti \<noteq> 15
                   then Inl (RangeError ''EXHAUSTED requires e=4, w=2, and W=15'')
                   else Inr ())
           else if ti < wi \<or> ti > ei * 3 + wi
             then Inl (RangeError ''attempt counters describe an unreachable state'')
           else Inr ()
       | _ \<Rightarrow> Inl (RangeError ''totalWrongGuesses must be a non-negative integer'')))"

text \<open>A typed snapshot as the object the check reads.\<close>

definition snapshot_value :: "attempt_snapshot \<Rightarrow> js_value" where
  "snapshot_value a = Object
    [(''state'', String (state_name (state a))),
     (''evidenceLevel'', JInt (evidenceLevel a)),
     (''wrongGuessesAtLevel'', JInt (wrongGuessesAtLevel a)),
     (''totalWrongGuesses'', JInt (totalWrongGuesses a))]"

definition assertSnapshot :: "attempt_snapshot \<Rightarrow> unit result" where
  "assertSnapshot a = assertValidAttemptSnapshot (snapshot_value a)"

text \<open>What the check amounts to on a typed snapshot.\<close>

definition valid_snapshot :: "attempt_snapshot \<Rightarrow> bool" where
  "valid_snapshot a \<longleftrightarrow>
    0 \<le> evidenceLevel a \<and> evidenceLevel a \<le> 4 \<and>
    0 \<le> wrongGuessesAtLevel a \<and> wrongGuessesAtLevel a \<le> 2 \<and>
    (if state a = EXHAUSTED
     then evidenceLevel a = 4 \<and> wrongGuessesAtLevel a = 2 \<and> totalWrongGuesses a = 15
     else wrongGuessesAtLevel a \<le> totalWrongGuesses a \<and>
          totalWrongGuesses a \<le> evidenceLevel a * 3 + wrongGuessesAtLevel a)"

section \<open>Transitions\<close>

definition nextEvidenceLevel :: "int \<Rightarrow> int" where
  "nextEvidenceLevel level = level + 1"

definition applyGuess :: "attempt_snapshot \<Rightarrow> bool \<Rightarrow> transition_result result" where
  "applyGuess a correct = bindE (assertSnapshot a) (\<lambda>_. Inr
    (if state a \<noteq> ACTIVE then Rejected TERMINAL_ATTEMPT a
     else if correct then Accepted (a\<lparr>state := SOLVED\<rparr>) True
     else
       let total = totalWrongGuesses a + 1 in
       if wrongGuessesAtLevel a < 2
         then Accepted (a\<lparr>wrongGuessesAtLevel := wrongGuessesAtLevel a + 1,
                          totalWrongGuesses := total\<rparr>) True
       else if evidenceLevel a = 4
         then Accepted \<lparr>evidenceLevel = 4, wrongGuessesAtLevel = 2, totalWrongGuesses = 15,
                        state = EXHAUSTED\<rparr> True
       else Accepted (a\<lparr>evidenceLevel := nextEvidenceLevel (evidenceLevel a),
                        wrongGuessesAtLevel := 0, totalWrongGuesses := total\<rparr>) True))"

definition revealEvidence :: "attempt_snapshot \<Rightarrow> transition_result result" where
  "revealEvidence a = bindE (assertSnapshot a) (\<lambda>_. Inr
    (if state a \<noteq> ACTIVE then Rejected TERMINAL_ATTEMPT a
     else if evidenceLevel a = 4 then Rejected EVIDENCE_LIMIT a
     else Accepted (a\<lparr>evidenceLevel := nextEvidenceLevel (evidenceLevel a),
                      wrongGuessesAtLevel := 0\<rparr>) False))"

definition giveUp :: "attempt_snapshot \<Rightarrow> transition_result result" where
  "giveUp a = bindE (assertSnapshot a) (\<lambda>_. Inr
    (if state a \<noteq> ACTIVE then Rejected TERMINAL_ATTEMPT a
     else Accepted (a\<lparr>state := GIVEN_UP\<rparr>) False))"

definition expire :: "attempt_snapshot \<Rightarrow> transition_result result" where
  "expire a = bindE (assertSnapshot a) (\<lambda>_. Inr
    (if state a \<noteq> ACTIVE then Rejected TERMINAL_ATTEMPT a
     else Accepted (a\<lparr>state := EXPIRED\<rparr>) False))"

section \<open>Score\<close>

definition LEVEL_RULES :: "int \<Rightarrow> solve_rank \<times> int" where
  "LEVEL_RULES e =
    (if e = 0 then (Cold_Case_Solve, 1200)
     else if e = 1 then (Loremaster, 1000)
     else if e = 2 then (Investigator, 750)
     else if e = 3 then (Detective, 500)
     else (Case_Closed, 250))"

fun timeBonusFor :: "js_number \<Rightarrow> int result" where
  "timeBonusFor (Num ms) =
    (if ms < 0
     then Inl (RangeError ''elapsedMilliseconds must be a non-negative finite number'')
     else if ms \<le> 30000 then Inr 150
     else if ms \<le> 60000 then Inr 100
     else if ms \<le> 120000 then Inr 60
     else if ms \<le> 300000 then Inr 25
     else Inr 0)"
| "timeBonusFor _ =
    Inl (RangeError ''elapsedMilliseconds must be a non-negative finite number'')"

definition scoreSolvedAttempt :: "attempt_snapshot \<Rightarrow> js_number \<Rightarrow> score_breakdown result" where
  "scoreSolvedAttempt a elapsed =
    bindE (assertSnapshot a) (\<lambda>_.
      let (rk, tier) = LEVEL_RULES (evidenceLevel a);
          penalty = 40 * totalWrongGuesses a
      in bindE (timeBonusFor elapsed) (\<lambda>bonus. Inr
           \<lparr>solveRank = rk, tierScore = tier, wrongGuessPenalty = penalty, timeBonus = bonus,
            score = max 0 (tier - penalty + bonus)\<rparr>))"

section \<open>The check on typed snapshots\<close>

lemma is_state_name [simp]: "isAttemptState (String (state_name s))"
  by (cases s) (auto simp: isAttemptState_def ATTEMPT_STATES_def)

lemma state_name_EXHAUSTED [simp]: "state_name s = ''EXHAUSTED'' \<longleftrightarrow> s = EXHAUSTED"
  by (cases s) auto

lemma isEvidenceLevel_JInt [simp]: "isEvidenceLevel (JInt i) \<longleftrightarrow> 0 \<le> i \<and> i \<le> 4"
  by (auto simp: isEvidenceLevel_def EVIDENCE_LEVELS_def)

lemma isWrongGuessesAtLevel_JInt [simp]: "isWrongGuessesAtLevel (JInt i) \<longleftrightarrow> 0 \<le> i \<and> i \<le> 2"
  by (auto simp: isWrongGuessesAtLevel_def)

lemma assertSnapshot_valid: "assertSnapshot a = Inr u \<longleftrightarrow> valid_snapshot a"
  by (auto simp: assertSnapshot_def assertValidAttemptSnapshot_def snapshot_value_def
      valid_snapshot_def Let_def)

lemma assertSnapshot_Inr [simp]: "valid_snapshot a \<Longrightarrow> assertSnapshot a = Inr ()"
  by (simp add: assertSnapshot_valid)

lemma assertSnapshot_Inl: "\<not> valid_snapshot a \<Longrightarrow> \<exists>e. assertSnapshot a = Inl e"
  by (cases "assertSnapshot a") (auto simp: assertSnapshot_valid)

text \<open>Every accepted value of unknown type is the object of a valid snapshot, up to other fields.\<close>

lemma isEvidenceLevel_iff: "isEvidenceLevel v \<longleftrightarrow> (\<exists>i. v = JInt i \<and> 0 \<le> i \<and> i \<le> 4)"
proof
  assume "isEvidenceLevel v"
  then obtain i where "v = JInt i" and "i \<in> set EVIDENCE_LEVELS"
    by (auto simp: isEvidenceLevel_def)
  then show "\<exists>i. v = JInt i \<and> 0 \<le> i \<and> i \<le> 4" by (auto simp: EVIDENCE_LEVELS_def)
qed auto

lemma isWrongGuessesAtLevel_iff:
  "isWrongGuessesAtLevel v \<longleftrightarrow> (\<exists>i. v = JInt i \<and> 0 \<le> i \<and> i \<le> 2)"
  by (metis isWrongGuessesAtLevel_JInt isWrongGuessesAtLevel_def)

lemma isAttemptState_iff: "isAttemptState v \<longleftrightarrow> (\<exists>s. v = String (state_name s))"
proof
  assume "isAttemptState v"
  then show "\<exists>s. v = String (state_name s)"
    by (auto simp: isAttemptState_def)
qed auto

definition decodes_to :: "js_value \<Rightarrow> attempt_snapshot \<Rightarrow> bool" where
  "decodes_to v a \<longleftrightarrow> is_object v \<and>
    js_field v ''state'' = String (state_name (state a)) \<and>
    js_field v ''evidenceLevel'' = JInt (evidenceLevel a) \<and>
    js_field v ''wrongGuessesAtLevel'' = JInt (wrongGuessesAtLevel a) \<and>
    js_field v ''totalWrongGuesses'' = JInt (totalWrongGuesses a)"

lemma assertValid_decodes:
  "decodes_to v a \<Longrightarrow> assertValidAttemptSnapshot v = Inr u \<longleftrightarrow> valid_snapshot a"
  by (auto simp: assertValidAttemptSnapshot_def decodes_to_def valid_snapshot_def Let_def)

lemma assertValid_imp_decodes:
  assumes "assertValidAttemptSnapshot v = Inr u"
  obtains a where "decodes_to v a"
proof -
  from assms obtain i s e w where v: "is_object v" "js_field v ''state'' = String (state_name s)"
    "js_field v ''evidenceLevel'' = JInt e" "js_field v ''wrongGuessesAtLevel'' = JInt w"
    "js_field v ''totalWrongGuesses'' = JInt i"
    by (auto simp: assertValidAttemptSnapshot_def Let_def isAttemptState_iff isEvidenceLevel_iff
        isWrongGuessesAtLevel_iff as_integer_Some split: if_splits option.splits)
  then have "decodes_to v \<lparr>evidenceLevel = e, wrongGuessesAtLevel = w, totalWrongGuesses = i, state = s\<rparr>"
    by (simp add: decodes_to_def)
  then show thesis by (rule that)
qed

section \<open>Transitions keep validity\<close>

lemmas transition_defs =
  applyGuess_def revealEvidence_def giveUp_def expire_def nextEvidenceLevel_def Let_def

datatype engine_command = CGuess bool | CReveal | CGiveUp | CExpire

fun transition :: "attempt_snapshot \<Rightarrow> engine_command \<Rightarrow> transition_result result" where
  "transition a (CGuess c) = applyGuess a c"
| "transition a CReveal = revealEvidence a"
| "transition a CGiveUp = giveUp a"
| "transition a CExpire = expire a"

fun_cases applyGuess_command: "transition a (CGuess c) = r"

lemma transition_total: "valid_snapshot a \<Longrightarrow> \<exists>r. transition a c = Inr r"
  by (cases c) (auto simp: transition_defs)

lemma transition_accepted_valid:
  "transition a c = Inr (Accepted a' p) \<Longrightarrow> valid_snapshot a'"
  by (cases c) (auto simp: transition_defs result_simps valid_snapshot_def assertSnapshot_valid
      split: if_splits)

lemma transition_accepted_active:
  "transition a c = Inr (Accepted a' p) \<Longrightarrow> valid_snapshot a \<and> state a = ACTIVE"
  by (cases c) (auto simp: transition_defs result_simps assertSnapshot_valid split: if_splits)

lemma transition_rejected_same:
  "transition a c = Inr (Rejected r a') \<Longrightarrow> a' = a"
  by (cases c) (auto simp: transition_defs result_simps split: if_splits)

lemma transition_terminal:
  "valid_snapshot a \<Longrightarrow> state a \<noteq> ACTIVE \<Longrightarrow> transition a c = Inr (Rejected TERMINAL_ATTEMPT a)"
  by (cases c) (auto simp: transition_defs)

lemma transition_rejected_active:
  "state a = ACTIVE \<Longrightarrow> transition a c = Inr (Rejected r a') \<longleftrightarrow>
     valid_snapshot a \<and> c = CReveal \<and> evidenceLevel a = 4 \<and> r = EVIDENCE_LIMIT \<and> a' = a"
  by (cases c) (auto simp: transition_defs result_simps assertSnapshot_valid split: if_splits)

lemma transition_participation:
  "transition a c = Inr (Accepted a' p) \<Longrightarrow> p \<longleftrightarrow> (\<exists>b. c = CGuess b)"
  by (cases c) (auto simp: transition_defs result_simps split: if_splits)

definition engine_step :: "attempt_snapshot \<Rightarrow> engine_command \<Rightarrow> attempt_snapshot" where
  "engine_step a c = (case transition a c of Inr (Accepted a' p) \<Rightarrow> a' | _ \<Rightarrow> a)"

lemma engine_step_cases:
  obtains p where "transition a c = Inr (Accepted (engine_step a c) p)"
        | "engine_step a c = a"
proof (cases "transition a c")
  case (Inl e)
  then show thesis using that(2) by (simp add: engine_step_def)
next
  case (Inr r)
  then show thesis using that by (cases r) (auto simp: engine_step_def)
qed

text \<open>How many more transitions an attempt can take.\<close>

definition moves_left :: "attempt_snapshot \<Rightarrow> nat" where
  "moves_left a =
    (if state a = ACTIVE then nat (15 - (3 * evidenceLevel a + wrongGuessesAtLevel a)) else 0)"

lemma transition_moves_left:
  "transition a c = Inr (Accepted a' p) \<Longrightarrow> moves_left a' < moves_left a"
  by (cases c) (auto simp: transition_defs result_simps moves_left_def valid_snapshot_def
      assertSnapshot_valid split: if_splits)

interpretation engine: budget_machine engine_step valid_snapshot moves_left
proof
  show "valid_snapshot (engine_step a c)" if "valid_snapshot a" for a c
    by (cases rule: engine_step_cases [of a c]) (auto simp: that transition_accepted_valid)
  show "moves_left (engine_step a c) < moves_left a" if "engine_step a c \<noteq> a" for a c
    using that by (cases rule: engine_step_cases [of a c]) (auto dest: transition_moves_left)
qed

section \<open>The reachable snapshots\<close>

definition initial_attempt :: attempt_snapshot where
  "initial_attempt =
    \<lparr>evidenceLevel = 0, wrongGuessesAtLevel = 0, totalWrongGuesses = 0, state = ACTIVE\<rparr>"

inductive engine_reachable :: "attempt_snapshot \<Rightarrow> bool" where
  reach_start: "engine_reachable initial_attempt"
| reach_step: "engine_reachable a \<Longrightarrow> transition a c = Inr (Accepted a' p) \<Longrightarrow> engine_reachable a'"

inductive_cases engine_reachable_terminal: "engine_reachable a"

lemma initial_attempt_valid: "valid_snapshot initial_attempt"
  by (simp add: initial_attempt_def valid_snapshot_def)

lemma engine_reachable_valid: "engine_reachable a \<Longrightarrow> valid_snapshot a"
  by (induction rule: engine_reachable.induct)
    (simp_all add: initial_attempt_valid transition_accepted_valid)

abbreviation active_at :: "int \<Rightarrow> int \<Rightarrow> int \<Rightarrow> attempt_snapshot" where
  "active_at e w t \<equiv>
    \<lparr>evidenceLevel = e, wrongGuessesAtLevel = w, totalWrongGuesses = t, state = ACTIVE\<rparr>"

lemma active_at_valid:
  "valid_snapshot (active_at e w t) \<longleftrightarrow>
     0 \<le> e \<and> e \<le> 4 \<and> 0 \<le> w \<and> w \<le> 2 \<and> w \<le> t \<and> t \<le> 3 * e + w"
  by (auto simp: valid_snapshot_def)

lemma reach_wrong_guess:
  "engine_reachable (active_at e w t) \<Longrightarrow> w < 2 \<Longrightarrow> engine_reachable (active_at e (w + 1) (t + 1))"
  by (frule engine_reachable_valid, erule reach_step [where c = "CGuess False" and p = True])
    (simp add: transition_defs)

lemma reach_third_guess:
  "engine_reachable (active_at e 2 t) \<Longrightarrow> e < 4 \<Longrightarrow> engine_reachable (active_at (e + 1) 0 (t + 1))"
  by (frule engine_reachable_valid, erule reach_step [where c = "CGuess False" and p = True])
    (simp add: transition_defs)

lemma reach_reveal:
  "engine_reachable (active_at e w t) \<Longrightarrow> e < 4 \<Longrightarrow> engine_reachable (active_at (e + 1) 0 t)"
  by (frule engine_reachable_valid, erule reach_step [where c = CReveal and p = False])
    (simp add: transition_defs)

lemma reach_guesses_at_level:
  assumes "engine_reachable (active_at e 0 t)" and "0 \<le> w" and "w \<le> 2"
  shows "engine_reachable (active_at e w (t + w))"
proof -
  have 1: "engine_reachable (active_at e 1 (t + 1))"
    using reach_wrong_guess [OF assms(1)] by simp
  have 2: "engine_reachable (active_at e 2 (t + 2))"
    using reach_wrong_guess [OF 1] by (simp add: add.assoc)
  consider "w = 0" | "w = 1" | "w = 2" using assms(2,3) by linarith
  then show ?thesis using assms(1) 1 2 by cases auto
qed

lemma reach_level_start:
  "t \<le> 3 * n \<Longrightarrow> n \<le> 4 \<Longrightarrow> engine_reachable (active_at (int n) 0 (int t))"
proof (induction n arbitrary: t)
  case 0
  then show ?case using reach_start by (simp add: initial_attempt_def)
next
  case (Suc n)
  have up: "int n + 1 = int (Suc n)" by simp
  show ?case
  proof (cases "t \<le> 3 * n")
    case True
    with Suc have "engine_reachable (active_at (int n) 0 (int t))" by simp
    from reach_reveal [OF this] show ?thesis using Suc.prems(2) up by (simp add: add.commute)
  next
    case False
    define k where "k = t - 3 * n"
    have k: "1 \<le> k" "k \<le> 3" "t = 3 * n + k" using False Suc.prems(1) by (auto simp: k_def)
    have base: "engine_reachable (active_at (int n) 0 (int (3 * n)))"
      using Suc.IH [of "3 * n"] Suc.prems(2) by (simp del: of_nat_mult)
    show ?thesis
    proof (cases "k = 3")
      case True
      have "engine_reachable (active_at (int n) 2 (int (3 * n) + 2))"
        using reach_guesses_at_level [OF base, of 2] by simp
      from reach_third_guess [OF this] show ?thesis using Suc.prems(2) k(3) True by (simp add: add_ac)
    next
      case False
      then have "engine_reachable (active_at (int n) (int k) (int (3 * n) + int k))"
        using k by (intro reach_guesses_at_level [OF base]) auto
      from reach_reveal [OF this] show ?thesis using Suc.prems(2) k(3) up by simp
    qed
  qed
qed

lemma reach_active:
  assumes "valid_snapshot (active_at e w t)"
  shows "engine_reachable (active_at e w t)"
proof -
  from assms have b: "0 \<le> e" "e \<le> 4" "0 \<le> w" "w \<le> 2" "w \<le> t" "t \<le> 3 * e + w"
    by (auto simp: active_at_valid)
  have "engine_reachable (active_at (int (nat e)) 0 (int (nat (t - w))))"
    using b by (intro reach_level_start) auto
  then have "engine_reachable (active_at e 0 (t - w))" using b by simp
  from reach_guesses_at_level [OF this b(3,4)] show ?thesis by simp
qed

lemma valid_imp_engine_reachable:
  assumes v: "valid_snapshot a"
  shows "engine_reachable a"
proof -
  obtain e w t s where a: "a = \<lparr>evidenceLevel = e, wrongGuessesAtLevel = w, totalWrongGuesses = t, state = s\<rparr>"
    by (cases a) auto
  have act: "engine_reachable (active_at e w t)" if "s \<noteq> EXHAUSTED"
    using that v by (intro reach_active) (auto simp: a valid_snapshot_def)
  show ?thesis
  proof (cases s)
    case ACTIVE
    then show ?thesis using act a by simp
  next
    case SOLVED
    with act have r: "engine_reachable (active_at e w t)" by simp
    from reach_step [OF r, of "CGuess True" a True] show ?thesis
      using engine_reachable_valid [OF r] SOLVED a by (simp add: transition_defs)
  next
    case GIVEN_UP
    with act have r: "engine_reachable (active_at e w t)" by simp
    from reach_step [OF r, of CGiveUp a False] show ?thesis
      using engine_reachable_valid [OF r] GIVEN_UP a by (simp add: transition_defs)
  next
    case EXPIRED
    with act have r: "engine_reachable (active_at e w t)" by simp
    from reach_step [OF r, of CExpire a False] show ?thesis
      using engine_reachable_valid [OF r] EXPIRED a by (simp add: transition_defs)
  next
    case EXHAUSTED
    have r: "engine_reachable (active_at 4 2 14)" by (rule reach_active) (simp add: active_at_valid)
    from reach_step [OF r, of "CGuess False" a True] show ?thesis
      using engine_reachable_valid [OF r] EXHAUSTED a v
      by (simp add: transition_defs valid_snapshot_def)
  qed
qed

text \<open>Property C5. The run-time check of an unknown value accepts it exactly when its four fields
  are the counters and state of an attempt that some sequence of guesses, reveals, giving up and
  expiry can produce from a fresh attempt: it rejects no reachable snapshot and lets no unreachable
  one through.\<close>

theorem snapshot_check_accepts_exactly_reachable:
  "assertValidAttemptSnapshot v = Inr () \<longleftrightarrow> (\<exists>a. decodes_to v a \<and> engine_reachable a)"
proof
  assume ok: "assertValidAttemptSnapshot v = Inr ()"
  then obtain a where "decodes_to v a" by (rule assertValid_imp_decodes)
  with ok show "\<exists>a. decodes_to v a \<and> engine_reachable a"
    using assertValid_decodes valid_imp_engine_reachable by blast
next
  assume "\<exists>a. decodes_to v a \<and> engine_reachable a"
  then show "assertValidAttemptSnapshot v = Inr ()"
    using assertValid_decodes engine_reachable_valid by blast
qed

text \<open>From a snapshot the check accepts, every command returns (no transition throws),
  every snapshot on the way is accepted by the check again, and however many commands are sent at
  most fifteen of them change the attempt.\<close>

lemma attempt_over_after_fifteen_moves:
  assumes "assertSnapshot a = Inr ()"
  shows "changes engine_step a cs \<le> 15 \<and> assertSnapshot (foldl engine_step a cs) = Inr () \<and>
    (\<exists>r. transition (foldl engine_step a cs) c = Inr r)"
proof -
  from assms have v: "valid_snapshot a" by (simp add: assertSnapshot_valid)
  then have "moves_left a \<le> 15" by (auto simp: moves_left_def valid_snapshot_def)
  moreover have "valid_snapshot (foldl engine_step a cs)" using engine.run_good v by blast
  ultimately show ?thesis
    using engine.changes_bounded [OF v, of cs] transition_total by fastforce
qed

lemma attempt_over_after_fifteen_moves_example:
  "changes engine_step initial_attempt (replicate 20 (CGuess False)) \<le> 15"
  using attempt_over_after_fifteen_moves [of initial_attempt "replicate 20 (CGuess False)" CReveal]
  by (simp add: assertSnapshot_valid valid_snapshot_def initial_attempt_def)

text \<open>A wrong guess at level four with two wrong guesses already made there ends the
  attempt as EXHAUSTED with fifteen recorded wrong guesses whatever the true total was; the recorded
  total is the true one only when no level was skipped by a reveal.\<close>

lemma exhaustion_records_fifteen:
  assumes "2 \<le> t" and "t \<le> 14"
  shows "assertSnapshot (active_at 4 2 t) = Inr () \<and>
    (\<exists>a'. applyGuess (active_at 4 2 t) False = Inr (Accepted a' True) \<and> state a' = EXHAUSTED \<and>
       totalWrongGuesses a' = 15 \<and> (totalWrongGuesses a' = t + 1 \<longleftrightarrow> t = 14))"
  using assms by (auto simp: transition_defs assertSnapshot_valid valid_snapshot_def)

lemma exhaustion_records_fifteen_example:
  "\<exists>a'. applyGuess (active_at 4 2 2) False = Inr (Accepted a' True) \<and> totalWrongGuesses a' \<noteq> 3"
  using exhaustion_records_fifteen [of 2] by auto

section \<open>The score\<close>

lemma timeBonus_Inr:
  "timeBonusFor n = Inr b \<Longrightarrow> \<exists>r. n = Num r \<and> 0 \<le> r \<and> b \<in> {0, 25, 60, 100, 150}"
  by (cases n) (auto split: if_splits)

lemma timeBonus_total: "0 \<le> r \<Longrightarrow> \<exists>b. timeBonusFor (Num r) = Inr b"
  by simp

lemma timeBonus_antimono:
  "timeBonusFor (Num r) = Inr b \<Longrightarrow> timeBonusFor (Num r') = Inr b' \<Longrightarrow> r \<le> r' \<Longrightarrow> b' \<le> b"
  by (auto split: if_splits)

lemma scoreSolvedAttempt_Inr:
  "scoreSolvedAttempt a n = Inr b \<longleftrightarrow> valid_snapshot a \<and> (\<exists>t. timeBonusFor n = Inr t \<and>
     b = \<lparr>solveRank = fst (LEVEL_RULES (evidenceLevel a)), tierScore = snd (LEVEL_RULES (evidenceLevel a)),
          wrongGuessPenalty = 40 * totalWrongGuesses a, timeBonus = t,
          score = max 0 (snd (LEVEL_RULES (evidenceLevel a)) - 40 * totalWrongGuesses a + t)\<rparr>)"
  by (auto simp: scoreSolvedAttempt_def result_simps assertSnapshot_valid Let_def split: prod.splits)

lemma scoreSolvedAttempt_total:
  "valid_snapshot a \<Longrightarrow> 0 \<le> r \<Longrightarrow> \<exists>b. scoreSolvedAttempt a (Num r) = Inr b"
  using timeBonus_total [of r] by (auto simp: scoreSolvedAttempt_Inr)

lemma LEVEL_RULES_tier:
  "0 \<le> e \<Longrightarrow> e \<le> 4 \<Longrightarrow> snd (LEVEL_RULES e) \<in> {1200, 1000, 750, 500, 250}"
  by (auto simp: LEVEL_RULES_def)

lemma LEVEL_RULES_floor:
  "0 \<le> e \<Longrightarrow> e < 4 \<Longrightarrow> t \<le> 3 * e + 2 \<Longrightarrow> 60 \<le> snd (LEVEL_RULES e) - 40 * t"
  by (auto simp: LEVEL_RULES_def)

lemma score_range:
  assumes "scoreSolvedAttempt a n = Inr b" and "state a = SOLVED"
  shows "0 \<le> score b \<and> score b \<le> 1350 \<and> (evidenceLevel a < 4 \<longrightarrow> 60 \<le> score b)"
proof -
  from assms(1) obtain t where v: "valid_snapshot a" and t: "timeBonusFor n = Inr t"
    and b: "score b = max 0 (snd (LEVEL_RULES (evidenceLevel a)) - 40 * totalWrongGuesses a + t)"
    by (auto simp: scoreSolvedAttempt_Inr)
  have e: "0 \<le> evidenceLevel a" "evidenceLevel a \<le> 4" "0 \<le> totalWrongGuesses a"
    "totalWrongGuesses a \<le> 3 * evidenceLevel a + 2"
    using v assms(2) by (auto simp: valid_snapshot_def)
  have "0 \<le> t" "t \<le> 150" using timeBonus_Inr [OF t] by auto
  then show ?thesis
    using LEVEL_RULES_tier [OF e(1,2)] LEVEL_RULES_floor [OF e(1) _ e(4)] e(3) b by auto
qed

lemma score_antimono:
  "scoreSolvedAttempt a (Num r) = Inr b \<Longrightarrow> scoreSolvedAttempt a' (Num r') = Inr b' \<Longrightarrow>
   evidenceLevel a' = evidenceLevel a \<Longrightarrow> totalWrongGuesses a \<le> totalWrongGuesses a' \<Longrightarrow>
   r \<le> r' \<Longrightarrow> score b' \<le> score b"
  using timeBonus_antimono [of r _ r'] by (fastforce simp: scoreSolvedAttempt_Inr)

lemma score_defined:
  "(\<exists>b. scoreSolvedAttempt a n = Inr b) \<longleftrightarrow>
     assertSnapshot a = Inr () \<and> (\<exists>r. n = Num r \<and> 0 \<le> r)"
proof
  assume "\<exists>b. scoreSolvedAttempt a n = Inr b"
  then show "assertSnapshot a = Inr () \<and> (\<exists>r. n = Num r \<and> 0 \<le> r)"
    using timeBonus_Inr by (fastforce simp: scoreSolvedAttempt_Inr assertSnapshot_valid)
next
  assume "assertSnapshot a = Inr () \<and> (\<exists>r. n = Num r \<and> 0 \<le> r)"
  then show "\<exists>b. scoreSolvedAttempt a n = Inr b"
    using scoreSolvedAttempt_total by (auto simp: assertSnapshot_valid)
qed

text \<open>Scoring a solved attempt succeeds exactly for a valid snapshot and a finite,
  non-negative elapsed time. The score is then between 0 and 1350, it is at least 60 for any solve
  below evidence level four (the clamp at zero only ever acts at the last level), and with the same
  evidence level neither another wrong guess nor more time can raise it.\<close>

lemma score_range_and_monotonicity:
  assumes "state a = SOLVED"
  shows "((\<exists>b. scoreSolvedAttempt a n = Inr b) \<longleftrightarrow>
           assertSnapshot a = Inr () \<and> (\<exists>r. n = Num r \<and> 0 \<le> r)) \<and>
    (\<forall>b. scoreSolvedAttempt a n = Inr b \<longrightarrow>
           0 \<le> score b \<and> score b \<le> 1350 \<and> (evidenceLevel a < 4 \<longrightarrow> 60 \<le> score b)) \<and>
    (\<forall>b a' b' r r'. scoreSolvedAttempt a (Num r) = Inr b \<and> scoreSolvedAttempt a' (Num r') = Inr b' \<and>
           evidenceLevel a' = evidenceLevel a \<and> totalWrongGuesses a \<le> totalWrongGuesses a' \<and>
           r \<le> r' \<longrightarrow> score b' \<le> score b)"
  using score_defined score_range [OF _ assms] score_antimono by blast

lemma score_range_and_monotonicity_example:
  "\<exists>b. scoreSolvedAttempt ((active_at 1 2 4)\<lparr>state := SOLVED\<rparr>) (Num 45000) = Inr b \<and>
     60 \<le> score b \<and> score b \<le> 1350"
proof -
  let ?a = "(active_at 1 2 4)\<lparr>state := SOLVED\<rparr>"
  have "state ?a = SOLVED" by simp
  note score_facts = score_range_and_monotonicity [OF this, of "Num 45000"]
  have "assertSnapshot ?a = Inr ()" by (simp add: assertSnapshot_valid valid_snapshot_def)
  then obtain b where "scoreSolvedAttempt ?a (Num 45000) = Inr b" using score_facts by auto
  with score_facts show ?thesis by auto
qed

end
