(* ===== verification/Calendar.thy ===== *)
theory Calendar
  imports Prelude
begin

text \<open>
  The UTC calendar as the code uses it: the text of a day (\<^verbatim>\<open>YYYY-MM-DD\<close>), \<^verbatim>\<open>Date.parse\<close> of its
  midnight, \<^verbatim>\<open>toISOString\<close>, and \<open>utcDayNumber\<close> of \<^verbatim>\<open>packages/domain/src/aggregates.ts\<close>.
  \<^verbatim>\<open>Date\<close> is the standard library's proleptic Gregorian calendar: day numbers count from
  1970-01-01, and \<^verbatim>\<open>Date.parse\<close> takes any day from 1 to 31 in any month and lets a day past the
  month's end run into the next month, so the code compares the printed date with its input.

  Results: the round trip between day numbers and dates, and that \<open>utcDayNumber\<close> accepts exactly
  the real calendar days and orders them as the calendar does.
\<close>

datatype civil = Civil (year: int) (month: int) (day: int)

section \<open>Day numbers\<close>

definition leap :: "int \<Rightarrow> bool" where
  "leap y \<longleftrightarrow> y mod 4 = 0 \<and> (y mod 100 \<noteq> 0 \<or> y mod 400 = 0)"

definition day_from_year :: "int \<Rightarrow> int" where
  "day_from_year y =
    365 * (y - 1970) + (y - 1969) div 4 - (y - 1901) div 100 + (y - 1601) div 400"

definition month_lengths :: "bool \<Rightarrow> int list" where
  "month_lengths lp = [31, if lp then 29 else 28, 31, 30, 31, 30, 31, 31, 30, 31, 30, 31]"

definition days_in_month :: "int \<Rightarrow> int \<Rightarrow> int" where
  "days_in_month y m = month_lengths (leap y) ! nat (m - 1)"

definition month_offset :: "bool \<Rightarrow> int \<Rightarrow> int" where
  "month_offset lp m = sum_list (take (nat (m - 1)) (month_lengths lp))"

definition make_day :: "int \<Rightarrow> int \<Rightarrow> int \<Rightarrow> int" where
  "make_day y m d = day_from_year y + month_offset (leap y) m + (d - 1)"

fun day_number :: "civil \<Rightarrow> int" where
  "day_number (Civil y m d) = make_day y m d"

fun valid_civil :: "civil \<Rightarrow> bool" where
  "valid_civil (Civil y m d) \<longleftrightarrow> 1 \<le> m \<and> m \<le> 12 \<and> 1 \<le> d \<and> d \<le> days_in_month y m"

section \<open>From a day number back to the date\<close>

definition year_of_day :: "int \<Rightarrow> int" where
  "year_of_day n =
    (let e = 1970 + (400 * n) div 146097 in
     if n < day_from_year e then e - 1
     else if day_from_year (e + 1) \<le> n then e + 1
     else e)"

fun month_search :: "int list \<Rightarrow> int \<Rightarrow> int \<Rightarrow> int \<times> int" where
  "month_search [] m r = (m, r + 1)"
| "month_search (l # ls) m r = (if r < l then (m, r + 1) else month_search ls (m + 1) (r - l))"

definition civil_of_day :: "int \<Rightarrow> civil" where
  "civil_of_day n =
    (let y = year_of_day n;
         (m, d) = month_search (month_lengths (leap y)) 1 (n - day_from_year y)
     in Civil y m d)"

section \<open>Text\<close>

definition is_digit :: "char \<Rightarrow> bool" where
  "is_digit c \<longleftrightarrow> c \<in> set ''0123456789''"

definition digit_val :: "char \<Rightarrow> int" where
  "digit_val c = of_char c - 48"

definition digit_char :: "int \<Rightarrow> char" where
  "digit_char k = ''0123456789'' ! nat k"

definition four_digits :: "int \<Rightarrow> string" where
  "four_digits n = map digit_char [n div 1000 mod 10, n div 100 mod 10, n div 10 mod 10, n mod 10]"

definition three_digits :: "int \<Rightarrow> string" where
  "three_digits n = map digit_char [n div 100 mod 10, n div 10 mod 10, n mod 10]"

definition two_digits :: "int \<Rightarrow> string" where
  "two_digits n = map digit_char [n div 10 mod 10, n mod 10]"

fun iso_date :: "civil \<Rightarrow> string" where
  "iso_date (Civil y m d) = four_digits y @ ''-'' @ two_digits m @ ''-'' @ two_digits d"

text \<open>\<^verbatim>\<open>/^\d{4}-\d{2}-\d{2}$/\<close>, with the three numbers it matched.\<close>

definition digits_value :: "string \<Rightarrow> int" where
  "digits_value s = foldl (\<lambda>v c. 10 * v + digit_val c) 0 s"

definition match_day :: "string \<Rightarrow> civil option" where
  "match_day s =
    (case s of
       [y1, y2, y3, y4, h1, m1, m2, h2, d1, d2] \<Rightarrow>
         if list_all is_digit [y1, y2, y3, y4, m1, m2, d1, d2] \<and> h1 = CHR ''-'' \<and> h2 = CHR ''-''
         then Some (Civil (digits_value [y1, y2, y3, y4]) (digits_value [m1, m2])
                          (digits_value [d1, d2]))
         else None
     | _ \<Rightarrow> None)"

text \<open>\<^verbatim>\<open>Date.parse\<close> of \<^verbatim>\<open>YYYY-MM-DDT00:00:00.000Z\<close>, as a day number; \<open>None\<close> is \<^verbatim>\<open>NaN\<close>.\<close>

fun date_parse :: "civil \<Rightarrow> int option" where
  "date_parse (Civil y m d) =
    (if 1 \<le> m \<and> m \<le> 12 \<and> 1 \<le> d \<and> d \<le> 31 then Some (make_day y m d) else None)"

definition utcDayNumber :: "string \<Rightarrow> int result" where
  "utcDayNumber s =
    (case match_day s of
       None \<Rightarrow> Inl (RangeError ''UTC day must use YYYY-MM-DD'')
     | Some c \<Rightarrow>
         (case date_parse c of
            None \<Rightarrow> Inl (RangeError ''UTC day must be a valid calendar day'')
          | Some n \<Rightarrow>
              if iso_date (civil_of_day n) \<noteq> s
              then Inl (RangeError ''UTC day must be a valid calendar day'')
              else Inr n))"

text \<open>An instant is a number of milliseconds since 1970; \<open>iso_timestamp\<close> is \<^verbatim>\<open>toISOString\<close>.\<close>

definition MILLISECONDS_PER_DAY :: int where
  "MILLISECONDS_PER_DAY = 86400000"

definition iso_timestamp :: "int \<Rightarrow> string" where
  "iso_timestamp t =
    (let ms = t mod MILLISECONDS_PER_DAY in
     iso_date (civil_of_day (t div MILLISECONDS_PER_DAY)) @ ''T'' @
     two_digits (ms div 3600000) @ '':'' @ two_digits (ms div 60000 mod 60) @ '':'' @
     two_digits (ms div 1000 mod 60) @ ''.'' @ three_digits (ms mod 1000) @ ''Z'')"

section \<open>Years\<close>

lemma step_div:
  fixes x k :: int
  assumes "0 < k"
  shows "(x + 1) div k = x div k + (if (x + 1) mod k = 0 then 1 else 0)"
proof -
  define q r where "q = x div k" and "r = x mod k"
  have x: "x = k * q + r" and r: "0 \<le> r" "r < k"
    using assms by (simp_all add: q_def r_def)
  show ?thesis
  proof (cases "r + 1 = k")
    case True
    then have "x + 1 = k * (q + 1) + 0" using x by (simp add: algebra_simps)
    then have "(x + 1) div k = q + 1" "(x + 1) mod k = 0"
      using assms by (simp_all add: int_div_pos_eq int_mod_pos_eq)
    then show ?thesis by (simp add: q_def)
  next
    case False
    then have "x + 1 = k * q + (r + 1)" "0 \<le> r + 1" "r + 1 < k" using x r by auto
    then have "(x + 1) div k = q" "(x + 1) mod k = r + 1"
      by (blast intro: int_div_pos_eq int_mod_pos_eq)+
    then show ?thesis using r by (simp add: q_def)
  qed
qed

lemma mod_shift: "c mod k = 0 \<Longrightarrow> (y - c) mod k = 0 \<longleftrightarrow> y mod k = (0::int)"
  by (simp add: mod_eq_0_iff_dvd dvd_diff_left_iff)

lemma leap_mods: "y mod 100 = 0 \<Longrightarrow> y mod 4 = 0" "y mod 400 = 0 \<Longrightarrow> y mod 100 = (0::int)"
  by (auto simp: mod_eq_0_iff_dvd intro: dvd_trans [of _ 100] dvd_trans [of _ 400])

lemma day_from_year_Suc: "day_from_year (y + 1) = day_from_year y + (if leap y then 366 else 365)"
proof -
  define a b c where "a = (y - 1969) div 4" and "b = (y - 1901) div 100" and "c = (y - 1601) div 400"
  have a': "(y - 1968) div 4 = a + (if y mod 4 = 0 then 1 else 0)"
    using step_div [of 4 "y - 1969"] mod_shift [of 1968 4 y] by (simp add: a_def)
  have b': "(y - 1900) div 100 = b + (if y mod 100 = 0 then 1 else 0)"
    using step_div [of 100 "y - 1901"] mod_shift [of 1900 100 y] by (simp add: b_def)
  have c': "(y - 1600) div 400 = c + (if y mod 400 = 0 then 1 else 0)"
    using step_div [of 400 "y - 1601"] mod_shift [of 1600 400 y] by (simp add: c_def)
  have "day_from_year y = 365 * (y - 1970) + a - b + c"
    by (simp only: day_from_year_def a_def b_def c_def)
  moreover have "day_from_year (y + 1) = 365 * (y - 1969) +
      (a + (if y mod 4 = 0 then 1 else 0)) - (b + (if y mod 100 = 0 then 1 else 0)) +
      (c + (if y mod 400 = 0 then 1 else 0))"
  proof -
    have e: "y + 1 - 1970 = y - 1969" "y + 1 - 1969 = y - 1968" "y + 1 - 1901 = y - 1900"
      "y + 1 - 1601 = y - 1600" by simp_all
    show ?thesis unfolding day_from_year_def e a' b' c' ..
  qed
  ultimately show ?thesis
    using leap_mods [of y]
    by (cases "y mod 4 = 0"; cases "y mod 100 = 0"; cases "y mod 400 = 0") (simp_all add: leap_def)
qed

lemma day_from_year_mono: "y < z \<Longrightarrow> day_from_year y + 365 \<le> day_from_year z"
proof (induction "nat (z - y - 1)" arbitrary: z)
  case 0
  then have "z = y + 1" by simp
  then show ?case by (simp add: day_from_year_Suc)
next
  case (Suc k)
  then have "day_from_year y + 365 \<le> day_from_year (z - 1)" by (intro Suc.hyps(1)) auto
  moreover have "day_from_year z = day_from_year (z - 1) + (if leap (z - 1) then 366 else 365)"
    using day_from_year_Suc [of "z - 1"] by simp
  ultimately show ?case by auto
qed

lemma div_bounds:
  fixes x k :: int
  assumes "0 < k"
  shows "k * (x div k) \<le> x \<and> x < k * (x div k) + k"
proof -
  have "k * (x div k) + x mod k = x" by simp
  then show ?thesis using pos_mod_bound [OF assms, of x] pos_mod_sign [OF assms, of x] by linarith
qed

lemma year_of_day_bounds:
  "day_from_year (year_of_day n) \<le> n \<and> n < day_from_year (year_of_day n + 1)"
proof -
  define k where "k = (400 * n) div 146097"
  have kb: "146097 * k \<le> 400 * n" "400 * n < 146097 * k + 146097"
    using div_bounds [of 146097 "400 * n"] by (auto simp: k_def)
  have low: "day_from_year (1970 + k - 1) \<le> n"
    using div_bounds [of 4 "k"] div_bounds [of 100 "k + 68"] div_bounds [of 400 "k + 368"] kb
    by (simp add: day_from_year_def algebra_simps)
  have high: "n < day_from_year (1970 + k + 2)"
    using div_bounds [of 4 "k + 3"] div_bounds [of 100 "k + 71"] div_bounds [of 400 "k + 371"] kb
    by (simp add: day_from_year_def algebra_simps)
  show ?thesis
    using low high by (auto simp: year_of_day_def Let_def k_def [symmetric] add.commute add.left_commute)
qed

lemma year_unique:
  assumes "day_from_year y \<le> n" "n < day_from_year (y + 1)"
  shows "year_of_day n = y"
proof (rule ccontr)
  assume "year_of_day n \<noteq> y"
  then consider "year_of_day n + 1 \<le> y" | "y + 1 \<le> year_of_day n" by linarith
  then show False
  proof cases
    case 1
    have "day_from_year (year_of_day n + 1) \<le> day_from_year y"
      using 1 day_from_year_mono [of "year_of_day n + 1" y] by (cases "year_of_day n + 1 = y") auto
    then show False using assms(1) year_of_day_bounds [of n] by linarith
  next
    case 2
    have "day_from_year (y + 1) \<le> day_from_year (year_of_day n)"
      using 2 day_from_year_mono [of "y + 1" "year_of_day n"] by (cases "y + 1 = year_of_day n") auto
    then show False using assms(2) year_of_day_bounds [of n] by linarith
  qed
qed

section \<open>Months\<close>

lemma month_lengths_pos: "l \<in> set (month_lengths lp) \<Longrightarrow> 28 \<le> l \<and> l \<le> 31"
  by (auto simp: month_lengths_def split: if_splits)

lemma length_month_lengths [simp]: "length (month_lengths lp) = 12"
  by (simp add: month_lengths_def)

lemma sum_month_lengths: "sum_list (month_lengths lp) = (if lp then 366 else 365)"
  by (simp add: month_lengths_def)

lemma month_search_at:
  assumes "k < length ls" "\<forall>l \<in> set ls. 0 < l"
    "sum_list (take k ls) \<le> r" "r < sum_list (take k ls) + ls ! k"
  shows "month_search ls m r = (m + int k, r - sum_list (take k ls) + 1)"
  using assms
proof (induction ls arbitrary: m r k)
  case Nil
  then show ?case by simp
next
  case (Cons l ls)
  show ?case
  proof (cases k)
    case 0
    then show ?thesis using Cons.prems by simp
  next
    case (Suc k')
    have "0 \<le> sum_list (take k' ls)"
      using Cons.prems(2) by (intro sum_list_nonneg) (fastforce dest: in_set_takeD)
    then have "\<not> r < l" using Cons.prems(3) Suc by simp
    then show ?thesis using Cons.IH [of k' "r - l" "m + 1"] Cons.prems Suc by simp
  qed
qed

lemma month_index:
  fixes r :: int
  assumes "0 \<le> r" "r < sum_list ls" "\<forall>l \<in> set ls. 0 < l"
  shows "\<exists>k < length ls. sum_list (take k ls) \<le> r \<and> r < sum_list (take k ls) + ls ! k"
  using assms
proof (induction ls arbitrary: r)
  case Nil
  then show ?case by simp
next
  case (Cons l ls)
  show ?case
  proof (cases "r < l")
    case True
    then show ?thesis using Cons.prems(1) by (intro exI [of _ 0]) simp
  next
    case False
    then have "0 \<le> r - l" "r - l < sum_list ls" using Cons.prems(2) by simp_all
    then obtain k where k: "k < length ls" "sum_list (take k ls) \<le> r - l"
      "r - l < sum_list (take k ls) + ls ! k" using Cons.IH [of "r - l"] Cons.prems(3) by auto
    then have "Suc k < length (l # ls)" "sum_list (take (Suc k) (l # ls)) \<le> r"
      "r < sum_list (take (Suc k) (l # ls)) + (l # ls) ! Suc k" by simp_all
    then show ?thesis by blast
  qed
qed

lemma days_in_month_bounds: "1 \<le> m \<Longrightarrow> m \<le> 12 \<Longrightarrow> 28 \<le> days_in_month y m \<and> days_in_month y m \<le> 31"
  unfolding days_in_month_def by (rule month_lengths_pos [of _ "leap y"]) (simp add: nth_mem)

lemma month_offset_fits:
  assumes "1 \<le> m" "m \<le> 12"
  shows "0 \<le> month_offset lp m \<and>
    month_offset lp m + month_lengths lp ! nat (m - 1) \<le> (if lp then 366 else 365)"
proof -
  let ?ls = "month_lengths lp" and ?k = "nat (m - 1)"
  have k: "?k < length ?ls" using assms by simp
  have "sum_list ?ls = sum_list (take ?k ?ls) + ?ls ! ?k + sum_list (drop (Suc ?k) ?ls)"
    by (metis id_take_nth_drop [OF k] sum_list.Cons sum_list.append add.assoc)
  moreover have "0 \<le> sum_list (take ?k ?ls)" "0 \<le> sum_list (drop (Suc ?k) ?ls)"
    using month_lengths_pos by (fastforce intro!: sum_list_nonneg dest: in_set_takeD in_set_dropD)+
  ultimately show ?thesis using sum_month_lengths [of lp] by (simp add: month_offset_def)
qed

text \<open>The round trip from a date to its number and back, and its converse.\<close>

lemma civil_of_day_number:
  assumes "valid_civil c"
  shows "civil_of_day (day_number c) = c"
proof -
  obtain y m d where c: "c = Civil y m d" by (cases c)
  with assms have v: "1 \<le> m" "m \<le> 12" "1 \<le> d" "d \<le> days_in_month y m" by auto
  let ?n = "make_day y m d" and ?ls = "month_lengths (leap y)" and ?k = "nat (m - 1)"
  have fit: "0 \<le> month_offset (leap y) m" "month_offset (leap y) m + days_in_month y m \<le>
      (if leap y then 366 else 365)"
    using month_offset_fits [OF v(1,2), of "leap y"] by (simp_all add: days_in_month_def)
  have y: "year_of_day ?n = y"
    using fit v by (intro year_unique) (auto simp: make_day_def day_from_year_Suc)
  have "month_search ?ls 1 (?n - day_from_year y) = (1 + int ?k, ?n - day_from_year y - sum_list (take ?k ?ls) + 1)"
    using v month_lengths_pos by (intro month_search_at)
      (fastforce simp: make_day_def month_offset_def days_in_month_def)+
  then show ?thesis
    using v(1) y by (simp add: civil_of_day_def c Let_def make_day_def month_offset_def)
qed

lemma day_number_civil_of_day: "day_number (civil_of_day n) = n \<and> valid_civil (civil_of_day n)"
proof -
  define y where "y = year_of_day n"
  let ?ls = "month_lengths (leap y)" and ?r = "n - day_from_year y"
  have b: "0 \<le> ?r" "?r < sum_list ?ls"
    using year_of_day_bounds [of n] by (auto simp: y_def sum_month_lengths day_from_year_Suc)
  have pos: "\<forall>l \<in> set ?ls. 0 < l" using month_lengths_pos by fastforce
  from month_index [OF b pos] obtain k where k: "k < 12" "sum_list (take k ?ls) \<le> ?r"
    "?r < sum_list (take k ?ls) + ?ls ! k" by auto
  have "month_search ?ls 1 ?r = (1 + int k, ?r - sum_list (take k ?ls) + 1)"
    using k pos by (intro month_search_at) auto
  then have "civil_of_day n = Civil y (1 + int k) (?r - sum_list (take k ?ls) + 1)"
    by (simp add: civil_of_day_def y_def Let_def)
  then show ?thesis using k by (simp add: make_day_def month_offset_def days_in_month_def)
qed

section \<open>Text of a date\<close>

lemma digit_char_inverse: "is_digit c \<Longrightarrow> digit_char (digit_val c) = c"
  by (auto simp: is_digit_def digit_char_def digit_val_def)

lemma digit_val_bounds: "is_digit c \<Longrightarrow> 0 \<le> digit_val c \<and> digit_val c \<le> 9"
  by (auto simp: is_digit_def digit_val_def)

lemma digit_cases: "0 \<le> k \<Longrightarrow> k \<le> 9 \<Longrightarrow> k \<in> {0,1,2,3,4,5,6,7,8,9::int}"
  by (simp, arith)

lemma digit_char_digit: "0 \<le> k \<Longrightarrow> k \<le> 9 \<Longrightarrow> is_digit (digit_char k) \<and> digit_val (digit_char k) = k"
  by (drule (1) digit_cases) (auto simp: is_digit_def digit_char_def digit_val_def)

lemma digit_mod: "0 \<le> k mod 10 \<and> k mod 10 \<le> (9::int)"
  using pos_mod_bound [of 10 k] by simp

lemma digit_split:
  "0 \<le> f \<Longrightarrow> f \<le> 9 \<Longrightarrow> (10 * q + f) div 10 = q \<and> (10 * q + f) mod 10 = (f::int)"
  by (auto intro: int_div_pos_eq int_mod_pos_eq)

lemma digits_value_two:
  "0 \<le> a \<Longrightarrow> a \<le> 9 \<Longrightarrow> 0 \<le> b \<Longrightarrow> b \<le> 9 \<Longrightarrow> digits_value (map digit_char [a, b]) = 10 * a + b"
  by (simp add: digits_value_def digit_char_digit)

lemma digits_value_four:
  "0 \<le> a \<Longrightarrow> a \<le> 9 \<Longrightarrow> 0 \<le> b \<Longrightarrow> b \<le> 9 \<Longrightarrow> 0 \<le> c \<Longrightarrow> c \<le> 9 \<Longrightarrow> 0 \<le> d \<Longrightarrow> d \<le> 9 \<Longrightarrow>
   digits_value (map digit_char [a, b, c, d]) = 10 * (10 * (10 * a + b) + c) + d"
  by (simp add: digits_value_def digit_char_digit)

lemma two_digit_value:
  "0 \<le> n \<Longrightarrow> n \<le> 99 \<Longrightarrow> 10 * (n div 10 mod 10) + n mod 10 = (n::int)"
  by (subst mod_pos_pos_trivial [of "n div 10"]) (auto simp: mult_div_mod_eq)

lemma four_digit_value:
  assumes "0 \<le> n" "n \<le> (9999::int)"
  shows "10 * (10 * (10 * (n div 1000 mod 10) + n div 100 mod 10) + n div 10 mod 10) + n mod 10 = n"
proof -
  have "n div 1000 mod 10 = n div 1000" using assms by simp
  moreover have "n div 100 = n div 10 div 10" "n div 1000 = n div 10 div 10 div 10"
    by (simp_all add: zdiv_zmult2_eq [symmetric])
  ultimately show ?thesis by (simp add: mult_div_mod_eq)
qed

lemma length_digits [simp]: "length (four_digits n) = 4" "length (two_digits n) = 2"
  "length (three_digits n) = 3"
  by (simp_all add: four_digits_def two_digits_def three_digits_def)

lemma digits_are_digits:
  "list_all is_digit (four_digits n)" "list_all is_digit (two_digits n)"
  using digit_char_digit [OF conjunct1 [OF digit_mod] conjunct2 [OF digit_mod]]
  unfolding list_all_iff four_digits_def two_digits_def by auto

lemma match_day_digits:
  "length ys = 4 \<Longrightarrow> length ms = 2 \<Longrightarrow> length ds = 2 \<Longrightarrow> list_all is_digit ys \<Longrightarrow>
   list_all is_digit ms \<Longrightarrow> list_all is_digit ds \<Longrightarrow>
   match_day (ys @ ''-'' @ ms @ ''-'' @ ds) =
     Some (Civil (digits_value ys) (digits_value ms) (digits_value ds))"
  by (auto simp: match_day_def length_Suc_conv numeral_eq_Suc)

lemma match_iso_date:
  assumes "valid_civil c" "0 \<le> year c" "year c \<le> 9999"
  shows "match_day (iso_date c) = Some c"
proof -
  obtain y m d where c: "c = Civil y m d" by (cases c)
  have md: "0 \<le> m" "m \<le> 99" "0 \<le> d" "d \<le> 99"
    using assms(1) c days_in_month_bounds [of m y] by auto
  have dm: "0 \<le> x mod 10" "x mod 10 \<le> 9" for x :: int
    using digit_mod [of x] by blast+
  have "digits_value (four_digits y) =
      10 * (10 * (10 * (y div 1000 mod 10) + y div 100 mod 10) + y div 10 mod 10) + y mod 10"
    unfolding four_digits_def by (rule digits_value_four) (rule dm)+
  also have "\<dots> = y" using assms c by (intro four_digit_value) auto
  finally have "digits_value (four_digits y) = y" .
  moreover have "digits_value (two_digits x) = x" if "0 \<le> x" "x \<le> 99" for x
  proof -
    have "digits_value (two_digits x) = 10 * (x div 10 mod 10) + x mod 10"
      unfolding two_digits_def by (rule digits_value_two) (rule dm)+
    also have "\<dots> = x" by (rule two_digit_value [OF that])
    finally show ?thesis .
  qed
  then have "digits_value (two_digits m) = m" "digits_value (two_digits d) = d" using md by blast+
  ultimately show ?thesis
    unfolding c iso_date.simps
    by (subst match_day_digits) (simp_all add: digits_are_digits)
qed

lemma iso_date_inject:
  "valid_civil c \<Longrightarrow> valid_civil c' \<Longrightarrow> 0 \<le> year c \<Longrightarrow> year c \<le> 9999 \<Longrightarrow> 0 \<le> year c' \<Longrightarrow>
   year c' \<le> 9999 \<Longrightarrow> iso_date c = iso_date c' \<Longrightarrow> c = c'"
  by (metis match_iso_date option.inject)

lemma match_day_Some:
  assumes "match_day s = Some c"
  shows "iso_date c = s \<and> 0 \<le> year c \<and> year c \<le> 9999"
proof -
  from assms obtain y1 y2 y3 y4 m1 m2 d1 d2 where s: "s = [y1, y2, y3, y4, CHR ''-'', m1, m2, CHR ''-'', d1, d2]"
    and dg: "is_digit y1" "is_digit y2" "is_digit y3" "is_digit y4" "is_digit m1" "is_digit m2"
      "is_digit d1" "is_digit d2"
    and c: "c = Civil (digits_value [y1, y2, y3, y4]) (digits_value [m1, m2]) (digits_value [d1, d2])"
    by (auto simp: match_day_def split: list.splits if_splits)
  have four: "four_digits (digits_value [y1, y2, y3, y4]) = [y1, y2, y3, y4]"
  proof -
    define a b e f where "a = digit_val y1" and "b = digit_val y2" and "e = digit_val y3" and "f = digit_val y4"
    have r: "0 \<le> a" "a \<le> 9" "0 \<le> b" "b \<le> 9" "0 \<le> e" "e \<le> 9" "0 \<le> f" "f \<le> 9"
      using digit_val_bounds dg by (auto simp: a_def b_def e_def f_def)
    let ?n = "10 * (10 * (10 * a + b) + e) + f"
    have "?n div 10 = 10 * (10 * a + b) + e" "?n mod 10 = f"
      "(10 * (10 * a + b) + e) div 10 = 10 * a + b" "(10 * (10 * a + b) + e) mod 10 = e"
      "(10 * a + b) div 10 = a" "(10 * a + b) mod 10 = b"
      using r digit_split by blast+
    moreover have "a mod 10 = a" using r by simp
    moreover have "?n div 100 = ?n div 10 div 10" "?n div 1000 = ?n div 10 div 10 div 10"
      using zdiv_zmult2_eq [of 10 ?n 10] zdiv_zmult2_eq [of 10 "?n div 10" 10]
        zdiv_zmult2_eq [of 100 ?n 10] by simp_all
    ultimately have "four_digits ?n = map digit_char [a, b, e, f]"
      by (simp only: four_digits_def)
    then show ?thesis
      using dg by (simp add: digits_value_def a_def b_def e_def f_def digit_char_inverse)
  qed
  have two: "two_digits (digits_value [p, q]) = [p, q]" if "is_digit p" "is_digit q" for p q
  proof -
    have "(10 * digit_val p + digit_val q) div 10 = digit_val p"
      "(10 * digit_val p + digit_val q) mod 10 = digit_val q"
      using digit_split digit_val_bounds [OF that(2)] by blast+
    moreover have "digit_val p mod 10 = digit_val p"
      using digit_val_bounds [OF that(1)] by simp
    ultimately have "two_digits (10 * digit_val p + digit_val q) = map digit_char [digit_val p, digit_val q]"
      by (simp only: two_digits_def)
    then show ?thesis using that by (simp add: two_digits_def digits_value_def digit_char_inverse)
  qed
  have "0 \<le> digits_value [y1, y2, y3, y4]" "digits_value [y1, y2, y3, y4] \<le> 9999"
    using digit_val_bounds [OF dg(1)] digit_val_bounds [OF dg(2)] digit_val_bounds [OF dg(3)]
      digit_val_bounds [OF dg(4)] by (simp_all add: digits_value_def)
  then show ?thesis using four two dg by (simp add: c s)
qed

section \<open>The calendar order\<close>

instantiation civil :: linorder
begin

definition less_eq_civil :: "civil \<Rightarrow> civil \<Rightarrow> bool" where
  "c \<le> c' \<longleftrightarrow> year c < year c' \<or> year c = year c' \<and>
     (month c < month c' \<or> month c = month c' \<and> day c \<le> day c')"

definition less_civil :: "civil \<Rightarrow> civil \<Rightarrow> bool" where
  "c < c' \<longleftrightarrow> c \<le> c' \<and> \<not> c' \<le> (c :: civil)"

instance
  by standard (auto simp: less_eq_civil_def less_civil_def intro: civil.expand)

end

lemma sum_take_mono:
  fixes xs :: "int list"
  assumes "\<forall>x \<in> set xs. 0 \<le> x" "i \<le> j"
  shows "sum_list (take i xs) \<le> sum_list (take j xs)"
proof -
  obtain k where j: "j = i + k" using assms(2) le_Suc_ex by blast
  have "0 \<le> sum_list (take k (drop i xs))"
    using assms(1) by (fastforce intro!: sum_list_nonneg dest: in_set_takeD in_set_dropD)
  then show ?thesis by (simp add: j take_add)
qed

lemma month_offset_Suc:
  "1 \<le> m \<Longrightarrow> m \<le> 12 \<Longrightarrow> month_offset lp m + month_lengths lp ! nat (m - 1) = sum_list (take (Suc (nat (m - 1))) (month_lengths lp))"
  by (simp add: month_offset_def take_Suc_conv_app_nth)

lemma month_offset_mono:
  assumes "1 \<le> m" "m < m'" "m' \<le> 12"
  shows "month_offset lp m + month_lengths lp ! nat (m - 1) \<le> month_offset lp m'"
proof -
  have "Suc (nat (m - 1)) \<le> nat (m' - 1)" using assms by arith
  moreover have "\<forall>l \<in> set (month_lengths lp). 0 \<le> l" using month_lengths_pos by fastforce
  ultimately show ?thesis
    using month_offset_Suc [of m lp] assms sum_take_mono [of "month_lengths lp"]
    by (simp add: month_offset_def [of lp m'])
qed

lemma month_offset_31:
  assumes "1 \<le> m" "m \<le> 12"
  shows "0 \<le> month_offset lp m \<and> month_offset lp m + 31 \<le> (if lp then 366 else 365)"
proof -
  have "m \<in> {1,2,3,4,5,6,7,8,9,10,11,12}" using assms by (simp, arith)
  then show ?thesis by (auto simp: month_offset_def month_lengths_def)
qed

lemma day_number_less:
  assumes "valid_civil c" "valid_civil c'" "c < c'"
  shows "day_number c < day_number c'"
proof -
  obtain y m d y' m' d' where c: "c = Civil y m d" "c' = Civil y' m' d'" by (cases c; cases c')
  note v = assms(1,2) [unfolded c valid_civil.simps]
  consider "y < y'" | "y = y'" "m < m'" | "y = y'" "m = m'" "d < d'"
    using assms(3) by (auto simp: c less_civil_def less_eq_civil_def)
  then show ?thesis
  proof cases
    case 1
    have "day_number c < day_from_year (y + 1)" "day_from_year y' \<le> day_number c'"
      using month_offset_fits [of m "leap y"] month_offset_fits [of m' "leap y'"] v
      by (auto simp: c make_day_def day_from_year_Suc days_in_month_def)
    moreover have "day_from_year (y + 1) \<le> day_from_year y'"
      using 1 day_from_year_mono [of "y + 1" y'] by (cases "y + 1 = y'") auto
    ultimately show ?thesis by linarith
  next
    case 2
    then show ?thesis
      using month_offset_mono [of m m' "leap y"] v by (auto simp: c make_day_def days_in_month_def)
  next
    case 3
    then show ?thesis by (simp add: c make_day_def)
  qed
qed

lemma day_number_less_iff:
  "valid_civil c \<Longrightarrow> valid_civil c' \<Longrightarrow> day_number c < day_number c' \<longleftrightarrow> c < c'"
  by (metis day_number_less linorder_neqE order_less_asym order_less_irrefl)

section \<open>utcDayNumber\<close>

definition calendar_day :: "string \<Rightarrow> civil \<Rightarrow> bool" where
  "calendar_day s c \<longleftrightarrow> valid_civil c \<and> 0 \<le> year c \<and> year c \<le> 9999 \<and> s = iso_date c"

lemma utcDayNumber_accepts: "calendar_day s c \<Longrightarrow> utcDayNumber s = Inr (day_number c)"
  using civil_of_day_number [of c] match_iso_date [of c] days_in_month_bounds [of "month c" "year c"]
  by (cases c) (simp add: calendar_day_def utcDayNumber_def)

lemma year_make_day:
  assumes "1 \<le> m" "m \<le> 12" "1 \<le> d" "d \<le> 31"
  shows "year_of_day (make_day y m d) = y"
proof (rule year_unique)
  note o = month_offset_31 [OF assms(1,2), of "leap y"]
  show "day_from_year y \<le> make_day y m d" using o assms by (simp add: make_day_def)
  show "make_day y m d < day_from_year (y + 1)"
    unfolding make_day_def day_from_year_Suc using o assms by linarith
qed

lemma year_civil_of_day: "year (civil_of_day n) = year_of_day n"
  by (simp add: civil_of_day_def Let_def case_prod_unfold)

lemma year_date_parse: "date_parse c = Some n \<Longrightarrow> year (civil_of_day n) = year c"
  by (cases c) (auto simp: year_civil_of_day year_make_day split: if_splits)

lemma utcDayNumber_Inr:
  assumes "utcDayNumber s = Inr n"
  shows "calendar_day s (civil_of_day n)"
proof -
  from assms obtain c where m: "match_day s = Some c" "date_parse c = Some n"
    and s: "iso_date (civil_of_day n) = s"
    unfolding utcDayNumber_def by (simp split: option.split_asm if_split_asm)
  from s [symmetric] show ?thesis
    using match_day_Some [OF m(1)] year_date_parse [OF m(2)] day_number_civil_of_day [of n]
    by (simp add: calendar_day_def)
qed

lemma calendar_day_unique: "calendar_day s c \<Longrightarrow> calendar_day s c' \<Longrightarrow> c = c'"
  unfolding calendar_day_def using iso_date_inject by blast

text \<open>\<open>utcDayNumber\<close> accepts a text exactly when it is the \<^verbatim>\<open>YYYY-MM-DD\<close> form of a real
  day of the Gregorian calendar from year 0 to 9999, and then returns that day's number. Every other
  text is a range error, a 30 February that \<^verbatim>\<open>Date.parse\<close> would let roll over included; the
  message says whether the form or the day was wrong.\<close>

lemma utc_day_is_the_calendar:
  "(utcDayNumber s = Inr n \<longleftrightarrow> (\<exists>c. calendar_day s c \<and> n = day_number c)) \<and>
   (utcDayNumber s = Inl (RangeError ''UTC day must use YYYY-MM-DD'') \<longleftrightarrow> match_day s = None) \<and>
   (utcDayNumber s = Inl (RangeError ''UTC day must be a valid calendar day'') \<longleftrightarrow>
      match_day s \<noteq> None \<and> (\<nexists>c. calendar_day s c))"
proof -
  have accept: "utcDayNumber s = Inr n \<longleftrightarrow> (\<exists>c. calendar_day s c \<and> n = day_number c)" for n
    using utcDayNumber_Inr utcDayNumber_accepts day_number_civil_of_day by metis
  have form: "utcDayNumber s = Inl (RangeError ''UTC day must use YYYY-MM-DD'') \<longleftrightarrow> match_day s = None"
    by (auto simp: utcDayNumber_def split: option.splits)
  have "utcDayNumber s = Inl (RangeError ''UTC day must be a valid calendar day'') \<longleftrightarrow>
      match_day s \<noteq> None \<and> (\<nexists>n. utcDayNumber s = Inr n)"
    by (auto simp: utcDayNumber_def split: option.splits)
  then show ?thesis using accept form by blast
qed

lemma utcDayNumber_injective: "utcDayNumber s = Inr n \<Longrightarrow> utcDayNumber s' = Inr n \<Longrightarrow> s = s'"
  by (drule utcDayNumber_Inr)+ (simp add: calendar_day_def)

lemma utcDayNumber_order:
  "utcDayNumber s = Inr n \<Longrightarrow> utcDayNumber s' = Inr n' \<Longrightarrow>
   n < n' \<longleftrightarrow> civil_of_day n < civil_of_day n'"
  by (metis day_number_less_iff day_number_civil_of_day)

end
