(* ===== verification/Aggregates.thy ===== *)
theory Aggregates
  imports Attempt_Engine Calendar "HOL-Library.AList"
begin

text \<open>
  \<^verbatim>\<open>packages/domain/src/aggregates.ts\<close>: a player's statistics (streaks, solved and failed cases,
  accuracy) and the knowledge of each region (two counters in hundredths, a Beta distribution's
  parameters, and the percentage shown). A \<^verbatim>\<open>Map\<close> is an association list in insertion order,
  updated with \<open>AList.update\<close>, which keeps the place of a key it knows and appends a new one.

  Results: \<open>roundHalfUp\<close> is rounding of the quotient; the streaks are the longest runs of
  consecutive days they claim to be; a region's counters are the sums over the cases that name it,
  in whatever order the cases came.
\<close>

section \<open>Data\<close>

record profile_statistics =
  currentStreak :: int
  longestStreak :: int
  solvedCount :: int
  failedCount :: int
  accuracyPercentage :: int

record finalized_case_outcome =
  outcome_attempt :: attempt_snapshot
  outcome_regionIds :: "string list"

record knowledge_counters =
  alphaHundredths :: int
  betaHundredths :: int
  sampleCount :: int

record regional_knowledge = knowledge_counters +
  regionId :: string
  displayPercentage :: int

definition INITIAL_ALPHA_HUNDREDTHS :: int where
  "INITIAL_ALPHA_HUNDREDTHS = 200"

definition INITIAL_BETA_HUNDREDTHS :: int where
  "INITIAL_BETA_HUNDREDTHS = 200"

definition PERFORMANCE_BASE_HUNDREDTHS :: "int \<Rightarrow> int" where
  "PERFORMANCE_BASE_HUNDREDTHS e =
    (if e = 0 then 100 else if e = 1 then 85 else if e = 2 then 65 else if e = 3 then 45 else 25)"

section \<open>Helpers\<close>

definition assertTerminalAttempt :: "attempt_snapshot \<Rightarrow> unit result" where
  "assertTerminalAttempt a = bindE (assertSnapshot a) (\<lambda>_.
    throwIf (state a = ACTIVE)
      (RangeError ''aggregate input must contain finalized attempts only''))"

definition assertRegionId :: "string \<Rightarrow> unit result" where
  "assertRegionId r = throwIf (r = []) (RangeError ''regionId must not be empty'')"

definition roundHalfUp :: "int \<Rightarrow> int \<Rightarrow> int result" where
  "roundHalfUp numerator denominator =
    (if \<not> is_safe_int numerator \<or> numerator < 0 \<or> \<not> is_safe_int denominator \<or> denominator \<le> 0
     then Inl (RangeError ''rounding operands must be safe positive integers'')
     else
       let doubledNumerator = numerator * 2;
           doubledDenominator = denominator * 2
       in Inr ((doubledNumerator + denominator) div doubledDenominator))"

section \<open>Streaks\<close>

text \<open>The loop \<^verbatim>\<open>while (days.has(cursor)) { streak += 1; cursor -= 1 }\<close>, which ends because the set
  is finite.\<close>

function count_back :: "int list \<Rightarrow> int \<Rightarrow> int \<Rightarrow> int" where
  "count_back days cursor streak =
    (if cursor \<in> set days then count_back days (cursor - 1) (streak + 1) else streak)"
  by pat_completeness auto
termination
proof (relation "measure (\<lambda>(days, cursor, _). card {d \<in> set days. d \<le> cursor})")
  show "wf (measure (\<lambda>(days, cursor, _). card {d \<in> set days. d \<le> cursor}))" by simp
  show "((days, cursor - 1, streak + 1), days, cursor, streak)
      \<in> measure (\<lambda>(days, cursor, _). card {d \<in> set days. d \<le> cursor})"
    if "cursor \<in> set days" for days and cursor :: int and streak :: int
  proof -
    have "{d \<in> set days. d \<le> cursor - 1} \<subseteq> {d \<in> set days. d \<le> cursor}" by auto
    moreover have "cursor \<in> {d \<in> set days. d \<le> cursor}" "cursor \<notin> {d \<in> set days. d \<le> cursor - 1}"
      using that by auto
    ultimately have "{d \<in> set days. d \<le> cursor - 1} \<subset> {d \<in> set days. d \<le> cursor}" by blast
    then show ?thesis by (simp add: psubset_card_mono)
  qed
qed

declare count_back.simps [simp del]

definition calculateCurrentStreak :: "int list \<Rightarrow> int \<Rightarrow> int" where
  "calculateCurrentStreak days today =
    (let cursor = (if today \<in> set days then today else today - 1) in
     if cursor \<notin> set days then 0 else count_back days cursor 0)"

fun longest_loop :: "int list \<Rightarrow> int option \<Rightarrow> int \<Rightarrow> int \<Rightarrow> int" where
  "longest_loop [] previous current longest = longest"
| "longest_loop (d # days) previous current longest =
    (let current' = (if previous \<noteq> None \<and> d = the previous + 1 then current + 1 else 1)
     in longest_loop days (Some d) current' (max longest current'))"

definition calculateLongestStreak :: "int list \<Rightarrow> int" where
  "calculateLongestStreak days = longest_loop days None 0 0"

section \<open>Profile statistics\<close>

fun count_solved :: "attempt_snapshot list \<Rightarrow> int \<Rightarrow> int result" where
  "count_solved [] n = Inr n"
| "count_solved (a # as) n = bindE (assertTerminalAttempt a) (\<lambda>_.
     count_solved as (if state a = SOLVED then n + 1 else n))"

definition calculateProfileStatistics ::
  "attempt_snapshot list \<Rightarrow> string list \<Rightarrow> string \<Rightarrow> profile_statistics result" where
  "calculateProfileStatistics finalized participationUtcDays todayUtcDay =
    bindE (utcDayNumber todayUtcDay) (\<lambda>today.
    bindE (mapE utcDayNumber participationUtcDays) (\<lambda>numbers.
      let days = js_sort (\<lambda>left right. left - right) (uniq numbers) in
      bindE (count_solved finalized 0) (\<lambda>solved.
      bindE (if finalized = [] then Inr 0
             else roundHalfUp (solved * 100) (int (length finalized))) (\<lambda>accuracy. Inr
        \<lparr>currentStreak = calculateCurrentStreak days today,
         longestStreak = calculateLongestStreak days,
         solvedCount = solved,
         failedCount = int (length finalized) - solved,
         accuracyPercentage = accuracy\<rparr>))))"

section \<open>Regional knowledge\<close>

definition regionalPerformanceHundredths :: "attempt_snapshot \<Rightarrow> int result" where
  "regionalPerformanceHundredths a = bindE (assertTerminalAttempt a) (\<lambda>_. Inr
    (if state a \<noteq> SOLVED then 0
     else max 0 (PERFORMANCE_BASE_HUNDREDTHS (evidenceLevel a) - 5 * totalWrongGuesses a)))"

definition initialRegionalKnowledge :: knowledge_counters where
  "initialRegionalKnowledge =
    \<lparr>alphaHundredths = INITIAL_ALPHA_HUNDREDTHS, betaHundredths = INITIAL_BETA_HUNDREDTHS,
     sampleCount = 0\<rparr>"

type_synonym knowledge_map = "(string \<times> knowledge_counters) list"

fun seed_regions :: "string list \<Rightarrow> knowledge_map \<Rightarrow> knowledge_map result" where
  "seed_regions [] m = Inr m"
| "seed_regions (r # rs) m = bindE (assertRegionId r) (\<lambda>_.
     seed_regions rs (if map_of m r = None then AList.update r initialRegionalKnowledge m else m))"

definition add_performance :: "int \<Rightarrow> knowledge_counters \<Rightarrow> knowledge_counters" where
  "add_performance p k = k\<lparr>alphaHundredths := alphaHundredths k + p,
     betaHundredths := betaHundredths k + (100 - p), sampleCount := sampleCount k + 1\<rparr>"

fun credit_regions :: "int \<Rightarrow> string list \<Rightarrow> knowledge_map \<Rightarrow> knowledge_map result" where
  "credit_regions p [] m = Inr m"
| "credit_regions p (r # rs) m = bindE (assertRegionId r) (\<lambda>_.
     let k = (case map_of m r of None \<Rightarrow> initialRegionalKnowledge | Some k \<Rightarrow> k) in
     credit_regions p rs (AList.update r (add_performance p k) m))"

fun credit_cases :: "finalized_case_outcome list \<Rightarrow> knowledge_map \<Rightarrow> knowledge_map result" where
  "credit_cases [] m = Inr m"
| "credit_cases (c # cs) m =
     bindE (assertTerminalAttempt (outcome_attempt c)) (\<lambda>_.
     bindE (regionalPerformanceHundredths (outcome_attempt c)) (\<lambda>p.
     bindE (credit_regions p (uniq (outcome_regionIds c)) m) (\<lambda>m'.
       credit_cases cs m')))"

definition display_knowledge :: "string \<times> knowledge_counters \<Rightarrow> regional_knowledge result" where
  "display_knowledge rk = (case rk of (r, k) \<Rightarrow>
    bindE (roundHalfUp (alphaHundredths k * 100) (alphaHundredths k + betaHundredths k))
      (\<lambda>pct. Inr (knowledge_counters.extend k
        \<lparr>regionId = r, displayPercentage = pct\<rparr>)))"

definition calculateRegionalKnowledge ::
  "string list \<Rightarrow> finalized_case_outcome list \<Rightarrow> regional_knowledge list result" where
  "calculateRegionalKnowledge regionIds finalizedCases =
    bindE (seed_regions regionIds []) (\<lambda>m0.
    bindE (credit_cases finalizedCases m0) (\<lambda>m.
      mapE display_knowledge m))"

section \<open>Rounding\<close>

lemma roundHalfUp_Inr:
  "roundHalfUp n d = Inr r \<longleftrightarrow> is_safe_int n \<and> 0 \<le> n \<and> is_safe_int d \<and> 0 < d \<and>
     (2 * r - 1) * d \<le> 2 * n \<and> 2 * n < (2 * r + 1) * d"
proof -
  have "(2 * n + d) div (2 * d) = r \<longleftrightarrow> (2 * r - 1) * d \<le> 2 * n \<and> 2 * n < (2 * r + 1) * d"
    if "0 < d"
  proof -
    have d: "0 < 2 * d" using that by simp
    have "(2 * n + d) div (2 * d) = r \<longleftrightarrow> 2 * d * r \<le> 2 * n + d \<and> 2 * n + d < 2 * d * r + 2 * d"
      using div_bounds [OF d, of "2 * n + d"]
      by (auto intro: int_div_pos_eq [of _ _ _ "2 * n + d - 2 * d * r"])
    then show ?thesis by (simp add: algebra_simps)
  qed
  then show ?thesis by (auto simp: roundHalfUp_def Let_def mult.commute)
qed

lemma roundHalfUp_total:
  "is_safe_int n \<Longrightarrow> 0 \<le> n \<Longrightarrow> is_safe_int d \<Longrightarrow> 0 < d \<Longrightarrow> \<exists>r. roundHalfUp n d = Inr r"
  by (simp add: roundHalfUp_def Let_def)

lemma roundHalfUp_percentage:
  assumes "roundHalfUp (n * 100) d = Inr r" "n \<le> d"
  shows "0 \<le> r \<and> r \<le> 100"
proof -
  note b = assms(1) [unfolded roundHalfUp_Inr]
  have "(2 * r - 1) * d \<le> 200 * d" "0 < (2 * r + 1) * d"
    using b assms(2) by linarith+
  then have "2 * r - 1 \<le> 200" "0 < 2 * r + 1"
    using b mult_le_cancel_right_pos [of d "2 * r - 1" 200] by (auto simp: zero_less_mult_iff)
  then show ?thesis by simp
qed


section \<open>Streaks are the longest runs they claim to be\<close>

text \<open>\<open>run_at D a n\<close>: the \<open>n\<close> days from \<open>a\<close> on are all in \<open>D\<close>.\<close>

definition run_at :: "int set \<Rightarrow> int \<Rightarrow> int \<Rightarrow> bool" where
  "run_at D a n \<longleftrightarrow> {a..<a + n} \<subseteq> D"

lemma run_atI: "(\<And>d. a \<le> d \<Longrightarrow> d < a + n \<Longrightarrow> d \<in> D) \<Longrightarrow> run_at D a n"
  by (auto simp: run_at_def)

lemma run_atD: "run_at D a n \<Longrightarrow> a \<le> d \<Longrightarrow> d < a + n \<Longrightarrow> d \<in> D"
  by (auto simp: run_at_def)

lemma run_at_empty: "n \<le> 0 \<Longrightarrow> run_at D a n"
  by (simp add: run_at_def)

lemma run_at_less: "run_at D a n \<Longrightarrow> k \<le> n \<Longrightarrow> run_at D a k"
  by (auto simp: run_at_def)

lemma count_back_spec:
  "\<exists>n \<ge> 0. count_back days cursor streak = streak + n \<and>
     run_at (set days) (cursor - n + 1) n \<and> cursor - n \<notin> set days"
proof (induction days cursor streak rule: count_back.induct)
  case (1 days cursor streak)
  show ?case
  proof (cases "cursor \<in> set days")
    case True
    from 1 [OF this] obtain n where n: "0 \<le> n"
      "count_back days (cursor - 1) (streak + 1) = streak + 1 + n"
      "run_at (set days) (cursor - 1 - n + 1) n" "cursor - 1 - n \<notin> set days" by blast
    have "{cursor - (n + 1) + 1..<cursor - (n + 1) + 1 + (n + 1)} =
        insert cursor {cursor - 1 - n + 1..<cursor - 1 - n + 1 + n}" using n(1) by auto
    then have "run_at (set days) (cursor - (n + 1) + 1) (n + 1)"
      using n(3) True by (simp add: run_at_def)
    moreover have "count_back days cursor streak = streak + (n + 1)"
      using True n(2) by (simp add: count_back.simps [of days cursor])
    moreover have "cursor - (n + 1) \<notin> set days" using n(4) by (simp add: algebra_simps)
    ultimately show ?thesis using n(1) by (intro exI [of _ "n + 1"]) simp
  next
    case False
    then show ?thesis
      by (intro exI [of _ 0]) (simp add: count_back.simps [of days cursor] run_at_empty)
  qed
qed

definition is_current_streak :: "int set \<Rightarrow> int \<Rightarrow> int \<Rightarrow> bool" where
  "is_current_streak D today n \<longleftrightarrow>
    (let last = (if today \<in> D then today else today - 1) in
     0 \<le> n \<and> run_at D (last - n + 1) n \<and> last - n \<notin> D)"

lemma calculateCurrentStreak_spec:
  "is_current_streak (set days) today (calculateCurrentStreak days today)"
proof -
  define c where "c = (if today \<in> set days then today else today - 1)"
  from count_back_spec [of days c 0] obtain n where n: "0 \<le> n" "count_back days c 0 = n"
    "run_at (set days) (c - n + 1) n" "c - n \<notin> set days" by auto
  show ?thesis
    using n by (auto simp: calculateCurrentStreak_def is_current_streak_def Let_def c_def [symmetric]
        run_at_empty)
qed

definition is_longest_run :: "int set \<Rightarrow> int \<Rightarrow> bool" where
  "is_longest_run D n \<longleftrightarrow> 0 \<le> n \<and> (\<exists>a. run_at D a n) \<and> (\<nexists>a. run_at D a (n + 1))"

lemma current_le_longest:
  "is_current_streak D today c \<Longrightarrow> is_longest_run D l \<Longrightarrow> c \<le> l"
  unfolding is_current_streak_def is_longest_run_def Let_def
  by (metis run_at_less linorder_not_le zless_imp_add1_zle)

text \<open>
  The loop's invariant: \<open>D\<close> holds the days already seen, the last of which is \<open>p\<close>; \<open>current\<close> is
  the length of the maximal run that ends at \<open>p\<close>, and \<open>longest\<close> that of the longest run.
\<close>

definition loop_inv :: "int set \<Rightarrow> int \<Rightarrow> int \<Rightarrow> int \<Rightarrow> bool" where
  "loop_inv D p current longest \<longleftrightarrow>
    p \<in> D \<and> (\<forall>d \<in> D. d \<le> p) \<and> 1 \<le> current \<and> run_at D (p - current + 1) current \<and>
    p - current \<notin> D \<and> is_longest_run D longest \<and> current \<le> longest"

lemma run_at_insert_above:
  assumes "\<forall>x \<in> D. x < d" "run_at (insert d D) a n" "0 < n"
  shows "run_at D a n \<or> (a + n - 1 = d \<and> run_at D a (n - 1))"
proof (cases "d \<in> {a..<a + n}")
  case True
  have "a + n - 1 \<in> insert d D" by (rule run_atD [OF assms(2)]) (use assms(3) in auto)
  then have "a + n - 1 \<le> d" using assms(1) by auto
  then have d: "a + n - 1 = d" using True by auto
  have "run_at D a (n - 1)"
  proof (rule run_atI)
    fix x
    assume "a \<le> x" "x < a + (n - 1)"
    then show "x \<in> D" using run_atD [OF assms(2), of x] d by auto
  qed
  then show ?thesis using d by simp
next
  case False
  then show ?thesis using assms(2) by (auto simp: run_at_def)
qed

lemma run_at_ends_at:
  assumes "p - c \<notin> D" "0 \<le> c" "run_at D a n" "a + n - 1 = p"
  shows "n \<le> c"
proof (rule ccontr)
  assume "\<not> n \<le> c"
  then have "p - c \<in> D" using assms(2,4) by (intro run_atD [OF assms(3)]) auto
  then show False using assms(1) by simp
qed

lemma loop_inv_step:
  assumes "loop_inv D p current longest" "p < d"
  defines "current' \<equiv> if d = p + 1 then current + 1 else 1"
  shows "loop_inv (insert d D) d current' (max longest current')"
proof -
  note i = assms(1) [unfolded loop_inv_def]
  have above: "\<forall>x \<in> D. x < d" using i assms(2) by auto
  have run: "run_at (insert d D) (d - current' + 1) current'"
  proof (rule run_atI)
    fix x
    assume x: "d - current' + 1 \<le> x" "x < d - current' + 1 + current'"
    have "run_at D (p - current + 1) current" using i by blast
    from run_atD [OF this, of x] x show "x \<in> insert d D"
      by (cases "x = d") (auto simp: current'_def split: if_splits)
  qed
  have stop: "d - current' \<notin> insert d D"
    using i assms(2) by (auto simp: current'_def)
  have c1: "1 \<le> current'" using i by (simp add: current'_def)
  have bound: "n \<le> max longest current'" if r: "run_at (insert d D) a n" for a n
  proof (cases "0 < n")
    case True
    from run_at_insert_above [OF above r True] show ?thesis
    proof
      assume "run_at D a n"
      then show ?thesis
        using i run_at_less [of D a n "longest + 1"] by (fastforce simp: is_longest_run_def)
    next
      assume "a + n - 1 = d \<and> run_at D a (n - 1)"
      then have "n \<le> current'" using run_at_ends_at [OF stop _ r] c1 by simp
      then show ?thesis by simp
    qed
  next
    case False
    then show ?thesis using c1 by simp
  qed
  have "\<exists>a. run_at (insert d D) a (max longest current')"
  proof (cases "longest \<le> current'")
    case True
    then show ?thesis using run by (auto simp: max_def)
  next
    case False
    then show ?thesis using i by (fastforce simp: max_def is_longest_run_def run_at_def)
  qed
  moreover have "\<not> run_at (insert d D) a (max longest current' + 1)" for a
    using bound [of a "max longest current' + 1"] by auto
  ultimately show ?thesis
    using run stop c1 above by (auto simp: loop_inv_def is_longest_run_def less_imp_le)
qed

lemma longest_loop_inv:
  "sorted_wrt (<) (p # days) \<Longrightarrow> loop_inv D p current longest \<Longrightarrow>
   is_longest_run (D \<union> set days) (longest_loop days (Some p) current longest)"
proof (induction days arbitrary: D p current longest)
  case Nil
  then show ?case by (simp add: loop_inv_def)
next
  case (Cons d days)
  then show ?case
    using Cons.IH [of d "insert d D"] loop_inv_step [of D p current longest d]
    by (simp add: Let_def)
qed

lemma calculateLongestStreak_spec:
  assumes "sorted_wrt (<) days"
  shows "is_longest_run (set days) (calculateLongestStreak days)"
proof (cases days)
  case Nil
  then show ?thesis
    by (auto simp: calculateLongestStreak_def is_longest_run_def run_at_def)
next
  case (Cons d ds)
  have "\<not> run_at {d} a 2" for a
    using run_atD [of "{d}" a 2 a] run_atD [of "{d}" a 2 "a + 1"] by auto
  moreover have "run_at {d} d 1" by (rule run_atI) simp
  ultimately have "loop_inv {d} d 1 1" by (auto simp: loop_inv_def is_longest_run_def)
  then show ?thesis
    using longest_loop_inv [of d ds "{d}" 1 1] assms by (simp add: Cons calculateLongestStreak_def)
qed


section \<open>Profile statistics\<close>

interpretation day_order: js_comparator "\<lambda>left right :: int. left - right"
  by unfold_locales (auto simp: sgn_if)

lemma sorted_days: "distinct ds \<Longrightarrow> sorted_wrt (<) (js_sort (\<lambda>left right :: int. left - right) ds)"
  using day_order.sorted_js_sort [of ds] distinct_js_sort [of "\<lambda>left right. left - right" ds]
  by (simp add: strict_sorted_iff)

lemma assertTerminal_Inr: "assertTerminalAttempt a = Inr u \<longleftrightarrow> valid_snapshot a \<and> state a \<noteq> ACTIVE"
  by (auto simp: assertTerminalAttempt_def result_simps assertSnapshot_valid)

lemma count_solved_Inr:
  "count_solved as n = Inr k \<longleftrightarrow> (\<forall>a \<in> set as. valid_snapshot a \<and> state a \<noteq> ACTIVE) \<and>
     k = n + int (length (filter (\<lambda>a. state a = SOLVED) as))"
  by (induction as arbitrary: n) (auto simp: result_simps assertTerminal_Inr)

text \<open>What the statistics promise, stated on the set of days and on the attempts.\<close>

definition statistics_spec :: "attempt_snapshot list \<Rightarrow> int set \<Rightarrow> int \<Rightarrow> profile_statistics \<Rightarrow> bool" where
  "statistics_spec as D today s \<longleftrightarrow>
    is_current_streak D today (currentStreak s) \<and>
    is_longest_run D (longestStreak s) \<and>
    currentStreak s \<le> longestStreak s \<and>
    solvedCount s = int (length (filter (\<lambda>a. state a = SOLVED) as)) \<and>
    failedCount s = int (length (filter (\<lambda>a. state a \<noteq> SOLVED) as)) \<and>
    0 \<le> accuracyPercentage s \<and> accuracyPercentage s \<le> 100 \<and>
    (if as = [] then accuracyPercentage s = 0
     else (2 * accuracyPercentage s - 1) * int (length as) \<le> 200 * solvedCount s \<and>
          200 * solvedCount s < (2 * accuracyPercentage s + 1) * int (length as))"

lemma filter_split_length:
  "int (length as) = int (length (filter P as)) + int (length (filter (\<lambda>a. \<not> P a) as))"
  using sum_length_filter_compl [of P as] by simp

lemma calculateProfileStatistics_sound:
  assumes "calculateProfileStatistics as days today = Inr s"
  shows "\<exists>ds d. mapE utcDayNumber days = Inr ds \<and> utcDayNumber today = Inr d \<and>
    statistics_spec as (set ds) d s"
proof -
  from assms obtain d ds k acc where e: "utcDayNumber today = Inr d" "mapE utcDayNumber days = Inr ds"
    "count_solved as 0 = Inr k"
    "(if as = [] then Inr 0 else roundHalfUp (k * 100) (int (length as))) = Inr acc"
    and s: "s = \<lparr>currentStreak = calculateCurrentStreak (js_sort (\<lambda>l r. l - r) (uniq ds)) d,
      longestStreak = calculateLongestStreak (js_sort (\<lambda>l r. l - r) (uniq ds)),
      solvedCount = k, failedCount = int (length as) - k, accuracyPercentage = acc\<rparr>"
    unfolding calculateProfileStatistics_def by (auto simp: bindE_eq_Inr Let_def)
  let ?l = "js_sort (\<lambda>l r. l - r) (uniq ds)"
  have runs: "is_current_streak (set ds) d (currentStreak s)" "is_longest_run (set ds) (longestStreak s)"
    using calculateCurrentStreak_spec [of ?l d] calculateLongestStreak_spec [OF sorted_days, of "uniq ds"]
    by (simp_all add: s)
  have k: "k = int (length (filter (\<lambda>a. state a = SOLVED) as))"
    using e(3) by (simp add: count_solved_Inr)
  have acc: "0 \<le> acc \<and> acc \<le> 100 \<and> (if as = [] then acc = 0
     else (2 * acc - 1) * int (length as) \<le> 200 * k \<and> 200 * k < (2 * acc + 1) * int (length as))"
  proof (cases "as = []")
    case True
    then show ?thesis using e(4) by simp
  next
    case False
    then have r: "roundHalfUp (k * 100) (int (length as)) = Inr acc" using e(4) by simp
    moreover have "k \<le> int (length as)" by (simp add: k)
    ultimately have "0 \<le> acc \<and> acc \<le> 100" by (rule roundHalfUp_percentage)
    then show ?thesis using r False by (simp add: roundHalfUp_Inr)
  qed
  have failed: "int (length as) - k = int (length (filter (\<lambda>a. state a \<noteq> SOLVED) as))"
    using filter_split_length [of as "\<lambda>a. state a = SOLVED"] k by simp
  have "statistics_spec as (set ds) d s"
    using runs acc current_le_longest [OF runs] failed k
    by (cases "as = []") (simp_all add: statistics_spec_def s)
  then show ?thesis using e by blast
qed

lemma calculateProfileStatistics_complete:
  assumes "utcDayNumber today = Inr d" "mapE utcDayNumber days = Inr ds"
    "\<forall>a \<in> set as. valid_snapshot a \<and> state a \<noteq> ACTIVE" "int (length as) \<le> 90000000000000"
  shows "\<exists>s. calculateProfileStatistics as days today = Inr s"
proof -
  let ?k = "int (length (filter (\<lambda>a. state a = SOLVED) as))"
  have c: "count_solved as 0 = Inr ?k" using assms(3) by (simp add: count_solved_Inr)
  have "0 \<le> ?k" "?k \<le> int (length as)" by simp_all
  then have "is_safe_int (?k * 100)" "is_safe_int (int (length as))"
    using assms(4) unfolding is_safe_int_def MAX_SAFE_INTEGER_def by linarith+
  then obtain r where "(if as = [] then Inr 0 else roundHalfUp (?k * 100) (int (length as))) = Inr r"
    using roundHalfUp_total [of "?k * 100" "int (length as)"] by (cases "as = []") auto
  then show ?thesis using assms(1,2) c by (simp add: calculateProfileStatistics_def Let_def)
qed

text \<open>For finalized attempts and days that are real calendar days, the statistics are
  computed without error and say what they name: the current streak is the run of consecutive
  participation days that ends today, or yesterday when today has no participation yet; the longest
  streak is the longest run of consecutive days, so it bounds the current one; solved and failed
  count the attempts; the accuracy is the rounded percentage of solved ones. Repeated and
  unordered days make no difference.\<close>

lemma profile_statistics_are_correct:
  assumes "utcDayNumber today = Inr d" "mapE utcDayNumber days = Inr ds"
    "\<forall>a \<in> set as. valid_snapshot a \<and> state a \<noteq> ACTIVE" "int (length as) \<le> 90000000000000"
  shows "\<exists>s. calculateProfileStatistics as days today = Inr s \<and> statistics_spec as (set ds) d s"
  using calculateProfileStatistics_complete [OF assms] calculateProfileStatistics_sound assms(1,2)
  by fastforce

definition solved_after :: "int \<Rightarrow> int \<Rightarrow> attempt_snapshot" where
  "solved_after e t = \<lparr>evidenceLevel = e, wrongGuessesAtLevel = 0, totalWrongGuesses = t, state = SOLVED\<rparr>"

lemma profile_statistics_are_correct_example:
  "\<exists>s. calculateProfileStatistics [solved_after 1 2] [''2024-02-29'', ''2024-03-01''] ''2024-03-02'' = Inr s \<and>
     statistics_spec [solved_after 1 2] (set [19782, 19783]) 19784 s"
proof (rule profile_statistics_are_correct)
  show "utcDayNumber ''2024-03-02'' = Inr 19784"
    using utcDayNumber_accepts [of "''2024-03-02''" "Civil 2024 3 2"] by code_simp
  show "mapE utcDayNumber [''2024-02-29'', ''2024-03-01''] = Inr [19782, 19783]" by code_simp
  show "\<forall>a \<in> set [solved_after 1 2]. valid_snapshot a \<and> state a \<noteq> ACTIVE"
    by (simp add: solved_after_def valid_snapshot_def)
qed simp


section \<open>Regional knowledge\<close>

lemma regionalPerformance_Inr:
  "regionalPerformanceHundredths a = Inr p \<Longrightarrow> valid_snapshot a \<and> state a \<noteq> ACTIVE \<and> 0 \<le> p \<and> p \<le> 100"
  by (auto simp: regionalPerformanceHundredths_def result_simps assertTerminal_Inr valid_snapshot_def
      PERFORMANCE_BASE_HUNDREDTHS_def)

lemma regionalPerformance_total:
  "valid_snapshot a \<Longrightarrow> state a \<noteq> ACTIVE \<Longrightarrow> \<exists>p. regionalPerformanceHundredths a = Inr p"
  by (auto simp: regionalPerformanceHundredths_def bindE_eq_Inr assertTerminal_Inr)

definition performance :: "attempt_snapshot \<Rightarrow> int" where
  "performance a = (case regionalPerformanceHundredths a of Inr p \<Rightarrow> p | Inl _ \<Rightarrow> 0)"

lemma performance_range: "0 \<le> performance a \<and> performance a \<le> 100"
  by (auto simp: performance_def dest: regionalPerformance_Inr split: sum.split)

lemma performance_Inr: "regionalPerformanceHundredths a = Inr p \<Longrightarrow> p = performance a"
  by (simp add: performance_def)

text \<open>The counters of a region, from the cases that name it.\<close>

definition naming :: "string \<Rightarrow> finalized_case_outcome list \<Rightarrow> attempt_snapshot list" where
  "naming r cs = map outcome_attempt (filter (\<lambda>c. r \<in> set (outcome_regionIds c)) cs)"

definition counters_of :: "attempt_snapshot list \<Rightarrow> knowledge_counters" where
  "counters_of as =
    \<lparr>alphaHundredths = 200 + sum_list (map performance as),
     betaHundredths = 200 + sum_list (map (\<lambda>a. 100 - performance a) as),
     sampleCount = int (length as)\<rparr>"

lemma counters_of_Nil: "counters_of [] = initialRegionalKnowledge"
  by (simp add: counters_of_def initialRegionalKnowledge_def INITIAL_ALPHA_HUNDREDTHS_def
      INITIAL_BETA_HUNDREDTHS_def)

lemma counters_of_snoc: "counters_of (as @ [a]) = add_performance (performance a) (counters_of as)"
  by (simp add: counters_of_def add_performance_def)

lemma counters_of_perm: "mset as = mset bs \<Longrightarrow> counters_of as = counters_of bs"
  using arg_cong [of "mset as" "mset bs" "image_mset performance"]
    arg_cong [of "mset as" "mset bs" "image_mset (\<lambda>a. 100 - performance a)"]
  by (simp add: counters_of_def sum_mset_sum_list [symmetric] size_mset [symmetric] del: sum_mset_sum_list size_mset)

lemma counters_of_sum:
  "alphaHundredths (counters_of as) + betaHundredths (counters_of as) = 400 + 100 * int (length as)"
  by (induction as) (simp_all add: counters_of_def)

lemma counters_of_range:
  "200 \<le> alphaHundredths (counters_of as) \<and> 200 \<le> betaHundredths (counters_of as)"
  using performance_range by (auto simp: counters_of_def intro!: sum_list_nonneg)

text \<open>A map seen as a function: a region without an entry has the initial counters.\<close>

definition knowledge_of :: "knowledge_map \<Rightarrow> string \<Rightarrow> knowledge_counters" where
  "knowledge_of m r = (case map_of m r of None \<Rightarrow> initialRegionalKnowledge | Some k \<Rightarrow> k)"

lemma knowledge_of_update [table_simps]:
  "knowledge_of (AList.update r k m) = (knowledge_of m)(r := k)"
  by (rule ext) (simp add: knowledge_of_def update_conv')

lemma knowledge_of_member: "distinct (map fst m) \<Longrightarrow> (r, k) \<in> set m \<Longrightarrow> k = knowledge_of m r"
  by (simp add: knowledge_of_def map_of_is_SomeI)

text \<open>Keys are only appended, each at its first occurrence.\<close>

definition extend_keys :: "string list \<Rightarrow> string list \<Rightarrow> string list" where
  "extend_keys ks rs = ks @ uniq_acc ks rs"

lemma extend_keys_Cons: "extend_keys ks (r # rs) = extend_keys (if r \<in> set ks then ks else ks @ [r]) rs"
  using uniq_acc_cong [of "r # ks" "ks @ [r]" rs] by (simp add: extend_keys_def)

lemma extend_keys_append: "extend_keys (extend_keys ks xs) ys = extend_keys ks (xs @ ys)"
  by (induction xs arbitrary: ks) (simp_all add: extend_keys_Cons, simp add: extend_keys_def)

lemma set_extend_keys: "set (extend_keys ks xs) = set ks \<union> set xs"
  by (auto simp: extend_keys_def set_uniq_acc)

lemma extend_keys_known: "set xs \<subseteq> set ks \<Longrightarrow> extend_keys ks xs = ks"
  by (induction xs arbitrary: ks) (auto simp: extend_keys_Cons, simp add: extend_keys_def)

lemma extend_keys_uniq_acc: "set seen \<subseteq> set ks \<Longrightarrow> extend_keys ks (uniq_acc seen xs) = extend_keys ks xs"
proof (induction xs arbitrary: ks seen)
  case (Cons x xs)
  then have "set (x # seen) \<subseteq> set (ks @ [x])" by auto
  then show ?case
    using Cons.prems Cons.IH [of seen ks] Cons.IH [of "x # seen" "ks @ [x]"] Cons.IH [of "x # seen" ks]
    by (auto simp: extend_keys_Cons)
qed simp

lemma extend_keys_uniq: "extend_keys ks (uniq xs) = extend_keys ks xs"
  by (simp add: uniq_def extend_keys_uniq_acc)

lemma keys_update [table_simps]:
  "map fst (AList.update k v m) = extend_keys (map fst m) [k]"
  by (simp add: update_keys extend_keys_def)

lemma seed_regions_Inr:
  "[] \<notin> set rs \<Longrightarrow> \<exists>m'. seed_regions rs m = Inr m' \<and> map fst m' = extend_keys (map fst m) rs \<and>
     knowledge_of m' = knowledge_of m"
proof (induction rs arbitrary: m)
  case Nil
  then show ?case by (simp add: extend_keys_def)
next
  case (Cons r rs)
  let ?m = "if map_of m r = None then AList.update r initialRegionalKnowledge m else m"
  have "map fst ?m = extend_keys (map fst m) [r]"
    by (auto simp: keys_update extend_keys_def map_of_eq_None_iff)
  moreover have "knowledge_of ?m = knowledge_of m"
    by (auto simp: knowledge_of_update fun_eq_iff) (simp add: knowledge_of_def)
  moreover have "[] \<notin> set rs" "r \<noteq> []" using Cons.prems by auto
  ultimately show ?case
    using Cons.IH [of ?m] extend_keys_append [of "map fst m" "[r]" rs]
    by (simp add: assertRegionId_def)
qed

lemma credit_regions_Inr:
  "[] \<notin> set rs \<Longrightarrow> distinct rs \<Longrightarrow> \<exists>m'. credit_regions p rs m = Inr m' \<and>
     map fst m' = extend_keys (map fst m) rs \<and>
     knowledge_of m' = (\<lambda>r. if r \<in> set rs then add_performance p (knowledge_of m r) else knowledge_of m r)"
proof (induction rs arbitrary: m)
  case Nil
  then show ?case by (simp add: extend_keys_def)
next
  case (Cons r rs)
  let ?m = "AList.update r (add_performance p (knowledge_of m r)) m"
  have "[] \<notin> set rs" "distinct rs" "r \<noteq> []" "r \<notin> set rs" using Cons.prems by auto
  then show ?case
    using Cons.IH [of ?m] extend_keys_append [of "map fst m" "[r]" rs]
    by (auto simp: assertRegionId_def table_simps Let_def knowledge_of_def [symmetric] fun_eq_iff)
qed

section \<open>The knowledge of a region is the sum over the cases that name it\<close>

definition well_formed_case :: "finalized_case_outcome \<Rightarrow> bool" where
  "well_formed_case c \<longleftrightarrow> valid_snapshot (outcome_attempt c) \<and> state (outcome_attempt c) \<noteq> ACTIVE \<and>
     [] \<notin> set (outcome_regionIds c)"

lemma naming_Cons: "naming r (c # cs) =
    (if r \<in> set (outcome_regionIds c) then outcome_attempt c # naming r cs else naming r cs)"
  by (simp add: naming_def)

definition credit :: "knowledge_counters \<Rightarrow> attempt_snapshot list \<Rightarrow> knowledge_counters" where
  "credit = foldl (\<lambda>k a. add_performance (performance a) k)"

lemma credit_counters_of: "credit (counters_of as) bs = counters_of (as @ bs)"
proof (induction bs arbitrary: as)
  case (Cons b bs)
  show ?case
    using Cons.IH [of "as @ [b]"] by (simp add: credit_def counters_of_snoc)
qed (simp add: credit_def)

lemma credit_cases_Inr:
  "list_all well_formed_case cs \<Longrightarrow> \<exists>m'. credit_cases cs m = Inr m' \<and>
     map fst m' = extend_keys (map fst m) (concat (map outcome_regionIds cs)) \<and>
     knowledge_of m' = (\<lambda>r. credit (knowledge_of m r) (naming r cs))"
proof (induction cs arbitrary: m)
  case Nil
  then show ?case by (simp add: extend_keys_def credit_def naming_def)
next
  case (Cons c cs)
  let ?a = "outcome_attempt c" and ?rs = "uniq (outcome_regionIds c)"
  have w: "assertTerminalAttempt ?a = Inr ()" "[] \<notin> set ?rs" "list_all well_formed_case cs"
    using Cons.prems by (auto simp: well_formed_case_def [of c] assertTerminal_Inr)
  have p: "regionalPerformanceHundredths ?a = Inr (performance ?a)"
    using Cons.prems regionalPerformance_total [of ?a] performance_Inr [of ?a]
    by (auto simp: well_formed_case_def [of c])
  from credit_regions_Inr [OF w(2) distinct_uniq, of "performance ?a" m] obtain m1 where m1:
    "credit_regions (performance ?a) ?rs m = Inr m1" "map fst m1 = extend_keys (map fst m) ?rs"
    "knowledge_of m1 = (\<lambda>r. if r \<in> set ?rs then add_performance (performance ?a) (knowledge_of m r)
       else knowledge_of m r)" by blast
  from Cons.IH [OF w(3), of m1] obtain m2 where m2: "credit_cases cs m1 = Inr m2"
    "map fst m2 = extend_keys (map fst m1) (concat (map outcome_regionIds cs))"
    "knowledge_of m2 = (\<lambda>r. credit (knowledge_of m1 r) (naming r cs))" by blast
  have "credit_cases (c # cs) m = Inr m2" using w p m1(1) m2(1) by simp
  moreover have "map fst m2 = extend_keys (map fst m) (concat (map outcome_regionIds (c # cs)))"
    by (simp add: m2(2) m1(2) extend_keys_uniq extend_keys_append)
  moreover have "knowledge_of m2 = (\<lambda>r. credit (knowledge_of m r) (naming r (c # cs)))"
    by (auto simp: m2(3) m1(3) naming_Cons credit_def fun_eq_iff)
  ultimately show ?case by blast
qed

text \<open>What is shown of a region.\<close>

definition region_summary :: "finalized_case_outcome list \<Rightarrow> string \<Rightarrow> regional_knowledge" where
  "region_summary cs r = (let k = counters_of (naming r cs); d = 400 + 100 * sampleCount k in
     knowledge_counters.extend k
       \<lparr>regionId = r, displayPercentage = (200 * alphaHundredths k + d) div (2 * d)\<rparr>)"

lemma display_knowledge_counters:
  assumes "int (length cs) \<le> 80000000000"
  shows "display_knowledge (r, counters_of (naming r cs)) = Inr (region_summary cs r)"
proof -
  let ?k = "counters_of (naming r cs)"
  have n: "int (length (naming r cs)) \<le> int (length cs)" by (simp add: naming_def)
  have s: "sampleCount ?k = int (length (naming r cs))" by (simp add: counters_of_def)
  note k = counters_of_sum [of "naming r cs"] counters_of_range [of "naming r cs"]
  have "is_safe_int (alphaHundredths ?k * 100)" "is_safe_int (alphaHundredths ?k + betaHundredths ?k)"
    using assms n k unfolding is_safe_int_def MAX_SAFE_INTEGER_def by linarith+
  then have "roundHalfUp (alphaHundredths ?k * 100) (alphaHundredths ?k + betaHundredths ?k) =
      Inr ((alphaHundredths ?k * 200 + (400 + 100 * sampleCount ?k)) div (2 * (400 + 100 * sampleCount ?k)))"
    using k s by (simp add: roundHalfUp_def Let_def mult.commute)
  then show ?thesis by (simp add: display_knowledge_def region_summary_def Let_def mult.commute)
qed

lemma regional_knowledge_run:
  assumes "[] \<notin> set regionIds" "list_all well_formed_case cs" "int (length cs) \<le> 80000000000"
  shows "calculateRegionalKnowledge regionIds cs =
    Inr (map (region_summary cs) (uniq (regionIds @ concat (map outcome_regionIds cs))))"
proof -
  have e: "knowledge_of [] = (\<lambda>_. initialRegionalKnowledge)"
    by (rule ext) (simp add: knowledge_of_def)
  from seed_regions_Inr [OF assms(1), of "[]"] obtain m0 where m0: "seed_regions regionIds [] = Inr m0"
    "map fst m0 = uniq regionIds" "knowledge_of m0 = (\<lambda>_. initialRegionalKnowledge)"
    by (auto simp: extend_keys_def uniq_def e)
  from credit_cases_Inr [OF assms(2), of m0] obtain m where m: "credit_cases cs m0 = Inr m"
    "map fst m = extend_keys (uniq regionIds) (concat (map outcome_regionIds cs))"
    "knowledge_of m = (\<lambda>r. counters_of (naming r cs))"
    using credit_counters_of [of "[]"] by (auto simp: m0 counters_of_Nil)
  have keys: "map fst m = uniq (regionIds @ concat (map outcome_regionIds cs))"
    using extend_keys_append [of "[]" regionIds] by (simp add: m(2) extend_keys_def uniq_def)
  then have "distinct (map fst m)" by simp
  then have "display_knowledge x = Inr (region_summary cs (fst x))" if "x \<in> set m" for x
    using that knowledge_of_member [of m "fst x" "snd x"] display_knowledge_counters [OF assms(3)]
    by (cases x) (simp add: m(3))
  then have "mapE display_knowledge m = Inr (map (region_summary cs \<circ> fst) m)"
    by (simp add: mapE_Inr)
  then show ?thesis
    by (simp add: calculateRegionalKnowledge_def m0(1) m(1) keys [symmetric])
qed

text \<open>The regional knowledge lists the requested regions first and then those the cases
  name, each once and in order of first mention. The counters of a region start at 2.00 and 2.00
  and add, for each finalized case that names the region (however often), the performance of its
  attempt to alpha and the rest up to 1.00 to beta; so alpha plus beta is 4.00 plus the number of
  samples, and the percentage shown is the rounded share of alpha. Nothing else of the cases
  matters: not their order, not the other regions they name.\<close>

lemma regional_knowledge_is_the_sum:
  assumes "[] \<notin> set regionIds" "list_all well_formed_case cs" "int (length cs) \<le> 80000000000"
  shows "calculateRegionalKnowledge regionIds cs =
    Inr (map (region_summary cs) (uniq (regionIds @ concat (map outcome_regionIds cs))))"
  using assms by (rule regional_knowledge_run)

lemma regional_knowledge_is_the_sum_example:
  "calculateRegionalKnowledge [''south''] [\<lparr>outcome_attempt = solved_after 1 2, outcome_regionIds = [''north'', ''north'']\<rparr>] =
   Inr [\<lparr>alphaHundredths = 200, betaHundredths = 200, sampleCount = 0, regionId = ''south'', displayPercentage = 50\<rparr>,
        \<lparr>alphaHundredths = 275, betaHundredths = 225, sampleCount = 1, regionId = ''north'', displayPercentage = 55\<rparr>]"
  by (subst regional_knowledge_is_the_sum) (simp, simp add: well_formed_case_def solved_after_def valid_snapshot_def, simp, code_simp)

lemma region_summary_order: "mset cs = mset cs' \<Longrightarrow> region_summary cs r = region_summary cs' r"
  unfolding region_summary_def naming_def
  by (simp only: counters_of_perm [of "map outcome_attempt (filter P cs)" "map outcome_attempt (filter P cs')" for P] mset_map mset_filter)

end
