(* ===== verification/Leaderboard.thy ===== *)
theory Leaderboard
  imports Attempt_Engine
begin

text \<open>
  \<^verbatim>\<open>packages/domain/src/leaderboard.ts\<close>: the order of solved attempts on a leaderboard and their
  ranks. A candidate is a record with room for more fields (the source is generic in
  \<^verbatim>\<open>Candidate extends LeaderboardCandidate\<close>), and a ranked entry is a candidate with its rank.

  Results: both comparators satisfy the contract of a sort's comparator; the ranks are competition
  ranks (one more than the number of strictly better attempts); the ranking does not depend on the
  order in which the candidates arrive.
\<close>

section \<open>Data\<close>

record leaderboard_candidate =
  lb_attemptId :: string
  lb_state :: attempt_state
  lb_evidenceLevel :: int
  lb_totalWrongGuesses :: int
  lb_elapsedMilliseconds :: int

type_synonym 'a ranked_entry = "'a leaderboard_candidate_scheme \<times> int"

section \<open>The check of a candidate\<close>

text \<open>\<^verbatim>\<open>typeof v === 'number' && Number.isSafeInteger(v)\<close>, with the integer it is.\<close>

fun safe_integer_of :: "js_value \<Rightarrow> int option" where
  "safe_integer_of (Number n) = (if is_safe_integer n then Some (js_floor n) else None)"
| "safe_integer_of _ = None"

definition assertLeaderboardCandidate :: "js_value \<Rightarrow> unit result" where
  "assertLeaderboardCandidate v =
    (if \<not> is_object v then Inl (TypeError ''leaderboard candidate must be an object'')
     else if js_field v ''state'' \<noteq> String ''SOLVED''
       then Inl (RangeError ''leaderboard accepts SOLVED attempts only'')
     else if \<not> isEvidenceLevel (js_field v ''evidenceLevel'')
       then Inl (RangeError ''leaderboard evidenceLevel must be zero through four'')
     else if (case (safe_integer_of (js_field v ''totalWrongGuesses''), as_integer (js_field v ''evidenceLevel''))
              of (Some w, Some e) \<Rightarrow> w < 0 \<or> w > e * 3 + 2 | _ \<Rightarrow> True)
       then Inl (RangeError ''leaderboard totalWrongGuesses is unreachable at this evidence level'')
     else if (case safe_integer_of (js_field v ''elapsedMilliseconds'') of Some t \<Rightarrow> t < 0 | None \<Rightarrow> True)
       then Inl (RangeError ''leaderboard elapsedMilliseconds must be a non-negative safe integer'')
     else (case js_field v ''attemptId'' of
             String s \<Rightarrow> throwIf (s = []) (RangeError ''leaderboard attemptId must not be empty'')
           | _ \<Rightarrow> Inl (RangeError ''leaderboard attemptId must not be empty'')))"

definition candidate_value :: "'a leaderboard_candidate_scheme \<Rightarrow> js_value" where
  "candidate_value c = Object
    [(''attemptId'', String (lb_attemptId c)),
     (''state'', String (state_name (lb_state c))),
     (''evidenceLevel'', JInt (lb_evidenceLevel c)),
     (''totalWrongGuesses'', JInt (lb_totalWrongGuesses c)),
     (''elapsedMilliseconds'', JInt (lb_elapsedMilliseconds c))]"

definition assertCandidate :: "'a leaderboard_candidate_scheme \<Rightarrow> unit result" where
  "assertCandidate c = assertLeaderboardCandidate (candidate_value c)"

fun assertUniqueCandidates :: "string list \<Rightarrow> 'a leaderboard_candidate_scheme list \<Rightarrow> unit result" where
  "assertUniqueCandidates attemptIds [] = Inr ()"
| "assertUniqueCandidates attemptIds (c # cs) = bindE (assertCandidate c) (\<lambda>_.
     if lb_attemptId c \<in> set attemptIds
     then Inl (RangeError ''leaderboard attempt IDs must be unique'')
     else assertUniqueCandidates (lb_attemptId c # attemptIds) cs)"

section \<open>The orders\<close>

definition comparePerformance ::
  "'a leaderboard_candidate_scheme \<Rightarrow> 'a leaderboard_candidate_scheme \<Rightarrow> int" where
  "comparePerformance left right =
    (let e = lb_evidenceLevel left - lb_evidenceLevel right;
         w = lb_totalWrongGuesses left - lb_totalWrongGuesses right;
         t = lb_elapsedMilliseconds left - lb_elapsedMilliseconds right
     in if e \<noteq> 0 then e else if w \<noteq> 0 then w else t)"

definition comparePaginationOrder ::
  "'a leaderboard_candidate_scheme \<Rightarrow> 'a leaderboard_candidate_scheme \<Rightarrow> int" where
  "comparePaginationOrder left right =
    (let performanceOrder = comparePerformance left right in
     if performanceOrder \<noteq> 0 then performanceOrder
     else if lb_attemptId left < lb_attemptId right then -1
     else if lb_attemptId left > lb_attemptId right then 1
     else 0)"

definition compareLeaderboardPerformance ::
  "'a leaderboard_candidate_scheme \<Rightarrow> 'a leaderboard_candidate_scheme \<Rightarrow> int result" where
  "compareLeaderboardPerformance left right =
    bindE (assertCandidate left) (\<lambda>_. bindE (assertCandidate right) (\<lambda>_.
      Inr (comparePerformance left right)))"

definition compareLeaderboardPaginationOrder ::
  "'a leaderboard_candidate_scheme \<Rightarrow> 'a leaderboard_candidate_scheme \<Rightarrow> int result" where
  "compareLeaderboardPaginationOrder left right =
    bindE (assertCandidate left) (\<lambda>_. bindE (assertCandidate right) (\<lambda>_.
      Inr (comparePaginationOrder left right)))"

section \<open>Ranking\<close>

fun rank_loop :: "'a leaderboard_candidate_scheme list \<Rightarrow> 'a leaderboard_candidate_scheme option \<Rightarrow>
    int \<Rightarrow> int \<Rightarrow> 'a ranked_entry list" where
  "rank_loop [] previousCandidate previousRank index = []"
| "rank_loop (c # cs) previousCandidate previousRank index =
    (let rank = (case previousCandidate of
                   Some p \<Rightarrow> if comparePerformance p c = 0 then previousRank else index + 1
                 | None \<Rightarrow> index + 1)
     in (c, rank) # rank_loop cs (Some c) rank (index + 1))"

definition rankLeaderboard ::
  "'a leaderboard_candidate_scheme list \<Rightarrow> 'a ranked_entry list result" where
  "rankLeaderboard candidates = bindE (assertUniqueCandidates [] candidates) (\<lambda>_.
    Inr (rank_loop (js_sort comparePaginationOrder candidates) None 0 0))"

section \<open>What the check amounts to\<close>

definition valid_candidate :: "'a leaderboard_candidate_scheme \<Rightarrow> bool" where
  "valid_candidate c \<longleftrightarrow> lb_state c = SOLVED \<and>
    0 \<le> lb_evidenceLevel c \<and> lb_evidenceLevel c \<le> 4 \<and>
    0 \<le> lb_totalWrongGuesses c \<and> lb_totalWrongGuesses c \<le> lb_evidenceLevel c * 3 + 2 \<and>
    0 \<le> lb_elapsedMilliseconds c \<and> lb_elapsedMilliseconds c \<le> MAX_SAFE_INTEGER \<and>
    lb_attemptId c \<noteq> []"

lemma state_name_SOLVED [simp]: "state_name s = ''SOLVED'' \<longleftrightarrow> s = SOLVED"
  by (cases s) auto

lemma safe_integer_of_JInt [simp]: "safe_integer_of (JInt i) = (if is_safe_int i then Some i else None)"
  using is_safe_integer_int [of i] by (simp add: JInt_def int_number_def)

lemma assertCandidate_Inr: "assertCandidate c = Inr u \<longleftrightarrow> valid_candidate c"
  by (auto simp: assertCandidate_def assertLeaderboardCandidate_def candidate_value_def
      valid_candidate_def is_safe_int_def MAX_SAFE_INTEGER_def throwIf_def)

lemma assertUniqueCandidates_Inr:
  "assertUniqueCandidates ids cs = Inr u \<longleftrightarrow> (\<forall>c \<in> set cs. valid_candidate c) \<and>
     distinct (map lb_attemptId cs) \<and> set ids \<inter> lb_attemptId ` set cs = {}"
  by (induction cs arbitrary: ids) (auto simp: result_simps assertCandidate_Inr)

text \<open>A valid candidate is a solved attempt of the engine, and the other way round, up to the guesses
  at its last level, which the leaderboard does not keep.\<close>

lemma valid_candidate_engine:
  "valid_candidate c \<Longrightarrow> \<exists>w. valid_snapshot \<lparr>evidenceLevel = lb_evidenceLevel c,
     wrongGuessesAtLevel = w, totalWrongGuesses = lb_totalWrongGuesses c, state = SOLVED\<rparr>"
  by (rule exI [of _ "max 0 (min 2 (lb_totalWrongGuesses c))"])
    (auto simp: valid_candidate_def valid_snapshot_def min_def max_def)

section \<open>The comparators are orders\<close>

lemma comparePerformance_sgn:
  "comparePerformance l r < 0 \<longleftrightarrow>
     (lb_evidenceLevel l, lb_totalWrongGuesses l, lb_elapsedMilliseconds l) \<noteq>
       (lb_evidenceLevel r, lb_totalWrongGuesses r, lb_elapsedMilliseconds r) \<and>
     (lb_evidenceLevel l < lb_evidenceLevel r \<or> lb_evidenceLevel l = lb_evidenceLevel r \<and>
      (lb_totalWrongGuesses l < lb_totalWrongGuesses r \<or>
       lb_totalWrongGuesses l = lb_totalWrongGuesses r \<and>
       lb_elapsedMilliseconds l < lb_elapsedMilliseconds r))"
  by (auto simp: comparePerformance_def Let_def)

lemma comparePerformance_zero:
  "comparePerformance l r = 0 \<longleftrightarrow> lb_evidenceLevel l = lb_evidenceLevel r \<and>
     lb_totalWrongGuesses l = lb_totalWrongGuesses r \<and>
     lb_elapsedMilliseconds l = lb_elapsedMilliseconds r"
  by (auto simp: comparePerformance_def Let_def)

interpretation performance_order: js_comparator comparePerformance
  by unfold_locales (auto simp: comparePerformance_def Let_def sgn_if split: if_splits)

interpretation pagination_order: js_comparator comparePaginationOrder
proof
  show "sgn (comparePaginationOrder y x) = - sgn (comparePaginationOrder x y)"
    for x y :: "'a leaderboard_candidate_scheme"
    using performance_order.cmp_flip [of y x]
    by (auto simp: comparePaginationOrder_def Let_def sgn_if split: if_splits)
  show "comparePaginationOrder x z \<le> 0"
    if "comparePaginationOrder x y \<le> 0" "comparePaginationOrder y z \<le> 0"
    for x y z :: "'a leaderboard_candidate_scheme"
    using that performance_order.cmp_trans [of x y z] performance_order.cmp_less_trans [of x y z]
      performance_order.cmp_zero_left [of x y z] performance_order.cmp_zero_cong [of x y z]
      performance_order.cmp_zero_sym [of x z] performance_order.cmp_zero_sym [of y z]
    by (auto simp: comparePaginationOrder_def Let_def split: if_splits)
qed

lemma pagination_zero: "comparePaginationOrder x y = 0 \<Longrightarrow> lb_attemptId x = lb_attemptId y"
  by (auto simp: comparePaginationOrder_def Let_def split: if_splits)

lemma pagination_refines: "comparePaginationOrder x y \<le> 0 \<Longrightarrow> comparePerformance x y \<le> 0"
  by (auto simp: comparePaginationOrder_def Let_def split: if_splits)


section \<open>Competition ranks\<close>

definition competition_rank ::
  "'a leaderboard_candidate_scheme list \<Rightarrow> 'a leaderboard_candidate_scheme \<Rightarrow> int" where
  "competition_rank cs c = 1 + int (length (filter (\<lambda>d. comparePerformance d c < 0) cs))"

lemma competition_rank_mset: "mset xs = mset ys \<Longrightarrow> competition_rank xs c = competition_rank ys c"
  by (metis competition_rank_def mset_filter size_mset)

lemma competition_rank_equal:
  "comparePerformance p c = 0 \<Longrightarrow> competition_rank xs p = competition_rank xs c"
proof -
  assume "comparePerformance p c = 0"
  then have "comparePerformance d p < 0 \<longleftrightarrow> comparePerformance d c < 0" for d
    using performance_order.cmp_zero_right [of p c d] performance_order.cmp_zero_cong [of p c d]
    by (auto simp: less_le)
  then show ?thesis by (simp add: competition_rank_def)
qed

lemma competition_rank_after:
  assumes "\<forall>d \<in> set pre. comparePerformance d c < 0" "\<forall>d \<in> set suf. comparePerformance c d \<le> 0"
  shows "competition_rank (pre @ c # suf) c = int (length pre) + 1"
proof -
  have "\<not> comparePerformance d c < 0" if "d \<in> set (c # suf)" for d
    using that assms(2) performance_order.cmp_neg_flip [of d c] performance_order.cmp_refl [of c] by auto
  then have "filter (\<lambda>d. comparePerformance d c < 0) (c # suf) = []" by (auto simp: filter_empty_conv)
  moreover have "filter (\<lambda>d. comparePerformance d c < 0) pre = pre" using assms(1) by simp
  ultimately show ?thesis by (simp add: competition_rank_def)
qed

lemma rank_loop_competition:
  "sorted_wrt (\<lambda>a b. comparePerformance a b \<le> 0) (pre @ suf) \<Longrightarrow>
   prev = (if pre = [] then None else Some (last pre)) \<Longrightarrow>
   (pre \<noteq> [] \<Longrightarrow> r = competition_rank (pre @ suf) (last pre)) \<Longrightarrow>
   rank_loop suf prev r (int (length pre)) = map (\<lambda>c. (c, competition_rank (pre @ suf) c)) suf"
proof (induction suf arbitrary: pre prev r)
  case Nil
  then show ?case by simp
next
  case (Cons c suf)
  let ?r = "case prev of Some p \<Rightarrow> if comparePerformance p c = 0 then r else int (length pre) + 1
    | None \<Rightarrow> int (length pre) + 1"
  have "?r = competition_rank (pre @ c # suf) c"
  proof (cases "pre = []")
    case True
    then show ?thesis using Cons.prems competition_rank_after [of "[]" c suf] by simp
  next
    case False
    then have s: "\<forall>d \<in> set pre. comparePerformance d (last pre) \<le> 0"
      using Cons.prems(1) performance_order.cmp_refl [of "last pre"]
      by (metis append_butlast_last_id in_set_conv_decomp_last order_refl sorted_wrt_append
          UnE set_append list.set_intros(1) empty_iff list.set(1) set_ConsD)
    show ?thesis
    proof (cases "comparePerformance (last pre) c = 0")
      case True
      then show ?thesis using Cons.prems False competition_rank_equal [OF True] by simp
    next
      case neq: False
      have "last pre \<in> set pre" using False by simp
      then have "comparePerformance (last pre) c < 0" and suf: "\<forall>d \<in> set suf. comparePerformance c d \<le> 0"
        using Cons.prems(1) neq by (auto simp: sorted_wrt_append less_le)
      then have "\<forall>d \<in> set pre. comparePerformance d c < 0"
        using s by (meson performance_order.cmp_neg_flip performance_order.cmp_trans linorder_not_less
            performance_order.cmp_less_trans)
      then show ?thesis using competition_rank_after [OF _ suf] Cons.prems(2) False neq by simp
    qed
  qed
  then show ?case
    using Cons.prems Cons.IH [of "pre @ [c]" "Some c" ?r] by (simp add: Let_def add.commute)
qed

lemma rankLeaderboard_Inr:
  "rankLeaderboard cs = Inr rs \<longleftrightarrow> (\<forall>c \<in> set cs. valid_candidate c) \<and> distinct (map lb_attemptId cs) \<and>
     rs = map (\<lambda>c. (c, competition_rank cs c)) (js_sort comparePaginationOrder cs)"
proof -
  let ?s = "js_sort comparePaginationOrder cs"
  have "sorted_wrt (\<lambda>a b. comparePerformance a b \<le> 0) ?s"
    using pagination_order.sorted_js_sort [of cs] by (rule sorted_wrt_mono_rel [rotated])
      (rule pagination_refines)
  then have "rank_loop ?s None 0 0 = map (\<lambda>c. (c, competition_rank ?s c)) ?s"
    using rank_loop_competition [of "[]" ?s None 0] by simp
  moreover have "competition_rank ?s = competition_rank cs"
    by (rule ext) (rule competition_rank_mset, simp)
  ultimately show ?thesis
    by (auto simp: rankLeaderboard_def bindE_eq_Inr assertUniqueCandidates_Inr)
qed

text \<open>Property C24. Ranking succeeds exactly when every candidate is a valid solved attempt and the
  identifiers are distinct. The result is the candidates, each once, in pagination order, each
  with its competition rank: one more than the number of candidates that did strictly better, so
  equal performances share a rank and the next rank is skipped.\<close>

theorem leaderboard_competition_ranks:
  "rankLeaderboard cs = Inr rs \<longleftrightarrow>
     list_all valid_candidate cs \<and> distinct (map lb_attemptId cs) \<and>
     mset (map fst rs) = mset cs \<and>
     sorted_wrt (\<lambda>a b. comparePaginationOrder a b \<le> 0) (map fst rs) \<and>
     map snd rs = map (competition_rank cs) (map fst rs)"
proof -
  let ?s = "js_sort comparePaginationOrder cs"
  have "rs = map (\<lambda>c. (c, competition_rank cs c)) ?s"
    if d: "distinct (map lb_attemptId cs)" and m: "mset (map fst rs) = mset cs"
      and s: "sorted_wrt (\<lambda>a b. comparePaginationOrder a b \<le> 0) (map fst rs)"
      and r: "map snd rs = map (competition_rank cs) (map fst rs)"
  proof -
    have "set (map fst rs) = set cs" using m by (metis set_mset_mset)
    then have "a = b" if "a \<in> set (map fst rs)" "b \<in> set (map fst rs)" "comparePaginationOrder a b = 0" for a b
      using that d pagination_zero [of a b] by (auto simp: distinct_map dest: inj_onD)
    then have "map fst rs = ?s"
      using m s pagination_order.sorted_js_sort by (intro pagination_order.sorted_unique) auto
    then have "zip (map fst rs) (map snd rs) = map (\<lambda>c. (c, competition_rank cs c)) ?s"
      by (simp add: r zip_map2 zip_same_conv_map)
    then show ?thesis by (simp add: zip_map_fst_snd)
  qed
  then show ?thesis
    using pagination_order.sorted_js_sort [of cs] by (auto simp: rankLeaderboard_Inr list_all_iff comp_def multiset.map_comp)
qed

text \<open>The ranking is a function of the set of attempts: the same candidates in another
  order rank the same.\<close>

lemma leaderboard_order_independent:
  assumes "mset cs = mset cs'" "rankLeaderboard cs = Inr rs"
  shows "rankLeaderboard cs' = Inr rs"
proof -
  have d: "distinct (map lb_attemptId cs)" and v: "\<forall>c \<in> set cs. valid_candidate c"
    using assms(2) by (simp_all add: rankLeaderboard_Inr)
  have eq: "set cs = set cs'" using assms(1) by (metis set_mset_mset)
  have "js_sort comparePaginationOrder cs = js_sort comparePaginationOrder cs'"
    using d pagination_zero assms(1) pagination_order.sorted_js_sort
    by (intro pagination_order.sorted_unique) (auto simp: distinct_map dest: inj_onD)
  moreover have "distinct (map lb_attemptId cs')"
    using d assms(1) by (metis mset_map mset_eq_imp_distinct_iff)
  ultimately show ?thesis
    using assms v eq competition_rank_mset [OF assms(1)] by (simp add: rankLeaderboard_Inr)
qed

definition sample_candidate :: "string \<Rightarrow> int \<Rightarrow> leaderboard_candidate" where
  "sample_candidate i t = \<lparr>lb_attemptId = i, lb_state = SOLVED, lb_evidenceLevel = 1,
     lb_totalWrongGuesses = 2, lb_elapsedMilliseconds = t\<rparr>"

lemma leaderboard_order_independent_example:
  "rankLeaderboard [sample_candidate ''b'' 9, sample_candidate ''c'' 5, sample_candidate ''a'' 5] =
     Inr [(sample_candidate ''a'' 5, 1), (sample_candidate ''c'' 5, 1), (sample_candidate ''b'' 9, 3)]"
  by (rule leaderboard_order_independent
      [of "[sample_candidate ''a'' 5, sample_candidate ''b'' 9, sample_candidate ''c'' 5]"])
    (simp, code_simp)

end
