(* ===== verification/Projections.thy ===== *)
theory Projections
  imports Attempt_Engine
begin

text \<open>
  \<^verbatim>\<open>packages/domain/src/projections.ts\<close>: what a player is shown of the case and of their attempt.
  The case file is private (the answer, the explanations and the later evidence); a projection is
  built from it and the player's own attempt.

  Results: when a projection is refused; a running attempt's projection does not depend on the
  answer, on the explanations and sources, or on evidence the player has not reached.
\<close>

section \<open>Data\<close>

record entity_suggestion =
  es_entityId :: string
  es_canonicalName :: string
  es_publicRole :: string
  es_aliases :: "string list"

record public_evidence =
  pe_level :: int
  pe_text :: string

record private_evidence = public_evidence +
  pe_explanation :: string
  pe_sourceReferences :: "string list"

record private_case_file =
  cf_slotId :: string
  cf_revisionId :: string
  cf_opensAt :: string
  cf_closesAt :: string
  cf_briefing :: string
  cf_suggestions :: "entity_suggestion list"
  cf_answerEntityId :: string
  cf_evidence :: "private_evidence list"

record public_slot =
  ps_slotId :: string
  ps_opensAt :: string
  ps_closesAt :: string

record private_guess =
  pg_guessId :: string
  pg_guestId :: string
  pg_entityId :: string
  pg_guessedAt :: string

record private_attempt =
  pa_attemptId :: string
  pa_ownerGuestId :: string
  pa_slotId :: string
  pa_revisionId :: string
  pa_version :: int
  pa_startedAt :: string
  pa_snapshotAt :: string
  pa_attempt :: attempt_snapshot
  pa_guesses :: "private_guess list"

record public_guess =
  pub_entityId :: string
  pub_guessedAt :: string

record projection_base =
  pb_attemptId :: string
  pb_state :: attempt_state
  pb_version :: int
  pb_startedAt :: string
  pb_closesAt :: string
  pb_evidenceLevel :: int
  pb_wrongGuessesAtLevel :: int
  pb_totalWrongGuesses :: int
  pb_briefing :: string
  pb_suggestions :: "entity_suggestion list"
  pb_guessHistory :: "public_guess list"

datatype case_projection =
    NoCase
  | NotStarted public_slot
  | ActiveAttempt projection_base "public_evidence list"
  | TerminalAttempt projection_base entity_suggestion "private_evidence list"

section \<open>Operations\<close>

definition projectNoCase :: case_projection where
  "projectNoCase = NoCase"

definition projectNotStarted :: "public_slot \<Rightarrow> case_projection" where
  "projectNotStarted slot = NotStarted
    \<lparr>ps_slotId = ps_slotId slot, ps_opensAt = ps_opensAt slot, ps_closesAt = ps_closesAt slot\<rparr>"

definition projectPublicSuggestion :: "entity_suggestion \<Rightarrow> entity_suggestion" where
  "projectPublicSuggestion s =
    \<lparr>es_entityId = es_entityId s, es_canonicalName = es_canonicalName s,
     es_publicRole = es_publicRole s, es_aliases = es_aliases s\<rparr>"

definition projectPublicEvidence :: "private_evidence \<Rightarrow> public_evidence" where
  "projectPublicEvidence e = \<lparr>pe_level = pe_level e, pe_text = pe_text e\<rparr>"

definition projectTerminalEvidence :: "private_evidence \<Rightarrow> private_evidence" where
  "projectTerminalEvidence e = public_evidence.extend (projectPublicEvidence e)
     \<lparr>pe_explanation = pe_explanation e, pe_sourceReferences = pe_sourceReferences e\<rparr>"

definition assertOrderedEvidence :: "private_evidence list \<Rightarrow> unit result" where
  "assertOrderedEvidence es =
    throwIf (length es \<noteq> 4 \<or> map pe_level es \<noteq> map (\<lambda>i. int i + 1) [0..<length es])
      (RangeError ''evidence must contain ordered levels one through four'')"

definition projectAttemptBase :: "private_case_file \<Rightarrow> private_attempt \<Rightarrow> projection_base" where
  "projectAttemptBase cf r =
    \<lparr>pb_attemptId = pa_attemptId r,
     pb_state = state (pa_attempt r),
     pb_version = pa_version r,
     pb_startedAt = pa_startedAt r,
     pb_closesAt = cf_closesAt cf,
     pb_evidenceLevel = evidenceLevel (pa_attempt r),
     pb_wrongGuessesAtLevel = wrongGuessesAtLevel (pa_attempt r),
     pb_totalWrongGuesses = totalWrongGuesses (pa_attempt r),
     pb_briefing = cf_briefing cf,
     pb_suggestions = map projectPublicSuggestion (cf_suggestions cf),
     pb_guessHistory = map (\<lambda>g. \<lparr>pub_entityId = pg_entityId g, pub_guessedAt = pg_guessedAt g\<rparr>)
       (pa_guesses r)\<rparr>"

definition projectAttempt ::
  "private_case_file \<Rightarrow> private_attempt \<Rightarrow> string \<Rightarrow> case_projection result" where
  "projectAttempt cf r requestingGuestId =
    (if pa_ownerGuestId r \<noteq> requestingGuestId
       then Inl (JsError ''attempt does not belong to the requesting guest'')
     else if list_ex (\<lambda>g. pg_guestId g \<noteq> pa_ownerGuestId r) (pa_guesses r)
       then Inl (JsError ''guess history contains another guest'')
     else if pa_slotId r \<noteq> cf_slotId cf \<or> pa_revisionId r \<noteq> cf_revisionId cf
       then Inl (JsError ''attempt does not reference the supplied case revision'')
     else
       bindE (assertSnapshot (pa_attempt r)) (\<lambda>_.
       bindE (assertOrderedEvidence (cf_evidence cf)) (\<lambda>_.
         let base = projectAttemptBase cf r in
         if state (pa_attempt r) = ACTIVE
         then Inr (ActiveAttempt base
           (map projectPublicEvidence (take (nat (evidenceLevel (pa_attempt r))) (cf_evidence cf))))
         else (case find (\<lambda>s. es_entityId s = cf_answerEntityId cf) (cf_suggestions cf) of
             None \<Rightarrow> Inl (RangeError ''answerEntityId must identify a public suggestion'')
           | Some answer \<Rightarrow> Inr (TerminalAttempt base (projectPublicSuggestion answer)
               (map projectTerminalEvidence (cf_evidence cf)))))))"

section \<open>When a projection exists\<close>

definition ordered_evidence :: "private_evidence list \<Rightarrow> bool" where
  "ordered_evidence es \<longleftrightarrow> map pe_level es = [1, 2, 3, 4]"

lemma assertOrderedEvidence_Inr: "assertOrderedEvidence es = Inr u \<longleftrightarrow> ordered_evidence es"
proof -
  have "map (\<lambda>i. int i + 1) [0..<4] = [1, 2, 3, 4]" by (simp add: upt_rec)
  moreover have "map pe_level es = [1, 2, 3, 4] \<Longrightarrow> length es = 4"
    by (drule arg_cong [of _ _ length]) simp
  ultimately show ?thesis
    by (auto simp: assertOrderedEvidence_def throwIf_def ordered_evidence_def)
qed

definition may_project :: "private_case_file \<Rightarrow> private_attempt \<Rightarrow> string \<Rightarrow> bool" where
  "may_project cf r guest \<longleftrightarrow> pa_ownerGuestId r = guest \<and>
     list_all (\<lambda>g. pg_guestId g = guest) (pa_guesses r) \<and>
     pa_slotId r = cf_slotId cf \<and> pa_revisionId r = cf_revisionId cf \<and>
     valid_snapshot (pa_attempt r) \<and> ordered_evidence (cf_evidence cf)"

lemma projectAttempt_active:
  "state (pa_attempt r) = ACTIVE \<Longrightarrow> projectAttempt cf r guest = Inr p \<longleftrightarrow> may_project cf r guest \<and>
     p = ActiveAttempt (projectAttemptBase cf r)
       (map projectPublicEvidence (take (nat (evidenceLevel (pa_attempt r))) (cf_evidence cf)))"
  by (auto simp: projectAttempt_def may_project_def bindE_eq_Inr assertSnapshot_valid
      assertOrderedEvidence_Inr Let_def list_all_iff list_ex_iff)

lemma projectAttempt_terminal:
  "state (pa_attempt r) \<noteq> ACTIVE \<Longrightarrow> projectAttempt cf r guest = Inr p \<longleftrightarrow> may_project cf r guest \<and>
     (\<exists>answer. find (\<lambda>s. es_entityId s = cf_answerEntityId cf) (cf_suggestions cf) = Some answer \<and>
       p = TerminalAttempt (projectAttemptBase cf r) (projectPublicSuggestion answer)
         (map projectTerminalEvidence (cf_evidence cf)))"
  by (auto simp: projectAttempt_def may_project_def bindE_eq_Inr assertSnapshot_valid
      assertOrderedEvidence_Inr Let_def list_all_iff list_ex_iff split: option.splits)

section \<open>No disclosure\<close>

text \<open>Two case files a player at evidence level \<open>e\<close> must not be able to tell apart: they agree on what
  is public and on the texts of the first \<open>e\<close> pieces of evidence.\<close>

definition same_public_case :: "int \<Rightarrow> private_case_file \<Rightarrow> private_case_file \<Rightarrow> bool" where
  "same_public_case e cf cf' \<longleftrightarrow>
    cf_slotId cf = cf_slotId cf' \<and> cf_revisionId cf = cf_revisionId cf' \<and>
    cf_closesAt cf = cf_closesAt cf' \<and> cf_briefing cf = cf_briefing cf' \<and>
    cf_suggestions cf = cf_suggestions cf' \<and>
    map pe_level (cf_evidence cf) = map pe_level (cf_evidence cf') \<and>
    map pe_text (take (nat e) (cf_evidence cf)) = map pe_text (take (nat e) (cf_evidence cf'))"

lemma public_evidence_columns: "map projectPublicEvidence es =
    map2 (\<lambda>l t. \<lparr>pe_level = l, pe_text = t\<rparr>) (map pe_level es) (map pe_text es)"
  by (induction es) (simp_all add: projectPublicEvidence_def)

lemma same_case_errors:
  "map pe_level es = map pe_level es' \<Longrightarrow> assertOrderedEvidence es = assertOrderedEvidence es'"
  using map_eq_imp_length_eq [of pe_level es pe_level es'] by (simp add: assertOrderedEvidence_def)

text \<open>Property C6. While an attempt is running, the response to its owner, an error included, is the
  same for every two case files that agree on the public part and on the evidence texts up to the
  attempt's level: it discloses neither the answer nor an explanation, a source or later evidence.\<close>

theorem active_projection_discloses_nothing:
  assumes "state (pa_attempt r) = ACTIVE"
    and "same_public_case (evidenceLevel (pa_attempt r)) cf cf'"
  shows "projectAttempt cf r guest = projectAttempt cf' r guest"
proof -
  let ?n = "nat (evidenceLevel (pa_attempt r))"
  note s = assms(2) [unfolded same_public_case_def]
  have "map pe_level (take ?n (cf_evidence cf)) = map pe_level (take ?n (cf_evidence cf'))"
    using s by (metis take_map)
  then have "map projectPublicEvidence (take ?n (cf_evidence cf)) =
      map projectPublicEvidence (take ?n (cf_evidence cf'))"
    using s by (simp add: public_evidence_columns)
  moreover have "projectAttemptBase cf r = projectAttemptBase cf' r"
    using s by (simp add: projectAttemptBase_def)
  moreover have "assertOrderedEvidence (cf_evidence cf) = assertOrderedEvidence (cf_evidence cf')"
    using s by (intro same_case_errors) simp
  ultimately show ?thesis using s assms(1) by (simp add: projectAttempt_def Let_def)
qed

definition sample_case :: "string \<Rightarrow> string \<Rightarrow> private_case_file" where
  "sample_case answer secret =
    \<lparr>cf_slotId = ''s'', cf_revisionId = ''r'', cf_opensAt = ''o'', cf_closesAt = ''c'', cf_briefing = ''b'',
     cf_suggestions = [\<lparr>es_entityId = ''x'', es_canonicalName = ''X'', es_publicRole = '''', es_aliases = []\<rparr>,
       \<lparr>es_entityId = ''y'', es_canonicalName = ''Y'', es_publicRole = '''', es_aliases = []\<rparr>],
     cf_answerEntityId = answer,
     cf_evidence = map (\<lambda>i. \<lparr>pe_level = i, pe_text = (if i = 1 then ''open'' else secret),
       pe_explanation = secret, pe_sourceReferences = [secret]\<rparr>) [1, 2, 3, 4]\<rparr>"

definition sample_attempt :: "attempt_snapshot \<Rightarrow> private_attempt" where
  "sample_attempt a = \<lparr>pa_attemptId = ''a'', pa_ownerGuestId = ''g'', pa_slotId = ''s'', pa_revisionId = ''r'',
     pa_version = 1, pa_startedAt = ''t'', pa_snapshotAt = ''t'', pa_attempt = a, pa_guesses = []\<rparr>"

theorem active_projection_discloses_nothing_witness:
  "projectAttempt (sample_case ''x'' ''k'') (sample_attempt (active_at 1 0 0)) ''g'' =
   projectAttempt (sample_case ''y'' ''z'') (sample_attempt (active_at 1 0 0)) ''g''"
  by (rule active_projection_discloses_nothing)
    (simp_all add: sample_attempt_def same_public_case_def sample_case_def)

text \<open>A projection exists exactly when the requesting guest owns the attempt and all of its
  guesses, the attempt is of the given slot and revision, its snapshot is valid, the evidence has
  the levels one to four in order and, once the attempt is over, the answer is one of the public
  suggestions. A finished attempt is shown all the evidence and the answer.\<close>

lemma projection_exists_iff:
  "(\<exists>p. projectAttempt cf r guest = Inr p) \<longleftrightarrow> may_project cf r guest \<and>
     (state (pa_attempt r) = ACTIVE \<or> cf_answerEntityId cf \<in> es_entityId ` set (cf_suggestions cf))"
proof (cases "state (pa_attempt r) = ACTIVE")
  case True
  then show ?thesis by (simp add: projectAttempt_active)
next
  case False
  have "(\<exists>answer. find (\<lambda>s. es_entityId s = cf_answerEntityId cf) (cf_suggestions cf) = Some answer) \<longleftrightarrow>
      cf_answerEntityId cf \<in> es_entityId ` set (cf_suggestions cf)"
    using find_None_iff [of "\<lambda>s. es_entityId s = cf_answerEntityId cf" "cf_suggestions cf"]
    by (auto simp flip: not_None_eq intro: rev_image_eqI)
  then show ?thesis using False by (auto simp: projectAttempt_terminal)
qed

end
