(* ===== verification/Game_Store.thy ===== *)
theory Game_Store
  imports Aggregates Leaderboard Projections
begin

text \<open>
  The PostgreSQL tables the gameplay code works on (\<^verbatim>\<open>packages/database/migrations\<close>) and the shape
  of a transaction (\<^verbatim>\<open>packages/database/src/gameplay/runtime.ts\<close>). A table is the list of its rows
  in insertion order; a statement is a function on the whole store that may fail with the
  constraint it violates; a transaction commits the store its work leaves, or keeps the old one
  when the work throws. The rows a transaction works on are locked (\<^verbatim>\<open>FOR UPDATE\<close> on the guest), so
  the transactions of one guest are modelled one after the other.

  An instant is a number of milliseconds, the resolution of a \<^verbatim>\<open>Date\<close>; the readings of the
  database clock and the random identifiers are arguments (\<open>store_env\<close>), as are the hash function
  and the collation of the database. Foreign keys are not checked by the model: the code inserts
  children of rows it has just read or written.
\<close>

section \<open>Rows\<close>

record guest_row =
  g_id :: string
  g_pseudonym :: string

record session_row =
  se_id :: string
  se_guest :: string
  se_tokenHash :: string
  se_csrfHash :: string
  se_createdAt :: int
  se_expiresAt :: int

record revision_row =
  rv_id :: string
  rv_published :: bool
  rv_slot :: string
  rv_opens :: int
  rv_closes :: int
  rv_briefing :: string
  rv_answer :: string

record entity_row =
  en_revision :: string
  en_id :: string
  en_publicId :: string
  en_name :: string
  en_role :: string
  en_eligible :: bool

record alias_row =
  al_revision :: string
  al_entity :: string
  al_alias :: string

record evidence_row =
  ev_revision :: string
  ev_order :: int
  ev_text :: string
  ev_explanation :: string

record source_row =
  so_revision :: string
  so_order :: int
  so_id :: string

record region_row =
  rr_revision :: string
  rr_region :: string

record attempt_row =
  at_id :: string
  at_guest :: string
  at_revision :: string
  at_slot :: string
  at_snapshot :: attempt_snapshot
  at_version :: int
  at_started :: int
  at_updated :: int
  at_terminal :: "int option"

record guess_row =
  gs_id :: string
  gs_attempt :: string
  gs_revision :: string
  gs_number :: int
  gs_entity :: string
  gs_correct :: bool
  gs_level :: int
  gs_at :: int

datatype command_kind = K_START | K_GUESS | K_REVEAL | K_GIVE_UP

datatype outcome_code = O_STARTED | O_CORRECT | O_WRONG | O_REVEALED | O_GIVEN_UP

record receipt_row =
  rc_id :: string
  rc_guest :: string
  rc_session :: string
  rc_key :: string
  rc_fingerprint :: string
  rc_kind :: command_kind
  rc_outcome :: outcome_code
  rc_attempt :: string
  rc_version :: int

record finalization_row =
  fi_attempt :: string
  fi_guest :: string
  fi_slot :: string
  fi_outcome :: attempt_state
  fi_score :: int
  fi_at :: int

record participation_row =
  pd_guest :: string
  pd_day :: string
  pd_first :: int

record contribution_row =
  kc_attempt :: string
  kc_revision :: string
  kc_guest :: string
  kc_slot :: string
  kc_outcome :: attempt_state
  kc_region :: string
  kc_alpha :: int
  kc_beta :: int

record knowledge_row =
  rk_guest :: string
  rk_region :: string
  rk_counters :: knowledge_counters

record entry_row =
  le_attempt :: string
  le_guest :: string
  le_slot :: string
  le_pseudonym :: string
  le_level :: int
  le_wrong :: int
  le_elapsed :: int
  le_score :: int

record game_db =
  guests :: "guest_row list"
  sessions :: "session_row list"
  revisions :: "revision_row list"
  entities :: "entity_row list"
  aliases :: "alias_row list"
  evidences :: "evidence_row list"
  case_sources :: "source_row list"
  revision_regions :: "region_row list"
  region_catalog :: "string list"
  attempts :: "attempt_row list"
  guesses :: "guess_row list"
  receipts :: "receipt_row list"
  finalizations :: "finalization_row list"
  participation :: "participation_row list"
  contributions :: "contribution_row list"
  knowledge :: "knowledge_row list"
  entries :: "entry_row list"

text \<open>What a transaction takes from outside: clock readings, in the order they are made, fresh
  identifiers, the SHA-256 of \<^verbatim>\<open>node:crypto\<close> and the comparison of texts under the collation.\<close>

record store_env =
  now_session :: int
  now_row :: int
  now_sample :: int
  now_receipt :: int
  uuid_attempt :: string
  uuid_guess :: string
  uuid_receipt :: string
  sha256 :: "string \<Rightarrow> string"
  collate :: "string \<Rightarrow> string \<Rightarrow> int"

section \<open>Statements and transactions\<close>

datatype store_error = Thrown js_error | Constraint string

type_synonym 'a tx = "game_db \<Rightarrow> store_error + 'a \<times> game_db"

definition returnT :: "'a \<Rightarrow> 'a tx" where
  "returnT a db = Inr (a, db)"

definition raiseT :: "store_error \<Rightarrow> 'a tx" where
  "raiseT e db = Inl e"

definition bindT :: "'a tx \<Rightarrow> ('a \<Rightarrow> 'b tx) \<Rightarrow> 'b tx" where
  "bindT m f db = (case m db of Inl e \<Rightarrow> Inl e | Inr (a, db') \<Rightarrow> f a db')"

definition queryT :: "(game_db \<Rightarrow> 'a) \<Rightarrow> 'a tx" where
  "queryT q db = Inr (q db, db)"

definition liftT :: "'a result \<Rightarrow> 'a tx" where
  "liftT r db = (case r of Inl e \<Rightarrow> Inl (Thrown e) | Inr a \<Rightarrow> Inr (a, db))"

definition checkT :: "string \<Rightarrow> bool \<Rightarrow> unit tx" where
  "checkT name ok db = (if ok then Inr ((), db) else Inl (Constraint name))"

definition modifyT :: "(game_db \<Rightarrow> game_db) \<Rightarrow> unit tx" where
  "modifyT f db = Inr ((), f db)"

text \<open>\<^verbatim>\<open>transaction\<close>: BEGIN, the work, COMMIT; ROLLBACK and the same error when the work throws.\<close>

definition transaction :: "'a tx \<Rightarrow> game_db \<Rightarrow> (store_error + 'a) \<times> game_db" where
  "transaction work db = (case work db of Inl e \<Rightarrow> (Inl e, db) | Inr (a, db') \<Rightarrow> (Inr a, db'))"

lemma tx_simps [simp]:
  "returnT a db = Inr (a, db)"
  "raiseT e db = Inl e"
  "queryT q db = Inr (q db, db)"
  "modifyT f db = Inr ((), f db)"
  by (simp_all add: returnT_def raiseT_def queryT_def modifyT_def)

lemma bindT_Inr: "bindT m f db = Inr (b, db'') \<longleftrightarrow> (\<exists>a db'. m db = Inr (a, db') \<and> f a db' = Inr (b, db''))"
  by (auto simp: bindT_def split: sum.splits)

lemma liftT_Inr: "liftT r db = Inr (a, db') \<longleftrightarrow> r = Inr a \<and> db' = db"
  by (auto simp: liftT_def split: sum.splits)

lemma checkT_Inr: "checkT n ok db = Inr (u, db') \<longleftrightarrow> ok \<and> db' = db"
  by (auto simp: checkT_def)

lemmas tx_Inr = bindT_Inr liftT_Inr checkT_Inr

lemma bindT_run [simp]:
  "m db = Inr (a, db') \<Longrightarrow> bindT m f db = f a db'"
  "m db = Inl e \<Longrightarrow> bindT m f db = Inl e"
  by (simp_all add: bindT_def)

lemma checkT_run [simp]: "ok \<Longrightarrow> checkT n ok db = Inr ((), db)"
  by (simp add: checkT_def)

lemma liftT_run [simp]: "liftT (Inr a) db = Inr (a, db)" "liftT (Inl e) db = Inl (Thrown e)"
  by (simp_all add: liftT_def)

text \<open>The contract of a transaction's work: what it promises to keep of the store. It is what the
  callers of \<^verbatim>\<open>transaction\<close> rely on, whatever happens inside.\<close>

definition keeps :: "(game_db \<Rightarrow> bool) \<Rightarrow> 'a tx \<Rightarrow> bool" where
  "keeps P m \<longleftrightarrow> (\<forall>db a db'. P db \<longrightarrow> m db = Inr (a, db') \<longrightarrow> P db')"

named_theorems keeps_intros \<open>work that keeps an invariant\<close>

lemma keepsI: "(\<And>db a db'. P db \<Longrightarrow> m db = Inr (a, db') \<Longrightarrow> P db') \<Longrightarrow> keeps P m"
  by (simp add: keeps_def)

lemma keepsD: "keeps P m \<Longrightarrow> P db \<Longrightarrow> m db = Inr (a, db') \<Longrightarrow> P db'"
  by (simp add: keeps_def)

lemma keeps_basic [keeps_intros]:
  "keeps P (returnT a)" "keeps P (raiseT e)" "keeps P (queryT q)" "keeps P (liftT r)"
  "keeps P (checkT n ok)"
  by (auto simp: keeps_def tx_Inr)

lemma keeps_bind [keeps_intros]:
  "keeps P m \<Longrightarrow> (\<And>a. keeps P (f a)) \<Longrightarrow> keeps P (bindT m f)"
  unfolding keeps_def bindT_Inr by blast

lemma keeps_split [keeps_intros]:
  "(b \<Longrightarrow> keeps P m) \<Longrightarrow> (\<not> b \<Longrightarrow> keeps P m') \<Longrightarrow> keeps P (if b then m else m')"
  "(x = None \<Longrightarrow> keeps P m) \<Longrightarrow> (\<And>y. x = Some y \<Longrightarrow> keeps P (f y)) \<Longrightarrow>
    keeps P (case x of None \<Rightarrow> m | Some y \<Rightarrow> f y)"
  by (auto split: option.split)

locale store_operation =
  fixes P :: "game_db \<Rightarrow> bool" and work :: "'a tx"
  assumes work_keeps: "keeps P work"
begin

lemma transaction_keeps: "P db \<Longrightarrow> P (snd (transaction work db))"
  using work_keeps by (auto simp: transaction_def keeps_def split: sum.split)

lemma committed_keeps: "P db \<Longrightarrow> transaction work db = (r, db') \<Longrightarrow> P db'"
  using transaction_keeps [of db] by simp

end

lemma transaction_rollback: "fst (transaction work db) = Inl e \<Longrightarrow> snd (transaction work db) = db"
  by (auto simp: transaction_def split: sum.splits)

section \<open>Rows by key\<close>

text \<open>\<^verbatim>\<open>UPDATE ... WHERE key = k\<close> and the contract of an update that leaves the key alone.\<close>

definition update_where :: "('r \<Rightarrow> bool) \<Rightarrow> ('r \<Rightarrow> 'r) \<Rightarrow> 'r list \<Rightarrow> 'r list" where
  "update_where p f rows = map (\<lambda>r. if p r then f r else r) rows"

lemma set_update_where: "r \<in> set (update_where p f rows) \<longleftrightarrow>
    (\<exists>x \<in> set rows. r = (if p x then f x else x))"
  by (auto simp: update_where_def)

lemma update_where_none: "(\<And>r. r \<in> set rows \<Longrightarrow> \<not> p r) \<Longrightarrow> update_where p f rows = rows"
  by (simp add: update_where_def map_idI)

locale key_preserving_update =
  fixes key :: "'r \<Rightarrow> 'k" and f :: "'r \<Rightarrow> 'r"
  assumes key_f [simp]: "key (f r) = key r"
begin

lemma keys_update_where [simp]: "map key (update_where p f rows) = map key rows"
  by (simp add: update_where_def)

lemma find_update_where:
  "find (\<lambda>r. key r = k) (update_where (\<lambda>r. key r = k') f rows) =
     (if k = k' then map_option f (find (\<lambda>r. key r = k) rows) else find (\<lambda>r. key r = k) rows)"
  by (induction rows) (auto simp: update_where_def)

end

lemma find_key:
  "distinct (map key rows) \<Longrightarrow> r \<in> set rows \<Longrightarrow> find (\<lambda>x. key x = key r) rows = Some r"
  by (induction rows) (auto simp: image_iff)

lemma find_Some_key: "find p rows = Some r \<Longrightarrow> r \<in> set rows \<and> p r"
  by (metis find_Some_iff nth_mem)

lemma find_None_key: "find p rows = None \<longleftrightarrow> (\<forall>r \<in> set rows. \<not> p r)"
  by (auto simp: find_None_iff)

lemma distinct_key_eq:
  "distinct (map key rows) \<Longrightarrow> r \<in> set rows \<Longrightarrow> s \<in> set rows \<Longrightarrow> key r = key s \<Longrightarrow> r = s"
  by (auto simp: distinct_map dest: inj_onD)

end
