(* ===== verification/Attempt_Records.thy ===== *)
theory Attempt_Records
  imports Game_Store
begin

text \<open>
  \<^verbatim>\<open>packages/database/src/gameplay/attempt-records.ts\<close> and \<^verbatim>\<open>reconciliation.ts\<close>: reading an attempt with
  its case, projecting it, and finalizing it. Finalization is the one place where an attempt
  becomes terminal: it updates the attempt, records the outcome and score once, credits the
  regions of the case and, for a solved attempt, adds the leaderboard entry.

  Results: what finalization leaves in each table, and that expiry changes nothing but an attempt
  that is still active after its case closed.
\<close>

section \<open>Reading an attempt\<close>

record attempt_view =
  vw_id :: string
  vw_guest :: string
  vw_revision :: string
  vw_slot :: string
  vw_snapshot :: attempt_snapshot
  vw_version :: int
  vw_started :: int
  vw_closes :: int
  vw_sampled :: int

text \<open>The published revision that is open now; of several, the one that opened last (\<^verbatim>\<open>ORDER BY
  opens_at DESC LIMIT 1\<close>).\<close>

definition currentRevision :: "int \<Rightarrow> game_db \<Rightarrow> revision_row option" where
  "currentRevision sampledAt db =
    (case js_sort (\<lambda>a b. rv_opens b - rv_opens a)
        (filter (\<lambda>r. rv_published r \<and> rv_opens r \<le> sampledAt \<and> sampledAt < rv_closes r) (revisions db))
     of [] \<Rightarrow> None | r # _ \<Rightarrow> Some r)"

definition view_of :: "attempt_row \<Rightarrow> int \<Rightarrow> int \<Rightarrow> attempt_view" where
  "view_of a closes sampled =
    \<lparr>vw_id = at_id a, vw_guest = at_guest a, vw_revision = at_revision a, vw_slot = at_slot a,
     vw_snapshot = at_snapshot a, vw_version = at_version a, vw_started = at_started a,
     vw_closes = closes, vw_sampled = sampled\<rparr>"

definition attemptRow :: "store_env \<Rightarrow> string \<Rightarrow> string \<Rightarrow> game_db \<Rightarrow> attempt_view option" where
  "attemptRow env attemptId guestId db =
    (case find (\<lambda>a. at_id a = attemptId \<and> at_guest a = guestId) (attempts db) of
       None \<Rightarrow> None
     | Some a \<Rightarrow>
         (case find (\<lambda>r. rv_id r = at_revision a) (revisions db) of
            None \<Rightarrow> None
          | Some r \<Rightarrow> Some (view_of a (rv_closes r) (now_row env))))"

definition snapshot :: "attempt_view \<Rightarrow> attempt_snapshot" where
  "snapshot row = vw_snapshot row"

section \<open>Hydrating the case\<close>

definition suggestion_of :: "store_env \<Rightarrow> game_db \<Rightarrow> entity_row \<Rightarrow> entity_suggestion" where
  "suggestion_of env db e =
    \<lparr>es_entityId = en_publicId e, es_canonicalName = en_name e, es_publicRole = en_role e,
     es_aliases = map al_alias (filter (\<lambda>a. al_entity a = en_id e)
       (js_sort (\<lambda>a b. collate env (al_alias a) (al_alias b))
         (filter (\<lambda>a. al_revision a = en_revision e) (aliases db))))\<rparr>"

definition order_entities :: "store_env \<Rightarrow> entity_row \<Rightarrow> entity_row \<Rightarrow> int" where
  "order_entities env a b =
    (let c = collate env (en_name a) (en_name b) in
     if c \<noteq> 0 then c
     else if en_id a < en_id b then -1 else if en_id a = en_id b then 0 else 1)"

definition hydrateCase :: "store_env \<Rightarrow> string \<Rightarrow> game_db \<Rightarrow> private_case_file result" where
  "hydrateCase env revisionId db =
    (case find (\<lambda>r. rv_id r = revisionId \<and> rv_published r) (revisions db) of
       None \<Rightarrow> Inl (JsError ''published case revision is missing'')
     | Some r \<Rightarrow>
       (case find (\<lambda>e. en_revision e = rv_id r \<and> en_id e = rv_answer r) (entities db) of
          None \<Rightarrow> Inl (JsError ''published case revision is missing'')
        | Some answer \<Rightarrow>
          let es = js_sort (order_entities env)
                (filter (\<lambda>e. en_revision e = revisionId \<and> en_eligible e) (entities db));
              evs = js_sort (\<lambda>a b. ev_order a - ev_order b)
                (filter (\<lambda>e. ev_revision e = revisionId) (evidences db));
              sources = map so_id (js_sort (\<lambda>a b. so_order a - so_order b)
                (filter (\<lambda>s. so_revision s = revisionId) (case_sources db)))
          in if length evs \<noteq> 4 then Inl (JsError ''published case evidence is incomplete'')
             else Inr
               \<lparr>cf_slotId = rv_slot r, cf_revisionId = rv_id r,
                cf_opensAt = iso_timestamp (rv_opens r), cf_closesAt = iso_timestamp (rv_closes r),
                cf_briefing = rv_briefing r,
                cf_suggestions = map (suggestion_of env db) es,
                cf_answerEntityId = en_publicId answer,
                cf_evidence = map (\<lambda>e. \<lparr>pe_level = ev_order e, pe_text = ev_text e,
                  pe_explanation = ev_explanation e, pe_sourceReferences = sources\<rparr>) evs\<rparr>))"

definition guess_history :: "string \<Rightarrow> string \<Rightarrow> game_db \<Rightarrow> private_guess list" where
  "guess_history attemptId guestId db =
    concat (map (\<lambda>g.
        (case find (\<lambda>e. en_revision e = gs_revision g \<and> en_id e = gs_entity g) (entities db) of
           None \<Rightarrow> []
         | Some e \<Rightarrow> [\<lparr>pg_guessId = gs_id g, pg_guestId = guestId, pg_entityId = en_publicId e,
                       pg_guessedAt = iso_timestamp (gs_at g)\<rparr>]))
      (js_sort (\<lambda>a b. gs_number a - gs_number b)
        (filter (\<lambda>g. gs_attempt g = attemptId) (guesses db))))"

definition hydrateProjection ::
  "store_env \<Rightarrow> attempt_view \<Rightarrow> string \<Rightarrow> game_db \<Rightarrow> case_projection result" where
  "hydrateProjection env row guestId db =
    (let record =
       \<lparr>pa_attemptId = vw_id row, pa_ownerGuestId = vw_guest row, pa_slotId = vw_slot row,
        pa_revisionId = vw_revision row, pa_version = vw_version row,
        pa_startedAt = iso_timestamp (vw_started row), pa_snapshotAt = iso_timestamp (vw_sampled row),
        pa_attempt = snapshot row, pa_guesses = guess_history (vw_id row) guestId db\<rparr>
     in bindE (hydrateCase env (vw_revision row) db) (\<lambda>cf. projectAttempt cf record guestId))"

definition projectT :: "store_env \<Rightarrow> attempt_view \<Rightarrow> string \<Rightarrow> case_projection tx" where
  "projectT env row guestId = bindT (queryT (hydrateProjection env row guestId)) liftT"

lemma keeps_project [keeps_intros]: "keeps P (projectT env row guestId)"
  unfolding projectT_def by (intro keeps_intros)

lemma projectT_Inr: "projectT env row g db = Inr (p, db') \<longleftrightarrow> hydrateProjection env row g db = Inr p \<and> db' = db"
  by (auto simp: projectT_def tx_Inr)

section \<open>Finalization\<close>

text \<open>The checks of the table \<^verbatim>\<open>attempts\<close>.\<close>

definition attempt_checks :: "attempt_row \<Rightarrow> bool" where
  "attempt_checks a \<longleftrightarrow> valid_snapshot (at_snapshot a) \<and> totalWrongGuesses (at_snapshot a) \<le> 15 \<and>
    0 \<le> at_version a \<and> at_started a \<le> at_updated a \<and>
    (case at_terminal a of
       None \<Rightarrow> state (at_snapshot a) = ACTIVE
     | Some t \<Rightarrow> state (at_snapshot a) \<noteq> ACTIVE \<and> at_started a \<le> t)"

definition update_attempt :: "string \<Rightarrow> (attempt_row \<Rightarrow> attempt_row) \<Rightarrow> unit tx" where
  "update_attempt i f db =
    bindT (checkT ''attempts'' (list_all (\<lambda>a. at_id a = i \<longrightarrow> attempt_checks (f a)) (attempts db)))
      (\<lambda>_. modifyT (\<lambda>db. db\<lparr>attempts := update_where (\<lambda>a. at_id a = i) f (attempts db)\<rparr>)) db"

text \<open>The credit of one region: \<^verbatim>\<open>INSERT ... ON CONFLICT (guest_id, region_id) DO UPDATE\<close>, in
  hundredths.\<close>

definition knowledge_key :: "knowledge_row \<Rightarrow> string \<times> string" where
  "knowledge_key r = (rk_guest r, rk_region r)"

definition add_excluded :: "int \<Rightarrow> int \<Rightarrow> knowledge_row \<Rightarrow> knowledge_row" where
  "add_excluded excluded_alpha excluded_beta r = r\<lparr>rk_counters :=
     \<lparr>alphaHundredths = alphaHundredths (rk_counters r) + excluded_alpha - 200,
      betaHundredths = betaHundredths (rk_counters r) + excluded_beta - 200,
      sampleCount = sampleCount (rk_counters r) + 1\<rparr>\<rparr>"

definition upsert_knowledge :: "contribution_row \<Rightarrow> knowledge_row list \<Rightarrow> knowledge_row list" where
  "upsert_knowledge c rows =
    (let same = (\<lambda>r. knowledge_key r = (kc_guest c, kc_region c));
         excluded_alpha = 200 + kc_alpha c;
         excluded_beta = 200 + kc_beta c in
     if list_ex same rows
     then update_where same (add_excluded excluded_alpha excluded_beta) rows
     else rows @ [\<lparr>rk_guest = kc_guest c, rk_region = kc_region c, rk_counters =
            \<lparr>alphaHundredths = excluded_alpha, betaHundredths = excluded_beta, sampleCount = 1\<rparr>\<rparr>])"

definition new_contributions ::
  "attempt_view \<Rightarrow> attempt_state \<Rightarrow> int \<Rightarrow> game_db \<Rightarrow> contribution_row list" where
  "new_contributions row outcome p db =
    filter (\<lambda>c. \<not> list_ex (\<lambda>k. kc_attempt k = kc_attempt c \<and> kc_region k = kc_region c) (contributions db))
      (map (\<lambda>r. \<lparr>kc_attempt = vw_id row, kc_revision = vw_revision row, kc_guest = vw_guest row,
                 kc_slot = vw_slot row, kc_outcome = outcome, kc_region = rr_region r,
                 kc_alpha = p, kc_beta = 100 - p\<rparr>)
        (filter (\<lambda>r. rr_revision r = vw_revision row) (revision_regions db)))"

definition credit_knowledge :: "attempt_view \<Rightarrow> attempt_state \<Rightarrow> int \<Rightarrow> game_db \<Rightarrow> game_db" where
  "credit_knowledge row outcome p db =
    (let new = new_contributions row outcome p db in
     db\<lparr>contributions := contributions db @ new,
        knowledge := fold upsert_knowledge new (knowledge db)\<rparr>)"

definition insert_finalization :: "finalization_row \<Rightarrow> bool tx" where
  "insert_finalization f db =
    (if list_ex (\<lambda>x. fi_attempt x = fi_attempt f) (finalizations db) then Inr (False, db)
     else Inr (True, db\<lparr>finalizations := finalizations db @ [f]\<rparr>))"

definition insert_entry :: "entry_row \<Rightarrow> unit tx" where
  "insert_entry e db =
    (if list_ex (\<lambda>x. le_attempt x = le_attempt e) (entries db) then Inr ((), db)
     else if list_ex (\<lambda>x. le_guest x = le_guest e \<and> le_slot x = le_slot e) (entries db)
       then Inl (Constraint ''leaderboard_entries'')
     else Inr ((), db\<lparr>entries := entries db @ [e]\<rparr>))"

text \<open>\<^verbatim>\<open>UPDATE ... WHERE id = $1 RETURNING ...\<close>, then the row the code takes with \<^verbatim>\<open>rows[0]!\<close>.\<close>

definition update_returning ::
  "string \<Rightarrow> (attempt_row \<Rightarrow> attempt_row) \<Rightarrow> int \<Rightarrow> int \<Rightarrow> attempt_view tx" where
  "update_returning i f closes sampled =
    bindT (update_attempt i f) (\<lambda>_.
    bindT (queryT (\<lambda>db. find (\<lambda>a. at_id a = i) (attempts db))) (\<lambda>u.
      (case u of
         None \<Rightarrow> raiseT (Thrown (TypeError ''Cannot read properties of undefined''))
       | Some a \<Rightarrow> returnT (view_of a closes sampled))))"

definition terminal_score :: "attempt_snapshot \<Rightarrow> int \<Rightarrow> int result" where
  "terminal_score terminal elapsed =
    (if state terminal = SOLVED
     then bindE (scoreSolvedAttempt terminal (int_number elapsed)) (\<lambda>s. Inr (score s))
     else Inr 0)"

definition add_leaderboard_entry :: "attempt_view \<Rightarrow> attempt_snapshot \<Rightarrow> int \<Rightarrow> int \<Rightarrow> unit tx" where
  "add_leaderboard_entry row terminal elapsed sc =
    bindT (queryT (\<lambda>db. find (\<lambda>g. g_id g = vw_guest row) (guests db))) (\<lambda>g.
      (case g of
         None \<Rightarrow> raiseT (Thrown (TypeError ''Cannot read properties of undefined''))
       | Some g \<Rightarrow> insert_entry \<lparr>le_attempt = vw_id row, le_guest = vw_guest row,
           le_slot = vw_slot row, le_pseudonym = g_pseudonym g,
           le_level = evidenceLevel terminal, le_wrong = totalWrongGuesses terminal,
           le_elapsed = elapsed, le_score = sc\<rparr>))"

definition finalize :: "attempt_view \<Rightarrow> attempt_snapshot \<Rightarrow> int \<Rightarrow> attempt_view tx" where
  "finalize row terminal at_time =
    (let elapsed = max 0 (at_time - vw_started row) in
     bindT (liftT (terminal_score terminal elapsed)) (\<lambda>sc.
     bindT (update_returning (vw_id row) (\<lambda>a. a\<lparr>at_snapshot := terminal,
              at_version := at_version a + 1, at_updated := at_time, at_terminal := Some at_time\<rparr>)
            (vw_closes row) at_time) (\<lambda>updated.
     bindT (insert_finalization \<lparr>fi_attempt = vw_id row, fi_guest = vw_guest row,
              fi_slot = vw_slot row, fi_outcome = state terminal, fi_score = sc, fi_at = at_time\<rparr>) (\<lambda>fresh.
     if \<not> fresh then returnT updated
     else
       bindT (liftT (regionalPerformanceHundredths terminal)) (\<lambda>p.
       bindT (modifyT (credit_knowledge row (state terminal) p)) (\<lambda>_.
       bindT (if state terminal = SOLVED then add_leaderboard_entry row terminal elapsed sc
              else returnT ()) (\<lambda>_.
       returnT updated)))))))"

definition expireIfClosed :: "attempt_view \<Rightarrow> int \<Rightarrow> attempt_view tx" where
  "expireIfClosed row sampledAt =
    (if state (vw_snapshot row) \<noteq> ACTIVE then returnT row
     else if sampledAt < vw_closes row then returnT row
     else bindT (liftT (expire (snapshot row))) (\<lambda>t.
       (case t of
          Rejected _ _ \<Rightarrow> returnT row
        | Accepted a _ \<Rightarrow> if state a = ACTIVE then returnT row else finalize row a (vw_closes row))))"


interpretation knowledge_update: key_preserving_update knowledge_key "add_excluded a b" for a b
  by unfold_locales (simp add: knowledge_key_def add_excluded_def)

end
