(* ===== verification/Store_Invariant.thy ===== *)
theory Store_Invariant
  imports Attempt_Records
begin

text \<open>
  The consistency of the store that the gameplay code maintains, and the proof that finalization
  maintains it. The tables a finalization writes are determined by the terminal attempts: one
  finalization row each, one contribution for each region of the case, one leaderboard entry for a
  solved one, and the knowledge of a guest and a region is the sum over the guest's cases that the
  domain's \<open>calculateRegionalKnowledge\<close> computes from scratch.
\<close>

section \<open>What the derived tables hold\<close>

definition terminal :: "attempt_row \<Rightarrow> bool" where
  "terminal a \<longleftrightarrow> state (at_snapshot a) \<noteq> ACTIVE"

definition terminals :: "game_db \<Rightarrow> attempt_row set" where
  "terminals db = {a \<in> set (attempts db). terminal a}"

definition solved_attempts :: "game_db \<Rightarrow> attempt_row set" where
  "solved_attempts db = {a \<in> set (attempts db). state (at_snapshot a) = SOLVED}"

definition regions_of :: "game_db \<Rightarrow> string \<Rightarrow> string list" where
  "regions_of db rid = map rr_region (filter (\<lambda>r. rr_revision r = rid) (revision_regions db))"

definition elapsed_of :: "attempt_row \<Rightarrow> int" where
  "elapsed_of a = max 0 (the (at_terminal a) - at_started a)"

definition score_of :: "attempt_row \<Rightarrow> int" where
  "score_of a = (case terminal_score (at_snapshot a) (elapsed_of a) of Inr s \<Rightarrow> s | Inl _ \<Rightarrow> 0)"

definition finalization_of :: "attempt_row \<Rightarrow> finalization_row" where
  "finalization_of a = \<lparr>fi_attempt = at_id a, fi_guest = at_guest a, fi_slot = at_slot a,
     fi_outcome = state (at_snapshot a), fi_score = score_of a, fi_at = the (at_terminal a)\<rparr>"

definition contribution_of :: "attempt_row \<Rightarrow> string \<Rightarrow> contribution_row" where
  "contribution_of a r = \<lparr>kc_attempt = at_id a, kc_revision = at_revision a, kc_guest = at_guest a,
     kc_slot = at_slot a, kc_outcome = state (at_snapshot a), kc_region = r,
     kc_alpha = performance (at_snapshot a), kc_beta = 100 - performance (at_snapshot a)\<rparr>"

definition pseudonym_of :: "game_db \<Rightarrow> string \<Rightarrow> string" where
  "pseudonym_of db g = (case find (\<lambda>x. g_id x = g) (guests db) of Some x \<Rightarrow> g_pseudonym x | None \<Rightarrow> [])"

definition entry_of :: "game_db \<Rightarrow> attempt_row \<Rightarrow> entry_row" where
  "entry_of db a = \<lparr>le_attempt = at_id a, le_guest = at_guest a, le_slot = at_slot a,
     le_pseudonym = pseudonym_of db (at_guest a), le_level = evidenceLevel (at_snapshot a),
     le_wrong = totalWrongGuesses (at_snapshot a), le_elapsed = elapsed_of a, le_score = score_of a\<rparr>"

text \<open>The finalized cases of a guest, as the domain's functions take them.\<close>

definition case_of :: "game_db \<Rightarrow> attempt_row \<Rightarrow> finalized_case_outcome" where
  "case_of db a = \<lparr>outcome_attempt = at_snapshot a, outcome_regionIds = regions_of db (at_revision a)\<rparr>"

definition cases_of :: "game_db \<Rightarrow> string \<Rightarrow> finalized_case_outcome list" where
  "cases_of db g = map (case_of db) (filter (\<lambda>a. terminal a \<and> at_guest a = g) (attempts db))"

definition stored_counters :: "knowledge_row list \<Rightarrow> string \<Rightarrow> string \<Rightarrow> knowledge_counters" where
  "stored_counters rows g r =
    (case find (\<lambda>k. knowledge_key k = (g, r)) rows of
       None \<Rightarrow> initialRegionalKnowledge | Some k \<Rightarrow> rk_counters k)"

section \<open>The invariant\<close>

text \<open>Published content is complete: four pieces of evidence in order and an eligible answer.\<close>

definition evidence_of :: "game_db \<Rightarrow> string \<Rightarrow> evidence_row list" where
  "evidence_of db rid = js_sort (\<lambda>a b. ev_order a - ev_order b)
     (filter (\<lambda>e. ev_revision e = rid) (evidences db))"

definition answer_of :: "game_db \<Rightarrow> revision_row \<Rightarrow> entity_row option" where
  "answer_of db r = find (\<lambda>e. en_revision e = rv_id r \<and> en_id e = rv_answer r) (entities db)"

definition complete_revision :: "game_db \<Rightarrow> revision_row \<Rightarrow> bool" where
  "complete_revision db r \<longleftrightarrow> map ev_order (evidence_of db (rv_id r)) = [1, 2, 3, 4] \<and>
    (\<exists>e. answer_of db r = Some e \<and> en_eligible e)"

definition content_ok :: "game_db \<Rightarrow> bool" where
  "content_ok db \<longleftrightarrow> distinct (map rv_id (revisions db)) \<and>
    distinct (map (\<lambda>r. (rr_revision r, rr_region r)) (revision_regions db)) \<and>
    distinct (map g_id (guests db)) \<and>
    (\<forall>r \<in> set (revisions db). rv_published r \<longrightarrow> complete_revision db r)"

definition attempts_ok :: "game_db \<Rightarrow> bool" where
  "attempts_ok db \<longleftrightarrow> distinct (map at_id (attempts db)) \<and>
    distinct (map (\<lambda>a. (at_guest a, at_slot a)) (attempts db)) \<and>
    (\<forall>a \<in> set (attempts db). attempt_checks a \<and>
       (\<exists>r \<in> set (revisions db). rv_id r = at_revision a \<and> rv_published r \<and> rv_slot r = at_slot a \<and>
          at_started a < rv_closes r) \<and>
       at_guest a \<in> g_id ` set (guests db))"

definition derived_ok :: "game_db \<Rightarrow> bool" where
  "derived_ok db \<longleftrightarrow>
    distinct (map fi_attempt (finalizations db)) \<and>
    set (finalizations db) = finalization_of ` terminals db \<and>
    distinct (map (\<lambda>k. (kc_attempt k, kc_region k)) (contributions db)) \<and>
    set (contributions db) = {contribution_of a r |a r. a \<in> terminals db \<and> r \<in> set (regions_of db (at_revision a))} \<and>
    distinct (map le_attempt (entries db)) \<and>
    set (entries db) = entry_of db ` solved_attempts db"

definition knowledge_ok :: "game_db \<Rightarrow> bool" where
  "knowledge_ok db \<longleftrightarrow> distinct (map knowledge_key (knowledge db)) \<and>
    (\<forall>g r. stored_counters (knowledge db) g r = counters_of (naming r (cases_of db g)))"

definition store_core :: "game_db \<Rightarrow> bool" where
  "store_core db \<longleftrightarrow> content_ok db \<and> attempts_ok db \<and> derived_ok db \<and> knowledge_ok db"

section \<open>Crediting the regions\<close>

definition add_sample :: "int \<Rightarrow> int \<Rightarrow> knowledge_counters \<Rightarrow> knowledge_counters" where
  "add_sample a b k = \<lparr>alphaHundredths = alphaHundredths k + a,
     betaHundredths = betaHundredths k + b, sampleCount = sampleCount k + 1\<rparr>"

lemma add_sample_performance: "add_sample p (100 - p) k = add_performance p k"
  by (simp add: add_sample_def add_performance_def)

lemma stored_counters_upsert:
  "stored_counters (upsert_knowledge c rows) g r =
     (if (g, r) = (kc_guest c, kc_region c)
      then add_sample (kc_alpha c) (kc_beta c) (stored_counters rows g r)
      else stored_counters rows g r)"
proof (cases "list_ex (\<lambda>k. knowledge_key k = (kc_guest c, kc_region c)) rows")
  case True
  then obtain k where "find (\<lambda>k. knowledge_key k = (kc_guest c, kc_region c)) rows = Some k"
    by (cases "find (\<lambda>k. knowledge_key k = (kc_guest c, kc_region c)) rows")
      (auto simp: find_None_key list_ex_iff)
  then show ?thesis
    using True
    by (auto simp: upsert_knowledge_def Let_def stored_counters_def knowledge_update.find_update_where
        add_excluded_def add_sample_def)
next
  case False
  then have none: "find (\<lambda>k. knowledge_key k = (kc_guest c, kc_region c)) rows = None"
    by (simp add: find_None_key list_ex_iff)
  let ?new = "\<lparr>rk_guest = kc_guest c, rk_region = kc_region c, rk_counters =
    \<lparr>alphaHundredths = 200 + kc_alpha c, betaHundredths = 200 + kc_beta c, sampleCount = 1\<rparr>\<rparr>"
  have "find (\<lambda>k. knowledge_key k = (g, r)) (rows @ [?new]) =
      (case find (\<lambda>k. knowledge_key k = (g, r)) rows of Some k \<Rightarrow> Some k
       | None \<Rightarrow> if (g, r) = (kc_guest c, kc_region c) then Some ?new else None)"
    by (induction rows) (auto simp: knowledge_key_def)
  then show ?thesis
    using False none
    by (auto simp: upsert_knowledge_def Let_def stored_counters_def add_sample_def
        initialRegionalKnowledge_def INITIAL_ALPHA_HUNDREDTHS_def INITIAL_BETA_HUNDREDTHS_def
        split: option.splits)
qed

lemma keys_upsert:
  "distinct (map knowledge_key rows) \<Longrightarrow> distinct (map knowledge_key (upsert_knowledge c rows))"
  by (cases "list_ex (\<lambda>k. knowledge_key k = (kc_guest c, kc_region c)) rows")
    (auto simp: upsert_knowledge_def Let_def list_ex_iff, auto simp: knowledge_key_def)

lemma keys_fold_upsert:
  "distinct (map knowledge_key rows) \<Longrightarrow> distinct (map knowledge_key (fold upsert_knowledge cs rows))"
  by (induction cs arbitrary: rows) (simp_all add: keys_upsert)

lemma stored_counters_fold:
  assumes "\<forall>c \<in> set cs. kc_guest c = g0 \<and> kc_alpha c = p \<and> kc_beta c = 100 - p"
    "distinct (map kc_region cs)"
  shows "stored_counters (fold upsert_knowledge cs rows) g r =
    (if g = g0 \<and> r \<in> kc_region ` set cs then add_performance p (stored_counters rows g r)
     else stored_counters rows g r)"
  using assms
  by (induction cs arbitrary: rows)
    (auto simp: stored_counters_upsert add_sample_performance)

section \<open>An attempt becomes terminal\<close>

text \<open>The store after the attempt \<open>a\<close>, whose row in it is still active, has been finalized.\<close>

definition finalized_store :: "attempt_row \<Rightarrow> game_db \<Rightarrow> game_db" where
  "finalized_store a db =
    (let new = map (contribution_of a) (regions_of db (at_revision a)) in
     db\<lparr>attempts := update_where (\<lambda>x. at_id x = at_id a) (\<lambda>_. a) (attempts db),
        finalizations := finalizations db @ [finalization_of a],
        contributions := contributions db @ new,
        knowledge := fold upsert_knowledge new (knowledge db),
        entries := entries db @ (if state (at_snapshot a) = SOLVED then [entry_of db a] else [])\<rparr>)"

text \<open>\<open>becomes a a'\<close>: the row \<open>a\<close> of an active attempt is replaced by that of a finished one.\<close>

definition becomes :: "game_db \<Rightarrow> attempt_row \<Rightarrow> attempt_row \<Rightarrow> bool" where
  "becomes db a a' \<longleftrightarrow> a \<in> set (attempts db) \<and> \<not> terminal a \<and> terminal a' \<and> attempt_checks a' \<and>
    at_id a' = at_id a \<and> at_guest a' = at_guest a \<and> at_slot a' = at_slot a \<and>
    at_revision a' = at_revision a \<and> at_started a' = at_started a"

lemma replace_split:
  assumes "distinct (map at_id rows)" "a \<in> set rows" "at_id a' = at_id a"
  obtains xs ys where "rows = xs @ a # ys"
    "update_where (\<lambda>x. at_id x = at_id a') (\<lambda>_. a') rows = xs @ a' # ys"
proof -
  from assms(2) obtain xs ys where r: "rows = xs @ a # ys" by (auto simp: in_set_conv_decomp)
  have "at_id a \<notin> at_id ` (set xs \<union> set ys)" using assms(1) by (auto simp: r)
  then have "at_id x \<noteq> at_id a'" if "x \<in> set xs \<union> set ys" for x
    using that assms(3) by (metis imageI)
  then have "update_where (\<lambda>x. at_id x = at_id a') (\<lambda>_. a') rows = xs @ a' # ys"
    unfolding r update_where_def using assms(3) by (auto simp: map_idI)
  then show thesis using r that by blast
qed


lemma becomes_split:
  assumes "store_core db" "becomes db a a'"
  obtains xs ys where "attempts db = xs @ a # ys" "attempts (finalized_store a' db) = xs @ a' # ys"
  using replace_split [of "attempts db" a a'] assms
  by (auto simp: store_core_def attempts_ok_def becomes_def finalized_store_def Let_def)

lemma finalized_static [simp]:
  "revisions (finalized_store a db) = revisions db" "guests (finalized_store a db) = guests db"
  "revision_regions (finalized_store a db) = revision_regions db"
  "regions_of (finalized_store a db) = regions_of db"
  "entry_of (finalized_store a db) = entry_of db"
  "case_of (finalized_store a db) = case_of db"
  "complete_revision (finalized_store a db) = complete_revision db"
  by (simp_all add: finalized_store_def Let_def regions_of_def entry_of_def pseudonym_of_def
      case_of_def complete_revision_def evidence_of_def answer_of_def fun_eq_iff)

lemma becomes_terminals:
  assumes "store_core db" "becomes db a a'"
  shows "terminals (finalized_store a' db) = insert a' (terminals db)"
    and "solved_attempts (finalized_store a' db) =
      (if state (at_snapshot a') = SOLVED then insert a' (solved_attempts db) else solved_attempts db)"
proof -
  obtain xs ys where "attempts db = xs @ a # ys" "attempts (finalized_store a' db) = xs @ a' # ys"
    using becomes_split [OF assms] .
  then show "terminals (finalized_store a' db) = insert a' (terminals db)"
    "solved_attempts (finalized_store a' db) =
      (if state (at_snapshot a') = SOLVED then insert a' (solved_attempts db) else solved_attempts db)"
    using assms(2) by (auto simp: terminals_def solved_attempts_def becomes_def terminal_def)
qed

lemma becomes_attempts_ok:
  assumes "store_core db" "becomes db a a'"
  shows "attempts_ok (finalized_store a' db)"
proof -
  obtain xs ys where s: "attempts db = xs @ a # ys" "attempts (finalized_store a' db) = xs @ a' # ys"
    using becomes_split [OF assms] .
  have ok: "attempts_ok db" using assms(1) by (simp add: store_core_def)
  have b: "at_id a' = at_id a" "at_guest a' = at_guest a" "at_slot a' = at_slot a"
    "at_revision a' = at_revision a" "at_started a' = at_started a" "attempt_checks a'"
    using assms(2) by (simp_all add: becomes_def)
  show ?thesis using ok unfolding attempts_ok_def s by (simp add: b)
qed

lemma no_terminal_row:
  assumes "store_core db" "becomes db a a'" "x \<in> terminals db"
  shows "at_id x \<noteq> at_id a \<and> (at_guest x, at_slot x) \<noteq> (at_guest a, at_slot a)"
proof -
  have x: "x \<in> set (attempts db)" "terminal x" using assms(3) by (simp_all add: terminals_def)
  have a: "a \<in> set (attempts db)" "\<not> terminal a" using assms(2) by (simp_all add: becomes_def)
  have d: "distinct (map at_id (attempts db))" "distinct (map (\<lambda>a. (at_guest a, at_slot a)) (attempts db))"
    using assms(1) by (simp_all add: store_core_def attempts_ok_def)
  show ?thesis
    using x a distinct_key_eq [OF d(1) x(1) a(1)] distinct_key_eq [OF d(2) x(1) a(1)] by blast
qed

lemma solved_terminals: "solved_attempts db \<subseteq> terminals db"
  by (auto simp: solved_attempts_def terminals_def terminal_def)

lemma fresh_finalization:
  assumes "store_core db" "becomes db a a'"
  shows "f \<in> set (finalizations db) \<Longrightarrow> fi_attempt f \<noteq> at_id a"
    and "c \<in> set (contributions db) \<Longrightarrow> kc_attempt c \<noteq> at_id a"
    and "e \<in> set (entries db) \<Longrightarrow> le_attempt e \<noteq> at_id a"
    and "e \<in> set (entries db) \<Longrightarrow> (le_guest e, le_slot e) \<noteq> (at_guest a, at_slot a)"
proof -
  have d: "set (finalizations db) = finalization_of ` terminals db"
    "set (contributions db) = {contribution_of a r |a r. a \<in> terminals db \<and> r \<in> set (regions_of db (at_revision a))}"
    "set (entries db) = entry_of db ` solved_attempts db"
    using assms(1) by (simp_all add: store_core_def derived_ok_def)
  show "f \<in> set (finalizations db) \<Longrightarrow> fi_attempt f \<noteq> at_id a"
    using no_terminal_row [OF assms] by (auto simp: d finalization_of_def)
  show "c \<in> set (contributions db) \<Longrightarrow> kc_attempt c \<noteq> at_id a"
    using no_terminal_row [OF assms] by (auto simp: d contribution_of_def)
  show "e \<in> set (entries db) \<Longrightarrow> le_attempt e \<noteq> at_id a"
    using no_terminal_row [OF assms] solved_terminals by (fastforce simp: d entry_of_def)
  show "e \<in> set (entries db) \<Longrightarrow> (le_guest e, le_slot e) \<noteq> (at_guest a, at_slot a)"
    using no_terminal_row [OF assms] solved_terminals by (fastforce simp: d entry_of_def)
qed

lemma distinct_regions_of: "content_ok db \<Longrightarrow> distinct (regions_of db rid)"
  by (auto simp: content_ok_def regions_of_def distinct_map inj_on_def)

lemma becomes_derived_ok:
  assumes "store_core db" "becomes db a a'"
  shows "derived_ok (finalized_store a' db)"
proof -
  have ok: "derived_ok db" and c: "content_ok db" using assms(1) by (simp_all add: store_core_def)
  have i: "at_id a' = at_id a" using assms(2) by (simp add: becomes_def)
  note f = fresh_finalization [OF assms]
  have d: "distinct (map fi_attempt (finalizations db))" "distinct (map le_attempt (entries db))"
    "distinct (map (\<lambda>k. (kc_attempt k, kc_region k)) (contributions db))"
    using ok by (simp_all add: derived_ok_def)
  have n: "at_id a \<notin> fi_attempt ` set (finalizations db)" "at_id a \<notin> le_attempt ` set (entries db)"
    "at_id a \<notin> kc_attempt ` set (contributions db)"
    using f(1-3) by (metis imageE)+
  have "distinct (map fi_attempt (finalizations (finalized_store a' db)))"
    using d n i by (simp add: finalized_store_def Let_def finalization_of_def)
  moreover have "distinct (map (\<lambda>k. (kc_attempt k, kc_region k)) (contributions (finalized_store a' db)))"
    using d(3) f(2) i distinct_regions_of [OF c, of "at_revision a'"]
    by (auto simp: finalized_store_def Let_def contribution_of_def comp_def distinct_map inj_on_def)
  moreover have "distinct (map le_attempt (entries (finalized_store a' db)))"
    using d n i by (simp add: finalized_store_def Let_def entry_of_def)
  moreover have "set (finalizations (finalized_store a' db)) =
      finalization_of ` terminals (finalized_store a' db)"
    using ok unfolding becomes_terminals [OF assms]
    by (simp add: derived_ok_def finalized_store_def Let_def)
  moreover have "set (entries (finalized_store a' db)) =
      entry_of db ` solved_attempts (finalized_store a' db)"
    using ok unfolding becomes_terminals [OF assms]
    by (simp add: derived_ok_def finalized_store_def Let_def)
  moreover have "set (contributions (finalized_store a' db)) =
      {contribution_of a r |a r. a \<in> terminals (finalized_store a' db) \<and> r \<in> set (regions_of db (at_revision a))}"
    using ok unfolding becomes_terminals [OF assms]
    by (auto simp: derived_ok_def finalized_store_def Let_def)
  ultimately show ?thesis by (simp add: derived_ok_def)
qed

lemma naming_append: "naming r (xs @ ys) = naming r xs @ naming r ys"
  by (simp add: naming_def)

lemma counters_of_insert:
  "counters_of (xs @ s # ys) = add_performance (performance s) (counters_of (xs @ ys))"
proof -
  have "counters_of (xs @ s # ys) = counters_of ((xs @ ys) @ [s])"
    by (rule counters_of_perm) simp
  then show ?thesis by (simp add: counters_of_snoc del: append_assoc)
qed

lemma becomes_knowledge_ok:
  assumes "store_core db" "becomes db a a'"
  shows "knowledge_ok (finalized_store a' db)"
proof -
  obtain xs ys where s: "attempts db = xs @ a # ys" "attempts (finalized_store a' db) = xs @ a' # ys"
    using becomes_split [OF assms] .
  have ok: "knowledge_ok db" and c: "content_ok db" using assms(1) by (simp_all add: store_core_def)
  let ?cs = "\<lambda>g rows. map (case_of db) (filter (\<lambda>a. terminal a \<and> at_guest a = g) rows)"
  have new: "cases_of (finalized_store a' db) g =
      ?cs g xs @ (if at_guest a' = g then [case_of db a'] else []) @ ?cs g ys" for g
    using assms(2) by (simp add: cases_of_def s becomes_def)
  have old: "cases_of db g = ?cs g xs @ ?cs g ys" for g
    using assms(2) by (simp add: cases_of_def s becomes_def)
  have "counters_of (naming r (cases_of (finalized_store a' db) g)) =
      (if g = at_guest a' \<and> r \<in> set (regions_of db (at_revision a'))
       then add_performance (performance (at_snapshot a')) (counters_of (naming r (cases_of db g)))
       else counters_of (naming r (cases_of db g)))" for g r
    by (simp add: new old naming_append naming_Cons counters_of_insert case_of_def) (simp add: naming_def)
  moreover have "stored_counters (knowledge (finalized_store a' db)) g r =
      (if g = at_guest a' \<and> r \<in> set (regions_of db (at_revision a'))
       then add_performance (performance (at_snapshot a')) (stored_counters (knowledge db) g r)
       else stored_counters (knowledge db) g r)" for g r
  proof -
    let ?new = "map (contribution_of a') (regions_of db (at_revision a'))"
    have "\<forall>c \<in> set ?new. kc_guest c = at_guest a' \<and> kc_alpha c = performance (at_snapshot a') \<and>
        kc_beta c = 100 - performance (at_snapshot a')"
      by (simp add: contribution_of_def)
    moreover have "map kc_region ?new = regions_of db (at_revision a')"
      by (simp add: contribution_of_def comp_def)
    moreover from this have "kc_region ` set ?new = set (regions_of db (at_revision a'))"
      by (metis set_map)
    ultimately show ?thesis
      using stored_counters_fold [of ?new "at_guest a'" "performance (at_snapshot a')" "knowledge db" g r]
        distinct_regions_of [OF c, of "at_revision a'"]
      by (simp add: finalized_store_def Let_def del: set_map)
  qed
  ultimately show ?thesis
    using ok by (simp add: knowledge_ok_def) (simp add: finalized_store_def Let_def keys_fold_upsert)
qed

lemma becomes_store_core: "store_core db \<Longrightarrow> becomes db a a' \<Longrightarrow> store_core (finalized_store a' db)"
  using becomes_attempts_ok becomes_derived_ok becomes_knowledge_ok
  by (simp add: store_core_def content_ok_def)


section \<open>Finalization does exactly that\<close>

definition finished :: "attempt_row \<Rightarrow> attempt_snapshot \<Rightarrow> int \<Rightarrow> attempt_row" where
  "finished a t at_time = a\<lparr>at_snapshot := t, at_version := at_version a + 1,
     at_updated := at_time, at_terminal := Some at_time\<rparr>"

lemma finished_fields [simp]:
  "at_id (finished a t x) = at_id a" "at_guest (finished a t x) = at_guest a"
  "at_slot (finished a t x) = at_slot a" "at_revision (finished a t x) = at_revision a"
  "at_started (finished a t x) = at_started a" "at_snapshot (finished a t x) = t"
  "at_version (finished a t x) = at_version a + 1" "at_terminal (finished a t x) = Some x"
  by (simp_all add: finished_def)

lemma becomes_finished:
  assumes "store_core db" "a \<in> set (attempts db)" "\<not> terminal a"
    "valid_snapshot t" "state t \<noteq> ACTIVE" "at_started a \<le> at_time"
  shows "becomes db a (finished a t at_time)"
proof -
  have "attempt_checks a" using assms(1,2) by (simp add: store_core_def attempts_ok_def)
  moreover have "totalWrongGuesses t \<le> 15" using assms(4) by (auto simp: valid_snapshot_def split: if_splits)
  ultimately show ?thesis
    using assms by (auto simp: becomes_def terminal_def attempt_checks_def) (simp add: finished_def)
qed

lemma terminal_score_total: "valid_snapshot t \<Longrightarrow> 0 \<le> e \<Longrightarrow> \<exists>s. terminal_score t e = Inr s"
  using scoreSolvedAttempt_total [of t "of_int e"] by (auto simp: terminal_score_def int_number_def)

lemma performance_of:
  "valid_snapshot t \<Longrightarrow> state t \<noteq> ACTIVE \<Longrightarrow> regionalPerformanceHundredths t = Inr (performance t)"
  using regionalPerformance_total performance_Inr by metis

lemma find_replaced:
  "a \<in> set rows \<Longrightarrow> at_id b = at_id a \<Longrightarrow>
   find (\<lambda>x. at_id x = at_id a) (update_where (\<lambda>x. at_id x = at_id a) (\<lambda>_. b) rows) = Some b"
  by (induction rows) (auto simp: update_where_def)

lemma update_returning_run:
  assumes "distinct (map at_id (attempts db))" "a \<in> set (attempts db)" "attempt_checks (f a)" "at_id (f a) = at_id a"
  shows "update_returning (at_id a) f cl sm db =
    Inr (view_of (f a) cl sm, db\<lparr>attempts := update_where (\<lambda>x. at_id x = at_id a) (\<lambda>_. f a) (attempts db)\<rparr>)"
proof -
  have u: "update_where (\<lambda>x. at_id x = at_id a) f (attempts db) =
      update_where (\<lambda>x. at_id x = at_id a) (\<lambda>_. f a) (attempts db)"
    unfolding update_where_def using distinct_key_eq [OF assms(1) _ assms(2)] by (intro map_cong) auto
  have "list_all (\<lambda>x. at_id x = at_id a \<longrightarrow> attempt_checks (f x)) (attempts db)"
    using distinct_key_eq [OF assms(1) _ assms(2)] assms(3) by (auto simp: list_all_iff)
  moreover have "find (\<lambda>x. at_id x = at_id a) (update_where (\<lambda>x. at_id x = at_id a) (\<lambda>_. f a) (attempts db)) = Some (f a)"
    using assms(2,4) by (rule find_replaced)
  ultimately show ?thesis
    by (simp add: update_returning_def update_attempt_def u bindT_def checkT_def)
qed


lemma new_contributions_fresh:
  assumes "\<And>c. c \<in> set (contributions db) \<Longrightarrow> kc_attempt c \<noteq> at_id a"
  shows "new_contributions (view_of a cl sm) (state t) (performance t) db =
    map (contribution_of (finished a t x)) (regions_of db (at_revision a))"
proof -
  have "\<not> list_ex (\<lambda>k. kc_attempt k = at_id a \<and> kc_region k = r) (contributions db)" for r
    using assms by (auto simp: list_ex_iff)
  then show ?thesis
    by (simp add: new_contributions_def view_of_def regions_of_def contribution_of_def comp_def filter_True)
qed

lemma pseudonym_found:
  "g \<in> g_id ` set (guests db) \<Longrightarrow>
   \<exists>x. find (\<lambda>x. g_id x = g) (guests db) = Some x \<and> g_pseudonym x = pseudonym_of db g"
  by (cases "find (\<lambda>x. g_id x = g) (guests db)") (auto simp: find_None_key pseudonym_of_def)

lemma new_contributions_cong:
  "contributions db' = contributions db \<Longrightarrow> revision_regions db' = revision_regions db \<Longrightarrow>
   new_contributions v o1 p db' = new_contributions v o1 p db"
  by (simp add: new_contributions_def)

lemma finalize_run:
  assumes "store_core db" "a \<in> set (attempts db)" "\<not> terminal a"
    "valid_snapshot t" "state t \<noteq> ACTIVE" "at_started a \<le> x"
  shows "finalize (view_of a cl sm) t x db =
    Inr (view_of (finished a t x) cl x, finalized_store (finished a t x) db)"
proof -
  note b = becomes_finished [OF assms]
  note f = fresh_finalization [OF assms(1) b]
  let ?v = "view_of a cl sm" and ?e = "max 0 (x - at_started a)"
  have v: "vw_id ?v = at_id a" "vw_guest ?v = at_guest a" "vw_slot ?v = at_slot a"
    "vw_started ?v = at_started a" "vw_closes ?v = cl"
    by (simp_all add: view_of_def)
  obtain s where s: "terminal_score t ?e = Inr s"
    using terminal_score_total [OF assms(4), of ?e] by auto
  then have sc: "score_of (finished a t x) = s" by (simp add: score_of_def elapsed_of_def)
  have d: "distinct (map at_id (attempts db))"
    using assms(1) by (simp add: store_core_def attempts_ok_def)
  let ?g = "\<lambda>a. a\<lparr>at_snapshot := t, at_version := at_version a + 1, at_updated := x, at_terminal := Some x\<rparr>"
  have g: "?g a = finished a t x" by (simp add: finished_def)
  let ?db1 = "db\<lparr>attempts := update_where (\<lambda>y. at_id y = at_id a) (\<lambda>_. finished a t x) (attempts db)\<rparr>"
  have u: "update_returning (at_id a) ?g cl x db = Inr (view_of (finished a t x) cl x, ?db1)"
    using update_returning_run [OF d assms(2), of ?g cl x] b by (simp add: becomes_def g)
  have fin: "finalization_of (finished a t x) = \<lparr>fi_attempt = at_id a, fi_guest = at_guest a, fi_slot = at_slot a,
      fi_outcome = state t, fi_score = s, fi_at = x\<rparr>"
    by (simp add: finalization_of_def sc)
  have fresh: "\<not> list_ex (\<lambda>f. fi_attempt f = at_id a) (finalizations db)"
    "\<not> list_ex (\<lambda>e. le_attempt e = at_id a) (entries db)"
    "\<not> list_ex (\<lambda>e. le_guest e = at_guest a \<and> le_slot e = at_slot a) (entries db)"
    using f by (auto simp: list_ex_iff)
  let ?db2 = "?db1\<lparr>finalizations := finalizations db @ [finalization_of (finished a t x)]\<rparr>"
  let ?new = "map (contribution_of (finished a t x)) (regions_of db (at_revision a))"
  let ?db3 = "?db2\<lparr>contributions := contributions db @ ?new, knowledge := fold upsert_knowledge ?new (knowledge db)\<rparr>"
  have credit: "credit_knowledge ?v (state t) (performance t) ?db2 = ?db3"
    using new_contributions_fresh [OF f(2), where t = t and cl = cl and sm = sm and x = x]
      new_contributions_cong [of ?db2 db ?v "state t" "performance t"]
    by (simp add: credit_knowledge_def Let_def)
  have "at_guest a \<in> g_id ` set (guests db)"
    using assms(1,2) by (simp add: store_core_def attempts_ok_def)
  then obtain g where gu: "find (\<lambda>y. g_id y = at_guest a) (guests db) = Some g"
    "g_pseudonym g = pseudonym_of db (at_guest a)" using pseudonym_found by blast
  have entry: "add_leaderboard_entry ?v t ?e s ?db3 =
      Inr ((), ?db3\<lparr>entries := entries db @ [entry_of db (finished a t x)]\<rparr>)"
    using fresh gu sc
    by (simp add: add_leaderboard_entry_def v bindT_def insert_entry_def entry_of_def elapsed_of_def)
  have ins: "insert_finalization \<lparr>fi_attempt = at_id a, fi_guest = at_guest a, fi_slot = at_slot a,
      fi_outcome = state t, fi_score = s, fi_at = x\<rparr> ?db1 = Inr (True, ?db2)"
    unfolding fin [symmetric] using fresh(1) by (simp add: insert_finalization_def, simp add: finalization_of_def)
  show ?thesis
    using s u ins credit entry performance_of [OF assms(4,5)]
    by (simp add: finalize_def v Let_def bindT_def finalized_store_def)
qed

text \<open>Property C4. Finalizing an active attempt of a consistent store always succeeds, whatever the
  outcome, and keeps the store consistent: exactly one finalization row for every finished attempt,
  a contribution for each region of its case, a leaderboard entry for a solved one, and every
  guest's regional knowledge equal to the sum the domain computes over the guest's finished cases.\<close>

theorem finalize_keeps_store_consistent:
  assumes "store_core db" "a \<in> set (attempts db)" "state (at_snapshot a) = ACTIVE"
    "valid_snapshot t" "state t \<noteq> ACTIVE" "at_started a \<le> x"
  shows "\<exists>v db'. finalize (view_of a cl sm) t x db = Inr (v, db') \<and> store_core db' \<and>
    terminals db' = insert (finished a t x) (terminals db)"
proof -
  have "\<not> terminal a" using assms(3) by (simp add: terminal_def)
  note r = finalize_run [OF assms(1,2) this assms(4,5,6)]
    and b = becomes_finished [OF assms(1,2) this assms(4,5,6)]
  show ?thesis
    using r becomes_store_core [OF assms(1) b] becomes_terminals(1) [OF assms(1) b] by blast
qed

definition small_store :: "attempt_snapshot \<Rightarrow> game_db" where
  "small_store s = \<lparr>guests = [\<lparr>g_id = ''g'', g_pseudonym = ''Ada''\<rparr>],
     sessions = [\<lparr>se_id = ''se'', se_guest = ''g'', se_tokenHash = ''t'', se_csrfHash = ''c'', se_createdAt = 0,
       se_expiresAt = 1000000\<rparr>],
     revisions = [\<lparr>rv_id = ''r'', rv_published = True, rv_slot = ''1970-01-01'', rv_opens = 0, rv_closes = 86400000,
       rv_briefing = ''b'', rv_answer = ''e1''\<rparr>],
     entities = [\<lparr>en_revision = ''r'', en_id = ''e1'', en_publicId = ''one'', en_name = ''One'', en_role = ''x'', en_eligible = True\<rparr>,
       \<lparr>en_revision = ''r'', en_id = ''e2'', en_publicId = ''two'', en_name = ''Two'', en_role = ''y'', en_eligible = True\<rparr>],
     aliases = [],
     evidences = map (\<lambda>i. \<lparr>ev_revision = ''r'', ev_order = i, ev_text = ''t'', ev_explanation = ''x''\<rparr>) [1, 2, 3, 4],
     case_sources = [], revision_regions = [\<lparr>rr_revision = ''r'', rr_region = ''north''\<rparr>],
     region_catalog = [''north''],
     attempts = [\<lparr>at_id = ''a'', at_guest = ''g'', at_revision = ''r'', at_slot = ''1970-01-01'', at_snapshot = s,
       at_version = 0, at_started = 1000, at_updated = 1000, at_terminal = None\<rparr>],
     guesses = [], receipts = [], finalizations = [], participation = [], contributions = [],
     knowledge = [], entries = []\<rparr>"

lemma small_store_core: "valid_snapshot s \<Longrightarrow> state s = ACTIVE \<Longrightarrow> store_core (small_store s)"
  by (auto simp: store_core_def small_store_def content_ok_def complete_revision_def evidence_of_def
      answer_of_def attempts_ok_def derived_ok_def
      knowledge_ok_def attempt_checks_def terminals_def solved_attempts_def terminal_def
      stored_counters_def cases_of_def naming_def counters_of_Nil valid_snapshot_def)

theorem finalize_keeps_store_consistent_witness:
  "\<exists>v db'. finalize (view_of (hd (attempts (small_store (active_at 0 0 0)))) 86400000 5000)
       (active_at 0 0 0\<lparr>state := SOLVED\<rparr>) 5000 (small_store (active_at 0 0 0)) = Inr (v, db') \<and> store_core db' \<and>
     terminals db' = insert (finished (hd (attempts (small_store (active_at 0 0 0))))
       (active_at 0 0 0\<lparr>state := SOLVED\<rparr>) 5000) (terminals (small_store (active_at 0 0 0)))"
proof (rule finalize_keeps_store_consistent)
  show "store_core (small_store (active_at 0 0 0))"
    by (rule small_store_core) (simp_all add: valid_snapshot_def)
qed (simp_all add: small_store_def valid_snapshot_def)

end
