(* ===== verification/Json_Text.thy ===== *)
theory Json_Text
  imports Calendar
begin

text \<open>
  The texts \<^verbatim>\<open>JSON.stringify\<close> writes for strings, integers and arrays, and how they are read back: a
  string or an integer at the front of a text is determined by the text.
\<close>

section \<open>Writing\<close>

definition hex_digit :: "nat \<Rightarrow> char" where
  "hex_digit k = ''0123456789abcdef'' ! k"

definition json_char :: "char \<Rightarrow> string" where
  "json_char c =
    (if c = CHR 34 then [CHR 92, CHR 34]
     else if c = CHR 92 then [CHR 92, CHR 92]
     else if c = CHR 8 then [CHR 92, CHR ''b'']
     else if c = CHR 9 then [CHR 92, CHR ''t'']
     else if c = CHR 10 then [CHR 92, CHR ''n'']
     else if c = CHR 12 then [CHR 92, CHR ''f'']
     else if c = CHR 13 then [CHR 92, CHR ''r'']
     else if (of_char c :: nat) < 32
       then [CHR 92, CHR ''u'', CHR ''0'', CHR ''0'', hex_digit (of_char c div 16), hex_digit (of_char c mod 16)]
     else [c])"

definition json_string :: "string \<Rightarrow> string" where
  "json_string s = CHR 34 # concat (map json_char s) @ [CHR 34]"

fun decimal :: "nat \<Rightarrow> string" where
  "decimal n = (if n < 10 then [digit_char (int n)] else decimal (n div 10) @ [digit_char (int (n mod 10))])"

declare decimal.simps [simp del]

definition json_int :: "int \<Rightarrow> string" where
  "json_int i = (if i < 0 then CHR ''-'' # decimal (nat (- i)) else decimal (nat i))"

fun json_items :: "string list \<Rightarrow> string" where
  "json_items [] = []"
| "json_items [x] = x"
| "json_items (x # xs) = x @ CHR '','' # json_items xs"

definition json_array :: "string list \<Rightarrow> string" where
  "json_array xs = CHR ''['' # json_items xs @ [CHR '']'']"

section \<open>Reading JSON strings back\<close>

definition hex_value :: "char \<Rightarrow> nat" where
  "hex_value c = (let n = of_char c in if n < 58 then n - 48 else n - 87)"

fun unescape :: "string \<Rightarrow> (char \<times> string) option" where
  "unescape [] = None"
| "unescape (c # s) =
    (if c = CHR 92
     then (case s of
             [] \<Rightarrow> None
           | e # s' \<Rightarrow>
             if e = CHR ''u''
             then (case s' of
                     z1 # z2 # h1 # h2 # s'' \<Rightarrow> Some (char_of (16 * hex_value h1 + hex_value h2), s'')
                   | _ \<Rightarrow> None)
             else Some (if e = CHR ''b'' then CHR 8 else if e = CHR ''t'' then CHR 9
               else if e = CHR ''n'' then CHR 10 else if e = CHR ''f'' then CHR 12
               else if e = CHR ''r'' then CHR 13 else e, s'))
     else Some (c, s))"

lemma hex_value_digit: "k < 16 \<Longrightarrow> hex_value (hex_digit k) = k"
proof -
  assume "k < 16"
  then have "k \<in> {0,1,2,3,4,5,6,7,8,9,10,11,12,13,14,15}" by (simp, arith)
  then show ?thesis by (auto simp: hex_value_def hex_digit_def)
qed

lemma unescape_json_char: "unescape (json_char c @ s) = Some (c, s)"
proof (cases "(of_char c :: nat) < 32")
  case True
  then have "hex_value (hex_digit (of_char c div 16)) = of_char c div 16"
    "hex_value (hex_digit (of_char c mod 16)) = of_char c mod 16"
    by (auto intro!: hex_value_digit)
  then have "char_of (16 * hex_value (hex_digit (of_char c div 16)) + hex_value (hex_digit (of_char c mod 16))) = c"
    by simp
  then show ?thesis by (simp add: json_char_def)
next
  case False
  then show ?thesis by (auto simp: json_char_def)
qed

lemma json_char_shape: "\<exists>x xs. json_char c = x # xs \<and> x \<noteq> CHR 34"
  by (auto simp: json_char_def)

lemma json_body_prefix:
  "concat (map json_char s) @ CHR 34 # x = concat (map json_char s') @ CHR 34 # y \<Longrightarrow> s = s' \<and> x = y"
proof (induction s arbitrary: s')
  case Nil
  show ?case
  proof (cases s')
    case (Cons c t)
    obtain z zs where "json_char c = z # zs" "z \<noteq> CHR 34" using json_char_shape by blast
    then show ?thesis using Nil.prems Cons by simp
  qed (use Nil in simp)
next
  case (Cons c s)
  show ?case
  proof (cases s')
    case Nil
    obtain z zs where "json_char c = z # zs" "z \<noteq> CHR 34" using json_char_shape by blast
    then show ?thesis using Cons.prems Nil by simp
  next
    case (Cons c' t)
    from Cons.prems have e: "json_char c @ (concat (map json_char s) @ CHR 34 # x) =
        json_char c' @ (concat (map json_char t) @ CHR 34 # y)"
      by (simp add: local.Cons)
    have "c = c' \<and> concat (map json_char s) @ CHR 34 # x = concat (map json_char t) @ CHR 34 # y"
      using arg_cong [OF e, of unescape] unfolding unescape_json_char by simp
    then show ?thesis using Cons.IH [of t] by (simp add: local.Cons)
  qed
qed

lemma json_string_prefix: "json_string s @ x = json_string s' @ y \<Longrightarrow> s = s' \<and> x = y"
  using json_body_prefix [of s x s' y] by (simp add: json_string_def)

section \<open>Reading numbers back\<close>

lemma digits_value_snoc: "digits_value (s @ [c]) = 10 * digits_value s + digit_val c"
  by (simp add: digits_value_def)

lemma decimal_digits: "list_all is_digit (decimal n)"
proof (induction n rule: decimal.induct)
  case (1 n)
  then show ?case
    using digit_char_digit [of "int n"] digit_char_digit [of "int (n mod 10)"]
    by (auto simp: decimal.simps [of n])
qed

lemma decimal_value: "digits_value (decimal n) = int n"
proof (induction n rule: decimal.induct)
  case (1 n)
  show ?case
  proof (cases "n < 10")
    case True
    then show ?thesis
      using digit_char_digit [of "int n"] by (simp add: decimal.simps [of n] digits_value_def)
  next
    case False
    have "digits_value (decimal n) = 10 * digits_value (decimal (n div 10)) + digit_val (digit_char (int (n mod 10)))"
      using False by (simp add: decimal.simps [of n] digits_value_snoc)
    also have "\<dots> = 10 * int (n div 10) + int (n mod 10)"
      using 1 False digit_char_digit [of "int (n mod 10)"] by simp
    also have "\<dots> = int n" by (simp add: zdiv_int zmod_int mult_div_mod_eq)
    finally show ?thesis .
  qed
qed

definition stops :: "string \<Rightarrow> bool" where
  "stops s \<longleftrightarrow> (case s of [] \<Rightarrow> True | c # _ \<Rightarrow> \<not> is_digit c)"

lemma digits_prefix:
  "list_all is_digit ds \<Longrightarrow> list_all is_digit es \<Longrightarrow> stops x \<Longrightarrow> stops y \<Longrightarrow> ds @ x = es @ y \<Longrightarrow> ds = es \<and> x = y"
proof (induction ds arbitrary: es)
  case Nil
  then show ?case by (cases es) (auto simp: stops_def)
next
  case (Cons d ds)
  then show ?case by (cases es) (auto simp: stops_def)
qed

lemma json_int_prefix:
  assumes "0 \<le> i" "0 \<le> j" "stops x" "stops y" "json_int i @ x = json_int j @ y"
  shows "i = j \<and> x = y"
proof -
  have "decimal (nat i) @ x = decimal (nat j) @ y" using assms by (simp add: json_int_def)
  from digits_prefix [OF decimal_digits decimal_digits assms(3,4) this]
  have d: "decimal (nat i) = decimal (nat j)" and "x = y" by blast+
  have "int (nat i) = int (nat j)" using decimal_value [of "nat i"] decimal_value [of "nat j"] d by simp
  then show ?thesis using assms(1,2) \<open>x = y\<close> by simp
qed

end
