(* ===== verification/Gameplay.thy ===== *)
theory Gameplay
  imports Store_Invariant Json_Text
begin

text \<open>
  \<^verbatim>\<open>packages/database/src/gameplay/attempts.ts\<close>: starting today's attempt, executing a command on an
  attempt, and reading an attempt, each in one transaction. A command carries an idempotency key;
  its receipt, stored with a fingerprint of the command, makes a retry return the recorded outcome.

  The texts of JSON that are hashed are modelled as \<^verbatim>\<open>JSON.stringify\<close> writes them.
\<close>

section \<open>Requests and results\<close>

record start_request =
  sr_guest :: string
  sr_session :: string
  sr_key :: string

record command_request =
  cr_guest :: string
  cr_session :: string
  cr_attempt :: string
  cr_expectedVersion :: js_number
  cr_key :: string
  cr_command :: js_value

datatype rejection_code =
    R_EVIDENCE_LIMIT | R_IDEMPOTENCY_CONFLICT | R_INVALID_COMMAND | R_SESSION_EXPIRED
  | R_STALE_VERSION | R_TERMINAL_ATTEMPT | R_UNKNOWN_ATTEMPT | R_UNKNOWN_ENTITY | R_NO_CASE

datatype command_result =
    CommandOk outcome_code case_projection bool
  | CommandRejected rejection_code "case_projection option"

text \<open>A command as \<^verbatim>\<open>commandFingerprint\<close> recognises it.\<close>

datatype gameplay_command = Guess string | Reveal | GiveUp

definition decode_command :: "js_value \<Rightarrow> gameplay_command option" where
  "decode_command v =
    (if \<not> is_object v then None
     else if js_field v ''kind'' = String ''GUESS''
       then (case js_field v ''entityId'' of String e \<Rightarrow> Some (Guess e) | _ \<Rightarrow> None)
     else if js_field v ''kind'' = String ''REVEAL'' then Some Reveal
     else if js_field v ''kind'' = String ''GIVE_UP'' then Some GiveUp
     else None)"

fun command_kind :: "gameplay_command \<Rightarrow> command_kind" where
  "command_kind (Guess e) = K_GUESS"
| "command_kind Reveal = K_REVEAL"
| "command_kind GiveUp = K_GIVE_UP"

section \<open>Fingerprints\<close>

definition fingerprint :: "store_env \<Rightarrow> string list \<Rightarrow> string" where
  "fingerprint env parts = sha256 env (json_array parts)"

definition startFingerprint :: "store_env \<Rightarrow> string" where
  "startFingerprint env = fingerprint env [json_string ''v1'', json_string ''START'']"

fun command_parts :: "string \<Rightarrow> int \<Rightarrow> gameplay_command \<Rightarrow> string list" where
  "command_parts attempt version (Guess e) =
     [json_string ''v1'', json_string ''GUESS'', json_string attempt, json_int version, json_string e]"
| "command_parts attempt version Reveal =
     [json_string ''v1'', json_string ''REVEAL'', json_string attempt, json_int version]"
| "command_parts attempt version GiveUp =
     [json_string ''v1'', json_string ''GIVE_UP'', json_string attempt, json_int version]"

definition commandFingerprint :: "store_env \<Rightarrow> command_request \<Rightarrow> string option" where
  "commandFingerprint env req = map_option
    (\<lambda>c. fingerprint env (command_parts (cr_attempt req) (js_floor (cr_expectedVersion req)) c))
    (decode_command (cr_command req))"

section \<open>Receipts\<close>

definition startReceiptOutcome :: "receipt_row \<Rightarrow> outcome_code result" where
  "startReceiptOutcome r =
    (if rc_kind r = K_START \<and> rc_outcome r = O_STARTED then Inr O_STARTED
     else Inl (JsError ''stored gameplay receipt has an invalid outcome code''))"

definition commandReceiptOutcome :: "receipt_row \<Rightarrow> command_kind \<Rightarrow> outcome_code result" where
  "commandReceiptOutcome r expectedKind =
    (let valid = (expectedKind = K_GUESS \<and> (rc_outcome r = O_CORRECT \<or> rc_outcome r = O_WRONG)) \<or>
                 (expectedKind = K_REVEAL \<and> rc_outcome r = O_REVEALED) \<or>
                 (expectedKind = K_GIVE_UP \<and> rc_outcome r = O_GIVEN_UP)
     in if rc_kind r = expectedKind \<and> valid then Inr (rc_outcome r)
        else Inl (JsError ''stored gameplay receipt has an invalid outcome code''))"

definition validateKey :: "string \<Rightarrow> bool" where
  "validateKey key \<longleftrightarrow> 1 \<le> length key \<and> length key \<le> 128 \<and>
     list_all (\<lambda>c. 32 \<le> (of_char c :: nat) \<and> (of_char c :: nat) \<le> 126) key"

definition receipt :: "string \<Rightarrow> string \<Rightarrow> game_db \<Rightarrow> receipt_row option" where
  "receipt guestId key db = find (\<lambda>r. rc_guest r = guestId \<and> rc_key r = key) (receipts db)"

definition lockGuest :: "string \<Rightarrow> game_db \<Rightarrow> bool" where
  "lockGuest guestId db = list_ex (\<lambda>g. g_id g = guestId) (guests db)"

definition session_live_at :: "int \<Rightarrow> string \<Rightarrow> string \<Rightarrow> game_db \<Rightarrow> bool" where
  "session_live_at now guestId sessionId db =
    list_ex (\<lambda>s. se_id s = sessionId \<and> se_guest s = guestId \<and> se_expiresAt s > now) (sessions db)"

definition sessionIsLive :: "store_env \<Rightarrow> string \<Rightarrow> string \<Rightarrow> game_db \<Rightarrow> bool" where
  "sessionIsLive env = session_live_at (now_session env)"

text \<open>The insertion of a receipt, with the keys of the table and its trigger, which wants a live
  session of the guest.\<close>

definition insert_receipt :: "store_env \<Rightarrow> receipt_row \<Rightarrow> unit tx" where
  "insert_receipt env r db =
    bindT (checkT ''command_receipts''
      (\<not> list_ex (\<lambda>x. rc_id x = rc_id r \<or> rc_guest x = rc_guest r \<and> rc_key x = rc_key r) (receipts db) \<and>
       session_live_at (now_receipt env) (rc_guest r) (rc_session r) db \<and> 0 \<le> rc_version r))
      (\<lambda>_. modifyT (\<lambda>db. db\<lparr>receipts := receipts db @ [r]\<rparr>)) db"

section \<open>Reading\<close>

definition not_started :: "revision_row \<Rightarrow> case_projection" where
  "not_started r = projectNotStarted
     \<lparr>ps_slotId = rv_slot r, ps_opensAt = iso_timestamp (rv_opens r), ps_closesAt = iso_timestamp (rv_closes r)\<rparr>"

definition read_settled :: "store_env \<Rightarrow> attempt_view \<Rightarrow> string \<Rightarrow> case_projection tx" where
  "read_settled env row guestId =
    bindT (expireIfClosed row (now_sample env)) (\<lambda>row'. projectT env row' guestId)"

definition readCurrentCase :: "store_env \<Rightarrow> string \<Rightarrow> case_projection tx" where
  "readCurrentCase env guestId =
    bindT (queryT (currentRevision (now_session env))) (\<lambda>rev.
    (case rev of None \<Rightarrow> returnT projectNoCase | Some r \<Rightarrow>
    bindT (queryT (\<lambda>db. find (\<lambda>a. at_guest a = guestId \<and> at_slot a = rv_slot r) (attempts db))) (\<lambda>existing.
    (case existing of None \<Rightarrow> returnT (not_started r) | Some a \<Rightarrow>
    bindT (queryT (lockGuest guestId)) (\<lambda>locked.
    if \<not> locked then returnT (not_started r) else
    bindT (queryT (attemptRow env (at_id a) guestId)) (\<lambda>row.
    (case row of None \<Rightarrow> raiseT (Thrown (JsError ''owned attempt disappeared''))
     | Some v \<Rightarrow> read_settled env v guestId)))))))"

definition readOwnedAttempt :: "store_env \<Rightarrow> string \<Rightarrow> string \<Rightarrow> case_projection option tx" where
  "readOwnedAttempt env guestId attemptId =
    bindT (queryT (lockGuest guestId)) (\<lambda>locked.
    if \<not> locked then returnT None else
    bindT (queryT (attemptRow env attemptId guestId)) (\<lambda>row.
    (case row of None \<Rightarrow> returnT None
     | Some v \<Rightarrow> bindT (read_settled env v guestId) (\<lambda>p. returnT (Some p)))))"

section \<open>Starting an attempt\<close>

definition replay_start :: "store_env \<Rightarrow> start_request \<Rightarrow> receipt_row \<Rightarrow> command_result tx" where
  "replay_start env req prior =
    (if rc_fingerprint prior \<noteq> startFingerprint env \<or> rc_kind prior \<noteq> K_START
     then returnT (CommandRejected R_IDEMPOTENCY_CONFLICT None)
     else
       bindT (liftT (startReceiptOutcome prior)) (\<lambda>_.
       bindT (queryT (attemptRow env (rc_attempt prior) (sr_guest req))) (\<lambda>row.
       (case row of None \<Rightarrow> returnT (CommandRejected R_IDEMPOTENCY_CONFLICT None)
        | Some v \<Rightarrow> bindT (read_settled env v (sr_guest req)) (\<lambda>p.
            returnT (CommandOk O_STARTED p True))))))"

text \<open>\<^verbatim>\<open>INSERT INTO attempts ... ON CONFLICT (guest_id, slot_id) DO NOTHING RETURNING id\<close>, then the
  existing identifier when there was a conflict.\<close>

definition insert_attempt :: "store_env \<Rightarrow> string \<Rightarrow> revision_row \<Rightarrow> string tx" where
  "insert_attempt env guestId r =
    bindT (queryT (\<lambda>db. find (\<lambda>a. at_guest a = guestId \<and> at_slot a = rv_slot r) (attempts db))) (\<lambda>existing.
    (case existing of Some a \<Rightarrow> returnT (at_id a) | None \<Rightarrow>
    bindT (queryT (\<lambda>db. list_ex (\<lambda>a. at_id a = uuid_attempt env) (attempts db))) (\<lambda>taken.
    bindT (checkT ''attempts_pkey'' (\<not> taken)) (\<lambda>_.
    bindT (modifyT (\<lambda>db. db\<lparr>attempts := attempts db @
      [\<lparr>at_id = uuid_attempt env, at_guest = guestId, at_revision = rv_id r, at_slot = rv_slot r,
        at_snapshot = initial_attempt, at_version = 0, at_started = now_sample env,
        at_updated = now_sample env, at_terminal = None\<rparr>]\<rparr>)) (\<lambda>_.
    returnT (uuid_attempt env))))))"

definition startCurrentAttempt :: "store_env \<Rightarrow> start_request \<Rightarrow> command_result tx" where
  "startCurrentAttempt env req =
    (if \<not> validateKey (sr_key req) then returnT (CommandRejected R_INVALID_COMMAND None) else
     bindT (queryT (\<lambda>db. lockGuest (sr_guest req) db \<and> sessionIsLive env (sr_guest req) (sr_session req) db)) (\<lambda>live.
     if \<not> live then returnT (CommandRejected R_SESSION_EXPIRED None) else
     bindT (queryT (receipt (sr_guest req) (sr_key req))) (\<lambda>prior.
     (case prior of Some r \<Rightarrow> replay_start env req r | None \<Rightarrow>
     bindT (queryT (currentRevision (now_sample env))) (\<lambda>rev.
     (case rev of None \<Rightarrow> returnT (CommandRejected R_NO_CASE None) | Some r \<Rightarrow>
     bindT (insert_attempt env (sr_guest req) r) (\<lambda>i.
     bindT (queryT (attemptRow env i (sr_guest req))) (\<lambda>row.
     (case row of None \<Rightarrow> raiseT (Thrown (JsError ''attempt start failed'')) | Some v \<Rightarrow>
     bindT (insert_receipt env \<lparr>rc_id = uuid_receipt env, rc_guest = sr_guest req,
       rc_session = sr_session req, rc_key = sr_key req, rc_fingerprint = startFingerprint env,
       rc_kind = K_START, rc_outcome = O_STARTED, rc_attempt = i, rc_version = vw_version v\<rparr>) (\<lambda>_.
     bindT (projectT env v (sr_guest req)) (\<lambda>p.
     returnT (CommandOk O_STARTED p False))))))))))))"


section \<open>Executing a command\<close>

definition replay_command ::
  "store_env \<Rightarrow> command_request \<Rightarrow> gameplay_command \<Rightarrow> string \<Rightarrow> receipt_row \<Rightarrow> command_result tx" where
  "replay_command env req c canonicalFingerprint prior =
    (if rc_fingerprint prior \<noteq> canonicalFingerprint \<or> rc_attempt prior \<noteq> cr_attempt req
     then returnT (CommandRejected R_IDEMPOTENCY_CONFLICT None)
     else
       bindT (queryT (attemptRow env (cr_attempt req) (cr_guest req))) (\<lambda>row.
       (case row of None \<Rightarrow> returnT (CommandRejected R_UNKNOWN_ATTEMPT None)
        | Some v \<Rightarrow>
          bindT (liftT (commandReceiptOutcome prior (command_kind c))) (\<lambda>historical.
          bindT (read_settled env v (cr_guest req)) (\<lambda>p.
          returnT (CommandOk historical p True))))))"

text \<open>The entity a guess names: by public identifier or by stored identifier, eligible, of the
  attempt's revision, with whether it is the answer.\<close>

definition find_entity :: "string \<Rightarrow> string \<Rightarrow> game_db \<Rightarrow> (bool \<times> string) option" where
  "find_entity revisionId name db =
    (case find (\<lambda>e. en_revision e = revisionId \<and> (en_publicId e = name \<or> en_id e = name) \<and> en_eligible e)
       (entities db) of
       None \<Rightarrow> None
     | Some e \<Rightarrow>
         (case find (\<lambda>r. rv_id r = revisionId) (revisions db) of
            None \<Rightarrow> None
          | Some r \<Rightarrow> Some (en_id e = rv_answer r, en_id e)))"

text \<open>The transition a command asks for: nothing for a guess of an unknown entity.\<close>

fun command_transition ::
  "attempt_view \<Rightarrow> gameplay_command \<Rightarrow> game_db \<Rightarrow>
   (transition_result result \<times> outcome_code \<times> string option) option" where
  "command_transition row (Guess name) db =
     (case find_entity (vw_revision row) name db of
        None \<Rightarrow> None
      | Some (correct, e) \<Rightarrow>
          Some (applyGuess (snapshot row) correct, if correct then O_CORRECT else O_WRONG, Some e))"
| "command_transition row Reveal db = Some (revealEvidence (snapshot row), O_REVEALED, None)"
| "command_transition row GiveUp db = Some (giveUp (snapshot row), O_GIVEN_UP, None)"

definition utc_day :: "int \<Rightarrow> string" where
  "utc_day t = iso_date (civil_of_day (t div MILLISECONDS_PER_DAY))"

definition insert_guess :: "guess_row \<Rightarrow> unit tx" where
  "insert_guess g db =
    bindT (checkT ''guesses''
      (\<not> list_ex (\<lambda>x. gs_id x = gs_id g \<or> gs_attempt x = gs_attempt g \<and> gs_number x = gs_number g) (guesses db) \<and>
       1 \<le> gs_number g \<and> gs_number g \<le> 15 \<and> 0 \<le> gs_level g \<and> gs_level g \<le> 4))
      (\<lambda>_. modifyT (\<lambda>db. db\<lparr>guesses := guesses db @ [g]\<rparr>)) db"

definition insert_participation :: "string \<Rightarrow> int \<Rightarrow> game_db \<Rightarrow> game_db" where
  "insert_participation guestId at_time db =
    (if list_ex (\<lambda>d. pd_guest d = guestId \<and> pd_day d = utc_day at_time) (participation db) then db
     else db\<lparr>participation := participation db @
       [\<lparr>pd_guest = guestId, pd_day = utc_day at_time, pd_first = at_time\<rparr>]\<rparr>)"

definition record_guess :: "store_env \<Rightarrow> attempt_view \<Rightarrow> attempt_snapshot \<Rightarrow> string option \<Rightarrow> unit tx" where
  "record_guess env row next_snapshot guessed =
    (case guessed of
       None \<Rightarrow> returnT ()
     | Some e \<Rightarrow>
       bindT (insert_guess \<lparr>gs_id = uuid_guess env, gs_attempt = vw_id row, gs_revision = vw_revision row,
           gs_number = totalWrongGuesses (vw_snapshot row) + 1, gs_entity = e,
           gs_correct = (state next_snapshot = SOLVED), gs_level = evidenceLevel (vw_snapshot row),
           gs_at = now_sample env\<rparr>) (\<lambda>_.
       modifyT (insert_participation (vw_guest row) (now_sample env))))"

definition advance :: "attempt_view \<Rightarrow> attempt_snapshot \<Rightarrow> int \<Rightarrow> attempt_view tx" where
  "advance row next_snapshot at_time =
    (if state next_snapshot \<noteq> ACTIVE then finalize row next_snapshot at_time
     else update_returning (vw_id row) (\<lambda>a. a\<lparr>at_snapshot := (at_snapshot a)
            \<lparr>evidenceLevel := evidenceLevel next_snapshot,
             wrongGuessesAtLevel := wrongGuessesAtLevel next_snapshot,
             totalWrongGuesses := totalWrongGuesses next_snapshot\<rparr>,
            at_version := at_version a + 1, at_updated := at_time\<rparr>) (vw_closes row) at_time)"

definition commit_transition ::
  "store_env \<Rightarrow> command_request \<Rightarrow> gameplay_command \<Rightarrow> string \<Rightarrow> attempt_view \<Rightarrow> attempt_snapshot \<Rightarrow>
   outcome_code \<Rightarrow> string option \<Rightarrow> command_result tx" where
  "commit_transition env req c canonicalFingerprint row next_snapshot outcome guessed =
    bindT (record_guess env row next_snapshot guessed) (\<lambda>_.
    bindT (advance row next_snapshot (now_sample env)) (\<lambda>row'.
    bindT (insert_receipt env \<lparr>rc_id = uuid_receipt env, rc_guest = cr_guest req,
      rc_session = cr_session req, rc_key = cr_key req, rc_fingerprint = canonicalFingerprint,
      rc_kind = command_kind c, rc_outcome = outcome, rc_attempt = vw_id row',
      rc_version = vw_version row'\<rparr>) (\<lambda>_.
    bindT (projectT env row' (cr_guest req)) (\<lambda>p.
    returnT (CommandOk outcome p False)))))"

definition reject_with ::
  "store_env \<Rightarrow> command_request \<Rightarrow> attempt_view \<Rightarrow> rejection_code \<Rightarrow> command_result tx" where
  "reject_with env req row code =
    bindT (projectT env row (cr_guest req)) (\<lambda>p. returnT (CommandRejected code (Some p)))"

fun rejection_of :: "transition_rejection \<Rightarrow> rejection_code" where
  "rejection_of EVIDENCE_LIMIT = R_EVIDENCE_LIMIT"
| "rejection_of TERMINAL_ATTEMPT = R_TERMINAL_ATTEMPT"

definition apply_command ::
  "store_env \<Rightarrow> command_request \<Rightarrow> gameplay_command \<Rightarrow> string \<Rightarrow> attempt_view \<Rightarrow> command_result tx" where
  "apply_command env req c canonicalFingerprint row =
    (if state (vw_snapshot row) \<noteq> ACTIVE then reject_with env req row R_TERMINAL_ATTEMPT
     else if int_number (vw_version row) \<noteq> cr_expectedVersion req then reject_with env req row R_STALE_VERSION
     else
       bindT (queryT (command_transition row c)) (\<lambda>t.
       (case t of None \<Rightarrow> returnT (CommandRejected R_UNKNOWN_ENTITY None)
        | Some (r, outcome, guessed) \<Rightarrow>
          bindT (liftT r) (\<lambda>tr.
          (case tr of
             Rejected reason _ \<Rightarrow> reject_with env req row (rejection_of reason)
           | Accepted a _ \<Rightarrow>
               commit_transition env req c canonicalFingerprint row a outcome guessed)))))"

definition executeGameplayCommand :: "store_env \<Rightarrow> command_request \<Rightarrow> command_result tx" where
  "executeGameplayCommand env req =
    (if \<not> validateKey (cr_key req) \<or> \<not> is_safe_integer (cr_expectedVersion req) \<or>
        js_floor (cr_expectedVersion req) < 0
     then returnT (CommandRejected R_INVALID_COMMAND None) else
     bindT (queryT (\<lambda>db. lockGuest (cr_guest req) db \<and> sessionIsLive env (cr_guest req) (cr_session req) db)) (\<lambda>live.
     if \<not> live then returnT (CommandRejected R_SESSION_EXPIRED None) else
     (case (decode_command (cr_command req), commandFingerprint env req) of
        (Some c, Some canonicalFingerprint) \<Rightarrow>
          bindT (queryT (receipt (cr_guest req) (cr_key req))) (\<lambda>prior.
          (case prior of Some r \<Rightarrow> replay_command env req c canonicalFingerprint r | None \<Rightarrow>
          bindT (queryT (attemptRow env (cr_attempt req) (cr_guest req))) (\<lambda>row.
          (case row of None \<Rightarrow> returnT (CommandRejected R_UNKNOWN_ATTEMPT None)
           | Some v \<Rightarrow> bindT (expireIfClosed v (now_sample env)) (\<lambda>v'.
               apply_command env req c canonicalFingerprint v')))))
      | _ \<Rightarrow> returnT (CommandRejected R_INVALID_COMMAND None))))"

end
