(* ===== verification/Gameplay_Correct.thy ===== *)
theory Gameplay_Correct
  imports Gameplay
begin

text \<open>
  The correctness of the gameplay transactions: they keep the store consistent, a committed command
  performs exactly one transition of the attempt engine on the caller's own attempt, a rejected one
  changes nothing but what expiry does, and a retry with the same key returns the recorded outcome.
\<close>

section \<open>The rest of the invariant\<close>

definition numbers_of :: "game_db \<Rightarrow> string \<Rightarrow> int set" where
  "numbers_of db i = gs_number ` {g \<in> set (guesses db). gs_attempt g = i}"

text \<open>The guesses of a running attempt are numbered from one up to its wrong guesses; \<open>skip\<close> is the
  attempt whose new guess is already in the table while its counters are not.\<close>

definition guesses_ok :: "string option \<Rightarrow> game_db \<Rightarrow> bool" where
  "guesses_ok skip db \<longleftrightarrow>
    distinct (map (\<lambda>g. (gs_attempt g, gs_number g)) (guesses db)) \<and>
    (\<forall>g \<in> set (guesses db). 1 \<le> gs_number g \<and> gs_number g \<le> 15 \<and>
       gs_attempt g \<in> at_id ` set (attempts db)) \<and>
    (\<forall>a \<in> set (attempts db). \<not> terminal a \<and> skip \<noteq> Some (at_id a) \<longrightarrow>
       numbers_of db (at_id a) = {1..totalWrongGuesses (at_snapshot a)})"

fun outcome_fits :: "command_kind \<Rightarrow> outcome_code \<Rightarrow> bool" where
  "outcome_fits K_START c = (c = O_STARTED)"
| "outcome_fits K_GUESS c = (c = O_CORRECT \<or> c = O_WRONG)"
| "outcome_fits K_REVEAL c = (c = O_REVEALED)"
| "outcome_fits K_GIVE_UP c = (c = O_GIVEN_UP)"

definition receipts_ok :: "game_db \<Rightarrow> bool" where
  "receipts_ok db \<longleftrightarrow>
    distinct (map (\<lambda>r. (rc_guest r, rc_key r)) (receipts db)) \<and>
    (\<forall>r \<in> set (receipts db). outcome_fits (rc_kind r) (rc_outcome r) \<and>
       (\<exists>a \<in> set (attempts db). at_id a = rc_attempt r \<and> at_guest a = rc_guest r \<and>
          rc_version r \<le> at_version a))"

definition store_ok :: "game_db \<Rightarrow> bool" where
  "store_ok db \<longleftrightarrow> store_core db \<and> guesses_ok None db \<and> receipts_ok db"

section \<open>One row of the attempts changes\<close>

text \<open>\<open>moved db db' a a'\<close>: the row \<open>a\<close> of the attempts became \<open>a'\<close>, a later version of the same
  attempt, and neither the guesses nor the receipts changed.\<close>

definition moved :: "game_db \<Rightarrow> game_db \<Rightarrow> attempt_row \<Rightarrow> attempt_row \<Rightarrow> bool" where
  "moved db db' a a' \<longleftrightarrow>
    (\<exists>xs ys. attempts db = xs @ a # ys \<and> attempts db' = xs @ a' # ys) \<and>
    at_id a' = at_id a \<and> at_guest a' = at_guest a \<and> at_version a \<le> at_version a' \<and>
    guesses db' = guesses db \<and> receipts db' = receipts db"

lemma moved_receipts_ok: "moved db db' a a' \<Longrightarrow> receipts_ok db \<Longrightarrow> receipts_ok db'"
  unfolding moved_def receipts_ok_def by fastforce

lemma moved_guesses_ok:
  assumes "moved db db' a a'" "guesses_ok (Some (at_id a)) db" "distinct (map at_id (attempts db))"
    "\<not> terminal a' \<Longrightarrow> numbers_of db (at_id a) = {1..totalWrongGuesses (at_snapshot a')}"
  shows "guesses_ok None db'"
proof -
  obtain xs ys where s: "attempts db = xs @ a # ys" "attempts db' = xs @ a' # ys"
    using assms(1) by (auto simp: moved_def)
  have e: "at_id a' = at_id a" "guesses db' = guesses db" using assms(1) by (auto simp: moved_def)
  have n: "numbers_of db' = numbers_of db" by (simp add: numbers_of_def e fun_eq_iff)
  have "at_id a \<notin> at_id ` (set xs \<union> set ys)" using assms(3) by (auto simp: s)
  then have "numbers_of db (at_id x) = {1..totalWrongGuesses (at_snapshot x)}"
    if "x \<in> set xs \<union> set ys" "\<not> terminal x" for x
    using that assms(2) by (auto simp: guesses_ok_def s)
  moreover have "at_id ` set (attempts db') = at_id ` set (attempts db)" by (simp add: s e)
  ultimately show ?thesis
    using assms(2,4) unfolding guesses_ok_def n by (auto simp: e s)
qed

lemma guesses_ok_skip: "guesses_ok None db \<Longrightarrow> guesses_ok (Some i) db"
  by (auto simp: guesses_ok_def)

lemma moved_finalized:
  assumes "store_core db" "becomes db a a'" "at_version a \<le> at_version a'"
  shows "moved db (finalized_store a' db) a a'"
proof -
  obtain xs ys where "attempts db = xs @ a # ys" "attempts (finalized_store a' db) = xs @ a' # ys"
    using becomes_split [OF assms(1,2)] .
  moreover have "guesses (finalized_store a' db) = guesses db" "receipts (finalized_store a' db) = receipts db"
    by (simp_all add: finalized_store_def Let_def)
  ultimately show ?thesis using assms(2,3) by (auto simp: moved_def becomes_def)
qed

lemma becomes_store_ok:
  assumes "store_ok db" "becomes db a a'" "at_version a \<le> at_version a'"
  shows "store_ok (finalized_store a' db)"
proof -
  have core: "store_core db" using assms(1) by (simp add: store_ok_def)
  note m = moved_finalized [OF core assms(2,3)]
  have "terminal a'" using assms(2) by (simp add: becomes_def)
  then show ?thesis
    using becomes_store_core [OF core assms(2)] moved_receipts_ok [OF m] moved_guesses_ok [OF m]
      assms(1) core guesses_ok_skip
    by (auto simp: store_ok_def store_core_def attempts_ok_def)
qed

section \<open>Expiry\<close>

definition settle :: "int \<Rightarrow> int \<Rightarrow> attempt_row \<Rightarrow> attempt_row" where
  "settle now cl a =
    (if terminal a \<or> now < cl then a else finished a ((at_snapshot a)\<lparr>state := EXPIRED\<rparr>) cl)"

definition settle_store :: "int \<Rightarrow> int \<Rightarrow> attempt_row \<Rightarrow> game_db \<Rightarrow> game_db" where
  "settle_store now cl a db =
    (if terminal a \<or> now < cl then db else finalized_store (settle now cl a) db)"

lemma view_of_simps [simp]:
  "vw_id (view_of a cl sm) = at_id a" "vw_guest (view_of a cl sm) = at_guest a"
  "vw_revision (view_of a cl sm) = at_revision a" "vw_slot (view_of a cl sm) = at_slot a"
  "vw_snapshot (view_of a cl sm) = at_snapshot a" "vw_version (view_of a cl sm) = at_version a"
  "vw_started (view_of a cl sm) = at_started a" "vw_closes (view_of a cl sm) = cl"
  by (simp_all add: view_of_def)

lemma attempt_row_valid: "store_core db \<Longrightarrow> a \<in> set (attempts db) \<Longrightarrow> valid_snapshot (at_snapshot a)"
  by (simp add: store_core_def attempts_ok_def attempt_checks_def)

lemma expired_valid:
  "valid_snapshot s \<Longrightarrow> state s = ACTIVE \<Longrightarrow> valid_snapshot (s\<lparr>state := EXPIRED\<rparr>)"
  by (auto simp: valid_snapshot_def)

lemma expire_becomes:
  assumes "store_core db" "a \<in> set (attempts db)" "\<not> terminal a" "at_started a < cl" "\<not> now < cl"
  shows "becomes db a (settle now cl a)"
  using becomes_finished [OF assms(1,2,3), of "(at_snapshot a)\<lparr>state := EXPIRED\<rparr>" cl]
    expired_valid [OF attempt_row_valid [OF assms(1,2)]] assms(3-5)
  by (simp add: settle_def terminal_def)

lemma expire_run:
  assumes "store_core db" "a \<in> set (attempts db)" "at_started a < cl"
  shows "\<exists>sm'. expireIfClosed (view_of a cl sm) now db =
    Inr (view_of (settle now cl a) cl sm', settle_store now cl a db)"
proof (cases "terminal a \<or> now < cl")
  case True
  then show ?thesis
    by (intro exI [of _ sm]) (auto simp: expireIfClosed_def settle_def settle_store_def terminal_def)
next
  case False
  let ?t = "(at_snapshot a)\<lparr>state := EXPIRED\<rparr>"
  have v: "valid_snapshot (at_snapshot a)" "state (at_snapshot a) = ACTIVE"
    using attempt_row_valid [OF assms(1,2)] False by (auto simp: terminal_def)
  have "expire (snapshot (view_of a cl sm)) = Inr (Accepted ?t False)"
    using v by (simp add: expire_def snapshot_def)
  moreover have "finalize (view_of a cl sm) ?t cl db =
      Inr (view_of (finished a ?t cl) cl cl, finalized_store (finished a ?t cl) db)"
    using False assms expired_valid [OF v] by (intro finalize_run) auto
  ultimately show ?thesis
    using False v by (intro exI [of _ cl])
      (auto simp: expireIfClosed_def settle_def settle_store_def bindT_def)
qed

lemma settle_store_ok:
  assumes "store_ok db" "a \<in> set (attempts db)" "at_started a < cl"
  shows "store_ok (settle_store now cl a db)"
proof (cases "terminal a \<or> now < cl")
  case True
  then show ?thesis using assms(1) by (auto simp: settle_store_def)
next
  case False
  then show ?thesis
    using becomes_store_ok [of db a "settle now cl a"] expire_becomes [of db a cl now] assms
    by (simp add: settle_store_def store_ok_def) (simp add: settle_def)
qed

lemma settle_member:
  assumes "store_core db" "a \<in> set (attempts db)" "at_started a < cl"
  shows "settle now cl a \<in> set (attempts (settle_store now cl a db))"
proof (cases "terminal a \<or> now < cl")
  case True
  then show ?thesis using assms by (auto simp: settle_store_def settle_def)
next
  case False
  then have "becomes db a (settle now cl a)" using expire_becomes assms by blast
  then show ?thesis
    using becomes_split [OF assms(1)] False by (force simp: settle_store_def)
qed

lemma settle_active: "state (at_snapshot (settle now cl a)) = ACTIVE \<Longrightarrow>
    settle now cl a = a \<and> settle_store now cl a db = db \<and> now < cl \<and> \<not> terminal a"
  by (auto simp: settle_def settle_store_def terminal_def split: if_splits)

text \<open>The row an operation reads is one of the caller's own attempts.\<close>

lemma attemptRow_Some:
  assumes "store_core db" "attemptRow env i g db = Some v"
  obtains a cl where "a \<in> set (attempts db)" "at_id a = i" "at_guest a = g" "at_started a < cl"
    "\<exists>r \<in> set (revisions db). rv_id r = at_revision a \<and> cl = rv_closes r"
    "v = view_of a cl (now_row env)"
proof -
  from assms(2) obtain a r where ar: "find (\<lambda>a. at_id a = i \<and> at_guest a = g) (attempts db) = Some a"
    "find (\<lambda>r. rv_id r = at_revision a) (revisions db) = Some r" "v = view_of a (rv_closes r) (now_row env)"
    by (auto simp: attemptRow_def split: option.splits)
  have a: "a \<in> set (attempts db)" "at_id a = i" "at_guest a = g" using find_Some_key [OF ar(1)] by auto
  have r: "r \<in> set (revisions db)" "rv_id r = at_revision a" using find_Some_key [OF ar(2)] by auto
  obtain r' where r': "r' \<in> set (revisions db)" "rv_id r' = at_revision a" "at_started a < rv_closes r'"
    using assms(1) a(1) by (auto simp: store_core_def attempts_ok_def)
  have "distinct (map rv_id (revisions db))" using assms(1) by (simp add: store_core_def content_ok_def)
  then have "r' = r" using distinct_key_eq [of rv_id] r r' by metis
  then show thesis using that [OF a] r r' ar(3) by blast
qed


section \<open>The parts of a command\<close>

lemma store_core_other [simp]:
  "store_core (db\<lparr>guesses := x\<rparr>) = store_core db"
  "store_core (db\<lparr>participation := y\<rparr>) = store_core db"
  "store_core (db\<lparr>receipts := z\<rparr>) = store_core db"
  by (simp_all add: store_core_def content_ok_def attempts_ok_def derived_ok_def knowledge_ok_def
      terminals_def solved_attempts_def entry_of_def [abs_def] pseudonym_of_def cases_of_def
      case_of_def [abs_def] regions_of_def complete_revision_def evidence_of_def answer_of_def)

lemma insert_participation_other [simp]:
  "store_core (insert_participation g t db) = store_core db"
  "guesses (insert_participation g t db) = guesses db"
  "attempts (insert_participation g t db) = attempts db"
  "receipts (insert_participation g t db) = receipts db"
  "sessions (insert_participation g t db) = sessions db"
  by (simp_all add: insert_participation_def)

text \<open>Replacing the row of an active attempt by another active one.\<close>

definition replaced_store :: "attempt_row \<Rightarrow> game_db \<Rightarrow> game_db" where
  "replaced_store a' db = db\<lparr>attempts := update_where (\<lambda>x. at_id x = at_id a') (\<lambda>_. a') (attempts db)\<rparr>"

definition stays_active :: "game_db \<Rightarrow> attempt_row \<Rightarrow> attempt_row \<Rightarrow> bool" where
  "stays_active db a a' \<longleftrightarrow> a \<in> set (attempts db) \<and> \<not> terminal a \<and> \<not> terminal a' \<and> attempt_checks a' \<and>
    at_id a' = at_id a \<and> at_guest a' = at_guest a \<and> at_slot a' = at_slot a \<and>
    at_revision a' = at_revision a \<and> at_started a' = at_started a \<and> at_version a \<le> at_version a'"

lemma stays_split:
  assumes "store_core db" "stays_active db a a'"
  obtains xs ys where "attempts db = xs @ a # ys" "attempts (replaced_store a' db) = xs @ a' # ys"
  using replace_split [of "attempts db" a a'] assms
  by (auto simp: store_core_def attempts_ok_def stays_active_def replaced_store_def)

lemma stays_moved:
  assumes "store_core db" "stays_active db a a'"
  shows "moved db (replaced_store a' db) a a'"
proof -
  obtain xs ys where "attempts db = xs @ a # ys" "attempts (replaced_store a' db) = xs @ a' # ys"
    using stays_split [OF assms] .
  moreover have "guesses (replaced_store a' db) = guesses db" "receipts (replaced_store a' db) = receipts db"
    by (simp_all add: replaced_store_def)
  ultimately show ?thesis using assms(2) by (auto simp: moved_def stays_active_def)
qed

lemma stays_store_core:
  assumes "store_core db" "stays_active db a a'"
  shows "store_core (replaced_store a' db)"
proof -
  obtain xs ys where s: "attempts db = xs @ a # ys" "attempts (replaced_store a' db) = xs @ a' # ys"
    using stays_split [OF assms] .
  note b = assms(2) [unfolded stays_active_def]
  have static: "revisions (replaced_store a' db) = revisions db" "guests (replaced_store a' db) = guests db"
    "revision_regions (replaced_store a' db) = revision_regions db"
    "finalizations (replaced_store a' db) = finalizations db" "entries (replaced_store a' db) = entries db"
    "contributions (replaced_store a' db) = contributions db" "knowledge (replaced_store a' db) = knowledge db"
    by (simp_all add: replaced_store_def)
  have t: "terminals (replaced_store a' db) = terminals db"
    "solved_attempts (replaced_store a' db) = solved_attempts db"
    using b by (auto simp: terminals_def solved_attempts_def s terminal_def)
  have f: "regions_of (replaced_store a' db) = regions_of db" "entry_of (replaced_store a' db) = entry_of db"
    "case_of (replaced_store a' db) = case_of db"
    "complete_revision (replaced_store a' db) = complete_revision db"
    by (simp_all add: fun_eq_iff regions_of_def entry_of_def pseudonym_of_def case_of_def static)
      (simp add: complete_revision_def evidence_of_def answer_of_def replaced_store_def)
  have c: "cases_of (replaced_store a' db) g = cases_of db g" for g
    using b by (simp add: cases_of_def s f)
  have "attempts_ok (replaced_store a' db)"
    using assms(1) b unfolding store_core_def attempts_ok_def s static by simp
  then show ?thesis
    using assms(1) by (simp add: store_core_def content_ok_def derived_ok_def knowledge_ok_def static t f c)
qed

lemma update_returning_Inr:
  assumes "store_core db" "a \<in> set (attempts db)" "at_id (f a) = at_id a"
    "update_returning (at_id a) f cl sm db = Inr (v, db')"
  shows "attempt_checks (f a) \<and> v = view_of (f a) cl sm \<and> db' = replaced_store (f a) db"
proof -
  have d: "distinct (map at_id (attempts db))" using assms(1) by (simp add: store_core_def attempts_ok_def)
  have "attempt_checks (f a)"
    using assms(2,4) by (auto simp: update_returning_def update_attempt_def tx_Inr list_all_iff)
  then show ?thesis
    using update_returning_run [of db a f cl sm] d assms
    by (simp add: replaced_store_def)
qed

lemma finalize_started:
  assumes "store_core db" "a \<in> set (attempts db)" "finalize (view_of a cl sm) t x db = Inr (v, db')"
  shows "at_started a \<le> x"
proof -
  let ?f = "\<lambda>a. a\<lparr>at_snapshot := t, at_version := at_version a + 1, at_updated := x, at_terminal := Some x\<rparr>"
  from assms(3) obtain v1 db1 where "update_returning (at_id a) ?f cl x db = Inr (v1, db1)"
    by (auto simp: finalize_def Let_def tx_Inr)
  then have "attempt_checks (?f a)" using update_returning_Inr [OF assms(1,2), of ?f] by simp
  then show ?thesis by (simp add: attempt_checks_def)
qed

text \<open>Applying an accepted transition to the row: the version goes up by one and the snapshot is the
  transition's.\<close>

definition stepped :: "attempt_row \<Rightarrow> attempt_snapshot \<Rightarrow> int \<Rightarrow> attempt_row" where
  "stepped a t x = (if state t = ACTIVE
     then a\<lparr>at_snapshot := t, at_version := at_version a + 1, at_updated := x\<rparr> else finished a t x)"

lemma stepped_fields [simp]:
  "at_id (stepped a t x) = at_id a" "at_guest (stepped a t x) = at_guest a"
  "at_slot (stepped a t x) = at_slot a" "at_revision (stepped a t x) = at_revision a"
  "at_started (stepped a t x) = at_started a" "at_snapshot (stepped a t x) = t"
  "at_version (stepped a t x) = at_version a + 1"
  by (simp_all add: stepped_def)

lemma advance_effect:
  assumes "store_core db" "a \<in> set (attempts db)" "\<not> terminal a" "valid_snapshot t"
    "advance (view_of a cl sm) t x db = Inr (v, db')"
  shows "v = view_of (stepped a t x) cl x \<and> store_core db' \<and> moved db db' a (stepped a t x) \<and>
    sessions db' = sessions db"
proof (cases "state t = ACTIVE")
  case True
  let ?f = "\<lambda>a. a\<lparr>at_snapshot := (at_snapshot a)\<lparr>evidenceLevel := evidenceLevel t,
     wrongGuessesAtLevel := wrongGuessesAtLevel t, totalWrongGuesses := totalWrongGuesses t\<rparr>,
     at_version := at_version a + 1, at_updated := x\<rparr>"
  have f: "?f a = stepped a t x" using True assms(3) by (simp add: stepped_def terminal_def)
  from assms(5) have "update_returning (at_id a) ?f cl x db = Inr (v, db')"
    using True by (simp add: advance_def)
  then have u: "attempt_checks (stepped a t x)" "v = view_of (stepped a t x) cl x"
    "db' = replaced_store (stepped a t x) db"
    using update_returning_Inr [OF assms(1,2), of ?f cl x v db'] f by simp_all
  then have "stays_active db a (stepped a t x)"
    using assms(2,3) True by (simp add: stays_active_def) (simp add: terminal_def)
  from stays_store_core [OF assms(1) this] stays_moved [OF assms(1) this]
  have "store_core db' \<and> moved db db' a (stepped a t x)" unfolding u(3) by blast
  then show ?thesis using u(2,3) by (simp add: replaced_store_def)
next
  case False
  have fin: "finalize (view_of a cl sm) t x db = Inr (v, db')"
    using assms(5) False by (simp add: advance_def)
  note st = finalize_started [OF assms(1,2) fin]
  note r = finalize_run [OF assms(1-4) False st, of cl sm]
    and b = becomes_finished [OF assms(1-4) False st]
  have s: "stepped a t x = finished a t x" using False by (simp add: stepped_def)
  have v: "v = view_of (finished a t x) cl x" "db' = finalized_store (finished a t x) db"
    using fin r by auto
  show ?thesis
    using becomes_store_core [OF assms(1) b] moved_finalized [OF assms(1) b] v
    unfolding s by (simp, simp add: finalized_store_def Let_def)
qed


text \<open>What an accepted transition does to the wrong guesses.\<close>

definition guess_consistent :: "attempt_snapshot \<Rightarrow> attempt_snapshot \<Rightarrow> string option \<Rightarrow> bool" where
  "guess_consistent s t guessed \<longleftrightarrow> (state t = ACTIVE \<longrightarrow>
     totalWrongGuesses t = (if guessed = None then totalWrongGuesses s else totalWrongGuesses s + 1))"

lemma moved_sub:
  assumes "moved db db' a a'"
  shows "set (attempts db') \<subseteq> insert a' (set (attempts db))"
  using assms by (auto simp: moved_def)

lemma record_guess_effect:
  assumes "store_core db" "guesses_ok None db" "a \<in> set (attempts db)" "\<not> terminal a"
    "record_guess env (view_of a cl sm) t guessed db = Inr (u, db')"
  shows "store_core db' \<and> guesses_ok (Some (at_id a)) db' \<and>
    numbers_of db' (at_id a) =
      {1..totalWrongGuesses (at_snapshot a) + (if guessed = None then 0 else 1)} \<and>
    attempts db' = attempts db \<and> receipts db' = receipts db \<and> sessions db' = sessions db \<and>
    (\<exists>gs. guesses db' = guesses db @ gs \<and> length gs = (if guessed = None then 0 else 1))"
proof (cases guessed)
  case None
  then have "db' = db" using assms(5) by (simp add: record_guess_def)
  then show ?thesis
    using assms(1-4) guesses_ok_skip None by (auto simp: guesses_ok_def)
next
  case (Some e)
  let ?n = "totalWrongGuesses (at_snapshot a) + 1"
  let ?g = "\<lparr>gs_id = uuid_guess env, gs_attempt = at_id a, gs_revision = at_revision a, gs_number = ?n,
     gs_entity = e, gs_correct = (state t = SOLVED), gs_level = evidenceLevel (at_snapshot a),
     gs_at = now_sample env\<rparr>"
  from assms(5) have c: "\<not> list_ex (\<lambda>x. gs_id x = uuid_guess env \<or> gs_attempt x = at_id a \<and> gs_number x = ?n) (guesses db)"
    "1 \<le> ?n" "?n \<le> 15" and db': "db' = insert_participation (at_guest a) (now_sample env) (db\<lparr>guesses := guesses db @ [?g]\<rparr>)"
    by (auto simp: record_guess_def Some tx_Inr insert_guess_def)
  have old: "numbers_of db (at_id a) = {1..totalWrongGuesses (at_snapshot a)}"
    using assms(2-4) by (simp add: guesses_ok_def)
  have g: "guesses db' = guesses db @ [?g]" "attempts db' = attempts db" by (simp_all add: db')
  have n: "numbers_of db' i = (if i = at_id a then insert ?n (numbers_of db i) else numbers_of db i)" for i
  proof -
    have "{x \<in> set (guesses db'). gs_attempt x = i} = (if i = at_id a
        then insert ?g {x \<in> set (guesses db). gs_attempt x = i} else {x \<in> set (guesses db). gs_attempt x = i})"
      by (auto simp: g)
    then show ?thesis by (simp add: numbers_of_def)
  qed
  have "{1..?n} = insert ?n {1..totalWrongGuesses (at_snapshot a)}" using c(2) by auto
  then have "numbers_of db' (at_id a) = {1..?n}" using old n by simp
  moreover have "guesses_ok (Some (at_id a)) db'"
    using assms(2,3) c unfolding guesses_ok_def g n by (auto simp: list_ex_iff)
  moreover have "store_core db'" using assms(1) by (simp add: db')
  ultimately show ?thesis using Some by (simp add: db')
qed

lemma insert_receipt_Inr:
  "insert_receipt env r db = Inr (u, db') \<longleftrightarrow>
    (\<forall>x \<in> set (receipts db). rc_id x \<noteq> rc_id r \<and> (rc_guest x, rc_key x) \<noteq> (rc_guest r, rc_key r)) \<and>
    session_live_at (now_receipt env) (rc_guest r) (rc_session r) db \<and> 0 \<le> rc_version r \<and>
    db' = db\<lparr>receipts := receipts db @ [r]\<rparr>"
  by (auto simp: insert_receipt_def tx_Inr list_ex_iff)

lemma receipts_ok_snoc:
  assumes "receipts_ok db" "\<forall>x \<in> set (receipts db). (rc_guest x, rc_key x) \<noteq> (rc_guest r, rc_key r)"
    "outcome_fits (rc_kind r) (rc_outcome r)" "a \<in> set (attempts db)" "at_id a = rc_attempt r"
    "at_guest a = rc_guest r" "rc_version r \<le> at_version a"
  shows "receipts_ok (db\<lparr>receipts := receipts db @ [r]\<rparr>)"
proof -
  have "(rc_guest r, rc_key r) \<notin> (\<lambda>r. (rc_guest r, rc_key r)) ` set (receipts db)"
  proof
    assume "(rc_guest r, rc_key r) \<in> (\<lambda>r. (rc_guest r, rc_key r)) ` set (receipts db)"
    then obtain x where x: "x \<in> set (receipts db)" "(rc_guest r, rc_key r) = (rc_guest x, rc_key x)"
      by (rule imageE)
    from assms(2) x(1) have "(rc_guest x, rc_key x) \<noteq> (rc_guest r, rc_key r)" by (rule bspec)
    then show False using x(2) by (rule notE [OF _ sym])
  qed
  then have "distinct (map (\<lambda>r. (rc_guest r, rc_key r)) (receipts db @ [r]))"
    using assms(1) by (simp add: receipts_ok_def)
  moreover have "\<exists>a \<in> set (attempts db). at_id a = rc_attempt r \<and> at_guest a = rc_guest r \<and> rc_version r \<le> at_version a"
    using assms(4-7) by blast
  ultimately show ?thesis using assms(1,3) by (simp add: receipts_ok_def)
qed

lemma guesses_ok_receipts [simp]: "guesses_ok s (db\<lparr>receipts := x\<rparr>) = guesses_ok s db"
  by (simp add: guesses_ok_def numbers_of_def)

definition command_receipt ::
  "store_env \<Rightarrow> command_request \<Rightarrow> gameplay_command \<Rightarrow> string \<Rightarrow> outcome_code \<Rightarrow> attempt_row \<Rightarrow> receipt_row" where
  "command_receipt env req c fp outcome a' = \<lparr>rc_id = uuid_receipt env, rc_guest = cr_guest req,
     rc_session = cr_session req, rc_key = cr_key req, rc_fingerprint = fp, rc_kind = command_kind c,
     rc_outcome = outcome, rc_attempt = at_id a', rc_version = at_version a'\<rparr>"

lemma commit_effect:
  assumes "store_ok db" "a \<in> set (attempts db)" "\<not> terminal a" "at_guest a = cr_guest req"
    "valid_snapshot t" "guess_consistent (at_snapshot a) t guessed"
    "outcome_fits (command_kind c) outcome"
    "commit_transition env req c fp (view_of a cl sm) t outcome guessed db = Inr (res, db')"
  defines "a' \<equiv> stepped a t (now_sample env)"
  shows "store_ok db' \<and> (\<exists>xs ys. attempts db = xs @ a # ys \<and> attempts db' = xs @ a' # ys) \<and>
    receipts db' = receipts db @ [command_receipt env req c fp outcome a'] \<and>
    (\<exists>gs. guesses db' = guesses db @ gs \<and> length gs = (if guessed = None then 0 else 1)) \<and>
    (\<exists>p. res = CommandOk outcome p False \<and> hydrateProjection env (view_of a' cl (now_sample env)) (cr_guest req) db' = Inr p)"
proof -
  from assms(8) obtain u db1 v db2 u3 db3 p where s1: "record_guess env (view_of a cl sm) t guessed db = Inr (u, db1)"
    and s2: "advance (view_of a cl sm) t (now_sample env) db1 = Inr (v, db2)"
    and s3: "insert_receipt env \<lparr>rc_id = uuid_receipt env, rc_guest = cr_guest req,
      rc_session = cr_session req, rc_key = cr_key req, rc_fingerprint = fp,
      rc_kind = command_kind c, rc_outcome = outcome, rc_attempt = vw_id v,
      rc_version = vw_version v\<rparr> db2 = Inr (u3, db3)"
    and s4: "db' = db3" "res = CommandOk outcome p False" "hydrateProjection env v (cr_guest req) db3 = Inr p"
    unfolding commit_transition_def by (auto simp: tx_Inr projectT_Inr)
  have ok: "store_core db" "guesses_ok None db" "receipts_ok db" using assms(1) by (auto simp: store_ok_def)
  note r1 = record_guess_effect [OF ok(1,2) assms(2,3) s1]
  have a1: "a \<in> set (attempts db1)" "store_core db1" using r1 assms(2) by auto
  note r2 = advance_effect [OF a1(2,1) assms(3,5) s2, folded a'_def]
  then have m: "moved db1 db2 a a'" and core2: "store_core db2" and v: "v = view_of a' cl (now_sample env)" by auto
  have db3: "db3 = db2\<lparr>receipts := receipts db2 @ [command_receipt env req c fp outcome a']\<rparr>"
    and new: "\<forall>x \<in> set (receipts db2). (rc_guest x, rc_key x) \<noteq> (cr_guest req, cr_key req)"
    using s3 by (auto simp: insert_receipt_Inr v command_receipt_def)
  have d1: "distinct (map at_id (attempts db1))" using a1(2) by (simp add: store_core_def attempts_ok_def)
  have t': "at_snapshot a' = t" "at_id a' = at_id a" "at_guest a' = at_guest a" by (simp_all add: a'_def)
  have "numbers_of db1 (at_id a) = {1..totalWrongGuesses (at_snapshot a')}" if "\<not> terminal a'"
  proof -
    have "state t = ACTIVE" using that by (simp add: terminal_def t')
    then show ?thesis using r1 assms(6) by (simp add: t' guess_consistent_def)
  qed
  then have g2: "guesses_ok None db2" using r1 by (intro moved_guesses_ok [OF m _ d1]) auto
  have "receipts_ok db1" using ok(3) r1 by (simp add: receipts_ok_def)
  then have "receipts_ok db2" by (rule moved_receipts_ok [OF m])
  moreover have "a' \<in> set (attempts db2)" using m by (auto simp: moved_def)
  ultimately have "receipts_ok db3"
    unfolding db3 using new assms(4,7)
    by (intro receipts_ok_snoc [of _ _ a']) (auto simp: command_receipt_def t')
  then have "store_ok db'" using core2 g2 by (simp add: store_ok_def s4 db3)
  moreover have "guesses db' = guesses db1" "receipts db2 = receipts db"
    using m r1 by (simp_all add: s4 db3 moved_def)
  moreover have "\<exists>xs ys. attempts db = xs @ a # ys \<and> attempts db' = xs @ a' # ys"
    using m r1 by (simp add: s4 db3 moved_def)
  ultimately show ?thesis using r1 s4 v by (simp add: db3)
qed


section \<open>The cases of a command\<close>

text \<open>The command of the domain's engine that a gameplay command stands for.\<close>

fun engine_of :: "game_db \<Rightarrow> string \<Rightarrow> gameplay_command \<Rightarrow> engine_command option" where
  "engine_of db rid (Guess name) = map_option (\<lambda>(correct, e). CGuess correct) (find_entity rid name db)"
| "engine_of db rid Reveal = Some CReveal"
| "engine_of db rid GiveUp = Some CGiveUp"

fun outcome_of :: "engine_command \<Rightarrow> outcome_code" where
  "outcome_of (CGuess correct) = (if correct then O_CORRECT else O_WRONG)"
| "outcome_of CReveal = O_REVEALED"
| "outcome_of CGiveUp = O_GIVEN_UP"
| "outcome_of CExpire = O_GIVEN_UP"

lemma command_transition_engine:
  assumes "command_transition (view_of a cl sm) c db = Some (r, outcome, guessed)"
  obtains ec where "engine_of db (at_revision a) c = Some ec" "r = transition (at_snapshot a) ec"
    "outcome = outcome_of ec" "outcome_fits (command_kind c) outcome"
    "guessed = None \<longleftrightarrow> (\<nexists>b. ec = CGuess b)"
proof (cases c)
  case (Guess name)
  with assms obtain correct e where f: "find_entity (at_revision a) name db = Some (correct, e)"
    "r = applyGuess (at_snapshot a) correct" "outcome = (if correct then O_CORRECT else O_WRONG)"
    "guessed = Some e"
    by (auto simp: snapshot_def split: option.splits)
  then show thesis using that [of "CGuess correct"] Guess by simp
next
  case Reveal
  then show thesis using that [of CReveal] assms by (auto simp: snapshot_def)
next
  case GiveUp
  then show thesis using that [of CGiveUp] assms by (auto simp: snapshot_def)
qed

lemma transition_guess_consistent:
  assumes "transition s ec = Inr (Accepted t q)" "guessed = None \<longleftrightarrow> (\<nexists>b. ec = CGuess b)"
  shows "guess_consistent s t guessed"
  using assms
  by (cases ec) (auto simp: guess_consistent_def transition_defs result_simps split: if_splits)

text \<open>A committed command: which attempt, in which state, takes which transition.\<close>

definition commits ::
  "store_env \<Rightarrow> command_request \<Rightarrow> game_db \<Rightarrow> attempt_row \<Rightarrow> int \<Rightarrow> engine_command \<Rightarrow> attempt_snapshot \<Rightarrow> bool" where
  "commits env req db a cl ec t \<longleftrightarrow>
    a \<in> set (attempts db) \<and> at_id a = cr_attempt req \<and> at_guest a = cr_guest req \<and>
    state (at_snapshot a) = ACTIVE \<and>
    (\<exists>r \<in> set (revisions db). rv_id r = at_revision a \<and> cl = rv_closes r) \<and> now_sample env < cl \<and>
    int_number (at_version a) = cr_expectedVersion req \<and>
    receipt (cr_guest req) (cr_key req) db = None \<and>
    (\<exists>c q. decode_command (cr_command req) = Some c \<and> engine_of db (at_revision a) c = Some ec \<and>
       transition (at_snapshot a) ec = Inr (Accepted t q))"

lemma apply_command_cases:
  assumes "store_ok db" "a \<in> set (attempts db)" "at_guest a = cr_guest req"
    "decode_command (cr_command req) = Some c"
    "apply_command env req c fp (view_of a cl sm) db = Inr (res, db')"
  shows "(\<exists>code x. res = CommandRejected code x) \<and> db' = db \<or>
    (\<exists>ec t q p gs. state (at_snapshot a) = ACTIVE \<and> int_number (at_version a) = cr_expectedVersion req \<and>
       engine_of db (at_revision a) c = Some ec \<and> transition (at_snapshot a) ec = Inr (Accepted t q) \<and>
       res = CommandOk (outcome_of ec) p False \<and> store_ok db' \<and>
       (\<exists>xs ys. attempts db = xs @ a # ys \<and> attempts db' = xs @ stepped a t (now_sample env) # ys) \<and>
       receipts db' = receipts db @ [command_receipt env req c fp (outcome_of ec) (stepped a t (now_sample env))] \<and>
       guesses db' = guesses db @ gs \<and> length gs = (if \<exists>b. ec = CGuess b then 1 else 0) \<and>
       hydrateProjection env (view_of (stepped a t (now_sample env)) cl (now_sample env)) (cr_guest req) db' = Inr p)"
proof -
  let ?v = "view_of a cl sm"
  note run = assms(5) [unfolded apply_command_def]
  consider (closed) "state (at_snapshot a) \<noteq> ACTIVE" | (stale) "int_number (at_version a) \<noteq> cr_expectedVersion req"
    | (unknown) "command_transition ?v c db = None"
    | (step) r outcome guessed where "state (at_snapshot a) = ACTIVE"
        "int_number (at_version a) = cr_expectedVersion req"
        "command_transition ?v c db = Some (r, outcome, guessed)"
    by (cases "command_transition ?v c db") auto
  then show ?thesis
  proof cases
    case closed
    then show ?thesis using run by (auto simp: reject_with_def tx_Inr projectT_Inr)
  next
    case stale
    then show ?thesis using run by (auto simp: reject_with_def tx_Inr projectT_Inr split: if_splits)
  next
    case unknown
    then show ?thesis using run by (auto simp: reject_with_def tx_Inr projectT_Inr split: if_splits)
  next
    case step
    obtain ec where ec: "engine_of db (at_revision a) c = Some ec" "r = transition (at_snapshot a) ec"
      "outcome = outcome_of ec" "outcome_fits (command_kind c) outcome"
      "guessed = None \<longleftrightarrow> (\<nexists>b. ec = CGuess b)"
      using command_transition_engine [OF step(3)] .
    from run step obtain tr where tr: "transition (at_snapshot a) ec = Inr tr"
      "(case tr of Rejected reason _ \<Rightarrow> reject_with env req ?v (rejection_of reason)
         | Accepted t _ \<Rightarrow> commit_transition env req c fp ?v t outcome guessed) db = Inr (res, db')"
      by (auto simp: tx_Inr ec(2) [symmetric])
    show ?thesis
    proof (cases tr)
      case (Rejected reason s)
      then show ?thesis using tr(2) by (auto simp: reject_with_def tx_Inr projectT_Inr)
    next
      case (Accepted t q)
      have "\<not> terminal a" using step(1) by (simp add: terminal_def)
      moreover have "valid_snapshot t" using tr(1) Accepted transition_accepted_valid by blast
      moreover have "guess_consistent (at_snapshot a) t guessed"
        using transition_guess_consistent ec(5) tr(1) Accepted by blast
      ultimately show ?thesis
        using commit_effect [OF assms(1,2) _ assms(3) _ _ ec(4), of t guessed env fp cl sm res db']
          tr Accepted step ec by (auto split: if_splits)
    qed
  qed
qed

end
