(* ===== verification/Gameplay_Properties.thy ===== *)
theory Gameplay_Properties
  imports Gameplay_Correct
begin

text \<open>
  What a client of the gameplay transactions can rely on: the store stays consistent through every
  sequence of operations, a committed command is one transition of the engine on the caller's own
  attempt, retries are idempotent, and the key of a command is not reusable for another.
\<close>

section \<open>The cases of executeGameplayCommand\<close>

lemma read_settled_effect:
  assumes "store_ok db" "a \<in> set (attempts db)" "at_started a < cl"
    "read_settled env (view_of a cl sm) g db = Inr (p, db')"
  shows "db' = settle_store (now_sample env) cl a db"
  using assms expire_run [of db a cl sm "now_sample env"]
  by (auto simp: read_settled_def tx_Inr projectT_Inr store_ok_def)

lemma read_settled_projects:
  assumes "store_ok db" "a \<in> set (attempts db)" "at_started a < cl"
    "read_settled env (view_of a cl sm) g db = Inr (p, db')"
  shows "\<exists>sm'. hydrateProjection env (view_of (settle (now_sample env) cl a) cl sm') g db' = Inr p"
  using assms expire_run [of db a cl sm "now_sample env"]
  by (auto simp: read_settled_def tx_Inr projectT_Inr store_ok_def)

lemma execute_cases:
  assumes "store_ok db" "executeGameplayCommand env req db = Inr (res, db')"
  obtains
    (refused) code x where "res = CommandRejected code x" "db' = db"
  | (settled) a cl code x where "a \<in> set (attempts db)" "at_id a = cr_attempt req" "at_guest a = cr_guest req"
      "at_started a < cl" "\<exists>r \<in> set (revisions db). rv_id r = at_revision a \<and> cl = rv_closes r"
      "res = CommandRejected code x" "db' = settle_store (now_sample env) cl a db"
  | (replayed) a cl r p where "a \<in> set (attempts db)" "at_id a = cr_attempt req" "at_guest a = cr_guest req"
      "at_started a < cl" "\<exists>r \<in> set (revisions db). rv_id r = at_revision a \<and> cl = rv_closes r"
      "receipt (cr_guest req) (cr_key req) db = Some r" "commandFingerprint env req = Some (rc_fingerprint r)"
      "rc_attempt r = cr_attempt req"
      "res = CommandOk (rc_outcome r) p True" "db' = settle_store (now_sample env) cl a db"
      "\<exists>sm. hydrateProjection env (view_of (settle (now_sample env) cl a) cl sm) (cr_guest req) db' = Inr p"
      "rc_outcome r \<noteq> O_STARTED"
  | (committed) a cl c ec t fp p gs where "commits env req db a cl ec t" "decode_command (cr_command req) = Some c"
      "commandFingerprint env req = Some fp" "res = CommandOk (outcome_of ec) p False" "store_ok db'"
      "\<exists>xs ys. attempts db = xs @ a # ys \<and> attempts db' = xs @ stepped a t (now_sample env) # ys"
      "receipts db' = receipts db @ [command_receipt env req c fp (outcome_of ec) (stepped a t (now_sample env))]"
      "guesses db' = guesses db @ gs" "length gs = (if \<exists>b. ec = CGuess b then 1 else 0)"
      "hydrateProjection env (view_of (stepped a t (now_sample env)) cl (now_sample env)) (cr_guest req) db' = Inr p"
proof -
  have core: "store_core db" using assms(1) by (simp add: store_ok_def)
  note run = assms(2) [unfolded executeGameplayCommand_def]
  show thesis
  proof (cases "\<not> validateKey (cr_key req) \<or> \<not> is_safe_integer (cr_expectedVersion req) \<or>
      js_floor (cr_expectedVersion req) < 0 \<or>
      \<not> (lockGuest (cr_guest req) db \<and> sessionIsLive env (cr_guest req) (cr_session req) db) \<or>
      decode_command (cr_command req) = None")
    case True
    have "(\<exists>code x. res = CommandRejected code x) \<and> db' = db"
      using True run
      by (cases "decode_command (cr_command req)")
        (auto simp: tx_Inr commandFingerprint_def split: if_splits)
    then show thesis using refused by blast
  next
    case False
    then obtain c where c: "decode_command (cr_command req) = Some c" by auto
    then obtain fp where fp: "commandFingerprint env req = Some fp" by (simp add: commandFingerprint_def)
    show thesis
    proof (cases "receipt (cr_guest req) (cr_key req) db")
      case (Some r)
      with run False c fp have replay: "replay_command env req c fp r db = Inr (res, db')"
        by (simp add: bindT_def)
      show thesis
      proof (cases "rc_fingerprint r \<noteq> fp \<or> rc_attempt r \<noteq> cr_attempt req")
        case True
        then show thesis using replay refused by (auto simp: replay_command_def)
      next
        case same: False
        show thesis
        proof (cases "attemptRow env (cr_attempt req) (cr_guest req) db")
          case None
          then show thesis using replay same refused by (auto simp: replay_command_def bindT_def)
        next
          case (Some v)
          obtain a cl where a: "a \<in> set (attempts db)" "at_id a = cr_attempt req" "at_guest a = cr_guest req"
            "at_started a < cl" "\<exists>r \<in> set (revisions db). rv_id r = at_revision a \<and> cl = rv_closes r"
            "v = view_of a cl (now_row env)" using attemptRow_Some [OF core Some] .
          from replay same Some obtain p where "read_settled env v (cr_guest req) db = Inr (p, db')"
            and "res = CommandOk (rc_outcome r) p True" and "rc_outcome r \<noteq> O_STARTED"
            by (auto simp: replay_command_def tx_Inr commandReceiptOutcome_def Let_def split: if_splits)
          then show thesis
            using replayed [OF a(1-5) \<open>receipt (cr_guest req) (cr_key req) db = Some r\<close>, of p] same fp
              read_settled_effect [OF assms(1) a(1,4)] read_settled_projects [OF assms(1) a(1,4)] a(6) by auto
        qed
      qed
    next
      case none: None
      show thesis
      proof (cases "attemptRow env (cr_attempt req) (cr_guest req) db")
        case None
        then show thesis using run False c fp none refused by (auto simp: bindT_def)
      next
        case (Some v)
        obtain a cl where a: "a \<in> set (attempts db)" "at_id a = cr_attempt req" "at_guest a = cr_guest req"
          "at_started a < cl" "\<exists>r \<in> set (revisions db). rv_id r = at_revision a \<and> cl = rv_closes r"
          "v = view_of a cl (now_row env)" using attemptRow_Some [OF core Some] .
        let ?b = "settle (now_sample env) cl a" and ?db1 = "settle_store (now_sample env) cl a db"
        obtain sm where ex: "expireIfClosed v (now_sample env) db = Inr (view_of ?b cl sm, ?db1)"
          using expire_run [OF core a(1,4)] a(6) by blast
        have b: "store_ok ?db1" "?b \<in> set (attempts ?db1)" "at_guest ?b = cr_guest req"
          using settle_store_ok [OF assms(1) a(1,4)] settle_member [OF core a(1,4)] a(3)
          by (auto simp: settle_def)
        have "apply_command env req c fp (view_of ?b cl sm) ?db1 = Inr (res, db')"
          using run False c fp none Some ex by (simp add: bindT_def)
        from apply_command_cases [OF b c this] show thesis
        proof (elim disjE exE conjE)
          fix code x
          assume "res = CommandRejected code x" "db' = ?db1"
          then show thesis using settled [OF a(1-5)] by blast
        next
          fix ec t q p gs xs ys
          assume s: "state (at_snapshot ?b) = ACTIVE" and r: "int_number (at_version ?b) = cr_expectedVersion req"
            "engine_of ?db1 (at_revision ?b) c = Some ec" "transition (at_snapshot ?b) ec = Inr (Accepted t q)"
            "res = CommandOk (outcome_of ec) p False" "store_ok db'" "attempts ?db1 = xs @ ?b # ys"
            "attempts db' = xs @ stepped ?b t (now_sample env) # ys"
            "receipts db' = receipts ?db1 @ [command_receipt env req c fp (outcome_of ec) (stepped ?b t (now_sample env))]"
            "guesses db' = guesses ?db1 @ gs" "length gs = (if \<exists>b. ec = CGuess b then 1 else 0)"
            "hydrateProjection env (view_of (stepped ?b t (now_sample env)) cl (now_sample env)) (cr_guest req) db' = Inr p"
          from settle_active [OF s, of db] have e: "?b = a" "?db1 = db" "now_sample env < cl" by auto
          have "commits env req db a cl ec t"
            using a r(1-3) s none c e(3) unfolding commits_def e(1,2) by blast
          then show thesis using committed [OF _ c fp r(4,5)] r(6-11) unfolding e(1,2) by blast
        qed
      qed
    qed
  qed
qed


section \<open>Starting an attempt\<close>

lemma currentRevision_Some:
  assumes "currentRevision now db = Some r"
  shows "r \<in> set (revisions db) \<and> rv_published r \<and> rv_opens r \<le> now \<and> now < rv_closes r"
proof -
  let ?open = "filter (\<lambda>r. rv_published r \<and> rv_opens r \<le> now \<and> now < rv_closes r) (revisions db)"
  from assms obtain rs where "js_sort (\<lambda>a b. rv_opens b - rv_opens a) ?open = r # rs"
    by (auto simp: currentRevision_def split: list.splits)
  then have "r \<in> set (js_sort (\<lambda>a b. rv_opens b - rv_opens a) ?open)" by (metis list.set_intros(1))
  then show ?thesis by simp
qed

definition fresh_attempt :: "store_env \<Rightarrow> string \<Rightarrow> revision_row \<Rightarrow> attempt_row" where
  "fresh_attempt env g r = \<lparr>at_id = uuid_attempt env, at_guest = g, at_revision = rv_id r, at_slot = rv_slot r,
     at_snapshot = initial_attempt, at_version = 0, at_started = now_sample env,
     at_updated = now_sample env, at_terminal = None\<rparr>"

lemma append_store_ok:
  assumes "store_ok db" "currentRevision (now_sample env) db = Some r" "lockGuest g db"
    "find (\<lambda>a. at_guest a = g \<and> at_slot a = rv_slot r) (attempts db) = None"
    "uuid_attempt env \<notin> at_id ` set (attempts db)"
  shows "store_ok (db\<lparr>attempts := attempts db @ [fresh_attempt env g r]\<rparr>)"
proof -
  let ?a = "fresh_attempt env g r"
  let ?db = "db\<lparr>attempts := attempts db @ [?a]\<rparr>"
  have core: "store_core db" using assms(1) by (simp add: store_ok_def)
  have a: "at_id ?a = uuid_attempt env" "at_guest ?a = g" "at_slot ?a = rv_slot r" "at_revision ?a = rv_id r"
    "at_started ?a = now_sample env" "at_snapshot ?a = initial_attempt" "\<not> terminal ?a" "attempt_checks ?a"
    using initial_attempt_valid
    by (simp_all add: fresh_attempt_def terminal_def attempt_checks_def initial_attempt_def)
  note r = currentRevision_Some [OF assms(2)]
  have new: "(g, rv_slot r) \<notin> (\<lambda>a. (at_guest a, at_slot a)) ` set (attempts db)"
    using assms(4) by (auto simp: find_None_key)
  have guest: "g \<in> g_id ` set (guests db)" using assms(3) by (auto simp: lockGuest_def list_ex_iff)
  have rev: "\<exists>r' \<in> set (revisions db). rv_id r' = rv_id r \<and> rv_published r' \<and> rv_slot r' = rv_slot r \<and>
      now_sample env < rv_closes r'" using r by blast
  have attempts: "attempts_ok ?db"
    using core a new assms(5) guest rev unfolding store_core_def attempts_ok_def by simp
  have t: "terminals ?db = terminals db" "solved_attempts ?db = solved_attempts db"
    using a(6,7) by (auto simp: terminals_def solved_attempts_def initial_attempt_def)
  have f: "regions_of ?db = regions_of db" "entry_of ?db = entry_of db" "case_of ?db = case_of db"
    "complete_revision ?db = complete_revision db"
    by (simp_all add: fun_eq_iff regions_of_def entry_of_def pseudonym_of_def case_of_def
        complete_revision_def evidence_of_def answer_of_def)
  have "cases_of ?db x = cases_of db x" for x using a(7) by (simp add: cases_of_def f)
  then have "store_core ?db"
    using core attempts by (simp add: store_core_def content_ok_def derived_ok_def knowledge_ok_def t f)
  moreover have "guesses_ok None ?db"
  proof -
    have old: "guesses_ok None db" using assms(1) by (simp add: store_ok_def)
    then have "\<forall>g \<in> set (guesses db). gs_attempt g \<noteq> uuid_attempt env"
      using assms(5) unfolding guesses_ok_def by metis
    then have "{g \<in> set (guesses db). gs_attempt g = uuid_attempt env} = {}" by blast
    then have "numbers_of db (uuid_attempt env) = {1..totalWrongGuesses initial_attempt}"
      by (simp add: numbers_of_def initial_attempt_def)
    moreover have "numbers_of ?db = numbers_of db" by (simp add: numbers_of_def fun_eq_iff)
    ultimately show ?thesis using old a(1,6) by (simp add: guesses_ok_def)
  qed
  moreover have "receipts_ok ?db"
    using assms(1) by (auto simp: store_ok_def receipts_ok_def)
  ultimately show ?thesis by (simp add: store_ok_def)
qed

lemma insert_attempt_effect:
  assumes "store_ok db" "currentRevision (now_sample env) db = Some r" "lockGuest g db"
    "insert_attempt env g r db = Inr (i, db')"
  shows "store_ok db' \<and> receipts db' = receipts db \<and> guesses db' = guesses db \<and>
    (\<exists>a \<in> set (attempts db'). at_id a = i \<and> at_guest a = g \<and> at_slot a = rv_slot r) \<and>
    (attempts db' = attempts db \<or>
     (\<forall>a \<in> set (attempts db). (at_guest a, at_slot a) \<noteq> (g, rv_slot r)) \<and>
     attempts db' = attempts db @ [fresh_attempt env g r])"
proof (cases "find (\<lambda>a. at_guest a = g \<and> at_slot a = rv_slot r) (attempts db)")
  case (Some a)
  then have "i = at_id a" "db' = db" using assms(4) by (auto simp: insert_attempt_def tx_Inr)
  then show ?thesis using assms(1) find_Some_key [OF Some] by blast
next
  case None
  let ?db = "db\<lparr>attempts := attempts db @ [fresh_attempt env g r]\<rparr>"
  from None assms(4) have i: "i = uuid_attempt env" "db' = ?db"
    "uuid_attempt env \<notin> at_id ` set (attempts db)"
    by (auto simp: insert_attempt_def tx_Inr fresh_attempt_def list_ex_iff)
  have ok: "store_ok ?db" using append_store_ok [OF assms(1-3) None i(3)] .
  have "\<forall>a \<in> set (attempts db). (at_guest a, at_slot a) \<noteq> (g, rv_slot r)"
    using None by (auto simp: find_None_key)
  moreover have "at_id (fresh_attempt env g r) = i" "at_guest (fresh_attempt env g r) = g"
    "at_slot (fresh_attempt env g r) = rv_slot r"
    by (simp_all add: fresh_attempt_def i)
  ultimately show ?thesis using ok unfolding i(2) by auto
qed

lemma start_cases:
  assumes "store_ok db" "startCurrentAttempt env req db = Inr (res, db')"
  obtains
    (refused) code x where "res = CommandRejected code x" "db' = db"
  | (replayed) a cl r p where "a \<in> set (attempts db)" "at_id a = rc_attempt r" "at_guest a = sr_guest req"
      "at_started a < cl" "receipt (sr_guest req) (sr_key req) db = Some r"
      "res = CommandOk O_STARTED p True" "db' = settle_store (now_sample env) cl a db"
      "\<exists>sm. hydrateProjection env (view_of (settle (now_sample env) cl a) cl sm) (sr_guest req) db' = Inr p"
      "\<exists>r \<in> set (revisions db). rv_id r = at_revision a \<and> cl = rv_closes r"
  | (started) r a p where "currentRevision (now_sample env) db = Some r" "store_ok db'"
      "receipt (sr_guest req) (sr_key req) db = None"
      "a \<in> set (attempts db')" "at_guest a = sr_guest req" "at_slot a = rv_slot r"
      "attempts db' = attempts db \<or>
       (\<forall>a \<in> set (attempts db). (at_guest a, at_slot a) \<noteq> (sr_guest req, rv_slot r)) \<and>
       attempts db' = attempts db @ [fresh_attempt env (sr_guest req) r]"
      "receipts db' = receipts db @ [\<lparr>rc_id = uuid_receipt env, rc_guest = sr_guest req,
         rc_session = sr_session req, rc_key = sr_key req, rc_fingerprint = startFingerprint env,
         rc_kind = K_START, rc_outcome = O_STARTED, rc_attempt = at_id a, rc_version = at_version a\<rparr>]"
      "guesses db' = guesses db" "res = CommandOk O_STARTED p False"
      "\<exists>cl sm. hydrateProjection env (view_of a cl sm) (sr_guest req) db' = Inr p \<and> at_started a < cl \<and>
        (\<exists>r \<in> set (revisions db'). rv_id r = at_revision a \<and> cl = rv_closes r)"
proof -
  have core: "store_core db" using assms(1) by (simp add: store_ok_def)
  note run = assms(2) [unfolded startCurrentAttempt_def]
  show thesis
  proof (cases "\<not> validateKey (sr_key req) \<or>
      \<not> (lockGuest (sr_guest req) db \<and> sessionIsLive env (sr_guest req) (sr_session req) db)")
    case True
    then show thesis using run refused by (auto simp: tx_Inr split: if_splits)
  next
    case live: False
    show thesis
    proof (cases "receipt (sr_guest req) (sr_key req) db")
      case (Some r)
      with run live have rep: "replay_start env req r db = Inr (res, db')" by (simp add: bindT_def)
      show thesis
      proof (cases "rc_fingerprint r \<noteq> startFingerprint env \<or> rc_kind r \<noteq> K_START \<or>
          attemptRow env (rc_attempt r) (sr_guest req) db = None")
        case True
        then show thesis using rep refused by (auto simp: replay_start_def tx_Inr split: if_splits)
      next
        case False
        then obtain v where v: "attemptRow env (rc_attempt r) (sr_guest req) db = Some v" by blast
        obtain a cl where a: "a \<in> set (attempts db)" "at_id a = rc_attempt r" "at_guest a = sr_guest req"
          "at_started a < cl" "v = view_of a cl (now_row env)"
          "\<exists>r \<in> set (revisions db). rv_id r = at_revision a \<and> cl = rv_closes r"
          using attemptRow_Some [OF core v] by metis
        from rep False v obtain p where "read_settled env v (sr_guest req) db = Inr (p, db')"
          "res = CommandOk O_STARTED p True"
          by (auto simp: replay_start_def tx_Inr split: if_splits)
        then show thesis
          using replayed [OF a(1-4) Some] read_settled_effect [OF assms(1) a(1,4)] read_settled_projects [OF assms(1) a(1,4)]
            a(5,6) by blast
      qed
    next
      case None
      show thesis
      proof (cases "currentRevision (now_sample env) db")
        case none: None
        then show thesis using run live None refused by (auto simp: bindT_def)
      next
        case (Some r)
        with run live None obtain i db1 v db2 p u where s: "insert_attempt env (sr_guest req) r db = Inr (i, db1)"
          "attemptRow env i (sr_guest req) db1 = Some v"
          "insert_receipt env \<lparr>rc_id = uuid_receipt env, rc_guest = sr_guest req, rc_session = sr_session req,
             rc_key = sr_key req, rc_fingerprint = startFingerprint env, rc_kind = K_START,
             rc_outcome = O_STARTED, rc_attempt = i, rc_version = vw_version v\<rparr> db1 = Inr (u, db2)"
          "res = CommandOk O_STARTED p False" "db' = db2" "hydrateProjection env v (sr_guest req) db2 = Inr p"
          by (auto simp: tx_Inr projectT_Inr split: option.splits)
        have guest: "lockGuest (sr_guest req) db" using live by simp
        note ins = insert_attempt_effect [OF assms(1) Some guest s(1)]
        then have core1: "store_core db1" and ok1: "guesses_ok None db1" "receipts_ok db1"
          by (auto simp: store_ok_def)
        obtain a cl where a: "a \<in> set (attempts db1)" "at_id a = i" "at_guest a = sr_guest req"
          "v = view_of a cl (now_row env)" "at_started a < cl"
          "\<exists>r \<in> set (revisions db1). rv_id r = at_revision a \<and> cl = rv_closes r"
          using attemptRow_Some [OF core1 s(2)] by metis
        obtain b where b: "b \<in> set (attempts db1)" "at_id b = i" "at_slot b = rv_slot r" using ins by blast
        have "b = a" using a(1,2) b core1 distinct_key_eq [of at_id]
          unfolding store_core_def attempts_ok_def by metis
        then have slot: "at_slot a = rv_slot r" using b(3) by simp
        let ?rc = "\<lparr>rc_id = uuid_receipt env, rc_guest = sr_guest req, rc_session = sr_session req,
             rc_key = sr_key req, rc_fingerprint = startFingerprint env, rc_kind = K_START,
             rc_outcome = O_STARTED, rc_attempt = at_id a, rc_version = at_version a\<rparr>"
        have db': "db' = db1\<lparr>receipts := receipts db1 @ [?rc]\<rparr>"
          and key: "\<forall>x \<in> set (receipts db1). (rc_guest x, rc_key x) \<noteq> (sr_guest req, sr_key req)"
          using s(3,5) a(2,4) by (auto simp: insert_receipt_Inr)
        have "receipts_ok db'"
          unfolding db' using key a by (intro receipts_ok_snoc [OF ok1(2), of _ a]) auto
        then have "store_ok db'" using core1 ok1(1) by (simp add: store_ok_def db')
        have "hydrateProjection env (view_of a cl (now_row env)) (sr_guest req) db' = Inr p"
          using s(5,6) a(4) by metis
        moreover have "revisions db' = revisions db1" by (simp add: db')
        ultimately have "\<exists>cl sm. hydrateProjection env (view_of a cl sm) (sr_guest req) db' = Inr p \<and> at_started a < cl \<and>
            (\<exists>r \<in> set (revisions db'). rv_id r = at_revision a \<and> cl = rv_closes r)"
          using a(5,6) by metis
        then show thesis using \<open>store_ok db'\<close> started [OF Some _ None, of a p] a(1-3) slot ins s(4) by (simp add: db')
      qed
    qed
  qed
qed


section \<open>A projection of one's own attempt always exists\<close>

lemma guess_history_guest: "x \<in> set (guess_history i g db) \<Longrightarrow> pg_guestId x = g"
  by (auto simp: guess_history_def split: option.splits)

lemma hydrateCase_run:
  assumes "r \<in> set (revisions db)" "rv_published r" "content_ok db"
  shows "\<exists>cf. hydrateCase env (rv_id r) db = Inr cf \<and> cf_slotId cf = rv_slot r \<and> cf_revisionId cf = rv_id r \<and>
    ordered_evidence (cf_evidence cf) \<and> cf_answerEntityId cf \<in> es_entityId ` set (cf_suggestions cf)"
proof -
  have d: "distinct (map rv_id (revisions db))" and c: "complete_revision db r"
    using assms by (simp_all add: content_ok_def)
  have f: "find (\<lambda>x. rv_id x = rv_id r \<and> rv_published x) (revisions db) = Some r"
  proof (cases "find (\<lambda>x. rv_id x = rv_id r \<and> rv_published x) (revisions db)")
    case None
    then show ?thesis using assms(1,2) by (auto simp: find_None_key)
  next
    case (Some x)
    then show ?thesis using find_Some_key [OF Some] distinct_key_eq [OF d _ assms(1), of x] by simp
  qed
  obtain e where e: "find (\<lambda>e. en_revision e = rv_id r \<and> en_id e = rv_answer r) (entities db) = Some e" "en_eligible e"
    using c by (auto simp: complete_revision_def answer_of_def)
  have e': "e \<in> set (entities db)" "en_revision e = rv_id r" using find_Some_key [OF e(1)] by auto
  have evs: "map ev_order (js_sort (\<lambda>a b. ev_order a - ev_order b)
      (filter (\<lambda>e. ev_revision e = rv_id r) (evidences db))) = [1, 2, 3, 4]"
    using c by (simp add: complete_revision_def evidence_of_def)
  have l: "length (filter (\<lambda>e. ev_revision e = rv_id r) (evidences db)) = 4"
    using arg_cong [OF evs, of length] by simp
  have "en_publicId e \<in> es_entityId ` set (map (suggestion_of env db)
      (js_sort (order_entities env) (filter (\<lambda>e. en_revision e = rv_id r \<and> en_eligible e) (entities db))))"
    using e' e(2) by (force simp: suggestion_of_def)
  then show ?thesis
    using f e evs l by (simp add: hydrateCase_def Let_def ordered_evidence_def comp_def)
qed

lemma hydrateProjection_run:
  assumes "store_core db" "a \<in> set (attempts db)"
  shows "\<exists>p. hydrateProjection env (view_of a cl sm) (at_guest a) db = Inr p"
proof -
  obtain r where r: "r \<in> set (revisions db)" "rv_id r = at_revision a" "rv_published r" "rv_slot r = at_slot a"
    using assms by (auto simp: store_core_def attempts_ok_def)
  have c: "content_ok db" using assms(1) by (simp add: store_core_def)
  obtain cf where cf: "hydrateCase env (at_revision a) db = Inr cf" "cf_slotId cf = at_slot a"
    "cf_revisionId cf = at_revision a" "ordered_evidence (cf_evidence cf)"
    "cf_answerEntityId cf \<in> es_entityId ` set (cf_suggestions cf)"
    using hydrateCase_run [OF r(1,3) c, of env] r by auto
  let ?rec = "\<lparr>pa_attemptId = at_id a, pa_ownerGuestId = at_guest a, pa_slotId = at_slot a,
     pa_revisionId = at_revision a, pa_version = at_version a, pa_startedAt = iso_timestamp (at_started a),
     pa_snapshotAt = iso_timestamp sm, pa_attempt = at_snapshot a,
     pa_guesses = guess_history (at_id a) (at_guest a) db\<rparr>"
  have v: "valid_snapshot (at_snapshot a)" using attempt_row_valid [OF assms] .
  have "may_project cf ?rec (at_guest a)"
    using cf v guess_history_guest by (auto simp: may_project_def list_all_iff)
  then have "\<exists>p. projectAttempt cf ?rec (at_guest a) = Inr p"
    using cf(5) find_None_key [of "\<lambda>s. es_entityId s = cf_answerEntityId cf" "cf_suggestions cf"]
      projectAttempt_active [of ?rec cf "at_guest a"] projectAttempt_terminal [of ?rec cf "at_guest a"]
    by (cases "state (at_snapshot a) = ACTIVE";
        cases "find (\<lambda>s. es_entityId s = cf_answerEntityId cf) (cf_suggestions cf)") auto
  then show ?thesis using cf(1) by (simp add: hydrateProjection_def Let_def snapshot_def view_of_def)
qed

lemma attemptRow_run:
  assumes "store_core db" "a \<in> set (attempts db)"
  shows "\<exists>cl. attemptRow env (at_id a) (at_guest a) db = Some (view_of a cl (now_row env)) \<and> at_started a < cl \<and>
    (\<exists>r \<in> set (revisions db). rv_id r = at_revision a \<and> cl = rv_closes r)"
proof -
  have d: "distinct (map at_id (attempts db))" using assms(1) by (simp add: store_core_def attempts_ok_def)
  obtain r where r: "r \<in> set (revisions db)" "rv_id r = at_revision a"
    using assms by (auto simp: store_core_def attempts_ok_def)
  obtain x where x: "find (\<lambda>x. at_id x = at_id a \<and> at_guest x = at_guest a) (attempts db) = Some x"
    using assms(2) by (cases "find (\<lambda>x. at_id x = at_id a \<and> at_guest x = at_guest a) (attempts db)")
      (auto simp: find_None_key)
  then have "x = a" using find_Some_key [OF x] distinct_key_eq [OF d _ assms(2), of x] by simp
  moreover obtain y where "find (\<lambda>r. rv_id r = at_revision a) (revisions db) = Some y"
    using r by (cases "find (\<lambda>r. rv_id r = at_revision a) (revisions db)") (auto simp: find_None_key)
  ultimately obtain v where v: "attemptRow env (at_id a) (at_guest a) db = Some v"
    using x by (simp add: attemptRow_def)
  from attemptRow_Some [OF assms(1) v] show ?thesis
    using v distinct_key_eq [OF d _ assms(2)] by metis
qed

lemma read_settled_run:
  assumes "store_ok db" "a \<in> set (attempts db)" "at_started a < cl"
  shows "\<exists>p. read_settled env (view_of a cl sm) (at_guest a) db =
    Inr (p, settle_store (now_sample env) cl a db)"
proof -
  have core: "store_core db" using assms(1) by (simp add: store_ok_def)
  obtain sm' where e: "expireIfClosed (view_of a cl sm) (now_sample env) db =
      Inr (view_of (settle (now_sample env) cl a) cl sm', settle_store (now_sample env) cl a db)"
    using expire_run [OF core assms(2,3)] by blast
  have "at_guest (settle (now_sample env) cl a) = at_guest a" by (simp add: settle_def)
  moreover have "store_core (settle_store (now_sample env) cl a db)"
    using settle_store_ok [OF assms] by (simp add: store_ok_def)
  ultimately obtain p where "hydrateProjection env (view_of (settle (now_sample env) cl a) cl sm') (at_guest a)
      (settle_store (now_sample env) cl a db) = Inr p"
    using hydrateProjection_run [OF _ settle_member [OF core assms(2,3)]] by metis
  then show ?thesis using e by (simp add: read_settled_def projectT_def bindT_def)
qed


section \<open>Every operation keeps the store consistent, and only moves it forward\<close>

text \<open>How a store may change: receipts are only appended, an attempt keeps its owner and slot, its
  version never goes down, and once it is over it never changes again.\<close>

definition succeeds :: "attempt_row \<Rightarrow> attempt_row \<Rightarrow> bool" where
  "succeeds a a' \<longleftrightarrow> at_id a' = at_id a \<and> at_guest a' = at_guest a \<and> at_slot a' = at_slot a \<and>
    at_version a \<le> at_version a' \<and> (terminal a \<longrightarrow> a' = a)"

definition evolves :: "game_db \<Rightarrow> game_db \<Rightarrow> bool" where
  "evolves db db' \<longleftrightarrow> (\<exists>rs. receipts db' = receipts db @ rs) \<and> (\<exists>gs. guesses db' = guesses db @ gs) \<and>
    (\<exists>as bs. attempts db' = as @ bs \<and> list_all2 succeeds (attempts db) as)"

lemma succeeds_refl: "succeeds a a"
  by (simp add: succeeds_def)

lemma succeeds_trans: "succeeds a b \<Longrightarrow> succeeds b c \<Longrightarrow> succeeds a c"
  by (auto simp: succeeds_def)

lemma evolvesI:
  "receipts db' = receipts db @ rs \<Longrightarrow> guesses db' = guesses db @ gs \<Longrightarrow> attempts db' = as @ bs \<Longrightarrow>
   list_all2 succeeds (attempts db) as \<Longrightarrow> evolves db db'"
  by (auto simp: evolves_def)

lemma succeeds_rows_refl: "list_all2 succeeds rows rows"
  by (rule list_all2_refl) (rule succeeds_refl)

lemma evolves_refl: "evolves db db"
  by (rule evolvesI [of _ _ "[]" "[]" "attempts db" "[]"]) (simp_all add: succeeds_rows_refl)

lemma evolves_trans:
  assumes "evolves db db'" "evolves db' db''"
  shows "evolves db db''"
proof -
  obtain as bs where a: "attempts db' = as @ bs" "list_all2 succeeds (attempts db) as"
    using assms(1) by (auto simp: evolves_def)
  obtain cs ds where c: "attempts db'' = cs @ ds" "list_all2 succeeds (attempts db') cs"
    using assms(2) by (auto simp: evolves_def)
  obtain as' bs' where s: "cs = as' @ bs'" "list_all2 succeeds as as'"
    using c(2) a(1) by (auto simp: list_all2_append1)
  have "list_all2 succeeds (attempts db) as'"
    by (rule list_all2_trans [OF _ a(2) s(2)]) (rule succeeds_trans)
  moreover obtain rs gs rs' gs' where "receipts db' = receipts db @ rs" "guesses db' = guesses db @ gs"
    "receipts db'' = receipts db' @ rs'" "guesses db'' = guesses db' @ gs'"
    using assms by (auto simp: evolves_def)
  ultimately show ?thesis
    using c(1) s(1) by (intro evolvesI [of _ _ "rs @ rs'" "gs @ gs'" as' "bs' @ ds"]) simp_all
qed

lemma moved_evolves:
  assumes "\<exists>xs ys. attempts db = xs @ a # ys \<and> attempts db' = xs @ a' # ys" "succeeds a a'"
    "\<exists>rs. receipts db' = receipts db @ rs" "\<exists>gs. guesses db' = guesses db @ gs"
  shows "evolves db db'"
proof -
  obtain xs ys where s: "attempts db = xs @ a # ys" "attempts db' = xs @ a' # ys" using assms(1) by blast
  have "list_all2 succeeds (attempts db) (attempts db')"
    unfolding s using assms(2) succeeds_rows_refl by (intro list_all2_appendI) simp_all
  moreover obtain rs gs where "receipts db' = receipts db @ rs" "guesses db' = guesses db @ gs"
    using assms(3,4) by blast
  ultimately show ?thesis by (intro evolvesI [of _ _ rs gs _ "[]"]) simp_all
qed

lemma settle_evolves:
  assumes "store_core db" "a \<in> set (attempts db)" "at_started a < cl"
  shows "evolves db (settle_store now cl a db)"
proof (cases "terminal a \<or> now < cl")
  case True
  then show ?thesis by (auto simp: settle_store_def evolves_refl)
next
  case False
  then have b: "becomes db a (settle now cl a)" using expire_becomes assms by blast
  have "at_version a \<le> at_version (settle now cl a)" by (simp add: settle_def)
  note m = moved_finalized [OF assms(1) b this]
  have "succeeds a (settle now cl a)" using False by (simp add: succeeds_def settle_def)
  then show ?thesis
    using m False by (intro moved_evolves [of db a _ "settle now cl a"]) (auto simp: settle_store_def moved_def)
qed

lemma execute_effect:
  assumes "store_ok db" "executeGameplayCommand env req db = Inr (res, db')"
  shows "store_ok db' \<and> evolves db db'"
proof -
  have core: "store_core db" using assms(1) by (simp add: store_ok_def)
  from assms show ?thesis
  proof (cases rule: execute_cases)
    case (refused code x)
    then show ?thesis using assms(1) evolves_refl by simp
  next
    case (settled a cl code x)
    then show ?thesis using settle_store_ok [OF assms(1)] settle_evolves [OF core] by simp
  next
    case (replayed a cl r p)
    then show ?thesis using settle_store_ok [OF assms(1)] settle_evolves [OF core] by simp
  next
    case (committed a cl c ec t fp p gs)
    have "succeeds a (stepped a t (now_sample env))"
      using committed(1) by (simp add: succeeds_def commits_def terminal_def)
    then show ?thesis using committed by (auto intro!: moved_evolves [of db a db'])
  qed
qed

lemma start_effect:
  assumes "store_ok db" "startCurrentAttempt env req db = Inr (res, db')"
  shows "store_ok db' \<and> evolves db db'"
proof -
  have core: "store_core db" using assms(1) by (simp add: store_ok_def)
  from assms show ?thesis
  proof (cases rule: start_cases)
    case (refused code x)
    then show ?thesis using assms(1) evolves_refl by simp
  next
    case (replayed a cl r p)
    then show ?thesis using settle_store_ok [OF assms(1)] settle_evolves [OF core] by simp
  next
    case (started r a p)
    obtain bs where "attempts db' = attempts db @ bs" using started(7) by auto
    then have "evolves db db'"
      using started(8,9) succeeds_rows_refl by (intro evolvesI [of _ _ _ "[]" _ bs]) simp_all
    then show ?thesis using started(2) by simp
  qed
qed

lemma read_owned_effect:
  assumes "store_ok db" "readOwnedAttempt env g i db = Inr (res, db')"
  shows "store_ok db' \<and> evolves db db'"
proof -
  have core: "store_core db" using assms(1) by (simp add: store_ok_def)
  show ?thesis
  proof (cases "lockGuest g db \<and> attemptRow env i g db \<noteq> None")
    case True
    then obtain v where v: "attemptRow env i g db = Some v" by blast
    from attemptRow_Some [OF core v] obtain a cl where a: "a \<in> set (attempts db)" "at_started a < cl"
      "v = view_of a cl (now_row env)" .
    obtain p where "read_settled env v g db = Inr (p, db')"
      using assms(2) True v by (auto simp: readOwnedAttempt_def tx_Inr)
    then show ?thesis
      using read_settled_effect [OF assms(1) a(1,2)] settle_store_ok [OF assms(1) a(1,2)]
        settle_evolves [OF core a(1,2)] a(3) by metis
  next
    case False
    then have "db' = db" using assms(2) by (auto simp: readOwnedAttempt_def tx_Inr split: if_splits)
    then show ?thesis using assms(1) evolves_refl by simp
  qed
qed

lemma read_case_effect:
  assumes "store_ok db" "readCurrentCase env g db = Inr (res, db')"
  shows "store_ok db' \<and> evolves db db'"
proof -
  have core: "store_core db" using assms(1) by (simp add: store_ok_def)
  from assms(2) consider "db' = db"
    | i v p where "attemptRow env i g db = Some v" "read_settled env v g db = Inr (p, db')"
    unfolding readCurrentCase_def by (auto simp: tx_Inr split: option.splits if_splits)
  then show ?thesis
  proof cases
    case 1
    then show ?thesis using assms(1) evolves_refl by simp
  next
    case 2
    from attemptRow_Some [OF core 2(1)] obtain a cl where a: "a \<in> set (attempts db)" "at_started a < cl"
      "v = view_of a cl (now_row env)" .
    then show ?thesis
      using read_settled_effect [OF assms(1) a(1,2)] settle_store_ok [OF assms(1) a(1,2)]
        settle_evolves [OF core a(1,2)] 2(2) by metis
  qed
qed

interpretation execute_op: store_operation store_ok "executeGameplayCommand env req" for env req
  by unfold_locales (rule keepsI, use execute_effect in blast)

interpretation start_op: store_operation store_ok "startCurrentAttempt env req" for env req
  by unfold_locales (rule keepsI, use start_effect in blast)

interpretation read_owned_op: store_operation store_ok "readOwnedAttempt env g i" for env g i
  by unfold_locales (rule keepsI, use read_owned_effect in blast)

interpretation read_case_op: store_operation store_ok "readCurrentCase env g" for env g
  by unfold_locales (rule keepsI, use read_case_effect in blast)

datatype gameplay_op =
    OpStart store_env start_request
  | OpCommand store_env command_request
  | OpReadCase store_env string
  | OpReadAttempt store_env string string

fun gameplay_step :: "game_db \<Rightarrow> gameplay_op \<Rightarrow> game_db" where
  "gameplay_step db (OpStart env req) = snd (transaction (startCurrentAttempt env req) db)"
| "gameplay_step db (OpCommand env req) = snd (transaction (executeGameplayCommand env req) db)"
| "gameplay_step db (OpReadCase env g) = snd (transaction (readCurrentCase env g) db)"
| "gameplay_step db (OpReadAttempt env g i) = snd (transaction (readOwnedAttempt env g i) db)"

lemma transaction_evolves:
  "(\<And>a db'. work db = Inr (a, db') \<Longrightarrow> evolves db db') \<Longrightarrow> evolves db (snd (transaction work db))"
  by (auto simp: transaction_def evolves_refl split: sum.split)

interpretation gameplay: evolving_machine gameplay_step store_ok evolves
proof
  show "store_ok (gameplay_step db op)" if "store_ok db" for db op
    using that execute_op.transaction_keeps start_op.transaction_keeps read_owned_op.transaction_keeps
      read_case_op.transaction_keeps
    by (cases op) auto
  show "evolves db (gameplay_step db op)" if "store_ok db" for db op
    using execute_effect [OF that] start_effect [OF that] read_owned_effect [OF that] read_case_effect [OF that]
    by (cases op; simp) (rule transaction_evolves, blast)+
  show "evolves db db" for db by (rule evolves_refl)
  show "evolves db db''" if "evolves db db'" "evolves db' db''" for db db' db''
    using evolves_trans that .
qed

end
