(* ===== verification/Fingerprints.thy ===== *)
theory Fingerprints
  imports Gameplay
begin

text \<open>
  The texts whose hash is a command's fingerprint determine the command: the JSON of strings and
  numbers can be read back, so two commands with the same text are the same command.
\<close>

section \<open>The text of a command determines it\<close>

definition command_text :: "string \<Rightarrow> int \<Rightarrow> gameplay_command \<Rightarrow> string" where
  "command_text attempt version c = json_array (command_parts attempt version c)"

fun kind_name :: "gameplay_command \<Rightarrow> string" where
  "kind_name (Guess e) = ''GUESS''"
| "kind_name Reveal = ''REVEAL''"
| "kind_name GiveUp = ''GIVE_UP''"

fun command_tail :: "gameplay_command \<Rightarrow> string" where
  "command_tail (Guess e) = CHR '','' # json_string e @ ''] ''"
| "command_tail c = ''] ''"

lemma command_text_split:
  "command_text i v c @ '' '' = CHR ''['' # json_string ''v1'' @ CHR '','' # json_string (kind_name c) @
     CHR '','' # json_string i @ CHR '','' # json_int v @ command_tail c"
  by (cases c) (simp_all add: command_text_def json_array_def)

lemma stops_tail: "stops (command_tail c)"
  by (cases c) (simp_all add: stops_def is_digit_def)

lemma command_text_inject:
  assumes "command_text i v c = command_text i' v' c'" "0 \<le> v" "0 \<le> v'"
  shows "i = i' \<and> v = v' \<and> c = c'"
proof -
  let ?r = "\<lambda>i v c. json_string i @ CHR '','' # json_int v @ command_tail c"
  have "json_string ''v1'' @ CHR '','' # json_string (kind_name c) @ CHR '','' # ?r i v c =
      json_string ''v1'' @ CHR '','' # json_string (kind_name c') @ CHR '','' # ?r i' v' c'"
    using assms(1) command_text_split [of i v c] command_text_split [of i' v' c'] by simp
  then have "json_string (kind_name c) @ CHR '','' # ?r i v c = json_string (kind_name c') @ CHR '','' # ?r i' v' c'"
    by simp
  from json_string_prefix [OF this] have k: "kind_name c = kind_name c'" and "?r i v c = ?r i' v' c'" by auto
  from json_string_prefix [OF this(2)] have i: "i = i'" and e: "json_int v @ command_tail c = json_int v' @ command_tail c'"
    by auto
  from json_int_prefix [OF assms(2,3) stops_tail stops_tail e]
  have v: "v = v'" and t: "command_tail c = command_tail c'" by auto
  have "c = c'"
  proof (cases c)
    case (Guess e)
    then obtain e' where c': "c' = Guess e'" using k by (cases c') auto
    then have "json_string e @ ''] '' = json_string e' @ ''] ''" using t Guess by simp
    then show ?thesis using json_string_prefix c' Guess by blast
  qed (use k in \<open>cases c'; simp\<close>)+
  then show ?thesis using i v by simp
qed

end
