(* ===== verification/Gameplay_Theorems.thy ===== *)
theory Gameplay_Theorems
  imports Gameplay_Properties Fingerprints
begin

text \<open>
  The properties of the gameplay transactions, stated over whole commands and whole histories:
  consistency, one engine transition per committed command, no effect of a refused one, idempotent
  retries, and progress: a command on a live attempt is never refused by a constraint of the store.
\<close>

section \<open>Histories\<close>

text \<open>Property C2. Whatever sequence of starts, commands and reads is run, each with any clock readings
  and identifiers, the store stays consistent: one attempt per guest and slot, reachable snapshots
  only, derived tables that agree with the finished attempts, guesses numbered without gaps, and
  one receipt per guest and key.\<close>

theorem gameplay_keeps_the_store_consistent:
  assumes "store_ok db"
  shows "store_ok (foldl gameplay_step db ops)"
  using assms by (rule gameplay.run_good)

definition plain_env :: "int \<Rightarrow> string \<Rightarrow> store_env" where
  "plain_env now i = \<lparr>now_session = now, now_row = now, now_sample = now, now_receipt = now,
     uuid_attempt = ''a'' @ i, uuid_guess = ''g'' @ i, uuid_receipt = ''c'' @ i,
     sha256 = (\<lambda>s. s), collate = (\<lambda>a b. if a < b then -1 else if a = b then 0 else 1)\<rparr>"

definition guess_request :: "string \<Rightarrow> int \<Rightarrow> string \<Rightarrow> command_request" where
  "guess_request name version key = \<lparr>cr_guest = ''g'', cr_session = ''se'', cr_attempt = ''a'',
     cr_expectedVersion = int_number version, cr_key = key,
     cr_command = Object [(''kind'', String ''GUESS''), (''entityId'', String name)]\<rparr>"

lemma small_store_ok: "store_ok (small_store initial_attempt)"
proof -
  have "store_core (small_store initial_attempt)"
    by (rule small_store_core) (simp_all add: initial_attempt_valid, simp add: initial_attempt_def)
  then show ?thesis
    by (simp add: store_ok_def guesses_ok_def receipts_ok_def numbers_of_def)
      (simp add: small_store_def initial_attempt_def)
qed

theorem gameplay_keeps_the_store_consistent_witness:
  "store_ok (foldl gameplay_step (small_store initial_attempt)
     [OpCommand (plain_env 5000 ''1'') (guess_request ''two'' 0 ''k1''),
      OpCommand (plain_env 6000 ''2'') (guess_request ''one'' 1 ''k2''),
      OpReadAttempt (plain_env 90000000 ''3'') ''g'' ''a''])"
  by (rule gameplay_keeps_the_store_consistent) (rule small_store_ok)

text \<open>Property C32. History is append-only: however the operations interleave, receipts and guesses are
  only added, an attempt keeps its owner and slot, its version never goes down, and an attempt that
  is over never changes again.\<close>

theorem finished_attempts_and_receipts_are_final:
  assumes "store_ok db"
  shows "evolves db (foldl gameplay_step db ops)"
  using assms by (rule gameplay.run_evolves)

theorem finished_attempts_and_receipts_are_final_witness:
  "evolves (small_store initial_attempt) (foldl gameplay_step (small_store initial_attempt)
     [OpCommand (plain_env 5000 ''1'') (guess_request ''one'' 0 ''k1'')])"
  by (rule finished_attempts_and_receipts_are_final) (rule small_store_ok)

section \<open>A committed command is one transition\<close>

definition is_guess :: "engine_command \<Rightarrow> bool" where
  "is_guess ec \<longleftrightarrow> (\<exists>b. ec = CGuess b)"

text \<open>Property C3. When a command commits for the first time, the attempt it names belongs to the
  caller, was active, had the expected version and its case was still open, and it takes exactly
  the engine's transition for that command: its snapshot is the transition's, its version goes up
  by one, no other attempt changes, one receipt with the outcome is added, and a guess is recorded
  exactly for a guess.\<close>

theorem committed_command_is_one_engine_transition:
  assumes "store_ok db" "executeGameplayCommand env req db = Inr (CommandOk oc p False, db')"
  shows "\<exists>a cl ec t c fp. commits env req db a cl ec t \<and> oc = outcome_of ec \<and> store_ok db' \<and>
    decode_command (cr_command req) = Some c \<and> commandFingerprint env req = Some fp \<and>
    (\<exists>xs ys. attempts db = xs @ a # ys \<and> attempts db' = xs @ stepped a t (now_sample env) # ys) \<and>
    receipts db' = receipts db @ [command_receipt env req c fp oc (stepped a t (now_sample env))] \<and>
    length (guesses db') = length (guesses db) + (if is_guess ec then 1 else 0)"
  using assms
proof (cases rule: execute_cases)
  case (committed a cl c ec t fp p' gs)
  then have "length (guesses db') = length (guesses db) + (if is_guess ec then 1 else 0)"
    by (simp add: is_guess_def)
  then show ?thesis using committed by blast
qed simp_all

text \<open>What a caller sees of a result.\<close>

fun seen :: "store_error + command_result \<times> game_db \<Rightarrow> (rejection_code + outcome_code \<times> bool) option" where
  "seen (Inr (CommandOk oc p replayed, db)) = Some (Inr (oc, replayed))"
| "seen (Inr (CommandRejected code p, db)) = Some (Inl code)"
| "seen (Inl e) = None"

lemma seen_ok: "seen r = Some (Inr (oc, replayed)) \<Longrightarrow> \<exists>p db'. r = Inr (CommandOk oc p replayed, db')"
  by (cases r rule: seen.cases) auto

lemma seen_rejected: "seen r = Some (Inl code) \<Longrightarrow> \<exists>p db'. r = Inr (CommandRejected code p, db')"
  by (cases r rule: seen.cases) auto

lemma small_commit:
  "seen (executeGameplayCommand (plain_env 5000 ''1'') (guess_request ''one'' 0 ''k1'') (small_store initial_attempt)) =
    Some (Inr (O_CORRECT, False))"
  by code_simp

theorem committed_command_is_one_engine_transition_witness:
  "\<exists>oc p db'. executeGameplayCommand (plain_env 5000 ''1'') (guess_request ''one'' 0 ''k1'')
       (small_store initial_attempt) = Inr (CommandOk oc p False, db') \<and>
    (\<exists>a cl ec t. commits (plain_env 5000 ''1'') (guess_request ''one'' 0 ''k1'') (small_store initial_attempt) a cl ec t \<and>
       oc = outcome_of ec)"
proof -
  obtain p db' where r: "executeGameplayCommand (plain_env 5000 ''1'') (guess_request ''one'' 0 ''k1'')
      (small_store initial_attempt) = Inr (CommandOk O_CORRECT p False, db')"
    using seen_ok [OF small_commit] by blast
  from committed_command_is_one_engine_transition [OF small_store_ok r] r show ?thesis by blast
qed

text \<open>Property C34. A command that is refused, for whatever reason, changes nothing, except that an
  attempt of the caller whose case has closed may be found expired: the store is then the one with
  that attempt settled at the closing time.\<close>

theorem refused_command_changes_nothing_but_expiry:
  assumes "store_ok db" "executeGameplayCommand env req db = Inr (CommandRejected code x, db')"
  shows "db' = db \<or> (\<exists>a cl. a \<in> set (attempts db) \<and> at_guest a = cr_guest req \<and> \<not> terminal a \<and>
    cl \<le> now_sample env \<and> db' = finalized_store (finished a ((at_snapshot a)\<lparr>state := EXPIRED\<rparr>) cl) db)"
  using assms
proof (cases rule: execute_cases)
  case (settled a cl code' x')
  show ?thesis
  proof (cases "terminal a \<or> now_sample env < cl")
    case True
    then show ?thesis using settled(7) by (auto simp: settle_store_def)
  next
    case False
    then have "db' = finalized_store (finished a ((at_snapshot a)\<lparr>state := EXPIRED\<rparr>) cl) db"
      using settled(7) by (simp add: settle_store_def settle_def)
    moreover have "\<not> terminal a" "cl \<le> now_sample env" using False by auto
    ultimately show ?thesis using settled(1,3) by blast
  qed
qed simp_all

theorem refused_command_changes_nothing_but_expiry_witness:
  "\<exists>code x db'. executeGameplayCommand (plain_env 5000 ''1'') (guess_request ''nobody'' 0 ''k1'')
      (small_store initial_attempt) = Inr (CommandRejected code x, db') \<and>
    (db' = small_store initial_attempt \<or> (\<exists>a cl. a \<in> set (attempts (small_store initial_attempt)) \<and>
       at_guest a = cr_guest (guess_request ''nobody'' 0 ''k1'') \<and> \<not> terminal a \<and>
       cl \<le> now_sample (plain_env 5000 ''1'') \<and>
       db' = finalized_store (finished a ((at_snapshot a)\<lparr>state := EXPIRED\<rparr>) cl) (small_store initial_attempt)))"
proof -
  have "seen (executeGameplayCommand (plain_env 5000 ''1'') (guess_request ''nobody'' 0 ''k1'')
      (small_store initial_attempt)) = Some (Inl R_UNKNOWN_ENTITY)"
    by code_simp
  then obtain x db' where r: "executeGameplayCommand (plain_env 5000 ''1'') (guess_request ''nobody'' 0 ''k1'')
      (small_store initial_attempt) = Inr (CommandRejected R_UNKNOWN_ENTITY x, db')"
    using seen_rejected by blast
  from refused_command_changes_nothing_but_expiry [OF small_store_ok r] r show ?thesis by blast
qed


section \<open>Progress\<close>

lemma record_guess_run:
  assumes "store_ok db" "a \<in> set (attempts db)" "state (at_snapshot a) = ACTIVE"
    "uuid_guess env \<notin> gs_id ` set (guesses db)"
  shows "\<exists>db'. record_guess env (view_of a cl sm) t guessed db = Inr ((), db')"
proof (cases guessed)
  case None
  then show ?thesis by (simp add: record_guess_def)
next
  case (Some e)
  let ?n = "totalWrongGuesses (at_snapshot a) + 1"
  have v: "valid_snapshot (at_snapshot a)"
    using attempt_row_valid assms(1,2) by (auto simp: store_ok_def)
  then have n: "1 \<le> ?n" "?n \<le> 15" "0 \<le> evidenceLevel (at_snapshot a)" "evidenceLevel (at_snapshot a) \<le> 4"
    using assms(3) by (auto simp: valid_snapshot_def)
  have "numbers_of db (at_id a) = {1..totalWrongGuesses (at_snapshot a)}"
    using assms(1-3) by (simp add: store_ok_def guesses_ok_def terminal_def)
  then have "?n \<notin> numbers_of db (at_id a)" by simp
  then have "\<forall>x \<in> set (guesses db). gs_attempt x = at_id a \<longrightarrow> gs_number x \<noteq> ?n"
    unfolding numbers_of_def by (metis (mono_tags, lifting) imageI mem_Collect_eq)
  moreover have "\<forall>x \<in> set (guesses db). gs_id x \<noteq> uuid_guess env" using assms(4) by (metis imageI)
  ultimately have "\<not> list_ex (\<lambda>x. gs_id x = uuid_guess env \<or> gs_attempt x = at_id a \<and> gs_number x = ?n) (guesses db)"
    by (auto simp: list_ex_iff)
  then show ?thesis using n by (simp add: record_guess_def Some insert_guess_def bindT_def checkT_def)
qed

lemma advance_run:
  assumes "store_core db" "a \<in> set (attempts db)" "\<not> terminal a" "valid_snapshot t" "at_started a \<le> x"
  shows "\<exists>v db'. advance (view_of a cl sm) t x db = Inr (v, db')"
proof (cases "state t = ACTIVE")
  case True
  let ?f = "\<lambda>a. a\<lparr>at_snapshot := (at_snapshot a)\<lparr>evidenceLevel := evidenceLevel t,
     wrongGuessesAtLevel := wrongGuessesAtLevel t, totalWrongGuesses := totalWrongGuesses t\<rparr>,
     at_version := at_version a + 1, at_updated := x\<rparr>"
  have "distinct (map at_id (attempts db))" "attempt_checks a"
    using assms(1,2) by (simp_all add: store_core_def attempts_ok_def)
  moreover have f: "?f a = stepped a t x" using True assms(3) by (simp add: stepped_def terminal_def)
  moreover have "totalWrongGuesses t \<le> 15" using assms(4) True by (auto simp: valid_snapshot_def)
  ultimately have "attempt_checks (?f a)"
    using assms(3-5) True unfolding f
    by (simp add: attempt_checks_def terminal_def stepped_def split: option.splits)
  then show ?thesis
    using update_returning_run [of db a ?f cl x] \<open>distinct (map at_id (attempts db))\<close> assms(2) True
    by (simp add: advance_def)
next
  case False
  then show ?thesis using finalize_run [OF assms(1-4) False assms(5), of cl sm] by (simp add: advance_def)
qed

text \<open>Everything a caller can see to before it sends a command.\<close>

definition ready ::
  "store_env \<Rightarrow> command_request \<Rightarrow> game_db \<Rightarrow> attempt_row \<Rightarrow> gameplay_command \<Rightarrow> engine_command \<Rightarrow> bool" where
  "ready env req db a c ec \<longleftrightarrow>
    a \<in> set (attempts db) \<and> at_id a = cr_attempt req \<and> at_guest a = cr_guest req \<and>
    state (at_snapshot a) = ACTIVE \<and> int_number (at_version a) = cr_expectedVersion req \<and>
    at_version a \<le> MAX_SAFE_INTEGER \<and> validateKey (cr_key req) \<and>
    decode_command (cr_command req) = Some c \<and> engine_of db (at_revision a) c = Some ec \<and>
    receipt (cr_guest req) (cr_key req) db = None \<and>
    session_live_at (now_session env) (cr_guest req) (cr_session req) db \<and>
    session_live_at (now_receipt env) (cr_guest req) (cr_session req) db \<and>
    list_all (\<lambda>r. rv_id r = at_revision a \<longrightarrow> now_sample env < rv_closes r) (revisions db) \<and>
    at_started a \<le> now_sample env \<and>
    uuid_guess env \<notin> gs_id ` set (guesses db) \<and> uuid_receipt env \<notin> rc_id ` set (receipts db)"

lemma command_transition_run:
  "engine_of db (at_revision a) c = Some ec \<Longrightarrow>
   \<exists>guessed. command_transition (view_of a cl sm) c db = Some (transition (at_snapshot a) ec, outcome_of ec, guessed)"
  by (cases c) (auto simp: snapshot_def)

lemma advance_view:
  assumes "store_ok db" "a \<in> set (attempts db)" "state (at_snapshot a) = ACTIVE" "valid_snapshot t"
    "record_guess env (view_of a cl sm) t guessed db = Inr (u, db1)"
    "advance (view_of a cl sm) t x db1 = Inr (v, db2)"
  shows "v = view_of (stepped a t x) cl x \<and> store_core db2 \<and> stepped a t x \<in> set (attempts db2) \<and>
    sessions db2 = sessions db \<and> receipts db2 = receipts db"
proof -
  have ok: "store_core db" "guesses_ok None db" using assms(1) by (auto simp: store_ok_def)
  have n: "\<not> terminal a" using assms(3) by (simp add: terminal_def)
  note r1 = record_guess_effect [OF ok assms(2) n assms(5)]
  have a1: "a \<in> set (attempts db1)" "store_core db1" using r1 assms(2) by auto
  note r2 = advance_effect [OF a1(2,1) n assms(4,6)]
  then show ?thesis using r1 by (auto simp: moved_def)
qed

lemma commit_run:
  assumes "store_ok db" "ready env req db a c ec" "transition (at_snapshot a) ec = Inr (Accepted t q)"
  shows "\<exists>p db'. commit_transition env req c fp (view_of a cl sm) t outcome guessed db = Inr (CommandOk outcome p False, db')"
proof -
  note r = assms(2) [unfolded ready_def]
  have ok: "store_core db" "guesses_ok None db" using assms(1) by (auto simp: store_ok_def)
  have v: "valid_snapshot t" using assms(3) transition_accepted_valid by blast
  have n: "\<not> terminal a" using r by (simp add: terminal_def)
  obtain db1 where s1: "record_guess env (view_of a cl sm) t guessed db = Inr ((), db1)"
    using record_guess_run [OF assms(1), of a env cl sm t guessed] r by blast
  have a1: "a \<in> set (attempts db1)" "store_core db1"
    using record_guess_effect [OF ok _ n s1] r by auto
  obtain v' db2 where s2: "advance (view_of a cl sm) t (now_sample env) db1 = Inr (v', db2)"
    using advance_run [OF a1(2,1) n v] r by blast
  let ?a = "stepped a t (now_sample env)"
  from advance_view [OF assms(1) _ _ v s1 s2] r
  have s3: "v' = view_of ?a cl (now_sample env)" "store_core db2" "?a \<in> set (attempts db2)"
    "sessions db2 = sessions db" "receipts db2 = receipts db" by blast+
  have "0 \<le> at_version ?a"
    using s3(2,3) by (auto simp: store_core_def attempts_ok_def attempt_checks_def)
  moreover have "\<forall>x \<in> set (receipts db). (rc_guest x, rc_key x) \<noteq> (cr_guest req, cr_key req)"
    using r by (auto simp: receipt_def find_None_key)
  moreover have "\<forall>x \<in> set (receipts db). rc_id x \<noteq> uuid_receipt env" using r by (metis imageI)
  ultimately have ins: "insert_receipt env (command_receipt env req c fp outcome ?a) db2 =
      Inr ((), db2\<lparr>receipts := receipts db2 @ [command_receipt env req c fp outcome ?a]\<rparr>)"
    using r s3 by (auto simp: insert_receipt_Inr command_receipt_def session_live_at_def)
  let ?db3 = "db2\<lparr>receipts := receipts db2 @ [command_receipt env req c fp outcome ?a]\<rparr>"
  obtain p where "hydrateProjection env (view_of ?a cl (now_sample env)) (at_guest ?a) ?db3 = Inr p"
    using hydrateProjection_run [of ?db3 ?a env cl "now_sample env"] s3 by auto
  then have "projectT env (view_of ?a cl (now_sample env)) (cr_guest req) ?db3 = Inr (p, ?db3)"
    using r by (simp add: projectT_Inr)
  then show ?thesis
    using s1 s2 ins by (simp add: commit_transition_def bindT_def s3(1) command_receipt_def)
qed


lemma guest_locked: "store_core db \<Longrightarrow> a \<in> set (attempts db) \<Longrightarrow> lockGuest (at_guest a) db"
proof -
  assume "store_core db" "a \<in> set (attempts db)"
  then have "at_guest a \<in> g_id ` set (guests db)" by (simp add: store_core_def attempts_ok_def)
  then obtain g where "g \<in> set (guests db)" "g_id g = at_guest a" by (metis imageE)
  then show ?thesis by (auto simp: lockGuest_def list_ex_iff)
qed

text \<open>Property C33. Progress: on a consistent store, a command that is well formed, with a fresh key, a
  session that stays live, on the caller's own active attempt at the version expected, before the
  case closes, whose transition the engine accepts, commits. No constraint of a table, no missing
  row and no failing projection can refuse it (the numbers of the guesses never collide, the
  snapshot always passes the checks, the derived rows are always new).\<close>

theorem live_command_commits:
  assumes "store_ok db" "ready env req db a c ec" "transition (at_snapshot a) ec = Inr (Accepted t q)"
  shows "\<exists>p db'. executeGameplayCommand env req db = Inr (CommandOk (outcome_of ec) p False, db')"
proof -
  note r = assms(2) [unfolded ready_def]
  have core: "store_core db" using assms(1) by (simp add: store_ok_def)
  have a: "a \<in> set (attempts db)" "at_id a = cr_attempt req" "at_guest a = cr_guest req"
    "state (at_snapshot a) = ACTIVE" using r by auto
  have "attempt_checks a" using core a(1) by (simp add: store_core_def attempts_ok_def)
  then have ver: "is_safe_int (at_version a)" "0 \<le> at_version a"
    using r by (simp_all add: attempt_checks_def is_safe_int_def MAX_SAFE_INTEGER_def)
  have e: "cr_expectedVersion req = int_number (at_version a)" using r by simp
  have req: "validateKey (cr_key req)" "is_safe_integer (cr_expectedVersion req)"
    "js_floor (cr_expectedVersion req) = at_version a"
    using r unfolding e js_floor_int is_safe_integer_int by (simp_all only: ver)
  obtain fp where fp: "commandFingerprint env req = Some fp" using r by (simp add: commandFingerprint_def)
  obtain cl where row: "attemptRow env (cr_attempt req) (cr_guest req) db = Some (view_of a cl (now_row env))"
    "at_started a < cl" "\<exists>rv \<in> set (revisions db). rv_id rv = at_revision a \<and> cl = rv_closes rv"
    using attemptRow_run [OF core a(1)] a by metis
  have "now_sample env < cl" using row(3) r by (auto simp: list_all_iff)
  then have ex: "expireIfClosed (view_of a cl (now_row env)) (now_sample env) db = Inr (view_of a cl (now_row env), db)"
    by (simp add: expireIfClosed_def)
  obtain guessed where ct: "command_transition (view_of a cl (now_row env)) c db =
      Some (transition (at_snapshot a) ec, outcome_of ec, guessed)"
    using command_transition_run r by blast
  obtain p db' where cm: "commit_transition env req c fp (view_of a cl (now_row env)) t (outcome_of ec) guessed db =
      Inr (CommandOk (outcome_of ec) p False, db')"
    using commit_run [OF assms] by blast
  have "apply_command env req c fp (view_of a cl (now_row env)) db = Inr (CommandOk (outcome_of ec) p False, db')"
    using ct cm a(4) r assms(3) by (simp add: apply_command_def bindT_def)
  then show ?thesis
    using req ver(2) r fp row(1) ex guest_locked [OF core a(1)] a(3)
    by (simp add: executeGameplayCommand_def bindT_def sessionIsLive_def)
qed

theorem live_command_commits_witness:
  "\<exists>p db'. executeGameplayCommand (plain_env 5000 ''1'') (guess_request ''two'' 0 ''k1'')
     (small_store initial_attempt) = Inr (CommandOk O_WRONG p False, db')"
proof -
  have "ready (plain_env 5000 ''1'') (guess_request ''two'' 0 ''k1'') (small_store initial_attempt)
      (hd (attempts (small_store initial_attempt))) (Guess ''two'') (CGuess False)"
    by code_simp
  moreover have "transition (at_snapshot (hd (attempts (small_store initial_attempt)))) (CGuess False) =
      Inr (Accepted (active_at 0 1 1) True)"
    by code_simp
  ultimately show ?thesis using live_command_commits [OF small_store_ok] by fastforce
qed

section \<open>Retries\<close>



lemma receipt_append:
  "receipts db' = receipts db @ rs \<Longrightarrow> receipt g k db = Some r \<Longrightarrow> receipt g k db' = Some r"
  by (auto simp: receipt_def find_later)

lemma accepted_request_valid:
  assumes "executeGameplayCommand env req db = Inr (CommandOk oc p b, db')"
  shows "validateKey (cr_key req) \<and> is_safe_integer (cr_expectedVersion req) \<and> 0 \<le> js_floor (cr_expectedVersion req)"
  using assms by (auto simp: executeGameplayCommand_def split: if_splits)




text \<open>The hash does not collide on the two texts: what the code relies on of SHA-256.\<close>

definition collision_free :: "(string \<Rightarrow> string) \<Rightarrow> string \<Rightarrow> string \<Rightarrow> bool" where
  "collision_free h x y \<longleftrightarrow> h x \<noteq> h y \<or> x = y"

lemma commandFingerprint_text:
  "decode_command (cr_command req) = Some c \<Longrightarrow> commandFingerprint env req =
     Some (sha256 env (command_text (cr_attempt req) (js_floor (cr_expectedVersion req)) c))"
  by (simp add: commandFingerprint_def fingerprint_def command_text_def)

text \<open>Property C11. A key is bound to its command. Once a command has committed under a key, a request of
  the same guest with that key but another attempt, another expected version or another command
  (unless their hashes collide) is refused as a conflict and changes nothing, whatever has run in
  between.\<close>

theorem key_is_bound_to_its_command:
  assumes "store_ok db" "executeGameplayCommand env req db = Inr (CommandOk oc p False, db1)"
    "db2 = foldl gameplay_step db1 ops" "sha256 env' = sha256 env"
    "cr_guest req' = cr_guest req" "cr_key req' = cr_key req"
    "decode_command (cr_command req) = Some c" "decode_command (cr_command req') = Some c'"
    "is_safe_integer (cr_expectedVersion req')" "0 \<le> js_floor (cr_expectedVersion req')"
    "session_live_at (now_session env') (cr_guest req') (cr_session req') db2"
    "(cr_attempt req', js_floor (cr_expectedVersion req'), c') \<noteq>
       (cr_attempt req, js_floor (cr_expectedVersion req), c)"
    "collision_free (sha256 env)
       (command_text (cr_attempt req) (js_floor (cr_expectedVersion req)) c)
       (command_text (cr_attempt req') (js_floor (cr_expectedVersion req')) c')"
  shows "executeGameplayCommand env' req' db2 = Inr (CommandRejected R_IDEMPOTENCY_CONFLICT None, db2)"
  using assms(1,2)
proof (cases rule: execute_cases)
  case (committed a cl c0 ec t fp p' gs)
  let ?r = "command_receipt env req c0 fp (outcome_of ec) (stepped a t (now_sample env))"
  have ok2: "store_core db2" and ev: "evolves db1 db2"
    using gameplay.run_good [OF committed(5)] gameplay.run_evolves [OF committed(5)] assms(3)
    by (auto simp: store_ok_def)
  note valid = accepted_request_valid [OF assms(2)]
  have "receipt (cr_guest req) (cr_key req) db = None" using committed(1) by (simp add: commits_def)
  then have "receipt (cr_guest req) (cr_key req) db1 = Some ?r"
    using committed(7) by (simp add: receipt_def find_later command_receipt_def)
  then have r2: "receipt (cr_guest req') (cr_key req') db2 = Some ?r"
    using ev receipt_append assms(5,6) by (auto simp: evolves_def)
  have fp: "fp = sha256 env (command_text (cr_attempt req) (js_floor (cr_expectedVersion req)) c)"
    using commandFingerprint_text [OF assms(7), of env] committed(3) by simp
  have fp': "commandFingerprint env' req' =
      Some (sha256 env (command_text (cr_attempt req') (js_floor (cr_expectedVersion req')) c'))"
    using commandFingerprint_text [OF assms(8), of env'] assms(4) by simp
  have "command_text (cr_attempt req) (js_floor (cr_expectedVersion req)) c \<noteq>
      command_text (cr_attempt req') (js_floor (cr_expectedVersion req')) c'"
    using command_text_inject [of "cr_attempt req" "js_floor (cr_expectedVersion req)" c
        "cr_attempt req'" "js_floor (cr_expectedVersion req')" c'] valid assms(10,12) by auto
  then have "rc_fingerprint ?r \<noteq> sha256 env (command_text (cr_attempt req') (js_floor (cr_expectedVersion req')) c')"
    using assms(13) by (simp add: collision_free_def fp command_receipt_def)
  moreover have "lockGuest (cr_guest req') db2"
  proof -
    have "?r \<in> set (receipts db2)" "rc_guest ?r = cr_guest req'"
      using find_Some_key [OF r2 [unfolded receipt_def]] by auto
    then obtain b where "b \<in> set (attempts db2)" "at_guest b = cr_guest req'"
      using gameplay.run_good [OF committed(5), of ops] assms(3) by (auto simp: store_ok_def receipts_ok_def)
    then show ?thesis using guest_locked [OF ok2] by metis
  qed
  ultimately show ?thesis
    using r2 fp' assms(6,8-11) valid
    by (simp add: executeGameplayCommand_def bindT_def replay_command_def sessionIsLive_def)
qed simp_all

theorem key_is_bound_to_its_command_witness:
  "\<exists>p db1. executeGameplayCommand (plain_env 5000 ''1'') (guess_request ''one'' 0 ''k1'') (small_store initial_attempt) =
      Inr (CommandOk O_CORRECT p False, db1) \<and>
    executeGameplayCommand (plain_env 6000 ''2'') (guess_request ''two'' 0 ''k1'') db1 =
      Inr (CommandRejected R_IDEMPOTENCY_CONFLICT None, db1)"
proof -
  obtain p db1 where r: "executeGameplayCommand (plain_env 5000 ''1'') (guess_request ''one'' 0 ''k1'')
      (small_store initial_attempt) = Inr (CommandOk O_CORRECT p False, db1)"
    using seen_ok [OF small_commit] by blast
  have "sessions (snd (transaction (executeGameplayCommand (plain_env 5000 ''1'') (guess_request ''one'' 0 ''k1''))
      (small_store initial_attempt))) = sessions (small_store initial_attempt)"
    by code_simp
  then have live: "session_live_at (now_session (plain_env 6000 ''2'')) (cr_guest (guess_request ''two'' 0 ''k1''))
      (cr_session (guess_request ''two'' 0 ''k1'')) db1"
    using r by (simp add: transaction_def session_live_at_def)
      (simp add: small_store_def guess_request_def plain_env_def)
  have "executeGameplayCommand (plain_env 6000 ''2'') (guess_request ''two'' 0 ''k1'') db1 =
      Inr (CommandRejected R_IDEMPOTENCY_CONFLICT None, db1)"
    by (rule key_is_bound_to_its_command [OF small_store_ok r, of _ "[]" _ _ "Guess ''one''" "Guess ''two''"])
      (use live in \<open>simp_all add: guess_request_def plain_env_def decode_command_def collision_free_def is_safe_int_def MAX_SAFE_INTEGER_def\<close>)
  then show ?thesis using r by blast
qed

end
