(* ===== verification/Leaderboard_Page.thy ===== *)
theory Leaderboard_Page
  imports Store_Invariant
begin

text \<open>
  \<^verbatim>\<open>packages/database/src/gameplay/leaderboard.ts\<close>: one page of a day's leaderboard and the page's
  successor position (keyset pagination). The query's \<^verbatim>\<open>rank() OVER (ORDER BY ...)\<close> is modelled as
  SQL defines it, as the place of the first peer of a row in the order.

  Results: the ranks the query computes are the domain's competition ranks, and following the
  positions page by page yields the whole leaderboard once, in order.
\<close>

section \<open>Requests\<close>

record leaderboard_position =
  lp_attemptId :: string
  lp_elapsed :: js_number
  lp_level :: js_number
  lp_wrong :: js_number

record page_request =
  pr_cursor :: "leaderboard_position option"
  pr_limit :: js_number
  pr_slot :: string

record leaderboard_item =
  li_attemptId :: string
  li_pseudonym :: string
  li_level :: int
  li_wrong :: int
  li_elapsed :: int
  li_score :: int
  li_rank :: int

record leaderboard_page =
  lp_items :: "leaderboard_item list"
  lp_next :: "leaderboard_position option"

definition validSlotId :: "string \<Rightarrow> bool" where
  "validSlotId s =
    (case match_day s of
       None \<Rightarrow> False
     | Some c \<Rightarrow> (case date_parse c of None \<Rightarrow> False | Some n \<Rightarrow> iso_date (civil_of_day n) = s))"

text \<open>\<^verbatim>\<open>/^[0-9a-f]{8}-[0-9a-f]{4}-[1-8][0-9a-f]{3}-[89ab][0-9a-f]{3}-[0-9a-f]{12}$/iu\<close>, one class for
  each position.\<close>

definition HEX :: string where
  "HEX = ''0123456789abcdefABCDEF''"

definition uuid_classes :: "string list" where
  "uuid_classes = replicate 8 HEX @ [''-''] @ replicate 4 HEX @ [''-''] @
     [''12345678''] @ replicate 3 HEX @ [''-''] @ [''89abAB''] @ replicate 3 HEX @ [''-''] @ replicate 12 HEX"

definition is_uuid :: "string \<Rightarrow> bool" where
  "is_uuid s \<longleftrightarrow> list_all2 (\<lambda>c cs. c \<in> set cs) s uuid_classes"

text \<open>A text cast to \<^verbatim>\<open>uuid\<close>: the letters of its digits do not matter.\<close>

definition lower_char :: "char \<Rightarrow> char" where
  "lower_char c = (let n = (of_char c :: nat) in if 65 \<le> n \<and> n \<le> 90 then char_of (n + 32) else c)"

definition uuid_of :: "string \<Rightarrow> string" where
  "uuid_of s = map lower_char s"

definition in_range :: "js_number \<Rightarrow> int \<Rightarrow> int \<Rightarrow> bool" where
  "in_range n lo hi \<longleftrightarrow> is_safe_integer n \<and> lo \<le> js_floor n \<and> js_floor n \<le> hi"

definition validPageRequest :: "page_request \<Rightarrow> bool" where
  "validPageRequest r \<longleftrightarrow> validSlotId (pr_slot r) \<and> in_range (pr_limit r) 1 100 \<and>
    (case pr_cursor r of None \<Rightarrow> True | Some c \<Rightarrow>
       is_uuid (lp_attemptId c) \<and> in_range (lp_level c) 0 4 \<and> in_range (lp_wrong c) 0 15 \<and>
       is_safe_integer (lp_elapsed c) \<and> 0 \<le> js_floor (lp_elapsed c))"

section \<open>The query\<close>

type_synonym entry_key = "int \<times> int \<times> int \<times> string"

definition key_compare :: "entry_key \<Rightarrow> entry_key \<Rightarrow> int" where
  "key_compare a b = (case (a, b) of ((e, w, t, i), (e', w', t', i')) \<Rightarrow>
     if e \<noteq> e' then e - e' else if w \<noteq> w' then w - w' else if t \<noteq> t' then t - t'
     else if i < i' then -1 else if i = i' then 0 else 1)"

definition entry_key :: "entry_row \<Rightarrow> entry_key" where
  "entry_key e = (le_level e, le_wrong e, le_elapsed e, le_attempt e)"

definition compare_entries :: "entry_row \<Rightarrow> entry_row \<Rightarrow> int" where
  "compare_entries a b = key_compare (entry_key a) (entry_key b)"

definition peers :: "entry_row \<Rightarrow> entry_row \<Rightarrow> bool" where
  "peers a b \<longleftrightarrow> (le_level a, le_wrong a, le_elapsed a) = (le_level b, le_wrong b, le_elapsed b)"

text \<open>The rows of a day with their ranks, in the order of the query. The rank of a row is one more
  than the number of rows before its first peer.\<close>

definition day_entries :: "string \<Rightarrow> game_db \<Rightarrow> entry_row list" where
  "day_entries slot db = js_sort compare_entries (filter (\<lambda>e. le_slot e = slot) (entries db))"

definition sql_rank :: "entry_row list \<Rightarrow> entry_row \<Rightarrow> int" where
  "sql_rank ordered e = 1 + int (length (takeWhile (\<lambda>x. \<not> peers x e) ordered))"

definition ranked_entries :: "string \<Rightarrow> game_db \<Rightarrow> (entry_row \<times> int) list" where
  "ranked_entries slot db = map (\<lambda>e. (e, sql_rank (day_entries slot db) e)) (day_entries slot db)"

definition projectRow :: "entry_row \<times> int \<Rightarrow> leaderboard_item" where
  "projectRow x = (case x of (e, r) \<Rightarrow>
    \<lparr>li_attemptId = le_attempt e, li_pseudonym = le_pseudonym e, li_level = le_level e,
     li_wrong = le_wrong e, li_elapsed = le_elapsed e, li_score = le_score e, li_rank = r\<rparr>)"

definition cursor_key :: "leaderboard_position \<Rightarrow> entry_key" where
  "cursor_key c = (js_floor (lp_level c), js_floor (lp_wrong c), js_floor (lp_elapsed c), uuid_of (lp_attemptId c))"

definition cursor_exists :: "string \<Rightarrow> leaderboard_position \<Rightarrow> game_db \<Rightarrow> bool" where
  "cursor_exists slot c db = list_ex (\<lambda>e. le_slot e = slot \<and> entry_key e = cursor_key c) (entries db)"

definition position_of :: "leaderboard_item \<Rightarrow> leaderboard_position" where
  "position_of i = \<lparr>lp_attemptId = li_attemptId i, lp_elapsed = int_number (li_elapsed i),
     lp_level = int_number (li_level i), lp_wrong = int_number (li_wrong i)\<rparr>"

definition readDailyLeaderboardPage :: "page_request \<Rightarrow> game_db \<Rightarrow> leaderboard_page result" where
  "readDailyLeaderboardPage r db =
    (if \<not> validPageRequest r then Inl (RangeError ''invalid leaderboard query'')
     else if (case pr_cursor r of None \<Rightarrow> False | Some c \<Rightarrow> \<not> cursor_exists (pr_slot r) c db)
       then Inl (RangeError ''invalid leaderboard cursor'')
     else
       let limit = nat (js_floor (pr_limit r));
           rows = take (limit + 1) (filter
             (\<lambda>x. case pr_cursor r of None \<Rightarrow> True | Some c \<Rightarrow> 0 < key_compare (entry_key (fst x)) (cursor_key c))
             (ranked_entries (pr_slot r) db));
           items = map projectRow (take limit rows);
           last_item = (if limit < length rows then Some (last items) else None)
       in Inr \<lparr>lp_items = items, lp_next = map_option position_of last_item\<rparr>)"

definition readDailyLeaderboard :: "string \<Rightarrow> js_number \<Rightarrow> game_db \<Rightarrow> leaderboard_item list result" where
  "readDailyLeaderboard slot limit db =
    (if \<not> validSlotId slot \<or> \<not> in_range limit 1 100 then Inl (RangeError ''invalid leaderboard query'')
     else Inr (map projectRow (take (nat (js_floor limit)) (ranked_entries slot db))))"

section \<open>The order of the query is the domain's\<close>

lemma validSlotId_calendar: "validSlotId s \<longleftrightarrow> (\<exists>c. calendar_day s c)"
proof -
  have "validSlotId s \<longleftrightarrow> (\<exists>n. utcDayNumber s = Inr n)"
    by (auto simp: validSlotId_def utcDayNumber_def split: option.splits)
  then show ?thesis using utcDayNumber_Inr utcDayNumber_accepts by blast
qed

definition candidate_of :: "entry_row \<Rightarrow> leaderboard_candidate" where
  "candidate_of e = \<lparr>lb_attemptId = le_attempt e, lb_state = SOLVED, lb_evidenceLevel = le_level e,
     lb_totalWrongGuesses = le_wrong e, lb_elapsedMilliseconds = le_elapsed e\<rparr>"

lemma compare_candidates:
  "comparePaginationOrder (candidate_of a) (candidate_of b) = compare_entries a b"
  by (auto simp: comparePaginationOrder_def comparePerformance_def Let_def candidate_of_def
      compare_entries_def key_compare_def entry_key_def)

lemma peers_candidates: "peers a b \<longleftrightarrow> comparePerformance (candidate_of a) (candidate_of b) = 0"
  by (simp add: comparePerformance_zero peers_def candidate_of_def)

interpretation entry_order: js_comparator compare_entries
proof
  show "sgn (compare_entries y x) = - sgn (compare_entries x y)" for x y
    using pagination_order.cmp_flip [of "candidate_of y" "candidate_of x"] by (simp add: compare_candidates)
  show "compare_entries x z \<le> 0" if "compare_entries x y \<le> 0" "compare_entries y z \<le> 0" for x y z
    using pagination_order.cmp_trans [of "candidate_of x" "candidate_of y" "candidate_of z"] that
    by (simp add: compare_candidates)
qed

lemma compare_entries_zero: "compare_entries a b = 0 \<longleftrightarrow> entry_key a = entry_key b"
  by (auto simp: compare_entries_def key_compare_def entry_key_def)

lemma insert_by_map: "(\<And>a b. cmp' (f a) (f b) = cmp a b) \<Longrightarrow> insert_by cmp' (f x) (map f ys) = map f (insert_by cmp x ys)"
  by (induction ys) auto

lemma js_sort_map: "(\<And>a b. cmp' (f a) (f b) = cmp a b) \<Longrightarrow> js_sort cmp' (map f xs) = map f (js_sort cmp xs)"
  by (induction xs) (simp_all add: insert_by_map)

text \<open>The number of rows before the first peer is the number of rows that did strictly better.\<close>

lemma takeWhile_peers:
  assumes "sorted_wrt (\<lambda>a b. compare_entries a b \<le> 0) xs" "e \<in> set xs"
  shows "takeWhile (\<lambda>x. \<not> peers x e) xs =
    filter (\<lambda>x. comparePerformance (candidate_of x) (candidate_of e) < 0) xs"
  using assms
proof (induction xs)
  case Nil
  then show ?case by simp
next
  case (Cons x xs)
  let ?p = "\<lambda>a b. comparePerformance (candidate_of a) (candidate_of b)"
  have le: "?p a b \<le> 0" if "compare_entries a b \<le> 0" for a b
    using that pagination_refines [of "candidate_of a" "candidate_of b"] by (simp add: compare_candidates)
  show ?case
  proof (cases "peers x e")
    case True
    then have "?p x e = 0" by (simp add: peers_candidates)
    moreover have "\<not> ?p y e < 0" if "y \<in> set xs" for y
      using that Cons.prems(1) le [of x y] \<open>?p x e = 0\<close>
        performance_order.cmp_less_trans [of "candidate_of y" "candidate_of e" "candidate_of x"]
        performance_order.cmp_zero_sym [of "candidate_of x" "candidate_of e"]
        performance_order.cmp_neg_flip [of "candidate_of y" "candidate_of x"] by auto
    ultimately have "filter (\<lambda>y. ?p y e < 0) (x # xs) = []" by (auto simp: filter_empty_conv)
    then show ?thesis using True by simp
  next
    case False
    then have "e \<in> set xs" using Cons.prems(2) by (auto simp: peers_def)
    moreover from this have "?p x e < 0"
      using Cons.prems(1) le [of x e] False by (auto simp: peers_candidates less_le)
    ultimately show ?thesis using Cons False by simp
  qed
qed

lemma sql_rank_competition:
  assumes "e \<in> set (day_entries slot db)"
  shows "sql_rank (day_entries slot db) e =
    competition_rank (map candidate_of (day_entries slot db)) (candidate_of e)"
proof -
  have "sorted_wrt (\<lambda>a b. compare_entries a b \<le> 0) (day_entries slot db)"
    unfolding day_entries_def by (rule entry_order.sorted_js_sort)
  from takeWhile_peers [OF this assms] show ?thesis
    by (simp add: sql_rank_def competition_rank_def filter_map comp_def)
qed


section \<open>The page's ranks refine the domain's\<close>

lemma entry_attempt:
  assumes "store_core db" "e \<in> set (entries db)"
  obtains a where "a \<in> set (attempts db)" "state (at_snapshot a) = SOLVED" "e = entry_of db a"
  using assms by (auto simp: store_core_def derived_ok_def solved_attempts_def)

lemma entry_valid_candidate:
  assumes "store_core db" "e \<in> set (entries db)" "le_elapsed e \<le> MAX_SAFE_INTEGER" "le_attempt e \<noteq> []"
  shows "valid_candidate (candidate_of e)"
proof -
  obtain a where a: "a \<in> set (attempts db)" "state (at_snapshot a) = SOLVED" "e = entry_of db a"
    using entry_attempt [OF assms(1,2)] .
  have "valid_snapshot (at_snapshot a)" using assms(1) a(1) by (simp add: store_core_def attempts_ok_def attempt_checks_def)
  then show ?thesis
    using a assms(3,4) by (auto simp: valid_candidate_def candidate_of_def valid_snapshot_def entry_of_def elapsed_of_def)
qed

text \<open>The primary key of the table and the checks on its columns; a consistent store has both.\<close>

definition ranked_table :: "entry_row list \<Rightarrow> bool" where
  "ranked_table es \<longleftrightarrow> distinct (map le_attempt es) \<and> list_all (\<lambda>e. valid_candidate (candidate_of e)) es"

lemma store_core_ranked:
  assumes "store_core db" "list_all (\<lambda>e. le_elapsed e \<le> MAX_SAFE_INTEGER \<and> le_attempt e \<noteq> []) (entries db)"
  shows "ranked_table (entries db)"
  using assms entry_valid_candidate [OF assms(1)]
  by (auto simp: ranked_table_def store_core_def derived_ok_def list_all_iff)

lemma entry_keys_distinct:
  assumes "distinct (map le_attempt (entries db))"
  shows "distinct (map le_attempt (filter (\<lambda>e. le_slot e = slot) (entries db)))"
  using assms by (simp add: distinct_map_filter)

text \<open>Property C35. The rows of a day with the ranks the SQL query computes are exactly what the domain's
  \<open>rankLeaderboard\<close> computes from the day's entries: the same order and the same ranks.\<close>

theorem query_ranks_refine_the_domain:
  assumes "ranked_table (entries db)"
  shows "rankLeaderboard (map candidate_of (filter (\<lambda>e. le_slot e = slot) (entries db))) =
    Inr (map (\<lambda>(e, r). (candidate_of e, r)) (ranked_entries slot db))"
proof -
  let ?es = "filter (\<lambda>e. le_slot e = slot) (entries db)"
  have v: "\<forall>c \<in> set (map candidate_of ?es). valid_candidate c"
    using assms by (auto simp: ranked_table_def list_all_iff)
  have d: "distinct (map lb_attemptId (map candidate_of ?es))"
    using entry_keys_distinct [of db slot] assms by (simp add: comp_def candidate_of_def ranked_table_def)
  have s: "js_sort comparePaginationOrder (map candidate_of ?es) = map candidate_of (day_entries slot db)"
    unfolding day_entries_def by (rule js_sort_map) (rule compare_candidates)
  have "competition_rank (map candidate_of ?es) c = competition_rank (map candidate_of (day_entries slot db)) c" for c
    by (rule competition_rank_mset) (simp add: day_entries_def)
  then show ?thesis
    using v d sql_rank_competition
    by (simp add: rankLeaderboard_Inr s ranked_entries_def comp_def)
qed

text \<open>A board of three rows, two of which share the second place.\<close>

definition board_id :: "char \<Rightarrow> string" where
  "board_id c = c # ''0000000-0000-4000-8000-000000000000''"

definition board_row :: "char \<Rightarrow> int \<Rightarrow> entry_row" where
  "board_row c wrong = \<lparr>le_attempt = board_id c, le_guest = [c], le_slot = ''1970-01-01'', le_pseudonym = [c],
     le_level = 1, le_wrong = wrong, le_elapsed = 7, le_score = 0\<rparr>"

definition small_board :: game_db where
  "small_board = small_store initial_attempt
     \<lparr>entries := [board_row (CHR ''c'') 2, board_row (CHR ''a'') 2, board_row (CHR ''b'') 0]\<rparr>"

theorem query_ranks_refine_the_domain_witness:
  "rankLeaderboard (map candidate_of (filter (\<lambda>e. le_slot e = ''1970-01-01'') (entries small_board))) =
    Inr (map (\<lambda>(e, r). (candidate_of e, r)) (ranked_entries ''1970-01-01'' small_board)) \<and>
   map snd (ranked_entries ''1970-01-01'' small_board) = [1, 2, 2]"
proof
  show "rankLeaderboard (map candidate_of (filter (\<lambda>e. le_slot e = ''1970-01-01'') (entries small_board))) =
    Inr (map (\<lambda>(e, r). (candidate_of e, r)) (ranked_entries ''1970-01-01'' small_board))"
    by (rule query_ranks_refine_the_domain) code_simp
qed code_simp

section \<open>Following the pages\<close>

text \<open>Every page from a request on, following \<open>nextPosition\<close>; one unit of fuel for a page.\<close>

fun all_pages :: "nat \<Rightarrow> page_request \<Rightarrow> game_db \<Rightarrow> leaderboard_item list result" where
  "all_pages 0 r db = Inl (JsError ''out of fuel'')"
| "all_pages (Suc n) r db = bindE (readDailyLeaderboardPage r db) (\<lambda>p.
     case lp_next p of
       None \<Rightarrow> Inr (lp_items p)
     | Some c \<Rightarrow> bindE (all_pages n (r\<lparr>pr_cursor := Some c\<rparr>) db) (\<lambda>rest. Inr (lp_items p @ rest)))"

text \<open>An entry whose position is a valid cursor: canonical identifier, counters in range.\<close>

definition cursor_entry :: "entry_row \<Rightarrow> bool" where
  "cursor_entry e \<longleftrightarrow> is_uuid (le_attempt e) \<and> uuid_of (le_attempt e) = le_attempt e \<and>
    0 \<le> le_level e \<and> le_level e \<le> 4 \<and> 0 \<le> le_wrong e \<and> le_wrong e \<le> 15 \<and>
    0 \<le> le_elapsed e \<and> le_elapsed e \<le> MAX_SAFE_INTEGER"

lemma cursor_key_position:
  "cursor_entry e \<Longrightarrow> cursor_key (position_of (projectRow (e, r))) = entry_key e"
  by (simp add: cursor_key_def position_of_def projectRow_def entry_key_def cursor_entry_def)

lemma cursor_request_valid:
  assumes "validSlotId slot" "in_range limit 1 100" "cursor_entry e"
  shows "validPageRequest \<lparr>pr_cursor = Some (position_of (projectRow (e, r))), pr_limit = limit, pr_slot = slot\<rparr>"
  using assms
  by (auto simp: validPageRequest_def position_of_def projectRow_def cursor_entry_def in_range_def
      is_safe_int_def MAX_SAFE_INTEGER_def)

lemma strict_day_entries:
  assumes "distinct (map le_attempt (entries db))"
  shows "sorted_wrt (\<lambda>a b. compare_entries a b < 0) (day_entries slot db)"
proof -
  have s: "sorted_wrt (\<lambda>a b. compare_entries a b \<le> 0) (day_entries slot db)"
    unfolding day_entries_def by (rule entry_order.sorted_js_sort)
  have "mset (map le_attempt (day_entries slot db)) = mset (map le_attempt (filter (\<lambda>e. le_slot e = slot) (entries db)))"
    by (simp add: day_entries_def)
  then have d: "distinct (map le_attempt (day_entries slot db))"
    using entry_keys_distinct [OF assms] mset_eq_imp_distinct_iff by blast
  have e: "le_attempt a = le_attempt b" if "compare_entries a b = 0" for a b
    using that by (simp add: compare_entries_zero entry_key_def)
  have ne: "compare_entries (day_entries slot db ! i) (day_entries slot db ! j) \<noteq> 0"
    if ij: "i < j" "j < length (day_entries slot db)" for i j
  proof
    assume "compare_entries (day_entries slot db ! i) (day_entries slot db ! j) = 0"
    then have "map le_attempt (day_entries slot db) ! i = map le_attempt (day_entries slot db) ! j"
      using e ij by simp
    then show False using nth_eq_iff_index_eq [OF d, of i j] ij by simp
  qed
  show ?thesis
  proof (rule sorted_wrt_iff_nth_less [THEN iffD2], intro allI impI)
    fix i j assume ij: "i < j" "j < length (day_entries slot db)"
    show "compare_entries (day_entries slot db ! i) (day_entries slot db ! j) < 0"
      using sorted_wrt_nth_less [OF s ij] ne [OF ij] by simp
  qed
qed

lemma filter_after:
  assumes "sorted_wrt (\<lambda>a b. compare_entries a b < 0) xs" "0 < k" "k \<le> length xs"
  shows "filter (\<lambda>x. 0 < key_compare (entry_key x) (entry_key (xs ! (k - 1)))) xs = drop k xs"
proof -
  let ?p = "\<lambda>x. 0 < compare_entries x (xs ! (k - 1))"
  have "\<not> ?p x" if "x \<in> set (take k xs)" for x
  proof -
    from that obtain i where i: "i < k" "i < length xs" "x = xs ! i"
      by (auto simp: in_set_conv_nth)
    show ?thesis
    proof (cases "i = k - 1")
      case True
      then show ?thesis using i by (simp add: entry_order.cmp_refl)
    next
      case False
      then have "compare_entries (xs ! i) (xs ! (k - 1)) < 0"
        using i assms by (intro sorted_wrt_nth_less [OF assms(1)]) auto
      then show ?thesis using i by simp
    qed
  qed
  moreover have "?p x" if "x \<in> set (drop k xs)" for x
  proof -
    from that obtain i where i: "i < length xs - k" "x = drop k xs ! i"
      by (auto simp: in_set_conv_nth)
    then have x: "x = xs ! (k + i)" using assms(3) by simp
    have "compare_entries (xs ! (k - 1)) (xs ! (k + i)) < 0"
      using i assms by (intro sorted_wrt_nth_less [OF assms(1)]) auto
    then show ?thesis using x entry_order.cmp_neg_flip by simp
  qed
  ultimately have "filter ?p (take k xs @ drop k xs) = drop k xs"
    by (simp only: filter_append) (simp add: filter_empty_conv filter_True)
  then show ?thesis by (simp add: compare_entries_def)
qed

text \<open>The request of the page that starts after the first \<open>k\<close> rows.\<close>

definition request_after :: "string \<Rightarrow> js_number \<Rightarrow> game_db \<Rightarrow> nat \<Rightarrow> page_request" where
  "request_after slot limit db k =
    \<lparr>pr_cursor = (if k = 0 then None else Some (position_of (projectRow (ranked_entries slot db ! (k - 1))))),
     pr_limit = limit, pr_slot = slot\<rparr>"

lemma ranked_nth: "i < length (day_entries slot db) \<Longrightarrow> fst (ranked_entries slot db ! i) = day_entries slot db ! i"
  by (simp add: ranked_entries_def)

lemma length_ranked [simp]: "length (ranked_entries slot db) = length (day_entries slot db)"
  by (simp add: ranked_entries_def)

lemma set_day_entries: "set (day_entries slot db) = {e \<in> set (entries db). le_slot e = slot}"
  by (auto simp: day_entries_def)

lemma filter_ranked: "filter (\<lambda>x. q (fst x)) (ranked_entries slot db) =
    map (\<lambda>e. (e, sql_rank (day_entries slot db) e)) (filter q (day_entries slot db))"
  by (simp add: ranked_entries_def filter_map comp_def)

text \<open>A day whose pages can be followed: the positions of its rows are valid cursors.\<close>

definition pageable :: "string \<Rightarrow> js_number \<Rightarrow> game_db \<Rightarrow> bool" where
  "pageable slot limit db \<longleftrightarrow> distinct (map le_attempt (entries db)) \<and> validSlotId slot \<and> in_range limit 1 100 \<and>
    list_all cursor_entry (day_entries slot db)"

lemma pageable_entry: "pageable slot limit db \<Longrightarrow> i < length (day_entries slot db) \<Longrightarrow> cursor_entry (day_entries slot db ! i)"
  by (auto simp: pageable_def list_all_iff)

lemma ranked_pair: "i < length (day_entries slot db) \<Longrightarrow> \<exists>r. ranked_entries slot db ! i = (day_entries slot db ! i, r)"
  by (simp add: ranked_entries_def)

lemma rows_after:
  assumes "pageable slot limit db" "k \<le> length (day_entries slot db)"
  shows "filter (\<lambda>x. case pr_cursor (request_after slot limit db k) of None \<Rightarrow> True
      | Some c \<Rightarrow> 0 < key_compare (entry_key (fst x)) (cursor_key c)) (ranked_entries slot db) =
    drop k (ranked_entries slot db)"
proof (cases k)
  case 0
  then show ?thesis by (simp add: request_after_def)
next
  case (Suc j)
  let ?e = "day_entries slot db ! j"
  have j: "j < length (day_entries slot db)" using assms(2) Suc by simp
  obtain r where r: "ranked_entries slot db ! j = (?e, r)" using ranked_pair [OF j] by auto
  have key: "cursor_key (position_of (projectRow (?e, r))) = entry_key ?e"
    using cursor_key_position pageable_entry [OF assms(1) j] by blast
  have "distinct (map le_attempt (entries db))" using assms(1) by (simp add: pageable_def)
  from filter_after [OF strict_day_entries [OF this], of k slot] assms(2) Suc
  have "filter (\<lambda>x. 0 < key_compare (entry_key x) (entry_key ?e)) (day_entries slot db) = drop k (day_entries slot db)"
    by simp
  moreover have "pr_cursor (request_after slot limit db k) = Some (position_of (projectRow (?e, r)))"
    using Suc r by (simp add: request_after_def)
  ultimately show ?thesis
    using filter_ranked [of "\<lambda>x. 0 < key_compare (entry_key x) (entry_key ?e)" slot db] key
    by (simp add: ranked_entries_def drop_map)
qed

lemma request_after_accepted:
  assumes "pageable slot limit db" "k \<le> length (day_entries slot db)"
  shows "validPageRequest (request_after slot limit db k)"
    and "pr_cursor (request_after slot limit db k) = Some c \<Longrightarrow> cursor_exists slot c db"
proof -
  have ok: "validSlotId slot" "in_range limit 1 100" using assms(1) by (auto simp: pageable_def)
  show "validPageRequest (request_after slot limit db k)"
  proof (cases k)
    case 0
    then show ?thesis using ok by (simp add: request_after_def validPageRequest_def)
  next
    case (Suc j)
    then have j: "j < length (day_entries slot db)" using assms(2) by simp
    obtain r where "ranked_entries slot db ! j = (day_entries slot db ! j, r)" using ranked_pair [OF j] by auto
    then show ?thesis
      using Suc cursor_request_valid [OF ok pageable_entry [OF assms(1) j], of r] by (simp add: request_after_def)
  qed
  assume c: "pr_cursor (request_after slot limit db k) = Some c"
  then obtain j where Suc: "k = Suc j" by (cases k) (auto simp: request_after_def)
  then have j: "j < length (day_entries slot db)" using assms(2) by simp
  obtain r where r: "ranked_entries slot db ! j = (day_entries slot db ! j, r)" using ranked_pair [OF j] by auto
  then have "c = position_of (projectRow (day_entries slot db ! j, r))"
    using c Suc by (simp add: request_after_def)
  then have "entry_key (day_entries slot db ! j) = cursor_key c"
    using cursor_key_position [OF pageable_entry [OF assms(1) j]] by simp
  moreover have "day_entries slot db ! j \<in> {e \<in> set (entries db). le_slot e = slot}"
    using j nth_mem set_day_entries by blast
  ultimately show "cursor_exists slot c db" by (auto simp: cursor_exists_def list_ex_iff)
qed

lemma page_after:
  assumes "pageable slot limit db" "k \<le> length (day_entries slot db)"
  defines "n \<equiv> nat (js_floor limit)" and "R \<equiv> ranked_entries slot db"
  shows "readDailyLeaderboardPage (request_after slot limit db k) db =
    Inr \<lparr>lp_items = map projectRow (take n (drop k R)),
         lp_next = (if k + n < length R then pr_cursor (request_after slot limit db (k + n)) else None)\<rparr>"
proof -
  have n: "0 < n" using assms(1) by (simp add: pageable_def in_range_def n_def)
  have fields: "pr_slot (request_after slot limit db k) = slot" "pr_limit (request_after slot limit db k) = limit"
    by (simp_all add: request_after_def)
  have ex: "\<not> (case pr_cursor (request_after slot limit db k) of None \<Rightarrow> False | Some c \<Rightarrow> \<not> cursor_exists slot c db)"
    using request_after_accepted(2) [OF assms(1,2)] by (auto split: option.split)
  have more: "n < length (take (n + 1) (drop k R)) \<longleftrightarrow> k + n < length R" using assms(2) by (auto simp: R_def)
  have last: "last (map projectRow (take n (drop k R))) = projectRow (R ! (k + n - 1))" if "k + n < length R"
    using that n by (simp add: last_conv_nth last_map)
  show ?thesis
    unfolding readDailyLeaderboardPage_def Let_def fields rows_after [OF assms(1,2)]
    using request_after_accepted(1) [OF assms(1,2)] ex more last n
    by (auto simp: request_after_def n_def [symmetric] R_def [symmetric] min_absorb1)
qed

lemma request_after_next:
  "0 < k' \<Longrightarrow> (request_after slot limit db k)\<lparr>pr_cursor := pr_cursor (request_after slot limit db k')\<rparr> =
    request_after slot limit db k'"
  by (simp add: request_after_def)

lemma all_pages_after:
  assumes "pageable slot limit db" "k \<le> length (day_entries slot db)" "length (day_entries slot db) < k + fuel"
  shows "all_pages fuel (request_after slot limit db k) db =
    Inr (map projectRow (drop k (ranked_entries slot db)))"
  using assms(2,3)
proof (induction fuel arbitrary: k)
  case 0
  then show ?case by simp
next
  case (Suc fuel)
  let ?R = "ranked_entries slot db" and ?n = "nat (js_floor limit)"
  have n: "0 < ?n" using assms(1) by (simp add: pageable_def in_range_def)
  show ?case
  proof (cases "k + ?n < length ?R")
    case False
    then show ?thesis by (simp add: page_after [OF assms(1) Suc.prems(1)])
  next
    case True
    then have "all_pages fuel (request_after slot limit db (k + ?n)) db = Inr (map projectRow (drop (k + ?n) ?R))"
      using Suc.prems n by (intro Suc.IH) auto
    moreover obtain c where c: "pr_cursor (request_after slot limit db (k + ?n)) = Some c"
      using n by (auto simp: request_after_def)
    moreover have "(request_after slot limit db k)\<lparr>pr_cursor := Some c\<rparr> = request_after slot limit db (k + ?n)"
      using request_after_next [of "k + ?n" slot limit db k] n c by simp
    moreover have "take ?n (drop k ?R) @ drop (k + ?n) ?R = drop k ?R"
      by (metis add.commute append_take_drop_id drop_drop)
    ultimately show ?thesis
      using True by (simp add: page_after [OF assms(1) Suc.prems(1)] flip: map_append)
  qed
qed

text \<open>Following the pages of a day from the first one, position by position, ends and
  yields every row of the day's leaderboard exactly once, in its order and with its rank, whatever the
  page size between 1 and 100.\<close>

lemma pages_cover_the_leaderboard:
  assumes "pageable slot limit db" "length (day_entries slot db) \<le> fuel"
  shows "all_pages (Suc fuel) \<lparr>pr_cursor = None, pr_limit = limit, pr_slot = slot\<rparr> db =
    Inr (map projectRow (ranked_entries slot db))"
  using all_pages_after [OF assms(1), of 0 "Suc fuel"] assms(2) by (simp add: request_after_def)

lemma pages_cover_the_leaderboard_example:
  "all_pages 4 \<lparr>pr_cursor = None, pr_limit = int_number 2, pr_slot = ''1970-01-01''\<rparr> small_board =
    Inr (map projectRow (ranked_entries ''1970-01-01'' small_board)) \<and>
   map (hd \<circ> li_attemptId \<circ> projectRow) (ranked_entries ''1970-01-01'' small_board) = ''bac''"
proof
  have "pageable ''1970-01-01'' (int_number 2) small_board" by code_simp
  moreover have "length (day_entries ''1970-01-01'' small_board) \<le> 3" by code_simp
  ultimately show "all_pages 4 \<lparr>pr_cursor = None, pr_limit = int_number 2, pr_slot = ''1970-01-01''\<rparr> small_board =
    Inr (map projectRow (ranked_entries ''1970-01-01'' small_board))"
    using pages_cover_the_leaderboard [of _ _ _ 3] by simp
qed code_simp

end
