(* ===== verification/Profile.thy ===== *)
theory Profile
  imports Gameplay_Theorems
begin

text \<open>
  \<^verbatim>\<open>packages/database/src/gameplay/profile.ts\<close>: \<open>readProfile\<close> settles every attempt of the guest whose
  case has closed, then reports the statistics and the regional knowledge. The knowledge is read
  from the table that finalization maintains; the result here is that it is what the domain's
  \<open>calculateRegionalKnowledge\<close> would compute from the guest's finished cases.

  The last reading of the clock, which names the current day, is \<open>now_receipt\<close>. The column
  \<^verbatim>\<open>numeric(8,2)\<close> times 100 is the counter in hundredths.
\<close>

section \<open>The transaction\<close>

record profile_projection = profile_statistics +
  regionalKnowledge :: "regional_knowledge list"

definition compare_texts :: "string \<Rightarrow> string \<Rightarrow> int" where
  "compare_texts a b = (if a < b then -1 else if a = b then 0 else 1)"

definition compare_slots :: "attempt_row \<Rightarrow> attempt_row \<Rightarrow> int" where
  "compare_slots a b =
    (let c = compare_texts (at_slot a) (at_slot b) in if c \<noteq> 0 then c else compare_texts (at_id a) (at_id b))"

definition active_ids :: "string \<Rightarrow> game_db \<Rightarrow> string list" where
  "active_ids guestId db = map at_id (js_sort compare_slots
     (filter (\<lambda>a. at_guest a = guestId \<and> state (at_snapshot a) = ACTIVE) (attempts db)))"

fun expire_all :: "store_env \<Rightarrow> string \<Rightarrow> string list \<Rightarrow> unit tx" where
  "expire_all env guestId [] = returnT ()"
| "expire_all env guestId (i # ids) =
    bindT (queryT (attemptRow env i guestId)) (\<lambda>row.
    bindT (case row of None \<Rightarrow> returnT ()
      | Some v \<Rightarrow> bindT (expireIfClosed v (now_sample env)) (\<lambda>_. returnT ())) (\<lambda>_.
    expire_all env guestId ids))"

definition finalized_snapshots :: "string \<Rightarrow> game_db \<Rightarrow> attempt_snapshot list" where
  "finalized_snapshots guestId db = map at_snapshot (js_sort compare_slots
     (filter (\<lambda>a. at_guest a = guestId \<and> list_ex (\<lambda>f. fi_attempt f = at_id a) (finalizations db)) (attempts db)))"

definition participation_of :: "string \<Rightarrow> game_db \<Rightarrow> string list" where
  "participation_of guestId db =
    js_sort compare_texts (map pd_day (filter (\<lambda>d. pd_guest d = guestId) (participation db)))"

text \<open>\<^verbatim>\<open>Math.floor((alpha * 100 + (alpha + beta) / 2) / (alpha + beta))\<close>, on integers.\<close>

definition display_percentage :: "int \<Rightarrow> int \<Rightarrow> int" where
  "display_percentage alpha beta = (200 * alpha + (alpha + beta)) div (2 * (alpha + beta))"

text \<open>The catalog joined with the guest's rows: the \<^verbatim>\<open>COALESCE\<close> of a missing row is 2, 2 and 0.\<close>

definition region_row_of :: "string \<Rightarrow> game_db \<Rightarrow> string \<Rightarrow> regional_knowledge" where
  "region_row_of guestId db r =
    (let k = (case find (\<lambda>k. rk_guest k = guestId \<and> rk_region k = r) (knowledge db) of
           None \<Rightarrow> \<lparr>alphaHundredths = 200, betaHundredths = 200, sampleCount = 0\<rparr>
         | Some k \<Rightarrow> rk_counters k)
     in knowledge_counters.extend k \<lparr>regionId = r,
          displayPercentage = display_percentage (alphaHundredths k) (betaHundredths k)\<rparr>)"

definition regional_rows :: "string \<Rightarrow> game_db \<Rightarrow> regional_knowledge list" where
  "regional_rows guestId db = map (region_row_of guestId db) (js_sort compare_texts (region_catalog db))"

definition readProfile :: "store_env \<Rightarrow> string \<Rightarrow> profile_projection option tx" where
  "readProfile env guestId =
    bindT (queryT (lockGuest guestId)) (\<lambda>locked.
    if \<not> locked then returnT None else
    bindT (queryT (active_ids guestId)) (\<lambda>ids.
    bindT (expire_all env guestId ids) (\<lambda>_.
    bindT (queryT (finalized_snapshots guestId)) (\<lambda>finalized.
    bindT (queryT (participation_of guestId)) (\<lambda>days.
    bindT (queryT (regional_rows guestId)) (\<lambda>regions.
    bindT (liftT (calculateProfileStatistics finalized days (utc_day (now_receipt env)))) (\<lambda>s.
    returnT (Some (profile_statistics.extend s \<lparr>regionalKnowledge = regions\<rparr>)))))))))"

section \<open>Expiring every attempt of the guest\<close>

lemma settle_store_static [simp]:
  "revisions (settle_store now cl a db) = revisions db"
  "revision_regions (settle_store now cl a db) = revision_regions db"
  "region_catalog (settle_store now cl a db) = region_catalog db"
  "length (attempts (settle_store now cl a db)) = length (attempts db)"
  by (simp_all add: settle_store_def) (simp_all add: finalized_store_def Let_def update_where_def)

text \<open>An attempt that is still active after a settling was there before it, and its case is open if it
  is the one that was settled.\<close>

lemma settle_store_active:
  assumes "store_core db" "a \<in> set (attempts db)" "at_started a < cl"
    "x \<in> set (attempts (settle_store now cl a db))" "\<not> terminal x"
  shows "x \<in> set (attempts db) \<and> (at_id x = at_id a \<longrightarrow> x = a \<and> now < cl)"
proof -
  have d: "distinct (map at_id (attempts db))" using assms(1) by (simp add: store_core_def attempts_ok_def)
  show ?thesis
  proof (cases "terminal a \<or> now < cl")
    case True
    then have "x \<in> set (attempts db)" using assms(4) by (auto simp: settle_store_def)
    moreover from this have "x = a" if "at_id x = at_id a"
      using distinct_key_eq [OF d _ assms(2)] that by blast
    ultimately show ?thesis using True assms(5) by auto
  next
    case False
    then have b: "becomes db a (settle now cl a)" using expire_becomes assms by blast
    obtain xs ys where s: "attempts db = xs @ a # ys"
      "attempts (finalized_store (settle now cl a) db) = xs @ settle now cl a # ys"
      using becomes_split [OF assms(1) b] .
    have "x \<in> set xs \<union> set ys"
      using assms(4,5) b False by (auto simp: settle_store_def s(2) becomes_def)
    moreover have "at_id x \<noteq> at_id a" using calculation d by (auto simp: s(1) image_iff)
    ultimately show ?thesis by (auto simp: s(1))
  qed
qed

definition open_at :: "int \<Rightarrow> game_db \<Rightarrow> attempt_row \<Rightarrow> bool" where
  "open_at now db a \<longleftrightarrow> list_all (\<lambda>r. rv_id r = at_revision a \<longrightarrow> now < rv_closes r) (revisions db)"

lemma expire_all_effect:
  assumes "store_ok db"
  shows "\<exists>db'. expire_all env g ids db = Inr ((), db') \<and> store_ok db' \<and> evolves db db' \<and>
    revisions db' = revisions db \<and> revision_regions db' = revision_regions db \<and>
    region_catalog db' = region_catalog db \<and> length (attempts db') = length (attempts db) \<and>
    (\<forall>x \<in> set (attempts db'). \<not> terminal x \<longrightarrow> x \<in> set (attempts db) \<and>
       (at_guest x = g \<and> at_id x \<in> set ids \<longrightarrow> open_at (now_sample env) db x))"
  using assms
proof (induction ids arbitrary: db)
  case Nil
  then show ?case by (simp add: evolves_refl)
next
  case (Cons i ids)
  have core: "store_core db" using Cons.prems by (simp add: store_ok_def)
  have d: "distinct (map at_id (attempts db))" "distinct (map rv_id (revisions db))"
    using core by (simp_all add: store_core_def attempts_ok_def content_ok_def)
  show ?case
  proof (cases "attemptRow env i g db")
    case None
    have "\<not> (at_guest x = g \<and> at_id x = i)" if "x \<in> set (attempts db)" for x
      using attemptRow_run [OF core that, of env] None by auto
    moreover obtain db' where "expire_all env g ids db = Inr ((), db')" "store_ok db'" "evolves db db'"
      "revisions db' = revisions db" "revision_regions db' = revision_regions db" "region_catalog db' = region_catalog db"
      "length (attempts db') = length (attempts db)"
      "\<forall>x \<in> set (attempts db'). \<not> terminal x \<longrightarrow> x \<in> set (attempts db) \<and>
         (at_guest x = g \<and> at_id x \<in> set ids \<longrightarrow> open_at (now_sample env) db x)"
      using Cons.IH [OF Cons.prems] by blast
    ultimately show ?thesis using None by (intro exI [of _ db']) (auto simp: bindT_def)
  next
    case (Some v)
    from attemptRow_Some [OF core Some] obtain a cl where a: "a \<in> set (attempts db)" "at_id a = i"
      "at_guest a = g" "at_started a < cl" "\<exists>r \<in> set (revisions db). rv_id r = at_revision a \<and> cl = rv_closes r"
      "v = view_of a cl (now_row env)" by metis
    let ?db = "settle_store (now_sample env) cl a db"
    obtain r where r: "r \<in> set (revisions db)" "rv_id r = at_revision a" "cl = rv_closes r" using a(5) by blast
    have o: "now_sample env < cl \<Longrightarrow> open_at (now_sample env) db a"
      using distinct_key_eq [OF d(2) _ r(1)] r(2,3) by (auto simp: open_at_def list_all_iff)
    obtain sm' where e: "expireIfClosed v (now_sample env) db =
        Inr (view_of (settle (now_sample env) cl a) cl sm', ?db)"
      using expire_run [OF core a(1,4), of "now_row env" "now_sample env"] a(6) by auto
    have ok: "store_ok ?db" "evolves db ?db"
      using settle_store_ok [OF Cons.prems a(1,4)] settle_evolves [OF core a(1,4)] by auto
    obtain db' where r: "expire_all env g ids ?db = Inr ((), db')" "store_ok db'" "evolves ?db db'"
      "revisions db' = revisions ?db" "revision_regions db' = revision_regions ?db" "region_catalog db' = region_catalog ?db"
      "length (attempts db') = length (attempts ?db)"
      "\<forall>x \<in> set (attempts db'). \<not> terminal x \<longrightarrow> x \<in> set (attempts ?db) \<and>
         (at_guest x = g \<and> at_id x \<in> set ids \<longrightarrow> open_at (now_sample env) ?db x)"
      using Cons.IH [OF ok(1)] by blast
    have "x \<in> set (attempts db) \<and> (at_guest x = g \<and> at_id x \<in> set (i # ids) \<longrightarrow> open_at (now_sample env) db x)"
      if "x \<in> set (attempts db')" "\<not> terminal x" for x
    proof -
      have x: "x \<in> set (attempts ?db)" using r(8) that by blast
      show ?thesis
        using settle_store_active [OF core a(1,4) x that(2)] o r(8) that a(2)
        by (auto simp: open_at_def)
    qed
    moreover have "expire_all env g (i # ids) db = Inr ((), db')"
      using Some e r(1) by (simp add: bindT_def)
    ultimately show ?thesis
      using r(2,4-7) evolves_trans [OF ok(2) r(3)] by (intro exI [of _ db']) simp
  qed
qed

section \<open>What the profile reports\<close>

lemma finalized_snapshots_terminals:
  assumes "store_core db"
  shows "mset (finalized_snapshots g db) =
    mset (map at_snapshot (filter (\<lambda>a. terminal a \<and> at_guest a = g) (attempts db)))"
proof -
  have f: "set (finalizations db) = finalization_of ` terminals db" and d: "distinct (map at_id (attempts db))"
    using assms by (simp_all add: store_core_def derived_ok_def attempts_ok_def)
  have "list_ex (\<lambda>f. fi_attempt f = at_id a) (finalizations db) \<longleftrightarrow> terminal a" if "a \<in> set (attempts db)" for a
  proof -
    have "x = a" if "x \<in> set (attempts db)" "at_id x = at_id a" for x
      using distinct_key_eq [OF d that(1) \<open>a \<in> set (attempts db)\<close> that(2)] .
    then show ?thesis using that by (auto simp: list_ex_iff f terminals_def finalization_of_def)
  qed
  then have "filter (\<lambda>a. at_guest a = g \<and> list_ex (\<lambda>f. fi_attempt f = at_id a) (finalizations db)) (attempts db) =
      filter (\<lambda>a. terminal a \<and> at_guest a = g) (attempts db)"
    by (intro filter_cong) auto
  then show ?thesis by (simp add: finalized_snapshots_def)
qed

lemma region_row_summary:
  assumes "store_core db"
  shows "region_row_of g db r = region_summary (cases_of db g) r"
proof -
  let ?k = "counters_of (naming r (cases_of db g))"
  have "stored_counters (knowledge db) g r = ?k" using assms by (simp add: store_core_def knowledge_ok_def)
  then have "(case find (\<lambda>k. rk_guest k = g \<and> rk_region k = r) (knowledge db) of
      None \<Rightarrow> \<lparr>alphaHundredths = 200, betaHundredths = 200, sampleCount = 0\<rparr> | Some k \<Rightarrow> rk_counters k) = ?k"
    by (simp add: stored_counters_def knowledge_key_def initialRegionalKnowledge_def
        INITIAL_ALPHA_HUNDREDTHS_def INITIAL_BETA_HUNDREDTHS_def cong: option.case_cong)
  moreover have "alphaHundredths ?k + betaHundredths ?k = 400 + 100 * sampleCount ?k"
    using counters_of_sum [of "naming r (cases_of db g)"] by (simp add: counters_of_def)
  then have "display_percentage (alphaHundredths ?k) (betaHundredths ?k) =
      (200 * alphaHundredths ?k + (400 + 100 * sampleCount ?k)) div (2 * (400 + 100 * sampleCount ?k))"
    by (simp only: display_percentage_def)
  ultimately show ?thesis by (simp add: region_row_of_def region_summary_def Let_def)
qed


lemma readProfile_run:
  assumes "store_ok db" "readProfile env g db = Inr (Some p, db')"
  obtains s where "store_ok db'" "evolves db db'"
    "calculateProfileStatistics (finalized_snapshots g db') (participation_of g db') (utc_day (now_receipt env)) = Inr s"
    "p = profile_statistics.extend s \<lparr>regionalKnowledge = regional_rows g db'\<rparr>"
    "\<forall>x \<in> set (attempts db'). at_guest x = g \<longrightarrow> terminal x \<or> open_at (now_sample env) db' x"
    "revision_regions db' = revision_regions db" "region_catalog db' = region_catalog db"
    "length (attempts db') = length (attempts db)"
proof -
  obtain db1 where r: "expire_all env g (active_ids g db) db = Inr ((), db1)" "store_ok db1" "evolves db db1"
    "revisions db1 = revisions db" "revision_regions db1 = revision_regions db" "region_catalog db1 = region_catalog db"
    "length (attempts db1) = length (attempts db)"
    "\<forall>x \<in> set (attempts db1). \<not> terminal x \<longrightarrow> x \<in> set (attempts db) \<and>
       (at_guest x = g \<and> at_id x \<in> set (active_ids g db) \<longrightarrow> open_at (now_sample env) db x)"
    using expire_all_effect [OF assms(1)] by blast
  have "db' = db1" using assms(2) r(1) by (auto simp: readProfile_def tx_Inr split: if_splits)
  moreover have "terminal x \<or> open_at (now_sample env) db1 x" if "x \<in> set (attempts db1)" "at_guest x = g" for x
  proof (cases "terminal x")
    case False
    then have "x \<in> set (attempts db)" using r(8) that by blast
    then have "at_id x \<in> set (active_ids g db)"
      using False that(2) by (auto simp: active_ids_def terminal_def)
    then show ?thesis using r(4,8) that False by (auto simp: open_at_def)
  qed simp
  moreover have "\<exists>s. calculateProfileStatistics (finalized_snapshots g db1) (participation_of g db1)
      (utc_day (now_receipt env)) = Inr s \<and> p = profile_statistics.extend s \<lparr>regionalKnowledge = regional_rows g db1\<rparr>"
    using assms(2) r(1) by (auto simp: readProfile_def tx_Inr split: if_splits)
  ultimately show thesis using r(2,3,5,6,7) that by blast
qed

text \<open>The foreign keys of the content: a case names regions of the catalog, which lists each once.\<close>

definition regions_known :: "game_db \<Rightarrow> bool" where
  "regions_known db \<longleftrightarrow> distinct (region_catalog db) \<and> [] \<notin> set (region_catalog db) \<and>
    list_all (\<lambda>r. rr_region r \<in> set (region_catalog db)) (revision_regions db)"

lemma cases_well_formed:
  assumes "store_core db" "regions_known db"
  shows "list_all well_formed_case (cases_of db g)"
    and "uniq (js_sort compare_texts (region_catalog db) @ concat (map outcome_regionIds (cases_of db g))) =
      js_sort compare_texts (region_catalog db)"
proof -
  have rs: "set (regions_of db i) \<subseteq> set (region_catalog db)" for i
    using assms(2) by (auto simp: regions_of_def regions_known_def list_all_iff)
  then show "list_all well_formed_case (cases_of db g)"
    using assms attempt_row_valid [OF assms(1)]
    by (fastforce simp: cases_of_def case_of_def well_formed_case_def list_all_iff terminal_def regions_known_def)
  show "uniq (js_sort compare_texts (region_catalog db) @ concat (map outcome_regionIds (cases_of db g))) =
      js_sort compare_texts (region_catalog db)"
    using assms(2) rs by (intro uniq_absorb) (auto simp: regions_known_def cases_of_def case_of_def)
qed

text \<open>Property C36. The profile a guest reads is that of the settled store: no attempt of the guest whose
  case has closed is left active, every finished case of the guest is counted once as solved or
  failed, and the regional knowledge, which finalization has accumulated row by row, equals what the
  domain's \<open>calculateRegionalKnowledge\<close> computes from scratch from those cases.\<close>

theorem profile_agrees_with_the_finished_cases:
  assumes "store_ok db" "regions_known db" "length (attempts db) \<le> 80000000000"
    and "readProfile env g db = Inr (Some p, db')"
  shows "store_ok db' \<and> evolves db db' \<and>
    list_all (\<lambda>a. at_guest a \<noteq> g \<or> terminal a \<or> open_at (now_sample env) db' a) (attempts db') \<and>
    solvedCount p + failedCount p = int (length (cases_of db' g)) \<and>
    solvedCount p = int (length (filter (\<lambda>c. state (outcome_attempt c) = SOLVED) (cases_of db' g))) \<and>
    calculateRegionalKnowledge (js_sort compare_texts (region_catalog db)) (cases_of db' g) =
      Inr (regionalKnowledge p)"
proof -
  from readProfile_run [OF assms(1,4)] obtain s where r: "store_ok db'" "evolves db db'"
    "calculateProfileStatistics (finalized_snapshots g db') (participation_of g db') (utc_day (now_receipt env)) = Inr s"
    "p = profile_statistics.extend s \<lparr>regionalKnowledge = regional_rows g db'\<rparr>"
    "\<forall>x \<in> set (attempts db'). at_guest x = g \<longrightarrow> terminal x \<or> open_at (now_sample env) db' x"
    "revision_regions db' = revision_regions db" "region_catalog db' = region_catalog db"
    "length (attempts db') = length (attempts db)" .
  have core: "store_core db'" and known: "regions_known db'"
    using r assms(2) by (simp_all add: store_ok_def regions_known_def)
  have m: "mset (finalized_snapshots g db') = mset (map outcome_attempt (cases_of db' g))"
    using finalized_snapshots_terminals [OF core] by (simp add: cases_of_def case_of_def comp_def)
  have n: "length (filter P (finalized_snapshots g db')) = length (filter (\<lambda>c. P (outcome_attempt c)) (cases_of db' g))" for P
  proof -
    have "mset (filter P (finalized_snapshots g db')) = mset (filter P (map outcome_attempt (cases_of db' g)))"
      by (simp only: mset_filter m)
    then have "length (filter P (finalized_snapshots g db')) = length (filter P (map outcome_attempt (cases_of db' g)))"
      by (rule mset_eq_length)
    then show ?thesis by (simp add: filter_map comp_def)
  qed
  have st: "solvedCount s = int (length (filter (\<lambda>a. state a = SOLVED) (finalized_snapshots g db')))"
    "failedCount s = int (length (filter (\<lambda>a. state a \<noteq> SOLVED) (finalized_snapshots g db')))"
    using calculateProfileStatistics_sound [OF r(3)] by (auto simp: statistics_spec_def)
  have "length (cases_of db' g) \<le> length (attempts db')" by (simp add: cases_of_def)
  then have k: "calculateRegionalKnowledge (js_sort compare_texts (region_catalog db)) (cases_of db' g) =
      Inr (map (region_summary (cases_of db' g)) (js_sort compare_texts (region_catalog db)))"
    using cases_well_formed [OF core known] known assms(3) r(8) unfolding r(7) [symmetric]
    by (subst regional_knowledge_run) (simp_all add: regions_known_def)
  have rows: "regionalKnowledge p = map (region_summary (cases_of db' g)) (js_sort compare_texts (region_catalog db))"
    using region_row_summary [OF core] unfolding r(4) by (simp add: regional_rows_def profile_statistics.defs r(7))
  have "solvedCount p = solvedCount s" "failedCount p = failedCount s"
    unfolding r(4) by (simp_all add: profile_statistics.defs)
  then have counts: "solvedCount p = int (length (filter (\<lambda>c. state (outcome_attempt c) = SOLVED) (cases_of db' g)))"
    "failedCount p = int (length (filter (\<lambda>c. state (outcome_attempt c) \<noteq> SOLVED) (cases_of db' g)))"
    unfolding st n by simp_all
  have "solvedCount p + failedCount p = int (length (cases_of db' g))"
    unfolding counts by (rule filter_split_length [symmetric])
  moreover have "list_all (\<lambda>a. at_guest a \<noteq> g \<or> terminal a \<or> open_at (now_sample env) db' a) (attempts db')"
    using r(5) by (auto simp: list_all_iff)
  ultimately show ?thesis
    using r(1,2) k counts(1) unfolding rows by (intro conjI)
qed

theorem profile_agrees_with_the_finished_cases_witness:
  "\<exists>p db'. readProfile (plain_env 90000000 ''1'') ''g'' (small_store initial_attempt) = Inr (Some p, db') \<and>
    calculateRegionalKnowledge [''north''] (cases_of db' ''g'') = Inr (regionalKnowledge p) \<and>
    solvedCount p + failedCount p = 1"
proof -
  define show_profile where "show_profile = (\<lambda>r :: store_error + profile_projection option \<times> game_db.
    case r of Inr (Some p, db) \<Rightarrow> Some (failedCount p, length (cases_of db ''g'')) | _ \<Rightarrow> None)"
  have "show_profile (readProfile (plain_env 90000000 ''1'') ''g'' (small_store initial_attempt)) = Some (1, 1)"
    unfolding show_profile_def by code_simp
  then obtain p db' where r: "readProfile (plain_env 90000000 ''1'') ''g'' (small_store initial_attempt) = Inr (Some p, db')"
    and n: "length (cases_of db' ''g'') = 1"
    by (auto simp: show_profile_def split: sum.splits option.splits prod.splits)
  have "regions_known (small_store initial_attempt)" by code_simp
  moreover have "length (attempts (small_store initial_attempt)) \<le> 80000000000" by (simp add: small_store_def)
  moreover have "js_sort compare_texts (region_catalog (small_store initial_attempt)) = [''north'']" by code_simp
  ultimately show ?thesis
    using profile_agrees_with_the_finished_cases [OF small_store_ok _ _ r] r n by auto
qed

end
