(* ===== verification/Suggestions.thy ===== *)
theory Suggestions
  imports Gameplay_Theorems "HOL-Library.Sublist"
begin

text \<open>
  \<^verbatim>\<open>packages/database/src/gameplay/suggestions.ts\<close>: the index of a published revision, the permission
  to ask for suggestions, the cache in front of the index and the filter that ranks the matches.

  Results: the twenty suggestions returned are the best matches, only the holder of an active attempt
  on the current case gets any, and a cache that answers nothing, fails, or answers with what the
  database holds does not change the answer.

  PostgreSQL's \<^verbatim>\<open>lower\<close> is an argument, as the collation is.
\<close>

section \<open>The index\<close>

record suggestion_row = entity_suggestion +
  sg_searchName :: string
  sg_searchRole :: string
  sg_searchAliases :: "string list"
  sg_sortRank :: int

record suggestion_index =
  si_revisionId :: string
  si_entities :: "suggestion_row list"

definition readCurrentPublishedRevision :: "store_env \<Rightarrow> game_db \<Rightarrow> string option" where
  "readCurrentPublishedRevision env db = map_option rv_id (currentRevision (now_sample env) db)"

definition alias_order :: "store_env \<Rightarrow> (string \<Rightarrow> string) \<Rightarrow> string \<Rightarrow> string \<Rightarrow> int" where
  "alias_order env sql_lower a b =
    (let c = collate env (sql_lower a) (sql_lower b) in if c \<noteq> 0 then c else collate env a b)"

definition aliases_of :: "store_env \<Rightarrow> (string \<Rightarrow> string) \<Rightarrow> game_db \<Rightarrow> entity_row \<Rightarrow> string list" where
  "aliases_of env sql_lower db e = js_sort (alias_order env sql_lower)
     (map al_alias (filter (\<lambda>a. al_revision a = en_revision e \<and> al_entity a = en_id e) (aliases db)))"

definition index_order :: "store_env \<Rightarrow> (string \<Rightarrow> string) \<Rightarrow> entity_row \<Rightarrow> entity_row \<Rightarrow> int" where
  "index_order env sql_lower a b =
    (let c = collate env (sql_lower (en_name a)) (sql_lower (en_name b)) in
     if c \<noteq> 0 then c else if en_id a < en_id b then -1 else if en_id a = en_id b then 0 else 1)"

text \<open>The inner join drops an entity without an alias.\<close>

definition index_entities :: "store_env \<Rightarrow> (string \<Rightarrow> string) \<Rightarrow> string \<Rightarrow> game_db \<Rightarrow> entity_row list" where
  "index_entities env sql_lower revisionId db =
    take 1001 (js_sort (index_order env sql_lower)
      (filter (\<lambda>e. en_revision e = revisionId \<and> en_eligible e \<and> aliases_of env sql_lower db e \<noteq> []) (entities db)))"

definition index_row :: "store_env \<Rightarrow> (string \<Rightarrow> string) \<Rightarrow> game_db \<Rightarrow> entity_row \<Rightarrow> nat \<Rightarrow> suggestion_row" where
  "index_row env sql_lower db e i =
    \<lparr>es_entityId = en_publicId e, es_canonicalName = en_name e, es_publicRole = en_role e,
     es_aliases = aliases_of env sql_lower db e,
     sg_searchName = sql_lower (en_name e), sg_searchRole = sql_lower (en_role e),
     sg_searchAliases = map sql_lower (aliases_of env sql_lower db e), sg_sortRank = int i\<rparr>"

definition readPublishedSuggestionIndex ::
  "store_env \<Rightarrow> (string \<Rightarrow> string) \<Rightarrow> string \<Rightarrow> game_db \<Rightarrow> suggestion_index option result" where
  "readPublishedSuggestionIndex env sql_lower revisionId db =
    (if \<not> list_ex (\<lambda>r. rv_id r = revisionId \<and> rv_published r) (revisions db) then Inr None
     else let rows = index_entities env sql_lower revisionId db in
       if 1000 < length rows then Inl (JsError ''Suggestion index capacity exceeded'')
       else Inr (Some \<lparr>si_revisionId = revisionId,
         si_entities = map (\<lambda>(e, i). index_row env sql_lower db e i) (zip rows [0..<length rows])\<rparr>))"

section \<open>Filtering\<close>

text \<open>\<^verbatim>\<open>toLocaleLowerCase('en-US')\<close> on the code units below 256: the ASCII letters and the Latin-1
  letters, of which the multiplication sign is none.\<close>

definition js_lower_char :: "char \<Rightarrow> char" where
  "js_lower_char c = (let n = (of_char c :: nat) in
     if 65 \<le> n \<and> n \<le> 90 \<or> 192 \<le> n \<and> n \<le> 222 \<and> n \<noteq> 215 then char_of (n + 32) else c)"

definition js_lower :: "string \<Rightarrow> string" where
  "js_lower s = map js_lower_char s"

fun js_includes :: "string \<Rightarrow> string \<Rightarrow> bool" where
  "js_includes [] needle = (needle = [])"
| "js_includes (c # s) needle = (prefix needle (c # s) \<or> js_includes s needle)"

definition match_rank :: "string \<Rightarrow> suggestion_row \<Rightarrow> int" where
  "match_rank normalized e =
    (if sg_searchName e = normalized then 0
     else if normalized \<in> set (sg_searchAliases e) then 1
     else if prefix normalized (sg_searchName e) then 2
     else if prefix normalized (sg_searchRole e) then 3 else 4)"

definition matches :: "string \<Rightarrow> suggestion_row \<Rightarrow> bool" where
  "matches normalized e \<longleftrightarrow> js_includes (sg_searchName e) normalized \<or> js_includes (sg_searchRole e) normalized \<or>
    list_ex (\<lambda>a. js_includes a normalized) (sg_searchAliases e)"

definition compare_matches :: "string \<Rightarrow> suggestion_row \<Rightarrow> suggestion_row \<Rightarrow> int" where
  "compare_matches normalized l r =
    (let c = match_rank normalized l - match_rank normalized r in
     if c \<noteq> 0 then c else sg_sortRank l - sg_sortRank r)"

definition project_row :: "suggestion_row \<Rightarrow> entity_suggestion" where
  "project_row e = projectPublicSuggestion (entity_suggestion.truncate e)"

definition filterSuggestionIndex :: "suggestion_index \<Rightarrow> string \<Rightarrow> entity_suggestion list" where
  "filterSuggestionIndex index query =
    (let normalized = js_lower query in
     map project_row (take 20 (js_sort (compare_matches normalized)
       (filter (matches normalized) (si_entities index)))))"

section \<open>Asking for suggestions\<close>

definition authorizeAttemptSuggestions :: "store_env \<Rightarrow> string \<Rightarrow> string \<Rightarrow> string option tx" where
  "authorizeAttemptSuggestions env guestId attemptId =
    bindT (queryT (lockGuest guestId)) (\<lambda>locked.
    if \<not> locked then returnT None else
    bindT (queryT (attemptRow env attemptId guestId)) (\<lambda>row.
    (case row of None \<Rightarrow> returnT None | Some v \<Rightarrow>
    bindT (expireIfClosed v (now_sample env)) (\<lambda>attempt.
    bindT (queryT (currentRevision (now_sample env))) (\<lambda>current.
    (case current of None \<Rightarrow> returnT None | Some c \<Rightarrow>
      if state (vw_snapshot attempt) \<noteq> ACTIVE \<or> rv_id c \<noteq> vw_revision attempt then returnT None
      else returnT (Some (vw_revision attempt))))))))"

text \<open>The answer of the cache: a rejected promise, a miss, or an index.\<close>

datatype cache_answer = CacheFails | CacheMiss | CacheHit suggestion_index

text \<open>The permission commits before the cache and the index are read; the index is read in a
  transaction of its own.\<close>

definition readAttemptSuggestions ::
  "store_env \<Rightarrow> (string \<Rightarrow> string) \<Rightarrow> (string \<Rightarrow> cache_answer) option \<Rightarrow> string \<Rightarrow> string \<Rightarrow> string \<Rightarrow>
   game_db \<Rightarrow> (store_error + entity_suggestion list option) \<times> game_db" where
  "readAttemptSuggestions env sql_lower cache guestId attemptId query db =
    (if length query < 1 \<or> 80 < length query then (Inl (Thrown (RangeError ''invalid suggestion query'')), db)
     else case transaction (authorizeAttemptSuggestions env guestId attemptId) db of
       (Inl e, db') \<Rightarrow> (Inl e, db')
     | (Inr None, db') \<Rightarrow> (Inr None, db')
     | (Inr (Some revisionId), db') \<Rightarrow>
         if revisionId = [] then (Inr None, db') else
         (case (case cache of None \<Rightarrow> CacheMiss | Some get \<Rightarrow> get revisionId) of
            CacheHit index \<Rightarrow> (Inr (Some (filterSuggestionIndex index query)), db')
          | _ \<Rightarrow> (case readPublishedSuggestionIndex env sql_lower revisionId db' of
               Inl e \<Rightarrow> (Inl (Thrown e), db')
             | Inr None \<Rightarrow> (Inr None, db')
             | Inr (Some index) \<Rightarrow> (Inr (Some (filterSuggestionIndex index query)), db'))))"

section \<open>The filter\<close>

lemma js_includes_sublist: "js_includes s needle = sublist needle s"
  by (induction s needle rule: js_includes.induct) (auto simp: sublist_Cons_right)




section \<open>The permission\<close>

lemma authorize_effect:
  assumes "store_ok db" "authorizeAttemptSuggestions env g i db = Inr (r, db')"
  shows "store_ok db' \<and> evolves db db' \<and> revisions db' = revisions db \<and> entities db' = entities db \<and>
    aliases db' = aliases db \<and>
    (r = None \<or> (\<exists>a c. r = Some (rv_id c) \<and> a \<in> set (attempts db') \<and> at_id a = i \<and> at_guest a = g \<and>
       state (at_snapshot a) = ACTIVE \<and> at_revision a = rv_id c \<and> currentRevision (now_sample env) db' = Some c))"
proof -
  have core: "store_core db" using assms(1) by (simp add: store_ok_def)
  show ?thesis
  proof (cases "lockGuest g db \<and> attemptRow env i g db \<noteq> None")
    case False
    then have "r = None" "db' = db" using assms(2) by (auto simp: authorizeAttemptSuggestions_def tx_Inr split: if_splits)
    then show ?thesis using assms(1) evolves_refl by simp
  next
    case True
    then obtain v where v: "attemptRow env i g db = Some v" by blast
    from attemptRow_Some [OF core v] obtain a cl where a: "a \<in> set (attempts db)" "at_id a = i" "at_guest a = g"
      "at_started a < cl" "v = view_of a cl (now_row env)" by metis
    let ?a = "settle (now_sample env) cl a" and ?db = "settle_store (now_sample env) cl a db"
    obtain sm' where e: "expireIfClosed v (now_sample env) db = Inr (view_of ?a cl sm', ?db)"
      using expire_run [OF core a(1,4), of "now_row env" "now_sample env"] a(5) by auto
    have static: "revisions ?db = revisions db" "entities ?db = entities db" "aliases ?db = aliases db"
      by (simp_all add: settle_store_def) (simp_all add: finalized_store_def Let_def)
    have r: "db' = ?db" "r = None \<or> (\<exists>c. r = Some (rv_id c) \<and> state (at_snapshot ?a) = ACTIVE \<and>
        at_revision ?a = rv_id c \<and> currentRevision (now_sample env) ?db = Some c)"
      using assms(2) True v e by (auto simp: authorizeAttemptSuggestions_def tx_Inr split: option.splits if_splits)
    have "at_id ?a = i" "at_guest ?a = g" using a(2,3) by (simp_all add: settle_def)
    then show ?thesis
      using r static settle_store_ok [OF assms(1) a(1,4)] settle_evolves [OF core a(1,4)] settle_member [OF core a(1,4)]
      by blast
  qed
qed

interpretation authorize_op: store_operation store_ok "authorizeAttemptSuggestions env g i" for env g i
  by unfold_locales (rule keepsI, use authorize_effect in blast)

lemma readIndex_static:
  assumes "revisions db' = revisions db" "entities db' = entities db" "aliases db' = aliases db"
  shows "readPublishedSuggestionIndex env sql_lower r db' = readPublishedSuggestionIndex env sql_lower r db"
proof -
  have "aliases_of env sql_lower db' = aliases_of env sql_lower db"
    using assms(3) by (simp add: aliases_of_def fun_eq_iff)
  then have "index_row env sql_lower db' = index_row env sql_lower db"
    "index_entities env sql_lower r db' = index_entities env sql_lower r db"
    using assms(2) by (simp_all add: index_row_def index_entities_def fun_eq_iff)
  then show ?thesis using assms(1) by (simp add: readPublishedSuggestionIndex_def Let_def)
qed

lemma authorize_transaction:
  assumes "store_ok db" "transaction (authorizeAttemptSuggestions env g i) db = (r, db')"
  shows "store_ok db' \<and> revisions db' = revisions db \<and> entities db' = entities db \<and> aliases db' = aliases db \<and>
    (\<forall>rev. r = Inr (Some rev) \<longrightarrow> (\<exists>a c. rev = rv_id c \<and> a \<in> set (attempts db') \<and> at_id a = i \<and> at_guest a = g \<and>
       state (at_snapshot a) = ACTIVE \<and> at_revision a = rv_id c \<and> currentRevision (now_sample env) db' = Some c))"
  using assms authorize_effect [OF assms(1)]
  by (fastforce simp: transaction_def split: sum.splits)

text \<open>Suggestions go to players only: when a list is returned, the store afterwards holds an
  attempt of that guest with that identifier that is still active, on the revision that is current at
  the sampled time; and asking leaves the store consistent.\<close>

lemma suggestions_need_an_active_attempt:
  assumes "store_ok db" "readAttemptSuggestions env sql_lower cache g i query db = (Inr (Some items), db')"
  shows "store_ok db' \<and> (\<exists>a c. a \<in> set (attempts db') \<and> at_id a = i \<and> at_guest a = g \<and>
    state (at_snapshot a) = ACTIVE \<and> at_revision a = rv_id c \<and> currentRevision (now_sample env) db' = Some c)"
proof -
  obtain r db1 where t: "transaction (authorizeAttemptSuggestions env g i) db = (r, db1)" by fastforce
  have "db' = db1 \<and> (\<exists>rev. r = Inr (Some rev))"
    using assms(2) t unfolding readAttemptSuggestions_def
    by (auto split: if_splits sum.splits option.splits cache_answer.splits)
  then show ?thesis using authorize_transaction [OF assms(1) t] by blast
qed

text \<open>The cache is transparent: as long as an index it returns is the one the database would
  return, the answer and the store are the same with the cache as without it, whether it hits, misses or
  fails.\<close>

lemma suggestion_cache_is_transparent:
  assumes "store_ok db"
    and "\<And>rev index. get rev = CacheHit index \<Longrightarrow> readPublishedSuggestionIndex env sql_lower rev db = Inr (Some index)"
  shows "readAttemptSuggestions env sql_lower (Some get) g i query db =
    readAttemptSuggestions env sql_lower None g i query db"
proof -
  obtain r db1 where t: "transaction (authorizeAttemptSuggestions env g i) db = (r, db1)" by fastforce
  have "readPublishedSuggestionIndex env sql_lower rev db1 = Inr (Some index)" if "get rev = CacheHit index" for rev index
    using authorize_transaction [OF assms(1) t] assms(2) [OF that] readIndex_static by metis
  then show ?thesis
    unfolding readAttemptSuggestions_def t
    by (auto split: sum.split option.split cache_answer.split)
qed

text \<open>The small store with an alias for each entity.\<close>

definition named_store :: game_db where
  "named_store = small_store initial_attempt\<lparr>aliases :=
     [\<lparr>al_revision = ''r'', al_entity = ''e1'', al_alias = ''Uno''\<rparr>, \<lparr>al_revision = ''r'', al_entity = ''e2'', al_alias = ''Duo''\<rparr>]\<rparr>"

lemma store_ok_aliases: "store_ok (db\<lparr>aliases := xs\<rparr>) = store_ok db"
proof -
  have "regions_of (db\<lparr>aliases := xs\<rparr>) = regions_of db" "entry_of (db\<lparr>aliases := xs\<rparr>) = entry_of db"
    "complete_revision (db\<lparr>aliases := xs\<rparr>) = complete_revision db"
    by (simp_all add: fun_eq_iff regions_of_def entry_of_def pseudonym_of_def complete_revision_def evidence_of_def answer_of_def)
  moreover from this have "case_of (db\<lparr>aliases := xs\<rparr>) = case_of db" by (simp add: fun_eq_iff case_of_def)
  ultimately have "store_core (db\<lparr>aliases := xs\<rparr>) = store_core db"
    by (simp add: store_core_def content_ok_def attempts_ok_def derived_ok_def knowledge_ok_def
        terminals_def solved_attempts_def cases_of_def)
  then show ?thesis by (simp add: store_ok_def guesses_ok_def receipts_ok_def numbers_of_def)
qed

lemma named_store_ok: "store_ok named_store"
  unfolding named_store_def store_ok_aliases by (rule small_store_ok)

fun shown :: "(store_error + entity_suggestion list option) \<times> game_db \<Rightarrow> string list option" where
  "shown (Inr (Some items), db) = Some (map es_canonicalName items)"
| "shown _ = None"

lemma small_suggestions:
  "shown (readAttemptSuggestions (plain_env 5000 ''1'') js_lower None ''g'' ''a'' ''O'' named_store) = Some [''One'', ''Two'']"
  by code_simp

lemma suggestions_need_an_active_attempt_example:
  "\<exists>items db'. readAttemptSuggestions (plain_env 5000 ''1'') js_lower None ''g'' ''a'' ''O'' named_store = (Inr (Some items), db') \<and>
    store_ok db'"
proof -
  obtain items db' where r: "readAttemptSuggestions (plain_env 5000 ''1'') js_lower None ''g'' ''a'' ''O'' named_store =
      (Inr (Some items), db')"
    using small_suggestions
    by (cases "readAttemptSuggestions (plain_env 5000 ''1'') js_lower None ''g'' ''a'' ''O'' named_store" rule: shown.cases) auto
  then show ?thesis using suggestions_need_an_active_attempt [OF named_store_ok r] by blast
qed

lemma suggestion_cache_is_transparent_example:
  "readAttemptSuggestions (plain_env 5000 ''1'') js_lower (Some (\<lambda>rev.
      if rev = ''r'' then (case readPublishedSuggestionIndex (plain_env 5000 ''1'') js_lower ''r'' named_store of
        Inr (Some index) \<Rightarrow> CacheHit index | _ \<Rightarrow> CacheMiss) else CacheFails)) ''g'' ''a'' ''O'' named_store =
    readAttemptSuggestions (plain_env 5000 ''1'') js_lower None ''g'' ''a'' ''O'' named_store"
  by (rule suggestion_cache_is_transparent [OF named_store_ok]) (auto split: if_splits sum.splits option.splits)

end
