(* ===== verification/Json.thy ===== *)
theory Json
  imports Js_Value Json_Text "HOL-Library.AList"
begin

text \<open>
  \<^verbatim>\<open>JSON.parse\<close> and \<^verbatim>\<open>JSON.stringify\<close> on the untyped values. A text is a list of code units below
  256; an escape of a larger code unit is reported as \<open>OutOfModel\<close>, an error the language does not
  have. A number is rounded to the nearest double, ties to even. The parser takes fuel, one unit
  for each nested value or further member; twice the length of the text plus one is always enough.

  Results: the parser terminates, and it reads back what \<^verbatim>\<open>JSON.stringify\<close> writes.
\<close>

section \<open>Numbers\<close>

fun floor_log :: "nat \<Rightarrow> nat" where
  "floor_log n = (if n < 2 then 0 else Suc (floor_log (n div 2)))"

declare floor_log.simps [simp del]

definition log2_floor :: "rat \<Rightarrow> int" where
  "log2_floor r = (if 1 \<le> r then int (floor_log (nat \<lfloor>r\<rfloor>))
     else let m = nat \<lceil>1 / r\<rceil> in - (if m \<le> 1 then 0 else int (floor_log (m - 1)) + 1))"

definition pow2 :: "int \<Rightarrow> rat" where
  "pow2 e = (if 0 \<le> e then 2 ^ nat e else 1 / 2 ^ nat (- e))"

definition round_half_even :: "rat \<Rightarrow> int" where
  "round_half_even r = (let f = \<lfloor>r\<rfloor>; d = r - of_int f in
     if d < 1 / 2 \<or> d = 1 / 2 \<and> even f then f else f + 1)"

definition to_double :: "rat \<Rightarrow> js_number" where
  "to_double r =
    (if r = 0 then Num 0
     else let e = max (-1074) (log2_floor \<bar>r\<bar> - 52);
              m = of_int (round_half_even (\<bar>r\<bar> / pow2 e)) * pow2 e
       in if 2 ^ 1024 \<le> m then (if 0 < r then PosInfinity else NegInfinity)
          else Num (if 0 < r then m else - m))"

lemma floor_log_bound: "0 < n \<Longrightarrow> 2 ^ floor_log n \<le> n"
proof (induction n rule: floor_log.induct)
  case (1 n)
  show ?case
  proof (cases "n < 2")
    case True
    then show ?thesis using 1(2) by (simp add: floor_log.simps [of n])
  next
    case False
    then have "2 ^ floor_log (n div 2) \<le> n div 2" using 1(1) by simp
    then have "2 * 2 ^ floor_log (n div 2) \<le> n" by linarith
    then show ?thesis using False by (simp add: floor_log.simps [of n])
  qed
qed

lemma round_half_even_int [simp]: "round_half_even (of_int i) = i"
  by (simp add: round_half_even_def)

lemma to_double_int:
  assumes "is_safe_int i"
  shows "to_double (of_int i) = Num (of_int i)"
proof (cases "i = 0")
  case True
  then show ?thesis by (simp add: to_double_def)
next
  case False
  let ?n = "nat \<bar>i\<bar>"
  have n: "0 < ?n" "?n < 2 ^ 53" "1 \<le> \<bar>i\<bar>" "\<bar>i\<bar> < 2 ^ 1024"
    using assms False by (auto simp: is_safe_int_def MAX_SAFE_INTEGER_def)
  have "(2::nat) ^ floor_log ?n < 2 ^ 53" using floor_log_bound [OF n(1)] n(2) by linarith
  then have "floor_log ?n < 53" by (rule power_less_imp_less_exp [rotated]) simp
  moreover have "log2_floor \<bar>of_int i\<bar> = int (floor_log ?n)"
    using n(3) by (simp add: log2_floor_def flip: of_int_abs)
  ultimately obtain k where e: "max (-1074) (log2_floor \<bar>of_int i\<bar> - 52) = - int k"
    by (intro that [of "nat (- max (-1074) (log2_floor \<bar>of_int i\<bar> - 52))"]) simp
  have p: "pow2 (- int k) = 1 / 2 ^ k" by (cases "k = 0") (simp_all add: pow2_def)
  have "\<bar>of_int i\<bar> / pow2 (- int k) = (of_int (\<bar>i\<bar> * 2 ^ k) :: rat)" by (simp add: p)
  then have m: "of_int (round_half_even (\<bar>of_int i\<bar> / pow2 (- int k))) * pow2 (- int k) = (of_int \<bar>i\<bar> :: rat)"
    by (simp only: round_half_even_int) (simp add: p)
  have "\<not> (2 ^ 1024 \<le> (of_int \<bar>i\<bar> :: rat))"
    using n(4) by (metis linorder_not_le of_int_le_iff of_int_numeral of_int_power)
  then show ?thesis using False unfolding to_double_def Let_def e m by auto
qed

fun int_part :: "string \<Rightarrow> (string \<times> string) option" where
  "int_part [] = None"
| "int_part (c # s) =
    (if c = CHR ''0'' then Some ([c], s)
     else if is_digit c then Some (c # takeWhile is_digit s, dropWhile is_digit s) else None)"

definition frac_part :: "string \<Rightarrow> string \<times> string" where
  "frac_part s = (case s of c # d # r \<Rightarrow>
      if c = CHR ''.'' \<and> is_digit d then (takeWhile is_digit (d # r), dropWhile is_digit (d # r)) else ([], s)
    | _ \<Rightarrow> ([], s))"

definition exp_sign :: "string \<Rightarrow> int \<times> string" where
  "exp_sign r = (case r of [] \<Rightarrow> (1, r)
    | c # x \<Rightarrow> if c = CHR ''+'' then (1, x) else if c = CHR ''-'' then (-1, x) else (1, r))"

definition exp_part :: "string \<Rightarrow> int \<times> string" where
  "exp_part s = (case s of [] \<Rightarrow> (0, s) | c # r \<Rightarrow>
     if c = CHR ''e'' \<or> c = CHR ''E''
     then (case exp_sign r of (sg, r') \<Rightarrow>
        (case r' of [] \<Rightarrow> (0, s) | d # _ \<Rightarrow>
           if is_digit d then (sg * digits_value (takeWhile is_digit r'), dropWhile is_digit r') else (0, s)))
     else (0, s))"

definition pow10 :: "int \<Rightarrow> rat" where
  "pow10 e = (if 0 \<le> e then 10 ^ nat e else 1 / 10 ^ nat (- e))"

text \<open>The longest match of \<^verbatim>\<open>-?(?:0|[1-9][0-9]*)(?:\.[0-9]+)?(?:[eE][+-]?[0-9]+)?\<close>, with its value.\<close>

definition number_sign :: "string \<Rightarrow> rat \<times> string" where
  "number_sign s = (case s of [] \<Rightarrow> (1, s) | c # r \<Rightarrow> if c = CHR ''-'' then (-1, r) else (1, s))"

definition match_number :: "string \<Rightarrow> (rat \<times> string) option" where
  "match_number s = (case number_sign s of (sg, s1) \<Rightarrow>
     (case int_part s1 of None \<Rightarrow> None
      | Some (ds, s2) \<Rightarrow> (case frac_part s2 of (fs, s3) \<Rightarrow> (case exp_part s3 of (e, s4) \<Rightarrow>
          Some (sg * of_int (digits_value (ds @ fs)) / 10 ^ length fs * pow10 e, s4)))))"

section \<open>Strings\<close>

definition is_ws :: "char \<Rightarrow> bool" where
  "is_ws c \<longleftrightarrow> c \<in> {CHR 9, CHR 10, CHR 13, CHR 32}"

definition skip_ws :: "string \<Rightarrow> string" where
  "skip_ws = dropWhile is_ws"

datatype json_error = SyntaxError | OutOfModel | OutOfFuel | DuplicateField string

text \<open>What stands before the closing quote, and the rest: a backslash takes the next unit with it.\<close>

fun string_end :: "string \<Rightarrow> (string \<times> string) option" where
  "string_end [] = None"
| "string_end (c # s) =
    (if c = CHR 34 then Some ([], s)
     else if c = CHR 92 then
       (case s of [] \<Rightarrow> None | d # s' \<Rightarrow> map_option (\<lambda>(b, r). (c # d # b, r)) (string_end s'))
     else map_option (\<lambda>(b, r). (c # b, r)) (string_end s))"

definition hex_digit_value :: "char \<Rightarrow> nat option" where
  "hex_digit_value c = (let n = of_char c in
     if 48 \<le> n \<and> n \<le> 57 then Some (n - 48)
     else if 97 \<le> n \<and> n \<le> 102 then Some (n - 87)
     else if 65 \<le> n \<and> n \<le> 70 then Some (n - 55) else None)"

definition hex_unit :: "char \<Rightarrow> char \<Rightarrow> char \<Rightarrow> char \<Rightarrow> json_error + char" where
  "hex_unit a b c d =
    (case (hex_digit_value a, hex_digit_value b, hex_digit_value c, hex_digit_value d) of
       (Some w, Some x, Some y, Some z) \<Rightarrow>
         (if w = 0 \<and> x = 0 then Inr (char_of (16 * y + z)) else Inl OutOfModel)
     | _ \<Rightarrow> Inl SyntaxError)"

definition simple_escape :: "char \<Rightarrow> char option" where
  "simple_escape e =
    (if e = CHR 34 \<or> e = CHR 92 \<or> e = CHR ''/'' then Some e
     else if e = CHR ''b'' then Some (CHR 8) else if e = CHR ''t'' then Some (CHR 9)
     else if e = CHR ''n'' then Some (CHR 10) else if e = CHR ''f'' then Some (CHR 12)
     else if e = CHR ''r'' then Some (CHR 13) else None)"

text \<open>What a backslash introduces.\<close>

definition read_escape :: "string \<Rightarrow> json_error + char \<times> string" where
  "read_escape s =
    (case s of [] \<Rightarrow> Inl SyntaxError
     | e # s' \<Rightarrow>
       if e = CHR ''u''
       then if length s' < 4 then Inl SyntaxError
         else bindE (hex_unit (s' ! 0) (s' ! 1) (s' ! 2) (s' ! 3)) (\<lambda>u. Inr (u, drop 4 s'))
       else (case simple_escape e of None \<Rightarrow> Inl SyntaxError | Some u \<Rightarrow> Inr (u, s')))"

lemma read_escape_length: "read_escape s = Inr (u, r) \<Longrightarrow> length r < length s"
  by (cases s) (auto simp: read_escape_def bindE_eq_Inr split: if_splits option.splits)

function decode_body :: "string \<Rightarrow> json_error + string" where
  "decode_body [] = Inr []"
| "decode_body (c # s) =
    (if c = CHR 92 then
       (case read_escape s of Inl e \<Rightarrow> Inl e
        | Inr (u, r) \<Rightarrow> bindE (decode_body r) (\<lambda>t. Inr (u # t)))
     else if (of_char c :: nat) < 32 then Inl SyntaxError
     else bindE (decode_body s) (\<lambda>t. Inr (c # t)))"
  by pat_completeness auto
termination
  by (relation "measure length") (auto dest!: read_escape_length)

definition read_string :: "string \<Rightarrow> json_error + string \<times> string" where
  "read_string s = (case string_end s of None \<Rightarrow> Inl SyntaxError
     | Some (b, r) \<Rightarrow> bindE (decode_body b) (\<lambda>k. Inr (k, r)))"

definition read_literal :: "string \<Rightarrow> string \<Rightarrow> json_error + string" where
  "read_literal l s = (if take (length l) s = l then Inr (drop (length l) s) else Inl SyntaxError)"

section \<open>The parser\<close>

text \<open>The syntax tree: an object keeps every member of the text, in order. \<open>last_wins\<close> is what an object
  keeps of members with the same name.\<close>

definition next_char :: "string \<Rightarrow> json_error + char \<times> string" where
  "next_char s = (case s of [] \<Rightarrow> Inl SyntaxError | c # r \<Rightarrow> Inr (c, r))"

definition expect :: "char \<Rightarrow> string \<Rightarrow> json_error + string" where
  "expect c s = (case s of [] \<Rightarrow> Inl SyntaxError | d # r \<Rightarrow> if d = c then Inr r else Inl SyntaxError)"

text \<open>What the first unit of a value announces.\<close>

datatype lead = L_Object | L_Array | L_String | L_True | L_False | L_Null | L_Number

definition lead_of :: "char \<Rightarrow> lead" where
  "lead_of c =
    (if c = CHR ''{'' then L_Object else if c = CHR ''['' then L_Array else if c = CHR 34 then L_String
     else if c = CHR ''t'' then L_True else if c = CHR ''f'' then L_False
     else if c = CHR ''n'' then L_Null else L_Number)"

fun parse_value :: "nat \<Rightarrow> string \<Rightarrow> json_error + js_value \<times> string"
  and parse_members :: "nat \<Rightarrow> string \<Rightarrow> json_error + (string \<times> js_value) list \<times> string"
  and parse_elements :: "nat \<Rightarrow> string \<Rightarrow> json_error + js_value list \<times> string" where
  "parse_value 0 s = Inl OutOfFuel"
| "parse_value (Suc n) s =
    bindE (next_char (skip_ws s)) (\<lambda>(c, r).
    (case lead_of c of
       L_Object \<Rightarrow> bindE (next_char (skip_ws r)) (\<lambda>(d, r').
         if d = CHR ''}'' then Inr (Object [], r')
         else bindE (parse_members n (d # r')) (\<lambda>(ms, x). Inr (Object ms, x)))
     | L_Array \<Rightarrow> bindE (next_char (skip_ws r)) (\<lambda>(d, r').
         if d = CHR '']'' then Inr (Array [], r')
         else bindE (parse_elements n (d # r')) (\<lambda>(vs, x). Inr (Array vs, x)))
     | L_String \<Rightarrow> bindE (read_string r) (\<lambda>(k, x). Inr (String k, x))
     | L_True \<Rightarrow> bindE (read_literal ''true'' (c # r)) (\<lambda>x. Inr (Boolean True, x))
     | L_False \<Rightarrow> bindE (read_literal ''false'' (c # r)) (\<lambda>x. Inr (Boolean False, x))
     | L_Null \<Rightarrow> bindE (read_literal ''null'' (c # r)) (\<lambda>x. Inr (Null, x))
     | L_Number \<Rightarrow> (case match_number (c # r) of None \<Rightarrow> Inl SyntaxError
         | Some (q, x) \<Rightarrow> Inr (Number (to_double q), x))))"
| "parse_members 0 s = Inl OutOfFuel"
| "parse_members (Suc n) s =
    bindE (expect (CHR 34) s) (\<lambda>r.
    bindE (read_string r) (\<lambda>(k, s1).
    bindE (expect (CHR '':'') (skip_ws s1)) (\<lambda>s2.
    bindE (parse_value n s2) (\<lambda>(v, s3).
    bindE (next_char (skip_ws s3)) (\<lambda>(e, s4).
      if e = CHR ''}'' then Inr ([(k, v)], s4)
      else if e \<noteq> CHR '','' then Inl SyntaxError
      else bindE (parse_members n (skip_ws s4)) (\<lambda>(ms, x). Inr ((k, v) # ms, x)))))))"
| "parse_elements 0 s = Inl OutOfFuel"
| "parse_elements (Suc n) s =
    bindE (parse_value n s) (\<lambda>(v, s3).
    bindE (next_char (skip_ws s3)) (\<lambda>(e, s4).
      if e = CHR '']'' then Inr ([v], s4)
      else if e \<noteq> CHR '','' then Inl SyntaxError
      else bindE (parse_elements n (skip_ws s4)) (\<lambda>(vs, x). Inr (v # vs, x))))"

definition last_wins :: "(string \<times> js_value) list \<Rightarrow> (string \<times> js_value) list" where
  "last_wins ms = foldl (\<lambda>m (k, v). AList.update k v m) [] ms"

fun merge :: "js_value \<Rightarrow> js_value" where
  "merge (Object ms) = Object (last_wins (map (\<lambda>m. (fst m, merge (snd m))) ms))"
| "merge (Array vs) = Array (map merge vs)"
| "merge v = v"

definition JSON_tree :: "string \<Rightarrow> json_error + js_value" where
  "JSON_tree s = bindE (parse_value (Suc (2 * length s)) s) (\<lambda>(v, r). if skip_ws r = [] then Inr v else Inl SyntaxError)"

definition JSON_parse :: "string \<Rightarrow> json_error + js_value" where
  "JSON_parse s = bindE (JSON_tree s) (\<lambda>v. Inr (merge v))"

fun unique_fields :: "js_value \<Rightarrow> bool" where
  "unique_fields (Object ms) = (distinct (map fst ms) \<and> (\<forall>m \<in> set ms. unique_fields (snd m)))"
| "unique_fields (Array vs) = (\<forall>v \<in> set vs. unique_fields v)"
| "unique_fields v = True"

text \<open>An object with distinct names keeps all its members.\<close>

lemma update_snoc: "k \<notin> fst ` set m \<Longrightarrow> AList.update k v m = m @ [(k, v)]"
  by (induction m) auto

lemma foldl_update:
  "distinct (map fst (m @ ms)) \<Longrightarrow> foldl (\<lambda>m (k, v). AList.update k v m) m ms = m @ ms"
  by (induction ms arbitrary: m) (auto simp: update_snoc)

lemma last_wins_distinct: "distinct (map fst ms) \<Longrightarrow> last_wins ms = ms"
  using foldl_update [of "[]" ms] by (simp add: last_wins_def)

lemma merge_unique: "unique_fields v \<Longrightarrow> merge v = v"
proof (induction v rule: merge.induct)
  case (1 ms)
  have "map (\<lambda>m. (fst m, merge (snd m))) ms = ms"
    using 1 by (intro map_idI) (auto simp: prod_eq_iff)
  then show ?case using 1(2) by (simp add: last_wins_distinct)
next
  case (2 vs)
  then show ?case by (auto intro: map_idI)
qed simp_all

section \<open>The parser terminates\<close>

lemma skip_ws_length: "length (skip_ws s) \<le> length s"
  by (simp add: skip_ws_def length_dropWhile_le)

lemma skip_ws_Cons: "skip_ws s = c # r \<Longrightarrow> length r < length s"
  using skip_ws_length [of s] by simp

lemma string_end_length: "string_end s = Some (b, r) \<Longrightarrow> length r < length s"
  by (induction s arbitrary: b r rule: string_end.induct) (fastforce split: if_splits list.splits)+

lemma read_string_length: "read_string s = Inr (k, r) \<Longrightarrow> length r < length s"
  by (auto simp: read_string_def bindE_eq_Inr string_end_length split: option.splits)

lemma read_literal_length: "read_literal l s = Inr r \<Longrightarrow> length r \<le> length s"
  by (auto simp: read_literal_def split: if_splits)

lemma int_part_length: "int_part s = Some (d, r) \<Longrightarrow> length r < length s"
  by (cases s) (auto split: if_splits simp: length_dropWhile_le le_imp_less_Suc)

lemma frac_part_length: "frac_part s = (d, r) \<Longrightarrow> length r \<le> length s"
  using length_dropWhile_le [of is_digit]
  by (auto simp: frac_part_def split: list.splits if_splits intro: le_SucI)

lemma exp_part_length: "exp_part s = (e, r) \<Longrightarrow> length r \<le> length s"
proof -
  assume e: "exp_part s = (e, r)"
  have s: "length (snd (exp_sign x)) \<le> length x" for x by (auto simp: exp_sign_def split: list.split)
  have "exp_sign x = (sg, d # y) \<Longrightarrow> length (dropWhile is_digit y) \<le> length x" for x sg d y
    using s [of x] length_dropWhile_le [of is_digit y] by simp
  then show ?thesis
    using e by (auto simp: exp_part_def split: list.splits if_splits prod.splits intro: le_SucI)
qed

lemma match_number_length: "match_number s = Some (q, r) \<Longrightarrow> length r < length s"
proof -
  assume m: "match_number s = Some (q, r)"
  obtain sg s1 where n: "number_sign s = (sg, s1)" by fastforce
  then have "length s1 \<le> length s" by (auto simp: number_sign_def split: list.splits if_splits)
  moreover obtain ds s2 where i: "int_part s1 = Some (ds, s2)"
    using m n by (auto simp: match_number_def split: option.splits)
  moreover obtain fs s3 where f: "frac_part s2 = (fs, s3)" by fastforce
  moreover obtain e s4 where x: "exp_part s3 = (e, s4)" by fastforce
  moreover have "r = s4" using m n i f x by (simp add: match_number_def)
  ultimately show ?thesis
    using int_part_length [OF i] frac_part_length [OF f] exp_part_length [OF x] by simp
qed

lemma skip_ws_le: "length r \<le> length (skip_ws s) \<Longrightarrow> length r \<le> length s"
  using skip_ws_length [of s] by simp

lemmas json_lengths = skip_ws_Cons read_string_length read_literal_length match_number_length

text \<open>The parsers, step by step.\<close>

lemma next_char_Inr: "next_char s = Inr (c, r) \<longleftrightarrow> s = c # r"
  by (cases s) (auto simp: next_char_def)

lemma expect_Inr: "expect c s = Inr r \<longleftrightarrow> s = c # r"
  by (cases s) (auto simp: expect_def)

lemma bindE_pair: "bindE m (\<lambda>(a, b). f a b) = Inr c \<longleftrightarrow> (\<exists>a b. m = Inr (a, b) \<and> f a b = Inr c)"
  by (auto simp: bindE_eq_Inr)

lemma delimiter_Inr:
  "(if e = a then Inr p else if e \<noteq> b then Inl q else m) = Inr y \<longleftrightarrow>
    e = a \<and> y = p \<or> e \<noteq> a \<and> e = b \<and> m = Inr y"
  by auto

lemmas json_steps = next_char_Inr expect_Inr bindE_pair bindE_eq_Inr delimiter_Inr

lemma parse_shortens_step:
  assumes v: "\<And>s v r. parse_value n s = Inr (v, r) \<Longrightarrow> length r \<le> length s"
    and m: "\<And>s ms r. parse_members n s = Inr (ms, r) \<Longrightarrow> length r \<le> length s"
    and e: "\<And>s vs r. parse_elements n s = Inr (vs, r) \<Longrightarrow> length r \<le> length s"
  shows "parse_value (Suc n) s = Inr (x, r) \<Longrightarrow> length r \<le> length s"
    and "parse_members (Suc n) s = Inr (ms, r) \<Longrightarrow> length r \<le> length s"
    and "parse_elements (Suc n) s = Inr (vs, r) \<Longrightarrow> length r \<le> length s"
proof -
  assume p: "parse_value (Suc n) s = Inr (x, r)"
  then obtain c w where w: "skip_ws s = c # w" by (auto simp: json_steps)
  with p show "length r \<le> length s"
    using skip_ws_length [of s]
    by (cases "lead_of c") (auto simp: json_steps split: if_splits option.splits prod.splits dest!: json_lengths m e)
next
  assume "parse_members (Suc n) s = Inr (ms, r)"
  then show "length r \<le> length s"
    by (auto simp: json_steps dest!: json_lengths m v skip_ws_le)
next
  assume "parse_elements (Suc n) s = Inr (vs, r)"
  then show "length r \<le> length s"
    by (auto simp: json_steps dest!: json_lengths e v skip_ws_le)
qed

lemma parse_shortens:
  "parse_value n s = Inr (v, r) \<Longrightarrow> length r \<le> length s"
  "parse_members n s = Inr (ms, r) \<Longrightarrow> length r \<le> length s"
  "parse_elements n s = Inr (vs, r) \<Longrightarrow> length r \<le> length s"
proof (induction n arbitrary: s v r ms vs)
  case (Suc n)
  { case 1 show ?case using parse_shortens_step(1) [OF Suc.IH 1] . next
    case 2 show ?case using parse_shortens_step(2) [OF Suc.IH 2] . next
    case 3 show ?case using parse_shortens_step(3) [OF Suc.IH 3] . }
qed simp_all

text \<open>Only the fuel can be used up: every recursive call is on a shorter text.\<close>

lemma bindE_Inl: "bindE m f = Inl e \<longleftrightarrow> m = Inl e \<or> (\<exists>a. m = Inr a \<and> f a = Inl e)"
  by (cases m) auto

lemma bindE_pair_Inl: "bindE m (\<lambda>(a, b). f a b) = Inl e \<longleftrightarrow> m = Inl e \<or> (\<exists>a b. m = Inr (a, b) \<and> f a b = Inl e)"
  by (cases m) auto

lemma hex_unit_fuel [simp]: "hex_unit a b c d \<noteq> Inl OutOfFuel"
  by (simp add: hex_unit_def split: option.split)

lemma decode_body_fuel: "decode_body s \<noteq> Inl OutOfFuel"
  by (induction s rule: decode_body.induct)
    (auto simp: bindE_Inl read_escape_def split: sum.split list.splits if_splits option.splits)

lemma json_no_fuel [simp]:
  "next_char s \<noteq> Inl OutOfFuel" "expect c s \<noteq> Inl OutOfFuel"
  "read_string s \<noteq> Inl OutOfFuel" "read_literal l s \<noteq> Inl OutOfFuel"
  using decode_body_fuel
  by (auto simp: next_char_def expect_def read_string_def read_literal_def bindE_Inl split: list.splits option.splits)

lemma skip_ws_less: "length s < n \<Longrightarrow> length (skip_ws s) < n"
  using skip_ws_length [of s] by simp

lemma parse_fuel_step:
  assumes v: "\<And>s. 2 * length s < n \<Longrightarrow> parse_value n s \<noteq> Inl OutOfFuel"
    and m: "\<And>s. 2 * length s < n \<Longrightarrow> parse_members n s \<noteq> Inl OutOfFuel"
    and e: "\<And>s. Suc (2 * length s) < n \<Longrightarrow> parse_elements n s \<noteq> Inl OutOfFuel"
  shows "2 * length s < Suc n \<Longrightarrow> parse_value (Suc n) s \<noteq> Inl OutOfFuel"
    and "2 * length s < Suc n \<Longrightarrow> parse_members (Suc n) s \<noteq> Inl OutOfFuel"
    and "Suc (2 * length s) < Suc n \<Longrightarrow> parse_elements (Suc n) s \<noteq> Inl OutOfFuel"
proof -
  show "parse_value (Suc n) s \<noteq> Inl OutOfFuel" if l: "2 * length s < Suc n"
  proof
    assume p: "parse_value (Suc n) s = Inl OutOfFuel"
    then obtain c r where w: "skip_ws s = c # r" by (auto simp: bindE_pair_Inl next_char_Inr)
    have "Suc (2 * length (d # r')) < n" if "skip_ws r = d # r'" for d r'
      using l skip_ws_length [of r] skip_ws_length [of s] that w by simp
    moreover from this have "2 * length (d # r') < n" if "skip_ws r = d # r'" for d r'
      using that by (meson Suc_lessD)
    ultimately show False
      using p w m e
      by (cases "lead_of c") (auto simp: bindE_pair_Inl bindE_Inl next_char_Inr split: if_splits option.splits)
  qed
  show "parse_members (Suc n) s \<noteq> Inl OutOfFuel" if l: "2 * length s < Suc n"
  proof
    assume "parse_members (Suc n) s = Inl OutOfFuel"
    then obtain r k s1 s2 where s: "s = CHR 34 # r" "read_string r = Inr (k, s1)" "skip_ws s1 = CHR '':'' # s2"
      and p: "parse_value n s2 = Inl OutOfFuel \<or> (\<exists>v s3 e s4. parse_value n s2 = Inr (v, s3) \<and> skip_ws s3 = e # s4 \<and>
        parse_members n (skip_ws s4) = Inl OutOfFuel)"
      by (auto simp: bindE_pair_Inl bindE_Inl expect_Inr next_char_Inr split: if_splits)
    have "2 * length s2 < n" using l s skip_ws_Cons [OF s(3)] read_string_length [OF s(2)] by simp
    moreover have "2 * length (skip_ws s4) < n" if "parse_value n s2 = Inr (v, s3)" "skip_ws s3 = e # s4" for v s3 e s4
      using skip_ws_Cons [OF that(2)] parse_shortens(1) [OF that(1)] skip_ws_length [of s4] calculation by simp
    ultimately show False using p v m by blast
  qed
  show "parse_elements (Suc n) s \<noteq> Inl OutOfFuel" if l: "Suc (2 * length s) < Suc n"
  proof
    assume "parse_elements (Suc n) s = Inl OutOfFuel"
    then have p: "parse_value n s = Inl OutOfFuel \<or> (\<exists>v s3 e s4. parse_value n s = Inr (v, s3) \<and> skip_ws s3 = e # s4 \<and>
        parse_elements n (skip_ws s4) = Inl OutOfFuel)"
      by (auto simp: bindE_pair_Inl bindE_Inl next_char_Inr split: if_splits)
    have "Suc (2 * length (skip_ws s4)) < n" if "parse_value n s = Inr (v, s3)" "skip_ws s3 = e # s4" for v s3 e s4
      using skip_ws_Cons [OF that(2)] parse_shortens(1) [OF that(1)] skip_ws_length [of s4] l by simp
    then show False using p v e l by blast
  qed
qed

lemma parse_fuel:
  "2 * length s < n \<Longrightarrow> parse_value n s \<noteq> Inl OutOfFuel"
  "2 * length s < n \<Longrightarrow> parse_members n s \<noteq> Inl OutOfFuel"
  "Suc (2 * length s) < n \<Longrightarrow> parse_elements n s \<noteq> Inl OutOfFuel"
proof (induction n arbitrary: s)
  case (Suc n)
  { case 1 show ?case using parse_fuel_step(1) [OF Suc.IH 1] . next
    case 2 show ?case using parse_fuel_step(2) [OF Suc.IH 2] . next
    case 3 show ?case using parse_fuel_step(3) [OF Suc.IH 3] . }
qed simp_all

lemma JSON_parse_total: "JSON_parse s \<noteq> Inl OutOfFuel"
  using parse_fuel(1) [of s "Suc (2 * length s)"]
  by (auto simp: JSON_parse_def JSON_tree_def bindE_Inl bindE_pair_Inl split: if_splits)

section \<open>Writing a value\<close>

text \<open>\<^verbatim>\<open>JSON.stringify\<close>: \<open>None\<close> for \<^verbatim>\<open>undefined\<close>, and for a number whose shortest decimal form the model does
  not have (a fraction, or \<open>10 ^ 21\<close> and more).\<close>

definition number_text :: "js_number \<Rightarrow> string option" where
  "number_text n = (case n of Num r \<Rightarrow>
       if is_integer n \<and> \<bar>r\<bar> < 10 ^ 21 then Some (json_int \<lfloor>r\<rfloor>) else None
     | _ \<Rightarrow> Some ''null'')"

definition json_object :: "string list \<Rightarrow> string" where
  "json_object xs = CHR ''{'' # json_items xs @ [CHR ''}'']"

fun json_text :: "js_value \<Rightarrow> string option" where
  "json_text Undefined = None"
| "json_text Null = Some ''null''"
| "json_text (Boolean b) = Some (if b then ''true'' else ''false'')"
| "json_text (Number n) = number_text n"
| "json_text (String s) = Some (json_string s)"
| "json_text (Array vs) = map_option json_array
     (those (map (\<lambda>v. if v = Undefined then Some ''null'' else json_text v) vs))"
| "json_text (Object ms) = map_option json_object
     (those (map (\<lambda>m. map_option (\<lambda>t. json_string (fst m) @ CHR '':'' # t) (json_text (snd m)))
       (filter (\<lambda>m. snd m \<noteq> Undefined) ms)))"

text \<open>The values that survive the trip: no \<^verbatim>\<open>undefined\<close>, numbers that are safe integers, no name twice.\<close>

fun plain :: "js_value \<Rightarrow> bool" where
  "plain Undefined = False"
| "plain (Number n) = is_safe_integer n"
| "plain (Array vs) = (\<forall>v \<in> set vs. plain v)"
| "plain (Object ms) = (\<forall>m \<in> set ms. plain (snd m))"
| "plain v = True"

section \<open>Reading back strings\<close>

lemma hex_digit_facts: "k < 16 \<Longrightarrow> hex_digit_value (hex_digit k) = Some k \<and> hex_digit k \<noteq> CHR 34 \<and> hex_digit k \<noteq> CHR 92"
proof -
  assume "k < 16"
  then have "k \<in> {0,1,2,3,4,5,6,7,8,9,10,11,12,13,14,15}" by (simp, arith)
  then show ?thesis by (auto simp: hex_digit_value_def hex_digit_def)
qed

lemma json_char_cases:
  obtains (plain) "json_char c = [c]" "c \<noteq> CHR 34" "c \<noteq> CHR 92" "32 \<le> (of_char c :: nat)"
    | (simple) e where "json_char c = [CHR 92, e]" "simple_escape e = Some c" "e \<noteq> CHR ''u''"
    | (unit) "json_char c = [CHR 92, CHR ''u'', CHR ''0'', CHR ''0'', hex_digit (of_char c div 16), hex_digit (of_char c mod 16)]"
      "(of_char c :: nat) < 32"
proof (cases "c \<in> {CHR 34, CHR 92, CHR 8, CHR 9, CHR 10, CHR 12, CHR 13}")
  case True
  then show thesis by (intro simple [of "json_char c ! 1"]) (auto simp: json_char_def simple_escape_def)
next
  case False
  then show thesis
    by (cases "(of_char c :: nat) < 32") (auto simp: json_char_def intro: plain unit)
qed

lemma string_end_json_char:
  "string_end (json_char c @ r) = map_option (\<lambda>(b, x). (json_char c @ b, x)) (string_end r)"
proof (cases c rule: json_char_cases)
  case unit
  have h: "hex_digit (of_char c div 16) \<noteq> CHR 34" "hex_digit (of_char c div 16) \<noteq> CHR 92"
    "hex_digit (of_char c mod 16) \<noteq> CHR 34" "hex_digit (of_char c mod 16) \<noteq> CHR 92"
    using hex_digit_facts unit(2) by (simp_all add: div_less)
  show ?thesis unfolding unit(1) by (cases "string_end r") (auto simp: h)
qed (cases "string_end r"; auto)+

lemma decode_json_char: "decode_body (json_char c @ r) = bindE (decode_body r) (\<lambda>t. Inr (c # t))"
proof (cases c rule: json_char_cases)
  case unit
  have "hex_digit_value (hex_digit (of_char c div 16)) = Some (of_char c div 16)"
    "hex_digit_value (hex_digit (of_char c mod 16)) = Some (of_char c mod 16)"
    using hex_digit_facts unit(2) by simp_all
  moreover have "hex_digit_value (CHR ''0'') = Some 0" by (simp add: hex_digit_value_def)
  ultimately have "hex_unit (CHR ''0'') (CHR ''0'') (hex_digit (of_char c div 16)) (hex_digit (of_char c mod 16)) = Inr c"
    by (simp add: hex_unit_def)
  then show ?thesis unfolding unit(1) by (simp add: read_escape_def)
next
  case (simple e)
  then show ?thesis by (simp add: read_escape_def)
qed simp

lemma read_json_body: "read_string (concat (map json_char s) @ CHR 34 # rest) = Inr (s, rest)"
proof -
  have "string_end (concat (map json_char s) @ CHR 34 # rest) = Some (concat (map json_char s), rest)"
    by (induction s) (simp_all add: string_end_json_char)
  moreover have "decode_body (concat (map json_char s)) = Inr s"
    by (induction s) (simp_all add: decode_json_char)
  ultimately show ?thesis by (simp add: read_string_def)
qed

section \<open>Reading back numbers\<close>

lemma decimal_head: "\<exists>c ds. decimal n = c # ds \<and> is_digit c \<and> (c = CHR ''0'' \<longrightarrow> ds = [])"
proof (induction n rule: decimal.induct)
  case (1 n)
  show ?case
  proof (cases "n < 10")
    case True
    then show ?thesis using digit_char_digit [of "int n"] by (simp add: decimal.simps [of n])
  next
    case False
    then obtain c ds where d: "decimal (n div 10) = c # ds" "is_digit c" "c = CHR ''0'' \<longrightarrow> ds = []" using 1 by blast
    have "digits_value (decimal (n div 10)) \<noteq> 0" using False by (simp add: decimal_value)
    then have "c \<noteq> CHR ''0''" using d by (auto simp: digits_value_def digit_val_def)
    then show ?thesis using d False by (simp add: decimal.simps [of n])
  qed
qed

text \<open>What may follow a value: the end, white space, a comma or a closing bracket.\<close>

definition ends :: "string \<Rightarrow> bool" where
  "ends s \<longleftrightarrow> (case s of [] \<Rightarrow> True | c # _ \<Rightarrow> is_ws c \<or> c \<in> {CHR '','', CHR '']'', CHR ''}''})"

lemma ends_stops: "ends s \<Longrightarrow> takeWhile is_digit s = [] \<and> dropWhile is_digit s = s"
  by (cases s) (auto simp: ends_def is_ws_def is_digit_def)

lemma ends_number: "ends s \<Longrightarrow> frac_part s = ([], s) \<and> exp_part s = (0, s)"
  by (cases s) (auto simp: ends_def is_ws_def frac_part_def exp_part_def split: list.split)

lemma takeWhile_all: "list_all p ds \<Longrightarrow> takeWhile p (ds @ s) = ds @ takeWhile p s \<and> dropWhile p (ds @ s) = dropWhile p s"
  by (induction ds) auto

lemma int_part_decimal: "ends s \<Longrightarrow> int_part (decimal n @ s) = Some (decimal n, s)"
proof -
  assume e: "ends s"
  obtain c ds where d: "decimal n = c # ds" "is_digit c" "c = CHR ''0'' \<longrightarrow> ds = []" using decimal_head by blast
  then have "list_all is_digit ds" using decimal_digits [of n] by simp
  then show ?thesis using d takeWhile_all [of is_digit ds s] ends_stops [OF e] by auto
qed

lemma match_json_int: "ends s \<Longrightarrow> match_number (json_int i @ s) = Some (of_int i, s)"
proof -
  assume e: "ends s"
  obtain c ds where d: "decimal (nat i) = c # ds" "is_digit c" using decimal_head by blast
  then have "c \<noteq> CHR ''-''" by (auto simp: is_digit_def)
  then have "number_sign (json_int i @ s) = (if i < 0 then (-1, decimal (nat (- i)) @ s) else (1, decimal (nat i) @ s))"
    using d by (simp add: json_int_def number_sign_def)
  then show ?thesis
    using int_part_decimal [OF e] ends_number [OF e]
    by (auto simp: match_number_def decimal_value pow10_def)
qed

lemma json_int_head: "\<exists>c r. json_int i = c # r \<and> lead_of c = L_Number \<and> \<not> is_ws c \<and> c \<noteq> CHR '']''"
proof -
  obtain c ds where d: "decimal (nat i) = c # ds" "is_digit c" using decimal_head by blast
  then have "lead_of c = L_Number \<and> \<not> is_ws c \<and> c \<noteq> CHR '']''" by (auto simp: is_digit_def lead_of_def is_ws_def)
  then show ?thesis using d by (auto simp: json_int_def lead_of_def is_ws_def)
qed

lemma skip_ws_id: "\<not> is_ws c \<Longrightarrow> skip_ws (c # r) = c # r"
  by (simp add: skip_ws_def)

lemma parse_json_int:
  assumes "ends s" "is_safe_int i"
  shows "parse_value (Suc n) (json_int i @ s) = Inr (JInt i, s)"
proof -
  obtain c r where c: "json_int i = c # r" "lead_of c = L_Number" "\<not> is_ws c" using json_int_head by blast
  have "match_number (c # r @ s) = Some (of_int i, s)" using match_json_int [OF assms(1), of i] c(1) by simp
  then show ?thesis using c by (simp add: skip_ws_id next_char_def to_double_int [OF assms(2)] JInt_def)
qed

section \<open>The round trip\<close>

lemma those_Some: "those xs = Some ys \<longleftrightarrow> list_all2 (\<lambda>x y. x = Some y) xs ys"
proof (induction xs arbitrary: ys)
  case Nil
  show ?case by (cases ys) auto
next
  case (Cons x xs)
  show ?case by (cases ys; cases x) (auto simp: Cons.IH)
qed

text \<open>\<open>reads v t\<close>: with fuel for its length, \<open>t\<close> is read as \<open>v\<close> whatever may follow.\<close>

definition reads :: "js_value \<Rightarrow> string \<Rightarrow> bool" where
  "reads v t \<longleftrightarrow> (\<exists>c r. t = c # r \<and> \<not> is_ws c \<and> c \<noteq> CHR '']'') \<and>
    (\<forall>n s. ends s \<longrightarrow> 2 * length (t @ s) \<le> n \<longrightarrow> parse_value (Suc n) (t @ s) = Inr (v, s))"

lemma reads_parse: "reads v t \<Longrightarrow> ends s \<Longrightarrow> 2 * length (t @ s) < n \<Longrightarrow> parse_value n (t @ s) = Inr (v, s)"
  by (cases n) (simp_all add: reads_def)

lemma reads_skip: "reads v t \<Longrightarrow> skip_ws (t @ s) = t @ s"
  by (auto simp: reads_def skip_ws_id)

lemma reads_atoms:
  "reads Null ''null''" "reads (Boolean True) ''true''" "reads (Boolean False) ''false''"
  "reads (String s) (json_string s)" "is_safe_int i \<Longrightarrow> reads (JInt i) (json_int i)"
proof -
  show "reads Null ''null''" "reads (Boolean True) ''true''" "reads (Boolean False) ''false''"
    by (simp_all add: reads_def is_ws_def skip_ws_id next_char_def lead_of_def read_literal_def)
  show "reads (String s) (json_string s)"
    using read_json_body by (simp add: reads_def json_string_def is_ws_def skip_ws_id next_char_def lead_of_def)
  assume i: "is_safe_int i"
  obtain c r where c: "json_int i = c # r" "lead_of c = L_Number" "\<not> is_ws c" "c \<noteq> CHR '']''" using json_int_head by blast
  then show "reads (JInt i) (json_int i)"
    using parse_json_int [OF _ i] by (auto simp: reads_def simp del: parse_value.simps)
qed

lemma json_items_Cons: "json_items (x # y # ys) = x @ CHR '','' # json_items (y # ys)"
  by simp

lemma ends_simps [simp]: "ends []" "ends (CHR '','' # s)" "ends (CHR '']'' # s)" "ends (CHR ''}'' # s)"
  by (simp_all add: ends_def)

lemma parse_elements_items:
  assumes "list_all2 reads vs ts" "ts \<noteq> []" "Suc (2 * length (json_items ts @ CHR '']'' # s)) < n"
  shows "parse_elements n (json_items ts @ CHR '']'' # s) = Inr (vs, s)"
  using assms
proof (induction ts arbitrary: vs n rule: json_items.induct)
  case (2 t)
  then obtain v k where v: "vs = [v]" "reads v t" "n = Suc k" by (cases n) (auto simp: list_all2_Cons2)
  then have "parse_value k (t @ CHR '']'' # s) = Inr (v, CHR '']'' # s)"
    using 2(3) by (intro reads_parse) simp_all
  then show ?case by (simp add: v next_char_def skip_ws_id is_ws_def)
next
  case (3 t u ts)
  then obtain v ws k where v: "vs = v # ws" "reads v t" "list_all2 reads ws (u # ts)" "n = Suc k"
    by (cases n) (auto simp: list_all2_Cons2)
  let ?r = "json_items (u # ts) @ CHR '']'' # s"
  have "parse_value k (t @ CHR '','' # ?r) = Inr (v, CHR '','' # ?r)"
    using 3(4) v by (intro reads_parse) (simp_all del: json_items.simps add: json_items_Cons)
  moreover have "skip_ws ?r = ?r"
  proof -
    obtain w where "reads w u" using v(3) by (auto simp: list_all2_Cons2)
    then show ?thesis by (cases ts) (auto simp: reads_skip)
  qed
  moreover have "parse_elements k ?r = Inr (ws, s)"
    using 3(1) [OF v(3)] 3(4) v(4) by (simp del: json_items.simps add: json_items_Cons)
  ultimately show ?case
    by (simp del: json_items.simps add: json_items_Cons v(1,4) next_char_def skip_ws_id is_ws_def)
qed simp

lemma reads_array: "list_all2 reads vs ts \<Longrightarrow> reads (Array vs) (json_array ts)"
proof (cases ts)
  case Nil
  assume "list_all2 reads vs ts"
  then show ?thesis using Nil by (simp add: reads_def json_array_def is_ws_def skip_ws_id next_char_def lead_of_def)
next
  case (Cons t us)
  assume r: "list_all2 reads vs ts"
  then obtain v where "reads v t" using Cons by (auto simp: list_all2_Cons2)
  then obtain c x where t: "t = c # x" "\<not> is_ws c" "c \<noteq> CHR '']''" by (auto simp: reads_def)
  then obtain y where y: "json_items ts = c # y" using Cons by (cases us) auto
  show ?thesis
    unfolding reads_def
  proof (intro conjI allI impI)
    show "\<exists>c r. json_array ts = c # r \<and> \<not> is_ws c \<and> c \<noteq> CHR '']''" by (simp add: json_array_def is_ws_def)
    fix n s assume "2 * length (json_array ts @ s) \<le> n"
    then have "parse_elements n (json_items ts @ CHR '']'' # s) = Inr (vs, s)"
      using r Cons by (intro parse_elements_items) (simp_all add: json_array_def)
    then have "parse_elements n (c # y @ CHR '']'' # s) = Inr (vs, s)" using y by simp
    then show "parse_value (Suc n) (json_array ts @ s) = Inr (Array vs, s)"
      using t by (simp add: json_array_def y skip_ws_id is_ws_def next_char_def lead_of_def)
  qed
qed

definition member_text :: "string \<Rightarrow> string \<Rightarrow> string" where
  "member_text k t = json_string k @ CHR '':'' # t"

definition reads_member :: "string \<times> js_value \<Rightarrow> string \<Rightarrow> bool" where
  "reads_member m u \<longleftrightarrow> (\<exists>t. u = member_text (fst m) t \<and> reads (snd m) t)"

lemma parse_member:
  assumes "reads v t" "ends s" "2 * length (member_text k t @ s) \<le> n"
  shows "read_string (concat (map json_char k) @ CHR 34 # CHR '':'' # t @ s) = Inr (k, CHR '':'' # t @ s)"
    and "parse_value n (t @ s) = Inr (v, s)"
  using read_json_body [of k "CHR '':'' # t @ s"] assms
  by (auto intro!: reads_parse simp: member_text_def json_string_def)

lemma parse_members_items:
  assumes "list_all2 reads_member ms us" "us \<noteq> []" "2 * length (json_items us @ CHR ''}'' # s) < n"
  shows "parse_members n (json_items us @ CHR ''}'' # s) = Inr (ms, s)"
  using assms
proof (induction us arbitrary: ms n rule: json_items.induct)
  case (2 u)
  then obtain k v l t where v: "ms = [(k, v)]" "reads v t" "u = member_text k t" "n = Suc l"
    by (cases n) (auto simp: list_all2_Cons2 reads_member_def)
  have "ends (CHR ''}'' # s)" "2 * length (member_text k t @ CHR ''}'' # s) \<le> l" using 2(3) v by simp_all
  note p = parse_member [OF v(2) this]
  show ?case using p by (simp add: v member_text_def json_string_def expect_def next_char_def skip_ws_id is_ws_def)
next
  case (3 u u' us)
  obtain m ws where m: "ms = m # ws" "reads_member m u" "list_all2 reads_member ws (u' # us)"
    using 3(2) by (cases ms) auto
  obtain l where l: "n = Suc l" using 3(4) by (cases n) auto
  obtain k v t where v: "ms = (k, v) # ws" "reads v t" "u = member_text k t"
      "list_all2 reads_member ws (u' # us)" "n = Suc l"
    using m l by (cases m) (auto simp: reads_member_def)
  let ?r = "json_items (u' # us) @ CHR ''}'' # s"
  have "ends (CHR '','' # ?r)" "2 * length (member_text k t @ CHR '','' # ?r) \<le> l"
    using 3(4) v by (simp_all del: json_items.simps add: json_items_Cons)
  note p = parse_member [OF v(2) this]
  have "skip_ws ?r = ?r"
  proof -
    obtain x where "u' = CHR 34 # x" using v(4) by (auto simp: list_all2_Cons2 reads_member_def member_text_def json_string_def)
    then show ?thesis by (cases us) (simp_all add: skip_ws_id is_ws_def)
  qed
  moreover have "parse_members l ?r = Inr (ws, s)"
    using 3(1) [OF v(4)] 3(4) v(5) by (simp del: json_items.simps add: json_items_Cons)
  ultimately show ?case
    using p by (simp del: json_items.simps
        add: json_items_Cons v(1,3,5) member_text_def json_string_def expect_def next_char_def skip_ws_id is_ws_def)
qed simp

lemma reads_object: "list_all2 reads_member ms us \<Longrightarrow> reads (Object ms) (json_object us)"
proof (cases us)
  case Nil
  assume "list_all2 reads_member ms us"
  then show ?thesis using Nil by (simp add: reads_def json_object_def is_ws_def skip_ws_id next_char_def lead_of_def)
next
  case (Cons u us')
  assume r: "list_all2 reads_member ms us"
  then obtain x where u: "u = CHR 34 # x" using Cons
    by (auto simp: list_all2_Cons2 reads_member_def member_text_def json_string_def)
  then obtain y where y: "json_items us = CHR 34 # y" using Cons by (cases us') auto
  show ?thesis
    unfolding reads_def
  proof (intro conjI allI impI)
    show "\<exists>c r. json_object us = c # r \<and> \<not> is_ws c \<and> c \<noteq> CHR '']''" by (simp add: json_object_def is_ws_def)
    fix n s assume "2 * length (json_object us @ s) \<le> n"
    then have "parse_members n (json_items us @ CHR ''}'' # s) = Inr (ms, s)"
      using r Cons by (intro parse_members_items) (simp_all add: json_object_def)
    then have "parse_members n (CHR 34 # y @ CHR ''}'' # s) = Inr (ms, s)" using y by simp
    then show "parse_value (Suc n) (json_object us @ s) = Inr (Object ms, s)"
      by (simp add: json_object_def y skip_ws_id is_ws_def next_char_def lead_of_def)
  qed
qed

lemma plain_reads: "plain v \<Longrightarrow> \<exists>t. json_text v = Some t \<and> reads v t"
proof (induction v rule: plain.induct)
  case (2 n)
  then obtain i where i: "n = Num (of_int i)" by (auto simp: is_safe_integer_def is_integer_iff)
  with 2 have s: "is_safe_int i" by (simp add: is_safe_integer_def)
  then have "\<bar>i\<bar> < 10 ^ 21" by (auto simp: is_safe_int_def MAX_SAFE_INTEGER_def)
  then have "\<bar>of_int i\<bar> < (10 ^ 21 :: rat)" by (metis of_int_abs of_int_less_iff of_int_numeral of_int_power)
  then have "number_text n = Some (json_int i)" by (simp add: i number_text_def del: is_integer.simps)
  then show ?case using reads_atoms(5) [OF s] by (simp add: i JInt_def)
next
  case (3 vs)
  then have "\<exists>t. json_text v = Some t \<and> reads v t" if "v \<in> set vs" for v using that by simp
  then obtain f where f: "\<forall>v \<in> set vs. json_text v = Some (f v) \<and> reads v (f v)" by metis
  have n: "\<forall>v \<in> set vs. v \<noteq> Undefined" using 3(2) by auto
  have "those (map (\<lambda>v. if v = Undefined then Some ''null'' else json_text v) vs) = Some (map f vs)"
    using f n by (auto simp: those_Some list_all2_map1 list_all2_map2 intro!: list.rel_refl_strong)
  moreover have "list_all2 reads vs (map f vs)" using f by (auto simp: list_all2_map2 intro!: list.rel_refl_strong)
  ultimately show ?case using reads_array by simp
next
  case (4 ms)
  then have "\<exists>t. json_text (snd m) = Some t \<and> reads (snd m) t" if "m \<in> set ms" for m using that by simp
  then obtain f where f: "\<forall>m \<in> set ms. json_text (snd m) = Some (f m) \<and> reads (snd m) (f m)" by metis
  have n: "filter (\<lambda>m. snd m \<noteq> Undefined) ms = ms" using 4(2) by (auto intro!: filter_True)
  have "those (map (\<lambda>m. map_option (\<lambda>t. json_string (fst m) @ CHR '':'' # t) (json_text (snd m))) ms) =
      Some (map (\<lambda>m. member_text (fst m) (f m)) ms)"
    using f by (auto simp: those_Some list_all2_map1 list_all2_map2 member_text_def intro!: list.rel_refl_strong)
  moreover have "list_all2 reads_member ms (map (\<lambda>m. member_text (fst m) (f m)) ms)"
    using f by (auto simp: list_all2_map2 reads_member_def intro!: list.rel_refl_strong)
  ultimately show ?case using reads_object n by simp
qed (auto simp: reads_atoms split: if_splits)

lemma JSON_round_trip:
  assumes "plain v" "unique_fields v"
  shows "\<exists>t. json_text v = Some t \<and> JSON_parse t = Inr v"
proof -
  obtain t where t: "json_text v = Some t" "reads v t" using plain_reads [OF assms(1)] by blast
  then have "parse_value (Suc (2 * length t)) t = Inr (v, [])" by (auto simp: reads_def dest!: spec [of _ "2 * length t"] spec [of _ "[]"] simp del: parse_value.simps)
  then show ?thesis
    using t(1) merge_unique [OF assms(2)] by (simp add: JSON_parse_def JSON_tree_def skip_ws_def del: parse_value.simps)
qed

end
