(* ===== verification/Suggestion_Cache.thy ===== *)
theory Suggestion_Cache
  imports Suggestions Json
begin

text \<open>
  \<^verbatim>\<open>packages/cache/src/suggestions.ts\<close>: the text a suggestion index has in the cache. A value that
  arrives is checked field by field and rebuilt; the same check runs before an index is written.

  Results: what is written is read back as the index that was checked, and whatever is read has the
  shape the filter of \<open>Suggestions\<close> relies on, within the size bounds of the cache.

  The objects are those of \<^verbatim>\<open>JSON.parse\<close> and of object literals: plain prototypes, enumerable data
  properties, dense arrays; the tests on prototypes and descriptors accept all of them.
\<close>

section \<open>Checking\<close>

datatype cache_error = InvalidSuggestionIndex

definition SUGGESTION_CACHE_MAX_BYTES :: int where "SUGGESTION_CACHE_MAX_BYTES = 524288"
definition SUGGESTION_CACHE_MAX_ENTITIES :: nat where "SUGGESTION_CACHE_MAX_ENTITIES = 1000"
definition SUGGESTION_CACHE_MAX_ALIASES :: nat where "SUGGESTION_CACHE_MAX_ALIASES = 32"

definition require :: "bool \<Rightarrow> cache_error + unit" where
  "require b = throwIf (\<not> b) InvalidSuggestionIndex"

text \<open>\<^verbatim>\<open>/^[0-9a-f]{8}-[0-9a-f]{4}-[0-9a-f]{4}-[0-9a-f]{4}-[0-9a-f]{12}$/u\<close>\<close>

definition LOWER_HEX :: string where "LOWER_HEX = ''0123456789abcdef''"

definition revision_key_classes :: "string list" where
  "revision_key_classes = replicate 8 LOWER_HEX @ [''-''] @ replicate 4 LOWER_HEX @ [''-''] @
     replicate 4 LOWER_HEX @ [''-''] @ replicate 4 LOWER_HEX @ [''-''] @ replicate 12 LOWER_HEX"

definition is_revision_id :: "string \<Rightarrow> bool" where
  "is_revision_id s \<longleftrightarrow> list_all2 (\<lambda>c cs. c \<in> set cs) s revision_key_classes"

definition suggestionCacheKey :: "string \<Rightarrow> cache_error + string" where
  "suggestionCacheKey revisionId =
    (if is_revision_id revisionId then Inr (''loremaster:v1:revision:'' @ revisionId @ '':suggestions'')
     else Inl InvalidSuggestionIndex)"

definition record_fields :: "js_value \<Rightarrow> string list \<Rightarrow> cache_error + (string \<times> js_value) list" where
  "record_fields v keys = (case v of
     Object fs \<Rightarrow> if length fs = length keys \<and> list_all (\<lambda>k. k \<in> fst ` set fs) keys then Inr fs
       else Inl InvalidSuggestionIndex
   | _ \<Rightarrow> Inl InvalidSuggestionIndex)"

definition control_free :: "string \<Rightarrow> bool" where
  "control_free s \<longleftrightarrow> list_all (\<lambda>c. 32 \<le> (of_char c :: nat) \<and> (of_char c :: nat) \<noteq> 127) s"

definition bounded_text :: "nat \<Rightarrow> string \<Rightarrow> bool" where
  "bounded_text maximum s \<longleftrightarrow> 1 \<le> length s \<and> length s \<le> maximum \<and> control_free s"

definition check_string :: "js_value \<Rightarrow> nat \<Rightarrow> cache_error + string" where
  "check_string v maximum = (case v of
     String s \<Rightarrow> if bounded_text maximum s then Inr s else Inl InvalidSuggestionIndex
   | _ \<Rightarrow> Inl InvalidSuggestionIndex)"

definition denseArray :: "js_value \<Rightarrow> nat \<Rightarrow> cache_error + js_value list" where
  "denseArray v maximumLength = (case v of
     Array vs \<Rightarrow> if length vs \<le> maximumLength then Inr vs else Inl InvalidSuggestionIndex
   | _ \<Rightarrow> Inl InvalidSuggestionIndex)"

definition check_aliases :: "js_value \<Rightarrow> cache_error + string list" where
  "check_aliases v = bindE (denseArray v SUGGESTION_CACHE_MAX_ALIASES) (mapE (\<lambda>x. check_string x 512))"

text \<open>\<^verbatim>\<open>/^[A-Za-z0-9][A-Za-z0-9_-]*$/u\<close>\<close>

definition alphanumeric :: "char \<Rightarrow> bool" where
  "alphanumeric c \<longleftrightarrow> (let n = (of_char c :: nat) in
     48 \<le> n \<and> n \<le> 57 \<or> 65 \<le> n \<and> n \<le> 90 \<or> 97 \<le> n \<and> n \<le> 122)"

definition entity_id_form :: "string \<Rightarrow> bool" where
  "entity_id_form s \<longleftrightarrow> (case s of [] \<Rightarrow> False
     | c # cs \<Rightarrow> alphanumeric c \<and> list_all (\<lambda>d. alphanumeric d \<or> d = CHR ''_'' \<or> d = CHR ''-'') cs)"

definition ENTITY_KEYS :: "string list" where
  "ENTITY_KEYS = [''entityId'', ''canonicalName'', ''publicRole'', ''aliases'', ''searchName'', ''searchRole'',
     ''searchAliases'', ''sortRank'']"

definition check_rank :: "js_value \<Rightarrow> int list \<Rightarrow> cache_error + int" where
  "check_rank v ranks = (case as_integer v of
     None \<Rightarrow> Inl InvalidSuggestionIndex
   | Some i \<Rightarrow> if 0 \<le> i \<and> i < int SUGGESTION_CACHE_MAX_ENTITIES \<and> i \<notin> set ranks then Inr i
       else Inl InvalidSuggestionIndex)"

text \<open>One entity, given the identifiers and the ranks seen before it.\<close>

definition check_entity :: "js_value \<Rightarrow> string list \<Rightarrow> int list \<Rightarrow> cache_error + suggestion_row" where
  "check_entity value ids ranks =
    bindE (record_fields value ENTITY_KEYS) (\<lambda>_.
    bindE (check_string (js_field value ''entityId'') 128) (\<lambda>entityId.
    bindE (require (entity_id_form entityId \<and> entityId \<notin> set ids)) (\<lambda>_.
    bindE (check_rank (js_field value ''sortRank'') ranks) (\<lambda>sortRank.
    bindE (check_aliases (js_field value ''aliases'')) (\<lambda>names.
    bindE (check_aliases (js_field value ''searchAliases'')) (\<lambda>searchAliases.
    bindE (require (length names = length searchAliases)) (\<lambda>_.
    bindE (check_string (js_field value ''canonicalName'') 512) (\<lambda>canonicalName.
    bindE (check_string (js_field value ''publicRole'') 512) (\<lambda>publicRole.
    bindE (check_string (js_field value ''searchName'') 512) (\<lambda>searchName.
    bindE (check_string (js_field value ''searchRole'') 512) (\<lambda>searchRole.
    Inr \<lparr>es_entityId = entityId, es_canonicalName = canonicalName, es_publicRole = publicRole,
         es_aliases = names, sg_searchName = searchName, sg_searchRole = searchRole,
         sg_searchAliases = searchAliases, sg_sortRank = sortRank\<rparr>)))))))))))"

fun check_entities :: "js_value list \<Rightarrow> string list \<Rightarrow> int list \<Rightarrow> cache_error + suggestion_row list" where
  "check_entities [] ids ranks = Inr []"
| "check_entities (v # vs) ids ranks =
    bindE (check_entity v ids ranks) (\<lambda>e.
    bindE (check_entities vs (es_entityId e # ids) (sg_sortRank e # ranks)) (\<lambda>es. Inr (e # es)))"

definition compare_sortRank :: "suggestion_row \<Rightarrow> suggestion_row \<Rightarrow> int" where
  "compare_sortRank a b = sg_sortRank a - sg_sortRank b"

definition validate_index :: "js_value \<Rightarrow> cache_error + suggestion_index" where
  "validate_index value =
    bindE (record_fields value [''version'', ''revisionId'', ''entities'']) (\<lambda>_.
    bindE (require (js_field value ''version'' = JInt 1)) (\<lambda>_.
    bindE (check_string (js_field value ''revisionId'') 36) (\<lambda>revisionId.
    bindE (suggestionCacheKey revisionId) (\<lambda>_.
    bindE (denseArray (js_field value ''entities'') SUGGESTION_CACHE_MAX_ENTITIES) (\<lambda>values.
    bindE (check_entities values [] []) (\<lambda>es.
    Inr \<lparr>si_revisionId = revisionId, si_entities = js_sort compare_sortRank es\<rparr>))))))"

section \<open>Writing and reading\<close>

text \<open>\<^verbatim>\<open>Buffer.byteLength(raw, 'utf8')\<close> on code units below 256.\<close>

definition utf8_length :: "string \<Rightarrow> int" where
  "utf8_length s = sum_list (map (\<lambda>c. if (of_char c :: nat) < 128 then 1 else 2) s)"

definition row_value :: "suggestion_row \<Rightarrow> js_value" where
  "row_value e = Object [(''entityId'', String (es_entityId e)), (''canonicalName'', String (es_canonicalName e)),
     (''publicRole'', String (es_publicRole e)), (''aliases'', Array (map String (es_aliases e))),
     (''searchName'', String (sg_searchName e)), (''searchRole'', String (sg_searchRole e)),
     (''searchAliases'', Array (map String (sg_searchAliases e))), (''sortRank'', JInt (sg_sortRank e))]"

definition index_value :: "suggestion_index \<Rightarrow> js_value" where
  "index_value i = Object [(''version'', JInt 1), (''revisionId'', String (si_revisionId i)),
     (''entities'', Array (map row_value (si_entities i)))]"

definition parseSuggestionIndex :: "js_value \<Rightarrow> cache_error + suggestion_index" where
  "parseSuggestionIndex raw = (case raw of
     String s \<Rightarrow> if SUGGESTION_CACHE_MAX_BYTES < utf8_length s then Inl InvalidSuggestionIndex
       else (case JSON_parse s of Inl _ \<Rightarrow> Inl InvalidSuggestionIndex | Inr v \<Rightarrow> validate_index v)
   | _ \<Rightarrow> Inl InvalidSuggestionIndex)"

definition serializeSuggestionIndex :: "js_value \<Rightarrow> cache_error + string" where
  "serializeSuggestionIndex index =
    bindE (validate_index index) (\<lambda>i.
      (case json_text (index_value i) of None \<Rightarrow> Inl InvalidSuggestionIndex
       | Some raw \<Rightarrow> if SUGGESTION_CACHE_MAX_BYTES < utf8_length raw then Inl InvalidSuggestionIndex else Inr raw))"

section \<open>What a checked index is\<close>

definition valid_row :: "suggestion_row \<Rightarrow> bool" where
  "valid_row e \<longleftrightarrow> bounded_text 128 (es_entityId e) \<and> entity_id_form (es_entityId e) \<and>
    bounded_text 512 (es_canonicalName e) \<and> bounded_text 512 (es_publicRole e) \<and>
    bounded_text 512 (sg_searchName e) \<and> bounded_text 512 (sg_searchRole e) \<and>
    length (es_aliases e) \<le> 32 \<and> length (sg_searchAliases e) = length (es_aliases e) \<and>
    list_all (bounded_text 512) (es_aliases e) \<and> list_all (bounded_text 512) (sg_searchAliases e) \<and>
    0 \<le> sg_sortRank e \<and> sg_sortRank e < 1000"

definition valid_index :: "suggestion_index \<Rightarrow> bool" where
  "valid_index i \<longleftrightarrow> is_revision_id (si_revisionId i) \<and> length (si_entities i) \<le> 1000 \<and>
    list_all valid_row (si_entities i) \<and> distinct (map es_entityId (si_entities i)) \<and>
    sorted_wrt (\<lambda>a b. sg_sortRank a < sg_sortRank b) (si_entities i)"

lemmas cache_bounds = SUGGESTION_CACHE_MAX_ALIASES_def SUGGESTION_CACHE_MAX_ENTITIES_def SUGGESTION_CACHE_MAX_BYTES_def

lemma check_string_Inr: "check_string v m = Inr s \<longleftrightarrow> v = String s \<and> bounded_text m s"
  by (cases v) (auto simp: check_string_def)

lemma mapE_check_string: "mapE (\<lambda>x. check_string x m) vs = Inr ss \<longleftrightarrow> vs = map String ss \<and> list_all (bounded_text m) ss"
  by (auto simp: mapE_eq_Inr check_string_Inr list_all2_conv_all_nth list_all_length intro: nth_equalityI)

lemma check_aliases_Inr: "check_aliases v = Inr ss \<longleftrightarrow>
    v = Array (map String ss) \<and> length ss \<le> 32 \<and> list_all (bounded_text 512) ss"
  by (cases v) (auto simp: check_aliases_def denseArray_def mapE_check_string cache_bounds split: if_splits)

lemma require_Inr: "require b = Inr u \<longleftrightarrow> b"
  by (simp add: require_def throwIf_eq_Inr)

lemma check_rank_Inr: "check_rank v ranks = Inr i \<longleftrightarrow> v = JInt i \<and> 0 \<le> i \<and> i < 1000 \<and> i \<notin> set ranks"
  by (auto simp: check_rank_def as_integer_Some cache_bounds split: option.splits if_splits)

lemmas check_Inr = check_string_Inr check_aliases_Inr require_Inr check_rank_Inr bindE_eq_Inr

lemma check_entity_Inr:
  "check_entity v ids ranks = Inr e \<Longrightarrow> valid_row e \<and> es_entityId e \<notin> set ids \<and> sg_sortRank e \<notin> set ranks"
  by (auto simp: check_entity_def check_Inr valid_row_def)

lemma check_entity_value:
  assumes "valid_row e" "es_entityId e \<notin> set ids" "sg_sortRank e \<notin> set ranks"
  shows "check_entity (row_value e) ids ranks = Inr e"
proof -
  have "record_fields (row_value e) ENTITY_KEYS = Inr (case row_value e of Object fs \<Rightarrow> fs)"
    by (simp add: record_fields_def row_value_def ENTITY_KEYS_def)
  moreover have "check_aliases (Array (map String (es_aliases e))) = Inr (es_aliases e)"
    "check_aliases (Array (map String (sg_searchAliases e))) = Inr (sg_searchAliases e)"
    "check_rank (JInt (sg_sortRank e)) ranks = Inr (sg_sortRank e)"
    using assms by (simp_all add: check_aliases_Inr check_rank_Inr valid_row_def)
  ultimately show ?thesis
    using assms unfolding check_entity_def
    by (simp add: row_value_def check_string_def valid_row_def require_def)
qed

lemma check_entities_Inr:
  "check_entities vs ids ranks = Inr es \<Longrightarrow> list_all valid_row es \<and> length es = length vs \<and>
    distinct (map es_entityId es) \<and> es_entityId ` set es \<inter> set ids = {} \<and>
    distinct (map sg_sortRank es) \<and> sg_sortRank ` set es \<inter> set ranks = {}"
  by (induction vs ids ranks arbitrary: es rule: check_entities.induct)
    (fastforce simp: bindE_eq_Inr dest: check_entity_Inr)+

lemma check_entities_values:
  "list_all valid_row es \<Longrightarrow> distinct (map es_entityId es) \<Longrightarrow> es_entityId ` set es \<inter> set ids = {} \<Longrightarrow>
   distinct (map sg_sortRank es) \<Longrightarrow> sg_sortRank ` set es \<inter> set ranks = {} \<Longrightarrow>
   check_entities (map row_value es) ids ranks = Inr es"
  by (induction es arbitrary: ids ranks) (auto simp: check_entity_value)

interpretation rank_order: js_comparator compare_sortRank
  by unfold_locales (auto simp: compare_sortRank_def sgn_if)

lemma strictly_sorted_ranks:
  assumes "distinct (map sg_sortRank es)"
  shows "sorted_wrt (\<lambda>a b. sg_sortRank a < sg_sortRank b) (js_sort compare_sortRank es)"
proof -
  have s: "sorted_wrt (\<lambda>a b. compare_sortRank a b \<le> 0) (js_sort compare_sortRank es)" by (rule rank_order.sorted_js_sort)
  have "mset (map sg_sortRank (js_sort compare_sortRank es)) = mset (map sg_sortRank es)" by simp
  then have d: "distinct (map sg_sortRank (js_sort compare_sortRank es))" using assms mset_eq_imp_distinct_iff by blast
  have "sorted_wrt (\<lambda>a b. a < b) (map sg_sortRank (js_sort compare_sortRank es))"
    using s d by (intro strict_sorted_iff [THEN iffD2] conjI) (simp_all add: sorted_wrt_map compare_sortRank_def sorted_wrt_iff_nth_less)
  then show ?thesis by (simp add: sorted_wrt_map)
qed

lemma sort_sorted: "sorted_wrt (\<lambda>a b. sg_sortRank a < sg_sortRank b) es \<Longrightarrow> js_sort compare_sortRank es = es"
proof (induction es)
  case (Cons e es)
  then show ?case by (cases es) (auto simp: compare_sortRank_def)
qed simp

lemma revision_id_text: "is_revision_id s \<Longrightarrow> bounded_text 36 s"
proof -
  assume "is_revision_id s"
  then have s: "list_all2 (\<lambda>c cs. c \<in> set cs) s revision_key_classes" by (simp add: is_revision_id_def)
  have "list_all (list_all (\<lambda>c. 32 \<le> (of_char c :: nat) \<and> (of_char c :: nat) \<noteq> 127)) revision_key_classes" by code_simp
  then have k: "32 \<le> (of_char c :: nat) \<and> (of_char c :: nat) \<noteq> 127" if "c \<in> set xs" "xs \<in> set revision_key_classes" for c xs
    using that by (auto simp: list_all_iff)
  have "32 \<le> (of_char c :: nat) \<and> (of_char c :: nat) \<noteq> 127" if c: "c \<in> set s" for c
  proof -
    obtain i where "i < length s" "c = s ! i" using c by (auto simp: in_set_conv_nth)
    then show ?thesis using s by (intro k [of c "revision_key_classes ! i"]) (auto simp: list_all2_conv_all_nth)
  qed
  then have "control_free s" by (simp add: control_free_def list_all_iff)
  moreover have "length s = 36" using list_all2_lengthD [OF s] by (simp add: revision_key_classes_def)
  ultimately show ?thesis by (simp add: bounded_text_def)
qed

lemma strict_ranks_distinct:
  "sorted_wrt (\<lambda>a b. sg_sortRank a < sg_sortRank b) es \<Longrightarrow> distinct (map sg_sortRank es)"
  by (induction es) auto

lemma validate_index_valid: "validate_index v = Inr i \<Longrightarrow> valid_index i"
proof -
  assume "validate_index v = Inr i"
  then obtain r vs es where r: "is_revision_id r" "length vs \<le> 1000" "check_entities vs [] [] = Inr es"
    "i = \<lparr>si_revisionId = r, si_entities = js_sort compare_sortRank es\<rparr>"
    by (auto simp: validate_index_def check_Inr suggestionCacheKey_def denseArray_def cache_bounds
        split: if_splits js_value.splits)
  note es = check_entities_Inr [OF r(3)]
  have "mset (map es_entityId (js_sort compare_sortRank es)) = mset (map es_entityId es)" by simp
  then have "distinct (map es_entityId (js_sort compare_sortRank es))" using es mset_eq_imp_distinct_iff by blast
  moreover have "list_all valid_row (js_sort compare_sortRank es)" using es by (simp add: list_all_iff)
  ultimately show ?thesis
    using r(1,2) es strictly_sorted_ranks [of es] unfolding r(4) by (simp add: valid_index_def)
qed

lemma valid_index_validates: "valid_index i \<Longrightarrow> validate_index (index_value i) = Inr i"
proof -
  assume i: "valid_index i"
  have "record_fields (index_value i) [''version'', ''revisionId'', ''entities''] =
      Inr (case index_value i of Object fs \<Rightarrow> fs)"
    by (simp add: record_fields_def index_value_def)
  moreover have "check_string (String (si_revisionId i)) 36 = Inr (si_revisionId i)"
    using i revision_id_text by (simp add: check_string_def valid_index_def)
  moreover have "distinct (map sg_sortRank (si_entities i))"
    using i strict_ranks_distinct [of "si_entities i"] unfolding valid_index_def by blast
  then have "check_entities (map row_value (si_entities i)) [] [] = Inr (si_entities i)"
    using i by (intro check_entities_values) (auto simp: valid_index_def)
  ultimately show ?thesis
    using i sort_sorted
    by (simp add: validate_index_def index_value_def require_def suggestionCacheKey_def denseArray_def cache_bounds valid_index_def)
qed

section \<open>Results\<close>

lemma JInt_plain: "plain (JInt i) = is_safe_int i" "unique_fields (JInt i)"
  by (simp_all add: JInt_def is_safe_integer_int [unfolded int_number_def])

lemma index_value_plain: "valid_index i \<Longrightarrow> plain (index_value i) \<and> unique_fields (index_value i)"
  by (auto simp: index_value_def row_value_def valid_index_def valid_row_def list_all_iff JInt_plain
      is_safe_int_def MAX_SAFE_INTEGER_def)

lemma serialized_read_back:
  assumes "serializeSuggestionIndex v = Inr raw"
  shows "parseSuggestionIndex (String raw) = validate_index v"
proof -
  obtain i where i: "validate_index v = Inr i" "json_text (index_value i) = Some raw"
    "\<not> SUGGESTION_CACHE_MAX_BYTES < utf8_length raw"
    using assms by (auto simp: serializeSuggestionIndex_def bindE_eq_Inr split: option.splits if_splits)
  have "valid_index i" using validate_index_valid [OF i(1)] .
  moreover have "JSON_parse raw = Inr (index_value i)"
    using JSON_round_trip [of "index_value i"] index_value_plain [OF \<open>valid_index i\<close>] i(2) by simp
  ultimately show ?thesis
    using i valid_index_validates by (simp add: parseSuggestionIndex_def)
qed

text \<open>The cache codec round-trips: whatever value is given to \<open>serializeSuggestionIndex\<close>, when it
  produces a text then that text is parsed as the very index the check made of the value.\<close>

lemma serialized_index_is_read_back:
  assumes "serializeSuggestionIndex v = Inr raw"
  shows "parseSuggestionIndex (String raw) = validate_index v"
  using assms by (rule serialized_read_back)

text \<open>Whatever text or value comes out of the cache, an accepted index has a well-formed
  revision identifier, at most a thousand entities with distinct identifiers in strictly increasing
  rank order, and names and aliases that are non-empty, bounded and free of control characters.\<close>

lemma accepted_index_is_well_formed:
  "(case parseSuggestionIndex raw of Inr i \<Rightarrow> valid_index i | Inl _ \<Rightarrow> True)"
  using validate_index_valid by (auto simp: parseSuggestionIndex_def split: sum.split js_value.split)

definition sample_index :: js_value where
  "sample_index = index_value \<lparr>si_revisionId = ''01234567-89ab-cdef-0123-456789abcdef'', si_entities =
     [\<lparr>es_entityId = ''one'', es_canonicalName = ''One'', es_publicRole = ''x'', es_aliases = [''Uno''],
       sg_searchName = ''one'', sg_searchRole = ''x'', sg_searchAliases = [''uno''], sg_sortRank = 3\<rparr>]\<rparr>"

lemma serialized_index_is_read_back_example:
  "\<exists>raw. serializeSuggestionIndex sample_index = Inr raw \<and> parseSuggestionIndex (String raw) = validate_index sample_index"
proof -
  define ok where "ok = (\<lambda>r :: cache_error + string. case r of Inr _ \<Rightarrow> True | Inl _ \<Rightarrow> False)"
  have "ok (serializeSuggestionIndex sample_index)" unfolding ok_def by code_simp
  then obtain raw where "serializeSuggestionIndex sample_index = Inr raw"
    by (auto simp: ok_def split: sum.splits)
  then show ?thesis using serialized_index_is_read_back by blast
qed

end
