(* ===== verification/Window_Limit.thy ===== *)
theory Window_Limit
  imports Prelude
begin

text \<open>
  Machines driven by a clock, and the contract of a fixed-window limiter: of the requests an identity
  makes in one window, no more than its limit are granted. The in-process limiter of the API and the
  Redis script both provide the contract.
\<close>

section \<open>Machines driven by a clock\<close>

text \<open>The invariant may speak of the time; it survives the passing of time and every step.\<close>

locale timed_machine =
  fixes step :: "'s \<Rightarrow> int \<Rightarrow> 'c \<Rightarrow> 's"
    and good :: "int \<Rightarrow> 's \<Rightarrow> bool"
  assumes good_later: "good t s \<Longrightarrow> t \<le> t' \<Longrightarrow> good t' s"
    and step_good: "good t s \<Longrightarrow> good t (step s t c)"
begin

lemma run_good:
  "good t s \<Longrightarrow> sorted (t # map fst cs) \<Longrightarrow> good (last (t # map fst cs)) (foldl (\<lambda>s (t, c). step s t c) s cs)"
proof (induction cs arbitrary: t s)
  case (Cons x cs)
  obtain u c where x: "x = (u, c)" by (cases x)
  then have "good u (step s u c)" using Cons.prems by (auto intro!: step_good intro: good_later)
  then show ?case using Cons.IH [of u] Cons.prems(2) x by simp
qed simp

end

section \<open>The contract of a fixed-window limiter\<close>

text \<open>The granted requests of a run that name the identity, in the window.\<close>

fun granted_count ::
  "('s \<Rightarrow> int \<Rightarrow> 'c \<Rightarrow> 's) \<Rightarrow> ('s \<Rightarrow> int \<Rightarrow> 'c \<Rightarrow> bool) \<Rightarrow> ('c \<Rightarrow> bool) \<Rightarrow> (int \<Rightarrow> bool) \<Rightarrow> 's \<Rightarrow> (int \<times> 'c) list \<Rightarrow> int" where
  "granted_count step granted named inside s [] = 0"
| "granted_count step granted named inside s ((t, c) # cs) =
    (if granted s t c \<and> named c \<and> inside t then 1 else 0) + granted_count step granted named inside (step s t c) cs"

locale window_limiter = timed_machine step good
  for step :: "'s \<Rightarrow> int \<Rightarrow> 'c \<Rightarrow> 's" and good :: "int \<Rightarrow> 's \<Rightarrow> bool" +
  fixes granted :: "'s \<Rightarrow> int \<Rightarrow> 'c \<Rightarrow> bool"
    and names :: "'c \<Rightarrow> 'i \<Rightarrow> bool"
    and used :: "'i \<Rightarrow> int \<Rightarrow> 's \<Rightarrow> int"
    and limit :: "'i \<Rightarrow> int"
    and window :: "int \<Rightarrow> int"
  assumes window_mono: "good t s \<Longrightarrow> t \<le> t' \<Longrightarrow> window t \<le> window t'"
    and grant_below: "good t s \<Longrightarrow> granted s t c \<Longrightarrow> names c i \<Longrightarrow> used i t s < limit i"
    and grant_counts: "good t s \<Longrightarrow> granted s t c \<Longrightarrow> names c i \<Longrightarrow> used i t s + 1 \<le> used i t (step s t c)"
    and step_keeps: "good t s \<Longrightarrow> used i t s \<le> used i t (step s t c)"
    and time_keeps: "good t s \<Longrightarrow> t \<le> t' \<Longrightarrow> window t = window t' \<Longrightarrow> used i t s \<le> used i t' s"
    and used_nonneg: "good t s \<Longrightarrow> 0 \<le> used i t s"
begin

lemma no_grants_later:
  "good t s \<Longrightarrow> b < window t \<Longrightarrow> sorted (t # map fst cs) \<Longrightarrow> granted_count step granted (\<lambda>c. names c i) (\<lambda>t. window t = b) s cs = 0"
proof (induction cs arbitrary: t s)
  case (Cons x cs)
  obtain u c where x: "x = (u, c)" by (cases x)
  have tu: "t \<le> u" using Cons.prems(3) x by simp
  have "good u (step s u c)" using step_good good_later [OF Cons.prems(1) tu] by blast
  moreover have "b < window u" using Cons.prems(2) window_mono [OF Cons.prems(1) tu] by simp
  ultimately show ?case using Cons.IH [of u "step s u c"] Cons.prems(3) x by simp
qed simp

lemma grants_left:
  assumes "good t s" "sorted (t # map fst cs)" "0 \<le> limit i"
  shows "granted_count step granted (\<lambda>c. names c i) (\<lambda>t. window t = b) s cs \<le> max 0 (limit i - (if window t = b then used i t s else 0))"
  using assms(1,2)
proof (induction cs arbitrary: t s)
  case (Cons x cs)
  obtain u c where x: "x = (u, c)" by (cases x)
  let ?s = "step s u c"
  have tu: "t \<le> u" and srt: "sorted (u # map fst cs)" using Cons.prems(2) x by simp_all
  have gu: "good u s" using good_later [OF Cons.prems(1) tu] .
  have gs: "good u ?s" using step_good [OF gu] .
  note IH = Cons.IH [OF gs srt]
  show ?case
  proof (cases "window u = b")
    case True
    have le: "(if window t = b then used i t s else 0) \<le> used i u s"
      using time_keeps [OF Cons.prems(1) tu] used_nonneg [OF gu] True by auto
    show ?thesis
    proof (cases "granted s u c \<and> names c i")
      case g: True
      then have "used i u s < limit i" "used i u s + 1 \<le> used i u ?s"
        using grant_below [OF gu] grant_counts [OF gu] by blast+
      then show ?thesis using IH True g le x by (auto simp: max_def split: if_splits)
    next
      case False
      have "used i u s \<le> used i u ?s" using step_keeps [OF gu] .
      then show ?thesis using IH True False le x by (auto simp: max_def split: if_splits)
    qed
  next
    case False
    show ?thesis
    proof (cases "window t = b")
      case True
      then have "b < window u" using False window_mono [OF Cons.prems(1) tu] by simp
      then have "granted_count step granted (\<lambda>c. names c i) (\<lambda>t. window t = b) ?s cs = 0" using no_grants_later gs srt by blast
      then show ?thesis using False x by simp
    next
      case t: False
      then show ?thesis using IH False x by simp
    qed
  qed
qed simp

lemma window_bound:
  "good t s \<Longrightarrow> sorted (t # map fst cs) \<Longrightarrow> 0 \<le> limit i \<Longrightarrow> granted_count step granted (\<lambda>c. names c i) (\<lambda>t. window t = b) s cs \<le> limit i"
  using grants_left [of t s cs i b] used_nonneg [of t s i] by (auto split: if_splits)

end

end
