(* ===== verification/Redis.thy ===== *)
theory Redis
  imports Window_Limit "HOL-Library.AList"
begin

text \<open>
  The Redis commands the scripts of \<^verbatim>\<open>packages/cache\<close> call. A script is atomic and sees one reading of
  \<^verbatim>\<open>TIME\<close>, in microseconds; a key whose expiry has passed is absent. The keys of texts, of counters
  and of sorted sets have different forms, so they are kept apart and no command meets a value of
  another type.
\<close>

section \<open>The commands\<close>

record redis_db =
  r_texts :: "string \<Rightarrow> (string \<times> int) option"
  r_counters :: "string \<Rightarrow> (int \<times> int) option"
  r_sets :: "string \<Rightarrow> ((string \<times> int) list \<times> int) option"

definition empty_redis :: redis_db where
  "empty_redis = \<lparr>r_texts = (\<lambda>_. None), r_counters = (\<lambda>_. None), r_sets = (\<lambda>_. None)\<rparr>"

definition live :: "int \<Rightarrow> ('v \<times> int) option \<Rightarrow> 'v option" where
  "live now x = (case x of Some (v, e) \<Rightarrow> if now < e then Some v else None | None \<Rightarrow> None)"

definition get_counter :: "int \<Rightarrow> string \<Rightarrow> redis_db \<Rightarrow> int" where
  "get_counter now k db = (case live now (r_counters db k) of None \<Rightarrow> 0 | Some v \<Rightarrow> v)"

definition zmembers :: "int \<Rightarrow> string \<Rightarrow> redis_db \<Rightarrow> (string \<times> int) list" where
  "zmembers now k db = (case live now (r_sets db k) of None \<Rightarrow> [] | Some ms \<Rightarrow> ms)"

definition set_expiry :: "int \<Rightarrow> string \<Rightarrow> redis_db \<Rightarrow> int" where
  "set_expiry now k db = (case r_sets db k of None \<Rightarrow> now | Some (_, e) \<Rightarrow> e)"

definition zremrangebyscore :: "int \<Rightarrow> string \<Rightarrow> redis_db \<Rightarrow> redis_db" where
  "zremrangebyscore now k db = db\<lparr>r_sets := (r_sets db)(k :=
     (case live now (r_sets db k) of None \<Rightarrow> None
      | Some ms \<Rightarrow> Some (filter (\<lambda>m. now < snd m) ms, set_expiry now k db)))\<rparr>"

text \<open>\<^verbatim>\<open>ZADD\<close> followed by \<^verbatim>\<open>PEXPIRE\<close> on the same set.\<close>

definition zadd_pexpire :: "int \<Rightarrow> string \<Rightarrow> int \<Rightarrow> string \<Rightarrow> int \<Rightarrow> redis_db \<Rightarrow> redis_db" where
  "zadd_pexpire now k sc member ttl db = db\<lparr>r_sets := (r_sets db)(k :=
     Some (AList.update member sc (zmembers now k db), now + ttl))\<rparr>"

definition incr_pexpire :: "int \<Rightarrow> string \<Rightarrow> int \<Rightarrow> redis_db \<Rightarrow> redis_db" where
  "incr_pexpire now k ttl db = db\<lparr>r_counters := (r_counters db)(k :=
     Some (get_counter now k db + 1, now + ttl))\<rparr>"

definition now_ms :: "int \<Rightarrow> int" where
  "now_ms us = (us div 1000000) * 1000 + (us mod 1000000) div 1000"

lemma length_update: "length (AList.update k v m) = (if k \<in> fst ` set m then length m else Suc (length m))"
  by (induction m) auto

end
