(* ===== verification/Cache_Redis.thy ===== *)
theory Cache_Redis
  imports Suggestion_Cache Redis
begin

text \<open>
  \<^verbatim>\<open>packages/cache/src/suggestions/redis.ts\<close>: the script that admits and writes an index
  (\<^verbatim>\<open>CACHE_SET_V1_LUA\<close>), and the adapters that read and write the cache.

  Results: the keys of the cache are bounded whatever is written, and what a reader gets after a write
  is the index that was written.
\<close>

section \<open>The suggestion cache\<close>

definition SUGGESTION_CACHE_TTL_SECONDS :: int where "SUGGESTION_CACHE_TTL_SECONDS = 172800"
definition CACHE_MAXIMUM_KEYS :: nat where "CACHE_MAXIMUM_KEYS = 16"
definition CACHE_REGISTRY_KEY :: string where "CACHE_REGISTRY_KEY = ''loremaster:v1:revision:admission''"

definition cache_set_script :: "int \<Rightarrow> string \<Rightarrow> string \<Rightarrow> string \<Rightarrow> redis_db \<Rightarrow> int \<times> redis_db" where
  "cache_set_script now key registry value db =
    (let db1 = zremrangebyscore now registry db;
         known = map_of (zmembers now registry db1) key
     in if known = None \<and> CACHE_MAXIMUM_KEYS - 1 \<le> length (zmembers now registry db1) then (0, db1)
        else let ttl = SUGGESTION_CACHE_TTL_SECONDS * 1000;
                 db2 = zadd_pexpire now registry (now + ttl) key ttl db1
             in (1, db2\<lparr>r_texts := (r_texts db2)(key := Some (value, now + ttl))\<rparr>))"

datatype redis_reason = R_timeout | R_unavailable | R_cancelled | R_acl_denied | R_capacity

datatype cache_event = E_miss | E_corrupt | E_failure redis_reason

text \<open>What the connection brings back: a rejected command, or the reply.\<close>

type_synonym 'a reply = "redis_reason + 'a"

definition cache_reader_get ::
  "string \<Rightarrow> (string \<Rightarrow> string option reply) \<Rightarrow> cache_error + suggestion_index option \<times> cache_event list" where
  "cache_reader_get revisionId get =
    bindE (suggestionCacheKey revisionId) (\<lambda>key.
      (case get key of
         Inl reason \<Rightarrow> Inr (None, [E_failure reason])
       | Inr None \<Rightarrow> Inr (None, [E_miss])
       | Inr (Some raw) \<Rightarrow>
           (case parseSuggestionIndex (String raw) of
              Inl _ \<Rightarrow> Inr (None, [E_corrupt])
            | Inr index \<Rightarrow>
                if si_revisionId index \<noteq> revisionId then Inr (None, [E_corrupt])
                else Inr (Some index, []))))"

datatype write_error = WriteInvalid | WriteFailed redis_reason

text \<open>\<open>run\<close> is the connection: a failure reason, or the store and the reply of the script.\<close>

definition cache_writer_set :: "int \<Rightarrow> redis_reason option \<Rightarrow> js_value \<Rightarrow> redis_db \<Rightarrow> (write_error + unit) \<times> redis_db" where
  "cache_writer_set now failure index db =
    (case (case js_field index ''revisionId'' of String r \<Rightarrow> suggestionCacheKey r | _ \<Rightarrow> Inl InvalidSuggestionIndex) of
       Inl _ \<Rightarrow> (Inl WriteInvalid, db)
     | Inr key \<Rightarrow>
       (case serializeSuggestionIndex index of
          Inl _ \<Rightarrow> (Inl WriteInvalid, db)
        | Inr value \<Rightarrow>
          (case failure of
             Some reason \<Rightarrow> (Inl (WriteFailed reason), db)
           | None \<Rightarrow>
             (case cache_set_script now key CACHE_REGISTRY_KEY value db of (result, db') \<Rightarrow>
                if result = 0 then (Inl (WriteFailed R_capacity), db')
                else if result \<noteq> 1 then (Inl (WriteFailed R_unavailable), db') else (Inr (), db')))))"

section \<open>The number of keys\<close>

definition cache_step :: "redis_db \<Rightarrow> int \<Rightarrow> string \<times> string \<Rightarrow> redis_db" where
  "cache_step db now c = snd (cache_set_script now (fst c) CACHE_REGISTRY_KEY (snd c) db)"

definition cached_keys :: "int \<Rightarrow> redis_db \<Rightarrow> string set" where
  "cached_keys now db = {k. live now (r_texts db k) \<noteq> None}"

text \<open>Every live key is registered with its expiry, in a registry that outlives its members.\<close>

definition registry_ok :: "int \<Rightarrow> redis_db \<Rightarrow> bool" where
  "registry_ok now db \<longleftrightarrow> (let ms = zmembers now CACHE_REGISTRY_KEY db in
     distinct (map fst ms) \<and> length ms \<le> CACHE_MAXIMUM_KEYS - 1 \<and>
     (\<forall>m \<in> set ms. snd m \<le> set_expiry now CACHE_REGISTRY_KEY db \<and> snd m \<le> now + SUGGESTION_CACHE_TTL_SECONDS * 1000) \<and>
     (\<forall>k v e. r_texts db k = Some (v, e) \<longrightarrow> now < e \<longrightarrow> (k, e) \<in> set ms))"

lemma registry_keys: "registry_ok now db \<Longrightarrow> finite (cached_keys now db) \<and> card (cached_keys now db) \<le> CACHE_MAXIMUM_KEYS - 1"
proof -
  assume ok: "registry_ok now db"
  let ?ms = "zmembers now CACHE_REGISTRY_KEY db"
  have "cached_keys now db \<subseteq> fst ` set ?ms"
    using ok by (force simp: cached_keys_def live_def registry_ok_def Let_def split: option.splits if_splits)
  moreover from this have "card (cached_keys now db) \<le> card (fst ` set ?ms)" by (intro card_mono) simp_all
  moreover have "card (fst ` set ?ms) \<le> length ?ms" by (metis card_length length_map set_map)
  ultimately show ?thesis using ok finite_subset by (fastforce simp: registry_ok_def Let_def)
qed

lemma registry_later: "registry_ok now db \<Longrightarrow> now \<le> now' \<Longrightarrow> registry_ok now' db"
proof (cases "zmembers now' CACHE_REGISTRY_KEY db = []")
  case True
  assume ok: "registry_ok now db" and le: "now \<le> now'"
  have "\<not> now' < e" if "r_texts db k = Some (v, e)" for k v e
  proof
    assume "now' < e"
    then have m: "(k, e) \<in> set (zmembers now CACHE_REGISTRY_KEY db)"
      using ok le that by (auto simp: registry_ok_def Let_def)
    then have "e \<le> set_expiry now CACHE_REGISTRY_KEY db" using ok by (force simp: registry_ok_def Let_def)
    with m show False
      using True \<open>now' < e\<close> le
      by (auto simp: zmembers_def live_def set_expiry_def split: option.splits if_splits)
  qed
  then show ?thesis using True by (auto simp: registry_ok_def Let_def)
next
  case False
  assume ok: "registry_ok now db" and le: "now \<le> now'"
  have "zmembers now' CACHE_REGISTRY_KEY db = zmembers now CACHE_REGISTRY_KEY db"
    using False le by (auto simp: zmembers_def live_def split: option.splits if_splits)
  moreover have "set_expiry now' CACHE_REGISTRY_KEY db = set_expiry now CACHE_REGISTRY_KEY db"
    using False by (auto simp: zmembers_def set_expiry_def live_def split: option.splits)
  ultimately show ?thesis using ok le by (fastforce simp: registry_ok_def Let_def)
qed

lemma zmembers_zrem: "zmembers now k (zremrangebyscore now k db) = filter (\<lambda>m. now < snd m) (zmembers now k db)"
  by (auto simp: zmembers_def zremrangebyscore_def live_def set_expiry_def split: option.splits if_splits)

lemma registry_zrem: "registry_ok now db \<Longrightarrow> registry_ok now (zremrangebyscore now CACHE_REGISTRY_KEY db)"
proof -
  assume ok: "registry_ok now db"
  let ?ms = "zmembers now CACHE_REGISTRY_KEY db" and ?db = "zremrangebyscore now CACHE_REGISTRY_KEY db"
  have "set_expiry now CACHE_REGISTRY_KEY ?db = set_expiry now CACHE_REGISTRY_KEY db" if "m \<in> set ?ms" for m
    using that by (auto simp: zmembers_def zremrangebyscore_def live_def set_expiry_def split: option.splits if_splits)
  then have "\<forall>m \<in> set ?ms. snd m \<le> set_expiry now CACHE_REGISTRY_KEY ?db \<and> snd m \<le> now + SUGGESTION_CACHE_TTL_SECONDS * 1000"
    using ok by (simp add: registry_ok_def Let_def)
  moreover have "r_texts ?db = r_texts db" by (simp add: zremrangebyscore_def)
  moreover have "length (filter (\<lambda>m. now < snd m) ?ms) \<le> CACHE_MAXIMUM_KEYS - 1"
    using ok length_filter_le [of "\<lambda>m. now < snd m" ?ms] by (simp add: registry_ok_def Let_def del: length_filter_le)
  ultimately show ?thesis
    using ok by (auto simp: registry_ok_def Let_def zmembers_zrem distinct_map_filter)
qed

lemma zmembers_zadd: "0 < ttl \<Longrightarrow> zmembers now k (zadd_pexpire now k sc m ttl db) = AList.update m sc (zmembers now k db)"
  by (simp add: zmembers_def [of now k "zadd_pexpire now k sc m ttl db"]) (simp add: zadd_pexpire_def live_def)

lemma set_update_subset: "distinct (map fst m) \<Longrightarrow> set (AList.update k v m) = insert (k, v) {x \<in> set m. fst x \<noteq> k}"
  by (induction m) (auto simp: image_iff)

lemma cache_step_ok: "registry_ok now db \<Longrightarrow> registry_ok now (cache_step db now c)"
proof -
  assume "registry_ok now db"
  then have ok: "registry_ok now (zremrangebyscore now CACHE_REGISTRY_KEY db)" by (rule registry_zrem)
  obtain key val where c: "c = (key, val)" by (cases c)
  let ?db = "zremrangebyscore now CACHE_REGISTRY_KEY db" and ?ttl = "SUGGESTION_CACHE_TTL_SECONDS * 1000"
  let ?ms = "zmembers now CACHE_REGISTRY_KEY ?db"
  show ?thesis
  proof (cases "map_of ?ms key = None \<and> CACHE_MAXIMUM_KEYS - 1 \<le> length ?ms")
    case True
    then show ?thesis using ok by (simp add: cache_step_def c cache_set_script_def Let_def)
  next
    case False
    let ?db' = "(zadd_pexpire now CACHE_REGISTRY_KEY (now + ?ttl) key ?ttl ?db)"
    let ?db'' = "?db'\<lparr>r_texts := (r_texts ?db')(key := Some (val, now + ?ttl))\<rparr>"
    have s: "cache_step db now c = ?db''" using False by (auto simp: cache_step_def c cache_set_script_def Let_def)
    have "0 < ?ttl" by (simp add: SUGGESTION_CACHE_TTL_SECONDS_def)
    from zmembers_zadd [OF this, of now CACHE_REGISTRY_KEY "now + ?ttl" key ?db]
    have ms: "zmembers now CACHE_REGISTRY_KEY ?db'' = AList.update key (now + ?ttl) ?ms" by (simp add: zmembers_def)
    have e: "set_expiry now CACHE_REGISTRY_KEY ?db'' = now + ?ttl" by (simp add: set_expiry_def zadd_pexpire_def)
    have t: "r_texts ?db'' = (r_texts ?db)(key := Some (val, now + ?ttl))" by (simp add: zadd_pexpire_def)
    have d: "distinct (map fst ?ms)" using ok by (simp add: registry_ok_def Let_def)
    have "length (AList.update key (now + ?ttl) ?ms) \<le> CACHE_MAXIMUM_KEYS - 1"
      using False ok by (auto simp: length_update registry_ok_def Let_def map_of_eq_None_iff)
    then show ?thesis
      unfolding s registry_ok_def Let_def ms e t using ok d
      by (auto simp: set_update_subset registry_ok_def Let_def distinct_update SUGGESTION_CACHE_TTL_SECONDS_def)
  qed
qed

interpretation cache: timed_machine cache_step registry_ok
  by unfold_locales (auto intro: registry_later cache_step_ok)

text \<open>Property C30. The cache is bounded: starting from an empty store, whatever texts are written under
  whatever keys, in the order of the clock, at most fifteen of them are live at any time; with the
  registry that is the sixteen keys of the cache's budget.\<close>

theorem cache_stays_within_its_keys:
  assumes "registry_ok t db" "sorted (t # map fst writes @ [now])"
  shows "card (cached_keys now (foldl (\<lambda>db (t, c). cache_step db t c) db writes)) + 1 \<le> CACHE_MAXIMUM_KEYS"
proof -
  have "sorted (t # map fst writes)" "\<forall>u \<in> set (t # map fst writes). u \<le> now"
    using assms(2) sorted_append [of "t # map fst writes" "[now]"] by auto
  moreover from this(2) have "last (t # map fst writes) \<le> now" using last_in_set by blast
  ultimately have "registry_ok now (foldl (\<lambda>db (t, c). cache_step db t c) db writes)"
    using cache.run_good [OF assms(1)] cache.good_later by blast
  then show ?thesis using registry_keys [of now] by (simp add: CACHE_MAXIMUM_KEYS_def)
qed

theorem cache_stays_within_its_keys_witness:
  "card (cached_keys 9 (foldl (\<lambda>db (t, c). cache_step db t c) empty_redis (map (\<lambda>i. (int i, ([char_of i], ''v''))) [0..<9]))) + 1
     \<le> CACHE_MAXIMUM_KEYS"
proof (rule cache_stays_within_its_keys [of 0])
  show "registry_ok 0 empty_redis"
    by (simp add: registry_ok_def empty_redis_def zmembers_def live_def)
  show "sorted (0 # map fst (map (\<lambda>i. (int i, ([char_of i], ''v''))) [0..<9]) @ [9])"
    by (simp add: upt_conv_Cons)
qed

section \<open>Write, then read\<close>

lemma validate_revision:
  "validate_index v = Inr i \<Longrightarrow> js_field v ''revisionId'' = String (si_revisionId i) \<and>
    (\<exists>k. suggestionCacheKey (si_revisionId i) = Inr k)"
  by (auto simp: validate_index_def check_Inr)

lemma script_written:
  "cache_set_script now key registry val db = (1, db') \<Longrightarrow>
    r_texts db' key = Some (val, now + SUGGESTION_CACHE_TTL_SECONDS * 1000)"
  by (auto simp: cache_set_script_def Let_def split: if_splits)

text \<open>What the worker writes, the API reads: after a successful write and until its time to
  live has passed, a read of that revision returns exactly the index the writer checked, and reports no
  event.\<close>

lemma written_index_is_served:
  assumes "cache_writer_set now None index db = (Inr (), db')"
    and "now \<le> now'" "now' < now + SUGGESTION_CACHE_TTL_SECONDS * 1000"
  shows "\<exists>i. validate_index index = Inr i \<and>
    cache_reader_get (si_revisionId i) (\<lambda>k. Inr (live now' (r_texts db' k))) = Inr (Some i, [])"
proof -
  obtain r key val where r: "js_field index ''revisionId'' = String r" "suggestionCacheKey r = Inr key"
    "serializeSuggestionIndex index = Inr val" "cache_set_script now key CACHE_REGISTRY_KEY val db = (1, db')"
    using assms(1) unfolding cache_writer_set_def
    by (auto split: js_value.splits sum.splits option.splits prod.splits if_splits)
  obtain i where i: "validate_index index = Inr i"
    using r(3) by (auto simp: serializeSuggestionIndex_def bindE_eq_Inr)
  have "r = si_revisionId i" using validate_revision [OF i] r(1) by simp
  moreover have "live now' (r_texts db' key) = Some val"
    using script_written [OF r(4)] assms(3) by (simp add: live_def)
  moreover have "parseSuggestionIndex (String val) = Inr i" using serialized_read_back [OF r(3)] i by simp
  ultimately show ?thesis using r(2) i by (simp add: cache_reader_get_def)
qed

lemma written_index_is_served_example:
  "\<exists>db'. cache_writer_set 5 None sample_index empty_redis = (Inr (), db') \<and>
    (\<exists>i. validate_index sample_index = Inr i \<and>
      cache_reader_get (si_revisionId i) (\<lambda>k. Inr (live 1005 (r_texts db' k))) = Inr (Some i, []))"
proof -
  define ok where "ok = (\<lambda>r :: (write_error + unit) \<times> redis_db. case fst r of Inr _ \<Rightarrow> True | Inl _ \<Rightarrow> False)"
  have "ok (cache_writer_set 5 None sample_index empty_redis)" unfolding ok_def by code_simp
  then obtain db' where "cache_writer_set 5 None sample_index empty_redis = (Inr (), db')"
    by (cases "cache_writer_set 5 None sample_index empty_redis") (auto simp: ok_def split: sum.splits)
  then show ?thesis using written_index_is_served [of 5 sample_index empty_redis _ 1005]
    by (auto simp: SUGGESTION_CACHE_TTL_SECONDS_def)
qed

end
