(* ===== verification/Shared_Limiter.thy ===== *)
theory Shared_Limiter
  imports Redis Json_Text Js_Value
begin

text \<open>
  \<^verbatim>\<open>packages/cache/src/limiter/redis.ts\<close> and \<^verbatim>\<open>limiter-contract.ts\<close>: the script that counts a request
  for its address and its guest (\<^verbatim>\<open>LIMITER_V1_LUA\<close>), its keys, and the decision the adapter makes of the
  reply.

  Result: the shared limiter fulfils the contract of a fixed-window limiter.
\<close>

section \<open>The shared limiter\<close>

datatype limit_counter = C_session | C_autocomplete | C_mutation
datatype limit_scope = S_ip | S_guest

fun counter_name :: "limit_counter \<Rightarrow> string" where
  "counter_name C_session = ''session''"
| "counter_name C_autocomplete = ''autocomplete''"
| "counter_name C_mutation = ''mutation''"

fun scope_name :: "limit_scope \<Rightarrow> string" where
  "scope_name S_ip = ''ip''"
| "scope_name S_guest = ''guest''"

definition MAXIMUM_LIMIT_KEYS :: int where "MAXIMUM_LIMIT_KEYS = 20000"

fun shared_limit :: "limit_counter \<Rightarrow> limit_scope \<Rightarrow> int option" where
  "shared_limit C_session S_ip = Some 10"
| "shared_limit C_session S_guest = None"
| "shared_limit C_autocomplete S_ip = Some 300"
| "shared_limit C_autocomplete S_guest = Some 120"
| "shared_limit C_mutation S_ip = Some 120"
| "shared_limit C_mutation S_guest = Some 30"

definition limit_capacity_key :: string where "limit_capacity_key = ''loremaster:v1:limit:capacity''"

definition limit_key :: "string \<Rightarrow> int \<Rightarrow> string \<Rightarrow> string \<Rightarrow> string \<Rightarrow> string" where
  "limit_key version bucket counter scope digest =
    ''loremaster:v1:limit:'' @ version @ '':'' @ json_int bucket @ '':'' @ counter @ '':'' @ scope @ '':'' @ digest"

record limiter_args =
  la_version :: string
  la_counter :: string
  la_ip :: string
  la_guest :: string
  la_ipLimit :: int
  la_guestLimit :: int
  la_maximum :: int

definition ip_key :: "int \<Rightarrow> limiter_args \<Rightarrow> string" where
  "ip_key bucket a = limit_key (la_version a) bucket (la_counter a) ''ip'' (la_ip a)"

definition guest_key :: "int \<Rightarrow> limiter_args \<Rightarrow> string option" where
  "guest_key bucket a = (if la_guest a = [] then None
     else Some (limit_key (la_version a) bucket (la_counter a) ''guest'' (la_guest a)))"

definition count_key :: "int \<Rightarrow> string \<Rightarrow> redis_db \<Rightarrow> redis_db" where
  "count_key now k db = zadd_pexpire now limit_capacity_key (now + 61000) k 61000 (incr_pexpire now k 61000 db)"

definition limiter_script :: "int \<Rightarrow> limiter_args \<Rightarrow> redis_db \<Rightarrow> (int \<times> int) \<times> redis_db" where
  "limiter_script us a db =
    (let second = us div 1000000; bucket = second div 60; now = now_ms us;
         ip = ip_key bucket a; guest = guest_key bucket a;
         reset = 60 - second mod 60;
         currentIp = get_counter now ip db;
         currentGuest = (case guest of None \<Rightarrow> 0 | Some g \<Rightarrow> get_counter now g db)
     in if la_ipLimit a \<le> currentIp \<or> guest \<noteq> None \<and> la_guestLimit a \<le> currentGuest then ((0, reset), db)
        else let needed = (if currentIp = 0 then 1 else 0) + (if guest \<noteq> None \<and> currentGuest = 0 then 1 else 0);
                 db1 = zremrangebyscore now limit_capacity_key db;
                 allocated = int (length (zmembers now limit_capacity_key db1))
             in if la_maximum a < allocated + needed then ((0, reset), db1)
                else let db2 = count_key now ip db1
                     in ((1, 0), case guest of None \<Rightarrow> db2 | Some g \<Rightarrow> count_key now g db2))"

text \<open>The key the contract names, for untyped arguments: \<open>None\<close> where it throws.\<close>

definition alphanumeric_char :: "char \<Rightarrow> bool" where
  "alphanumeric_char c \<longleftrightarrow> (let n = (of_char c :: nat) in
     48 \<le> n \<and> n \<le> 57 \<or> 65 \<le> n \<and> n \<le> 90 \<or> 97 \<le> n \<and> n \<le> 122)"

definition limit_version_form :: "string \<Rightarrow> bool" where
  "limit_version_form s \<longleftrightarrow> (case s of [] \<Rightarrow> False
     | c # cs \<Rightarrow> alphanumeric_char c \<and> length cs \<le> 15 \<and>
         list_all (\<lambda>d. alphanumeric_char d \<or> d = CHR ''_'' \<or> d = CHR ''-'') cs)"

definition digest_form :: "string \<Rightarrow> bool" where
  "digest_form s \<longleftrightarrow> length s = 64 \<and> list_all (\<lambda>c. c \<in> set ''0123456789abcdef'') s"

definition sharedLimitKey :: "string \<Rightarrow> string \<Rightarrow> string \<Rightarrow> string \<Rightarrow> js_number \<Rightarrow> string option" where
  "sharedLimitKey keyVersion counter scope digest bucket =
    (if \<not> limit_version_form keyVersion \<or>
        counter \<notin> {''session'', ''autocomplete'', ''mutation''} \<or> scope \<notin> {''ip'', ''guest''} \<or>
        counter = ''session'' \<and> scope = ''guest'' \<or> \<not> digest_form digest \<or>
        \<not> is_safe_integer bucket \<or> js_floor bucket < 0
     then None else Some (limit_key keyVersion (js_floor bucket) counter scope digest))"

section \<open>The decision\<close>

datatype limit_decision = Allowed | Degraded | Denied int

text \<open>\<open>parseSharedLimitDecision\<close>; the properties of an object from \<^verbatim>\<open>JSON.parse\<close> are data properties.\<close>

definition parseSharedLimitDecision :: "js_value \<Rightarrow> limit_decision option" where
  "parseSharedLimitDecision v = (case v of
     Object fs \<Rightarrow>
       if length fs \<noteq> 2 \<or> ''state'' \<notin> fst ` set fs \<or> ''retryAfterSeconds'' \<notin> fst ` set fs then None
       else (let st = js_field v ''state''; retry = as_integer (js_field v ''retryAfterSeconds'') in
         case retry of None \<Rightarrow> None
         | Some n \<Rightarrow>
             if st = String ''denied'' \<and> 1 \<le> n \<and> n \<le> 60 then Some (Denied n)
             else if st = String ''allowed'' \<and> n = 0 then Some Allowed
             else if st = String ''degraded'' \<and> n = 0 then Some Degraded else None)
   | _ \<Rightarrow> None)"

fun decision_value :: "limit_decision \<Rightarrow> js_value" where
  "decision_value Allowed = Object [(''state'', String ''allowed''), (''retryAfterSeconds'', JInt 0)]"
| "decision_value Degraded = Object [(''state'', String ''degraded''), (''retryAfterSeconds'', JInt 0)]"
| "decision_value (Denied n) = Object [(''state'', String ''denied''), (''retryAfterSeconds'', JInt n)]"

record limit_request =
  lr_counter :: limit_counter
  lr_ip :: string
  lr_guest :: "string option"

definition valid_limit_request :: "limit_request \<Rightarrow> bool" where
  "valid_limit_request r \<longleftrightarrow> digest_form (lr_ip r) \<and>
    (if lr_counter r = C_session then lr_guest r = None
     else (case lr_guest r of None \<Rightarrow> False | Some g \<Rightarrow> g \<noteq> [] \<and> digest_form g))"

definition limiter_args_of :: "string \<Rightarrow> limit_request \<Rightarrow> limiter_args" where
  "limiter_args_of version r =
    \<lparr>la_version = version, la_counter = counter_name (lr_counter r), la_ip = lr_ip r,
     la_guest = (case lr_guest r of None \<Rightarrow> [] | Some g \<Rightarrow> g),
     la_ipLimit = the (shared_limit (lr_counter r) S_ip),
     la_guestLimit = (case shared_limit (lr_counter r) S_guest of None \<Rightarrow> 0 | Some n \<Rightarrow> n),
     la_maximum = MAXIMUM_LIMIT_KEYS - 2\<rparr>"

text \<open>What the adapter makes of whatever the connection returned.\<close>

definition decision_of_reply :: "js_value \<Rightarrow> limit_decision" where
  "decision_of_reply reply = (case reply of
     Array [a, b] \<Rightarrow>
       (case as_integer b of None \<Rightarrow> Degraded
        | Some n \<Rightarrow> if a = JInt 0 then Denied (max 1 (min 60 n)) else if a = JInt 1 then Allowed else Degraded)
   | _ \<Rightarrow> Degraded)"

definition reply_value :: "int \<times> int \<Rightarrow> js_value" where
  "reply_value r = Array [JInt (fst r), JInt (snd r)]"

text \<open>\<open>reachable\<close> tells whether the connection carried the command out; \<open>None\<close> is the thrown error.\<close>

definition redis_consume :: "string \<Rightarrow> int \<Rightarrow> bool \<Rightarrow> limit_request \<Rightarrow> redis_db \<Rightarrow> limit_decision option \<times> redis_db" where
  "redis_consume version us reachable r db =
    (if \<not> valid_limit_request r then (None, db)
     else if \<not> reachable then (Some Degraded, db)
     else (case limiter_script us (limiter_args_of version r) db of (reply, db') \<Rightarrow>
       (Some (decision_of_reply (reply_value reply)), db')))"

section \<open>The script counts\<close>

lemma count_key_counters: "r_counters (count_key now k db) = (r_counters db)(k := Some (get_counter now k db + 1, now + 61000))"
  by (simp add: count_key_def zadd_pexpire_def incr_pexpire_def)

lemma get_counter_count_key: "get_counter now k' (count_key now k db) =
    (if k' = k then get_counter now k db + 1 else get_counter now k' db)"
  by (simp add: get_counter_def [of _ k'] count_key_counters live_def)

lemma zrem_counters [simp]: "r_counters (zremrangebyscore now k db) = r_counters db"
  by (simp add: zremrangebyscore_def)

lemma zrem_get [simp]: "get_counter now k' (zremrangebyscore now' k db) = get_counter now k' db"
  by (simp add: get_counter_def)

definition bucket_of :: "int \<Rightarrow> int" where
  "bucket_of us = us div 1000000 div 60"

lemma ms_part: "0 \<le> (us mod 1000000 :: int) div 1000 \<and> (us mod 1000000) div 1000 < 1000"
proof -
  have "0 \<le> us mod 1000000" "us mod 1000000 < 1000000" by simp_all
  then show ?thesis by linarith
qed

lemma bucket_time: "bucket_of us * 60000 \<le> now_ms us \<and> now_ms us < bucket_of us * 60000 + 60000"
proof -
  have "us div 1000000 = bucket_of us * 60 + us div 1000000 mod 60"
    "0 \<le> us div 1000000 mod 60" "us div 1000000 mod 60 < 60"
    by (simp_all add: bucket_of_def)
  then show ?thesis using ms_part [of us] unfolding now_ms_def by linarith
qed

lemma now_ms_mono: "us \<le> us' \<Longrightarrow> now_ms us \<le> now_ms us'"
proof -
  assume le: "us \<le> us'"
  then consider "us div 1000000 = us' div 1000000" | "us div 1000000 < us' div 1000000"
    using zdiv_mono1 [OF le, of 1000000] by linarith
  then show ?thesis
  proof cases
    case 1
    then have "us mod 1000000 \<le> us' mod 1000000" using le minus_div_mult_eq_mod [of us 1000000] minus_div_mult_eq_mod [of us' 1000000] by linarith
    then have "us mod 1000000 div 1000 \<le> us' mod 1000000 div 1000" by (intro zdiv_mono1) simp_all
    then show ?thesis using 1 by (simp add: now_ms_def)
  next
    case 2
    then show ?thesis using ms_part [of us] ms_part [of us'] by (simp add: now_ms_def)
  qed
qed

text \<open>A key names its bucket.\<close>

lemma limit_key_bucket:
  assumes "0 \<le> b" "0 \<le> b'" "limit_key v b c s d = limit_key v b' c' s' d'"
  shows "b = b'"
proof -
  have "json_int b @ (CHR '':'' # c @ CHR '':'' # s @ CHR '':'' # d) =
      json_int b' @ (CHR '':'' # c' @ CHR '':'' # s' @ CHR '':'' # d')"
    using assms(3) by (simp add: limit_key_def)
  from json_int_prefix [OF assms(1,2) _ _ this] show ?thesis by (simp add: stops_def is_digit_def)
qed

lemma either: "(if q then x else y) = x \<or> (if q then x else y) = y"
  by simp

lemma script_cases:
  obtains (denied) reset db' where "limiter_script us a db = ((0, reset), db')" "1 \<le> reset" "reset \<le> 60"
      "r_counters db' = r_counters db"
    | (granted) db1 where
      "limiter_script us a db = ((1, 0), case guest_key (bucket_of us) a of
          None \<Rightarrow> count_key (now_ms us) (ip_key (bucket_of us) a) db1
        | Some g \<Rightarrow> count_key (now_ms us) g (count_key (now_ms us) (ip_key (bucket_of us) a) db1))"
      "r_counters db1 = r_counters db"
      "get_counter (now_ms us) (ip_key (bucket_of us) a) db < la_ipLimit a"
      "\<And>g. guest_key (bucket_of us) a = Some g \<Longrightarrow> get_counter (now_ms us) g db < la_guestLimit a"
proof -
  have reset: "1 \<le> 60 - us div 1000000 mod 60" "60 - us div 1000000 mod 60 \<le> 60"
    using pos_mod_bound [of 60 "us div 1000000"] pos_mod_sign [of 60 "us div 1000000"] by linarith+
  define blocked where "blocked \<longleftrightarrow> la_ipLimit a \<le> get_counter (now_ms us) (ip_key (bucket_of us) a) db \<or>
      guest_key (bucket_of us) a \<noteq> None \<and> la_guestLimit a \<le>
        (case guest_key (bucket_of us) a of None \<Rightarrow> 0 | Some g \<Rightarrow> get_counter (now_ms us) g db)"
  note script = limiter_script_def [of us a db, unfolded Let_def, folded bucket_of_def, folded blocked_def]
  show thesis
  proof (cases blocked)
    case True
    then show thesis using reset by (intro denied [OF _ reset refl]) (simp add: script)
  next
    case False
    then have below: "get_counter (now_ms us) (ip_key (bucket_of us) a) db < la_ipLimit a"
      "\<And>g. guest_key (bucket_of us) a = Some g \<Longrightarrow> get_counter (now_ms us) g db < la_guestLimit a"
      by (auto simp: blocked_def)
    let ?db1 = "zremrangebyscore (now_ms us) limit_capacity_key db"
    define full where "full \<longleftrightarrow> la_maximum a < int (length (zmembers (now_ms us) limit_capacity_key ?db1)) +
      ((if get_counter (now_ms us) (ip_key (bucket_of us) a) db = 0 then 1 else 0) +
       (if guest_key (bucket_of us) a \<noteq> None \<and>
           (case guest_key (bucket_of us) a of None \<Rightarrow> 0 | Some g \<Rightarrow> get_counter (now_ms us) g db) = 0 then 1 else 0))"
    note open_script = script [unfolded if_not_P [OF False], folded full_def]
    show thesis
    proof (cases full)
      case True
      then show thesis using reset by (intro denied [of "60 - us div 1000000 mod 60" ?db1]) (simp_all add: open_script)
    next
      case f: False
      show thesis by (rule granted [of ?db1]) (use below f in \<open>simp_all add: open_script\<close>)
    qed
  qed
qed

type_synonym limit_name = "limit_counter \<times> limit_scope \<times> string"

fun names :: "bool \<times> limit_request \<Rightarrow> limit_name \<Rightarrow> bool" where
  "names (reachable, r) (c, s, d) \<longleftrightarrow> lr_counter r = c \<and>
    (case s of S_ip \<Rightarrow> lr_ip r = d | S_guest \<Rightarrow> lr_guest r = Some d)"

fun limit_of :: "limit_name \<Rightarrow> int" where
  "limit_of (c, s, d) = (case shared_limit c s of None \<Rightarrow> 0 | Some n \<Rightarrow> n)"

fun used_key :: "string \<Rightarrow> limit_name \<Rightarrow> int \<Rightarrow> string" where
  "used_key version (c, s, d) us = limit_key version (bucket_of us) (counter_name c) (scope_name s) d"

definition redis_used :: "string \<Rightarrow> limit_name \<Rightarrow> int \<Rightarrow> redis_db \<Rightarrow> int" where
  "redis_used version i us db = get_counter (now_ms us) (used_key version i us) db"

definition redis_step :: "string \<Rightarrow> redis_db \<Rightarrow> int \<Rightarrow> bool \<times> limit_request \<Rightarrow> redis_db" where
  "redis_step version db us c = snd (redis_consume version us (fst c) (snd c) db)"

definition redis_granted :: "string \<Rightarrow> redis_db \<Rightarrow> int \<Rightarrow> bool \<times> limit_request \<Rightarrow> bool" where
  "redis_granted version db us c \<longleftrightarrow> fst (redis_consume version us (fst c) (snd c) db) = Some Allowed"

text \<open>A counter lives past the end of the bucket its key names.\<close>

definition counters_ok :: "string \<Rightarrow> int \<Rightarrow> redis_db \<Rightarrow> bool" where
  "counters_ok version us db \<longleftrightarrow> 0 \<le> us \<and>
    (\<forall>b c s d v e. 0 \<le> b \<longrightarrow> r_counters db (limit_key version b c s d) = Some (v, e) \<longrightarrow> 0 \<le> v \<and> b * 60000 + 61000 \<le> e)"

lemma counters_ok_get: "counters_ok version us db \<Longrightarrow> 0 \<le> b \<Longrightarrow> 0 \<le> get_counter now (limit_key version b c s d) db"
  by (auto simp: counters_ok_def get_counter_def live_def split: option.split)

lemma bucket_nonneg: "0 \<le> us \<Longrightarrow> 0 \<le> bucket_of us"
  by (simp add: bucket_of_def pos_imp_zdiv_nonneg_iff)

lemma count_key_ok:
  assumes "counters_ok version us db" "k = limit_key version (bucket_of us) c s d"
  shows "counters_ok version us (count_key (now_ms us) k db)"
proof -
  have us: "0 \<le> us" "0 \<le> bucket_of us" using assms(1) bucket_nonneg by (auto simp: counters_ok_def)
  have "0 \<le> v \<and> b * 60000 + 61000 \<le> e"
    if b: "0 \<le> b" and k: "r_counters (count_key (now_ms us) k db) (limit_key version b c' s' d') = Some (v, e)" for b c' s' d' v e
  proof (cases "limit_key version b c' s' d' = k")
    case True
    then have "b = bucket_of us" using limit_key_bucket [OF b us(2)] assms(2) by simp
    moreover have "v = get_counter (now_ms us) k db + 1" "e = now_ms us + 61000"
      using k True by (simp_all add: count_key_counters)
    moreover have "0 \<le> get_counter (now_ms us) k db" using counters_ok_get [OF assms(1) us(2)] assms(2) by simp
    ultimately show ?thesis using bucket_time [of us] by simp
  next
    case False
    then show ?thesis using k b assms(1) by (auto simp: count_key_counters counters_ok_def)
  qed
  then show ?thesis using us by (simp add: counters_ok_def)
qed

text \<open>What one consumption does to the counters.\<close>

lemma consume_cases:
  obtains (kept) "r_counters (redis_step version db us c) = r_counters db" "\<not> redis_granted version db us c"
    | (counted) db1 r where "c = (True, r)" "valid_limit_request r" "redis_granted version db us c" "r_counters db1 = r_counters db"
      "get_counter (now_ms us) (ip_key (bucket_of us) (limiter_args_of version r)) db < la_ipLimit (limiter_args_of version r)"
      "\<And>g. guest_key (bucket_of us) (limiter_args_of version r) = Some g \<Longrightarrow>
        get_counter (now_ms us) g db < la_guestLimit (limiter_args_of version r)"
      "redis_step version db us c = (case guest_key (bucket_of us) (limiter_args_of version r) of
          None \<Rightarrow> count_key (now_ms us) (ip_key (bucket_of us) (limiter_args_of version r)) db1
        | Some g \<Rightarrow> count_key (now_ms us) g (count_key (now_ms us) (ip_key (bucket_of us) (limiter_args_of version r)) db1))"
proof -
  obtain reachable r where c: "c = (reachable, r)" by (cases c)
  show thesis
  proof (cases "reachable \<and> valid_limit_request r")
    case False
    then show thesis by (intro kept) (auto simp: c redis_step_def redis_granted_def redis_consume_def)
  next
    case True
    show thesis
    proof (cases rule: script_cases [of us "limiter_args_of version r" db])
      case (denied reset db')
      show thesis
        by (rule kept) (use True denied in \<open>simp_all add: c redis_step_def redis_granted_def redis_consume_def
            reply_value_def decision_of_reply_def\<close>)
    next
      case (granted db1)
      show thesis
        by (rule counted [of r db1]) (use True granted in \<open>simp_all add: c redis_step_def redis_granted_def redis_consume_def
            reply_value_def decision_of_reply_def\<close>)
    qed
  qed
qed

lemma names_key:
  assumes "names (True, r) i" "valid_limit_request r"
  shows "used_key version i us = ip_key (bucket_of us) (limiter_args_of version r) \<and>
      limit_of i = la_ipLimit (limiter_args_of version r) \<or>
    guest_key (bucket_of us) (limiter_args_of version r) = Some (used_key version i us) \<and>
      limit_of i = la_guestLimit (limiter_args_of version r)"
proof -
  obtain c s d where i: "i = (c, s, d)" by (cases i)
  show ?thesis
  proof (cases s)
    case S_ip
    then show ?thesis using assms i by (cases c) (auto simp: ip_key_def limiter_args_of_def)
  next
    case S_guest
    then show ?thesis using assms i
      by (cases c) (auto simp: guest_key_def limiter_args_of_def valid_limit_request_def)
  qed
qed

lemma get_counter_cong: "r_counters db = r_counters db' \<Longrightarrow> get_counter now k db = get_counter now k db'"
  by (simp add: get_counter_def)

lemma keys_are_limit_keys:
  "ip_key b (limiter_args_of version r) = limit_key version b (counter_name (lr_counter r)) ''ip'' (lr_ip r)"
  "guest_key b (limiter_args_of version r) = Some g \<Longrightarrow>
    \<exists>d. g = limit_key version b (counter_name (lr_counter r)) ''guest'' d"
  by (auto simp: ip_key_def guest_key_def limiter_args_of_def split: if_splits)

lemma counters_ok_cong: "r_counters db = r_counters db' \<Longrightarrow> counters_ok version us db = counters_ok version us db'"
  by (simp add: counters_ok_def)

lemma redis_step_ok: "counters_ok version us db \<Longrightarrow> counters_ok version us (redis_step version db us c)"
proof (cases rule: consume_cases [of version db us c])
  case kept
  assume "counters_ok version us db"
  then show ?thesis using counters_ok_cong [OF kept(1)] by simp
next
  case (counted db1 r)
  assume "counters_ok version us db"
  then have "counters_ok version us db1" using counters_ok_cong [OF counted(4)] by simp
  then have ip: "counters_ok version us (count_key (now_ms us) (ip_key (bucket_of us) (limiter_args_of version r)) db1)"
    using count_key_ok keys_are_limit_keys(1) by blast
  show ?thesis
  proof (cases "guest_key (bucket_of us) (limiter_args_of version r)")
    case None
    then show ?thesis unfolding counted(7) using ip by simp
  next
    case (Some g)
    then obtain d where "g = limit_key version (bucket_of us) (counter_name (lr_counter r)) ''guest'' d"
      using keys_are_limit_keys(2) by blast
    then show ?thesis unfolding counted(7) using count_key_ok [OF ip] Some by simp
  qed
qed

lemma redis_step_used:
  assumes "counters_ok version us db"
  shows "get_counter (now_ms us) k db \<le> get_counter (now_ms us) k (redis_step version db us c)"
    and "redis_granted version db us c \<Longrightarrow> names c i \<Longrightarrow>
      redis_used version i us db < limit_of i \<and>
      redis_used version i us db + 1 \<le> redis_used version i us (redis_step version db us c)"
proof -
  show "get_counter (now_ms us) k db \<le> get_counter (now_ms us) k (redis_step version db us c)"
  proof (cases rule: consume_cases [of version db us c])
    case kept
    then show ?thesis by (simp add: get_counter_def)
  next
    case (counted db1 r)
    then show ?thesis
      using get_counter_cong [OF counted(4)] by (auto simp: get_counter_count_key split: option.split)
  qed
  assume g: "redis_granted version db us c" and n: "names c i"
  show "redis_used version i us db < limit_of i \<and>
      redis_used version i us db + 1 \<le> redis_used version i us (redis_step version db us c)"
  proof (cases rule: consume_cases [of version db us c])
    case kept
    then show ?thesis using g by simp
  next
    case (counted db1 r)
    have "names (True, r) i" using n counted(1) by simp
    note key = names_key [OF this counted(2), of version us]
    have same: "get_counter (now_ms us) k db1 = get_counter (now_ms us) k db" for k
      using get_counter_cong [OF counted(4)] .
    let ?ip = "ip_key (bucket_of us) (limiter_args_of version r)"
    show ?thesis
    proof (cases "guest_key (bucket_of us) (limiter_args_of version r)")
      case None
      then show ?thesis
        using key counted(5) unfolding redis_used_def counted(7) by (simp add: get_counter_count_key same)
    next
      case (Some g)
      then have "get_counter (now_ms us) g db < la_guestLimit (limiter_args_of version r)" using counted(6) by simp
      moreover have "redis_step version db us c = count_key (now_ms us) g (count_key (now_ms us) ?ip db1)"
        using counted(7) Some by simp
      moreover have "used_key version i us = ?ip \<and> limit_of i = la_ipLimit (limiter_args_of version r) \<or>
          used_key version i us = g \<and> limit_of i = la_guestLimit (limiter_args_of version r)"
        using key Some by auto
      ultimately show ?thesis
        using counted(5) unfolding redis_used_def by (elim disjE conjE) (simp_all add: get_counter_count_key same)
    qed
  qed
qed

interpretation shared: window_limiter "redis_step version" "counters_ok version" "redis_granted version" names
  "redis_used version" limit_of bucket_of for version
proof
  show "counters_ok version t' s" if "counters_ok version t s" "t \<le> t'" for t t' s
    using that by (simp add: counters_ok_def)
  show "counters_ok version t (redis_step version s t c)" if "counters_ok version t s" for t s c
    using redis_step_ok [OF that] .
  show "bucket_of t \<le> bucket_of t'" if "t \<le> t'" for t t'
    using that by (simp add: bucket_of_def zdiv_mono1)
  show "redis_used version i t s < limit_of i" if "counters_ok version t s" "redis_granted version s t c" "names c i" for t s c i
    using redis_step_used(2) [OF that] by simp
  show "redis_used version i t s + 1 \<le> redis_used version i t (redis_step version s t c)"
    if "counters_ok version t s" "redis_granted version s t c" "names c i" for t s c i
    using redis_step_used(2) [OF that] by simp
  show "redis_used version i t s \<le> redis_used version i t (redis_step version s t c)" if "counters_ok version t s" for t s c i
    using redis_step_used(1) [OF that] by (simp add: redis_used_def)
  show "0 \<le> redis_used version i t s" if "counters_ok version t s" for t s i
    using counters_ok_get [OF that] bucket_nonneg that by (cases i) (simp add: redis_used_def counters_ok_def)
  show "redis_used version i t s \<le> redis_used version i t' s"
    if ok: "counters_ok version t s" and le: "t \<le> t'" and b: "bucket_of t = bucket_of t'" for t t' s i
  proof -
    obtain c sc d where i: "i = (c, sc, d)" by (cases i)
    let ?k = "limit_key version (bucket_of t) (counter_name c) (scope_name sc) d"
    have t0: "0 \<le> bucket_of t" using ok bucket_nonneg by (simp add: counters_ok_def)
    have k: "used_key version i t = ?k" "used_key version i t' = ?k" using b by (simp_all add: i)
    have "now_ms t' < e" if "r_counters s ?k = Some (v, e)" for v e
      using ok t0 that bucket_time [of t'] b by (fastforce simp: counters_ok_def)
    moreover have "0 \<le> get_counter (now_ms t') ?k s" using counters_ok_get [OF ok t0] .
    ultimately show ?thesis
      unfolding redis_used_def k by (auto simp: get_counter_def live_def split: option.splits)
  qed
qed

section \<open>Results\<close>

text \<open>Property C28. The shared limiter keeps its limits: whatever requests arrive, in the order of the clock
  and with any of them failing on the way, the number of requests it allows to one address or one guest
  for one kind of operation within one minute is at most the limit of the policy.\<close>

theorem shared_limiter_keeps_the_limit:
  assumes "counters_ok version t db" "sorted (t # map fst cs)"
  shows "granted_count (redis_step version) (redis_granted version) (\<lambda>c. names c i) (\<lambda>t. bucket_of t = b) db cs \<le> limit_of i"
proof -
  have "0 \<le> limit_of i" by (cases i; cases "fst i"; cases "fst (snd i)") auto
  then show ?thesis using assms by (rule shared.window_bound [rotated 2])
qed

definition sample_digest :: string where
  "sample_digest = replicate 64 (CHR ''a'')"

definition sample_request :: limit_request where
  "sample_request = \<lparr>lr_counter = C_session, lr_ip = sample_digest, lr_guest = None\<rparr>"

theorem shared_limiter_keeps_the_limit_witness:
  "granted_count (redis_step ''v1'') (redis_granted ''v1'') (\<lambda>c. names c (C_session, S_ip, sample_digest)) (\<lambda>t. bucket_of t = 0)
     empty_redis (replicate 12 (5, (True, sample_request))) \<le> limit_of (C_session, S_ip, sample_digest)"
  by (rule shared_limiter_keeps_the_limit [of _ 0]) (simp_all add: counters_ok_def empty_redis_def eval_nat_numeral)

text \<open>The limiter honours its contract: an answer always passes the check the callers make of
  a decision, so a denial names between 1 and 60 seconds, an unreachable store degrades instead of
  denying, and a request with malformed digests is rejected without touching the store.\<close>

lemma shared_decisions_pass_the_contract:
  "(case redis_consume version us reachable r db of (d, db') \<Rightarrow>
     (case d of
        None \<Rightarrow> \<not> valid_limit_request r \<and> db' = db
      | Some d \<Rightarrow> valid_limit_request r \<and> parseSharedLimitDecision (decision_value d) = Some d \<and>
          (reachable \<or> d = Degraded \<and> db' = db)))"
proof -
  have ok: "parseSharedLimitDecision (decision_value (decision_of_reply v)) = Some (decision_of_reply v)" for v
  proof (cases "decision_of_reply v")
    case (Denied n)
    then have "1 \<le> n \<and> n \<le> 60"
      by (auto simp: decision_of_reply_def split: js_value.splits list.splits option.splits if_splits)
    then show ?thesis using Denied by (simp add: parseSharedLimitDecision_def Let_def)
  qed (simp_all add: parseSharedLimitDecision_def Let_def)
  moreover have "parseSharedLimitDecision (decision_value Degraded) = Some Degraded"
    by (simp add: parseSharedLimitDecision_def Let_def)
  ultimately show ?thesis by (auto simp: redis_consume_def simp del: decision_value.simps split: prod.split)
qed

text \<open>The keys the script counts under are the keys of the contract: for a well-formed version
  and request, \<open>sharedLimitKey\<close> accepts the address and the guest of the request and names the same
  keys.\<close>

lemma script_uses_the_contract_keys:
  assumes "limit_version_form version" "valid_limit_request r" "0 \<le> us" "us \<le> MAX_SAFE_INTEGER"
  shows "sharedLimitKey version (counter_name (lr_counter r)) ''ip'' (lr_ip r) (int_number (bucket_of us)) =
      Some (ip_key (bucket_of us) (limiter_args_of version r)) \<and>
    Option.bind (lr_guest r) (\<lambda>g. sharedLimitKey version (counter_name (lr_counter r)) ''guest'' g (int_number (bucket_of us))) =
      guest_key (bucket_of us) (limiter_args_of version r)"
proof -
  have b: "0 \<le> bucket_of us" using bucket_nonneg assms(3) .
  moreover have "bucket_of us \<le> us"
  proof -
    have "us div 1000000 \<le> us" "us div 1000000 div 60 \<le> us div 1000000"
      using assms(3) pos_imp_zdiv_nonneg_iff [of 1000000 us] by linarith+
    then show ?thesis by (simp add: bucket_of_def)
  qed
  ultimately have s: "is_safe_int (bucket_of us)" using assms(4) by (simp add: is_safe_int_def MAX_SAFE_INTEGER_def)
  show ?thesis
    using assms(1,2) b s
    by (cases "lr_counter r"; cases "lr_guest r")
      (auto simp: sharedLimitKey_def valid_limit_request_def ip_key_def guest_key_def limiter_args_of_def)
qed

theorem script_uses_the_contract_keys_witness:
  "sharedLimitKey ''v1'' ''session'' ''ip'' sample_digest (int_number (bucket_of 1000000000)) =
    Some (ip_key (bucket_of 1000000000) (limiter_args_of ''v1'' sample_request))"
proof -
  have "limit_version_form ''v1''" "valid_limit_request sample_request" by code_simp+
  then show ?thesis
    using script_uses_the_contract_keys [of "''v1''" sample_request 1000000000]
    by (simp add: MAX_SAFE_INTEGER_def) (simp add: sample_request_def)
qed

end
