(* ===== verification/Http.thy ===== *)
theory Http
  imports Prelude Calendar "HOL-Library.AList"
begin

text \<open>
  What the HTTP kernel of \<^verbatim>\<open>apps/api\<close> shares: the public errors (\<^verbatim>\<open>http/errors.ts\<close> and the status table
  of \<^verbatim>\<open>packages/contracts/src/schemas.ts\<close>), the operations and who may call them
  (\<^verbatim>\<open>packages/contracts/src/api.ts\<close>), requests with their raw headers, and the text helpers of the
  language the controls use.

  A request has the header fields in the order they arrived; \<^verbatim>\<open>request.headers\<close> joins repeated fields as
  Node does, with a comma, a cookie with a semicolon, and keeps the first of the fields it does not
  join.
\<close>

section \<open>Errors\<close>

datatype api_error = INVALID_REQUEST | INVALID_GUESS | AUTHENTICATION_REQUIRED | REQUEST_FORBIDDEN
  | RESOURCE_NOT_FOUND | NO_CURRENT_CASE | IDEMPOTENCY_CONFLICT | STALE_VERSION | EVIDENCE_LIMIT
  | TERMINAL_ATTEMPT | BODY_TOO_LARGE | UNSUPPORTED_MEDIA_TYPE | RATE_LIMITED | INTERNAL_ERROR
  | SERVICE_UNAVAILABLE | REQUEST_TIMEOUT

fun API_ERROR_STATUS :: "api_error \<Rightarrow> int" where
  "API_ERROR_STATUS INVALID_REQUEST = 400"
| "API_ERROR_STATUS INVALID_GUESS = 400"
| "API_ERROR_STATUS AUTHENTICATION_REQUIRED = 401"
| "API_ERROR_STATUS REQUEST_FORBIDDEN = 403"
| "API_ERROR_STATUS RESOURCE_NOT_FOUND = 404"
| "API_ERROR_STATUS NO_CURRENT_CASE = 409"
| "API_ERROR_STATUS IDEMPOTENCY_CONFLICT = 409"
| "API_ERROR_STATUS STALE_VERSION = 409"
| "API_ERROR_STATUS EVIDENCE_LIMIT = 409"
| "API_ERROR_STATUS TERMINAL_ATTEMPT = 409"
| "API_ERROR_STATUS BODY_TOO_LARGE = 413"
| "API_ERROR_STATUS UNSUPPORTED_MEDIA_TYPE = 415"
| "API_ERROR_STATUS RATE_LIMITED = 429"
| "API_ERROR_STATUS INTERNAL_ERROR = 500"
| "API_ERROR_STATUS SERVICE_UNAVAILABLE = 503"
| "API_ERROR_STATUS REQUEST_TIMEOUT = 504"

datatype field_code = REQUIRED | INVALID_TYPE | INVALID_FORMAT | OUT_OF_BOUNDS | UNKNOWN_FIELD | DUPLICATE_FIELD

record field_error =
  fe_code :: field_code
  fe_path :: string

record http_error =
  he_code :: api_error
  he_fields :: "field_error list"

definition public_error :: "api_error \<Rightarrow> http_error" where
  "public_error c = \<lparr>he_code = c, he_fields = []\<rparr>"

text \<open>The body of an error response: at most 32 fields, and only paths that are public.\<close>

record error_body =
  eb_status :: int
  eb_code :: api_error
  eb_requestId :: string
  eb_fields :: "field_error list"

definition sendPublicError :: "string list \<Rightarrow> string \<Rightarrow> http_error \<Rightarrow> error_body" where
  "sendPublicError publicPaths requestId e =
    \<lparr>eb_status = API_ERROR_STATUS (he_code e), eb_code = he_code e, eb_requestId = requestId,
     eb_fields = map (\<lambda>f. \<lparr>fe_code = fe_code f,
         fe_path = (if fe_path f \<in> set publicPaths then fe_path f else ''$'')\<rparr>) (take 32 (he_fields e))\<rparr>"

section \<open>Operations\<close>

datatype auth_policy = AUTH_NONE | AUTH_BOOTSTRAP | AUTH_SESSION | AUTH_GAMEPLAY_MUTATION

datatype operation = OP_createSession | OP_getSession | OP_getCurrentCase | OP_startCurrentAttempt
  | OP_getOwnedAttempt | OP_runGameplayCommand | OP_getSuggestions | OP_getProfile | OP_getLeaderboard
  | OP_healthLive | OP_healthReady

fun operation_auth :: "operation \<Rightarrow> auth_policy" where
  "operation_auth OP_createSession = AUTH_BOOTSTRAP"
| "operation_auth OP_getSession = AUTH_SESSION"
| "operation_auth OP_getCurrentCase = AUTH_SESSION"
| "operation_auth OP_startCurrentAttempt = AUTH_GAMEPLAY_MUTATION"
| "operation_auth OP_getOwnedAttempt = AUTH_SESSION"
| "operation_auth OP_runGameplayCommand = AUTH_GAMEPLAY_MUTATION"
| "operation_auth OP_getSuggestions = AUTH_SESSION"
| "operation_auth OP_getProfile = AUTH_SESSION"
| "operation_auth OP_getLeaderboard = AUTH_SESSION"
| "operation_auth OP_healthLive = AUTH_NONE"
| "operation_auth OP_healthReady = AUTH_NONE"

fun operation_method :: "operation \<Rightarrow> string" where
  "operation_method OP_createSession = ''POST''"
| "operation_method OP_startCurrentAttempt = ''POST''"
| "operation_method OP_runGameplayCommand = ''POST''"
| "operation_method _ = ''GET''"

fun operation_success :: "operation \<Rightarrow> int" where
  "operation_success OP_createSession = 201"
| "operation_success _ = 200"

fun operation_has_body :: "operation \<Rightarrow> bool" where
  "operation_has_body OP_createSession = True"
| "operation_has_body OP_startCurrentAttempt = True"
| "operation_has_body OP_runGameplayCommand = True"
| "operation_has_body _ = False"

definition COMMON_ERRORS :: "int list" where
  "COMMON_ERRORS = [401, 403, 500, 503]"

definition MUTATION_ERRORS :: "int list" where
  "MUTATION_ERRORS = [400] @ COMMON_ERRORS @ [409, 413, 415, 429, 504]"

fun error_statuses :: "operation \<Rightarrow> int list" where
  "error_statuses OP_createSession = [400, 403, 413, 415, 429, 500, 503]"
| "error_statuses OP_getSession = COMMON_ERRORS"
| "error_statuses OP_getCurrentCase = COMMON_ERRORS"
| "error_statuses OP_startCurrentAttempt = MUTATION_ERRORS"
| "error_statuses OP_getOwnedAttempt = [400] @ COMMON_ERRORS @ [404]"
| "error_statuses OP_runGameplayCommand = MUTATION_ERRORS"
| "error_statuses OP_getSuggestions = [400] @ COMMON_ERRORS @ [404, 429]"
| "error_statuses OP_getProfile = COMMON_ERRORS"
| "error_statuses OP_getLeaderboard = [400] @ COMMON_ERRORS"
| "error_statuses OP_healthLive = [500]"
| "error_statuses OP_healthReady = [500, 503]"

section \<open>Text\<close>

definition ascii_lower :: "string \<Rightarrow> string" where
  "ascii_lower s = map (\<lambda>c. let n = (of_char c :: nat) in if 65 \<le> n \<and> n \<le> 90 then char_of (n + 32) else c) s"

text \<open>\<^verbatim>\<open>text.split(separator)\<close> for a separator of one unit: the parts between its occurrences.\<close>

fun js_split :: "char \<Rightarrow> string \<Rightarrow> string list" where
  "js_split c [] = [[]]"
| "js_split c (x # s) = (if x = c then [] # js_split c s
     else (case js_split c s of [] \<Rightarrow> [[x]] | p # ps \<Rightarrow> (x # p) # ps))"

fun js_join :: "string \<Rightarrow> string list \<Rightarrow> string" where
  "js_join sep [] = []"
| "js_join sep [p] = p"
| "js_join sep (p # ps) = p @ sep @ js_join sep ps"

definition js_space :: "char \<Rightarrow> bool" where
  "js_space c \<longleftrightarrow> (of_char c :: nat) \<in> {9, 10, 11, 12, 13, 32, 160}"

definition js_trim :: "string \<Rightarrow> string" where
  "js_trim s = rev (dropWhile js_space (rev (dropWhile js_space s)))"

section \<open>Requests\<close>

record http_request =
  rq_method :: string
  rq_headers :: "(string \<times> string) list"
  rq_remote :: string

definition header_values :: "http_request \<Rightarrow> string \<Rightarrow> string list" where
  "header_values r name = map snd (filter (\<lambda>h. ascii_lower (fst h) = name) (rq_headers r))"

definition rawHeaderCount :: "http_request \<Rightarrow> string \<Rightarrow> nat" where
  "rawHeaderCount r name = length (header_values r name)"

text \<open>The fields Node keeps once, among those the program reads.\<close>

definition SINGLE_HEADERS :: "string list" where
  "SINGLE_HEADERS = [''content-type'', ''content-length'', ''authorization'', ''host'', ''user-agent'']"

definition header :: "http_request \<Rightarrow> string \<Rightarrow> string option" where
  "header r name =
    (case header_values r name of [] \<Rightarrow> None
     | v # vs \<Rightarrow> Some (if name \<in> set SINGLE_HEADERS then v
         else js_join (if name = ''cookie'' then ''; '' else '', '') (v # vs)))"

lemma header_None: "header r name = None \<longleftrightarrow> rawHeaderCount r name = 0"
  by (auto simp: header_def rawHeaderCount_def split: list.split)

lemma header_once: "rawHeaderCount r name = 1 \<Longrightarrow> header_values r name = [v] \<Longrightarrow> header r name = Some v"
  by (simp add: header_def)

lemma js_split_nonempty: "js_split c s \<noteq> []"
  by (induction s) (auto split: list.split)

lemma js_split_no_sep: "c \<notin> set s \<Longrightarrow> js_split c s = [s]"
  by (induction s) auto

lemma js_split_append: "c \<notin> set s \<Longrightarrow> js_split c (s @ c # t) = s # js_split c t"
  by (induction s) auto

text \<open>Splitting undoes joining.\<close>

lemma js_split_join: "ps \<noteq> [] \<Longrightarrow> \<forall>p \<in> set ps. c \<notin> set p \<Longrightarrow> js_split c (js_join [c] ps) = ps"
  by (induction "[c]" ps rule: js_join.induct) (auto simp: js_split_no_sep js_split_append)

end
