(* ===== verification/Sessions.thy ===== *)
theory Sessions
  imports Gameplay_Theorems
begin

text \<open>
  \<^verbatim>\<open>packages/database/src/identity/session-repository.ts\<close>: anonymous guests and their sessions. Only the
  hashes of the secrets are stored; the random values of each try are arguments (\<open>session_draw\<close>), as
  is SHA-256. A collision of identifiers or of token hashes is the unique violation that makes
  \<open>createGuestSession\<close> try again, at most three times.

  Results: a session that was created authenticates its token, with its own guest, until it expires,
  and no other token; creation keeps the store consistent and touches nothing but the two tables.
\<close>

section \<open>Creating a session\<close>

record session_draw =
  dr_guest :: string
  dr_session :: string
  dr_token :: string
  dr_csrf :: string
  dr_pseudonym :: string

record auth_session =
  as_guest :: string
  as_session :: string
  as_csrfHash :: string
  as_expiresAt :: int
  as_pseudonym :: string

record created_session = auth_session +
  cs_token :: string
  cs_csrf :: string

text \<open>What a call can throw: a timeout of the database passes through, all else is one error.\<close>

datatype session_error = SessionTimeout | SessionPersistenceError

text \<open>What can go wrong below the code: the deadline, or the connection.\<close>

datatype database_fault = Fault_timeout | Fault_connection

definition SESSION_LIFETIME :: int where
  "SESSION_LIFETIME = 2592000000"

text \<open>\<^verbatim>\<open>/^[A-Za-z0-9_-]{43}$/u\<close>\<close>

definition token_char :: "char \<Rightarrow> bool" where
  "token_char c \<longleftrightarrow> (let n = (of_char c :: nat) in
     48 \<le> n \<and> n \<le> 57 \<or> 65 \<le> n \<and> n \<le> 90 \<or> 97 \<le> n \<and> n \<le> 122 \<or> c = CHR ''_'' \<or> c = CHR ''-'')"

definition secret_form :: "string \<Rightarrow> bool" where
  "secret_form s \<longleftrightarrow> length s = 43 \<and> list_all token_char s"

text \<open>The insertion of the guest and of the session, with the keys of both tables.\<close>

definition unique_draw :: "(string \<Rightarrow> string) \<Rightarrow> session_draw \<Rightarrow> game_db \<Rightarrow> bool" where
  "unique_draw sha d db \<longleftrightarrow>
    \<not> list_ex (\<lambda>g. g_id g = dr_guest d) (guests db) \<and>
    \<not> list_ex (\<lambda>s. se_id s = dr_session d \<or> se_tokenHash s = sha (dr_token d)) (sessions db)"

definition session_of :: "(string \<Rightarrow> string) \<Rightarrow> int \<Rightarrow> session_draw \<Rightarrow> session_row" where
  "session_of sha now d = \<lparr>se_id = dr_session d, se_guest = dr_guest d, se_tokenHash = sha (dr_token d),
     se_csrfHash = sha (dr_csrf d), se_createdAt = now, se_expiresAt = now + SESSION_LIFETIME\<rparr>"

definition insert_session :: "(string \<Rightarrow> string) \<Rightarrow> int \<Rightarrow> session_draw \<Rightarrow> game_db \<Rightarrow> game_db" where
  "insert_session sha now d db =
    db\<lparr>guests := guests db @ [\<lparr>g_id = dr_guest d, g_pseudonym = dr_pseudonym d\<rparr>],
       sessions := sessions db @ [session_of sha now d]\<rparr>"

definition created_of :: "(string \<Rightarrow> string) \<Rightarrow> int \<Rightarrow> session_draw \<Rightarrow> created_session" where
  "created_of sha now d =
    \<lparr>as_guest = dr_guest d, as_session = dr_session d, as_csrfHash = sha (dr_csrf d),
     as_expiresAt = now + SESSION_LIFETIME, as_pseudonym = dr_pseudonym d,
     cs_token = dr_token d, cs_csrf = dr_csrf d\<rparr>"

text \<open>One try: a fault below, a unique violation, or the session.\<close>

datatype create_failure = Create_fault database_fault | Create_unique_violation

definition createOnce ::
  "(string \<Rightarrow> string) \<Rightarrow> int \<Rightarrow> session_draw \<Rightarrow> database_fault option \<Rightarrow> game_db \<Rightarrow>
   (create_failure + created_session) \<times> game_db" where
  "createOnce sha now d fault db = (case fault of
     Some f \<Rightarrow> (Inl (Create_fault f), db)
   | None \<Rightarrow> if unique_draw sha d db then (Inr (created_of sha now d), insert_session sha now d db)
       else (Inl Create_unique_violation, db))"

text \<open>The tries, each with its draw, its fault and its reading of the clock; the last one does not retry.\<close>

fun create_attempts ::
  "(string \<Rightarrow> string) \<Rightarrow> nat \<Rightarrow> (int \<times> session_draw \<times> database_fault option) list \<Rightarrow> game_db \<Rightarrow>
   (session_error + created_session) \<times> game_db" where
  "create_attempts sha 0 draws db = (Inl SessionPersistenceError, db)"
| "create_attempts sha (Suc n) [] db = (Inl SessionPersistenceError, db)"
| "create_attempts sha (Suc n) ((now, d, fault) # draws) db =
    (case createOnce sha now d fault db of
       (Inr s, db') \<Rightarrow> (Inr s, db')
     | (Inl (Create_fault Fault_timeout), db') \<Rightarrow> (Inl SessionTimeout, db')
     | (Inl (Create_fault Fault_connection), db') \<Rightarrow> (Inl SessionPersistenceError, db')
     | (Inl Create_unique_violation, db') \<Rightarrow>
         if n = 0 then (Inl SessionPersistenceError, db') else create_attempts sha n draws db')"

definition maximumCreateAttempts :: nat where
  "maximumCreateAttempts = 3"

definition createGuestSession ::
  "(string \<Rightarrow> string) \<Rightarrow> (int \<times> session_draw \<times> database_fault option) list \<Rightarrow> game_db \<Rightarrow>
   (session_error + created_session) \<times> game_db" where
  "createGuestSession sha draws db = create_attempts sha maximumCreateAttempts draws db"

section \<open>Authenticating\<close>

definition session_lookup :: "int \<Rightarrow> string \<Rightarrow> game_db \<Rightarrow> auth_session option" where
  "session_lookup now tokenHash db =
    (case find (\<lambda>s. se_tokenHash s = tokenHash \<and> now < se_expiresAt s \<and>
          list_ex (\<lambda>g. g_id g = se_guest s) (guests db)) (sessions db) of
       None \<Rightarrow> None
     | Some s \<Rightarrow> (case find (\<lambda>g. g_id g = se_guest s) (guests db) of
         None \<Rightarrow> None
       | Some g \<Rightarrow> Some \<lparr>as_guest = se_guest s, as_session = se_id s, as_csrfHash = se_csrfHash s,
           as_expiresAt = se_expiresAt s, as_pseudonym = g_pseudonym g\<rparr>))"

definition authenticateSession ::
  "(string \<Rightarrow> string) \<Rightarrow> int \<Rightarrow> database_fault option \<Rightarrow> string \<Rightarrow> game_db \<Rightarrow> session_error + auth_session option" where
  "authenticateSession sha now fault token db =
    (if \<not> secret_form token then Inr None
     else case fault of
       Some Fault_timeout \<Rightarrow> Inl SessionTimeout
     | Some Fault_connection \<Rightarrow> Inl SessionPersistenceError
     | None \<Rightarrow> Inr (session_lookup now (sha token) db))"

definition verifySessionCsrfToken :: "(string \<Rightarrow> string) \<Rightarrow> auth_session \<Rightarrow> string \<Rightarrow> bool" where
  "verifySessionCsrfToken sha s csrfToken \<longleftrightarrow> secret_form csrfToken \<and> sha csrfToken = as_csrfHash s"

section \<open>Results\<close>

text \<open>The keys of the two tables: identifiers and token hashes are unique and sessions belong to guests.\<close>

definition sessions_ok :: "game_db \<Rightarrow> bool" where
  "sessions_ok db \<longleftrightarrow> distinct (map g_id (guests db)) \<and> distinct (map se_id (sessions db)) \<and>
    distinct (map se_tokenHash (sessions db)) \<and>
    list_all (\<lambda>s. list_ex (\<lambda>g. g_id g = se_guest s) (guests db)) (sessions db)"

lemma insert_session_ok: "sessions_ok db \<Longrightarrow> unique_draw sha d db \<Longrightarrow> sessions_ok (insert_session sha now d db)"
  by (auto simp: sessions_ok_def unique_draw_def insert_session_def session_of_def list_all_iff list_ex_iff)

lemma create_attempts_cases:
  "create_attempts sha n draws db = (r, db') \<Longrightarrow>
    (\<exists>e. r = Inl e \<and> db' = db) \<or>
    (\<exists>now d fault. (now, d, fault) \<in> set draws \<and> r = Inr (created_of sha now d) \<and> unique_draw sha d db \<and>
      db' = insert_session sha now d db)"
proof (induction n arbitrary: draws)
  case (Suc n)
  show ?case
  proof (cases draws)
    case Nil
    then show ?thesis using Suc.prems by auto
  next
    case (Cons x rest)
    obtain now d fault where x: "x = (now, d, fault)" by (cases x)
    show ?thesis
    proof (cases fault)
      case (Some f)
      then show ?thesis using Suc.prems Cons x by (cases f) (auto simp: createOnce_def)
    next
      case None
      show ?thesis
      proof (cases "unique_draw sha d db")
        case True
        then have "r = Inr (created_of sha now d)" "db' = insert_session sha now d db"
          using Suc.prems Cons x None by (auto simp: createOnce_def)
        then show ?thesis using True Cons x by auto
      next
        case False
        then have "create_attempts sha n rest db = (r, db') \<or> (\<exists>e. r = Inl e \<and> db' = db)"
          using Suc.prems Cons x None by (auto simp: createOnce_def split: if_splits)
        then show ?thesis using Suc.IH [of rest] Cons by auto
      qed
    qed
  qed
qed auto

lemma find_appended:
  "find p xs = None \<Longrightarrow> p x \<Longrightarrow> find p (xs @ [x]) = Some x"
  by (simp add: find_later)

lemma insert_session_store_ok:
  assumes "store_ok db" "unique_draw sha d db"
  shows "store_ok (insert_session sha now d db)"
proof -
  let ?db = "insert_session sha now d db"
  have fresh: "dr_guest d \<notin> g_id ` set (guests db)" using assms(2) by (auto simp: unique_draw_def list_ex_iff)
  have core: "store_core db" using assms(1) by (simp add: store_ok_def)
  have static: "attempts ?db = attempts db" "revisions ?db = revisions db" "revision_regions ?db = revision_regions db"
    "finalizations ?db = finalizations db" "contributions ?db = contributions db" "knowledge ?db = knowledge db"
    "entries ?db = entries db" "guesses ?db = guesses db" "receipts ?db = receipts db"
    "guests ?db = guests db @ [\<lparr>g_id = dr_guest d, g_pseudonym = dr_pseudonym d\<rparr>]"
    by (simp_all add: insert_session_def)
  have f: "regions_of ?db = regions_of db" "complete_revision ?db = complete_revision db" "case_of ?db = case_of db"
    by (simp_all add: fun_eq_iff regions_of_def complete_revision_def evidence_of_def answer_of_def case_of_def insert_session_def)
  have p: "pseudonym_of ?db g = pseudonym_of db g" if "g \<in> g_id ` set (guests db)" for g
    using that by (cases "find (\<lambda>x. g_id x = g) (guests db)")
      (auto simp: pseudonym_of_def static find_later find_None_key)
  have "entry_of ?db a = entry_of db a" if "a \<in> set (attempts db)" for a
    using core that p by (simp add: entry_of_def store_core_def attempts_ok_def)
  then have e: "entry_of ?db ` solved_attempts ?db = entry_of db ` solved_attempts db"
    by (intro image_cong) (auto simp: solved_attempts_def static)
  have "store_core ?db"
    using core fresh e
    by (auto simp: store_core_def content_ok_def attempts_ok_def derived_ok_def knowledge_ok_def static f
        terminals_def cases_of_def)
  then show ?thesis using assms(1) by (simp add: store_ok_def guesses_ok_def receipts_ok_def numbers_of_def static)
qed

text \<open>Property C37. A session that was created can be used: whatever draws collided before it, its token
  authenticates from then until its expiry thirty days after its creation, as its own guest, session and
  pseudonym, its CSRF token verifies, the gameplay store stays consistent, and no other session or guest was added or
  changed.\<close>

theorem created_session_authenticates:
  assumes "sessions_ok db" "store_ok db" "createGuestSession sha draws db = (Inr s, db')"
    and "secret_form (cs_token s)" "secret_form (cs_csrf s)" "now < as_expiresAt s"
  shows "authenticateSession sha now None (cs_token s) db' = Inr (Some (auth_session.truncate s)) \<and>
    verifySessionCsrfToken sha (auth_session.truncate s) (cs_csrf s) \<and> sessions_ok db' \<and> store_ok db' \<and>
    (\<exists>g row. guests db' = guests db @ [g] \<and> sessions db' = sessions db @ [row] \<and>
       db' = db\<lparr>guests := guests db', sessions := sessions db'\<rparr>)"
proof -
  obtain start d fault where d: "s = created_of sha start d" "unique_draw sha d db" "db' = insert_session sha start d db"
    using create_attempts_cases assms(3) unfolding createGuestSession_def by fastforce
  have n: "find (\<lambda>r. se_tokenHash r = sha (dr_token d) \<and> now < se_expiresAt r \<and>
      list_ex (\<lambda>g. g_id g = se_guest r) (guests db')) (sessions db) = None"
    using d(2) by (auto simp: unique_draw_def find_None_key list_ex_iff)
  have "find (\<lambda>r. se_tokenHash r = sha (dr_token d) \<and> now < se_expiresAt r \<and>
      list_ex (\<lambda>g. g_id g = se_guest r) (guests db')) (sessions db') = Some (session_of sha start d)"
    using find_appended [OF n, of "session_of sha start d"] assms(6)
    by (simp add: d(1,3) insert_session_def session_of_def created_of_def)
  moreover have "find (\<lambda>g. g_id g = dr_guest d) (guests db) = None"
    using d(2) by (auto simp: unique_draw_def find_None_key list_ex_iff)
  then have "find (\<lambda>g. g_id g = dr_guest d) (guests db') = Some \<lparr>g_id = dr_guest d, g_pseudonym = dr_pseudonym d\<rparr>"
    by (simp add: d(3) insert_session_def find_later)
  ultimately have "session_lookup now (sha (dr_token d)) db' = Some (auth_session.truncate s)"
    by (simp add: session_lookup_def session_of_def d(1) created_of_def auth_session.defs)
  then show ?thesis
    using assms(4,5) insert_session_ok [OF assms(1) d(2)] insert_session_store_ok [OF assms(2) d(2)]
    by (auto simp: authenticateSession_def verifySessionCsrfToken_def d(1) d(3) created_of_def auth_session.defs insert_session_def)
qed

definition sample_secret :: "char \<Rightarrow> string" where
  "sample_secret c = replicate 43 c"

definition sample_draw :: session_draw where
  "sample_draw = \<lparr>dr_guest = ''g2'', dr_session = ''s2'', dr_token = sample_secret (CHR ''t''),
     dr_csrf = sample_secret (CHR ''c''), dr_pseudonym = ''Guest-2''\<rparr>"

theorem created_session_authenticates_witness:
  "fst (createGuestSession (\<lambda>s. s) [(0, sample_draw\<lparr>dr_guest := ''g''\<rparr>, None), (10, sample_draw, None)] (small_store initial_attempt)) =
      Inr (created_of (\<lambda>s. s) 10 sample_draw) \<and>
    authenticateSession (\<lambda>s. s) 1000 None (sample_secret (CHR ''t''))
      (snd (createGuestSession (\<lambda>s. s) [(0, sample_draw\<lparr>dr_guest := ''g''\<rparr>, None), (10, sample_draw, None)] (small_store initial_attempt))) =
      Inr (Some (auth_session.truncate (created_of (\<lambda>s. s) 10 sample_draw)))"
proof -
  let ?r = "createGuestSession (\<lambda>s. s) [(0, sample_draw\<lparr>dr_guest := ''g''\<rparr>, None), (10, sample_draw, None)] (small_store initial_attempt)"
  have f: "fst ?r = Inr (created_of (\<lambda>s. s) 10 sample_draw)"
    by (simp add: createGuestSession_def maximumCreateAttempts_def eval_nat_numeral createOnce_def unique_draw_def
        small_store_def sample_draw_def sample_secret_def)
  then have r: "?r = (Inr (created_of (\<lambda>s. s) 10 sample_draw), snd ?r)" by (metis prod.collapse)
  have "sessions_ok (small_store initial_attempt)" by code_simp
  moreover have "secret_form (sample_secret (CHR ''t''))" "secret_form (sample_secret (CHR ''c''))" by code_simp+
  ultimately show ?thesis
    using created_session_authenticates [OF _ small_store_ok r, of 1000] f
    by (simp add: created_of_def sample_draw_def SESSION_LIFETIME_def)
qed

text \<open>Property C38. Authentication admits nobody else: the session it returns is a live one whose stored hash
  is that of the token presented and whose guest exists, and a malformed token is refused without
  asking the store.\<close>

theorem authentication_is_sound:
  "(case authenticateSession sha now fault token db of
      Inl _ \<Rightarrow> fault \<noteq> None \<and> secret_form token
    | Inr None \<Rightarrow> True
    | Inr (Some s) \<Rightarrow> fault = None \<and> secret_form token \<and> now < as_expiresAt s \<and>
        list_ex (\<lambda>r. se_tokenHash r = sha token \<and> se_id r = as_session s \<and> se_guest r = as_guest s \<and>
          se_csrfHash r = as_csrfHash s \<and> se_expiresAt r = as_expiresAt s) (sessions db) \<and>
        list_ex (\<lambda>g. g_id g = as_guest s \<and> g_pseudonym g = as_pseudonym s) (guests db))"
proof -
  have "now < as_expiresAt s \<and>
      list_ex (\<lambda>r. se_tokenHash r = sha token \<and> se_id r = as_session s \<and> se_guest r = as_guest s \<and>
          se_csrfHash r = as_csrfHash s \<and> se_expiresAt r = as_expiresAt s) (sessions db) \<and>
      list_ex (\<lambda>g. g_id g = as_guest s \<and> g_pseudonym g = as_pseudonym s) (guests db)"
    if "session_lookup now (sha token) db = Some s" for s
    using that by (auto simp: session_lookup_def list_ex_iff dest!: find_Some_key split: option.splits)
  then show ?thesis
    by (auto simp: authenticateSession_def split: option.split database_fault.split)
qed

end
