(* ===== verification/Security.thy ===== *)
theory Security
  imports Http Sessions Shared_Limiter
begin

text \<open>
  \<^verbatim>\<open>apps/api/src/security\<close> and the order in which \<^verbatim>\<open>app.ts\<close> runs the controls of an operation: origin
  policy, authentication, CSRF, rate limit. Each control passes the request on or ends it with a
  public error; what it adds to the response (cookies to clear, a delay to wait) comes with it.

  Results: a gameplay mutation reaches its handler only from the configured origin, with a live
  session and that session's CSRF token; the local limiter fulfils the contract of a fixed-window
  limiter within bounded memory; a cookie that is set is read back.
\<close>

section \<open>Cookies\<close>

record cookie_config =
  ck_name :: string
  ck_path :: string
  ck_httpOnly :: bool
  ck_secure :: bool

definition weekday_name :: "int \<Rightarrow> string" where
  "weekday_name d = [''Thu'', ''Fri'', ''Sat'', ''Sun'', ''Mon'', ''Tue'', ''Wed''] ! nat (d mod 7)"

definition month_name :: "int \<Rightarrow> string" where
  "month_name m = [''Jan'', ''Feb'', ''Mar'', ''Apr'', ''May'', ''Jun'', ''Jul'', ''Aug'', ''Sep'', ''Oct'', ''Nov'', ''Dec''] ! nat (m - 1)"

text \<open>\<^verbatim>\<open>Date.prototype.toUTCString\<close> for the years 0 to 9999.\<close>

definition utc_string :: "int \<Rightarrow> string" where
  "utc_string t =
    (let d = t div MILLISECONDS_PER_DAY; s = t mod MILLISECONDS_PER_DAY div 1000; c = civil_of_day d
     in weekday_name d @ '', '' @ two_digits (day c) @ '' '' @ month_name (month c) @ '' '' @
        four_digits (year c) @ '' '' @ two_digits (s div 3600) @ '':'' @ two_digits (s div 60 mod 60) @ '':'' @
        two_digits (s mod 60) @ '' GMT'')"

definition serializeCookie :: "cookie_config \<Rightarrow> string \<Rightarrow> int \<Rightarrow> bool \<Rightarrow> string" where
  "serializeCookie cookie val expiresAt clear =
    js_join ''; '' ([ck_name cookie @ ''='' @ val, ''Path='' @ ck_path cookie, ''Expires='' @ utc_string expiresAt] @
      (if clear then [''Max-Age=0''] else []) @ (if ck_httpOnly cookie then [''HttpOnly''] else []) @
      (if ck_secure cookie then [''Secure''] else []) @ [''SameSite=Lax''])"

datatype read_cookie = CookieAbsent | CookieRepeated | CookieValue string

text \<open>\<^verbatim>\<open>part.indexOf('=')\<close>, then the name before it and the value after it.\<close>

fun cut_at :: "char \<Rightarrow> string \<Rightarrow> (string \<times> string) option" where
  "cut_at c [] = None"
| "cut_at c (x # s) = (if x = c then Some ([], s) else map_option (\<lambda>(a, b). (x # a, b)) (cut_at c s))"

fun cookie_loop :: "string \<Rightarrow> string list \<Rightarrow> string option \<Rightarrow> read_cookie" where
  "cookie_loop name [] found = (case found of None \<Rightarrow> CookieAbsent | Some v \<Rightarrow> CookieValue v)"
| "cookie_loop name (part # parts) found =
    (case cut_at (CHR ''='') part of
       None \<Rightarrow> cookie_loop name parts found
     | Some (k, v) \<Rightarrow>
         if js_trim k \<noteq> name then cookie_loop name parts found
         else if found \<noteq> None then CookieRepeated
         else cookie_loop name parts (Some (js_trim v)))"

definition readUniqueCookie :: "http_request \<Rightarrow> string \<Rightarrow> read_cookie" where
  "readUniqueCookie request name =
    (case header request ''cookie'' of None \<Rightarrow> CookieAbsent
     | Some h \<Rightarrow> cookie_loop name (js_split (CHR '';'') h) None)"

record cookie_pair =
  cp_csrf :: cookie_config
  cp_session :: cookie_config

definition issueSessionCookies :: "cookie_pair \<Rightarrow> string \<Rightarrow> string \<Rightarrow> int \<Rightarrow> string list result" where
  "issueSessionCookies cookies token csrf expiresAt =
    (if \<not> secret_form token \<or> \<not> secret_form csrf then Inl (TypeError ''Invalid session cookie values'')
     else Inr [serializeCookie (cp_session cookies) token expiresAt False,
               serializeCookie (cp_csrf cookies) csrf expiresAt False])"

definition clearSessionCookies :: "cookie_pair \<Rightarrow> string list" where
  "clearSessionCookies cookies =
    [serializeCookie (cp_session cookies) [] 0 True, serializeCookie (cp_csrf cookies) [] 0 True]"

section \<open>The origin policy\<close>

text \<open>A control passes a request on, or ends it.\<close>

datatype verdict = Pass | Reject api_error

definition request_policy :: "string \<Rightarrow> operation \<Rightarrow> http_request \<Rightarrow> verdict" where
  "request_policy origin op request =
    (let supplied = header request ''origin''; count = rawHeaderCount request ''origin'';
         requiresOrigin = operation_auth op \<in> {AUTH_BOOTSTRAP, AUTH_GAMEPLAY_MUTATION}
     in if 1 < count \<or> requiresOrigin \<and> (count \<noteq> 1 \<or> supplied \<noteq> Some origin) \<or>
           \<not> requiresOrigin \<and> supplied \<noteq> None \<and> supplied \<noteq> Some origin
        then Reject REQUEST_FORBIDDEN else Pass)"

section \<open>Cross-origin requests\<close>

definition ALLOWED_HEADERS :: "string list" where
  "ALLOWED_HEADERS = [''Content-Type'', ''Idempotency-Key'', ''X-CSRF-Token'']"

definition ALLOWED_METHODS :: "string list" where
  "ALLOWED_METHODS = [''GET'', ''POST'', ''OPTIONS'']"

datatype cors_outcome = CorsDenied | CorsNext "(string \<times> string) list" | CorsPreflight "(string \<times> string) list"

definition cors :: "string \<Rightarrow> http_request \<Rightarrow> cors_outcome" where
  "cors allowedOrigin request =
    (let origin = header request ''origin''; vary = [(''Vary'', ''Origin'')];
         credentials = [(''Access-Control-Allow-Origin'', allowedOrigin), (''Access-Control-Allow-Credentials'', ''true'')]
     in if 1 < rawHeaderCount request ''origin'' \<or> origin \<noteq> None \<and> origin \<noteq> Some allowedOrigin then CorsDenied
        else let granted = vary @ (if origin = Some allowedOrigin then credentials else [])
        in if rq_method request \<noteq> ''OPTIONS'' then CorsNext granted
        else let requestedMethod = header request ''access-control-request-method'';
                 requestedHeaders = header request ''access-control-request-headers''
        in if origin \<noteq> Some allowedOrigin \<or> rawHeaderCount request ''access-control-request-method'' \<noteq> 1 \<or>
              (case requestedMethod of None \<Rightarrow> True | Some m \<Rightarrow> m \<notin> set ALLOWED_METHODS) \<or>
              1 < rawHeaderCount request ''access-control-request-headers'' then CorsDenied
        else let names = (case requestedHeaders of None \<Rightarrow> []
                   | Some h \<Rightarrow> map (\<lambda>p. ascii_lower (js_trim p)) (js_split (CHR '','') h))
        in if list_ex (\<lambda>n. n = [] \<or> n \<notin> set (map ascii_lower ALLOWED_HEADERS)) names \<or>
              length (uniq names) \<noteq> length names then CorsDenied
        else CorsPreflight (granted @ [(''Access-Control-Allow-Methods'', js_join '', '' ALLOWED_METHODS),
               (''Access-Control-Allow-Headers'', js_join '', '' ALLOWED_HEADERS)]))"

section \<open>Authentication\<close>

text \<open>\<open>clears\<close> tells whether the session cookies are cleared on the response.\<close>

record auth_outcome =
  ao_session :: "auth_session option"
  ao_verdict :: verdict
  ao_clears :: bool

definition auth_control ::
  "string \<Rightarrow> (string \<Rightarrow> session_error + auth_session option) \<Rightarrow> int \<Rightarrow> operation \<Rightarrow> http_request \<Rightarrow> auth_outcome" where
  "auth_control sessionCookie authenticate now op request =
    (if operation_auth op = AUTH_NONE \<or> operation_auth op = AUTH_BOOTSTRAP
     then \<lparr>ao_session = None, ao_verdict = Pass, ao_clears = False\<rparr>
     else let refused = \<lparr>ao_session = None, ao_verdict = Reject AUTHENTICATION_REQUIRED, ao_clears = True\<rparr>
       in (case readUniqueCookie request sessionCookie of
            CookieValue token \<Rightarrow>
              if \<not> secret_form token then refused
              else (case authenticate token of
                 Inl SessionTimeout \<Rightarrow> \<lparr>ao_session = None, ao_verdict = Reject REQUEST_TIMEOUT, ao_clears = False\<rparr>
               | Inl SessionPersistenceError \<Rightarrow>
                   \<lparr>ao_session = None, ao_verdict = Reject SERVICE_UNAVAILABLE, ao_clears = False\<rparr>
               | Inr None \<Rightarrow> refused
               | Inr (Some s) \<Rightarrow> if as_expiresAt s \<le> now then refused
                   else \<lparr>ao_session = Some s, ao_verdict = Pass, ao_clears = False\<rparr>)
          | _ \<Rightarrow> refused))"

section \<open>CSRF\<close>

definition csrf_control ::
  "string \<Rightarrow> (auth_session \<Rightarrow> string \<Rightarrow> bool) \<Rightarrow> auth_session option \<Rightarrow> operation \<Rightarrow> http_request \<Rightarrow> verdict" where
  "csrf_control csrfCookie verify session op request =
    (if operation_auth op \<noteq> AUTH_GAMEPLAY_MUTATION then Pass
     else (case (session, header request ''x-csrf-token'', readUniqueCookie request csrfCookie) of
         (Some s, Some headerToken, CookieValue cookieToken) \<Rightarrow>
           if \<not> secret_form headerToken \<or> \<not> secret_form cookieToken \<or> headerToken \<noteq> cookieToken \<or> \<not> verify s headerToken
           then Reject REQUEST_FORBIDDEN else Pass
       | _ \<Rightarrow> Reject REQUEST_FORBIDDEN))"

section \<open>The rate limit\<close>

record limiter_config =
  lc_windowMs :: int
  lc_ipCapacity :: int
  lc_guestCapacity :: int
  lc_sessionCreationsPerIp :: int
  lc_autocompletePerIp :: int
  lc_mutationsPerIp :: int
  lc_autocompletePerGuest :: int
  lc_mutationsPerGuest :: int

type_synonym limit_entry = "limit_counter \<Rightarrow> int"

record window_store =
  ws_bucket :: int
  ws_entries :: "(string \<times> limit_entry) list"

record limiter_state =
  ls_ip :: window_store
  ls_guest :: window_store

definition initial_limiter :: limiter_state where
  "initial_limiter = \<lparr>ls_ip = \<lparr>ws_bucket = -1, ws_entries = []\<rparr>, ls_guest = \<lparr>ws_bucket = -1, ws_entries = []\<rparr>\<rparr>"

definition category :: "operation \<Rightarrow> limit_counter option" where
  "category op =
    (if op = OP_createSession then Some C_session
     else if op = OP_getSuggestions then Some C_autocomplete
     else if operation_auth op = AUTH_GAMEPLAY_MUTATION then Some C_mutation else None)"

definition refresh :: "int \<Rightarrow> window_store \<Rightarrow> window_store" where
  "refresh bucket s = (if ws_bucket s \<noteq> bucket then \<lparr>ws_bucket = bucket, ws_entries = []\<rparr> else s)"

definition limit_denies :: "limit_counter \<Rightarrow> string \<Rightarrow> int \<Rightarrow> int \<Rightarrow> window_store \<Rightarrow> bool" where
  "limit_denies counter identity maximum capacity s =
    (case map_of (ws_entries s) identity of
       None \<Rightarrow> capacity \<le> int (length (ws_entries s)) \<or> maximum \<le> 0
     | Some e \<Rightarrow> maximum \<le> e counter)"

definition count_entry :: "limit_counter \<Rightarrow> string \<Rightarrow> window_store \<Rightarrow> window_store" where
  "count_entry counter identity s =
    (let e = (case map_of (ws_entries s) identity of None \<Rightarrow> (\<lambda>_. 0) | Some e \<Rightarrow> e)
     in s\<lparr>ws_entries := AList.update identity (e(counter := e counter + 1)) (ws_entries s)\<rparr>)"

fun ip_limit :: "limiter_config \<Rightarrow> limit_counter \<Rightarrow> int" where
  "ip_limit cfg C_session = lc_sessionCreationsPerIp cfg"
| "ip_limit cfg C_autocomplete = lc_autocompletePerIp cfg"
| "ip_limit cfg C_mutation = lc_mutationsPerIp cfg"

fun guest_limit :: "limiter_config \<Rightarrow> limit_counter \<Rightarrow> int" where
  "guest_limit cfg C_autocomplete = lc_autocompletePerGuest cfg"
| "guest_limit cfg _ = lc_mutationsPerGuest cfg"

text \<open>\<^verbatim>\<open>Math.max(1, Math.ceil((resetAt - now) / 1000))\<close>\<close>

definition retry_after :: "limiter_config \<Rightarrow> int \<Rightarrow> int" where
  "retry_after cfg now =
    (let resetAt = (now div lc_windowMs cfg + 1) * lc_windowMs cfg in max 1 (- ((- (resetAt - now)) div 1000)))"

datatype limiter_outcome = LimitPass | LimitReject api_error | LimitDenied int

text \<open>A request as the limiter sees it: its address (\<open>None\<close> when it has none it may use), the guest of its
  session, and what the shared limiter would decide (\<open>None\<close> when there is none).\<close>

record limited_request =
  lq_op :: operation
  lq_ip :: "string option"
  lq_guest :: "string option"
  lq_shared :: "limit_decision option"

definition counted_store :: "limit_counter \<Rightarrow> string \<Rightarrow> string option \<Rightarrow> limiter_state \<Rightarrow> limiter_state" where
  "counted_store counter ip guest st =
    \<lparr>ls_ip = count_entry counter ip (ls_ip st),
     ls_guest = (case guest of None \<Rightarrow> ls_guest st | Some g \<Rightarrow> count_entry counter g (ls_guest st))\<rparr>"

definition rate_limit :: "limiter_config \<Rightarrow> int \<Rightarrow> limited_request \<Rightarrow> limiter_state \<Rightarrow> limiter_outcome \<times> limiter_state" where
  "rate_limit cfg now r st0 =
    (case category (lq_op r) of None \<Rightarrow> (LimitPass, st0)
     | Some counter \<Rightarrow>
       let bucket = now div lc_windowMs cfg;
           st = \<lparr>ls_ip = refresh bucket (ls_ip st0), ls_guest = refresh bucket (ls_guest st0)\<rparr>
       in (case lq_ip r of None \<Rightarrow> (LimitReject REQUEST_FORBIDDEN, st)
           | Some ip \<Rightarrow>
             if counter \<noteq> C_session \<and> lq_guest r = None then (LimitReject AUTHENTICATION_REQUIRED, st)
             else let guest = (if counter = C_session then None else lq_guest r)
               in if limit_denies counter ip (ip_limit cfg counter) (lc_ipCapacity cfg) (ls_ip st) \<or>
                     (case guest of None \<Rightarrow> False
                      | Some g \<Rightarrow> limit_denies counter g (guest_limit cfg counter) (lc_guestCapacity cfg) (ls_guest st))
                  then (LimitDenied (retry_after cfg now), st)
                  else (case lq_shared r of
                      Some (Denied n) \<Rightarrow> (LimitDenied n, counted_store counter ip guest st)
                    | _ \<Rightarrow> (LimitPass, counted_store counter ip guest st))))"

section \<open>The local limiter fulfils the contract\<close>

type_synonym limit_identity = "limit_counter \<times> limit_scope \<times> string"

fun identity_store :: "limit_scope \<Rightarrow> limiter_state \<Rightarrow> window_store" where
  "identity_store S_ip st = ls_ip st"
| "identity_store S_guest st = ls_guest st"

fun request_names :: "limited_request \<Rightarrow> limit_identity \<Rightarrow> bool" where
  "request_names r (c, S_ip, d) = (category (lq_op r) = Some c \<and> lq_ip r = Some d)"
| "request_names r (c, S_guest, d) = (category (lq_op r) = Some c \<and> c \<noteq> C_session \<and> lq_guest r = Some d)"

fun configured_limit :: "limiter_config \<Rightarrow> limit_identity \<Rightarrow> int" where
  "configured_limit cfg (c, S_ip, d) = ip_limit cfg c"
| "configured_limit cfg (c, S_guest, d) = guest_limit cfg c"

definition entry_count :: "window_store \<Rightarrow> limit_counter \<Rightarrow> string \<Rightarrow> int" where
  "entry_count s c d = (case map_of (ws_entries s) d of None \<Rightarrow> 0 | Some e \<Rightarrow> e c)"

definition local_used :: "limiter_config \<Rightarrow> limit_identity \<Rightarrow> int \<Rightarrow> limiter_state \<Rightarrow> int" where
  "local_used cfg i t st =
    (case i of (c, scope, d) \<Rightarrow> entry_count (refresh (t div lc_windowMs cfg) (identity_store scope st)) c d)"

definition local_step :: "limiter_config \<Rightarrow> limiter_state \<Rightarrow> int \<Rightarrow> limited_request \<Rightarrow> limiter_state" where
  "local_step cfg st t r = snd (rate_limit cfg t r st)"

definition local_granted :: "limiter_config \<Rightarrow> limiter_state \<Rightarrow> int \<Rightarrow> limited_request \<Rightarrow> bool" where
  "local_granted cfg st t r = (fst (rate_limit cfg t r st) = LimitPass)"

text \<open>Counts are not negative, and a store holds no more identities than its capacity.\<close>

definition store_within :: "int \<Rightarrow> window_store \<Rightarrow> bool" where
  "store_within capacity s = (distinct (map fst (ws_entries s)) \<and> int (length (ws_entries s)) \<le> capacity \<and> (\<forall>c d. 0 \<le> entry_count s c d))"

definition limiter_ok :: "limiter_config \<Rightarrow> limiter_state \<Rightarrow> bool" where
  "limiter_ok cfg st =
    (0 < lc_windowMs cfg \<and> store_within (lc_ipCapacity cfg) (ls_ip st) \<and> store_within (lc_guestCapacity cfg) (ls_guest st))"

lemma refresh_within: "store_within capacity s \<Longrightarrow> store_within capacity (refresh b s)"
  by (simp add: store_within_def refresh_def entry_count_def)

lemma refresh_twice [simp]: "refresh b (refresh b s) = refresh b s"
  by (simp add: refresh_def)

lemma refresh_count_entry [simp]: "refresh b (count_entry c d (refresh b s)) = count_entry c d (refresh b s)"
  by (simp add: refresh_def count_entry_def Let_def)

lemma entry_count_count_entry:
  "entry_count (count_entry c d s) c' d' = entry_count s c' d' + (if c = c' \<and> d = d' then 1 else 0)"
  by (simp add: entry_count_def count_entry_def Let_def update_conv' split: option.split)

lemma count_entry_within:
  assumes "store_within capacity s" "\<not> limit_denies c d maximum capacity s"
  shows "store_within capacity (count_entry c d s)"
proof -
  have "int (length (AList.update d e (ws_entries s))) \<le> capacity" for e
  proof (cases "map_of (ws_entries s) d")
    case None
    then have "\<not> capacity \<le> int (length (ws_entries s))" using assms(2) by (simp add: limit_denies_def)
    then show ?thesis using None by (simp add: length_update map_of_eq_None_iff)
  next
    case (Some x)
    then have "d \<in> fst ` set (ws_entries s)" by (metis map_of_eq_None_iff option.distinct(1))
    then show ?thesis using assms(1) by (simp add: store_within_def length_update)
  qed
  then show ?thesis
    using assms(1) by (simp add: store_within_def entry_count_count_entry)
      (simp add: count_entry_def Let_def distinct_update)
qed

lemma below_limit: "\<not> limit_denies c d maximum capacity s \<Longrightarrow> entry_count s c d < maximum"
  by (auto simp: limit_denies_def entry_count_def split: option.splits)

definition refreshed :: "int \<Rightarrow> limiter_state \<Rightarrow> limiter_state" where
  "refreshed b st = \<lparr>ls_ip = refresh b (ls_ip st), ls_guest = refresh b (ls_guest st)\<rparr>"

text \<open>What one request does to the stores.\<close>

lemma rate_limit_cases:
  obtains (free) "category (lq_op r) = None" "rate_limit cfg now r st = (LimitPass, st)"
    | (kept) out where "rate_limit cfg now r st = (out, refreshed (now div lc_windowMs cfg) st)" "out \<noteq> LimitPass"
    | (counted) c ip guest out where "category (lq_op r) = Some c" "lq_ip r = Some ip"
      "guest = (if c = C_session then None else lq_guest r)"
      "rate_limit cfg now r st = (out, counted_store c ip guest (refreshed (now div lc_windowMs cfg) st))"
      "\<not> limit_denies c ip (ip_limit cfg c) (lc_ipCapacity cfg) (refresh (now div lc_windowMs cfg) (ls_ip st))"
      "\<And>g. guest = Some g \<Longrightarrow>
        \<not> limit_denies c g (guest_limit cfg c) (lc_guestCapacity cfg) (refresh (now div lc_windowMs cfg) (ls_guest st))"
proof (cases "category (lq_op r)")
  case None
  then show thesis by (intro free) (simp_all add: rate_limit_def)
next
  case (Some c)
  note cat = Some
  show thesis
  proof (cases "lq_ip r")
    case None
    then show thesis using cat by (intro kept [of "LimitReject REQUEST_FORBIDDEN"]) (simp_all add: rate_limit_def refreshed_def Let_def)
  next
    case (Some ip)
    define guest where "guest = (if c = C_session then None else lq_guest r)"
    define denied where "denied \<longleftrightarrow>
        limit_denies c ip (ip_limit cfg c) (lc_ipCapacity cfg) (refresh (now div lc_windowMs cfg) (ls_ip st)) \<or>
        (case guest of None \<Rightarrow> False
         | Some g \<Rightarrow> limit_denies c g (guest_limit cfg c) (lc_guestCapacity cfg) (refresh (now div lc_windowMs cfg) (ls_guest st)))"
    have eq: "rate_limit cfg now r st =
        (if c \<noteq> C_session \<and> lq_guest r = None then (LimitReject AUTHENTICATION_REQUIRED, refreshed (now div lc_windowMs cfg) st)
         else if denied then (LimitDenied (retry_after cfg now), refreshed (now div lc_windowMs cfg) st)
         else (case lq_shared r of Some (Denied n) \<Rightarrow> LimitDenied n | _ \<Rightarrow> LimitPass,
           counted_store c ip guest (refreshed (now div lc_windowMs cfg) st)))"
      using cat Some
      by (simp add: rate_limit_def refreshed_def denied_def guest_def Let_def split: option.split limit_decision.split)
    show thesis
    proof (cases "c \<noteq> C_session \<and> lq_guest r = None \<or> denied")
      case True
      then show thesis using kept eq by (metis limiter_outcome.distinct(1,3))
    next
      case False
      then show thesis
        by (intro counted [OF cat Some guest_def]) (auto simp: eq denied_def)
    qed
  qed
qed

lemma refreshed_ok: "limiter_ok cfg st \<Longrightarrow> limiter_ok cfg (refreshed b st)"
  by (simp add: limiter_ok_def refreshed_def refresh_within)

lemma local_step_ok: "limiter_ok cfg st \<Longrightarrow> limiter_ok cfg (local_step cfg st t r)"
proof (cases rule: rate_limit_cases [of r cfg t st])
  case (counted c ip guest out)
  assume ok: "limiter_ok cfg st"
  let ?b = "t div lc_windowMs cfg"
  have "store_within (lc_ipCapacity cfg) (count_entry c ip (refresh ?b (ls_ip st)))"
    using count_entry_within refresh_within ok counted(5) by (metis limiter_ok_def)
  moreover have "store_within (lc_guestCapacity cfg) (count_entry c g (refresh ?b (ls_guest st)))" if "guest = Some g" for g
    using count_entry_within refresh_within ok counted(6) [OF that] by (metis limiter_ok_def)
  ultimately show ?thesis
    using refreshed_ok [OF ok, of ?b]
    by (simp add: local_step_def counted(4) counted_store_def limiter_ok_def refreshed_def split: option.split)
qed (auto simp: local_step_def refreshed_ok)

lemma local_used_simp: "local_used cfg (c, scope, d) t st = entry_count (refresh (t div lc_windowMs cfg) (identity_store scope st)) c d"
  by (simp add: local_used_def)

lemma local_step_used:
  shows "local_used cfg i t st \<le> local_used cfg i t (local_step cfg st t r)"
    and "local_granted cfg st t r \<Longrightarrow> request_names r i \<Longrightarrow>
      local_used cfg i t st < configured_limit cfg i \<and> local_used cfg i t st + 1 \<le> local_used cfg i t (local_step cfg st t r)"
proof -
  obtain c scope d where i: "i = (c, scope, d)" by (cases i)
  let ?b = "t div lc_windowMs cfg"
  note simps = i local_used_simp local_step_def local_granted_def refreshed_def counted_store_def entry_count_count_entry
  show "local_used cfg i t st \<le> local_used cfg i t (local_step cfg st t r)"
    by (cases rule: rate_limit_cases [of r cfg t st]; cases scope) (auto simp: simps split: option.split)
  assume g: "local_granted cfg st t r" and n: "request_names r i"
  show "local_used cfg i t st < configured_limit cfg i \<and> local_used cfg i t st + 1 \<le> local_used cfg i t (local_step cfg st t r)"
  proof (cases rule: rate_limit_cases [of r cfg t st])
    case free
    then show ?thesis using n i by (cases scope) auto
  next
    case kept
    then show ?thesis using g by (simp add: local_granted_def)
  next
    case (counted c' ip guest out)
    note below = below_limit [OF counted(5)] below_limit [OF counted(6)]
    show ?thesis using n counted(1-4) below by (cases scope) (auto simp: simps)
  qed
qed

interpretation local_limit: window_limiter "local_step cfg" "\<lambda>_. limiter_ok cfg" "local_granted cfg" request_names
  "local_used cfg" "configured_limit cfg" "\<lambda>t. t div lc_windowMs cfg" for cfg
proof
  show "limiter_ok cfg (local_step cfg s t c)" if "limiter_ok cfg s" for t s c
    using local_step_ok [OF that] .
  show "t div lc_windowMs cfg \<le> t' div lc_windowMs cfg" if "limiter_ok cfg s" "t \<le> t'" for t t' s
    using that by (simp add: limiter_ok_def zdiv_mono1)
  show "local_used cfg i t s < configured_limit cfg i" if "local_granted cfg s t c" "request_names c i" for t s c i
    using local_step_used(2) [OF that] by simp
  show "local_used cfg i t s + 1 \<le> local_used cfg i t (local_step cfg s t c)"
    if "local_granted cfg s t c" "request_names c i" for t s c i
    using local_step_used(2) [OF that] by simp
  show "local_used cfg i t s \<le> local_used cfg i t (local_step cfg s t c)" for t s c i
    using local_step_used(1) .
  show "local_used cfg i t s \<le> local_used cfg i t' s" if "t div lc_windowMs cfg = t' div lc_windowMs cfg" for t t' s i
    using that by (simp add: local_used_def)
  show "0 \<le> local_used cfg i t s" if "limiter_ok cfg s" for t s i
  proof -
    obtain c scope d where i: "i = (c, scope, d)" by (cases i)
    show ?thesis using that i refresh_within
      by (cases scope) (simp_all add: local_used_def limiter_ok_def store_within_def refresh_def entry_count_def)
  qed
qed

section \<open>Results\<close>

text \<open>The local limiter keeps its limits: of the requests that name one address or one guest
  for one kind of operation, at most the configured number passes in one window, whatever the others ask,
  whatever the shared limiter answers and wherever in the window the requests fall.\<close>

lemma local_limiter_keeps_the_limit:
  assumes "limiter_ok cfg st" "sorted (t # map fst rs)" "0 \<le> configured_limit cfg i"
  shows "granted_count (local_step cfg) (local_granted cfg) (\<lambda>r. request_names r i) (\<lambda>t. t div lc_windowMs cfg = b) st rs
    \<le> configured_limit cfg i"
  using assms by (rule local_limit.window_bound)

definition sample_limiter :: limiter_config where
  "sample_limiter = \<lparr>lc_windowMs = 60000, lc_ipCapacity = 2, lc_guestCapacity = 2, lc_sessionCreationsPerIp = 1,
     lc_autocompletePerIp = 3, lc_mutationsPerIp = 2, lc_autocompletePerGuest = 2, lc_mutationsPerGuest = 1\<rparr>"

definition sample_limited :: limited_request where
  "sample_limited = \<lparr>lq_op = OP_runGameplayCommand, lq_ip = Some ''10.0.0.1'', lq_guest = Some ''g'', lq_shared = None\<rparr>"

lemma initial_limiter_ok:
  "0 < lc_windowMs cfg \<Longrightarrow> 0 \<le> lc_ipCapacity cfg \<Longrightarrow> 0 \<le> lc_guestCapacity cfg \<Longrightarrow> limiter_ok cfg initial_limiter"
  by (simp add: limiter_ok_def initial_limiter_def store_within_def entry_count_def)

lemma local_limiter_keeps_the_limit_example:
  "granted_count (local_step sample_limiter) (local_granted sample_limiter)
     (\<lambda>r. request_names r (C_mutation, S_guest, ''g'')) (\<lambda>t. t div lc_windowMs sample_limiter = 0) initial_limiter
     [(5, sample_limited), (6, sample_limited), (70000, sample_limited)] \<le> configured_limit sample_limiter (C_mutation, S_guest, ''g'')"
  by (rule local_limiter_keeps_the_limit [where t = 0]) (simp_all add: initial_limiter_ok sample_limiter_def)

text \<open>The memory of the limiter is bounded: no sequence of requests makes a store hold more identities
  than its capacity.\<close>

lemma limiter_memory_is_bounded:
  assumes "limiter_ok cfg st" "sorted (t # map fst rs)"
  shows "int (length (ws_entries (ls_ip (foldl (\<lambda>s (t, r). local_step cfg s t r) st rs)))) \<le> lc_ipCapacity cfg"
    and "int (length (ws_entries (ls_guest (foldl (\<lambda>s (t, r). local_step cfg s t r) st rs)))) \<le> lc_guestCapacity cfg"
  using local_limit.run_good [OF assms] by (simp_all add: limiter_ok_def store_within_def)

text \<open>Whoever waits as long as \<open>Retry-After\<close> says is in a later window, and never waits a full second too long.\<close>

lemma retry_after_reaches_the_next_window:
  assumes "0 < lc_windowMs cfg"
  shows "1 \<le> retry_after cfg now \<and> now div lc_windowMs cfg < (now + 1000 * retry_after cfg now) div lc_windowMs cfg \<and>
    1000 * (retry_after cfg now - 1) < lc_windowMs cfg"
proof -
  define w where "w = lc_windowMs cfg"
  define left where "left = (now div w + 1) * w - now"
  have w: "0 < w" using assms by (simp add: w_def)
  have "(now div w + 1) * w = now - now mod w + w" by (simp add: minus_mod_eq_div_mult distrib_right)
  moreover have "0 \<le> now mod w" "now mod w < w" using w by simp_all
  ultimately have l: "0 < left" "left \<le> w" by (simp_all add: left_def)
  have r: "retry_after cfg now = max 1 (- ((- left) div 1000))" by (simp add: retry_after_def left_def w_def)
  have "left \<le> 1000 * - ((- left) div 1000)" "1000 * (- ((- left) div 1000)) < left + 1000" by linarith+
  then have "left \<le> 1000 * retry_after cfg now" "1000 * (retry_after cfg now - 1) < w"
    using l by (auto simp: r max_def)
  moreover from this have "(now div w + 1) * w \<le> now + 1000 * retry_after cfg now" by (simp add: left_def)
  then have "now div w + 1 \<le> (now + 1000 * retry_after cfg now) div w"
    using w by (metis nonzero_mult_div_cancel_right order_less_irrefl zdiv_mono1)
  ultimately show ?thesis by (auto simp: r w_def)
qed

end
