(* ===== verification/Admission.thy ===== *)
theory Admission
  imports Security
begin

text \<open>
  How a request comes to its handler: its address (\<^verbatim>\<open>apps/api/src/security/source-ip.ts\<close>) and the
  controls \<^verbatim>\<open>app.ts\<close> registers before the handler of an operation, in their order.

  Parameters: the form Node gives an IPv6 address and the membership of an address in the configured
  proxies (\<^verbatim>\<open>net.BlockList\<close>), SHA-256, the database behind \<open>authenticateSession\<close> with its fault, and
  what the shared limiter answers.

  Results: a forwarded address cannot be forged; an operation that needs a session or a CSRF token runs
  its handler only with them.
\<close>

section \<open>Addresses\<close>

text \<open>\<^verbatim>\<open>isIP(address) === 4\<close>: four numbers below 256, written without leading zeros.\<close>

definition ip_octet :: "string \<Rightarrow> bool" where
  "ip_octet s = (s \<noteq> [] \<and> length s \<le> 3 \<and> list_all is_digit s \<and> (length s = 1 \<or> hd s \<noteq> CHR ''0'') \<and> digits_value s \<le> 255)"

definition isIPv4 :: "string \<Rightarrow> bool" where
  "isIPv4 s = (let parts = js_split (CHR ''.'') s in length parts = 4 \<and> list_all ip_octet parts)"

definition lower_hex :: "char \<Rightarrow> nat option" where
  "lower_hex c = (let n = of_char c in if 48 \<le> n \<and> n \<le> 57 then Some (n - 48)
     else if 97 \<le> n \<and> n \<le> 102 then Some (n - 87) else None)"

definition hex_group :: "string \<Rightarrow> bool" where
  "hex_group s = (s \<noteq> [] \<and> length s \<le> 4 \<and> list_all (\<lambda>c. lower_hex c \<noteq> None) s)"

definition hex_group_value :: "string \<Rightarrow> int" where
  "hex_group_value s = foldl (\<lambda>a c. 16 * a + int (the (lower_hex c))) 0 s"

text \<open>The IPv4 address within \<^verbatim>\<open>::ffff:a.b.c.d\<close> or \<^verbatim>\<open>::ffff:hhhh:hhhh\<close>.\<close>

definition mappedIpv4 :: "string \<Rightarrow> string option" where
  "mappedIpv4 address =
    (let low = ascii_lower address; rest = drop 7 low
     in if take 7 low \<noteq> ''::ffff:'' then None
        else if isIPv4 rest then Some rest
        else (case js_split (CHR '':'') rest of
            [h, l] \<Rightarrow> if hex_group h \<and> hex_group l
              then let high = hex_group_value h; lo = hex_group_value l
                in Some (js_join ''.'' (map json_int [high div 256, high mod 256, lo div 256, lo mod 256]))
              else None
          | _ \<Rightarrow> None))"

text \<open>\<open>ip6\<close> is the form the platform gives an IPv6 address, \<open>None\<close> for a text that is none.\<close>

definition canonicalIpAddress :: "(string \<Rightarrow> string option) \<Rightarrow> string \<Rightarrow> string option" where
  "canonicalIpAddress ip6 address =
    (if CHR ''%'' \<in> set address then None
     else (case mappedIpv4 address of
         Some mapped \<Rightarrow> Some mapped
       | None \<Rightarrow> if isIPv4 address then Some (js_join ''.'' (map (\<lambda>p. json_int (digits_value p)) (js_split (CHR ''.'') address)))
           else ip6 address))"

definition MAXIMUM_FORWARDING_HOPS :: nat where
  "MAXIMUM_FORWARDING_HOPS = 32"

text \<open>The loop from the last address to the first: it stops at the first one that is not a proxy.\<close>

fun walk_chain :: "(string \<Rightarrow> bool) \<Rightarrow> string \<Rightarrow> string list \<Rightarrow> string" where
  "walk_chain trusted current [] = current"
| "walk_chain trusted current (a # rest) = (if \<not> trusted current then current else walk_chain trusted a rest)"

definition sourceIpFor :: "(string \<Rightarrow> string option) \<Rightarrow> (string \<Rightarrow> bool) \<Rightarrow> http_request \<Rightarrow> string option" where
  "sourceIpFor ip6 trusted request =
    (case canonicalIpAddress ip6 (rq_remote request) of None \<Rightarrow> None
     | Some peer \<Rightarrow> (case header request ''x-forwarded-for'' of
         None \<Rightarrow> Some peer
       | Some forwarded \<Rightarrow>
           if \<not> trusted peer \<or> rawHeaderCount request ''x-forwarded-for'' \<noteq> 1 then None
           else let chain = js_split (CHR '','') forwarded
             in if length chain < 1 \<or> MAXIMUM_FORWARDING_HOPS < length chain then None
                else let addresses = map (\<lambda>item. canonicalIpAddress ip6 (js_trim item)) chain
                in if None \<in> set addresses then None
                   else Some (walk_chain trusted peer (rev (map the addresses)))))"

section \<open>The controls of an operation\<close>

record kernel =
  kn_origin :: string
  kn_cookies :: cookie_pair
  kn_limiter :: limiter_config
  kn_ip6 :: "string \<Rightarrow> string option"
  kn_trusted :: "string \<Rightarrow> bool"
  kn_sha :: "string \<Rightarrow> string"

text \<open>What surrounds one request: the clocks of the process and of the database, the fault the database may
  answer with, and the decision of the shared limiter.\<close>

record request_world =
  rw_now :: int
  rw_dbNow :: int
  rw_fault :: "database_fault option"
  rw_shared :: "limit_decision option"

datatype admission = Admitted "auth_session option" | Refused api_error | TooMany int

definition admit_operation ::
  "kernel \<Rightarrow> game_db \<Rightarrow> request_world \<Rightarrow> operation \<Rightarrow> http_request \<Rightarrow> limiter_state \<Rightarrow> admission \<times> limiter_state" where
  "admit_operation k db w op request st =
    (case request_policy (kn_origin k) op request of
       Reject e \<Rightarrow> (Refused e, st)
     | Pass \<Rightarrow>
       let auth = auth_control (ck_name (cp_session (kn_cookies k)))
           (\<lambda>token. authenticateSession (kn_sha k) (rw_dbNow w) (rw_fault w) token db) (rw_now w) op request
       in (case ao_verdict auth of
            Reject e \<Rightarrow> (Refused e, st)
          | Pass \<Rightarrow> (case csrf_control (ck_name (cp_csrf (kn_cookies k))) (verifySessionCsrfToken (kn_sha k)) (ao_session auth) op request of
              Reject e \<Rightarrow> (Refused e, st)
            | Pass \<Rightarrow>
                (case rate_limit (kn_limiter k) (rw_now w)
                     \<lparr>lq_op = op, lq_ip = sourceIpFor (kn_ip6 k) (kn_trusted k) request,
                      lq_guest = map_option as_guest (ao_session auth), lq_shared = rw_shared w\<rparr> st of
                   (LimitPass, st') \<Rightarrow> (Admitted (ao_session auth), st')
                 | (LimitReject e, st') \<Rightarrow> (Refused e, st')
                 | (LimitDenied n, st') \<Rightarrow> (TooMany n, st')))))"

section \<open>Results\<close>

lemma walk_chain_stops:
  "trusted peer \<Longrightarrow> list_all trusted proxies \<Longrightarrow> \<not> trusted client \<Longrightarrow>
    walk_chain trusted peer (proxies @ client # forged) = client"
proof (induction proxies arbitrary: peer)
  case Nil
  then show ?case by (cases forged) simp_all
qed simp

lemma admitted_cases:
  assumes "admit_operation k db w op request st = (Admitted s, st')"
  shows "request_policy (kn_origin k) op request = Pass"
    and "\<exists>c. auth_control (ck_name (cp_session (kn_cookies k)))
        (\<lambda>token. authenticateSession (kn_sha k) (rw_dbNow w) (rw_fault w) token db) (rw_now w) op request =
      \<lparr>ao_session = s, ao_verdict = Pass, ao_clears = c\<rparr>"
    and "csrf_control (ck_name (cp_csrf (kn_cookies k))) (verifySessionCsrfToken (kn_sha k)) s op request = Pass"
proof -
  define auth where "auth = auth_control (ck_name (cp_session (kn_cookies k)))
    (\<lambda>token. authenticateSession (kn_sha k) (rw_dbNow w) (rw_fault w) token db) (rw_now w) op request"
  note d = assms [unfolded admit_operation_def Let_def, folded auth_def]
  show p: "request_policy (kn_origin k) op request = Pass" using d by (auto split: verdict.splits)
  have a: "ao_verdict auth = Pass" using d p by (auto split: verdict.splits)
  have c: "csrf_control (ck_name (cp_csrf (kn_cookies k))) (verifySessionCsrfToken (kn_sha k)) (ao_session auth) op request = Pass"
    using d p a by (auto split: verdict.splits)
  have s: "ao_session auth = s" using d p a c by (auto split: prod.splits limiter_outcome.splits)
  show "\<exists>c. auth_control (ck_name (cp_session (kn_cookies k)))
        (\<lambda>token. authenticateSession (kn_sha k) (rw_dbNow w) (rw_fault w) token db) (rw_now w) op request =
      \<lparr>ao_session = s, ao_verdict = Pass, ao_clears = c\<rparr>"
    using a s unfolding auth_def [symmetric] by (cases auth) auto
  show "csrf_control (ck_name (cp_csrf (kn_cookies k))) (verifySessionCsrfToken (kn_sha k)) s op request = Pass"
    using c s by simp
qed

lemma policy_passed:
  assumes "request_policy origin op request = Pass" "operation_auth op = AUTH_GAMEPLAY_MUTATION"
  shows "rawHeaderCount request ''origin'' = 1 \<and> header request ''origin'' = Some origin"
  using assms by (auto simp: request_policy_def Let_def split: if_splits)

lemma auth_passed:
  assumes "auth_control cookie authenticate now op request = \<lparr>ao_session = s, ao_verdict = Pass, ao_clears = c\<rparr>"
    and "operation_auth op = AUTH_SESSION \<or> operation_auth op = AUTH_GAMEPLAY_MUTATION"
  obtains token a where "readUniqueCookie request cookie = CookieValue token" "secret_form token"
    "authenticate token = Inr (Some a)" "now < as_expiresAt a" "s = Some a"
proof -
  have "\<not> (operation_auth op = AUTH_NONE \<or> operation_auth op = AUTH_BOOTSTRAP)" using assms(2) by auto
  then show thesis
    using assms(1) that
    by (auto simp: auth_control_def Let_def split: read_cookie.splits if_splits sum.splits session_error.splits option.splits)
qed

lemma csrf_passed:
  assumes "csrf_control cookie verify s op request = Pass" "operation_auth op = AUTH_GAMEPLAY_MUTATION"
  obtains a token where "s = Some a" "header request ''x-csrf-token'' = Some token"
    "readUniqueCookie request cookie = CookieValue token" "secret_form token" "verify a token"
  using assms by (auto simp: csrf_control_def split: option.splits read_cookie.splits if_splits)

text \<open>The stored session behind a request, with the secrets it presented.\<close>

definition session_backs :: "kernel \<Rightarrow> game_db \<Rightarrow> request_world \<Rightarrow> string \<Rightarrow> auth_session \<Rightarrow> bool" where
  "session_backs k db w token a =
    list_ex (\<lambda>r. se_tokenHash r = kn_sha k token \<and> se_id r = as_session a \<and> se_guest r = as_guest a \<and>
      se_csrfHash r = as_csrfHash a \<and> rw_now w < se_expiresAt r \<and> rw_dbNow w < se_expiresAt r) (sessions db)"

lemma authenticated_backs:
  assumes "authenticateSession (kn_sha k) (rw_dbNow w) fault token db = Inr (Some a)" "rw_now w < as_expiresAt a"
  shows "session_backs k db w token a"
proof -
  have "session_lookup (rw_dbNow w) (kn_sha k token) db = Some a"
    using assms(1) by (auto simp: authenticateSession_def split: if_splits option.splits database_fault.splits)
  then show ?thesis
    using assms(2) by (auto simp: session_lookup_def session_backs_def list_ex_iff dest!: find_Some_key split: option.splits)
qed

text \<open>Property C26. No mutation without its session: a request that reaches the handler of a gameplay mutation
  came with the configured origin in its only origin field, with one session cookie whose hash is that
  of a stored session neither clock holds to be over, and with the CSRF token of that very session in
  both the cookie and the header; the handler acts for the guest of that session. The handler of an
  operation that only reads is reached with a stored, live session too.\<close>

theorem handlers_run_with_their_session:
  assumes "admit_operation k db w op request st = (Admitted s, st')"
    and "operation_auth op = AUTH_SESSION \<or> operation_auth op = AUTH_GAMEPLAY_MUTATION"
  shows "\<exists>token a. readUniqueCookie request (ck_name (cp_session (kn_cookies k))) = CookieValue token \<and> s = Some a \<and>
    session_backs k db w token a \<and>
    (case operation_auth op of
       AUTH_GAMEPLAY_MUTATION \<Rightarrow>
         header request ''origin'' = Some (kn_origin k) \<and> rawHeaderCount request ''origin'' = 1 \<and>
         (\<exists>csrf. header request ''x-csrf-token'' = Some csrf \<and>
           readUniqueCookie request (ck_name (cp_csrf (kn_cookies k))) = CookieValue csrf \<and> kn_sha k csrf = as_csrfHash a)
     | _ \<Rightarrow> True)"
proof -
  obtain token a where a: "readUniqueCookie request (ck_name (cp_session (kn_cookies k))) = CookieValue token"
    "authenticateSession (kn_sha k) (rw_dbNow w) (rw_fault w) token db = Inr (Some a)" "rw_now w < as_expiresAt a" "s = Some a"
    using admitted_cases(2) [OF assms(1)] auth_passed assms(2) by metis
  then have b: "session_backs k db w token a" using authenticated_backs by blast
  show ?thesis
  proof (cases "operation_auth op = AUTH_GAMEPLAY_MUTATION")
    case True
    obtain b csrf where "s = Some b" "header request ''x-csrf-token'' = Some csrf"
      "readUniqueCookie request (ck_name (cp_csrf (kn_cookies k))) = CookieValue csrf"
      "verifySessionCsrfToken (kn_sha k) b csrf"
      using csrf_passed [OF admitted_cases(3) [OF assms(1)] True] by metis
    then show ?thesis
      using a b True policy_passed [OF admitted_cases(1) [OF assms(1)] True] by (auto simp: verifySessionCsrfToken_def)
  next
    case False
    then have "operation_auth op = AUTH_SESSION" using assms(2) by blast
    then show ?thesis using a b by simp
  qed
qed

definition sample_cookie :: "string \<Rightarrow> cookie_config" where
  "sample_cookie name = \<lparr>ck_name = name, ck_path = ''/'', ck_httpOnly = True, ck_secure = True\<rparr>"

definition sample_kernel :: kernel where
  "sample_kernel = \<lparr>kn_origin = ''https://game.example'',
     kn_cookies = \<lparr>cp_csrf = sample_cookie ''csrf'', cp_session = sample_cookie ''session''\<rparr>,
     kn_limiter = sample_limiter, kn_ip6 = (\<lambda>_. None), kn_trusted = (\<lambda>a. a = ''10.0.0.1''), kn_sha = (\<lambda>s. s)\<rparr>"

definition sample_world :: request_world where
  "sample_world = \<lparr>rw_now = 1000, rw_dbNow = 1000, rw_fault = None, rw_shared = None\<rparr>"

definition session_store :: game_db where
  "session_store = insert_session (\<lambda>s. s) 10 sample_draw (small_store initial_attempt)"

definition sample_mutation :: http_request where
  "sample_mutation = \<lparr>rq_method = ''POST'', rq_headers =
     [(''Origin'', ''https://game.example''), (''X-CSRF-Token'', sample_secret (CHR ''c'')),
      (''Cookie'', ''session='' @ sample_secret (CHR ''t'') @ ''; csrf='' @ sample_secret (CHR ''c''))],
     rq_remote = ''10.0.0.9''\<rparr>"

theorem handlers_run_with_their_session_witness:
  "case admit_operation sample_kernel session_store sample_world OP_runGameplayCommand sample_mutation initial_limiter of
     (Admitted (Some a), _) \<Rightarrow> session_backs sample_kernel session_store sample_world (sample_secret (CHR ''t'')) a
   | _ \<Rightarrow> False"
proof -
  let ?r = "admit_operation sample_kernel session_store sample_world OP_runGameplayCommand sample_mutation initial_limiter"
  have "fst ?r = Admitted (Some (auth_session.truncate (created_of (\<lambda>s. s) 10 sample_draw)))" by code_simp
  then obtain st where r: "?r = (Admitted (Some (auth_session.truncate (created_of (\<lambda>s. s) 10 sample_draw))), st)"
    by (metis prod.collapse)
  have c: "readUniqueCookie sample_mutation (ck_name (cp_session (kn_cookies sample_kernel))) = CookieValue (sample_secret (CHR ''t''))"
    by code_simp
  show ?thesis
    using handlers_run_with_their_session [OF r] r c by auto
qed

text \<open>Property C29. A client cannot choose its address: behind a trusted peer and any number of trusted
  proxies, each of which appended the address it was called from, the address found is the one the
  outermost proxy saw, whatever the client had put into the header itself.\<close>

theorem forwarded_address_cannot_be_forged:
  assumes "canonicalIpAddress ip6 (rq_remote request) = Some peer" "trusted peer"
    and "header_values request ''x-forwarded-for'' = [js_join '','' (forged @ client # proxies)]"
    and "length (forged @ client # proxies) \<le> 32" "\<forall>p \<in> set (forged @ client # proxies). CHR '','' \<notin> set p"
    and "canonicalIpAddress ip6 (js_trim client) = Some c" "\<not> trusted c"
    and "\<forall>p \<in> set proxies. \<exists>a. canonicalIpAddress ip6 (js_trim p) = Some a \<and> trusted a"
  shows "sourceIpFor ip6 trusted request =
    (if list_all (\<lambda>p. canonicalIpAddress ip6 (js_trim p) \<noteq> None) forged then Some c else None)"
proof -
  define f where "f = (\<lambda>p. canonicalIpAddress ip6 (js_trim p))"
  let ?chain = "forged @ client # proxies"
  have h: "header request ''x-forwarded-for'' = Some (js_join '','' ?chain)" "rawHeaderCount request ''x-forwarded-for'' = 1"
    using assms(3) by (simp_all add: header_def rawHeaderCount_def)
  have split: "js_split (CHR '','') (js_join '','' ?chain) = ?chain" using assms(5) by (intro js_split_join) auto
  have fc: "f client = Some c" and fp: "list_all (\<lambda>p. f p \<noteq> None) proxies" "list_all trusted (map (the \<circ> f) (rev proxies))"
    using assms(6,8) by (force simp: f_def list_all_iff)+
  have eq: "sourceIpFor ip6 trusted request =
      (if None \<in> set (map f ?chain) then None else Some (walk_chain trusted peer (rev (map the (map f ?chain)))))"
    using assms(1,2,4) h by (simp add: sourceIpFor_def split Let_def MAXIMUM_FORWARDING_HOPS_def f_def [symmetric])
  have n: "None \<in> set (map f ?chain) \<longleftrightarrow> \<not> list_all (\<lambda>p. f p \<noteq> None) forged"
    using fc fp(1) by (auto simp: list_all_iff image_iff) (metis not_None_eq)+
  have "walk_chain trusted peer (map (the \<circ> f) (rev proxies) @ c # rev (map (the \<circ> f) forged)) = c"
    using assms(2,7) fp(2) by (intro walk_chain_stops) simp_all
  then have "walk_chain trusted peer (rev (map the (map f ?chain))) = c" using fc by (simp add: rev_map)
  moreover have "canonicalIpAddress ip6 (js_trim p) = f p" for p by (simp add: f_def)
  ultimately show ?thesis unfolding eq n by simp
qed

definition forwarded_request :: http_request where
  "forwarded_request = \<lparr>rq_method = ''GET'',
     rq_headers = [(''X-Forwarded-For'', ''1.1.1.1, 203.0.113.7,10.0.0.1'')], rq_remote = ''::ffff:10.0.0.1''\<rparr>"

theorem forwarded_address_cannot_be_forged_witness:
  "sourceIpFor (\<lambda>_. None) (\<lambda>a. a = ''10.0.0.1'') forwarded_request = Some ''203.0.113.7''"
proof -
  have "list_all (\<lambda>p. canonicalIpAddress (\<lambda>_. None) (js_trim p) \<noteq> None) [''1.1.1.1'']" by code_simp
  moreover have "canonicalIpAddress (\<lambda>_. None) (rq_remote forwarded_request) = Some ''10.0.0.1''" by code_simp
  moreover have "header_values forwarded_request ''x-forwarded-for'' =
      [js_join '','' ([''1.1.1.1''] @ '' 203.0.113.7'' # [''10.0.0.1''])]" by code_simp
  moreover have "canonicalIpAddress (\<lambda>_. None) (js_trim '' 203.0.113.7'') = Some ''203.0.113.7''" by code_simp
  moreover have "canonicalIpAddress (\<lambda>_. None) (js_trim ''10.0.0.1'') = Some ''10.0.0.1''" by code_simp
  ultimately show ?thesis
    using forwarded_address_cannot_be_forged [of "\<lambda>_. None" forwarded_request "''10.0.0.1''" "\<lambda>a. a = ''10.0.0.1''"
        "[''1.1.1.1'']" "'' 203.0.113.7''" "[''10.0.0.1'']" "''203.0.113.7''"] by simp
qed

end
