(* ===== verification/Response_Schema.thy ===== *)
theory Response_Schema
  imports Gameplay_Theorems Leaderboard_Page
begin

text \<open>
  The response schemas of \<^verbatim>\<open>packages/contracts/src/schemas.ts\<close> for attempts and commands. The kernel
  answers with an internal error when a handler's body does not pass the schema of its operation, so a
  command that was committed must also project to a body its schema accepts.

  The schemas are predicates on the typed projections: the shape of a strict object is that of its
  record, what remains are the bounds and the refinements. The identifier and timestamp checks of the
  schema library are parameters (\<open>zod\<close>).

  Result: on published content within the limits of the contract, every successful start or command
  answers a body that passes, whatever was played before.
\<close>

section \<open>The schemas\<close>

record zod =
  z_uuid :: "string \<Rightarrow> bool"
  z_datetime :: "string \<Rightarrow> bool"

definition sized :: "nat \<Rightarrow> nat \<Rightarrow> 'a list \<Rightarrow> bool" where
  "sized lo hi s \<longleftrightarrow> lo \<le> length s \<and> length s \<le> hi"

definition lower_letter :: "char \<Rightarrow> bool" where
  "lower_letter c \<longleftrightarrow> (let n = (of_char c :: nat) in 97 \<le> n \<and> n \<le> 122)"

text \<open>\<^verbatim>\<open>^[a-z][a-z0-9_-]{0,63}$\<close>\<close>

definition entityIdSchema :: "string \<Rightarrow> bool" where
  "entityIdSchema s \<longleftrightarrow> sized 1 64 s \<and> lower_letter (hd s) \<and>
    list_all (\<lambda>c. lower_letter c \<or> is_digit c \<or> c = CHR ''_'' \<or> c = CHR ''-'') (tl s)"

definition safeNonNegativeIntegerSchema :: "int \<Rightarrow> bool" where
  "safeNonNegativeIntegerSchema i \<longleftrightarrow> 0 \<le> i \<and> i \<le> MAX_SAFE_INTEGER"

definition publicEntitySuggestionSchema :: "entity_suggestion \<Rightarrow> bool" where
  "publicEntitySuggestionSchema s \<longleftrightarrow> entityIdSchema (es_entityId s) \<and> sized 1 80 (es_canonicalName s) \<and>
    sized 1 160 (es_publicRole s) \<and> sized 1 8 (es_aliases s) \<and> list_all (sized 1 80) (es_aliases s)"

definition publicGuessSchema :: "zod \<Rightarrow> public_guess \<Rightarrow> bool" where
  "publicGuessSchema z g \<longleftrightarrow> entityIdSchema (pub_entityId g) \<and> z_datetime z (pub_guessedAt g)"

definition publicEvidenceSchema :: "'a public_evidence_scheme \<Rightarrow> bool" where
  "publicEvidenceSchema e \<longleftrightarrow> pe_level e \<in> {1, 2, 3, 4} \<and> sized 1 1000 (pe_text e)"

definition terminalEvidenceSchema :: "private_evidence \<Rightarrow> bool" where
  "terminalEvidenceSchema e \<longleftrightarrow> publicEvidenceSchema e \<and> sized 1 1500 (pe_explanation e) \<and>
    sized 1 16 (pe_sourceReferences e) \<and> list_all (sized 1 128) (pe_sourceReferences e)"

definition attemptProjectionBase :: "zod \<Rightarrow> projection_base \<Rightarrow> bool" where
  "attemptProjectionBase z b \<longleftrightarrow> z_uuid z (pb_attemptId b) \<and> safeNonNegativeIntegerSchema (pb_version b) \<and>
    z_datetime z (pb_startedAt b) \<and> z_datetime z (pb_closesAt b) \<and>
    pb_evidenceLevel b \<in> {0, 1, 2, 3, 4} \<and> pb_wrongGuessesAtLevel b \<in> {0, 1, 2} \<and>
    0 \<le> pb_totalWrongGuesses b \<and> pb_totalWrongGuesses b \<le> 15 \<and> sized 1 2000 (pb_briefing b) \<and>
    sized 2 32 (pb_suggestions b) \<and> list_all publicEntitySuggestionSchema (pb_suggestions b) \<and>
    sized 0 15 (pb_guessHistory b) \<and> list_all (publicGuessSchema z) (pb_guessHistory b)"

definition countersAreReachable :: "projection_base \<Rightarrow> bool" where
  "countersAreReachable b \<longleftrightarrow> pb_wrongGuessesAtLevel b \<le> pb_totalWrongGuesses b \<and>
    pb_totalWrongGuesses b \<le> pb_evidenceLevel b * 3 + pb_wrongGuessesAtLevel b"

definition levels_from_one :: "'a public_evidence_scheme list \<Rightarrow> bool" where
  "levels_from_one es \<longleftrightarrow> map pe_level es = map (\<lambda>i. int i + 1) [0..<length es]"

definition activeAttemptProjectionSchema :: "zod \<Rightarrow> projection_base \<Rightarrow> public_evidence list \<Rightarrow> bool" where
  "activeAttemptProjectionSchema z b es \<longleftrightarrow> attemptProjectionBase z b \<and> pb_state b = ACTIVE \<and>
    sized 0 4 es \<and> list_all publicEvidenceSchema es \<and> countersAreReachable b \<and>
    int (length es) = pb_evidenceLevel b \<and> levels_from_one es"

definition terminalAttemptProjectionSchema ::
  "zod \<Rightarrow> projection_base \<Rightarrow> entity_suggestion \<Rightarrow> private_evidence list \<Rightarrow> bool" where
  "terminalAttemptProjectionSchema z b answer es \<longleftrightarrow> attemptProjectionBase z b \<and> pb_state b \<noteq> ACTIVE \<and>
    publicEntitySuggestionSchema answer \<and> length es = 4 \<and> list_all terminalEvidenceSchema es \<and> levels_from_one es \<and>
    (if pb_state b = EXHAUSTED
     then pb_evidenceLevel b = 4 \<and> pb_wrongGuessesAtLevel b = 2 \<and> pb_totalWrongGuesses b = 15
     else countersAreReachable b)"

definition attemptProjectionSchema :: "zod \<Rightarrow> case_projection \<Rightarrow> bool" where
  "attemptProjectionSchema z p \<longleftrightarrow>
    (case p of ActiveAttempt b es \<Rightarrow> activeAttemptProjectionSchema z b es
     | TerminalAttempt b answer es \<Rightarrow> terminalAttemptProjectionSchema z b answer es
     | _ \<Rightarrow> False)"

definition caseProjectionSchema :: "zod \<Rightarrow> case_projection \<Rightarrow> bool" where
  "caseProjectionSchema z p \<longleftrightarrow>
    (case p of NoCase \<Rightarrow> True
     | NotStarted s \<Rightarrow> validSlotId (ps_slotId s) \<and> z_datetime z (ps_opensAt s) \<and> z_datetime z (ps_closesAt s)
     | _ \<Rightarrow> attemptProjectionSchema z p)"

fun projection_state :: "case_projection \<Rightarrow> attempt_state option" where
  "projection_state (ActiveAttempt b es) = Some (pb_state b)"
| "projection_state (TerminalAttempt b answer es) = Some (pb_state b)"
| "projection_state _ = None"

text \<open>The union of \<^verbatim>\<open>commandResponseSchema\<close>: a replay answers any attempt, a fresh outcome an attempt in the
  states it can lead to.\<close>

definition commandResponseSchema :: "zod \<Rightarrow> outcome_code \<Rightarrow> case_projection \<Rightarrow> bool \<Rightarrow> bool" where
  "commandResponseSchema z outcome p replayed \<longleftrightarrow> attemptProjectionSchema z p \<and>
    (if replayed then outcome \<in> {O_CORRECT, O_WRONG, O_REVEALED, O_GIVEN_UP}
     else (case outcome of
        O_CORRECT \<Rightarrow> projection_state p = Some SOLVED
      | O_GIVEN_UP \<Rightarrow> projection_state p = Some GIVEN_UP
      | O_REVEALED \<Rightarrow> projection_state p = Some ACTIVE
      | O_WRONG \<Rightarrow> projection_state p = Some ACTIVE \<or> projection_state p = Some EXHAUSTED
      | O_STARTED \<Rightarrow> False))"

definition startAttemptResponseSchema :: "zod \<Rightarrow> outcome_code \<Rightarrow> case_projection \<Rightarrow> bool \<Rightarrow> bool" where
  "startAttemptResponseSchema z outcome p replayed \<longleftrightarrow> outcome = O_STARTED \<and> attemptProjectionSchema z p"

section \<open>Content within the limits\<close>

text \<open>The instants of the years 0 to 9999.\<close>

definition FIRST_INSTANT :: int where
  "FIRST_INSTANT = - 62167219200000"

definition LAST_INSTANT :: int where
  "LAST_INSTANT = 253402300800000"

definition instant_ok :: "int \<Rightarrow> bool" where
  "instant_ok t \<longleftrightarrow> FIRST_INSTANT \<le> t \<and> t < LAST_INSTANT"

definition public_entity :: "game_db \<Rightarrow> entity_row \<Rightarrow> bool" where
  "public_entity db e \<longleftrightarrow> sized 1 80 (en_name e) \<and> sized 1 160 (en_role e) \<and>
    (let as = filter (\<lambda>a. al_revision a = en_revision e \<and> al_entity a = en_id e) (aliases db)
     in sized 1 8 as \<and> list_all (\<lambda>a. sized 1 80 (al_alias a)) as)"

definition public_revision :: "game_db \<Rightarrow> revision_row \<Rightarrow> bool" where
  "public_revision db r \<longleftrightarrow> validSlotId (rv_slot r) \<and> instant_ok (rv_opens r) \<and> instant_ok (rv_closes r) \<and>
    sized 1 2000 (rv_briefing r) \<and>
    (let es = filter (\<lambda>e. en_revision e = rv_id r \<and> en_eligible e) (entities db)
     in sized 2 32 es \<and> list_all (public_entity db) es) \<and>
    list_all (\<lambda>e. ev_revision e = rv_id r \<longrightarrow> sized 1 1000 (ev_text e) \<and> sized 1 1500 (ev_explanation e)) (evidences db) \<and>
    (let ss = filter (\<lambda>s. so_revision s = rv_id r) (case_sources db)
     in sized 1 16 ss \<and> list_all (\<lambda>s. sized 1 128 (so_id s)) ss)"

definition public_content :: "game_db \<Rightarrow> bool" where
  "public_content db \<longleftrightarrow> list_all (\<lambda>e. entityIdSchema (en_publicId e)) (entities db) \<and>
    list_all (\<lambda>r. rv_published r \<longrightarrow> public_revision db r) (revisions db)"

text \<open>An attempt's version counts its moves, of which it has at most fifteen.\<close>

definition attempt_fits :: "zod \<Rightarrow> attempt_row \<Rightarrow> bool" where
  "attempt_fits z a \<longleftrightarrow> z_uuid z (at_id a) \<and> instant_ok (at_started a) \<and>
    at_version a + int (moves_left (at_snapshot a)) \<le> 15"

definition serving :: "zod \<Rightarrow> game_db \<Rightarrow> bool" where
  "serving z db \<longleftrightarrow> store_ok db \<and> public_content db \<and> list_all (attempt_fits z) (attempts db) \<and>
    list_all (\<lambda>g. instant_ok (gs_at g)) (guesses db)"

definition env_fits :: "zod \<Rightarrow> store_env \<Rightarrow> bool" where
  "env_fits z env \<longleftrightarrow> instant_ok (now_sample env) \<and> z_uuid z (uuid_attempt env)"

text \<open>What the schema library accepts as a timestamp includes what \<^verbatim>\<open>Date.prototype.toISOString\<close> writes for
  the years of four digits.\<close>

definition accepts_instants :: "zod \<Rightarrow> bool" where
  "accepts_instants z \<longleftrightarrow> (\<forall>t. instant_ok t \<longrightarrow> z_datetime z (iso_timestamp t))"

section \<open>A projection of served content passes\<close>

lemma filter_js_sort: "set (filter p (js_sort cmp xs)) = set (filter p xs)" "length (filter p (js_sort cmp xs)) = length (filter p xs)"
proof -
  show "set (filter p (js_sort cmp xs)) = set (filter p xs)" by simp
  have "mset (filter p (js_sort cmp xs)) = mset (filter p xs)" by (simp only: mset_filter mset_js_sort)
  then show "length (filter p (js_sort cmp xs)) = length (filter p xs)" by (rule mset_eq_length)
qed

lemma suggestion_passes:
  assumes "public_entity db e" "entityIdSchema (en_publicId e)"
  shows "publicEntitySuggestionSchema (suggestion_of env db e)"
proof -
  let ?as = "filter (\<lambda>a. al_revision a = en_revision e \<and> al_entity a = en_id e) (aliases db)"
  let ?bs = "filter (\<lambda>a. al_entity a = en_id e) (js_sort (\<lambda>a b. collate env (al_alias a) (al_alias b))
      (filter (\<lambda>a. al_revision a = en_revision e) (aliases db)))"
  have b: "set ?bs = set ?as" "length ?bs = length ?as"
    unfolding filter_js_sort by (auto simp: conj_commute)
  have "es_aliases (suggestion_of env db e) = map al_alias ?bs" by (simp add: suggestion_of_def)
  then have "sized 1 8 (es_aliases (suggestion_of env db e))" "list_all (sized 1 80) (es_aliases (suggestion_of env db e))"
    using assms(1) b(2) unfolding list_all_iff set_map b(1) [symmetric]
    by (auto simp: public_entity_def Let_def sized_def list_all_iff)
  then show ?thesis using assms by (simp add: publicEntitySuggestionSchema_def suggestion_of_def public_entity_def)
qed

lemma map_level_fields: "map pe_level (map projectPublicEvidence es) = map pe_level es"
  "map pe_level (map projectTerminalEvidence es) = map pe_level es"
  by (simp_all add: projectPublicEvidence_def projectTerminalEvidence_def public_evidence.defs)

lemma levels_take: "ordered_evidence es \<Longrightarrow> levels_from_one (take n es)" "ordered_evidence es \<Longrightarrow> length es = 4"
proof -
  assume o: "ordered_evidence es"
  then show l: "length es = 4" by (auto simp: ordered_evidence_def dest: arg_cong [of _ _ length])
  have "map pe_level es = map (\<lambda>i. int i + 1) [0..<4]" using o by (simp add: ordered_evidence_def upt_rec)
  then have "map pe_level (take n es) = take n (map (\<lambda>i. int i + 1) [0..<4])" by (simp only: take_map [symmetric])
  then show "levels_from_one (take n es)" using l by (simp add: levels_from_one_def take_map take_upt min_def)
qed

lemma length_concat_le: "(\<And>x. length (f x) \<le> 1) \<Longrightarrow> length (concat (map f xs)) \<le> length xs"
proof (induction xs)
  case (Cons x xs)
  then have "length (f x) + length (concat (map f xs)) \<le> 1 + length xs" by (intro add_mono) auto
  then show ?case by simp
qed simp

lemma guess_history_passes:
  assumes "store_ok db" "public_content db" "list_all (\<lambda>g. instant_ok (gs_at g)) (guesses db)" "accepts_instants z"
  shows "sized 0 15 (guess_history i g db)"
    and "x \<in> set (guess_history i g db) \<Longrightarrow> entityIdSchema (pg_entityId x) \<and> z_datetime z (pg_guessedAt x)"
proof -
  let ?gs = "filter (\<lambda>g. gs_attempt g = i) (guesses db)"
  have ok: "guesses_ok None db" using assms(1) by (simp add: store_ok_def)
  have "distinct (map gs_number ?gs)"
    using ok by (auto simp: guesses_ok_def distinct_map distinct_filter inj_on_def)
  then have "length ?gs = card (set (map gs_number ?gs))" by (metis distinct_card length_map)
  also have "\<dots> \<le> card {1..15::int}" using ok by (intro card_mono) (auto simp: guesses_ok_def)
  finally have "length ?gs \<le> 15" by simp
  moreover have "length (guess_history i g db) \<le> length (js_sort (\<lambda>a b. gs_number a - gs_number b) ?gs)"
    unfolding guess_history_def by (rule length_concat_le) (simp split: option.split)
  ultimately show "sized 0 15 (guess_history i g db)" by (simp add: sized_def)
  show "entityIdSchema (pg_entityId x) \<and> z_datetime z (pg_guessedAt x)" if x: "x \<in> set (guess_history i g db)"
  proof -
    from x obtain y e where y: "y \<in> set (guesses db)" "find (\<lambda>e. en_revision e = gs_revision y \<and> en_id e = gs_entity y) (entities db) = Some e"
      "pg_entityId x = en_publicId e" "pg_guessedAt x = iso_timestamp (gs_at y)"
      by (auto simp: guess_history_def split: option.splits) (metis+)
    moreover have "e \<in> set (entities db)" using find_Some_key [OF y(2)] by simp
    ultimately show ?thesis using assms(2-4) by (auto simp: public_content_def accepts_instants_def list_all_iff)
  qed
qed

lemma base_passes:
  assumes "serving z db" "accepts_instants z" "a \<in> set (attempts db)" "instant_ok cl"
    and "sized 1 2000 (cf_briefing cf)" "sized 2 32 (cf_suggestions cf)" "list_all publicEntitySuggestionSchema (cf_suggestions cf)"
    and "cf_closesAt cf = iso_timestamp cl" "r = \<lparr>pa_attemptId = at_id a, pa_ownerGuestId = at_guest a, pa_slotId = at_slot a,
      pa_revisionId = at_revision a, pa_version = at_version a, pa_startedAt = iso_timestamp (at_started a),
      pa_snapshotAt = iso_timestamp sm, pa_attempt = at_snapshot a, pa_guesses = guess_history (at_id a) g db\<rparr>"
  shows "attemptProjectionBase z (projectAttemptBase cf r)"
proof -
  have st: "store_ok db" "public_content db" "attempt_fits z a" "list_all (\<lambda>g. instant_ok (gs_at g)) (guesses db)"
    using assms(1,3) by (auto simp: serving_def list_all_iff)
  have c: "attempt_checks a" "valid_snapshot (at_snapshot a)"
    using st(1) assms(3) by (auto simp: store_ok_def store_core_def attempts_ok_def attempt_checks_def)
  have id: "map projectPublicSuggestion ss = ss" for ss by (simp add: projectPublicSuggestion_def map_idI)
  note g = guess_history_passes [OF st(1,2,4) assms(2)]
  have "safeNonNegativeIntegerSchema (at_version a)"
    using st(3) c(1) by (simp add: attempt_fits_def attempt_checks_def safeNonNegativeIntegerSchema_def MAX_SAFE_INTEGER_def)
  moreover have "evidenceLevel (at_snapshot a) \<in> {0, 1, 2, 3, 4}" "wrongGuessesAtLevel (at_snapshot a) \<in> {0, 1, 2}"
    "0 \<le> totalWrongGuesses (at_snapshot a)" "totalWrongGuesses (at_snapshot a) \<le> 15"
    using c by (auto simp: valid_snapshot_def attempt_checks_def split: if_splits)
  moreover have "list_all (publicGuessSchema z) (pb_guessHistory (projectAttemptBase cf r))"
    using g(2) by (auto simp: projectAttemptBase_def assms(9) list_all_iff publicGuessSchema_def)
  ultimately show ?thesis
    using assms(2,4-8) st(3) g(1)
    by (simp add: attemptProjectionBase_def projectAttemptBase_def assms(9) id attempt_fits_def accepts_instants_def sized_def)
qed

lemma case_passes:
  assumes "serving z db" "r \<in> set (revisions db)" "rv_published r" "hydrateCase env (rv_id r) db = Inr cf"
  shows "sized 1 2000 (cf_briefing cf)" "sized 2 32 (cf_suggestions cf)" "list_all publicEntitySuggestionSchema (cf_suggestions cf)"
    "cf_closesAt cf = iso_timestamp (rv_closes r)" "ordered_evidence (cf_evidence cf)"
    "list_all (\<lambda>e. pe_level e \<in> {1, 2, 3, 4} \<longrightarrow> terminalEvidenceSchema e) (cf_evidence cf)"
proof -
  have c: "content_ok db" and pub: "public_content db" using assms(1) by (auto simp: serving_def store_ok_def store_core_def)
  then have pr: "public_revision db r" using assms(2,3) by (simp add: public_content_def list_all_iff)
  have "find (\<lambda>x. rv_id x = rv_id r \<and> rv_published x) (revisions db) = Some r"
  proof (cases "find (\<lambda>x. rv_id x = rv_id r \<and> rv_published x) (revisions db)")
    case None
    then show ?thesis using assms(2,3) by (auto simp: find_None_key)
  next
    case (Some x)
    then show ?thesis
      using find_Some_key [OF Some] distinct_key_eq [of rv_id "revisions db" x r] assms(2) c by (simp add: content_ok_def)
  qed
  then obtain e where cf: "find (\<lambda>e. en_revision e = rv_id r \<and> en_id e = rv_answer r) (entities db) = Some e"
    "cf_briefing cf = rv_briefing r" "cf_closesAt cf = iso_timestamp (rv_closes r)"
    "cf_suggestions cf = map (suggestion_of env db) (js_sort (order_entities env)
      (filter (\<lambda>e. en_revision e = rv_id r \<and> en_eligible e) (entities db)))"
    "cf_evidence cf = map (\<lambda>e. \<lparr>pe_level = ev_order e, pe_text = ev_text e, pe_explanation = ev_explanation e,
        pe_sourceReferences = map so_id (js_sort (\<lambda>a b. so_order a - so_order b)
          (filter (\<lambda>s. so_revision s = rv_id r) (case_sources db)))\<rparr>)
      (js_sort (\<lambda>a b. ev_order a - ev_order b) (filter (\<lambda>e. ev_revision e = rv_id r) (evidences db)))"
    using assms(4) by (auto simp: hydrateCase_def Let_def split: option.splits if_splits)
  show "sized 1 2000 (cf_briefing cf)" "cf_closesAt cf = iso_timestamp (rv_closes r)" "sized 2 32 (cf_suggestions cf)"
    using cf pr by (simp_all add: public_revision_def Let_def sized_def)
  show "list_all publicEntitySuggestionSchema (cf_suggestions cf)"
    unfolding cf(4) using pr pub by (auto simp: public_revision_def public_content_def Let_def list_all_iff intro!: suggestion_passes)
  show "ordered_evidence (cf_evidence cf)"
    using hydrateCase_run [OF assms(2,3) c, of env] assms(4) by auto
  show "list_all (\<lambda>e. pe_level e \<in> {1, 2, 3, 4} \<longrightarrow> terminalEvidenceSchema e) (cf_evidence cf)"
    unfolding cf(5) using pr
    by (auto simp: public_revision_def list_all_iff Let_def terminalEvidenceSchema_def publicEvidenceSchema_def sized_def)
qed

text \<open>What the player of an attempt in a served store is shown passes, in the state of the attempt.\<close>

lemma projection_passes:
  assumes "serving z db" "accepts_instants z" "a \<in> set (attempts db)"
    and "\<exists>r \<in> set (revisions db). rv_id r = at_revision a \<and> cl = rv_closes r"
    and "hydrateProjection env (view_of a cl sm) g db = Inr p"
  shows "attemptProjectionSchema z p \<and> projection_state p = Some (state (at_snapshot a))"
proof -
  have core: "store_core db" using assms(1) by (simp add: serving_def store_ok_def)
  have d: "distinct (map rv_id (revisions db))" using core by (simp add: store_core_def content_ok_def)
  obtain r where r: "r \<in> set (revisions db)" "rv_id r = at_revision a" "rv_published r"
    using core assms(3) by (auto simp: store_core_def attempts_ok_def)
  then have cl: "cl = rv_closes r" using assms(4) distinct_key_eq [OF d] by metis
  define rec where "rec = \<lparr>pa_attemptId = at_id a, pa_ownerGuestId = at_guest a, pa_slotId = at_slot a,
      pa_revisionId = at_revision a, pa_version = at_version a, pa_startedAt = iso_timestamp (at_started a),
      pa_snapshotAt = iso_timestamp sm, pa_attempt = at_snapshot a, pa_guesses = guess_history (at_id a) g db\<rparr>"
  obtain cf where cf: "hydrateCase env (rv_id r) db = Inr cf" "projectAttempt cf rec g = Inr p"
    using assms(5) by (auto simp: hydrateProjection_def bindE_eq_Inr r(2) snapshot_def rec_def view_of_def Let_def)
  note c = case_passes [OF assms(1) r(1,3) cf(1)]
  have icl: "instant_ok cl"
    using assms(1) r(1,3) by (auto simp: cl serving_def public_content_def public_revision_def list_all_iff)
  have b: "attemptProjectionBase z (projectAttemptBase cf rec)"
    by (rule base_passes [OF assms(1-3) icl c(1-3)]) (simp_all add: c(4) cl rec_def)
  have v: "valid_snapshot (at_snapshot a)" using attempt_row_valid [OF core assms(3)] .
  have st: "pb_state (projectAttemptBase cf rec) = state (at_snapshot a)"
    by (simp add: projectAttemptBase_def rec_def)
  have lv: "pe_level e \<in> {1, 2, 3, 4}" if "e \<in> set (cf_evidence cf)" for e
  proof -
    have "set (map pe_level (cf_evidence cf)) = {1, 2, 3, 4}"
      using c(5) by (simp only: ordered_evidence_def list.set)
    then show ?thesis using that by auto
  qed
  then have te: "terminalEvidenceSchema e" if "e \<in> set (cf_evidence cf)" for e
    using c(6) lv [OF that] that unfolding list_all_iff by blast
  have cr: "if state (at_snapshot a) = EXHAUSTED
      then pb_evidenceLevel (projectAttemptBase cf rec) = 4 \<and> pb_wrongGuessesAtLevel (projectAttemptBase cf rec) = 2 \<and>
        pb_totalWrongGuesses (projectAttemptBase cf rec) = 15
      else countersAreReachable (projectAttemptBase cf rec)"
    using v by (auto simp: valid_snapshot_def projectAttemptBase_def rec_def countersAreReachable_def)
  show ?thesis
  proof (cases "state (at_snapshot a) = ACTIVE")
    case True
    define n where "n = nat (evidenceLevel (at_snapshot a))"
    have n: "n \<le> 4" "int n = evidenceLevel (at_snapshot a)" using v by (auto simp: n_def valid_snapshot_def)
    have p: "p = ActiveAttempt (projectAttemptBase cf rec) (map projectPublicEvidence (take n (cf_evidence cf)))"
      using cf(2) projectAttempt_active [of rec cf g p] True by (simp add: rec_def n_def)
    have "publicEvidenceSchema (projectPublicEvidence e)" if "e \<in> set (cf_evidence cf)" for e
      using te [OF that] by (simp add: terminalEvidenceSchema_def publicEvidenceSchema_def projectPublicEvidence_def)
    moreover have "levels_from_one (map projectPublicEvidence (take n (cf_evidence cf)))"
      using levels_take(1) [OF c(5), of n] map_level_fields(1) [of "take n (cf_evidence cf)"] by (simp add: levels_from_one_def)
    moreover have "length (take n (cf_evidence cf)) = n" using levels_take(2) [OF c(5)] n(1) by simp
    ultimately show ?thesis
      using b cr True st n unfolding p
      by (auto simp: attemptProjectionSchema_def activeAttemptProjectionSchema_def sized_def list_all_iff
          projectAttemptBase_def rec_def dest: in_set_takeD)
  next
    case False
    then obtain answer where p: "find (\<lambda>s. es_entityId s = cf_answerEntityId cf) (cf_suggestions cf) = Some answer"
      "p = TerminalAttempt (projectAttemptBase cf rec) (projectPublicSuggestion answer) (map projectTerminalEvidence (cf_evidence cf))"
      using cf(2) projectAttempt_terminal [of rec cf g p] by (auto simp: rec_def)
    have "publicEntitySuggestionSchema (projectPublicSuggestion answer)"
    proof -
      have "projectPublicSuggestion answer = answer" by (simp add: projectPublicSuggestion_def)
      then show ?thesis using find_Some_key [OF p(1)] c(3) by (simp only: list_all_iff)
    qed
    moreover have "terminalEvidenceSchema (projectTerminalEvidence e)" if "e \<in> set (cf_evidence cf)" for e
      using te [OF that]
      by (simp add: terminalEvidenceSchema_def publicEvidenceSchema_def projectTerminalEvidence_def projectPublicEvidence_def
          public_evidence.defs)
    moreover have "levels_from_one (map projectTerminalEvidence (cf_evidence cf))"
      using levels_take(1) [OF c(5), of 4] levels_take(2) [OF c(5)] map_level_fields(2) [of "cf_evidence cf"]
      by (simp add: levels_from_one_def)
    ultimately show ?thesis
      using b cr False st levels_take(2) [OF c(5)] unfolding p(2)
      by (auto simp: attemptProjectionSchema_def terminalAttemptProjectionSchema_def list_all_iff)
  qed
qed

section \<open>Playing keeps the store served\<close>

text \<open>No gameplay transaction touches the content, and the guesses it adds carry the time of the call.\<close>

definition same_content :: "game_db \<Rightarrow> game_db \<Rightarrow> bool" where
  "same_content db db' \<longleftrightarrow> revisions db' = revisions db \<and> entities db' = entities db \<and> aliases db' = aliases db \<and>
    evidences db' = evidences db \<and> case_sources db' = case_sources db"

definition kept_content :: "game_db \<Rightarrow> game_db \<Rightarrow> bool" where
  "kept_content db db' \<longleftrightarrow> same_content db db' \<and> list_all (\<lambda>g. instant_ok (gs_at g)) (guesses db')"

lemma keeps_modify: "(\<And>db. P db \<Longrightarrow> P (f db)) \<Longrightarrow> keeps P (modifyT f)"
  by (auto simp: keeps_def)

lemma content_steps [keeps_intros]:
  "keeps (kept_content db) (update_attempt i f)"
  "keeps (kept_content db) (insert_finalization fi)"
  "keeps (kept_content db) (insert_entry e)"
  "keeps (kept_content db) (modifyT (credit_knowledge row outcome p))"
  "keeps (kept_content db) (modifyT (insert_participation g t))"
  "keeps (kept_content db) (insert_receipt env r)"
  "instant_ok (gs_at g') \<Longrightarrow> keeps (kept_content db) (insert_guess g')"
  by (auto simp: keeps_def kept_content_def same_content_def update_attempt_def insert_finalization_def insert_entry_def
      credit_knowledge_def insert_participation_def insert_receipt_def insert_guess_def Let_def tx_Inr split: if_splits)

lemma content_finalize [keeps_intros]: "keeps (kept_content db) (finalize row t x)"
  unfolding finalize_def Let_def add_leaderboard_entry_def update_returning_def
  by (intro keeps_intros)

lemma content_expire [keeps_intros]: "keeps (kept_content db) (expireIfClosed row t)"
proof -
  have "keeps (kept_content db) (case r of Rejected x y \<Rightarrow> returnT row
      | Accepted a q \<Rightarrow> if state a = ACTIVE then returnT row else finalize row a (vw_closes row))" for r
    by (cases r) (simp_all add: keeps_intros)
  then show ?thesis unfolding expireIfClosed_def by (intro keeps_intros)
qed

lemma content_read [keeps_intros]: "keeps (kept_content db) (read_settled env row g)"
  unfolding read_settled_def by (intro keeps_intros)

lemma content_commit [keeps_intros]:
  "instant_ok (now_sample env) \<Longrightarrow> keeps (kept_content db) (commit_transition env req c fp row a outcome guessed)"
  unfolding commit_transition_def record_guess_def advance_def update_returning_def
  by (intro keeps_intros) simp

lemma content_apply [keeps_intros]:
  assumes "instant_ok (now_sample env)"
  shows "keeps (kept_content db) (apply_command env req c fp row)"
proof -
  have "keeps (kept_content db) (case tr of Rejected reason x \<Rightarrow> reject_with env req row (rejection_of reason)
      | Accepted a q \<Rightarrow> commit_transition env req c fp row a outcome guessed)" for tr outcome guessed
    by (cases tr) (simp_all add: keeps_intros reject_with_def assms)
  then have "keeps (kept_content db) (case x of (r, outcome, guessed) \<Rightarrow> bindT (liftT r) (\<lambda>tr.
      case tr of Rejected reason x \<Rightarrow> reject_with env req row (rejection_of reason)
      | Accepted a q \<Rightarrow> commit_transition env req c fp row a outcome guessed))" for x
    by (cases x) (simp add: keeps_intros)
  then show ?thesis unfolding apply_command_def reject_with_def by (intro keeps_intros)
qed

lemma content_operations:
  assumes "instant_ok (now_sample env)"
  shows "keeps (kept_content db) (executeGameplayCommand env req)"
    and "keeps (kept_content db) (startCurrentAttempt env sreq)"
    and "keeps (kept_content db) (readCurrentCase env g)"
    and "keeps (kept_content db) (readOwnedAttempt env g i)"
proof -
  have "keeps (kept_content db) (replay_command env req c fp r)" for c fp r
    unfolding replay_command_def by (intro keeps_intros)
  then show "keeps (kept_content db) (executeGameplayCommand env req)"
    unfolding executeGameplayCommand_def
    by (cases "decode_command (cr_command req)"; cases "commandFingerprint env req")
      (auto intro!: keeps_intros simp: assms)
  show "keeps (kept_content db) (startCurrentAttempt env sreq)"
    unfolding startCurrentAttempt_def replay_start_def insert_attempt_def
    by (intro keeps_intros keeps_modify) (simp add: kept_content_def same_content_def)
  show "keeps (kept_content db) (readCurrentCase env g)"
    unfolding readCurrentCase_def by (intro keeps_intros)
  show "keeps (kept_content db) (readOwnedAttempt env g i)"
    unfolding readOwnedAttempt_def by (intro keeps_intros)
qed

lemma served_content: "kept_content db db' \<Longrightarrow> public_content db \<Longrightarrow> public_content db'"
proof -
  assume k: "kept_content db db'" and p: "public_content db"
  have "public_entity db' = public_entity db" using k by (simp add: fun_eq_iff kept_content_def same_content_def public_entity_def)
  then show ?thesis using k p by (simp add: kept_content_def same_content_def public_content_def public_revision_def)
qed

lemma keptD: "keeps (kept_content db) m \<Longrightarrow> serving z db \<Longrightarrow> m db = Inr (r, db') \<Longrightarrow> kept_content db db'"
proof -
  assume k: "keeps (kept_content db) m" "serving z db" "m db = Inr (r, db')"
  then have "kept_content db db" by (simp add: kept_content_def same_content_def serving_def)
  then show ?thesis by (rule keepsD [OF k(1) _ k(3)])
qed

lemma servingI:
  "serving z db \<Longrightarrow> kept_content db db' \<Longrightarrow> store_ok db' \<Longrightarrow> list_all (attempt_fits z) (attempts db') \<Longrightarrow> serving z db'"
  using served_content by (auto simp: serving_def kept_content_def)

lemma settle_fits:
  assumes "attempt_fits z a" "valid_snapshot (at_snapshot a)" "attempt_checks a"
  shows "attempt_fits z (settle now cl a)"
proof (cases "terminal a \<or> now < cl")
  case True
  then show ?thesis using assms(1) by (simp add: settle_def)
next
  case False
  then have "1 \<le> moves_left (at_snapshot a)"
    using assms(2) by (auto simp: terminal_def moves_left_def valid_snapshot_def)
  then show ?thesis
    using assms(1) False by (simp add: settle_def attempt_fits_def finished_def moves_left_def)
qed

lemma settle_store_fits:
  assumes "serving z db" "a \<in> set (attempts db)"
  shows "list_all (attempt_fits z) (attempts (settle_store now cl a db))"
proof -
  have c: "attempt_checks a" "valid_snapshot (at_snapshot a)" and fits: "\<forall>x \<in> set (attempts db). attempt_fits z x"
    using assms by (auto simp: serving_def store_ok_def store_core_def attempts_ok_def attempt_checks_def list_all_iff)
  then have "attempt_fits z (settle now cl a)" using settle_fits assms(2) by blast
  then show ?thesis
    using fits by (auto simp: settle_store_def finalized_store_def Let_def update_where_def list_all_iff)
qed

lemma stepped_fits:
  assumes "attempt_fits z a" "transition (at_snapshot a) ec = Inr (Accepted t q)"
  shows "attempt_fits z (stepped a t x)"
  using assms(1) transition_moves_left [OF assms(2)] by (simp add: attempt_fits_def)

lemma serving_execute:
  assumes "serving z db" "env_fits z env" "executeGameplayCommand env req db = Inr (res, db')"
  shows "serving z db'"
proof -
  have ok: "store_ok db" and i: "instant_ok (now_sample env)" and fits: "list_all (attempt_fits z) (attempts db)"
    using assms(1,2) by (simp_all add: serving_def env_fits_def)
  note k = keptD [OF content_operations(1) [OF i] assms(1,3)]
  have s: "store_ok db'" using execute_effect [OF ok assms(3)] by simp
  from ok assms(3) have "list_all (attempt_fits z) (attempts db')"
  proof (cases rule: execute_cases)
    case (committed a cl c ec t fp p gs)
    then have "attempt_fits z (stepped a t (now_sample env))"
      using fits stepped_fits by (auto simp: commits_def list_all_iff)
    then show ?thesis using committed(6) fits by auto
  qed (use fits settle_store_fits [OF assms(1)] in auto)
  then show ?thesis using servingI [OF assms(1) k s] by simp
qed

lemma serving_start:
  assumes "serving z db" "env_fits z env" "startCurrentAttempt env req db = Inr (res, db')"
  shows "serving z db'"
proof -
  have ok: "store_ok db" and i: "instant_ok (now_sample env)" and fits: "list_all (attempt_fits z) (attempts db)"
    using assms(1,2) by (simp_all add: serving_def env_fits_def)
  note k = keptD [OF content_operations(2) [OF i] assms(1,3)]
  have s: "store_ok db'" using start_effect [OF ok assms(3)] by simp
  from ok assms(3) have "list_all (attempt_fits z) (attempts db')"
  proof (cases rule: start_cases)
    case (started r a p)
    have "attempt_fits z (fresh_attempt env (sr_guest req) r)"
      using assms(2) by (simp add: attempt_fits_def fresh_attempt_def env_fits_def moves_left_def initial_attempt_def)
    then show ?thesis using started(7) fits by auto
  qed (use fits settle_store_fits [OF assms(1)] in auto)
  then show ?thesis using servingI [OF assms(1) k s] by simp
qed

lemma serving_settled:
  assumes "serving z db" "attemptRow env i g db = Some v" "read_settled env v g' db = Inr (p, db')"
  shows "list_all (attempt_fits z) (attempts db')"
proof -
  have ok: "store_ok db" "store_core db" using assms(1) by (simp_all add: serving_def store_ok_def)
  obtain a cl where a: "a \<in> set (attempts db)" "at_started a < cl" "v = view_of a cl (now_row env)"
    using attemptRow_Some [OF ok(2) assms(2)] .
  then show ?thesis
    using read_settled_effect [OF ok(1) a(1,2)] settle_store_fits [OF assms(1) a(1)] assms(3) by metis
qed

lemma serving_read:
  assumes "serving z db" "env_fits z env"
  shows "readOwnedAttempt env g i db = Inr (r, db') \<Longrightarrow> serving z db'"
    and "readCurrentCase env g db = Inr (r', db') \<Longrightarrow> serving z db'"
proof -
  have ok: "store_ok db" and t: "instant_ok (now_sample env)" and fits: "list_all (attempt_fits z) (attempts db)"
    using assms by (simp_all add: serving_def env_fits_def)
  show "serving z db'" if r: "readOwnedAttempt env g i db = Inr (r, db')"
  proof -
    have "list_all (attempt_fits z) (attempts db')"
      using r fits serving_settled [OF assms(1)] by (auto simp: readOwnedAttempt_def tx_Inr split: if_splits option.splits)
    then show ?thesis
      using servingI [OF assms(1) keptD [OF content_operations(4) [OF t] assms(1) r]] read_owned_effect [OF ok r] by simp
  qed
  show "serving z db'" if r: "readCurrentCase env g db = Inr (r', db')"
  proof -
    have "list_all (attempt_fits z) (attempts db')"
      using r fits serving_settled [OF assms(1)] by (auto simp: readCurrentCase_def tx_Inr split: if_splits option.splits)
    then show ?thesis
      using servingI [OF assms(1) keptD [OF content_operations(3) [OF t] assms(1) r]] read_case_effect [OF ok r] by simp
  qed
qed

fun op_env :: "gameplay_op \<Rightarrow> store_env" where
  "op_env (OpStart env req) = env"
| "op_env (OpCommand env req) = env"
| "op_env (OpReadCase env g) = env"
| "op_env (OpReadAttempt env g i) = env"

definition served_step :: "zod \<Rightarrow> game_db \<Rightarrow> gameplay_op \<Rightarrow> game_db" where
  "served_step z db op = (if env_fits z (op_env op) then gameplay_step db op else db)"

interpretation served: guarded_machine "served_step z" "serving z" for z
proof
  fix db op
  assume s: "serving z db"
  show "serving z (served_step z db op)"
    using s serving_execute [OF s] serving_start [OF s] serving_read [OF s]
    by (cases op) (auto simp: served_step_def transaction_def split: sum.split)
qed

lemma served_run: "list_all (\<lambda>op. env_fits z (op_env op)) ops \<Longrightarrow> foldl (served_step z) db ops = foldl gameplay_step db ops"
  by (induction ops arbitrary: db) (simp_all add: served_step_def)

section \<open>Results\<close>

lemma execute_response:
  assumes "serving z db" "accepts_instants z" "env_fits z env"
    and "executeGameplayCommand env req db = Inr (CommandOk outcome p replayed, db')"
  shows "commandResponseSchema z outcome p replayed"
proof -
  have ok: "store_ok db" "store_core db" using assms(1) by (simp_all add: serving_def store_ok_def)
  have s: "serving z db'" using serving_execute [OF assms(1,3,4)] .
  have rev: "revisions db' = revisions db"
    using keptD [OF content_operations(1) assms(1,4)] assms(3) by (simp add: env_fits_def kept_content_def same_content_def)
  from ok(1) assms(4) show ?thesis
  proof (cases rule: execute_cases)
    case (replayed a cl r q)
    obtain sm where h: "hydrateProjection env (view_of (settle (now_sample env) cl a) cl sm) (cr_guest req) db' = Inr p"
      using replayed(9,11) by auto
    have "settle (now_sample env) cl a \<in> set (attempts db')"
      using settle_member [OF ok(2) replayed(1,4)] replayed(10) by simp
    moreover have "at_revision (settle (now_sample env) cl a) = at_revision a" by (simp add: settle_def)
    ultimately have "attemptProjectionSchema z p" using projection_passes [OF s assms(2) _ _ h] replayed(5) rev by simp
    moreover have "outcome \<in> {O_CORRECT, O_WRONG, O_REVEALED, O_GIVEN_UP}"
      using replayed(9,12) by (cases outcome) auto
    ultimately show ?thesis using replayed(9) by (simp add: commandResponseSchema_def)
  next
    case (committed a cl c ec t fp q gs)
    then have a: "stepped a t (now_sample env) \<in> set (attempts db')" by auto
    have cl: "\<exists>r \<in> set (revisions db'). rv_id r = at_revision (stepped a t (now_sample env)) \<and> cl = rv_closes r"
      using committed(1) rev by (simp add: commits_def)
    have h: "hydrateProjection env (view_of (stepped a t (now_sample env)) cl (now_sample env)) (cr_guest req) db' = Inr p"
      using committed(4,10) by simp
    note p = projection_passes [OF s assms(2) a cl h]
    obtain tq where tr: "transition (at_snapshot a) ec = Inr (Accepted t tq)" using committed(1) by (auto simp: commits_def)
    obtain c' where ec: "engine_of db (at_revision a) c' = Some ec" using committed(1) by (auto simp: commits_def)
    have "case outcome_of ec of O_CORRECT \<Rightarrow> state t = SOLVED | O_GIVEN_UP \<Rightarrow> state t = GIVEN_UP
        | O_REVEALED \<Rightarrow> state t = ACTIVE | O_WRONG \<Rightarrow> state t = ACTIVE \<or> state t = EXHAUSTED | O_STARTED \<Rightarrow> False"
    proof (cases ec)
      case CExpire
      then show ?thesis using ec by (cases c') (auto split: option.splits)
    qed (use tr in \<open>auto simp: transition_defs result_simps split: if_splits\<close>)
    then show ?thesis
      using p committed(4) by (cases "outcome_of ec") (auto simp: commandResponseSchema_def)
  qed simp_all
qed

lemma start_response:
  assumes "serving z db" "accepts_instants z" "env_fits z env"
    and "startCurrentAttempt env req db = Inr (CommandOk outcome p replayed, db')"
  shows "startAttemptResponseSchema z outcome p replayed"
proof -
  have ok: "store_ok db" "store_core db" using assms(1) by (simp_all add: serving_def store_ok_def)
  have s: "serving z db'" using serving_start [OF assms(1,3,4)] .
  have rev: "revisions db' = revisions db"
    using keptD [OF content_operations(2) assms(1,4)] assms(3) by (simp add: env_fits_def kept_content_def same_content_def)
  from ok(1) assms(4) show ?thesis
  proof (cases rule: start_cases)
    case (replayed a cl r q)
    obtain sm where h: "hydrateProjection env (view_of (settle (now_sample env) cl a) cl sm) (sr_guest req) db' = Inr p"
      using replayed(6,8) by auto
    have "settle (now_sample env) cl a \<in> set (attempts db')"
      using settle_member [OF ok(2) replayed(1,4)] replayed(7) by simp
    moreover have "at_revision (settle (now_sample env) cl a) = at_revision a" by (simp add: settle_def)
    ultimately have "attemptProjectionSchema z p" using projection_passes [OF s assms(2) _ _ h] replayed(9) rev by simp
    then show ?thesis using replayed(6) by (simp add: startAttemptResponseSchema_def)
  next
    case (started r a q)
    obtain cl sm where h: "hydrateProjection env (view_of a cl sm) (sr_guest req) db' = Inr p"
      "\<exists>r \<in> set (revisions db'). rv_id r = at_revision a \<and> cl = rv_closes r"
      using started(10,11) by auto
    then show ?thesis
      using projection_passes [OF s assms(2) started(4) h(2,1)] started(10) by (simp add: startAttemptResponseSchema_def)
  qed simp_all
qed

lemma settled_response:
  assumes "serving z db" "accepts_instants z" "attemptRow env i g db = Some v" "read_settled env v g' db = Inr (p, db')" "serving z db'"
    and "revisions db' = revisions db"
  shows "attemptProjectionSchema z p"
proof -
  have ok: "store_ok db" "store_core db" using assms(1) by (simp_all add: serving_def store_ok_def)
  obtain a cl where a: "a \<in> set (attempts db)" "at_started a < cl"
    "\<exists>r \<in> set (revisions db). rv_id r = at_revision a \<and> cl = rv_closes r" "v = view_of a cl (now_row env)"
    using attemptRow_Some [OF ok(2) assms(3)] .
  have r: "read_settled env (view_of a cl (now_row env)) g' db = Inr (p, db')" using assms(4) a(4) by simp
  obtain sm where h: "hydrateProjection env (view_of (settle (now_sample env) cl a) cl sm) g' db' = Inr p"
    using read_settled_projects [OF ok(1) a(1,2) r] by blast
  have "db' = settle_store (now_sample env) cl a db" using read_settled_effect [OF ok(1) a(1,2) r] .
  then have "settle (now_sample env) cl a \<in> set (attempts db')" using settle_member [OF ok(2) a(1,2)] by simp
  moreover have "at_revision (settle (now_sample env) cl a) = at_revision a" by (simp add: settle_def)
  ultimately show ?thesis using projection_passes [OF assms(5,2) _ _ h] a(3) assms(6) by simp
qed

lemma read_responses:
  assumes "serving z db" "accepts_instants z" "env_fits z env"
  shows "readOwnedAttempt env g i db = Inr (Some p, db') \<Longrightarrow> attemptProjectionSchema z p"
    and "readCurrentCase env g db = Inr (p, db') \<Longrightarrow> caseProjectionSchema z p"
proof -
  have i: "instant_ok (now_sample env)" using assms(3) by (simp add: env_fits_def)
  have rev: "revisions db' = revisions db" if "keeps (kept_content db) m" "m db = Inr (r, db')" for m :: "'x tx" and r
    using keptD [OF that(1) assms(1) that(2)] by (simp add: kept_content_def same_content_def)
  show "attemptProjectionSchema z p" if r: "readOwnedAttempt env g i db = Inr (Some p, db')"
  proof -
    obtain v where "attemptRow env i g db = Some v" "read_settled env v g db = Inr (p, db')"
      using r by (auto simp: readOwnedAttempt_def tx_Inr split: if_splits option.splits)
    then show ?thesis
      using settled_response [OF assms(1,2)] serving_read(1) [OF assms(1,3) r]
        keptD [OF content_operations(4) [OF i] assms(1) r] by (simp add: kept_content_def same_content_def)
  qed
  show "caseProjectionSchema z p" if r: "readCurrentCase env g db = Inr (p, db')"
  proof -
    have ns: "caseProjectionSchema z (not_started x)" if "currentRevision t db = Some x" for x t
      using currentRevision_Some [OF that] assms(1,2)
      by (auto simp: caseProjectionSchema_def not_started_def projectNotStarted_def serving_def public_content_def
          public_revision_def accepts_instants_def list_all_iff)
    have "caseProjectionSchema z p \<or> (\<exists>j v. attemptRow env j g db = Some v \<and> read_settled env v g db = Inr (p, db'))"
      using r ns by (auto simp: readCurrentCase_def tx_Inr caseProjectionSchema_def projectNoCase_def split: if_splits option.splits)
    then show ?thesis
    proof (elim disjE exE conjE)
      fix j v
      assume "attemptRow env j g db = Some v" "read_settled env v g db = Inr (p, db')"
      then have "attemptProjectionSchema z p"
        using settled_response [OF assms(1,2)] serving_read(2) [OF assms(1,3) r]
          keptD [OF content_operations(3) [OF i] assms(1) r] by (simp add: kept_content_def same_content_def)
      then show ?thesis by (cases p) (simp_all add: caseProjectionSchema_def attemptProjectionSchema_def)
    qed
  qed
qed

text \<open>Property C25. Nothing that was committed is lost to a schema: from content within the limits of the
  contract, after any sequence of gameplay operations, the answer of a successful command, start or read
  passes the response schema of its operation, so the kernel never turns it into an internal error.\<close>

theorem answers_pass_their_schemas:
  assumes "serving z db" "accepts_instants z" "list_all (\<lambda>op. env_fits z (op_env op)) ops" "env_fits z env"
  shows "(case executeGameplayCommand env req (foldl gameplay_step db ops) of
        Inr (CommandOk outcome p replayed, _) \<Rightarrow> commandResponseSchema z outcome p replayed | _ \<Rightarrow> True) \<and>
    (case startCurrentAttempt env sreq (foldl gameplay_step db ops) of
        Inr (CommandOk outcome p replayed, _) \<Rightarrow> startAttemptResponseSchema z outcome p replayed | _ \<Rightarrow> True) \<and>
    (case readOwnedAttempt env g i (foldl gameplay_step db ops) of
        Inr (Some p, _) \<Rightarrow> attemptProjectionSchema z p | _ \<Rightarrow> True) \<and>
    (case readCurrentCase env g (foldl gameplay_step db ops) of Inr (p, _) \<Rightarrow> caseProjectionSchema z p | _ \<Rightarrow> True)"
proof -
  have s: "serving z (foldl gameplay_step db ops)"
    using served.run_good [OF assms(1), of ops] served_run [OF assms(3)] by simp
  show ?thesis
    using execute_response [OF s assms(2,4)] start_response [OF s assms(2,4)] read_responses [OF s assms(2,4)]
    by (auto split: sum.split prod.split command_result.split option.split)
qed

definition any_zod :: zod where
  "any_zod = \<lparr>z_uuid = (\<lambda>_. True), z_datetime = (\<lambda>_. True)\<rparr>"

definition served_store :: game_db where
  "served_store = (small_store initial_attempt)
    \<lparr>aliases := [\<lparr>al_revision = ''r'', al_entity = ''e1'', al_alias = ''o''\<rparr>, \<lparr>al_revision = ''r'', al_entity = ''e2'', al_alias = ''t''\<rparr>],
     case_sources := [\<lparr>so_revision = ''r'', so_order = 1, so_id = ''s''\<rparr>]\<rparr>"

lemma case_of_content [simp]: "case_of (db\<lparr>aliases := x\<rparr>) = case_of db" "case_of (db\<lparr>case_sources := y\<rparr>) = case_of db"
  by (simp_all add: fun_eq_iff case_of_def regions_of_def)

lemma served_store_serving: "serving any_zod served_store"
proof -
  have "store_ok (small_store initial_attempt)" by (rule small_store_ok)
  then have "store_ok served_store"
    by (simp add: store_ok_def store_core_def content_ok_def complete_revision_def evidence_of_def answer_of_def attempts_ok_def
        derived_ok_def knowledge_ok_def served_store_def guesses_ok_def receipts_ok_def numbers_of_def regions_of_def
        terminals_def solved_attempts_def entry_of_def pseudonym_of_def cases_of_def case_of_def)
  moreover have "public_content served_store" by code_simp
  moreover have "list_all (attempt_fits any_zod) (attempts served_store)" "list_all (\<lambda>g. instant_ok (gs_at g)) (guesses served_store)"
    by code_simp+
  ultimately show ?thesis by (simp add: serving_def)
qed

lemma served_answers:
  "seen (executeGameplayCommand (plain_env 6000 ''2'') (guess_request ''one'' 1 ''k2'')
      (foldl gameplay_step served_store [OpCommand (plain_env 5000 ''1'') (guess_request ''two'' 0 ''k1'')])) =
    Some (Inr (O_CORRECT, False))"
  by code_simp

theorem answers_pass_their_schemas_witness:
  "\<exists>p db'. executeGameplayCommand (plain_env 6000 ''2'') (guess_request ''one'' 1 ''k2'')
      (foldl gameplay_step served_store [OpCommand (plain_env 5000 ''1'') (guess_request ''two'' 0 ''k1'')]) =
      Inr (CommandOk O_CORRECT p False, db') \<and> commandResponseSchema any_zod O_CORRECT p False"
proof -
  let ?env = "plain_env 6000 ''2''" and ?ops = "[OpCommand (plain_env 5000 ''1'') (guess_request ''two'' 0 ''k1'')]"
  obtain p db' where r: "executeGameplayCommand ?env (guess_request ''one'' 1 ''k2'') (foldl gameplay_step served_store ?ops) =
      Inr (CommandOk O_CORRECT p False, db')"
    using seen_ok [OF served_answers] by blast
  have "accepts_instants any_zod" by (simp add: accepts_instants_def any_zod_def)
  moreover have "list_all (\<lambda>op. env_fits any_zod (op_env op)) ?ops" "env_fits any_zod ?env"
    by (simp_all add: env_fits_def any_zod_def plain_env_def instant_ok_def FIRST_INSTANT_def LAST_INSTANT_def)
  ultimately show ?thesis
    using answers_pass_their_schemas [OF served_store_serving, of ?ops ?env "guess_request ''one'' 1 ''k2''"] r by simp
qed

end
