(* ===== verification/Raw_Json.thy ===== *)
theory Raw_Json
  imports Json Http "HOL-Library.Word"
begin

text \<open>
  \<^verbatim>\<open>apps/api/src/http/raw-json.ts\<close>: the body of a request is read up to 16 KiB, decoded as UTF-8, scanned
  for repeated names and parsed. The scanner walks the text the way \<open>parse_value\<close> does, with the path
  of the value it is at; it takes the same fuel.

  Results: the scanner accepts exactly the texts whose syntax tree repeats no name, so nothing the
  client wrote is lost in what \<^verbatim>\<open>JSON.parse\<close> returns; the reader settles once, with the bytes that
  came, and never holds more than the limit.
\<close>

section \<open>The scanner\<close>

definition ascii_letter :: "char \<Rightarrow> bool" where
  "ascii_letter c \<longleftrightarrow> (let n = (of_char c :: nat) in 65 \<le> n \<and> n \<le> 90 \<or> 97 \<le> n \<and> n \<le> 122)"

text \<open>\<^verbatim>\<open>^[A-Za-z][A-Za-z0-9]*$\<close>\<close>

definition path_name :: "string \<Rightarrow> bool" where
  "path_name k = (case k of [] \<Rightarrow> False | c # r \<Rightarrow> ascii_letter c \<and> list_all (\<lambda>c. ascii_letter c \<or> is_digit c) r)"

definition key_path :: "string \<Rightarrow> string \<Rightarrow> string" where
  "key_path path key = (if path_name key then path @ ''.'' @ key else path)"

definition element_path :: "string \<Rightarrow> nat \<Rightarrow> string" where
  "element_path path index = path @ ''['' @ decimal index @ '']''"

fun scan_value :: "nat \<Rightarrow> string \<Rightarrow> string \<Rightarrow> json_error + string"
  and scan_members :: "nat \<Rightarrow> string \<Rightarrow> string list \<Rightarrow> string \<Rightarrow> json_error + string"
  and scan_elements :: "nat \<Rightarrow> string \<Rightarrow> nat \<Rightarrow> string \<Rightarrow> json_error + string" where
  "scan_value 0 path s = Inl OutOfFuel"
| "scan_value (Suc n) path s =
    bindE (next_char (skip_ws s)) (\<lambda>(c, r).
    (case lead_of c of
       L_Object \<Rightarrow> bindE (next_char (skip_ws r)) (\<lambda>(d, r').
         if d = CHR ''}'' then Inr r' else scan_members n path [] (d # r'))
     | L_Array \<Rightarrow> bindE (next_char (skip_ws r)) (\<lambda>(d, r').
         if d = CHR '']'' then Inr r' else scan_elements n path 0 (d # r'))
     | L_String \<Rightarrow> bindE (read_string r) (\<lambda>(k, x). Inr x)
     | L_True \<Rightarrow> read_literal ''true'' (c # r)
     | L_False \<Rightarrow> read_literal ''false'' (c # r)
     | L_Null \<Rightarrow> read_literal ''null'' (c # r)
     | L_Number \<Rightarrow> (case match_number (c # r) of None \<Rightarrow> Inl SyntaxError | Some (q, x) \<Rightarrow> Inr x)))"
| "scan_members 0 path keys s = Inl OutOfFuel"
| "scan_members (Suc n) path keys s =
    bindE (expect (CHR 34) s) (\<lambda>r.
    bindE (read_string r) (\<lambda>(k, s1).
      if k \<in> set keys then Inl (DuplicateField (key_path path k)) else
    bindE (expect (CHR '':'') (skip_ws s1)) (\<lambda>s2.
    bindE (scan_value n (key_path path k) s2) (\<lambda>s3.
    bindE (next_char (skip_ws s3)) (\<lambda>(e, s4).
      if e = CHR ''}'' then Inr s4
      else if e \<noteq> CHR '','' then Inl SyntaxError
      else scan_members n path (k # keys) (skip_ws s4))))))"
| "scan_elements 0 path index s = Inl OutOfFuel"
| "scan_elements (Suc n) path index s =
    bindE (scan_value n (element_path path index) s) (\<lambda>s3.
    bindE (next_char (skip_ws s3)) (\<lambda>(e, s4).
      if e = CHR '']'' then Inr s4
      else if e \<noteq> CHR '','' then Inl SyntaxError
      else scan_elements n path (Suc index) (skip_ws s4)))"

definition scan_source :: "string \<Rightarrow> json_error + unit" where
  "scan_source s =
    bindE (scan_value (Suc (2 * length s)) ''$'' (skip_ws s)) (\<lambda>r. if skip_ws r = [] then Inr () else Inl SyntaxError)"

section \<open>The scanner and the parser agree\<close>

lemma guard_Inr: "(if b then Inl q else m) = Inr y \<longleftrightarrow> \<not> b \<and> m = Inr y"
  by simp

lemma scan_step:
  assumes v: "\<And>p s r. scan_value n p s = Inr r \<longleftrightarrow> (\<exists>v. parse_value n s = Inr (v, r) \<and> unique_fields v)"
    and m: "\<And>p ks s r. scan_members n p ks s = Inr r \<longleftrightarrow> (\<exists>ms. parse_members n s = Inr (ms, r) \<and>
      distinct (map fst ms) \<and> set ks \<inter> fst ` set ms = {} \<and> (\<forall>m \<in> set ms. unique_fields (snd m)))"
    and e: "\<And>p i s r. scan_elements n p i s = Inr r \<longleftrightarrow> (\<exists>vs. parse_elements n s = Inr (vs, r) \<and> (\<forall>v \<in> set vs. unique_fields v))"
  shows "scan_value (Suc n) p s = Inr r \<longleftrightarrow> (\<exists>v. parse_value (Suc n) s = Inr (v, r) \<and> unique_fields v)"
    and "scan_members (Suc n) p ks s = Inr r \<longleftrightarrow> (\<exists>ms. parse_members (Suc n) s = Inr (ms, r) \<and>
      distinct (map fst ms) \<and> set ks \<inter> fst ` set ms = {} \<and> (\<forall>m \<in> set ms. unique_fields (snd m)))"
    and "scan_elements (Suc n) p i s = Inr r \<longleftrightarrow> (\<exists>vs. parse_elements (Suc n) s = Inr (vs, r) \<and> (\<forall>v \<in> set vs. unique_fields v))"
proof -
  show "scan_value (Suc n) p s = Inr r \<longleftrightarrow> (\<exists>v. parse_value (Suc n) s = Inr (v, r) \<and> unique_fields v)"
  proof (cases "skip_ws s")
    case Nil
    then show ?thesis by (simp add: next_char_def)
  next
    case (Cons c w)
    show ?thesis
    proof (cases "lead_of c")
      case L_Object
      then show ?thesis using Cons
        by (cases "skip_ws w") (auto simp: next_char_def bindE_pair m)
    next
      case L_Array
      then show ?thesis using Cons
        by (cases "skip_ws w") (auto simp: next_char_def bindE_pair e)
    qed (use Cons in \<open>auto simp: next_char_def bindE_pair bindE_eq_Inr split: option.splits\<close>)
  qed
next
  show "scan_members (Suc n) p ks s = Inr r \<longleftrightarrow> (\<exists>ms. parse_members (Suc n) s = Inr (ms, r) \<and>
      distinct (map fst ms) \<and> set ks \<inter> fst ` set ms = {} \<and> (\<forall>m \<in> set ms. unique_fields (snd m)))"
    by (simp add: json_steps guard_Inr m v) (fastforce)
next
  show "scan_elements (Suc n) p i s = Inr r \<longleftrightarrow> (\<exists>vs. parse_elements (Suc n) s = Inr (vs, r) \<and> (\<forall>v \<in> set vs. unique_fields v))"
    by (simp add: json_steps e v) fastforce
qed

lemma scan_parse:
  "scan_value n p s = Inr r \<longleftrightarrow> (\<exists>v. parse_value n s = Inr (v, r) \<and> unique_fields v)"
  "scan_members n p ks s = Inr r \<longleftrightarrow> (\<exists>ms. parse_members n s = Inr (ms, r) \<and>
    distinct (map fst ms) \<and> set ks \<inter> fst ` set ms = {} \<and> (\<forall>m \<in> set ms. unique_fields (snd m)))"
  "scan_elements n p i s = Inr r \<longleftrightarrow> (\<exists>vs. parse_elements n s = Inr (vs, r) \<and> (\<forall>v \<in> set vs. unique_fields v))"
proof (induction n arbitrary: p s r ks i)
  case (Suc n)
  { case 1 show ?case using scan_step(1) [OF Suc.IH] . next
    case 2 show ?case using scan_step(2) [OF Suc.IH] . next
    case 3 show ?case using scan_step(3) [OF Suc.IH] . }
qed simp_all

text \<open>The scanner runs out of fuel only where the parser does.\<close>

lemma scan_fuel_step:
  assumes v: "\<And>p s. scan_value n p s = Inl OutOfFuel \<Longrightarrow> parse_value n s = Inl OutOfFuel"
    and m: "\<And>p ks s. scan_members n p ks s = Inl OutOfFuel \<Longrightarrow> parse_members n s = Inl OutOfFuel"
    and e: "\<And>p i s. scan_elements n p i s = Inl OutOfFuel \<Longrightarrow> parse_elements n s = Inl OutOfFuel"
  shows "scan_value (Suc n) p s = Inl OutOfFuel \<Longrightarrow> parse_value (Suc n) s = Inl OutOfFuel"
    and "scan_members (Suc n) p ks s = Inl OutOfFuel \<Longrightarrow> parse_members (Suc n) s = Inl OutOfFuel"
    and "scan_elements (Suc n) p i s = Inl OutOfFuel \<Longrightarrow> parse_elements (Suc n) s = Inl OutOfFuel"
proof -
  assume a: "scan_value (Suc n) p s = Inl OutOfFuel"
  then obtain c w where w: "skip_ws s = c # w" by (auto simp: bindE_pair_Inl next_char_Inr)
  show "parse_value (Suc n) s = Inl OutOfFuel"
  proof (cases "lead_of c")
    case L_Object
    then obtain d x where x: "skip_ws w = d # x" using a w by (cases "skip_ws w") (simp_all add: next_char_def)
    then have "d \<noteq> CHR ''}''" "scan_members n p [] (d # x) = Inl OutOfFuel"
      using a w L_Object by (cases "d = CHR ''}''"; simp add: next_char_def)+
    then show ?thesis using w x L_Object m by (simp add: next_char_def)
  next
    case L_Array
    then obtain d x where x: "skip_ws w = d # x" using a w by (cases "skip_ws w") (simp_all add: next_char_def)
    then have "d \<noteq> CHR '']''" "scan_elements n p 0 (d # x) = Inl OutOfFuel"
      using a w L_Array by (cases "d = CHR '']''"; simp add: next_char_def)+
    then show ?thesis using w x L_Array e by (simp add: next_char_def)
  qed (use a w in \<open>auto simp: next_char_def bindE_pair_Inl split: option.splits\<close>)
next
  assume "scan_members (Suc n) p ks s = Inl OutOfFuel"
  then obtain r k s1 s2 where s: "s = CHR 34 # r" "read_string r = Inr (k, s1)" "skip_ws s1 = CHR '':'' # s2"
    and p: "scan_value n (key_path p k) s2 = Inl OutOfFuel \<or> (\<exists>s3 s4. scan_value n (key_path p k) s2 = Inr s3 \<and>
      skip_ws s3 = CHR '','' # s4 \<and> scan_members n p (k # ks) (skip_ws s4) = Inl OutOfFuel)"
    by (auto simp: bindE_pair_Inl bindE_Inl expect_Inr next_char_Inr split: if_splits) blast+
  from p show "parse_members (Suc n) s = Inl OutOfFuel"
  proof
    assume "scan_value n (key_path p k) s2 = Inl OutOfFuel"
    then show ?thesis using v s by (simp add: expect_def)
  next
    assume "\<exists>s3 s4. scan_value n (key_path p k) s2 = Inr s3 \<and> skip_ws s3 = CHR '','' # s4 \<and>
      scan_members n p (k # ks) (skip_ws s4) = Inl OutOfFuel"
    then obtain w s3 s4 where "parse_value n s2 = Inr (w, s3)" "skip_ws s3 = CHR '','' # s4"
      "parse_members n (skip_ws s4) = Inl OutOfFuel" using m scan_parse(1) by blast
    then show ?thesis using s by (simp add: expect_def next_char_def)
  qed
next
  assume "scan_elements (Suc n) p i s = Inl OutOfFuel"
  then have "scan_value n (element_path p i) s = Inl OutOfFuel \<or> (\<exists>s3 s4. scan_value n (element_path p i) s = Inr s3 \<and>
      skip_ws s3 = CHR '','' # s4 \<and> scan_elements n p (Suc i) (skip_ws s4) = Inl OutOfFuel)"
    by (auto simp: bindE_pair_Inl bindE_Inl next_char_Inr split: if_splits)
  then show "parse_elements (Suc n) s = Inl OutOfFuel"
  proof
    assume "scan_value n (element_path p i) s = Inl OutOfFuel"
    then show ?thesis using v by simp
  next
    assume "\<exists>s3 s4. scan_value n (element_path p i) s = Inr s3 \<and> skip_ws s3 = CHR '','' # s4 \<and>
      scan_elements n p (Suc i) (skip_ws s4) = Inl OutOfFuel"
    then obtain w s3 s4 where "parse_value n s = Inr (w, s3)" "skip_ws s3 = CHR '','' # s4"
      "parse_elements n (skip_ws s4) = Inl OutOfFuel" using e scan_parse(1) by blast
    then show ?thesis by (simp add: next_char_def)
  qed
qed

lemma scan_fuel:
  "scan_value n p s = Inl OutOfFuel \<Longrightarrow> parse_value n s = Inl OutOfFuel"
  "scan_members n p ks s = Inl OutOfFuel \<Longrightarrow> parse_members n s = Inl OutOfFuel"
  "scan_elements n p i s = Inl OutOfFuel \<Longrightarrow> parse_elements n s = Inl OutOfFuel"
proof (induction n arbitrary: p s ks i)
  case (Suc n)
  { case 1 show ?case using scan_fuel_step(1) [OF Suc.IH 1] . next
    case 2 show ?case using scan_fuel_step(2) [OF Suc.IH 2] . next
    case 3 show ?case using scan_fuel_step(3) [OF Suc.IH 3] . }
qed simp_all

lemma skip_ws_idem [simp]: "skip_ws (skip_ws s) = skip_ws s"
  by (simp add: skip_ws_def dropWhile_idem)

lemma parse_value_skip: "parse_value n (skip_ws s) = parse_value n s"
  by (cases n) simp_all

text \<open>The scanner accepts exactly the texts whose tree repeats no name, and always ends.\<close>

lemma scan_source_iff: "scan_source s = Inr () \<longleftrightarrow> (\<exists>v. JSON_tree s = Inr v \<and> unique_fields v)"
proof -
  have "scan_source s = Inr () \<longleftrightarrow> (\<exists>r. scan_value (Suc (2 * length s)) ''$'' (skip_ws s) = Inr r \<and> skip_ws r = [])"
    by (cases "scan_value (Suc (2 * length s)) ''$'' (skip_ws s)") (simp_all add: scan_source_def del: scan_value.simps)
  also have "\<dots> \<longleftrightarrow> (\<exists>v r. parse_value (Suc (2 * length s)) s = Inr (v, r) \<and> unique_fields v \<and> skip_ws r = [])"
    unfolding scan_parse(1) parse_value_skip by blast
  also have "\<dots> \<longleftrightarrow> (\<exists>v. JSON_tree s = Inr v \<and> unique_fields v)"
    by (cases "parse_value (Suc (2 * length s)) s") (auto simp: JSON_tree_def simp del: parse_value.simps split: if_splits)
  finally show ?thesis .
qed

lemma scan_source_total: "scan_source s \<noteq> Inl OutOfFuel"
proof -
  have "scan_value (Suc (2 * length s)) ''$'' (skip_ws s) \<noteq> Inl OutOfFuel"
    using scan_fuel(1) parse_fuel(1) [of s "Suc (2 * length s)"] parse_value_skip by (metis lessI)
  then show ?thesis
    by (cases "scan_value (Suc (2 * length s)) ''$'' (skip_ws s)") (simp_all add: scan_source_def del: scan_value.simps)
qed

section \<open>Bytes\<close>

type_synonym byte = "8 word"

definition byte_in :: "int \<Rightarrow> int \<Rightarrow> byte \<Rightarrow> bool" where
  "byte_in lo hi b \<longleftrightarrow> lo \<le> uint b \<and> uint b \<le> hi"

text \<open>The fatal UTF-8 decoder. A sequence for a code point of 256 and more is well formed but outside the
  model of texts; the rest of the text must be well formed all the same.\<close>

definition tail_bytes :: "byte list \<Rightarrow> bool" where
  "tail_bytes bs = list_all (byte_in 128 191) bs"

fun utf8_decode :: "byte list \<Rightarrow> json_error + string" where
  "utf8_decode [] = Inr []"
| "utf8_decode (a # bs) =
    (if uint a < 128 then bindE (utf8_decode bs) (\<lambda>s. Inr (char_of (nat (uint a)) # s))
     else if byte_in 194 223 a then
       (case bs of b # bs' \<Rightarrow> if byte_in 128 191 b
            then bindE (utf8_decode bs') (\<lambda>s. let u = (uint a - 192) * 64 + (uint b - 128)
               in if u < 256 then Inr (char_of (nat u) # s) else Inl OutOfModel)
            else Inl SyntaxError
        | [] \<Rightarrow> Inl SyntaxError)
     else if byte_in 224 239 a then
       (case bs of b # c # bs' \<Rightarrow>
            if byte_in (if uint a = 224 then 160 else 128) (if uint a = 237 then 159 else 191) b \<and> tail_bytes [c]
            then bindE (utf8_decode bs') (\<lambda>_. Inl OutOfModel) else Inl SyntaxError
        | _ \<Rightarrow> Inl SyntaxError)
     else if byte_in 240 244 a then
       (case bs of b # c # d # bs' \<Rightarrow>
            if byte_in (if uint a = 240 then 144 else 128) (if uint a = 244 then 143 else 191) b \<and> tail_bytes [c, d]
            then bindE (utf8_decode bs') (\<lambda>_. Inl OutOfModel) else Inl SyntaxError
        | _ \<Rightarrow> Inl SyntaxError)
     else Inl SyntaxError)"

text \<open>\<^verbatim>\<open>new TextDecoder('utf-8', { fatal: true })\<close> drops a byte order mark.\<close>

definition text_decode :: "byte list \<Rightarrow> json_error + string" where
  "text_decode bs = utf8_decode (if take 3 bs = [239, 187, 191] then drop 3 bs else bs)"

section \<open>Reading the body\<close>

definition MAXIMUM_JSON_BODY_BYTES :: nat where
  "MAXIMUM_JSON_BODY_BYTES = 16384"

text \<open>What the request and the deadline report while the promise is open.\<close>

datatype body_event = Data "byte list" | End | Aborted | Failed | Timeout

record body_state =
  bs_chunks :: "byte list list"
  bs_total :: nat
  bs_settled :: "(api_error + byte list) option"

definition open_body :: body_state where
  "open_body = \<lparr>bs_chunks = [], bs_total = 0, bs_settled = None\<rparr>"

definition settle_body :: "api_error + byte list \<Rightarrow> body_state \<Rightarrow> body_state" where
  "settle_body r st = (if bs_settled st \<noteq> None then st else st\<lparr>bs_settled := Some r\<rparr>)"

fun body_step :: "body_state \<Rightarrow> body_event \<Rightarrow> body_state" where
  "body_step st (Data chunk) =
    (if bs_settled st \<noteq> None then st
     else let total = bs_total st + length chunk
       in if MAXIMUM_JSON_BODY_BYTES < total then settle_body (Inl BODY_TOO_LARGE) (st\<lparr>bs_total := total\<rparr>)
          else st\<lparr>bs_total := total, bs_chunks := bs_chunks st @ [chunk]\<rparr>)"
| "body_step st End = settle_body (Inr (concat (bs_chunks st))) st"
| "body_step st Aborted = settle_body (Inl INVALID_REQUEST) st"
| "body_step st Failed = settle_body (Inl INVALID_REQUEST) st"
| "body_step st Timeout = settle_body (Inl REQUEST_TIMEOUT) st"

text \<open>\<^verbatim>\<open>^(0|[1-9][0-9]*)$\<close>\<close>

definition decimal_form :: "string \<Rightarrow> bool" where
  "decimal_form s \<longleftrightarrow> s = ''0'' \<or> (s \<noteq> [] \<and> hd s \<noteq> CHR ''0'' \<and> list_all is_digit s)"

text \<open>\<open>None\<close>: the events have not settled the promise yet.\<close>

definition readBoundedBody :: "string option \<Rightarrow> bool \<Rightarrow> body_event list \<Rightarrow> (api_error + byte list) option" where
  "readBoundedBody declaredLength alreadyAborted events =
    (if (case declaredLength of None \<Rightarrow> False
         | Some d \<Rightarrow> decimal_form d \<and> int MAXIMUM_JSON_BODY_BYTES < digits_value d)
     then Some (Inl BODY_TOO_LARGE)
     else bs_settled (foldl body_step (if alreadyAborted then body_step open_body Timeout else open_body) events))"

text \<open>A scanner error that is already public keeps its field; every other one is a malformed text.\<close>

definition parse_body :: "byte list \<Rightarrow> json_error + js_value" where
  "parse_body raw = bindE (text_decode raw) (\<lambda>source. bindE (scan_source source) (\<lambda>_. JSON_parse source))"

definition syntax_error :: "json_error \<Rightarrow> http_error" where
  "syntax_error e = \<lparr>he_code = INVALID_REQUEST, he_fields = [case e of
      DuplicateField p \<Rightarrow> \<lparr>fe_code = DUPLICATE_FIELD, fe_path = p\<rparr>
    | _ \<Rightarrow> \<lparr>fe_code = INVALID_FORMAT, fe_path = ''$''\<rparr>]\<rparr>"

datatype body_result = Body js_value | BodyError http_error | BodyOutOfModel

definition parseBoundedJsonBody :: "string option \<Rightarrow> bool \<Rightarrow> body_event list \<Rightarrow> body_result option" where
  "parseBoundedJsonBody declaredLength alreadyAborted events =
    map_option (\<lambda>r. case r of Inl e \<Rightarrow> BodyError (public_error e)
      | Inr raw \<Rightarrow> (case parse_body raw of
          Inr v \<Rightarrow> Body v
        | Inl e \<Rightarrow> if e = OutOfModel then BodyOutOfModel else BodyError (syntax_error e)))
      (readBoundedBody declaredLength alreadyAborted events)"

section \<open>Results\<close>

text \<open>The states of the reader: it holds at most the limit, in the order it came.\<close>

fun received :: "body_event list \<Rightarrow> byte list" where
  "received [] = []"
| "received (Data chunk # events) = chunk @ received events"
| "received (_ # events) = []"

definition settles_with :: "byte list \<Rightarrow> body_event list \<Rightarrow> (api_error + byte list) option \<Rightarrow> bool" where
  "settles_with held events r =
    (case r of
       None \<Rightarrow> list_all (\<lambda>e. case e of Data _ \<Rightarrow> True | _ \<Rightarrow> False) events
     | Some (Inr bytes) \<Rightarrow> End \<in> set events \<and> bytes = held @ received events \<and> length bytes \<le> MAXIMUM_JSON_BODY_BYTES
     | Some (Inl e) \<Rightarrow> e \<in> {BODY_TOO_LARGE, INVALID_REQUEST, REQUEST_TIMEOUT} \<and>
         (e = BODY_TOO_LARGE \<longrightarrow> MAXIMUM_JSON_BODY_BYTES < length (held @ received events)))"

lemma settled_stays: "bs_settled st = Some r \<Longrightarrow> foldl body_step st events = st"
proof (induction events)
  case (Cons e events)
  then show ?case by (cases e) (simp_all add: settle_body_def)
qed simp

lemma body_run:
  assumes "bs_settled st = None" "bs_total st = length (concat (bs_chunks st))" "bs_total st \<le> MAXIMUM_JSON_BODY_BYTES"
  shows "settles_with (concat (bs_chunks st)) events (bs_settled (foldl body_step st events))"
  using assms
proof (induction events arbitrary: st)
  case Nil
  then show ?case by (simp add: settles_with_def)
next
  case (Cons e events)
  show ?case
  proof (cases e)
    case (Data chunk)
    show ?thesis
    proof (cases "MAXIMUM_JSON_BODY_BYTES < bs_total st + length chunk")
      case True
      then show ?thesis using Cons.prems Data
        by (simp add: settled_stays settle_body_def settles_with_def)
    next
      case False
      let ?st = "st\<lparr>bs_total := bs_total st + length chunk, bs_chunks := bs_chunks st @ [chunk]\<rparr>"
      have "settles_with (concat (bs_chunks ?st)) events (bs_settled (foldl body_step ?st events))"
        using Cons.prems False by (intro Cons.IH) simp_all
      then show ?thesis using Cons.prems Data False
        by (auto simp: settles_with_def split: option.splits sum.splits)
    qed
  qed (use Cons.prems in \<open>simp_all add: settled_stays settle_body_def settles_with_def\<close>)
qed

lemma whole_body:
  assumes "bs_settled st = None" "bs_total st = length (concat (bs_chunks st))" "bs_total st \<le> MAXIMUM_JSON_BODY_BYTES"
  shows "bs_settled (foldl body_step st (map Data chunks @ End # rest)) =
    Some (if bs_total st + length (concat chunks) \<le> MAXIMUM_JSON_BODY_BYTES
      then Inr (concat (bs_chunks st) @ concat chunks) else Inl BODY_TOO_LARGE)"
  using assms
proof (induction chunks arbitrary: st)
  case Nil
  then show ?case by (simp add: settle_body_def settled_stays)
next
  case (Cons chunk chunks)
  show ?case
  proof (cases "MAXIMUM_JSON_BODY_BYTES < bs_total st + length chunk")
    case True
    then show ?thesis using Cons.prems by (simp add: settled_stays settle_body_def)
  next
    case False
    let ?st = "st\<lparr>bs_total := bs_total st + length chunk, bs_chunks := bs_chunks st @ [chunk]\<rparr>"
    have "bs_settled (foldl body_step ?st (map Data chunks @ End # rest)) =
        Some (if bs_total ?st + length (concat chunks) \<le> MAXIMUM_JSON_BODY_BYTES
          then Inr (concat (bs_chunks ?st) @ concat chunks) else Inl BODY_TOO_LARGE)"
      using Cons.prems False by (intro Cons.IH) simp_all
    then show ?thesis using Cons.prems False by (simp add: add.assoc)
  qed
qed

lemma parse_body_iff:
  "parse_body raw = Inr v \<longleftrightarrow> (\<exists>source. text_decode raw = Inr source \<and> JSON_tree source = Inr v \<and> unique_fields v)"
proof -
  have "(\<exists>u. scan_source s = Inr u) \<and> JSON_parse s = Inr v \<longleftrightarrow> JSON_tree s = Inr v \<and> unique_fields v" for s
    using merge_unique by (auto simp: scan_source_iff JSON_parse_def bindE_eq_Inr)
  then show ?thesis by (auto simp: parse_body_def bindE_eq_Inr)
qed

text \<open>Property C27. What a handler gets is what the client wrote: a request that is sent completely is accepted
  exactly when it is at most 16 KiB long, neither its length field nor its bytes saying otherwise, its bytes are well-formed
  UTF-8, and its text, of code points below 256 as everywhere in the model, is a JSON value no object of
  which repeats a name; the value is then the whole syntax tree, with no member dropped.\<close>

theorem accepted_body_is_the_text:
  "parseBoundedJsonBody declared False (map Data chunks @ End # rest) = Some (Body v) \<longleftrightarrow>
    \<not> (case declared of None \<Rightarrow> False | Some d \<Rightarrow> decimal_form d \<and> int MAXIMUM_JSON_BODY_BYTES < digits_value d) \<and>
    length (concat chunks) \<le> MAXIMUM_JSON_BODY_BYTES \<and>
    (\<exists>source. text_decode (concat chunks) = Inr source \<and> JSON_tree source = Inr v \<and> unique_fields v)"
proof -
  define big where "big \<longleftrightarrow> (case declared of None \<Rightarrow> False | Some d \<Rightarrow> decimal_form d \<and> int MAXIMUM_JSON_BODY_BYTES < digits_value d)"
  have "readBoundedBody declared False (map Data chunks @ End # rest) =
      Some (if big then Inl BODY_TOO_LARGE
        else if length (concat chunks) \<le> MAXIMUM_JSON_BODY_BYTES then Inr (concat chunks) else Inl BODY_TOO_LARGE)"
    using whole_body [of open_body chunks rest]
    unfolding readBoundedBody_def big_def [symmetric] by (simp add: open_body_def)
  moreover have "(case parse_body raw of Inr v \<Rightarrow> Body v
      | Inl e \<Rightarrow> if e = OutOfModel then BodyOutOfModel else BodyError (syntax_error e)) = Body v \<longleftrightarrow> parse_body raw = Inr v" for raw
    by (cases "parse_body raw") auto
  ultimately show ?thesis
    unfolding parse_body_iff [symmetric] big_def [symmetric] by (simp add: parseBoundedJsonBody_def)
qed

text \<open>Whatever is reported, and in whatever order, the reader settles once, with a prefix of at most the
  limit or with an error.\<close>

lemma reader_settles:
  "settles_with [] events (bs_settled (foldl body_step open_body events))"
  using body_run [of open_body events] by (simp add: open_body_def)

end
