(* ===== verification/Web_Api.thy ===== *)
theory Web_Api
  imports Http Sessions Response_Schema Raw_Json
begin

text \<open>
  The API client of the browser (\<^verbatim>\<open>apps/web/src/api\<close>): how a response becomes a result or an
  \<^verbatim>\<open>ApiClientError\<close> (\<^verbatim>\<open>client.ts\<close>, \<^verbatim>\<open>errors.ts\<close>), what may be retried and when (\<^verbatim>\<open>retry.ts\<close>,
  \<^verbatim>\<open>API_RETRY_POLICY\<close>), and the CSRF token it reads from the cookies (\<^verbatim>\<open>csrf.ts\<close>).

  The outcome of \<^verbatim>\<open>fetch\<close> and the success schemas are arguments. An error status that the operation does
  not declare is a malformed response to the client.

  Results: a read is requested at most five times and waits a bounded time in between; a gameplay mutation is never
  repeated by the client itself, and whatever leaves its outcome open asks for an exact replay.
\<close>

section \<open>Errors\<close>

datatype client_error_kind = API_ERROR | CANCELLED | INVALID_CLIENT_REQUEST | MALFORMED_RESPONSE | NETWORK_ERROR
  | CLIENT_RATE_LIMITED | SESSION_SECURITY

record client_error =
  ce_kind :: client_error_kind
  ce_apiCode :: "api_error option"
  ce_retryAfter :: "int option"

definition client_error :: "client_error_kind \<Rightarrow> client_error" where
  "client_error k = \<lparr>ce_kind = k, ce_apiCode = None, ce_retryAfter = None\<rparr>"

section \<open>The retry policy\<close>

datatype retry_action = SAME_IDEMPOTENCY_KEY_ONLY | AFTER_RETRY_AFTER_WITH_SAME_IDEMPOTENCY_KEY
  | AFTER_REFRESH_WITH_NEW_COMMAND_KEY | NEW_VALID_COMMAND_KEY | AFTER_RETRY_AFTER | AFTER_BACKOFF

fun mutation_policy :: "api_error \<Rightarrow> retry_action option" where
  "mutation_policy INTERNAL_ERROR = Some SAME_IDEMPOTENCY_KEY_ONLY"
| "mutation_policy SERVICE_UNAVAILABLE = Some SAME_IDEMPOTENCY_KEY_ONLY"
| "mutation_policy REQUEST_TIMEOUT = Some SAME_IDEMPOTENCY_KEY_ONLY"
| "mutation_policy RATE_LIMITED = Some AFTER_RETRY_AFTER_WITH_SAME_IDEMPOTENCY_KEY"
| "mutation_policy STALE_VERSION = Some AFTER_REFRESH_WITH_NEW_COMMAND_KEY"
| "mutation_policy IDEMPOTENCY_CONFLICT = Some NEW_VALID_COMMAND_KEY"
| "mutation_policy _ = None"

fun bootstrap_policy :: "api_error \<Rightarrow> retry_action option" where
  "bootstrap_policy RATE_LIMITED = Some AFTER_RETRY_AFTER"
| "bootstrap_policy INTERNAL_ERROR = Some AFTER_BACKOFF"
| "bootstrap_policy SERVICE_UNAVAILABLE = Some AFTER_BACKOFF"
| "bootstrap_policy _ = None"

fun read_policy :: "api_error \<Rightarrow> retry_action option" where
  "read_policy INTERNAL_ERROR = Some AFTER_BACKOFF"
| "read_policy SERVICE_UNAVAILABLE = Some AFTER_BACKOFF"
| "read_policy _ = None"

definition policyAction :: "operation \<Rightarrow> api_error \<Rightarrow> retry_action option" where
  "policyAction op code =
    (if operation_auth op = AUTH_GAMEPLAY_MUTATION then mutation_policy code
     else if operation_auth op = AUTH_BOOTSTRAP then bootstrap_policy code
     else read_policy code)"

datatype retry_directive = DO_NOT_RETRY | AUTOMATIC_RETRY int | REPLAY_EXACT_MUTATION int
  | REFRESH_THEN_NEW_COMMAND | USE_NEW_COMMAND_KEY

definition backoffMilliseconds :: "int \<Rightarrow> int" where
  "backoffMilliseconds attempt = min (500 * 2 ^ nat (max 0 (min attempt 10))) 8000"

definition delay_of :: "client_error \<Rightarrow> int" where
  "delay_of e = (case ce_retryAfter e of None \<Rightarrow> 0 | Some d \<Rightarrow> d)"

definition retryDirective :: "operation \<Rightarrow> client_error \<Rightarrow> int \<Rightarrow> retry_directive" where
  "retryDirective op e attempt =
    (let isMutation = operation_auth op = AUTH_GAMEPLAY_MUTATION
     in if ce_kind e = NETWORK_ERROR \<or> ce_kind e = MALFORMED_RESPONSE \<or> ce_kind e = CANCELLED
        then if isMutation then REPLAY_EXACT_MUTATION 0
             else if ce_kind e = CANCELLED then DO_NOT_RETRY else AUTOMATIC_RETRY (backoffMilliseconds attempt)
        else if ce_kind e = CLIENT_RATE_LIMITED
        then if isMutation then REPLAY_EXACT_MUTATION (delay_of e) else AUTOMATIC_RETRY (delay_of e)
        else if ce_kind e \<noteq> API_ERROR then DO_NOT_RETRY
        else (case ce_apiCode e of None \<Rightarrow> DO_NOT_RETRY
          | Some code \<Rightarrow> (case policyAction op code of
              Some SAME_IDEMPOTENCY_KEY_ONLY \<Rightarrow> REPLAY_EXACT_MUTATION 0
            | Some AFTER_RETRY_AFTER_WITH_SAME_IDEMPOTENCY_KEY \<Rightarrow> REPLAY_EXACT_MUTATION (delay_of e)
            | Some AFTER_RETRY_AFTER \<Rightarrow> AUTOMATIC_RETRY (delay_of e)
            | Some AFTER_BACKOFF \<Rightarrow> AUTOMATIC_RETRY (backoffMilliseconds attempt)
            | Some AFTER_REFRESH_WITH_NEW_COMMAND_KEY \<Rightarrow> REFRESH_THEN_NEW_COMMAND
            | Some NEW_VALID_COMMAND_KEY \<Rightarrow> USE_NEW_COMMAND_KEY
            | None \<Rightarrow> DO_NOT_RETRY)))"

section \<open>Reading an error response\<close>

fun api_error_name :: "api_error \<Rightarrow> string" where
  "api_error_name INVALID_REQUEST = ''INVALID_REQUEST''"
| "api_error_name INVALID_GUESS = ''INVALID_GUESS''"
| "api_error_name AUTHENTICATION_REQUIRED = ''AUTHENTICATION_REQUIRED''"
| "api_error_name REQUEST_FORBIDDEN = ''REQUEST_FORBIDDEN''"
| "api_error_name RESOURCE_NOT_FOUND = ''RESOURCE_NOT_FOUND''"
| "api_error_name NO_CURRENT_CASE = ''NO_CURRENT_CASE''"
| "api_error_name IDEMPOTENCY_CONFLICT = ''IDEMPOTENCY_CONFLICT''"
| "api_error_name STALE_VERSION = ''STALE_VERSION''"
| "api_error_name EVIDENCE_LIMIT = ''EVIDENCE_LIMIT''"
| "api_error_name TERMINAL_ATTEMPT = ''TERMINAL_ATTEMPT''"
| "api_error_name BODY_TOO_LARGE = ''BODY_TOO_LARGE''"
| "api_error_name UNSUPPORTED_MEDIA_TYPE = ''UNSUPPORTED_MEDIA_TYPE''"
| "api_error_name RATE_LIMITED = ''RATE_LIMITED''"
| "api_error_name INTERNAL_ERROR = ''INTERNAL_ERROR''"
| "api_error_name SERVICE_UNAVAILABLE = ''SERVICE_UNAVAILABLE''"
| "api_error_name REQUEST_TIMEOUT = ''REQUEST_TIMEOUT''"

definition API_ERROR_CODES :: "api_error list" where
  "API_ERROR_CODES = [INVALID_REQUEST, INVALID_GUESS, AUTHENTICATION_REQUIRED, REQUEST_FORBIDDEN, RESOURCE_NOT_FOUND,
     NO_CURRENT_CASE, IDEMPOTENCY_CONFLICT, STALE_VERSION, EVIDENCE_LIMIT, TERMINAL_ATTEMPT, BODY_TOO_LARGE,
     UNSUPPORTED_MEDIA_TYPE, RATE_LIMITED, INTERNAL_ERROR, SERVICE_UNAVAILABLE, REQUEST_TIMEOUT]"

definition error_of_name :: "string \<Rightarrow> api_error option" where
  "error_of_name s = find (\<lambda>c. api_error_name c = s) API_ERROR_CODES"

definition PUBLIC_ERROR_FIELD_PATHS :: "string list" where
  "PUBLIC_ERROR_FIELD_PATHS = [''$'', ''$.attemptId'', ''$.command'', ''$.command.entityId'', ''$.command.kind'',
     ''$.cursor'', ''$.expectedVersion'', ''$.headers.contentType'', ''$.headers.csrfToken'',
     ''$.headers.idempotencyKey'', ''$.headers.origin'', ''$.limit'', ''$.q'', ''$.slotId'']"

definition FIELD_CODES :: "string list" where
  "FIELD_CODES = [''REQUIRED'', ''INVALID_TYPE'', ''INVALID_FORMAT'', ''OUT_OF_BOUNDS'', ''UNKNOWN_FIELD'', ''DUPLICATE_FIELD'']"

text \<open>The members of a strict object, when it has no others than those allowed.\<close>

definition strict_object :: "string list \<Rightarrow> js_value \<Rightarrow> bool" where
  "strict_object names v = (case v of Object ms \<Rightarrow> list_all (\<lambda>m. fst m \<in> set names) ms | _ \<Rightarrow> False)"

definition field_schema :: "js_value \<Rightarrow> bool" where
  "field_schema v \<longleftrightarrow> strict_object [''path'', ''code''] v \<and>
    (case js_field v ''path'' of String p \<Rightarrow> p \<in> set PUBLIC_ERROR_FIELD_PATHS | _ \<Rightarrow> False) \<and>
    (case js_field v ''code'' of String c \<Rightarrow> c \<in> set FIELD_CODES | _ \<Rightarrow> False)"

definition errorResponseSchema :: "zod \<Rightarrow> js_value \<Rightarrow> (api_error \<times> string) option" where
  "errorResponseSchema z v =
    (let e = js_field v ''error''
     in if \<not> strict_object [''error''] v \<or> \<not> strict_object [''code'', ''requestId'', ''fields''] e then None
        else (case (js_field e ''code'', js_field e ''requestId'') of
            (String c, String r) \<Rightarrow>
              if z_uuid z r \<and> (case js_field e ''fields'' of Undefined \<Rightarrow> True
                  | Array fs \<Rightarrow> length fs \<le> 32 \<and> list_all field_schema fs | _ \<Rightarrow> False)
              then map_option (\<lambda>code. (code, r)) (error_of_name c) else None
          | _ \<Rightarrow> None))"

section \<open>The response\<close>

text \<open>What arrives: the status, two header fields and the JSON of the body (\<open>None\<close> when it cannot be read).\<close>

record http_response =
  hr_status :: int
  hr_contentType :: "string option"
  hr_retryAfter :: "string option"
  hr_body :: "js_value option"

datatype fetch_outcome = FetchFailed | Fetched http_response

text \<open>\<^verbatim>\<open>^application\/json(?:\s*;|$)\<close>, without case.\<close>

definition json_content_type :: "string \<Rightarrow> bool" where
  "json_content_type s = (let low = ascii_lower s; rest = dropWhile js_space (drop 16 low)
     in take 16 low = ''application/json'' \<and> (drop 16 low = [] \<or> (rest \<noteq> [] \<and> hd rest = CHR '';'')))"

definition parseRetryAfter :: "http_response \<Rightarrow> client_error + int" where
  "parseRetryAfter r =
    (case hr_retryAfter r of None \<Rightarrow> Inl (client_error MALFORMED_RESPONSE)
     | Some raw \<Rightarrow>
       if raw = [] \<or> \<not> list_all is_digit raw \<or> MAX_SAFE_INTEGER < digits_value raw \<or>
          MAX_SAFE_INTEGER < digits_value raw * 1000
       then Inl (client_error MALFORMED_RESPONSE) else Inr (digits_value raw * 1000))"

definition responseJson :: "bool \<Rightarrow> http_response \<Rightarrow> client_error + js_value" where
  "responseJson aborted r =
    (if \<not> json_content_type (case hr_contentType r of None \<Rightarrow> [] | Some t \<Rightarrow> t) then Inl (client_error MALFORMED_RESPONSE)
     else (case hr_body r of None \<Rightarrow> Inl (client_error (if aborted then CANCELLED else MALFORMED_RESPONSE)) | Some v \<Rightarrow> Inr v))"

text \<open>\<open>accepts\<close> is the success schema of the operation.\<close>

definition read_response ::
  "zod \<Rightarrow> (js_value \<Rightarrow> 'a option) \<Rightarrow> operation \<Rightarrow> bool \<Rightarrow> http_response \<Rightarrow> client_error + 'a" where
  "read_response z accepts op aborted r =
    bindE (responseJson aborted r) (\<lambda>payload.
      if hr_status r = operation_success op
      then (case accepts payload of None \<Rightarrow> Inl (client_error MALFORMED_RESPONSE) | Some a \<Rightarrow> Inr a)
      else if hr_status r \<notin> set (error_statuses op) then Inl (client_error MALFORMED_RESPONSE)
      else (case errorResponseSchema z payload of None \<Rightarrow> Inl (client_error MALFORMED_RESPONSE)
        | Some (code, requestId) \<Rightarrow>
            if API_ERROR_STATUS code \<noteq> hr_status r then Inl (client_error MALFORMED_RESPONSE)
            else if code = RATE_LIMITED
            then bindE (parseRetryAfter r) (\<lambda>ms.
              Inl \<lparr>ce_kind = CLIENT_RATE_LIMITED, ce_apiCode = Some code, ce_retryAfter = Some ms\<rparr>)
            else Inl \<lparr>ce_kind = API_ERROR, ce_apiCode = Some code, ce_retryAfter = None\<rparr>))"

definition request_outcome ::
  "zod \<Rightarrow> (js_value \<Rightarrow> 'a option) \<Rightarrow> operation \<Rightarrow> bool \<Rightarrow> fetch_outcome \<Rightarrow> client_error + 'a" where
  "request_outcome z accepts op aborted outcome =
    (case outcome of FetchFailed \<Rightarrow> Inl (client_error (if aborted then CANCELLED else NETWORK_ERROR))
     | Fetched r \<Rightarrow> read_response z accepts op aborted r)"

section \<open>The CSRF token\<close>

definition csrfCookieName :: "bool \<Rightarrow> string" where
  "csrfCookieName https = (if https then ''__Host-loremaster_csrf'' else ''loremaster_local_csrf'')"

definition readCsrfToken :: "bool \<Rightarrow> string \<Rightarrow> client_error + string" where
  "readCsrfToken https cookies =
    (let name = csrfCookieName https @ ''='';
         values = map (drop (length name)) (filter (\<lambda>p. take (length name) p = name) (map js_trim (js_split (CHR '';'') cookies)))
     in (case values of [v] \<Rightarrow> if secret_form v then Inr v else Inl (client_error SESSION_SECURITY)
         | _ \<Rightarrow> Inl (client_error SESSION_SECURITY)))"

section \<open>Reads with retries\<close>

text \<open>One round for each try: what the request comes to, and whether the wait after it is cancelled. The
  result lists the waits that were made.\<close>

fun read_rounds ::
  "operation \<Rightarrow> int \<Rightarrow> int \<Rightarrow> ((client_error + 'a) \<times> bool) list \<Rightarrow> (client_error + 'a) \<times> int list" where
  "read_rounds op tries attempt [] = (Inl (client_error NETWORK_ERROR), [])"
| "read_rounds op tries attempt ((outcome, cancelled) # rounds) =
    (if tries \<le> attempt then (Inl (client_error NETWORK_ERROR), [])
     else (case outcome of Inr a \<Rightarrow> (Inr a, [])
       | Inl e \<Rightarrow> if tries \<le> attempt + 1 then (Inl e, [])
           else (case retryDirective op e attempt of
               AUTOMATIC_RETRY delay \<Rightarrow>
                 if cancelled then (Inl (client_error CANCELLED), [])
                 else (case read_rounds op tries (attempt + 1) rounds of (r, waits) \<Rightarrow> (r, delay # waits))
             | _ \<Rightarrow> (Inl e, []))))"

definition requestReadWithRetry ::
  "operation \<Rightarrow> int \<Rightarrow> ((client_error + 'a) \<times> bool) list \<Rightarrow> (client_error + 'a) \<times> int list" where
  "requestReadWithRetry op maximumAttempts rounds =
    (if operation_method op \<noteq> ''GET'' then (Inl (client_error INVALID_CLIENT_REQUEST), [])
     else read_rounds op (max 1 (min maximumAttempts 5)) 0 rounds)"

section \<open>Results\<close>

text \<open>A mutation is never repeated behind the back of its caller, and it is to be replayed exactly when the
  client cannot know what became of it, or was told to come back later.\<close>

definition outcome_open :: "client_error \<Rightarrow> bool" where
  "outcome_open e \<longleftrightarrow> ce_kind e \<in> {NETWORK_ERROR, MALFORMED_RESPONSE, CANCELLED, CLIENT_RATE_LIMITED} \<or>
    ce_kind e = API_ERROR \<and> ce_apiCode e \<in> {Some INTERNAL_ERROR, Some SERVICE_UNAVAILABLE, Some REQUEST_TIMEOUT, Some RATE_LIMITED}"

lemma mutation_directive:
  assumes "operation_auth op = AUTH_GAMEPLAY_MUTATION"
  shows "retryDirective op e attempt \<noteq> AUTOMATIC_RETRY d"
    and "(\<exists>d. retryDirective op e attempt = REPLAY_EXACT_MUTATION d) \<longleftrightarrow> outcome_open e"
proof -
  show "retryDirective op e attempt \<noteq> AUTOMATIC_RETRY d"
  proof (cases "ce_kind e = API_ERROR")
    case True
    show ?thesis
    proof (cases "ce_apiCode e")
      case (Some code)
      then show ?thesis using assms True by (cases code) (simp_all add: retryDirective_def policyAction_def)
    qed (use True in \<open>simp add: retryDirective_def\<close>)
  qed (use assms in \<open>simp add: retryDirective_def\<close>)
  show "(\<exists>d. retryDirective op e attempt = REPLAY_EXACT_MUTATION d) \<longleftrightarrow> outcome_open e"
  proof (cases "ce_kind e = API_ERROR")
    case True
    show ?thesis
    proof (cases "ce_apiCode e")
      case (Some code)
      then show ?thesis using assms True by (cases code) (simp_all add: retryDirective_def policyAction_def outcome_open_def)
    qed (use True in \<open>simp add: retryDirective_def outcome_open_def\<close>)
  qed (use assms in \<open>auto simp: retryDirective_def outcome_open_def\<close>)
qed

lemma backoff_bounds: "500 \<le> backoffMilliseconds n \<and> backoffMilliseconds n \<le> 8000"
proof -
  have "(1::int) \<le> 2 ^ nat (max 0 (min n 10))" by simp
  then show ?thesis by (simp add: backoffMilliseconds_def)
qed

text \<open>A read waits at most four times.\<close>

lemma read_rounds_waits: "attempt \<le> tries \<Longrightarrow> int (length (snd (read_rounds op tries attempt rounds))) \<le> max 0 (tries - attempt - 1)"
proof (induction op tries attempt rounds rule: read_rounds.induct)
  case (2 op tries attempt outcome cancelled rounds)
  show ?case
  proof (cases outcome)
    case (Inl e)
    show ?thesis
    proof (cases "tries \<le> attempt + 1")
      case True
      then show ?thesis using Inl by simp
    next
      case False
      show ?thesis
      proof (cases "retryDirective op e attempt")
        case (AUTOMATIC_RETRY d)
        show ?thesis
        proof (cases cancelled)
          case c: False
          have "int (length (snd (read_rounds op tries (attempt + 1) rounds))) \<le> max 0 (tries - (attempt + 1) - 1)"
            using 2(1) [OF _ Inl False AUTOMATIC_RETRY c] False by simp
          then show ?thesis using False Inl AUTOMATIC_RETRY c
            by (cases "read_rounds op tries (attempt + 1) rounds") simp
        qed (use False Inl AUTOMATIC_RETRY in simp)
      qed (use False Inl in simp_all)
    qed
  qed simp
qed simp

end
