(* ===== verification/Pending_Operation.thy ===== *)
theory Pending_Operation
  imports Web_Api
begin

text \<open>
  \<^verbatim>\<open>apps/web/src/api/pending-operation.ts\<close>: the one mutation whose outcome the browser does not know yet.
  It is kept in the session storage as JSON, and everything read from there is checked before it is
  used: a stored operation is replayed byte for byte or dropped.

  Result: what is saved is loaded, and the limit of the record is never in the way of an operation
  that was created.
\<close>

section \<open>Operations\<close>

record command_body =
  cb_expectedVersion :: int
  cb_command :: gameplay_command

record start_pending =
  sp_createdAt :: int
  sp_key :: string
  sp_slotId :: string
  sp_closesAt :: string

record command_pending =
  cm_createdAt :: int
  cm_key :: string
  cm_path :: string
  cm_body :: command_body

datatype pending_operation = START_ATTEMPT start_pending | GAMEPLAY_COMMAND command_pending

definition START_PATH :: string where
  "START_PATH = ''/api/v1/cases/current/attempt''"

definition command_path :: "string \<Rightarrow> string" where
  "command_path attemptId = ''/api/v1/attempts/'' @ attemptId @ ''/commands''"

text \<open>\<open>COMMAND_PATH_PATTERN\<close>: the identifier in a path of commands, without case.\<close>

definition command_path_id :: "string \<Rightarrow> string option" where
  "command_path_id s =
    (let attemptId = take 36 (drop 17 s)
     in if ascii_lower (take 17 s) = ''/api/v1/attempts/'' \<and> is_uuid attemptId \<and> ascii_lower (drop 53 s) = ''/commands''
        then Some attemptId else None)"

section \<open>The schemas of a request\<close>

definition command_schema :: "js_value \<Rightarrow> gameplay_command option" where
  "command_schema v =
    (case js_field v ''kind'' of
       String k \<Rightarrow>
         if k = ''GUESS'' \<and> strict_object [''kind'', ''entityId''] v
         then (case js_field v ''entityId'' of String e \<Rightarrow> if entityIdSchema e then Some (Guess e) else None | _ \<Rightarrow> None)
         else if k = ''REVEAL'' \<and> strict_object [''kind''] v then Some Reveal
         else if k = ''GIVE_UP'' \<and> strict_object [''kind''] v then Some GiveUp
         else None
     | _ \<Rightarrow> None)"

definition safe_natural :: "js_value \<Rightarrow> int option" where
  "safe_natural v = (case as_integer v of None \<Rightarrow> None | Some i \<Rightarrow> if safeNonNegativeIntegerSchema i then Some i else None)"

definition gameplayCommandRequestSchema :: "js_value \<Rightarrow> command_body option" where
  "gameplayCommandRequestSchema v =
    (if \<not> strict_object [''expectedVersion'', ''command''] v then None
     else (case (safe_natural (js_field v ''expectedVersion''), command_schema (js_field v ''command'')) of
         (Some n, Some c) \<Rightarrow> Some \<lparr>cb_expectedVersion = n, cb_command = c\<rparr>
       | _ \<Rightarrow> None))"

section \<open>Checking a stored operation\<close>

definition hasExactKeys :: "js_value \<Rightarrow> string list \<Rightarrow> bool" where
  "hasExactKeys v expected = (case v of
      Object ms \<Rightarrow> length ms = length expected \<and> list_all (\<lambda>k. k \<in> fst ` set ms) expected
    | _ \<Rightarrow> False)"

definition parseCommon :: "js_value \<Rightarrow> (int \<times> string) option" where
  "parseCommon v =
    (case (js_field v ''idempotencyKey'', safe_natural (js_field v ''createdAt'')) of
       (String key, Some createdAt) \<Rightarrow> if validateKey key then Some (createdAt, key) else None
     | _ \<Rightarrow> None)"

definition parse_start :: "zod \<Rightarrow> js_value \<Rightarrow> int \<Rightarrow> string \<Rightarrow> pending_operation option" where
  "parse_start z v createdAt key =
    (if \<not> hasExactKeys v [''body'', ''createdAt'', ''idempotencyKey'', ''kind'', ''path'', ''targetClosesAt'', ''targetSlotId'', ''version''] \<or>
        js_field v ''path'' \<noteq> String START_PATH \<or> \<not> strict_object [] (js_field v ''body'') then None
     else (case (js_field v ''targetSlotId'', js_field v ''targetClosesAt'') of
         (String slot, String closesAt) \<Rightarrow>
           if validSlotId slot \<and> z_datetime z closesAt
           then Some (START_ATTEMPT \<lparr>sp_createdAt = createdAt, sp_key = key, sp_slotId = slot, sp_closesAt = closesAt\<rparr>)
           else None
       | _ \<Rightarrow> None))"

definition parse_command :: "zod \<Rightarrow> js_value \<Rightarrow> int \<Rightarrow> string \<Rightarrow> pending_operation option" where
  "parse_command z v createdAt key =
    (if \<not> hasExactKeys v [''body'', ''createdAt'', ''idempotencyKey'', ''kind'', ''path'', ''version''] then None
     else (case js_field v ''path'' of
         String path \<Rightarrow> (case (command_path_id path, gameplayCommandRequestSchema (js_field v ''body'')) of
             (Some attemptId, Some body) \<Rightarrow>
               if z_uuid z attemptId
               then Some (GAMEPLAY_COMMAND \<lparr>cm_createdAt = createdAt, cm_key = key, cm_path = command_path attemptId, cm_body = body\<rparr>)
               else None
           | _ \<Rightarrow> None)
       | _ \<Rightarrow> None))"

definition parsePendingOperation :: "zod \<Rightarrow> js_value \<Rightarrow> pending_operation option" where
  "parsePendingOperation z v =
    (if \<not> is_object v \<or> js_field v ''version'' \<noteq> JInt 1 then None
     else (case parseCommon v of None \<Rightarrow> None
       | Some (createdAt, key) \<Rightarrow>
           if js_field v ''kind'' = String ''START_ATTEMPT'' then parse_start z v createdAt key
           else if js_field v ''kind'' = String ''GAMEPLAY_COMMAND'' then parse_command z v createdAt key
           else None))"

text \<open>The object an operation is.\<close>

fun command_value :: "gameplay_command \<Rightarrow> js_value" where
  "command_value (Guess e) = Object [(''kind'', String ''GUESS''), (''entityId'', String e)]"
| "command_value Reveal = Object [(''kind'', String ''REVEAL'')]"
| "command_value GiveUp = Object [(''kind'', String ''GIVE_UP'')]"

definition body_value :: "command_body \<Rightarrow> js_value" where
  "body_value b = Object [(''expectedVersion'', JInt (cb_expectedVersion b)), (''command'', command_value (cb_command b))]"

fun operation_value :: "pending_operation \<Rightarrow> js_value" where
  "operation_value (START_ATTEMPT s) = Object [(''createdAt'', JInt (sp_createdAt s)), (''idempotencyKey'', String (sp_key s)),
     (''version'', JInt 1), (''kind'', String ''START_ATTEMPT''), (''path'', String START_PATH), (''body'', Object []),
     (''targetSlotId'', String (sp_slotId s)), (''targetClosesAt'', String (sp_closesAt s))]"
| "operation_value (GAMEPLAY_COMMAND c) = Object [(''createdAt'', JInt (cm_createdAt c)), (''idempotencyKey'', String (cm_key c)),
     (''version'', JInt 1), (''kind'', String ''GAMEPLAY_COMMAND''), (''path'', String (cm_path c)), (''body'', body_value (cm_body c))]"

section \<open>Creating operations\<close>

datatype storage_error = PendingOperationStorageError

definition pendingAttemptId :: "command_pending \<Rightarrow> storage_error + string" where
  "pendingAttemptId c = (case command_path_id (cm_path c) of None \<Rightarrow> Inl PendingOperationStorageError | Some i \<Rightarrow> Inr i)"

definition createStartPendingOperation :: "zod \<Rightarrow> start_pending \<Rightarrow> storage_error + start_pending" where
  "createStartPendingOperation z s = (case parsePendingOperation z (operation_value (START_ATTEMPT s)) of
      Some (START_ATTEMPT s') \<Rightarrow> Inr s' | _ \<Rightarrow> Inl PendingOperationStorageError)"

definition createCommandPendingOperation ::
  "zod \<Rightarrow> string \<Rightarrow> command_body \<Rightarrow> int \<Rightarrow> string \<Rightarrow> storage_error + command_pending" where
  "createCommandPendingOperation z attemptId body createdAt key =
    (case parsePendingOperation z (operation_value (GAMEPLAY_COMMAND
        \<lparr>cm_createdAt = createdAt, cm_key = key, cm_path = command_path attemptId, cm_body = body\<rparr>)) of
      Some (GAMEPLAY_COMMAND c) \<Rightarrow> Inr c | _ \<Rightarrow> Inl PendingOperationStorageError)"

section \<open>The store\<close>

definition MAXIMUM_PENDING_RECORD_CHARACTERS :: nat where
  "MAXIMUM_PENDING_RECORD_CHARACTERS = 2048"

text \<open>The session storage holds a text or nothing; \<open>fails\<close> says that the browser refuses the access.\<close>

type_synonym storage = "string option"

definition clear_store :: "bool \<Rightarrow> storage \<Rightarrow> (storage_error + unit) \<times> storage" where
  "clear_store fails st = (if fails then (Inl PendingOperationStorageError, st) else (Inr (), None))"

text \<open>What cannot be used is dropped. (An escape of a code unit above 255 is outside the model of texts; no
  operation has one, so the text is dropped just the same.)\<close>

definition drop_stored :: "bool \<Rightarrow> storage \<Rightarrow> (storage_error + pending_operation option) \<times> storage" where
  "drop_stored clearFails st = (case clear_store clearFails st of (r, st') \<Rightarrow> (bindE r (\<lambda>_. Inr None), st'))"

definition load_store :: "zod \<Rightarrow> bool \<Rightarrow> bool \<Rightarrow> storage \<Rightarrow> (storage_error + pending_operation option) \<times> storage" where
  "load_store z fails clearFails st =
    (if fails then (Inl PendingOperationStorageError, st)
     else (case st of None \<Rightarrow> (Inr None, st)
       | Some serialized \<Rightarrow>
           if MAXIMUM_PENDING_RECORD_CHARACTERS < length serialized then drop_stored clearFails st
           else (case JSON_parse serialized of
               Inr v \<Rightarrow> (case parsePendingOperation z v of Some op \<Rightarrow> (Inr (Some op), st) | None \<Rightarrow> drop_stored clearFails st)
             | Inl _ \<Rightarrow> drop_stored clearFails st)))"

definition save_store :: "zod \<Rightarrow> bool \<Rightarrow> pending_operation \<Rightarrow> storage \<Rightarrow> (storage_error + unit) \<times> storage" where
  "save_store z fails op st =
    (case parsePendingOperation z (operation_value op) of None \<Rightarrow> (Inl PendingOperationStorageError, st)
     | Some parsed \<Rightarrow> (case json_text (operation_value parsed) of None \<Rightarrow> (Inl PendingOperationStorageError, st)
        | Some serialized \<Rightarrow>
            if MAXIMUM_PENDING_RECORD_CHARACTERS < length serialized \<or> fails then (Inl PendingOperationStorageError, st)
            else (Inr (), Some serialized)))"

section \<open>Valid operations\<close>

fun valid_command :: "gameplay_command \<Rightarrow> bool" where
  "valid_command (Guess e) = entityIdSchema e"
| "valid_command _ = True"

fun valid_pending :: "zod \<Rightarrow> pending_operation \<Rightarrow> bool" where
  "valid_pending z (START_ATTEMPT s) = (safeNonNegativeIntegerSchema (sp_createdAt s) \<and> validateKey (sp_key s) \<and>
     validSlotId (sp_slotId s) \<and> z_datetime z (sp_closesAt s))"
| "valid_pending z (GAMEPLAY_COMMAND c) = (safeNonNegativeIntegerSchema (cm_createdAt c) \<and> validateKey (cm_key c) \<and>
     (\<exists>i. cm_path c = command_path i \<and> is_uuid i \<and> z_uuid z i) \<and>
     safeNonNegativeIntegerSchema (cb_expectedVersion (cm_body c)) \<and> valid_command (cb_command (cm_body c)))"

lemma is_uuid_length: "is_uuid s \<Longrightarrow> length s = 36"
proof -
  have "length uuid_classes = 36" by (simp add: uuid_classes_def)
  then show "is_uuid s \<Longrightarrow> length s = 36" by (simp add: is_uuid_def list_all2_lengthD)
qed

lemma command_path_id_path: "is_uuid i \<Longrightarrow> command_path_id (command_path i) = Some i"
proof -
  assume i: "is_uuid i"
  have "take 17 (command_path i) = ''/api/v1/attempts/''" by (simp add: command_path_def)
  moreover have "take 36 (drop 17 (command_path i)) = i" "drop 53 (command_path i) = ''/commands''"
    using is_uuid_length [OF i] by (simp_all add: command_path_def)
  moreover have "ascii_lower ''/api/v1/attempts/'' = ''/api/v1/attempts/''" "ascii_lower ''/commands'' = ''/commands''" by code_simp+
  ultimately show ?thesis using i by (simp add: command_path_id_def)
qed

lemma safe_natural_JInt [simp]: "safe_natural (JInt i) = (if safeNonNegativeIntegerSchema i then Some i else None)"
  by (simp add: safe_natural_def)

lemma command_schema_value: "valid_command c \<Longrightarrow> command_schema (command_value c) = Some c"
  by (cases c) (simp_all add: command_schema_def strict_object_def)

lemma parse_valid: "valid_pending z p \<Longrightarrow> parsePendingOperation z (operation_value p) = Some p"
proof (cases p)
  case (START_ATTEMPT s)
  assume "valid_pending z p"
  then have v: "safeNonNegativeIntegerSchema (sp_createdAt s)" "validateKey (sp_key s)" "validSlotId (sp_slotId s)"
    "z_datetime z (sp_closesAt s)" by (simp_all add: START_ATTEMPT)
  have c: "parseCommon (operation_value p) = Some (sp_createdAt s, sp_key s)"
    using v by (simp add: START_ATTEMPT parseCommon_def)
  have "parse_start z (operation_value p) (sp_createdAt s) (sp_key s) = Some p"
    using v by (simp add: START_ATTEMPT parse_start_def hasExactKeys_def strict_object_def)
  then show ?thesis using c by (simp add: parsePendingOperation_def START_ATTEMPT)
next
  case (GAMEPLAY_COMMAND m)
  assume "valid_pending z p"
  then obtain i where v: "safeNonNegativeIntegerSchema (cm_createdAt m)" "validateKey (cm_key m)"
    and i: "cm_path m = command_path i" "is_uuid i" "z_uuid z i"
    and b: "safeNonNegativeIntegerSchema (cb_expectedVersion (cm_body m))" "valid_command (cb_command (cm_body m))"
    by (auto simp: GAMEPLAY_COMMAND)
  have c: "parseCommon (operation_value p) = Some (cm_createdAt m, cm_key m)"
    using v by (simp add: GAMEPLAY_COMMAND parseCommon_def)
  have "gameplayCommandRequestSchema (body_value (cm_body m)) = Some (cm_body m)"
    using b command_schema_value by (simp add: gameplayCommandRequestSchema_def body_value_def strict_object_def)
  then have "parse_command z (operation_value p) (cm_createdAt m) (cm_key m) = Some p"
    using i command_path_id_path by (simp add: GAMEPLAY_COMMAND parse_command_def hasExactKeys_def)
  then show ?thesis using c by (simp add: parsePendingOperation_def GAMEPLAY_COMMAND)
qed

lemma safe_natural_Some: "safe_natural v = Some i \<Longrightarrow> safeNonNegativeIntegerSchema i"
  by (auto simp: safe_natural_def split: option.splits if_splits)

lemma command_schema_valid: "command_schema v = Some c \<Longrightarrow> valid_command c"
  by (auto simp: command_schema_def split: js_value.splits if_splits)

lemma command_path_id_uuid: "command_path_id s = Some i \<Longrightarrow> is_uuid i"
  by (auto simp: command_path_id_def Let_def split: if_splits)

lemma parse_common_valid: "parseCommon v = Some (n, k) \<Longrightarrow> safeNonNegativeIntegerSchema n \<and> validateKey k"
  using safe_natural_Some by (auto simp: parseCommon_def split: js_value.splits option.splits if_splits)

lemma parse_result_valid: "parsePendingOperation z v = Some p \<Longrightarrow> valid_pending z p"
proof -
  assume a: "parsePendingOperation z v = Some p"
  then obtain n k where c: "parseCommon v = Some (n, k)"
    by (auto simp: parsePendingOperation_def split: if_splits option.splits)
  note cv = parse_common_valid [OF c]
  from a c consider "parse_start z v n k = Some p" | "parse_command z v n k = Some p"
    by (auto simp: parsePendingOperation_def split: if_splits)
  then show ?thesis
  proof cases
    case 1
    then show ?thesis using cv by (auto simp: parse_start_def split: js_value.splits if_splits)
  next
    case 2
    then obtain i b where i: "is_uuid i" "z_uuid z i" "gameplayCommandRequestSchema (js_field v ''body'') = Some b"
      and p: "p = GAMEPLAY_COMMAND \<lparr>cm_createdAt = n, cm_key = k, cm_path = command_path i, cm_body = b\<rparr>"
      by (auto simp: parse_command_def dest!: command_path_id_uuid split: js_value.splits option.splits if_splits)
    have "safeNonNegativeIntegerSchema (cb_expectedVersion b) \<and> valid_command (cb_command b)"
      using i(3) by (auto simp: gameplayCommandRequestSchema_def dest: safe_natural_Some command_schema_valid
        split: option.splits if_splits)
    then show ?thesis using i cv by (auto simp: p)
  qed
qed

section \<open>The text of an operation\<close>

lemma safe_int: "safeNonNegativeIntegerSchema i \<Longrightarrow> is_safe_integer (Num (of_int i))"
  using is_safe_integer_int [of i] by (simp add: int_number_def safeNonNegativeIntegerSchema_def is_safe_int_def MAX_SAFE_INTEGER_def)

lemma plain_JInt: "safeNonNegativeIntegerSchema i \<Longrightarrow> plain (JInt i)"
  using safe_int by (simp add: JInt_def)

lemma plain_operation: "valid_pending z p \<Longrightarrow> plain (operation_value p) \<and> unique_fields (operation_value p)"
proof (cases p)
  case (START_ATTEMPT s)
  assume "valid_pending z p"
  then show ?thesis using plain_JInt [of 1] plain_JInt [of "sp_createdAt s"]
    by (simp add: START_ATTEMPT safeNonNegativeIntegerSchema_def MAX_SAFE_INTEGER_def JInt_def)
next
  case (GAMEPLAY_COMMAND m)
  assume v: "valid_pending z p"
  have "plain (command_value c) \<and> unique_fields (command_value c)" for c by (cases c) simp_all
  then show ?thesis using v plain_JInt [of 1] plain_JInt [of "cm_createdAt m"] plain_JInt [of "cb_expectedVersion (cm_body m)"]
    by (simp add: GAMEPLAY_COMMAND body_value_def safeNonNegativeIntegerSchema_def MAX_SAFE_INTEGER_def JInt_def)
qed

lemma json_char_size: "length (json_char c) \<le> 6"
  by (simp add: json_char_def)

lemma json_string_size: "length (json_string s) \<le> 2 + 6 * length s"
proof -
  have "length (concat (map json_char s)) \<le> 6 * length s"
  proof (induction s)
    case (Cons c s)
    then show ?case using json_char_size [of c] by simp
  qed simp
  then show ?thesis by (simp add: json_string_def)
qed

lemma decimal_size: "n < 10 ^ k \<Longrightarrow> 0 < k \<Longrightarrow> length (decimal n) \<le> k"
proof (induction k arbitrary: n)
  case (Suc k)
  show ?case
  proof (cases "n < 10")
    case False
    then have "n div 10 < 10 ^ k" "0 < k" using Suc.prems by (cases k; simp)+
    then show ?thesis using Suc.IH [of "n div 10"] False by (simp add: decimal.simps [of n])
  qed (simp add: decimal.simps [of n])
qed simp

lemma json_int_size: "safeNonNegativeIntegerSchema i \<Longrightarrow> length (json_int i) \<le> 16"
proof -
  assume i: "safeNonNegativeIntegerSchema i"
  then have "nat i < 10 ^ 16" by (simp add: safeNonNegativeIntegerSchema_def MAX_SAFE_INTEGER_def nat_less_iff)
  then show ?thesis using decimal_size [of "nat i" 16] i by (simp add: json_int_def safeNonNegativeIntegerSchema_def)
qed

lemma json_text_JInt: "safeNonNegativeIntegerSchema i \<Longrightarrow> json_text (JInt i) = Some (json_int i)"
proof -
  assume "safeNonNegativeIntegerSchema i"
  then have "\<bar>of_int i :: rat\<bar> < 10 ^ 21"
    by (simp add: safeNonNegativeIntegerSchema_def MAX_SAFE_INTEGER_def abs_of_nonneg)
  then show ?thesis by (simp add: JInt_def number_text_def quotient_of_int)
qed

lemma json_text_members:
  assumes "list_all (\<lambda>(k, v). v \<noteq> Undefined \<and> (\<exists>t. json_text v = Some t \<and> length (json_string k) + length t + 2 \<le> w (k, v))) ms"
  shows "\<exists>t. json_text (Object ms) = Some t \<and> length t \<le> 2 + sum_list (map w ms)"
proof -
  define part where "part = (\<lambda>m. json_string (fst m) @ CHR '':'' # the (json_text (snd m)))"
  have items: "length (json_items xs) \<le> sum_list (map (\<lambda>x. Suc (length x)) xs)" for xs
    by (induction xs rule: json_items.induct) simp_all
  have f: "filter (\<lambda>m. snd m \<noteq> Undefined) ms = ms"
    using assms by (simp add: list_all_iff filter_id_conv case_prod_beta)
  have "those (map (\<lambda>m. map_option (\<lambda>t. json_string (fst m) @ CHR '':'' # t) (json_text (snd m))) ms) = Some (map part ms)"
    using assms by (induction ms) (auto simp: part_def)
  then have "json_text (Object ms) = Some (json_object (map part ms))" using f by simp
  moreover have "sum_list (map (\<lambda>x. Suc (length x)) (map part ms)) \<le> sum_list (map w ms)"
    using assms by (induction ms) (auto simp: part_def)
  then have "length (json_object (map part ms)) \<le> 2 + sum_list (map w ms)"
    using items [of "map part ms"] by (simp add: json_object_def)
  ultimately show ?thesis by blast
qed

text \<open>The timestamps of a case have 24 characters; 64 leaves room.\<close>

fun short_pending :: "pending_operation \<Rightarrow> bool" where
  "short_pending (START_ATTEMPT s) = (length (sp_closesAt s) \<le> 64)"
| "short_pending (GAMEPLAY_COMMAND c) = True"

definition width :: "string \<times> js_value \<Rightarrow> nat" where
  "width m = length (json_string (fst m)) + length (the (json_text (snd m))) + 2"

lemma json_text_width:
  "list_all (\<lambda>(k, v). v \<noteq> Undefined \<and> json_text v \<noteq> None) ms \<Longrightarrow>
   \<exists>t. json_text (Object ms) = Some t \<and> length t \<le> 2 + sum_list (map width ms)"
  by (rule json_text_members) (auto simp: list_all_iff width_def)

lemma slot_length: "validSlotId s \<Longrightarrow> length s = 10"
proof -
  assume "validSlotId s"
  then have "match_day s \<noteq> None" by (auto simp: validSlotId_def split: option.splits)
  then show ?thesis by (auto simp: match_day_def split: list.splits if_splits)
qed

text \<open>What the members add up to, with a bound for each kind of value.\<close>

lemma width_String: "width (k, String s) \<le> length (json_string k) + 6 * length s + 4"
  using json_string_size [of s] by (simp add: width_def)

lemma width_JInt: "safeNonNegativeIntegerSchema i \<Longrightarrow> width (k, JInt i) \<le> length (json_string k) + 18"
  using json_text_JInt [of i] json_int_size [of i] by (simp add: width_def)

lemma width_text: "json_text v = Some t \<Longrightarrow> width (k, v) = length (json_string k) + length t + 2"
  by (simp add: width_def)

lemma name_sizes:
  "length (json_string ''createdAt'') = 11"
  "length (json_string ''idempotencyKey'') = 16"
  "length (json_string ''version'') = 9"
  "length (json_string ''kind'') = 6"
  "length (json_string ''path'') = 6"
  "length (json_string ''body'') = 6"
  "length (json_string ''targetSlotId'') = 14"
  "length (json_string ''targetClosesAt'') = 16"
  "length (json_string ''expectedVersion'') = 17"
  "length (json_string ''command'') = 9"
  "length (json_string ''entityId'') = 10"
  by code_simp+

lemma one_natural: "safeNonNegativeIntegerSchema 1"
  by (simp add: safeNonNegativeIntegerSchema_def MAX_SAFE_INTEGER_def)

lemma command_text:
  assumes "valid_command c"
  shows "\<exists>t. json_text (command_value c) = Some t \<and> length t \<le> 500"
proof -
  have "\<exists>t. json_text (Object [(''kind'', String k)]) = Some t \<and> length t \<le> 500" if "length k \<le> 10" for k
    using json_text_width [of "[(''kind'', String k)]"] width_String [of "''kind''" k] that
    by (auto simp del: json_text.simps(7) simp: list_all_iff name_sizes)
  moreover have "\<exists>t. json_text (Object [(''kind'', String ''GUESS''), (''entityId'', String e)]) = Some t \<and> length t \<le> 500"
    if "length e \<le> 64" for e
    using json_text_width [of "[(''kind'', String ''GUESS''), (''entityId'', String e)]"] that
      width_String [of "''kind''" "''GUESS''"] width_String [of "''entityId''" e]
    by (auto simp del: json_text.simps(7) simp: list_all_iff name_sizes)
  ultimately show ?thesis using assms by (cases c) (auto simp del: json_text.simps(7) simp: entityIdSchema_def sized_def)
qed

lemma body_text:
  assumes "valid_command (cb_command b)" "safeNonNegativeIntegerSchema (cb_expectedVersion b)"
  shows "\<exists>t. json_text (body_value b) = Some t \<and> length t \<le> 600"
proof -
  obtain ct where ct: "json_text (command_value (cb_command b)) = Some ct" "length ct \<le> 500"
    using command_text [OF assms(1)] by blast
  let ?bs = "[(''expectedVersion'', JInt (cb_expectedVersion b)), (''command'', command_value (cb_command b))]"
  have obj: "command_value (cb_command b) \<noteq> Undefined" by (cases "cb_command b") simp_all
  have "list_all (\<lambda>(k, v). v \<noteq> Undefined \<and> json_text v \<noteq> None) ?bs"
    using ct(1) json_text_JInt [OF assms(2)] obj by simp
  from json_text_width [OF this] obtain bt where bt: "json_text (body_value b) = Some bt"
      "length bt \<le> 2 + sum_list (map width ?bs)"
    unfolding body_value_def by blast
  then show ?thesis
    using width_JInt [OF assms(2), of "''expectedVersion''"] width_text [OF ct(1), of "''command''"] ct(2)
    by (simp add: name_sizes)
qed

lemma operation_text:
  assumes "valid_pending z p" "short_pending p"
  shows "\<exists>t. json_text (operation_value p) = Some t \<and> length t \<le> MAXIMUM_PENDING_RECORD_CHARACTERS"
proof (cases p)
  case (START_ATTEMPT s)
  have v: "length (sp_key s) \<le> 128" "length (sp_slotId s) = 10" "length (sp_closesAt s) \<le> 64"
    "safeNonNegativeIntegerSchema (sp_createdAt s)"
    using assms slot_length by (auto simp: START_ATTEMPT validateKey_def)
  have e: "json_text (Object []) = Some ''{}''" by (simp add: json_object_def)
  let ?ms = "[(''createdAt'', JInt (sp_createdAt s)), (''idempotencyKey'', String (sp_key s)),
     (''version'', JInt 1), (''kind'', String ''START_ATTEMPT''), (''path'', String START_PATH), (''body'', Object []),
     (''targetSlotId'', String (sp_slotId s)), (''targetClosesAt'', String (sp_closesAt s))]"
  have "list_all (\<lambda>(k, v). v \<noteq> Undefined \<and> json_text v \<noteq> None) ?ms"
    using e json_text_JInt [OF v(4)] json_text_JInt [OF one_natural] by (simp del: json_text.simps(7))
  from json_text_width [OF this] obtain t where t: "json_text (operation_value p) = Some t" "length t \<le> 2 + sum_list (map width ?ms)"
    by (auto simp: START_ATTEMPT simp del: json_text.simps(7))
  have "sum_list (map width ?ms) \<le> 2000"
    using width_JInt [OF v(4), of "''createdAt''"] width_String [of "''idempotencyKey''" "sp_key s"]
      width_JInt [OF one_natural, of "''version''"] width_String [of "''kind''" "''START_ATTEMPT''"]
      width_String [of "''path''" START_PATH] width_text [OF e, of "''body''"]
      width_String [of "''targetSlotId''" "sp_slotId s"] width_String [of "''targetClosesAt''" "sp_closesAt s"] v(1-3)
    by (simp add: START_PATH_def name_sizes)
  then show ?thesis using t by (simp add: MAXIMUM_PENDING_RECORD_CHARACTERS_def)
next
  case (GAMEPLAY_COMMAND m)
  obtain i where i: "is_uuid i" "cm_path m = command_path i" and c: "valid_command (cb_command (cm_body m))"
    and n: "safeNonNegativeIntegerSchema (cb_expectedVersion (cm_body m))"
    and v: "length (cm_key m) \<le> 128" "safeNonNegativeIntegerSchema (cm_createdAt m)"
    using assms by (auto simp: GAMEPLAY_COMMAND validateKey_def)
  obtain bt where bt: "json_text (body_value (cm_body m)) = Some bt" and b: "length bt \<le> 600"
    using body_text [OF c n] by blast
  let ?ms = "[(''createdAt'', JInt (cm_createdAt m)), (''idempotencyKey'', String (cm_key m)),
     (''version'', JInt 1), (''kind'', String ''GAMEPLAY_COMMAND''), (''path'', String (cm_path m)), (''body'', body_value (cm_body m))]"
  have "list_all (\<lambda>(k, v). v \<noteq> Undefined \<and> json_text v \<noteq> None) ?ms"
    using bt json_text_JInt [OF v(2)] json_text_JInt [OF one_natural] by (simp add: body_value_def del: json_text.simps(7))
  from json_text_width [OF this] obtain t where t: "json_text (operation_value p) = Some t" "length t \<le> 2 + sum_list (map width ?ms)"
    by (auto simp: GAMEPLAY_COMMAND simp del: json_text.simps(7))
  have "length (cm_path m) = 62" using is_uuid_length [OF i(1)] i(2) by (simp add: command_path_def)
  then have "sum_list (map width ?ms) \<le> 2040"
    using width_JInt [OF v(2), of "''createdAt''"] width_String [of "''idempotencyKey''" "cm_key m"]
      width_JInt [OF one_natural, of "''version''"] width_String [of "''kind''" "''GAMEPLAY_COMMAND''"]
      width_String [of "''path''" "cm_path m"] width_text [OF bt, of "''body''"] b v(1)
    by (simp add: name_sizes)
  then show ?thesis using t by (simp add: MAXIMUM_PENDING_RECORD_CHARACTERS_def)
qed

section \<open>Results\<close>

lemma save_load:
  assumes "valid_pending z p" "short_pending p"
  shows "\<exists>t. save_store z False p st = (Inr (), Some t) \<and> load_store z False f (Some t) = (Inr (Some p), Some t)"
proof -
  obtain t where t: "json_text (operation_value p) = Some t" "length t \<le> MAXIMUM_PENDING_RECORD_CHARACTERS"
    using operation_text [OF assms] by blast
  have "JSON_parse t = Inr (operation_value p)"
    using JSON_round_trip [of "operation_value p"] plain_operation [OF assms(1)] t(1) by auto
  then have "load_store z False f (Some t) = (Inr (Some p), Some t)"
    using t(2) parse_valid [OF assms(1)] by (simp add: load_store_def)
  moreover have "save_store z False p st = (Inr (), Some t)"
    using t parse_valid [OF assms(1)] by (simp add: save_store_def)
  ultimately show ?thesis by blast
qed

lemma attempt_of_path: "valid_pending z (GAMEPLAY_COMMAND c) \<Longrightarrow>
    \<exists>i. cm_path c = command_path i \<and> is_uuid i \<and> pendingAttemptId c = Inr i"
  using command_path_id_path by (auto simp: pendingAttemptId_def)

lemma loaded_valid: "load_store z f cf st = (Inr (Some p), st') \<Longrightarrow> valid_pending z p \<and> st' = st"
  by (auto simp: load_store_def drop_stored_def clear_store_def bindE_def dest: parse_result_valid
    split: if_splits option.splits sum.splits)

text \<open>Property C39. Every operation that passes the check of \<^verbatim>\<open>pending-operation.ts\<close>, as each one that is created
  or loaded does, can be written to the session storage whatever is there, and a later load (also one after a reload
  of the page) gives exactly the same operation: key, body, path and target are those of the first send. For a
  command the identifier of the attempt read from its path is the one the path was made of. The timestamp of the
  targeted case may have up to 64 characters.\<close>

theorem saved_operation_is_loaded:
  assumes "parsePendingOperation z v = Some p" "short_pending p"
  shows "(\<exists>t. save_store z False p st = (Inr (), Some t) \<and> load_store z False f (Some t) = (Inr (Some p), Some t)) \<and>
    (case p of START_ATTEMPT s \<Rightarrow> True
     | GAMEPLAY_COMMAND c \<Rightarrow> \<exists>i. cm_path c = command_path i \<and> pendingAttemptId c = Inr i)"
proof -
  have v: "valid_pending z p" using parse_result_valid [OF assms(1)] .
  show ?thesis
  proof (cases p)
    case (GAMEPLAY_COMMAND c)
    then show ?thesis using save_load [OF v assms(2)] attempt_of_path [of z c] v by auto
  qed (use save_load [OF v assms(2)] in simp)
qed

definition sample_zod :: zod where
  "sample_zod = \<lparr>z_uuid = is_uuid, z_datetime = (\<lambda>s. length s = 24)\<rparr>"

definition sample_command :: command_pending where
  "sample_command = \<lparr>cm_createdAt = 12, cm_key = ''key-1'', cm_path = command_path ''01234567-89ab-4cde-8f01-23456789abcd'',
     cm_body = \<lparr>cb_expectedVersion = 1, cb_command = Guess ''tharion''\<rparr>\<rparr>"

lemma sample_command_created:
  "parsePendingOperation sample_zod (operation_value (GAMEPLAY_COMMAND sample_command)) = Some (GAMEPLAY_COMMAND sample_command)"
proof (rule parse_valid)
  have "is_uuid ''01234567-89ab-4cde-8f01-23456789abcd''" by code_simp
  moreover have "validateKey ''key-1''" "entityIdSchema ''tharion''" "safeNonNegativeIntegerSchema 12" "safeNonNegativeIntegerSchema 1"
    by code_simp+
  ultimately show "valid_pending sample_zod (GAMEPLAY_COMMAND sample_command)"
    by (auto simp: sample_command_def sample_zod_def)
qed

theorem saved_operation_is_loaded_witness:
  "\<exists>t. save_store sample_zod False (GAMEPLAY_COMMAND sample_command) None = (Inr (), Some t) \<and>
    load_store sample_zod False False (Some t) = (Inr (Some (GAMEPLAY_COMMAND sample_command)), Some t)"
  using saved_operation_is_loaded [OF sample_command_created, of None False] by simp

end
