(* ===== verification/Latest_Read.thy ===== *)
theory Latest_Read
  imports Web_Api
begin

text \<open>
  \<^verbatim>\<open>apps/web/src/state/latest-read.ts\<close>: of several overlapping reads of one resource only the newest may be
  used. A read is known by its generation, which stands for its promise and its abort controller; the
  two callbacks of the promise, \<^verbatim>\<open>then\<close> and \<^verbatim>\<open>finally\<close>, are separate steps, and whoever waits for it goes on
  after the second.

  Result: a value is accepted exactly when neither a replacing read nor a cancellation came between the start of
  its read and its arrival.
\<close>

section \<open>The reader\<close>

datatype 'v promise =
    Loading
  | Answered "client_error + 'v \<times> bool"
  | Settled "client_error + 'v \<times> bool"

record 'v latest_read =
  lr_generation :: nat
  lr_inFlight :: "nat option"
  lr_aborted :: "nat list"
  lr_promise :: "nat \<Rightarrow> 'v promise"

definition new_read :: "'v latest_read" where
  "new_read = \<lparr>lr_generation = 0, lr_inFlight = None, lr_aborted = [], lr_promise = (\<lambda>_. Loading)\<rparr>"

definition abort_read :: "'v latest_read \<Rightarrow> 'v latest_read" where
  "abort_read lr = (case lr_inFlight lr of None \<Rightarrow> lr | Some g \<Rightarrow> lr\<lparr>lr_aborted := g # lr_aborted lr\<rparr>)"

definition cancel_read :: "'v latest_read \<Rightarrow> 'v latest_read" where
  "cancel_read lr = (abort_read lr)\<lparr>lr_generation := lr_generation lr + 1, lr_inFlight := None\<rparr>"

text \<open>The generation of the promise that is returned; a new one also starts a request.\<close>

definition run_read :: "bool \<Rightarrow> 'v latest_read \<Rightarrow> nat \<times> 'v latest_read" where
  "run_read replace lr =
    (case lr_inFlight lr of
       Some g \<Rightarrow> if \<not> replace then (g, lr)
         else (lr_generation lr + 1, (abort_read lr)\<lparr>lr_generation := lr_generation lr + 1, lr_inFlight := Some (lr_generation lr + 1)\<rparr>)
     | None \<Rightarrow> (lr_generation lr + 1, lr\<lparr>lr_generation := lr_generation lr + 1, lr_inFlight := Some (lr_generation lr + 1)\<rparr>))"

text \<open>The answer arrives, or the request fails.\<close>

definition answer_read :: "nat \<Rightarrow> client_error + 'v \<Rightarrow> 'v latest_read \<Rightarrow> 'v latest_read" where
  "answer_read g outcome lr =
    (if 0 < g \<and> g \<le> lr_generation lr \<and> lr_promise lr g = Loading
     then lr\<lparr>lr_promise := (lr_promise lr)(g := Answered
       (case outcome of Inl e \<Rightarrow> Inl e | Inr v \<Rightarrow> Inr (v, g = lr_generation lr \<and> g \<notin> set (lr_aborted lr))))\<rparr>
     else lr)"

definition finally_read :: "nat \<Rightarrow> 'v latest_read \<Rightarrow> 'v latest_read" where
  "finally_read g lr =
    (case lr_promise lr g of
       Answered r \<Rightarrow> lr\<lparr>lr_promise := (lr_promise lr)(g := Settled r),
         lr_inFlight := (if lr_inFlight lr = Some g then None else lr_inFlight lr)\<rparr>
     | _ \<Rightarrow> lr)"

section \<open>Runs\<close>

datatype 'v read_event = Run bool | Cancel | Answer nat "client_error + 'v" | Finally nat

fun read_step :: "'v latest_read \<Rightarrow> 'v read_event \<Rightarrow> 'v latest_read" where
  "read_step lr (Run replace) = snd (run_read replace lr)"
| "read_step lr Cancel = cancel_read lr"
| "read_step lr (Answer g outcome) = answer_read g outcome lr"
| "read_step lr (Finally g) = finally_read g lr"

definition read_ok :: "'v latest_read \<Rightarrow> bool" where
  "read_ok lr \<longleftrightarrow> (case lr_inFlight lr of None \<Rightarrow> True | Some g \<Rightarrow> g = lr_generation lr \<and> 0 < g \<and> g \<notin> set (lr_aborted lr) \<and>
       (case lr_promise lr g of Settled r \<Rightarrow> False | _ \<Rightarrow> True)) \<and>
     (\<forall>g \<in> set (lr_aborted lr). g < lr_generation lr) \<and> (\<forall>g. lr_generation lr < g \<longrightarrow> lr_promise lr g = Loading)"

lemma read_step_ok: "read_ok lr \<Longrightarrow> read_ok (read_step lr e)"
proof (cases e)
  case (Run replace)
  assume "read_ok lr"
  then show ?thesis by (fastforce simp: Run read_ok_def run_read_def abort_read_def split: option.splits promise.splits)
next
  case Cancel
  assume "read_ok lr"
  then show ?thesis by (fastforce simp: Cancel read_ok_def cancel_read_def abort_read_def split: option.splits promise.splits)
next
  case (Answer g outcome)
  assume "read_ok lr"
  then show ?thesis by (auto simp: Answer read_ok_def answer_read_def split: option.splits promise.splits)
next
  case (Finally g)
  assume "read_ok lr"
  then show ?thesis by (auto simp: Finally read_ok_def finally_read_def split: option.splits promise.splits if_splits)
qed

interpretation reader: guarded_machine read_step read_ok
  by unfold_locales (rule read_step_ok)

lemma new_read_ok: "read_ok new_read"
  by (simp add: read_ok_def new_read_def)

text \<open>The events that take the place of the read in flight.\<close>

fun supersedes :: "'v read_event \<Rightarrow> bool" where
  "supersedes (Run replace) = replace"
| "supersedes Cancel = True"
| "supersedes _ = False"

lemma generation_grows: "lr_generation lr \<le> lr_generation (read_step lr e)"
  by (cases e) (auto simp: run_read_def cancel_read_def answer_read_def finally_read_def abort_read_def split: option.splits promise.splits)

lemma superseded_grows: "supersedes e \<Longrightarrow> lr_generation lr < lr_generation (read_step lr e)"
  by (cases e) (auto simp: run_read_def cancel_read_def abort_read_def split: option.splits)

lemma run_generation_grows: "lr_generation lr \<le> lr_generation (foldl read_step lr es)"
proof (induction es arbitrary: lr)
  case (Cons e es)
  have "lr_generation (read_step lr e) \<le> lr_generation (foldl read_step (read_step lr e) es)" by (rule Cons.IH)
  then show ?case using generation_grows [of lr e] by simp
qed simp

lemma promise_kept: "lr_promise lr g \<noteq> Loading \<Longrightarrow> lr_promise (read_step lr e) g \<noteq> Loading"
  by (cases e) (auto simp: run_read_def cancel_read_def answer_read_def finally_read_def abort_read_def split: option.splits promise.splits)

lemma loading_before: "lr_promise (foldl read_step lr es) g = Loading \<Longrightarrow> lr_promise lr g = Loading"
proof (induction es arbitrary: lr)
  case (Cons e es)
  then show ?case using promise_kept [of lr g e] by (metis foldl_Cons)
qed simp

definition waiting_for :: "nat \<Rightarrow> 'v latest_read \<Rightarrow> bool" where
  "waiting_for g lr \<longleftrightarrow> lr_inFlight lr = Some g \<and> lr_generation lr = g \<and> g \<notin> set (lr_aborted lr) \<and> lr_promise lr g = Loading"

lemma keeps_waiting:
  "waiting_for g lr \<Longrightarrow> \<not> supersedes e \<Longrightarrow> lr_promise (read_step lr e) g = Loading \<Longrightarrow> waiting_for g (read_step lr e)"
  by (cases e) (auto simp: waiting_for_def run_read_def answer_read_def finally_read_def split: promise.splits if_splits)

lemma waits_on:
  "waiting_for g lr \<Longrightarrow> list_all (\<lambda>e. \<not> supersedes e) es \<Longrightarrow> lr_promise (foldl read_step lr es) g = Loading \<Longrightarrow>
   waiting_for g (foldl read_step lr es)"
proof (induction es arbitrary: lr)
  case (Cons e es)
  then show ?case using keeps_waiting [of g lr e] loading_before [of "read_step lr e" es g] by simp
qed simp

lemma overtaken:
  "\<not> list_all (\<lambda>e. \<not> supersedes e) es \<Longrightarrow> lr_generation lr < lr_generation (foldl read_step lr es)"
proof (induction es arbitrary: lr)
  case (Cons e es)
  show ?case
  proof (cases "supersedes e")
    case True
    then show ?thesis
      using superseded_grows [of e lr] run_generation_grows [of "read_step lr e" es] by (simp del: supersedes.simps)
  next
    case False
    then have "lr_generation (read_step lr e) < lr_generation (foldl read_step (read_step lr e) es)"
      using Cons.prems by (intro Cons.IH) (simp del: supersedes.simps)
    then show ?thesis using generation_grows [of lr e] by simp
  qed
qed simp

section \<open>The latest read\<close>

text \<open>Whatever happens to a reader: when it starts a read (with \<^verbatim>\<open>run\<close>, replacing or with nothing
  in flight) and the value of that read arrives after any further events, the value is accepted exactly when none of
  those events was a replacing read or a cancellation. So a value that is used is never older than one asked for later.\<close>

lemma accepted_read_is_the_latest:
  assumes "lr0 = foldl read_step new_read es" "run_read replace lr0 = (g, lr1)" "replace \<or> lr_inFlight lr0 = None"
    "lr2 = foldl read_step lr1 es'" "lr_promise lr2 g = Loading"
  shows "lr_promise (answer_read g (Inr v) lr2) g = Answered (Inr (v, list_all (\<lambda>e. \<not> supersedes e) es'))"
proof -
  have ok0: "read_ok lr0" using reader.run_good [OF new_read_ok] assms(1) by simp
  have g: "g = lr_generation lr1" "0 < g" "lr_inFlight lr1 = Some g"
    using assms(2,3) by (auto simp: run_read_def split: option.splits)
  have "lr1 = read_step lr0 (Run replace)" using assms(2) by simp
  then have ok1: "read_ok lr1" using read_step_ok [OF ok0] by metis
  have l1: "lr_promise lr1 g = Loading" using loading_before assms(4,5) by blast
  have w: "waiting_for g lr1" using ok1 g l1 by (simp add: waiting_for_def read_ok_def)
  have le: "g \<le> lr_generation lr2" using run_generation_grows [of lr1 es'] g(1) assms(4) by simp
  show ?thesis
  proof (cases "list_all (\<lambda>e. \<not> supersedes e) es'")
    case True
    then have "waiting_for g lr2" using waits_on [OF w] assms(4,5) by simp
    then show ?thesis using True g(2) assms(5) by (simp add: answer_read_def waiting_for_def)
  next
    case False
    then have "g < lr_generation lr2" using overtaken [of es' lr1] g(1) assms(4) by simp
    then show ?thesis using False g(2) assms(5) by (simp add: answer_read_def)
  qed
qed

lemma accepted_read_is_the_latest_example:
  "lr_promise (answer_read 1 (Inr ''old'') (foldl read_step (snd (run_read False new_read)) [Run True])) 1 =
    Answered (Inr (''old'', False))"
  using accepted_read_is_the_latest [of new_read "[]" False 1 "snd (run_read False new_read)"
      "foldl read_step (snd (run_read False new_read)) [Run True]" "[Run True]" "''old''"]
  by (simp add: new_read_def run_read_def abort_read_def)

end
