(* ===== verification/Game_Controller.thy ===== *)
theory Game_Controller
  imports Pending_Operation Latest_Read
begin

text \<open>
  \<^verbatim>\<open>apps/web/src/state/controller.ts\<close>: the state machine behind the game's page. The code runs until it awaits
  something; a step of the model is the code between two awaits, and what an interrupted call still has to do
  is a task. The environment chooses which answer arrives next and which task goes on, in any order. The browser's
  storage may refuse any access, and the time, the random identifiers and \<^verbatim>\<open>Date.parse\<close> are arguments.

  Left out are the listeners, the focus and visibility events (they call \<open>refreshCurrentCase\<close>) and the abort signal of
  the session requests, whose outcome is arbitrary anyway.
\<close>

section \<open>State\<close>

datatype controller_status = IDLE | HYDRATING | READ_ERROR | READY | SESSION_LOST

datatype mutation_status = M_IDLE | IN_FLIGHT | STALE | UNCERTAIN

datatype controller_error = ApiFailure client_error | StorageFailure | PendingOperationExistsError
  | InvalidControllerActionError | OtherFailure

datatype pending_kind = KIND_START | KIND_COMMAND

record pending_summary =
  sm_createdAt :: int
  sm_kind :: pending_kind

record controller_view =
  vs_case :: "case_projection option"
  vs_attempt :: "case_projection option"
  vs_error :: "controller_error option"
  vs_mutation :: mutation_status
  vs_pending :: "pending_summary option"
  vs_expires :: "string option"
  vs_status :: controller_status

text \<open>What a call does once the read it awaits is over. The flag says that it was called by
  \<open>replayPendingOperation\<close>; \<open>AfterFailure\<close> and \<open>AfterStale\<close> rethrow the error.\<close>

datatype resumption = Return | AfterFailure bool controller_error | AfterStale bool controller_error
  | AfterReconcile pending_operation bool

datatype session_phase = GetSession | GetOrCreate | CreateSession

text \<open>A read is awaited by its generation; the reader of an attempt is an object of its own.\<close>

datatype task =
    AwaitSession nat session_phase
  | AwaitCase nat resumption
  | AwaitOwned nat nat resumption
  | AwaitMutation pending_operation bool

record controller =
  ct_view :: controller_view
  ct_store :: storage
  ct_currentRead :: "case_projection latest_read"
  ct_readers :: "nat \<Rightarrow> case_projection latest_read"
  ct_ownedReads :: "(string \<times> nat) list"
  ct_nextReader :: nat
  ct_hydrateGeneration :: nat
  ct_mutationInFlight :: bool
  ct_recoveryInProgress :: bool
  ct_sessionReady :: bool
  ct_rolloverClosesAt :: "string option"
  ct_rolloverTimer :: "(string \<times> int) option"
  ct_tasks :: "task list"

definition new_controller :: "storage \<Rightarrow> controller" where
  "new_controller st = \<lparr>ct_view = \<lparr>vs_case = None, vs_attempt = None, vs_error = None, vs_mutation = M_IDLE,
       vs_pending = None, vs_expires = None, vs_status = IDLE\<rparr>,
     ct_store = st, ct_currentRead = new_read, ct_readers = (\<lambda>_. new_read), ct_ownedReads = [], ct_nextReader = 0,
     ct_hydrateGeneration = 0, ct_mutationInFlight = False, ct_recoveryInProgress = False, ct_sessionReady = False,
     ct_rolloverClosesAt = None, ct_rolloverTimer = None, ct_tasks = []\<rparr>"

record browser =
  br_now :: int
  br_uuid :: string
  br_time :: "string \<Rightarrow> int option"
  br_loadFails :: bool
  br_clearFails :: bool
  br_saveFails :: bool

datatype reconciliation_status = NO_PENDING | RESOLVED | UNRESOLVED

text \<open>What leaves the controller: a mutation it requests, and how a call ends.\<close>

datatype controller_effect = SendMutation pending_operation | Throws controller_error | Reports reconciliation_status

section \<open>Projections\<close>

fun base_of :: "case_projection \<Rightarrow> projection_base option" where
  "base_of (ActiveAttempt p _) = Some p"
| "base_of (TerminalAttempt p _ _) = Some p"
| "base_of _ = None"

fun projection_closesAt :: "case_projection \<Rightarrow> string option" where
  "projection_closesAt NoCase = None"
| "projection_closesAt (NotStarted s) = Some (ps_closesAt s)"
| "projection_closesAt (ActiveAttempt p _) = Some (pb_closesAt p)"
| "projection_closesAt (TerminalAttempt p _ _) = Some (pb_closesAt p)"

fun commandOutcomeIsProven :: "command_pending \<Rightarrow> case_projection \<Rightarrow> bool" where
  "commandOutcomeIsProven c (TerminalAttempt p answer _) =
    (if pb_version p \<le> cb_expectedVersion (cm_body c) then False
     else (case cb_command (cm_body c) of
         GiveUp \<Rightarrow> pb_state p = GIVEN_UP
       | Reveal \<Rightarrow> False
       | Guess e \<Rightarrow>
           if pb_state p = SOLVED then es_entityId answer = e
           else pb_state p = EXHAUSTED \<and> pb_guessHistory p \<noteq> [] \<and> pub_entityId (last (pb_guessHistory p)) = e))"
| "commandOutcomeIsProven c _ = False"

fun summarizePendingOperation :: "pending_operation \<Rightarrow> pending_summary" where
  "summarizePendingOperation (START_ATTEMPT s) = \<lparr>sm_createdAt = sp_createdAt s, sm_kind = KIND_START\<rparr>"
| "summarizePendingOperation (GAMEPLAY_COMMAND c) = \<lparr>sm_createdAt = cm_createdAt c, sm_kind = KIND_COMMAND\<rparr>"

definition isAuthenticationLoss :: "client_error \<Rightarrow> bool" where
  "isAuthenticationLoss e \<longleftrightarrow> ce_kind e = API_ERROR \<and> ce_apiCode e = Some AUTHENTICATION_REQUIRED"

section \<open>Parts of the steps\<close>

definition view :: "(controller_view \<Rightarrow> controller_view) \<Rightarrow> controller \<Rightarrow> controller" where
  "view f ct = ct\<lparr>ct_view := f (ct_view ct)\<rparr>"

definition await :: "task \<Rightarrow> controller \<Rightarrow> controller" where
  "await t ct = ct\<lparr>ct_tasks := ct_tasks ct @ [t]\<rparr>"

definition cancelOwnedReads :: "string option \<Rightarrow> controller \<Rightarrow> controller" where
  "cancelOwnedReads except ct =
    (let gone = map snd (filter (\<lambda>r. Some (fst r) \<noteq> except) (ct_ownedReads ct))
     in ct\<lparr>ct_readers := (\<lambda>n. if n \<in> set gone then cancel_read (ct_readers ct n) else ct_readers ct n),
           ct_ownedReads := filter (\<lambda>r. Some (fst r) = except) (ct_ownedReads ct)\<rparr>)"

definition cancelReads :: "controller \<Rightarrow> controller" where
  "cancelReads ct = cancelOwnedReads None (ct\<lparr>ct_currentRead := cancel_read (ct_currentRead ct)\<rparr>)"

definition handleSessionLoss :: "browser \<Rightarrow> client_error \<Rightarrow> controller \<Rightarrow> controller" where
  "handleSessionLoss b e ct =
    (let ct = cancelReads (ct\<lparr>ct_hydrateGeneration := ct_hydrateGeneration ct + 1, ct_sessionReady := False\<rparr>);
         ct = ct\<lparr>ct_rolloverTimer := None, ct_store := snd (clear_store (br_clearFails b) (ct_store ct))\<rparr>
     in view (\<lambda>v. v\<lparr>vs_status := SESSION_LOST, vs_mutation := M_IDLE, vs_pending := None, vs_error := Some (ApiFailure e),
          vs_expires := None\<rparr>) ct)"

definition handleReadFailure :: "browser \<Rightarrow> controller_error \<Rightarrow> controller \<Rightarrow> controller" where
  "handleReadFailure b err ct =
    (case err of
       ApiFailure e \<Rightarrow> if isAuthenticationLoss e then handleSessionLoss b e ct
         else view (\<lambda>v. v\<lparr>vs_status := READ_ERROR, vs_error := Some (ApiFailure e)\<rparr>) ct
     | StorageFailure \<Rightarrow> view (\<lambda>v. v\<lparr>vs_status := READ_ERROR, vs_error := Some StorageFailure\<rparr>) ct
     | _ \<Rightarrow> view (\<lambda>v. v\<lparr>vs_status := READ_ERROR, vs_error := Some (ApiFailure (client_error NETWORK_ERROR))\<rparr>) ct)"

definition shows_attempt :: "string \<Rightarrow> controller_view \<Rightarrow> bool" where
  "shows_attempt attemptId v =
    (case vs_case v of None \<Rightarrow> False | Some p \<Rightarrow> (case base_of p of None \<Rightarrow> False | Some q \<Rightarrow> pb_attemptId q = attemptId))"

definition applyAttempt :: "case_projection \<Rightarrow> controller \<Rightarrow> controller" where
  "applyAttempt attempt ct =
    (case base_of attempt of None \<Rightarrow> ct
     | Some p \<Rightarrow>
       (let ct = view (\<lambda>v. v\<lparr>vs_attempt := Some attempt,
            vs_case := (if shows_attempt (pb_attemptId p) v then Some attempt else vs_case v)\<rparr>) ct
        in if pb_state p \<noteq> ACTIVE then cancelOwnedReads (Some (pb_attemptId p)) ct else ct))"

definition MAXIMUM_TIMER_DELAY :: int where
  "MAXIMUM_TIMER_DELAY = 2147483647"

definition scheduleRollover :: "browser \<Rightarrow> case_projection \<Rightarrow> controller \<Rightarrow> controller" where
  "scheduleRollover b projection ct =
    ct\<lparr>ct_rolloverTimer :=
      (case projection_closesAt projection of None \<Rightarrow> None
       | Some close \<Rightarrow> if ct_rolloverClosesAt ct = Some close then None
           else (case br_time b close of None \<Rightarrow> None
             | Some t \<Rightarrow> Some (close, max 0 (min (t - br_now b) MAXIMUM_TIMER_DELAY))))\<rparr>"

text \<open>The end of \<open>executeMutation\<close> after a failure, with the \<open>finally\<close> of its caller.\<close>

definition end_mutation :: "bool \<Rightarrow> controller_error \<Rightarrow> controller \<Rightarrow> controller_effect list \<times> controller" where
  "end_mutation replay err ct = ([Throws err],
     ct\<lparr>ct_mutationInFlight := False, ct_recoveryInProgress := (if replay then False else ct_recoveryInProgress ct)\<rparr>)"

definition end_recovery :: "controller_effect list \<Rightarrow> controller \<Rightarrow> controller_effect list \<times> controller" where
  "end_recovery effs ct = (effs, ct\<lparr>ct_recoveryInProgress := False\<rparr>)"

definition executeMutation :: "pending_operation \<Rightarrow> bool \<Rightarrow> controller \<Rightarrow> controller_effect list \<times> controller" where
  "executeMutation op replay ct =
    (if ct_mutationInFlight ct
     then ([Throws PendingOperationExistsError], ct\<lparr>ct_recoveryInProgress := (if replay then False else ct_recoveryInProgress ct)\<rparr>)
     else (let ct = view (\<lambda>v. v\<lparr>vs_pending := Some (summarizePendingOperation op), vs_mutation := IN_FLIGHT, vs_error := None\<rparr>)
                 (ct\<lparr>ct_mutationInFlight := True\<rparr>)
       in if (case op of START_ATTEMPT s \<Rightarrow> False | GAMEPLAY_COMMAND c \<Rightarrow> pendingAttemptId c = Inl PendingOperationStorageError)
          then end_mutation replay StorageFailure (view (\<lambda>v. v\<lparr>vs_mutation := UNCERTAIN\<rparr>) ct)
          else ([SendMutation op], await (AwaitMutation op replay) ct)))"

text \<open>\<open>clearPending('IDLE')\<close>: \<open>None\<close> when the storage refuses.\<close>

definition clearPending :: "browser \<Rightarrow> controller \<Rightarrow> controller option" where
  "clearPending b ct =
    (case clear_store (br_clearFails b) (ct_store ct) of
       (Inl e, st) \<Rightarrow> None
     | (Inr u, st) \<Rightarrow> Some (view (\<lambda>v. v\<lparr>vs_pending := None, vs_mutation := M_IDLE\<rparr>) (ct\<lparr>ct_store := st\<rparr>)))"

text \<open>The store is read: what it gives, and the controller with what is left of it.\<close>

definition load_pending :: "zod \<Rightarrow> browser \<Rightarrow> controller \<Rightarrow> (storage_error + pending_operation option) \<times> controller" where
  "load_pending z b ct = (case load_store z (br_loadFails b) (br_clearFails b) (ct_store ct) of (r, st) \<Rightarrow> (r, ct\<lparr>ct_store := st\<rparr>))"

section \<open>Reads\<close>

text \<open>\<open>reconcilePending\<close> after its read, and what its caller does with the answer.\<close>

definition same_revision :: "start_pending \<Rightarrow> controller_view \<Rightarrow> bool" where
  "same_revision s v = (case vs_case v of None \<Rightarrow> False
     | Some p \<Rightarrow> (case base_of p of None \<Rightarrow> False | Some q \<Rightarrow> pb_closesAt q = sp_closesAt s))"

definition target_passed :: "start_pending \<Rightarrow> controller_view \<Rightarrow> bool" where
  "target_passed s v = (case vs_case v of None \<Rightarrow> False
     | Some NoCase \<Rightarrow> True
     | Some (NotStarted slot) \<Rightarrow> ps_slotId slot \<noteq> sp_slotId s
     | Some p \<Rightarrow> (case base_of p of None \<Rightarrow> False | Some q \<Rightarrow> pb_closesAt q \<noteq> sp_closesAt s))"

definition may_replay :: "pending_operation option \<Rightarrow> controller_view \<Rightarrow> bool" where
  "may_replay pending v =
    (case (pending, vs_case v) of
       (Some (START_ATTEMPT s), Some (NotStarted slot)) \<Rightarrow>
         ps_slotId slot = sp_slotId s \<and> ps_closesAt slot = sp_closesAt s \<and> vs_status v = READY
     | _ \<Rightarrow> False)"

definition replay_start_again :: "zod \<Rightarrow> browser \<Rightarrow> controller \<Rightarrow> controller_effect list \<times> controller" where
  "replay_start_again z b ct =
    (case load_pending z b ct of
       (Inl e, ct) \<Rightarrow> end_recovery [Throws StorageFailure] ct
     | (Inr pending, ct) \<Rightarrow>
         (case pending of
            None \<Rightarrow> end_recovery [Throws InvalidControllerActionError] ct
          | Some op \<Rightarrow> if may_replay pending (ct_view ct) then executeMutation op True ct
              else end_recovery [Throws InvalidControllerActionError] ct))"

definition unresolved :: "zod \<Rightarrow> browser \<Rightarrow> bool \<Rightarrow> controller \<Rightarrow> controller_effect list \<times> controller" where
  "unresolved z b replay ct =
    (if replay then replay_start_again z b ct else end_recovery [Reports UNRESOLVED] ct)"

definition afterReconcile ::
  "zod \<Rightarrow> browser \<Rightarrow> pending_operation \<Rightarrow> bool \<Rightarrow> case_projection option \<Rightarrow> controller \<Rightarrow> controller_effect list \<times> controller" where
  "afterReconcile z b op replay attempt ct =
    (if vs_status (ct_view ct) = SESSION_LOST then unresolved z b replay ct
     else if (case op of START_ATTEMPT s \<Rightarrow> same_revision s (ct_view ct) \<or> target_passed s (ct_view ct)
         | GAMEPLAY_COMMAND c \<Rightarrow> (case attempt of None \<Rightarrow> False | Some a \<Rightarrow> commandOutcomeIsProven c a))
     then (case clearPending b ct of
         None \<Rightarrow> end_recovery [Throws StorageFailure] ct
       | Some ct \<Rightarrow> end_recovery (if replay then [] else [Reports RESOLVED]) ct)
     else unresolved z b replay (view (\<lambda>v. v\<lparr>vs_mutation := UNCERTAIN\<rparr>) ct))"

definition resume ::
  "zod \<Rightarrow> browser \<Rightarrow> resumption \<Rightarrow> case_projection option \<Rightarrow> controller \<Rightarrow> controller_effect list \<times> controller" where
  "resume z b k attempt ct =
    (case k of
       Return \<Rightarrow> ([], ct)
     | AfterFailure replay err \<Rightarrow> end_mutation replay err ct
     | AfterStale replay err \<Rightarrow> end_mutation replay err
         (if vs_status (ct_view ct) = SESSION_LOST then ct else view (\<lambda>v. v\<lparr>vs_mutation := STALE\<rparr>) ct)
     | AfterReconcile op replay \<Rightarrow> afterReconcile z b op replay attempt ct)"

definition refreshCurrentCase ::
  "zod \<Rightarrow> browser \<Rightarrow> bool \<Rightarrow> resumption \<Rightarrow> controller \<Rightarrow> controller_effect list \<times> controller" where
  "refreshCurrentCase z b replace k ct =
    (if \<not> ct_sessionReady ct \<or> vs_status (ct_view ct) = SESSION_LOST then resume z b k None ct
     else (case run_read replace (ct_currentRead ct) of
       (g, reader) \<Rightarrow> ([], await (AwaitCase g k) (ct\<lparr>ct_currentRead := reader\<rparr>))))"

definition refreshOwnedAttempt :: "string \<Rightarrow> resumption \<Rightarrow> controller \<Rightarrow> controller" where
  "refreshOwnedAttempt attemptId k ct =
    (let (n, ct) = (case map_of (ct_ownedReads ct) attemptId of
         Some n \<Rightarrow> (n, ct)
       | None \<Rightarrow> (ct_nextReader ct, ct\<lparr>ct_nextReader := ct_nextReader ct + 1,
           ct_ownedReads := ct_ownedReads ct @ [(attemptId, ct_nextReader ct)],
           ct_readers := (ct_readers ct)(ct_nextReader ct := new_read)\<rparr>));
         (g, reader) = run_read True (ct_readers ct n)
     in await (AwaitOwned n g k) (ct\<lparr>ct_readers := (ct_readers ct)(n := reader)\<rparr>))"

text \<open>The rest of \<open>refreshCurrentCase\<close> once its read is over.\<close>

definition case_arrives ::
  "zod \<Rightarrow> browser \<Rightarrow> client_error + case_projection \<times> bool \<Rightarrow> resumption \<Rightarrow> controller \<Rightarrow> controller_effect list \<times> controller" where
  "case_arrives z b outcome k ct =
    (case outcome of
       Inl e \<Rightarrow> resume z b k None (if ce_kind e = CANCELLED then ct else handleReadFailure b (ApiFailure e) ct)
     | Inr (projection, accepted) \<Rightarrow>
         if \<not> accepted then resume z b k None ct
         else (let ct = scheduleRollover b projection
               (view (\<lambda>v. v\<lparr>vs_case := Some projection, vs_status := READY, vs_error := None\<rparr>) ct)
           in (case base_of projection of
               Some p \<Rightarrow> ([], refreshOwnedAttempt (pb_attemptId p) k ct)
             | None \<Rightarrow> resume z b k None (if projection = NoCase then cancelOwnedReads None ct else ct))))"

definition owned_arrives ::
  "zod \<Rightarrow> browser \<Rightarrow> client_error + case_projection \<times> bool \<Rightarrow> resumption \<Rightarrow> controller \<Rightarrow> controller_effect list \<times> controller" where
  "owned_arrives z b outcome k ct =
    (case outcome of
       Inl e \<Rightarrow> resume z b k None (if ce_kind e = CANCELLED then ct else handleReadFailure b (ApiFailure e) ct)
     | Inr (attempt, accepted) \<Rightarrow>
         if \<not> accepted then resume z b k None ct else resume z b k (Some attempt) (applyAttempt attempt ct))"

section \<open>Mutations\<close>

definition mutation_operation :: "pending_operation \<Rightarrow> operation" where
  "mutation_operation op = (case op of START_ATTEMPT s \<Rightarrow> OP_startCurrentAttempt | GAMEPLAY_COMMAND c \<Rightarrow> OP_runGameplayCommand)"

text \<open>The branches after a failure whose outcome is known: what the pending record is forgotten for.\<close>

definition after_rejection ::
  "zod \<Rightarrow> browser \<Rightarrow> pending_operation \<Rightarrow> bool \<Rightarrow> client_error \<Rightarrow> controller \<Rightarrow> controller_effect list \<times> controller" where
  "after_rejection z b op replay e ct =
    (case op of
       GAMEPLAY_COMMAND c \<Rightarrow>
         (if ce_apiCode e = Some STALE_VERSION then
            (case pendingAttemptId c of Inl x \<Rightarrow> end_mutation replay StorageFailure ct
             | Inr i \<Rightarrow> ([], refreshOwnedAttempt i (AfterStale replay (ApiFailure e)) ct))
          else (let ct = view (\<lambda>v. v\<lparr>vs_mutation := M_IDLE\<rparr>) ct
            in if ce_apiCode e = Some NO_CURRENT_CASE then refreshCurrentCase z b True (AfterFailure replay (ApiFailure e)) ct
               else if ce_apiCode e = Some TERMINAL_ATTEMPT \<or> ce_apiCode e = Some EVIDENCE_LIMIT
               then (case pendingAttemptId c of Inl x \<Rightarrow> end_mutation replay StorageFailure ct
                 | Inr i \<Rightarrow> ([], refreshOwnedAttempt i (AfterFailure replay (ApiFailure e)) ct))
               else end_mutation replay (ApiFailure e) ct))
     | START_ATTEMPT s \<Rightarrow>
         (let ct = view (\<lambda>v. v\<lparr>vs_mutation := M_IDLE\<rparr>) ct
          in if ce_apiCode e = Some NO_CURRENT_CASE then refreshCurrentCase z b True (AfterFailure replay (ApiFailure e)) ct
             else end_mutation replay (ApiFailure e) ct))"

definition handleMutationFailure ::
  "zod \<Rightarrow> browser \<Rightarrow> pending_operation \<Rightarrow> bool \<Rightarrow> controller_error \<Rightarrow> controller \<Rightarrow> controller_effect list \<times> controller" where
  "handleMutationFailure z b op replay err ct =
    (case err of
       ApiFailure e \<Rightarrow>
         if isAuthenticationLoss e then end_mutation replay err (handleSessionLoss b e ct)
         else (case retryDirective (mutation_operation op) e 0 of
             REPLAY_EXACT_MUTATION d \<Rightarrow> end_mutation replay err
               (view (\<lambda>v. v\<lparr>vs_mutation := UNCERTAIN, vs_error := Some err,
                  vs_pending := Some (summarizePendingOperation op)\<rparr>) ct)
           | _ \<Rightarrow> (case clear_store (br_clearFails b) (ct_store ct) of
                (Inl x, st) \<Rightarrow> end_mutation replay StorageFailure (ct\<lparr>ct_store := st\<rparr>)
              | (Inr u, st) \<Rightarrow> after_rejection z b op replay e
                  (view (\<lambda>v. v\<lparr>vs_pending := None, vs_error := Some err\<rparr>) (ct\<lparr>ct_store := st\<rparr>))))
     | _ \<Rightarrow> end_mutation replay err (view (\<lambda>v. v\<lparr>vs_mutation := UNCERTAIN\<rparr>) ct))"

definition mutation_answers ::
  "zod \<Rightarrow> browser \<Rightarrow> pending_operation \<Rightarrow> bool \<Rightarrow> controller_error + case_projection \<Rightarrow> controller \<Rightarrow>
    controller_effect list \<times> controller" where
  "mutation_answers z b op replay outcome ct =
    (case outcome of
       Inl err \<Rightarrow> handleMutationFailure z b op replay err ct
     | Inr attempt \<Rightarrow> (case clear_store (br_clearFails b) (ct_store ct) of
          (Inl x, st) \<Rightarrow> handleMutationFailure z b op replay StorageFailure (ct\<lparr>ct_store := st\<rparr>)
        | (Inr u, st) \<Rightarrow>
            (let ct = ct\<lparr>ct_store := st\<rparr>;
                 ct = (case op of START_ATTEMPT s \<Rightarrow> view (\<lambda>v. v\<lparr>vs_case := Some attempt\<rparr>) ct | GAMEPLAY_COMMAND c \<Rightarrow> ct);
                 ct = view (\<lambda>v. v\<lparr>vs_pending := None, vs_mutation := M_IDLE, vs_status := READY\<rparr>) (applyAttempt attempt ct)
             in ([], ct\<lparr>ct_mutationInFlight := False,
                   ct_recoveryInProgress := (if replay then False else ct_recoveryInProgress ct)\<rparr>))))"

definition runNewMutation :: "zod \<Rightarrow> browser \<Rightarrow> pending_operation \<Rightarrow> controller \<Rightarrow> controller_effect list \<times> controller" where
  "runNewMutation z b op ct =
    (if ct_mutationInFlight ct \<or> ct_recoveryInProgress ct then ([Throws PendingOperationExistsError], ct)
     else (case load_pending z b ct of
         (Inl e, ct) \<Rightarrow> ([Throws StorageFailure], ct)
       | (Inr (Some p), ct) \<Rightarrow> ([Throws PendingOperationExistsError], ct)
       | (Inr None, ct) \<Rightarrow> (case save_store z (br_saveFails b) op (ct_store ct) of
            (Inl e, st) \<Rightarrow> ([Throws StorageFailure], ct)
          | (Inr u, st) \<Rightarrow> executeMutation op False
              (view (\<lambda>v. v\<lparr>vs_pending := Some (summarizePendingOperation op), vs_mutation := IN_FLIGHT, vs_error := None\<rparr>)
                (ct\<lparr>ct_store := st\<rparr>)))))"

definition createIdempotencyKey :: "browser \<Rightarrow> controller_error + string" where
  "createIdempotencyKey b = (if validateKey (br_uuid b) then Inr (br_uuid b) else Inl OtherFailure)"

definition startAttempt :: "zod \<Rightarrow> browser \<Rightarrow> controller \<Rightarrow> controller_effect list \<times> controller" where
  "startAttempt z b ct =
    (case vs_case (ct_view ct) of
       Some (NotStarted slot) \<Rightarrow> (case createIdempotencyKey b of Inl err \<Rightarrow> ([Throws err], ct)
         | Inr key \<Rightarrow> (case createStartPendingOperation z
               \<lparr>sp_createdAt = br_now b, sp_key = key, sp_slotId = ps_slotId slot, sp_closesAt = ps_closesAt slot\<rparr> of
             Inl e \<Rightarrow> ([Throws StorageFailure], ct)
           | Inr s \<Rightarrow> runNewMutation z b (START_ATTEMPT s) ct))
     | _ \<Rightarrow> ([Throws InvalidControllerActionError], ct))"

definition submitCommand :: "zod \<Rightarrow> browser \<Rightarrow> command_body \<Rightarrow> controller \<Rightarrow> controller_effect list \<times> controller" where
  "submitCommand z b body ct =
    (case vs_attempt (ct_view ct) of
       None \<Rightarrow> ([Throws InvalidControllerActionError], ct)
     | Some a \<Rightarrow> (case base_of a of None \<Rightarrow> ([Throws InvalidControllerActionError], ct)
         | Some p \<Rightarrow>
           if pb_state p \<noteq> ACTIVE \<or> cb_expectedVersion body \<noteq> pb_version p then ([Throws InvalidControllerActionError], ct)
           else (case createIdempotencyKey b of Inl err \<Rightarrow> ([Throws err], ct)
             | Inr key \<Rightarrow> (case createCommandPendingOperation z (pb_attemptId p) body (br_now b) key of
                 Inl e \<Rightarrow> ([Throws StorageFailure], ct)
               | Inr c \<Rightarrow> runNewMutation z b (GAMEPLAY_COMMAND c) ct))))"

section \<open>Recovery\<close>

definition reconcilePending ::
  "zod \<Rightarrow> browser \<Rightarrow> pending_operation \<Rightarrow> bool \<Rightarrow> controller \<Rightarrow> controller_effect list \<times> controller" where
  "reconcilePending z b op replay ct =
    (case op of
       START_ATTEMPT s \<Rightarrow> refreshCurrentCase z b True (AfterReconcile op replay) ct
     | GAMEPLAY_COMMAND c \<Rightarrow> (case pendingAttemptId c of
          Inl e \<Rightarrow> end_recovery [Throws StorageFailure] ct
        | Inr i \<Rightarrow> ([], refreshOwnedAttempt i (AfterReconcile op replay) ct)))"

definition replayPendingOperation :: "zod \<Rightarrow> browser \<Rightarrow> controller \<Rightarrow> controller_effect list \<times> controller" where
  "replayPendingOperation z b ct =
    (if ct_mutationInFlight ct \<or> ct_recoveryInProgress ct then ([Throws PendingOperationExistsError], ct)
     else (case load_pending z b (ct\<lparr>ct_recoveryInProgress := True\<rparr>) of
         (Inl e, ct) \<Rightarrow> end_recovery [Throws StorageFailure] ct
       | (Inr None, ct) \<Rightarrow> end_recovery [Throws InvalidControllerActionError] ct
       | (Inr (Some op), ct) \<Rightarrow> (case op of
            START_ATTEMPT s \<Rightarrow> reconcilePending z b op True ct
          | GAMEPLAY_COMMAND c \<Rightarrow> executeMutation op True ct)))"

definition reconcilePendingOperation :: "zod \<Rightarrow> browser \<Rightarrow> controller \<Rightarrow> controller_effect list \<times> controller" where
  "reconcilePendingOperation z b ct =
    (if ct_mutationInFlight ct \<or> ct_recoveryInProgress ct then ([Throws PendingOperationExistsError], ct)
     else (case load_pending z b (ct\<lparr>ct_recoveryInProgress := True\<rparr>) of
         (Inl e, ct) \<Rightarrow> end_recovery [Throws StorageFailure] ct
       | (Inr None, ct) \<Rightarrow> end_recovery [Reports NO_PENDING] ct
       | (Inr (Some op), ct) \<Rightarrow> reconcilePending z b op False ct))"

section \<open>Sessions\<close>

definition initialize_controller :: "zod \<Rightarrow> browser \<Rightarrow> bool \<Rightarrow> controller \<Rightarrow> controller_effect list \<times> controller" where
  "initialize_controller z b createNew ct =
    (let g = ct_hydrateGeneration ct + 1;
         ct = (cancelReads (ct\<lparr>ct_hydrateGeneration := g, ct_sessionReady := False\<rparr>))\<lparr>ct_rolloverTimer := None\<rparr>;
         ct = view (\<lambda>v. v\<lparr>vs_case := (if createNew then None else vs_case v),
                vs_attempt := (if createNew then None else vs_attempt v),
                vs_status := HYDRATING, vs_mutation := M_IDLE, vs_error := None\<rparr>) ct
     in if createNew
        then (case clear_store (br_clearFails b) (ct_store ct) of
            (Inl e, st) \<Rightarrow> ([], handleReadFailure b StorageFailure ct)
          | (Inr u, st) \<Rightarrow> ([], await (AwaitSession g CreateSession) (ct\<lparr>ct_store := st\<rparr>)))
        else (case load_pending z b ct of
            (Inl e, ct) \<Rightarrow> ([], handleReadFailure b StorageFailure ct)
          | (Inr pending, ct) \<Rightarrow> ([], await (AwaitSession g (if pending = None then GetOrCreate else GetSession)) ct)))"

definition session_answers ::
  "zod \<Rightarrow> browser \<Rightarrow> nat \<Rightarrow> session_phase \<Rightarrow> client_error + string \<Rightarrow> controller \<Rightarrow> controller_effect list \<times> controller" where
  "session_answers z b g phase outcome ct =
    (case outcome of
       Inl e \<Rightarrow>
         if phase = GetOrCreate \<and> isAuthenticationLoss e then ([], await (AwaitSession g CreateSession) ct)
         else if g \<noteq> ct_hydrateGeneration ct \<or> ce_kind e = CANCELLED then ([], ct)
         else ([], handleReadFailure b (ApiFailure e) ct)
     | Inr expiresAt \<Rightarrow>
         if g \<noteq> ct_hydrateGeneration ct then ([], ct)
         else (case load_pending z b (ct\<lparr>ct_sessionReady := True\<rparr>) of
             (Inl e, ct) \<Rightarrow> ([], handleReadFailure b StorageFailure ct)
           | (Inr pending, ct) \<Rightarrow> refreshCurrentCase z b True Return
               (view (\<lambda>v. v\<lparr>vs_expires := Some expiresAt, vs_pending := map_option summarizePendingOperation pending,
                  vs_mutation := (if pending = None then M_IDLE else UNCERTAIN)\<rparr>) ct)))"

definition dispose :: "controller \<Rightarrow> controller" where
  "dispose ct = (cancelReads (ct\<lparr>ct_sessionReady := False\<rparr>))\<lparr>ct_rolloverTimer := None\<rparr>"

definition rollover :: "zod \<Rightarrow> browser \<Rightarrow> controller \<Rightarrow> controller_effect list \<times> controller" where
  "rollover z b ct =
    (case ct_rolloverTimer ct of None \<Rightarrow> ([], ct)
     | Some (close, delay) \<Rightarrow>
         refreshCurrentCase z b True Return (ct\<lparr>ct_rolloverTimer := None, ct_rolloverClosesAt := Some close\<rparr>))"

section \<open>Steps\<close>

datatype controller_event =
    Initialize bool
  | Refresh bool
  | StartAttempt
  | SubmitCommand command_body
  | Replay
  | Reconcile
  | Dispose
  | Rollover
  | CaseAnswers nat "client_error + case_projection"
  | CaseSettles nat
  | OwnedAnswers nat nat "client_error + case_projection"
  | OwnedSettles nat nat
  | SessionAnswers nat "client_error + string"
  | ReadResumes nat
  | MutationAnswers nat "controller_error + case_projection"

definition task_at :: "nat \<Rightarrow> controller \<Rightarrow> task option" where
  "task_at i ct = (if i < length (ct_tasks ct) then Some (ct_tasks ct ! i) else None)"

definition drop_task :: "nat \<Rightarrow> controller \<Rightarrow> controller" where
  "drop_task i ct = ct\<lparr>ct_tasks := take i (ct_tasks ct) @ drop (Suc i) (ct_tasks ct)\<rparr>"

definition read_resumes :: "zod \<Rightarrow> browser \<Rightarrow> nat \<Rightarrow> controller \<Rightarrow> controller_effect list \<times> controller" where
  "read_resumes z b i ct =
    (case task_at i ct of
       Some (AwaitCase g k) \<Rightarrow> (case lr_promise (ct_currentRead ct) g of
           Settled outcome \<Rightarrow> case_arrives z b outcome k (drop_task i ct) | _ \<Rightarrow> ([], ct))
     | Some (AwaitOwned n g k) \<Rightarrow> (case lr_promise (ct_readers ct n) g of
           Settled outcome \<Rightarrow> owned_arrives z b outcome k (drop_task i ct) | _ \<Rightarrow> ([], ct))
     | _ \<Rightarrow> ([], ct))"

fun controller_step :: "zod \<Rightarrow> browser \<Rightarrow> controller_event \<Rightarrow> controller \<Rightarrow> controller_effect list \<times> controller" where
  "controller_step z b (Initialize createNew) ct = initialize_controller z b createNew ct"
| "controller_step z b (Refresh replace) ct = refreshCurrentCase z b replace Return ct"
| "controller_step z b StartAttempt ct = startAttempt z b ct"
| "controller_step z b (SubmitCommand body) ct = submitCommand z b body ct"
| "controller_step z b Replay ct = replayPendingOperation z b ct"
| "controller_step z b Reconcile ct = reconcilePendingOperation z b ct"
| "controller_step z b Dispose ct = ([], dispose ct)"
| "controller_step z b Rollover ct = rollover z b ct"
| "controller_step z b (CaseAnswers g outcome) ct = ([], ct\<lparr>ct_currentRead := answer_read g outcome (ct_currentRead ct)\<rparr>)"
| "controller_step z b (CaseSettles g) ct = ([], ct\<lparr>ct_currentRead := finally_read g (ct_currentRead ct)\<rparr>)"
| "controller_step z b (OwnedAnswers n g outcome) ct =
    ([], ct\<lparr>ct_readers := (ct_readers ct)(n := answer_read g outcome (ct_readers ct n))\<rparr>)"
| "controller_step z b (OwnedSettles n g) ct =
    ([], ct\<lparr>ct_readers := (ct_readers ct)(n := finally_read g (ct_readers ct n))\<rparr>)"
| "controller_step z b (SessionAnswers i outcome) ct =
    (case task_at i ct of Some (AwaitSession g phase) \<Rightarrow> session_answers z b g phase outcome (drop_task i ct) | _ \<Rightarrow> ([], ct))"
| "controller_step z b (ReadResumes i) ct = read_resumes z b i ct"
| "controller_step z b (MutationAnswers i outcome) ct =
    (case task_at i ct of Some (AwaitMutation op replay) \<Rightarrow> mutation_answers z b op replay outcome (drop_task i ct) | _ \<Rightarrow> ([], ct))"

text \<open>A run, as the list of its steps: the event, the state before, what left the controller, the state after.\<close>

fun controller_trace ::
  "zod \<Rightarrow> (browser \<times> controller_event) list \<Rightarrow> controller \<Rightarrow>
    (controller_event \<times> controller \<times> controller_effect list \<times> controller) list" where
  "controller_trace z [] ct = []"
| "controller_trace z ((b, e) # es) ct =
    (case controller_step z b e ct of (effs, ct') \<Rightarrow> (e, ct, effs, ct') # controller_trace z es ct')"

end
