(* ===== verification/Controller_Correct.thy ===== *)
theory Controller_Correct
  imports Game_Controller
begin

text \<open>
  What the controller of the browser keeps: at most one mutation is under way, it is the one in the session
  storage, a request that is sent again is the same request, and a pending operation is only forgotten
  for a reason.
\<close>

section \<open>What is stored\<close>

definition stored :: "zod \<Rightarrow> storage \<Rightarrow> pending_operation option" where
  "stored z st = (case fst (load_store z False False st) of Inr r \<Rightarrow> r | Inl e \<Rightarrow> None)"

lemma stored_None [simp]: "stored z None = None"
  by (simp add: stored_def load_store_def)

lemma drop_stored_result: "drop_stored f st = (r, st') \<Longrightarrow> r = Inr None \<and> st' = None \<or> r = Inl PendingOperationStorageError \<and> st' = st"
  by (auto simp: drop_stored_def clear_store_def bindE_def split: if_splits)

lemma load_store_result:
  assumes "load_store z f c st = (r, st')"
  shows "stored z st' = stored z st" "r = Inr q \<Longrightarrow> q = stored z st"
proof -
  have "(f \<and> r = Inl PendingOperationStorageError \<and> st' = st) \<or> (r = Inr (stored z st) \<and> stored z st' = stored z st) \<or>
      (stored z st = None \<and> r = Inl PendingOperationStorageError \<and> st' = st)"
    using assms by (auto simp: stored_def load_store_def drop_stored_def clear_store_def bindE_def
      split: if_splits option.splits sum.splits)
  then show "stored z st' = stored z st" "r = Inr q \<Longrightarrow> q = stored z st" by auto
qed

lemma load_pending_result:
  assumes "load_pending z b ct = (r, ct')"
  shows "ct' = ct\<lparr>ct_store := ct_store ct'\<rparr>" "stored z (ct_store ct') = stored z (ct_store ct)"
    "r = Inr q \<Longrightarrow> q = stored z (ct_store ct)"
proof -
  obtain st where l: "load_store z (br_loadFails b) (br_clearFails b) (ct_store ct) = (r, st)" and c: "ct' = ct\<lparr>ct_store := st\<rparr>"
    using assms by (auto simp: load_pending_def split: prod.splits)
  show "ct' = ct\<lparr>ct_store := ct_store ct'\<rparr>" using c by simp
  show "stored z (ct_store ct') = stored z (ct_store ct)" using load_store_result(1) [OF l] c by simp
  show "r = Inr q \<Longrightarrow> q = stored z (ct_store ct)" using load_store_result(2) [OF l] by simp
qed

lemma clear_store_result: "clear_store f st = (Inr u, st') \<Longrightarrow> st' = None" "clear_store f st = (Inl e, st') \<Longrightarrow> st' = st"
  "snd (clear_store f st) = st \<or> snd (clear_store f st) = None"
  by (auto simp: clear_store_def split: if_splits)

lemma stored_valid: "stored z st = Some p \<Longrightarrow> valid_pending z p"
  using loaded_valid [of z False False st p]
  by (cases "load_store z False False st") (auto simp: stored_def split: sum.splits)

text \<open>What was saved is there.\<close>

lemma save_stored:
  assumes "save_store z f p st = (Inr u, st')" "valid_pending z p"
  shows "stored z st' = Some p"
proof -
  note parse = parse_valid [OF assms(2)]
  obtain t where t: "json_text (operation_value p) = Some t" "length t \<le> MAXIMUM_PENDING_RECORD_CHARACTERS" "st' = Some t"
    using assms(1) parse by (auto simp: save_store_def split: option.splits if_splits)
  have "JSON_parse t = Inr (operation_value p)"
    using JSON_round_trip [of "operation_value p"] plain_operation [OF assms(2)] t(1) by auto
  then show "stored z st' = Some p" using t parse by (simp add: stored_def load_store_def)
qed

section \<open>The part of the state that matters\<close>

lemma view_core [simp]:
  "ct_store (view f ct) = ct_store ct" "ct_mutationInFlight (view f ct) = ct_mutationInFlight ct"
  "ct_recoveryInProgress (view f ct) = ct_recoveryInProgress ct" "ct_tasks (view f ct) = ct_tasks ct"
  by (simp_all add: view_def)

lemma cancelOwned_core [simp]:
  "ct_store (cancelOwnedReads x ct) = ct_store ct" "ct_mutationInFlight (cancelOwnedReads x ct) = ct_mutationInFlight ct"
  "ct_recoveryInProgress (cancelOwnedReads x ct) = ct_recoveryInProgress ct" "ct_tasks (cancelOwnedReads x ct) = ct_tasks ct"
  by (simp_all add: cancelOwnedReads_def Let_def)

lemma cancelReads_core [simp]:
  "ct_store (cancelReads ct) = ct_store ct" "ct_mutationInFlight (cancelReads ct) = ct_mutationInFlight ct"
  "ct_recoveryInProgress (cancelReads ct) = ct_recoveryInProgress ct" "ct_tasks (cancelReads ct) = ct_tasks ct"
  by (simp_all add: cancelReads_def)

lemma applyAttempt_core [simp]:
  "ct_store (applyAttempt a ct) = ct_store ct" "ct_mutationInFlight (applyAttempt a ct) = ct_mutationInFlight ct"
  "ct_recoveryInProgress (applyAttempt a ct) = ct_recoveryInProgress ct" "ct_tasks (applyAttempt a ct) = ct_tasks ct"
  by (simp_all add: applyAttempt_def Let_def split: option.split)

lemma scheduleRollover_core [simp]:
  "ct_store (scheduleRollover b p ct) = ct_store ct" "ct_mutationInFlight (scheduleRollover b p ct) = ct_mutationInFlight ct"
  "ct_recoveryInProgress (scheduleRollover b p ct) = ct_recoveryInProgress ct" "ct_tasks (scheduleRollover b p ct) = ct_tasks ct"
  by (simp_all add: scheduleRollover_def)

lemma handleSessionLoss_core [simp]:
  "ct_store (handleSessionLoss b e ct) = snd (clear_store (br_clearFails b) (ct_store ct))"
  "ct_mutationInFlight (handleSessionLoss b e ct) = ct_mutationInFlight ct"
  "ct_recoveryInProgress (handleSessionLoss b e ct) = ct_recoveryInProgress ct" "ct_tasks (handleSessionLoss b e ct) = ct_tasks ct"
  by (simp_all add: handleSessionLoss_def Let_def)

lemma handleReadFailure_core [simp]:
  "ct_mutationInFlight (handleReadFailure b e ct) = ct_mutationInFlight ct"
  "ct_recoveryInProgress (handleReadFailure b e ct) = ct_recoveryInProgress ct" "ct_tasks (handleReadFailure b e ct) = ct_tasks ct"
  by (auto simp: handleReadFailure_def split: controller_error.splits)

lemma handleReadFailure_store:
  "ct_store (handleReadFailure b e ct) = ct_store ct \<or> ct_store (handleReadFailure b e ct) = None"
  using clear_store_result(3) [of "br_clearFails b" "ct_store ct"]
  by (auto simp: handleReadFailure_def split: controller_error.splits)

lemma await_core [simp]:
  "ct_store (await t ct) = ct_store ct" "ct_mutationInFlight (await t ct) = ct_mutationInFlight ct"
  "ct_recoveryInProgress (await t ct) = ct_recoveryInProgress ct" "ct_tasks (await t ct) = ct_tasks ct @ [t]"
  by (simp_all add: await_def)

lemma refreshOwned_core [simp]:
  "ct_store (refreshOwnedAttempt i k ct) = ct_store ct" "ct_mutationInFlight (refreshOwnedAttempt i k ct) = ct_mutationInFlight ct"
  "ct_recoveryInProgress (refreshOwnedAttempt i k ct) = ct_recoveryInProgress ct"
  by (auto simp: refreshOwnedAttempt_def split: option.splits prod.splits)

lemma refreshOwned_tasks: "\<exists>n g. ct_tasks (refreshOwnedAttempt i k ct) = ct_tasks ct @ [AwaitOwned n g k]"
  by (auto simp: refreshOwnedAttempt_def split: option.splits prod.splits)

section \<open>The invariant\<close>

text \<open>What a task still has to do: end the mutation, end the recovery, and the operation it is about.\<close>

fun k_busy :: "resumption \<Rightarrow> nat" where
  "k_busy (AfterFailure replay e) = 1"
| "k_busy (AfterStale replay e) = 1"
| "k_busy _ = 0"

fun k_recovers :: "resumption \<Rightarrow> nat" where
  "k_recovers (AfterFailure replay e) = of_bool replay"
| "k_recovers (AfterStale replay e) = of_bool replay"
| "k_recovers (AfterReconcile op replay) = 1"
| "k_recovers Return = 0"

fun k_holds :: "resumption \<Rightarrow> pending_operation option" where
  "k_holds (AfterReconcile op replay) = Some op"
| "k_holds _ = None"

fun t_busy :: "task \<Rightarrow> nat" where
  "t_busy (AwaitMutation op replay) = 1"
| "t_busy (AwaitCase g k) = k_busy k"
| "t_busy (AwaitOwned n g k) = k_busy k"
| "t_busy (AwaitSession g p) = 0"

fun t_recovers :: "task \<Rightarrow> nat" where
  "t_recovers (AwaitMutation op replay) = of_bool replay"
| "t_recovers (AwaitCase g k) = k_recovers k"
| "t_recovers (AwaitOwned n g k) = k_recovers k"
| "t_recovers (AwaitSession g p) = 0"

fun t_holds :: "task \<Rightarrow> pending_operation option" where
  "t_holds (AwaitMutation op replay) = Some op"
| "t_holds (AwaitCase g k) = k_holds k"
| "t_holds (AwaitOwned n g k) = k_holds k"
| "t_holds (AwaitSession g p) = None"

definition busy :: "task list \<Rightarrow> nat" where
  "busy ts = sum_list (map t_busy ts)"

definition recovers :: "task list \<Rightarrow> nat" where
  "recovers ts = sum_list (map t_recovers ts)"

lemma weights [simp]:
  "busy [] = 0" "busy (t # ts) = t_busy t + busy ts" "busy (ts @ us) = busy ts + busy us"
  "recovers [] = 0" "recovers (t # ts) = t_recovers t + recovers ts" "recovers (ts @ us) = recovers ts + recovers us"
  by (simp_all add: busy_def recovers_def)

lemma owes_one [simp]: "Suc m = of_bool c \<longleftrightarrow> c \<and> m = 0"
  by (cases c) simp_all

definition holds_ok :: "zod \<Rightarrow> storage \<Rightarrow> pending_operation option \<Rightarrow> bool" where
  "holds_ok z st h \<longleftrightarrow> h = None \<or> stored z st = None \<or> stored z st = h"

text \<open>The invariant while code runs that owes \<open>x\<close> ends of the mutation and \<open>y\<close> of the recovery.\<close>

definition running :: "zod \<Rightarrow> nat \<Rightarrow> nat \<Rightarrow> controller \<Rightarrow> bool" where
  "running z x y ct \<longleftrightarrow> busy (ct_tasks ct) + x = of_bool (ct_mutationInFlight ct) \<and>
    recovers (ct_tasks ct) + y = of_bool (ct_recoveryInProgress ct) \<and>
    list_all (\<lambda>t. holds_ok z (ct_store ct) (t_holds t)) (ct_tasks ct)"

text \<open>What a step may do to the store, and what it sends. A new operation is the exception.\<close>

definition goes :: "zod \<Rightarrow> controller \<Rightarrow> controller_effect list \<times> controller \<Rightarrow> bool" where
  "goes z ct r \<longleftrightarrow> running z 0 0 (snd r) \<and>
    (stored z (ct_store (snd r)) = stored z (ct_store ct) \<or> stored z (ct_store (snd r)) = None) \<and>
    (\<forall>p. SendMutation p \<in> set (fst r) \<longrightarrow> stored z (ct_store ct) = Some p \<and> stored z (ct_store (snd r)) = Some p \<and>
       \<not> ct_mutationInFlight ct \<and> (\<exists>replay. AwaitMutation p replay \<in> set (ct_tasks (snd r))))"

lemma running_same:
  "running z x y ct \<Longrightarrow> ct_mutationInFlight ct' = ct_mutationInFlight ct \<Longrightarrow>
   ct_recoveryInProgress ct' = ct_recoveryInProgress ct \<Longrightarrow> ct_tasks ct' = ct_tasks ct \<Longrightarrow>
   stored z (ct_store ct') = stored z (ct_store ct) \<or> stored z (ct_store ct') = None \<Longrightarrow> running z x y ct'"
  by (auto simp: running_def holds_ok_def list_all_iff)

lemma goes_from:
  "goes z ct1 r \<Longrightarrow> stored z (ct_store ct1) = stored z (ct_store ct) \<or> stored z (ct_store ct1) = None \<Longrightarrow>
   ct_mutationInFlight ct1 = ct_mutationInFlight ct \<Longrightarrow> goes z ct r"
  by (auto simp: goes_def)

lemma goes_silent:
  "running z 0 0 ct' \<Longrightarrow> stored z (ct_store ct') = stored z (ct_store ct) \<or> stored z (ct_store ct') = None \<Longrightarrow>
   \<forall>p. SendMutation p \<notin> set effs \<Longrightarrow> goes z ct (effs, ct')"
  by (simp add: goes_def)

lemma end_mutation_goes: "running z 1 (of_bool replay) ct \<Longrightarrow> goes z ct (end_mutation replay e ct)"
  unfolding end_mutation_def by (rule goes_silent) (auto simp: running_def split: if_splits)

lemma end_recovery_goes:
  "running z 0 1 ct \<Longrightarrow> \<forall>p. SendMutation p \<notin> set effs \<Longrightarrow> goes z ct (end_recovery effs ct)"
  unfolding end_recovery_def by (rule goes_silent) (auto simp: running_def)

lemma stored_send: "stored z (ct_store ct) = Some op \<Longrightarrow>
    (case op of START_ATTEMPT s \<Rightarrow> False | GAMEPLAY_COMMAND c \<Rightarrow> pendingAttemptId c = Inl PendingOperationStorageError) = False"
  using stored_valid [of z "ct_store ct" op] attempt_of_path
  by (cases op) (fastforce simp del: valid_pending.simps)+

lemma executeMutation_goes:
  assumes "running z 0 (of_bool replay) ct" "stored z (ct_store ct) = Some op"
  shows "goes z ct (executeMutation op replay ct)"
proof (cases "ct_mutationInFlight ct")
  case True
  then show ?thesis using assms unfolding executeMutation_def
    by (auto intro!: goes_silent simp: running_def)
next
  case False
  then have "executeMutation op replay ct = ([SendMutation op], await (AwaitMutation op replay)
      (view (\<lambda>v. v\<lparr>vs_pending := Some (summarizePendingOperation op), vs_mutation := IN_FLIGHT, vs_error := None\<rparr>)
        (ct\<lparr>ct_mutationInFlight := True\<rparr>)))"
    using stored_send [OF assms(2)] by (simp add: executeMutation_def)
  then show ?thesis using assms False by (auto simp: goes_def running_def holds_ok_def)
qed

lemma load_running:
  assumes "running z x y ct" "load_pending z b ct = (r, ct')"
  shows "running z x y ct'" "stored z (ct_store ct') = stored z (ct_store ct)" "ct_mutationInFlight ct' = ct_mutationInFlight ct"
    "ct_recoveryInProgress ct' = ct_recoveryInProgress ct" "ct_tasks ct' = ct_tasks ct" "ct_sessionReady ct' = ct_sessionReady ct"
proof -
  note l = load_pending_result [OF assms(2)]
  have e: "ct_mutationInFlight ct' = ct_mutationInFlight ct" "ct_recoveryInProgress ct' = ct_recoveryInProgress ct"
    "ct_tasks ct' = ct_tasks ct" "ct_sessionReady ct' = ct_sessionReady ct"
    using l(1) by (metis controller.select_convs controller.surjective controller.update_convs(2))+
  show "running z x y ct'" using running_same [OF assms(1) e(1-3)] l(2) by simp
qed (use load_pending_result [OF assms(2)] in \<open>metis controller.select_convs controller.surjective controller.update_convs(2)\<close>)+

section \<open>Reads and recovery keep the invariant\<close>

lemma replay_start_again_goes: "running z 0 1 ct \<Longrightarrow> goes z ct (replay_start_again z b ct)"
proof -
  assume r: "running z 0 1 ct"
  obtain q ct' where l: "load_pending z b ct = (q, ct')" by fastforce
  note l' = load_running [OF r l]
  show ?thesis
  proof (cases q)
    case (Inl e)
    then show ?thesis using l l' end_recovery_goes [of z ct' "[Throws StorageFailure]"] goes_from [of z ct' _ ct]
      by (simp add: replay_start_again_def)
  next
    case (Inr pending)
    have e: "goes z ct (end_recovery [Throws InvalidControllerActionError] ct')"
      using l' end_recovery_goes [of z ct' "[Throws InvalidControllerActionError]"] goes_from [of z ct' _ ct] by simp
    show ?thesis
    proof (cases pending)
      case (Some op)
      then have "stored z (ct_store ct') = Some op" using load_pending_result(3) [OF l] l'(2) Inr by simp
      then have "goes z ct (executeMutation op True ct')"
        using executeMutation_goes [of z True ct' op] l' goes_from [of z ct' _ ct] by simp
      then show ?thesis using e by (simp add: replay_start_again_def l Inr Some)
    qed (use e in \<open>simp add: replay_start_again_def l Inr\<close>)
  qed
qed

lemma unresolved_goes: "running z 0 1 ct \<Longrightarrow> goes z ct (unresolved z b replay ct)"
  using replay_start_again_goes end_recovery_goes by (simp add: unresolved_def)

lemma afterReconcile_goes:
  assumes "running z 0 1 ct"
  shows "goes z ct (afterReconcile z b op replay attempt ct)"
proof -
  have u: "goes z ct (unresolved z b replay (view f ct))" for f
    using unresolved_goes [of z "view f ct"] running_same [OF assms] goes_from [of z "view f ct" _ ct] by simp
  have c: "goes z ct (end_recovery effs ct')" if "clearPending b ct = Some ct'" "\<forall>p. SendMutation p \<notin> set effs" for ct' effs
  proof -
    have "ct_store ct' = None" "ct_mutationInFlight ct' = ct_mutationInFlight ct"
      "ct_recoveryInProgress ct' = ct_recoveryInProgress ct" "ct_tasks ct' = ct_tasks ct"
      using that(1) by (auto simp: clearPending_def clear_store_def split: if_splits)
    then show ?thesis
      using end_recovery_goes [OF running_same [OF assms] that(2)] goes_from [of z ct' _ ct] by simp
  qed
  show ?thesis
    unfolding afterReconcile_def
    using unresolved_goes [OF assms] u c end_recovery_goes [OF assms, of "[Throws StorageFailure]"]
    by (auto split: option.split)
qed

lemma resume_goes:
  assumes "running z (k_busy k) (k_recovers k) ct"
  shows "goes z ct (resume z b k attempt ct)"
proof (cases k)
  case (AfterStale replay e)
  then have r: "running z 1 (of_bool replay) ct" using assms by simp
  have "goes z ct (end_mutation replay e (view f ct))" for f
    using end_mutation_goes [OF running_same [OF r, of "view f ct"]] goes_from [of z "view f ct" _ ct] by simp
  then show ?thesis using AfterStale end_mutation_goes [OF r] by (simp add: resume_def)
qed (use assms in \<open>auto simp: resume_def intro: goes_silent end_mutation_goes afterReconcile_goes\<close>)

lemma awaits_goes:
  assumes "running z (t_busy t) (t_recovers t) ct" "holds_ok z (ct_store ct) (t_holds t)"
    "ct_store ct' = ct_store ct" "ct_mutationInFlight ct' = ct_mutationInFlight ct"
    "ct_recoveryInProgress ct' = ct_recoveryInProgress ct" "ct_tasks ct' = ct_tasks ct @ [t]"
  shows "goes z ct ([], ct')"
  using assms by (intro goes_silent) (auto simp: running_def)

lemma refreshCurrentCase_goes:
  assumes "running z (k_busy k) (k_recovers k) ct" "holds_ok z (ct_store ct) (k_holds k)"
  shows "goes z ct (refreshCurrentCase z b replace k ct)"
proof (cases "\<not> ct_sessionReady ct \<or> vs_status (ct_view ct) = SESSION_LOST")
  case True
  then show ?thesis using resume_goes [OF assms(1)] by (simp add: refreshCurrentCase_def)
next
  case False
  obtain g reader where "run_read replace (ct_currentRead ct) = (g, reader)" by fastforce
  then show ?thesis using False assms awaits_goes [of z "AwaitCase g k" ct] by (simp add: refreshCurrentCase_def)
qed

lemma refreshOwned_goes:
  assumes "running z (k_busy k) (k_recovers k) ct" "holds_ok z (ct_store ct) (k_holds k)"
  shows "goes z ct ([], refreshOwnedAttempt i k ct)"
proof -
  obtain n g where "ct_tasks (refreshOwnedAttempt i k ct) = ct_tasks ct @ [AwaitOwned n g k]"
    using refreshOwned_tasks by blast
  then show ?thesis using assms awaits_goes [of z "AwaitOwned n g k" ct] by simp
qed

lemma failure_keeps:
  assumes "running z x y ct"
  shows "running z x y (handleReadFailure b e ct)"
    "stored z (ct_store (handleReadFailure b e ct)) = stored z (ct_store ct) \<or> stored z (ct_store (handleReadFailure b e ct)) = None"
proof -
  show s: "stored z (ct_store (handleReadFailure b e ct)) = stored z (ct_store ct) \<or> stored z (ct_store (handleReadFailure b e ct)) = None"
    using handleReadFailure_store [of b e ct] by auto
  show "running z x y (handleReadFailure b e ct)" using running_same [OF assms _ _ _ s] by simp
qed

lemma resume_failed_goes:
  assumes "running z (k_busy k) (k_recovers k) ct"
  shows "goes z ct (resume z b k attempt (handleReadFailure b e ct))"
  using goes_from [OF resume_goes [OF failure_keeps(1) [OF assms]] failure_keeps(2) [OF assms]] by simp

text \<open>A state that differs only in what is shown and read.\<close>

definition same_core :: "controller \<Rightarrow> controller \<Rightarrow> bool" where
  "same_core ct ct' \<longleftrightarrow> ct_store ct' = ct_store ct \<and> ct_mutationInFlight ct' = ct_mutationInFlight ct \<and>
    ct_recoveryInProgress ct' = ct_recoveryInProgress ct \<and> ct_tasks ct' = ct_tasks ct"

lemma same_core_running: "same_core ct ct' \<Longrightarrow> running z x y ct \<Longrightarrow> running z x y ct'"
  by (auto simp: same_core_def intro: running_same)

lemma same_core_goes: "same_core ct ct' \<Longrightarrow> goes z ct' r \<Longrightarrow> goes z ct r"
  by (erule goes_from) (simp_all add: same_core_def)

lemma case_arrives_goes:
  assumes "running z (k_busy k) (k_recovers k) ct" "holds_ok z (ct_store ct) (k_holds k)"
  shows "goes z ct (case_arrives z b outcome k ct)"
proof (cases outcome)
  case (Inl e)
  then show ?thesis using resume_goes [OF assms(1)] resume_failed_goes [OF assms(1)] by (simp add: case_arrives_def)
next
  case (Inr v)
  obtain projection accepted where v: "v = (projection, accepted)" by (cases v)
  define ct1 where "ct1 = scheduleRollover b projection (view (\<lambda>v. v\<lparr>vs_case := Some projection, vs_status := READY, vs_error := None\<rparr>) ct)"
  have c: "same_core ct ct1" "same_core ct (cancelOwnedReads None ct1)" by (simp_all add: same_core_def ct1_def)
  have "goes z ct ([], refreshOwnedAttempt i k ct1)" for i
    using same_core_goes [OF c(1) refreshOwned_goes] same_core_running [OF c(1) assms(1)] assms(2) c(1) by (simp add: same_core_def)
  moreover have "goes z ct (resume z b k None ct1)" "goes z ct (resume z b k None (cancelOwnedReads None ct1))"
    using same_core_goes resume_goes same_core_running assms(1) c by blast+
  ultimately show ?thesis
    using resume_goes [OF assms(1)] by (simp add: case_arrives_def Inr v ct1_def [symmetric] split: option.split)
qed

lemma owned_arrives_goes:
  assumes "running z (k_busy k) (k_recovers k) ct"
  shows "goes z ct (owned_arrives z b outcome k ct)"
proof (cases outcome)
  case (Inl e)
  then show ?thesis using resume_goes [OF assms(1)] resume_failed_goes [OF assms(1)] by (simp add: owned_arrives_def)
next
  case (Inr v)
  obtain attempt accepted where v: "v = (attempt, accepted)" by (cases v)
  have "same_core ct (applyAttempt attempt ct)" by (simp add: same_core_def)
  then show ?thesis using same_core_goes resume_goes same_core_running assms by (simp add: owned_arrives_def Inr v)
qed

section \<open>Mutations keep the invariant\<close>

lemma after_rejection_goes:
  assumes "running z 1 (of_bool replay) ct"
  shows "goes z ct (after_rejection z b op replay e ct)"
proof -
  have r: "running z 1 (of_bool replay) (view f ct)" for f using running_same [OF assms, of "view f ct"] by simp
  have g: "goes z (view f ct) x \<Longrightarrow> goes z ct x" for f x using goes_from [of z "view f ct" x ct] by simp
  have f: "goes z ct (refreshCurrentCase z b True (AfterFailure replay err) (view f ct))" for err f
    using refreshCurrentCase_goes [of z "AfterFailure replay err" "view f ct"] r by (auto intro: g simp: holds_ok_def)
  have o: "goes z ct ([], refreshOwnedAttempt i (AfterFailure replay err) (view f ct))"
    "goes z ct ([], refreshOwnedAttempt i (AfterStale replay err) ct)" for i err f
    using refreshOwned_goes [of z "AfterFailure replay err" "view f ct"] refreshOwned_goes [of z "AfterStale replay err" ct] r assms
    by (auto intro: g simp: holds_ok_def)
  have e: "goes z ct (end_mutation replay err (view f ct))" "goes z ct (end_mutation replay err ct)" for err f
    using end_mutation_goes [OF r] end_mutation_goes [OF assms] by (auto intro: g)
  show ?thesis
    unfolding after_rejection_def by (cases op) (auto simp: Let_def f o e split: sum.split)
qed

lemma clear_running:
  assumes "running z x y ct" "clear_store f (ct_store ct) = (r, st)"
  shows "running z x y (ct\<lparr>ct_store := st\<rparr>)" "stored z st = stored z (ct_store ct) \<or> stored z st = None"
proof -
  show s: "stored z st = stored z (ct_store ct) \<or> stored z st = None"
    using assms(2) by (auto simp: clear_store_def split: if_splits)
  show "running z x y (ct\<lparr>ct_store := st\<rparr>)" using running_same [OF assms(1), of "ct\<lparr>ct_store := st\<rparr>"] s by simp
qed

lemma handleMutationFailure_goes:
  assumes "running z 1 (of_bool replay) ct"
  shows "goes z ct (handleMutationFailure z b op replay err ct)"
proof -
  have v: "goes z ct (end_mutation replay x (view f ct))" for x f
    using end_mutation_goes [OF running_same [OF assms, of "view f ct"]] goes_from [of z "view f ct" _ ct] by simp
  show ?thesis
  proof (cases err)
    case (ApiFailure e)
    have lost: "goes z ct (end_mutation replay x (handleSessionLoss b e ct))" for x
    proof -
      have s: "stored z (ct_store (handleSessionLoss b e ct)) = stored z (ct_store ct) \<or> stored z (ct_store (handleSessionLoss b e ct)) = None"
        using clear_store_result(3) [of "br_clearFails b" "ct_store ct"] by auto
      show ?thesis
        using goes_from [OF end_mutation_goes [OF running_same [OF assms _ _ _ s]] s] by simp
    qed
    obtain q st where q: "clear_store (br_clearFails b) (ct_store ct) = (q, st)" by fastforce
    note c = clear_running [OF assms q]
    let ?rest = "case q of Inl x \<Rightarrow> end_mutation replay StorageFailure (ct\<lparr>ct_store := st\<rparr>)
      | Inr u \<Rightarrow> after_rejection z b op replay e (view (\<lambda>v. v\<lparr>vs_pending := None, vs_error := Some err\<rparr>) (ct\<lparr>ct_store := st\<rparr>))"
    have "goes z ct ?rest"
    proof (cases q)
      case (Inl x)
      then show ?thesis using goes_from [OF end_mutation_goes [OF c(1)], of ct] c(2) by simp
    next
      case (Inr u)
      let ?ct = "view (\<lambda>v. v\<lparr>vs_pending := None, vs_error := Some err\<rparr>) (ct\<lparr>ct_store := st\<rparr>)"
      have "running z 1 (of_bool replay) ?ct" using running_same [OF c(1), of ?ct] by simp
      then show ?thesis using goes_from [OF after_rejection_goes, of z replay ?ct ct] c(2) Inr by simp
    qed
    from this [unfolded ApiFailure] lost v show ?thesis
      by (auto simp: handleMutationFailure_def ApiFailure q split: retry_directive.split)
  qed (use v in \<open>auto simp: handleMutationFailure_def\<close>)
qed

lemma mutation_answers_goes:
  assumes "running z 1 (of_bool replay) ct"
  shows "goes z ct (mutation_answers z b op replay outcome ct)"
proof (cases outcome)
  case (Inl err)
  then show ?thesis using handleMutationFailure_goes [OF assms] by (simp add: mutation_answers_def)
next
  case (Inr attempt)
  obtain q st where q: "clear_store (br_clearFails b) (ct_store ct) = (q, st)" by fastforce
  note c = clear_running [OF assms q]
  show ?thesis
  proof (cases q)
    case (Inl x)
    then show ?thesis using goes_from [OF handleMutationFailure_goes [OF c(1)], of ct] c(2) by (simp add: mutation_answers_def Inr q)
  next
    case (Inr u)
    have ended: "goes z ct ([], ct2\<lparr>ct_mutationInFlight := False,
          ct_recoveryInProgress := (if replay then False else ct_recoveryInProgress ct2)\<rparr>)"
      if "same_core (ct\<lparr>ct_store := st\<rparr>) ct2" for ct2
    proof -
      have "running z 1 (of_bool replay) ct2" "ct_store ct2 = st"
        using same_core_running [OF that c(1)] that by (simp_all add: same_core_def)
      then show ?thesis using c(2) by (intro goes_silent) (auto simp: running_def split: if_splits)
    qed
    have "same_core (ct\<lparr>ct_store := st\<rparr>) (view f (applyAttempt attempt (ct\<lparr>ct_store := st\<rparr>)))"
      "same_core (ct\<lparr>ct_store := st\<rparr>) (view f (applyAttempt attempt (view g (ct\<lparr>ct_store := st\<rparr>))))" for f g
      by (simp_all add: same_core_def)
    then show ?thesis
      using ended by (cases op) (simp_all add: mutation_answers_def \<open>outcome = Inr attempt\<close> q Inr Let_def)
  qed
qed

section \<open>Every step\<close>

fun op_key :: "pending_operation \<Rightarrow> string" where
  "op_key (START_ATTEMPT s) = sp_key s"
| "op_key (GAMEPLAY_COMMAND c) = cm_key c"

lemma parse_key:
  assumes "parsePendingOperation z (operation_value p) = Some q"
  shows "op_key q = op_key p"
proof -
  obtain n k where c: "parseCommon (operation_value p) = Some (n, k)"
    using assms by (auto simp: parsePendingOperation_def split: if_splits option.splits)
  then have "k = op_key p"
    by (cases p) (auto simp: parseCommon_def split: if_splits option.splits)
  moreover from assms c have "parse_start z (operation_value p) n k = Some q \<or> parse_command z (operation_value p) n k = Some q"
    by (auto simp: parsePendingOperation_def split: if_splits)
  then have "op_key q = k"
    by (auto simp: parse_start_def parse_command_def split: js_value.splits option.splits if_splits)
  ultimately show ?thesis by simp
qed

text \<open>A new operation: nothing was pending, and now it is stored, sent and under way.\<close>

definition starts :: "zod \<Rightarrow> browser \<Rightarrow> controller \<Rightarrow> controller_effect list \<times> controller \<Rightarrow> pending_operation \<Rightarrow> bool" where
  "starts z b ct r p \<longleftrightarrow> fst r = [SendMutation p] \<and> op_key p = br_uuid b \<and> \<not> ct_mutationInFlight ct \<and>
    stored z (ct_store ct) = None \<and> stored z (ct_store (snd r)) = Some p \<and> running z 0 0 (snd r) \<and>
    (\<exists>replay. AwaitMutation p replay \<in> set (ct_tasks (snd r)))"

lemma idle_resumption: "k_recovers k = 0 \<Longrightarrow> k_holds k = None"
  by (cases k) simp_all

lemma idle_task: "t_busy t = 0 \<Longrightarrow> t_recovers t = 0 \<Longrightarrow> t_holds t = None"
  by (cases t) (auto simp: idle_resumption)

lemma idle_tasks: "busy ts = 0 \<Longrightarrow> recovers ts = 0 \<Longrightarrow> list_all (\<lambda>t. t_holds t = None) ts"
  by (induction ts) (auto simp: idle_task)

lemma runNewMutation_effect:
  assumes "running z 0 0 ct" "valid_pending z p" "op_key p = br_uuid b"
  shows "goes z ct (runNewMutation z b p ct) \<or> starts z b ct (runNewMutation z b p ct) p"
proof (cases "ct_mutationInFlight ct \<or> ct_recoveryInProgress ct")
  case True
  then show ?thesis using assms(1) by (auto simp: runNewMutation_def intro: goes_silent)
next
  case False
  obtain q ct' where l: "load_pending z b ct = (q, ct')" by fastforce
  note l' = load_running [OF assms(1) l]
  have quiet: "goes z ct ([Throws err], ct')" for err using l' by (auto intro: goes_silent)
  show ?thesis
  proof (cases q)
    case (Inr pending)
    show ?thesis
    proof (cases pending)
      case None
      obtain w st where w: "save_store z (br_saveFails b) p (ct_store ct') = (w, st)" by fastforce
      show ?thesis
      proof (cases w)
        case (Inr u)
        let ?ct = "view (\<lambda>v. v\<lparr>vs_pending := Some (summarizePendingOperation p), vs_mutation := IN_FLIGHT, vs_error := None\<rparr>)
            (ct'\<lparr>ct_store := st\<rparr>)"
        have st: "stored z st = Some p" using save_stored w Inr assms(2) by blast
        have n: "stored z (ct_store ct) = None" using load_pending_result(3) [OF l] \<open>q = Inr pending\<close> None by simp
        have "busy (ct_tasks ct') = 0" "recovers (ct_tasks ct') = 0" using assms(1) False l' by (simp_all add: running_def)
        then have "list_all (\<lambda>t. t_holds t = None) (ct_tasks ct')" by (rule idle_tasks)
        then have "running z 0 0 ?ct" using assms(1) l' False by (auto simp: running_def list_all_iff holds_ok_def)
        then have "goes z ?ct (executeMutation p False ?ct)" using executeMutation_goes [of z False ?ct p] st by simp
        moreover have "fst (executeMutation p False ?ct) = [SendMutation p]"
          using stored_send [of z ?ct p] st False l' by (simp add: executeMutation_def)
        ultimately have "starts z b ct (executeMutation p False ?ct) p"
          using n assms(3) False by (auto simp: starts_def goes_def)
        then show ?thesis using False l \<open>q = Inr pending\<close> None w Inr by (simp add: runNewMutation_def)
      qed (use False l Inr None w quiet in \<open>simp add: runNewMutation_def\<close>)
    qed (use False l Inr quiet in \<open>simp add: runNewMutation_def\<close>)
  qed (use False l quiet in \<open>simp add: runNewMutation_def\<close>)
qed

lemma startAttempt_effect:
  assumes "running z 0 0 ct"
  shows "goes z ct (startAttempt z b ct) \<or> (\<exists>p. starts z b ct (startAttempt z b ct) p)"
proof -
  have quiet: "goes z ct ([Throws err], ct)" for err using assms by (auto intro: goes_silent)
  have run: "goes z ct (runNewMutation z b (START_ATTEMPT s) ct) \<or> (\<exists>p. starts z b ct (runNewMutation z b (START_ATTEMPT s) ct) p)"
    if "createStartPendingOperation z s0 = Inr s" "sp_key s0 = br_uuid b" for s0 s
  proof -
    have "parsePendingOperation z (operation_value (START_ATTEMPT s0)) = Some (START_ATTEMPT s)"
      using that(1) by (auto simp: createStartPendingOperation_def split: option.splits pending_operation.splits)
    from parse_result_valid [OF this] parse_key [OF this] show ?thesis
      using runNewMutation_effect [OF assms] that(2) by (metis op_key.simps(1))
  qed
  show ?thesis
    unfolding startAttempt_def createIdempotencyKey_def
    using quiet run by (auto split: option.split case_projection.split sum.split)
qed

lemma submitCommand_effect:
  assumes "running z 0 0 ct"
  shows "goes z ct (submitCommand z b body ct) \<or> (\<exists>p. starts z b ct (submitCommand z b body ct) p)"
proof -
  have quiet: "goes z ct ([Throws err], ct)" for err using assms by (auto intro: goes_silent)
  have run: "goes z ct (runNewMutation z b (GAMEPLAY_COMMAND c) ct) \<or> (\<exists>p. starts z b ct (runNewMutation z b (GAMEPLAY_COMMAND c) ct) p)"
    if "createCommandPendingOperation z i body n (br_uuid b) = Inr c" for i n c
  proof -
    let ?c0 = "\<lparr>cm_createdAt = n, cm_key = br_uuid b, cm_path = command_path i, cm_body = body\<rparr>"
    have "parsePendingOperation z (operation_value (GAMEPLAY_COMMAND ?c0)) = Some (GAMEPLAY_COMMAND c)"
      using that by (auto simp: createCommandPendingOperation_def split: option.splits pending_operation.splits)
    from parse_result_valid [OF this] parse_key [OF this] show ?thesis
      using runNewMutation_effect [OF assms] by (metis op_key.simps(2) command_pending.select_convs(2))
  qed
  show ?thesis
    unfolding submitCommand_def createIdempotencyKey_def
    using quiet run by (auto split: option.split sum.split)
qed

lemma reconcilePending_goes:
  assumes "running z 0 1 ct" "stored z (ct_store ct) = Some op"
  shows "goes z ct (reconcilePending z b op replay ct)"
  using assms refreshCurrentCase_goes [of z "AfterReconcile op replay" ct] refreshOwned_goes [of z "AfterReconcile op replay" ct]
    end_recovery_goes [of z ct "[Throws StorageFailure]"]
  by (auto simp: reconcilePending_def holds_ok_def split: pending_operation.split sum.split)

lemma begin_recovery: "running z 0 0 ct \<Longrightarrow> \<not> ct_recoveryInProgress ct \<Longrightarrow> running z 0 1 (ct\<lparr>ct_recoveryInProgress := True\<rparr>)"
  by (simp add: running_def)

lemma recovery_effect:
  assumes "running z 0 0 ct"
  shows "goes z ct (replayPendingOperation z b ct)" "goes z ct (reconcilePendingOperation z b ct)"
proof -
  have "goes z ct (replayPendingOperation z b ct) \<and> goes z ct (reconcilePendingOperation z b ct)"
  proof (cases "ct_mutationInFlight ct \<or> ct_recoveryInProgress ct")
    case True
    then show ?thesis using assms by (auto simp: replayPendingOperation_def reconcilePendingOperation_def intro: goes_silent)
  next
    case False
    let ?ct = "ct\<lparr>ct_recoveryInProgress := True\<rparr>"
    have r: "running z 0 1 ?ct" using begin_recovery [OF assms] False by simp
    obtain q ct' where l: "load_pending z b ?ct = (q, ct')" by fastforce
    note l' = load_running [OF r l]
    have g: "goes z ct' x \<Longrightarrow> goes z ct x" for x using goes_from [of z ct' x ct] l' by simp
    have e: "goes z ct (end_recovery effs ct')" if "\<forall>p. SendMutation p \<notin> set effs" for effs
      using g end_recovery_goes [OF l'(1) that] by blast
    have op: "goes z ct (reconcilePending z b p replay ct') \<and> goes z ct (executeMutation p True ct')" if "q = Inr (Some p)" for p replay
    proof -
      have "stored z (ct_store ct') = Some p" using load_pending_result(3) [OF l that] l'(2) by simp
      then show ?thesis using reconcilePending_goes [OF l'(1)] executeMutation_goes [of z True ct' p] l'(1) g by simp
    qed
    show ?thesis
      using False e op by (auto simp: replayPendingOperation_def reconcilePendingOperation_def l
        split: sum.split option.split pending_operation.split)
  qed
  then show "goes z ct (replayPendingOperation z b ct)" "goes z ct (reconcilePendingOperation z b ct)" by blast+
qed

lemma session_task_goes:
  "running z 0 0 ct \<Longrightarrow> goes z ct ([], await (AwaitSession g phase) ct)"
  by (rule awaits_goes [of z "AwaitSession g phase"]) (simp_all add: holds_ok_def)

lemma initialize_goes:
  assumes "running z 0 0 ct"
  shows "goes z ct (initialize_controller z b createNew ct)"
proof -
  define ct1 where "ct1 = view (\<lambda>v. v\<lparr>vs_case := (if createNew then None else vs_case v),
      vs_attempt := (if createNew then None else vs_attempt v), vs_status := HYDRATING, vs_mutation := M_IDLE, vs_error := None\<rparr>)
    ((cancelReads (ct\<lparr>ct_hydrateGeneration := ct_hydrateGeneration ct + 1, ct_sessionReady := False\<rparr>))\<lparr>ct_rolloverTimer := None\<rparr>)"
  have c: "same_core ct ct1" by (simp add: same_core_def ct1_def)
  then have r: "running z 0 0 ct1" using same_core_running assms by blast
  have failed: "goes z ct2 ([], handleReadFailure b StorageFailure ct2)" if "running z 0 0 ct2" for ct2
    using failure_keeps [OF that] by (intro goes_silent) auto
  obtain q st where q: "clear_store (br_clearFails b) (ct_store ct1) = (q, st)" by fastforce
  obtain w ct2 where w: "load_pending z b ct1 = (w, ct2)" by fastforce
  note cr = clear_running [OF r q] and lr = load_running [OF r w]
  have "goes z ct1 (initialize_controller z b createNew ct)"
    unfolding initialize_controller_def Let_def ct1_def [symmetric] q w
    using failed [OF r] goes_from [OF session_task_goes [OF cr(1)]] cr(2) goes_from [OF failed [OF lr(1)]]
      goes_from [OF session_task_goes [OF lr(1)]] lr(2,3)
    by (auto split: sum.split)
  then show ?thesis using same_core_goes [OF c] by blast
qed

lemma session_answers_goes:
  assumes "running z 0 0 ct"
  shows "goes z ct (session_answers z b g phase outcome ct)"
proof (cases outcome)
  case (Inl e)
  have "goes z ct ([], handleReadFailure b x ct)" for x using failure_keeps [OF assms] by (intro goes_silent) auto
  moreover have "goes z ct ([], ct)" using assms by (intro goes_silent) auto
  ultimately show ?thesis using session_task_goes [OF assms] by (simp add: session_answers_def Inl)
next
  case (Inr expires)
  let ?ct = "ct\<lparr>ct_sessionReady := True\<rparr>"
  have r: "running z 0 0 ?ct" using assms by (simp add: running_def)
  obtain w ct2 where w: "load_pending z b ?ct = (w, ct2)" by fastforce
  note lr = load_running [OF r w]
  have g: "goes z ct2 x \<Longrightarrow> goes z ct x" for x using goes_from [of z ct2 x ct] lr by simp
  have "goes z ct2 ([], handleReadFailure b x ct2)" for x using failure_keeps [OF lr(1)] by (intro goes_silent) auto
  moreover have "goes z ct2 (refreshCurrentCase z b True Return (view f ct2))" for f
  proof -
    have "running z 0 0 (view f ct2)" using running_same [OF lr(1), of "view f ct2"] by simp
    then show ?thesis using refreshCurrentCase_goes [of z Return "view f ct2"] goes_from [of z "view f ct2" _ ct2] by (simp add: holds_ok_def)
  qed
  moreover have "goes z ct ([], ct)" using assms by (intro goes_silent) auto
  ultimately show ?thesis using g by (auto simp: session_answers_def Inr w split: sum.split)
qed

lemma sum_list_split: "i < length xs \<Longrightarrow> busy (take i xs @ drop (Suc i) xs) + t_busy (xs ! i) = busy xs"
  "i < length xs \<Longrightarrow> recovers (take i xs @ drop (Suc i) xs) + t_recovers (xs ! i) = recovers xs"
  using id_take_nth_drop [of i xs] weights(3,6) by (metis (no_types, lifting) add.commute add.left_commute weights(2,5))+

lemma drop_task_running:
  assumes "running z 0 0 ct" "task_at i ct = Some t"
  shows "running z (t_busy t) (t_recovers t) (drop_task i ct)" "holds_ok z (ct_store (drop_task i ct)) (t_holds t)"
    "ct_store (drop_task i ct) = ct_store ct" "ct_mutationInFlight (drop_task i ct) = ct_mutationInFlight ct"
proof -
  have i: "i < length (ct_tasks ct)" "t = ct_tasks ct ! i" using assms(2) by (auto simp: task_at_def split: if_splits)
  then show "running z (t_busy t) (t_recovers t) (drop_task i ct)" "holds_ok z (ct_store (drop_task i ct)) (t_holds t)"
    using assms(1) sum_list_split [OF i(1)]
    by (auto simp: running_def drop_task_def list_all_iff dest: in_set_takeD in_set_dropD simp del: weights(3,6))
qed (simp_all add: drop_task_def)

lemma read_resumes_goes:
  assumes "running z 0 0 ct"
  shows "goes z ct (read_resumes z b i ct)"
proof -
  have stay: "goes z ct ([], ct)" using assms by (intro goes_silent) auto
  show ?thesis
  proof (cases "task_at i ct")
    case (Some t)
    note d = drop_task_running [OF assms Some]
    have g: "goes z (drop_task i ct) x \<Longrightarrow> goes z ct x" for x using goes_from [of z "drop_task i ct" x ct] d by simp
    show ?thesis
    proof (cases t)
      case (AwaitCase n k)
      then show ?thesis using Some d stay case_arrives_goes [of z k "drop_task i ct"] g
        by (auto simp: read_resumes_def split: promise.split)
    next
      case (AwaitOwned m n k)
      then show ?thesis using Some d stay owned_arrives_goes [of z k "drop_task i ct"] g
        by (auto simp: read_resumes_def split: promise.split)
    qed (use Some stay in \<open>simp_all add: read_resumes_def\<close>)
  qed (use stay in \<open>simp add: read_resumes_def\<close>)
qed

fun creates :: "controller_event \<Rightarrow> bool" where
  "creates StartAttempt = True"
| "creates (SubmitCommand body) = True"
| "creates _ = False"

lemma step_effect:
  assumes "running z 0 0 ct"
  shows "goes z ct (controller_step z b e ct) \<or> creates e \<and> (\<exists>p. starts z b ct (controller_step z b e ct) p)"
proof (cases e)
  case (SessionAnswers i outcome)
  have stay: "goes z ct ([], ct)" using assms by (intro goes_silent) auto
  show ?thesis
  proof (cases "\<exists>g phase. task_at i ct = Some (AwaitSession g phase)")
    case True
    then obtain g phase where t: "task_at i ct = Some (AwaitSession g phase)" by blast
    note d = drop_task_running [OF assms t]
    show ?thesis using session_answers_goes [of z "drop_task i ct"] d goes_from [of z "drop_task i ct" _ ct]
      by (simp add: SessionAnswers t)
  qed (use stay in \<open>auto simp: SessionAnswers split: option.split task.split\<close>)
next
  case (MutationAnswers i outcome)
  have stay: "goes z ct ([], ct)" using assms by (intro goes_silent) auto
  show ?thesis
  proof (cases "\<exists>op replay. task_at i ct = Some (AwaitMutation op replay)")
    case True
    then obtain op replay where t: "task_at i ct = Some (AwaitMutation op replay)" by blast
    note d = drop_task_running [OF assms t]
    show ?thesis using mutation_answers_goes [of z replay "drop_task i ct"] d goes_from [of z "drop_task i ct" _ ct]
      by (simp add: MutationAnswers t)
  qed (use stay in \<open>auto simp: MutationAnswers split: option.split task.split\<close>)
next
  case (Rollover)
  have "running z 0 0 (ct\<lparr>ct_rolloverTimer := None, ct_rolloverClosesAt := Some close\<rparr>)" for close
    using assms by (simp add: running_def)
  then have "goes z ct (refreshCurrentCase z b True Return (ct\<lparr>ct_rolloverTimer := None, ct_rolloverClosesAt := Some close\<rparr>))" for close
    using refreshCurrentCase_goes [of z Return "ct\<lparr>ct_rolloverTimer := None, ct_rolloverClosesAt := Some close\<rparr>"]
      goes_from [of z "ct\<lparr>ct_rolloverTimer := None, ct_rolloverClosesAt := Some close\<rparr>" _ ct] by (simp add: holds_ok_def)
  moreover have "goes z ct ([], ct)" using assms by (intro goes_silent) auto
  ultimately show ?thesis by (auto simp: Rollover rollover_def split: option.split)
qed (use assms startAttempt_effect submitCommand_effect recovery_effect initialize_goes read_resumes_goes
    refreshCurrentCase_goes [of z Return ct] in \<open>auto simp: dispose_def holds_ok_def running_def intro: goes_silent\<close>)

section \<open>One mutation at a time, and replayed exactly\<close>

definition created_keys :: "(browser \<times> controller_event) list \<Rightarrow> string list" where
  "created_keys es = map (\<lambda>s. br_uuid (fst s)) (filter (\<lambda>s. creates (snd s)) es)"

definition sent :: "(controller_event \<times> controller \<times> controller_effect list \<times> controller) list \<Rightarrow> pending_operation set" where
  "sent tr = {p. \<exists>s \<in> set tr. SendMutation p \<in> set (fst (snd (snd s)))}"

lemma sent_simps [simp]: "sent [] = {}" "sent ((e, ct, effs, ct') # tr) = {p. SendMutation p \<in> set effs} \<union> sent tr"
  by (auto simp: sent_def)

definition one_at_a_time :: "zod \<Rightarrow> (controller_event \<times> controller \<times> controller_effect list \<times> controller) \<Rightarrow> bool" where
  "one_at_a_time z s \<longleftrightarrow> (case s of (e, ct, effs, ct') \<Rightarrow>
     length (filter (\<lambda>t. case t of AwaitMutation op replay \<Rightarrow> True | _ \<Rightarrow> False) (ct_tasks ct')) \<le> 1 \<and>
     (\<forall>p. SendMutation p \<in> set effs \<longrightarrow> \<not> ct_mutationInFlight ct \<and> stored z (ct_store ct') = Some p))"

lemma mutations_counted: "length (filter (\<lambda>t. case t of AwaitMutation op replay \<Rightarrow> True | _ \<Rightarrow> False) ts) \<le> busy ts"
proof (induction ts)
  case (Cons t ts)
  then show ?case by (cases t) simp_all
qed simp

lemma running_one: "running z 0 0 ct \<Longrightarrow> length (filter (\<lambda>t. case t of AwaitMutation op replay \<Rightarrow> True | _ \<Rightarrow> False) (ct_tasks ct)) \<le> 1"
  using mutations_counted [of "ct_tasks ct"] by (cases "ct_mutationInFlight ct") (auto simp: running_def)

lemma trace_exact:
  assumes "running z 0 0 ct" "inj_on op_key K" "set_option (stored z (ct_store ct)) \<subseteq> K"
    "op_key ` K \<inter> set (created_keys es) = {}" "distinct (created_keys es)"
  shows "inj_on op_key (K \<union> sent (controller_trace z es ct)) \<and> list_all (one_at_a_time z) (controller_trace z es ct)"
  using assms
proof (induction es arbitrary: ct K)
  case (Cons s es)
  obtain b e where s: "s = (b, e)" by (cases s)
  obtain effs ct' where r: "controller_step z b e ct = (effs, ct')" by fastforce
  from step_effect [OF Cons.prems(1), of b e] show ?case
  proof
    assume "goes z ct (controller_step z b e ct)"
    then have g: "goes z ct (effs, ct')" by (simp only: r)
    then have "set_option (stored z (ct_store ct')) \<subseteq> K" "{p. SendMutation p \<in> set effs} \<subseteq> K"
      using Cons.prems(3) by (auto simp: goes_def)
    moreover have "op_key ` K \<inter> set (created_keys es) = {}" "distinct (created_keys es)"
      using Cons.prems(4,5) by (auto simp: created_keys_def s split: if_splits)
    moreover have "running z 0 0 ct'" "one_at_a_time z (e, ct, effs, ct')"
      using g running_one [of z ct'] by (auto simp: goes_def one_at_a_time_def)
    ultimately show ?thesis using Cons.IH [of ct' K] Cons.prems(2) by (simp add: s r Un_assoc [symmetric] Un_absorb2)
  next
    assume "creates e \<and> (\<exists>p. starts z b ct (controller_step z b e ct) p)"
    then obtain p where c: "creates e" and p: "starts z b ct (effs, ct') p" by (auto simp: r)
    have k: "br_uuid b \<notin> op_key ` K" "br_uuid b \<notin> set (created_keys es)" "distinct (created_keys es)"
      "op_key ` K \<inter> set (created_keys es) = {}"
      using Cons.prems(4,5) c by (auto simp: created_keys_def s)
    have "inj_on op_key (insert p K)" using Cons.prems(2) k(1) p by (auto simp: starts_def inj_on_insert)
    moreover have "op_key ` insert p K \<inter> set (created_keys es) = {}" using k p by (auto simp: starts_def)
    moreover have "running z 0 0 ct'" "set_option (stored z (ct_store ct')) \<subseteq> insert p K" "one_at_a_time z (e, ct, effs, ct')"
      using p running_one [of z ct'] by (auto simp: starts_def one_at_a_time_def)
    ultimately have "inj_on op_key (insert p K \<union> sent (controller_trace z es ct')) \<and> list_all (one_at_a_time z) (controller_trace z es ct')"
      using Cons.IH [of ct' "insert p K"] k(3) by blast
    moreover have "{q. SendMutation q \<in> set effs} = {p}" using p by (auto simp: starts_def)
    ultimately show ?thesis using \<open>one_at_a_time z (e, ct, effs, ct')\<close> by (simp add: s r insert_commute)
  qed
qed (simp add: controller_trace.simps)

lemma new_controller_running: "running z 0 0 (new_controller st)"
  by (simp add: running_def new_controller_def)

text \<open>Property C10. Whatever the user does and in whatever order answers arrive, from a page that is loaded with any
  content of the session storage: at most one mutation is under way; a mutation is requested only when none is
  under way, and it is then the operation in the storage, so a reload finds it; and all requests that carry the
  same idempotency key are the same operation: the same path and the same body. This rests on the random keys
  being different from each other and from the stored one.\<close>

theorem mutations_are_replayed_exactly:
  assumes "distinct (created_keys es)"
    "list_all (\<lambda>k. Some k \<noteq> map_option op_key (stored z st)) (created_keys es)"
  shows "list_all (one_at_a_time z) (controller_trace z es (new_controller st)) \<and>
    inj_on op_key (set_option (stored z st) \<union> sent (controller_trace z es (new_controller st)))"
proof -
  have "op_key ` set_option (stored z st) \<inter> set (created_keys es) = {}"
    using assms(2) by (cases "stored z st") (auto simp: list_all_iff)
  moreover have "inj_on op_key (set_option (stored z st))" by (cases "stored z st") simp_all
  ultimately show ?thesis
    using trace_exact [OF new_controller_running, of "set_option (stored z st)" z st es] assms(1) by (simp add: new_controller_def)
qed

definition sample_browser :: "string \<Rightarrow> browser" where
  "sample_browser uuid = \<lparr>br_now = 0, br_uuid = uuid, br_time = (\<lambda>_. None), br_loadFails = False, br_clearFails = False,
     br_saveFails = False\<rparr>"

definition sample_slot :: public_slot where
  "sample_slot = \<lparr>ps_slotId = ''2026-01-01'', ps_opensAt = ''2026-01-01T00:00:00.000Z'', ps_closesAt = ''2026-01-02T00:00:00.000Z''\<rparr>"

text \<open>A start whose answer is lost, and a second try of it.\<close>

definition sample_events :: "(browser \<times> controller_event) list" where
  "sample_events = map (Pair (sample_browser ''one''))
     [Initialize False, SessionAnswers 0 (Inr ''2026-02-01T00:00:00.000Z''), CaseAnswers 2 (Inr (NotStarted sample_slot)),
      CaseSettles 2, ReadResumes 0, StartAttempt, MutationAnswers 0 (Inl (ApiFailure (client_error NETWORK_ERROR))),
      Replay, CaseAnswers 3 (Inr (NotStarted sample_slot)), CaseSettles 3, ReadResumes 0] @
     [(sample_browser ''two'', StartAttempt)]"

theorem mutations_are_replayed_exactly_witness:
  "inj_on op_key (sent (controller_trace sample_zod sample_events (new_controller None)))"
  using mutations_are_replayed_exactly [of sample_events sample_zod None]
  by (simp add: sample_events_def created_keys_def sample_browser_def)

section \<open>Nothing is forgotten\<close>




































end
