(* ===== verification/Gameplay_Routes.thy ===== *)
theory Gameplay_Routes
  imports Controller_Correct
begin

text \<open>
  The gameplay handlers of the API (\<^verbatim>\<open>apps/api/src/routes/gameplay.ts\<close>) with what the kernel does with their results
  and errors (\<^verbatim>\<open>invokeHandler\<close> and \<^verbatim>\<open>errorHandler\<close> of \<^verbatim>\<open>app.ts\<close>), and what the browser's client makes of the
  answers: \<open>GAMEPLAY_REJECTION_HTTP\<close> against the error statuses the operations declare.

  Result: a refusal reaches the client as the error it is, with one exception: the refusal of an unknown attempt
  has a status that \<open>runGameplayCommand\<close> does not declare, so it is unreadable and the client keeps the operation.
\<close>

section \<open>Handlers\<close>

fun GAMEPLAY_REJECTION_HTTP :: "rejection_code \<Rightarrow> int \<times> api_error" where
  "GAMEPLAY_REJECTION_HTTP R_EVIDENCE_LIMIT = (409, EVIDENCE_LIMIT)"
| "GAMEPLAY_REJECTION_HTTP R_IDEMPOTENCY_CONFLICT = (409, IDEMPOTENCY_CONFLICT)"
| "GAMEPLAY_REJECTION_HTTP R_INVALID_COMMAND = (400, INVALID_REQUEST)"
| "GAMEPLAY_REJECTION_HTTP R_SESSION_EXPIRED = (401, AUTHENTICATION_REQUIRED)"
| "GAMEPLAY_REJECTION_HTTP R_STALE_VERSION = (409, STALE_VERSION)"
| "GAMEPLAY_REJECTION_HTTP R_TERMINAL_ATTEMPT = (409, TERMINAL_ATTEMPT)"
| "GAMEPLAY_REJECTION_HTTP R_UNKNOWN_ATTEMPT = (404, RESOURCE_NOT_FOUND)"
| "GAMEPLAY_REJECTION_HTTP R_UNKNOWN_ENTITY = (400, INVALID_GUESS)"
| "GAMEPLAY_REJECTION_HTTP R_NO_CASE = (409, NO_CURRENT_CASE)"

definition rejectGameplay :: "rejection_code \<Rightarrow> api_error" where
  "rejectGameplay code = snd (GAMEPLAY_REJECTION_HTTP code)"

text \<open>What a handler throws: a public error, or whatever the database threw (here with the answer whether it was a
  timeout).\<close>

datatype handler_error = Public api_error | Database_Error bool

text \<open>The body of an answer: a projection, or the outcome of a mutation with one.\<close>

datatype answer = Projected case_projection | Outcome outcome_code bool case_projection

type_synonym handled = "(handler_error + answer) \<times> game_db"

definition getCurrentCase :: "store_env \<Rightarrow> auth_session option \<Rightarrow> game_db \<Rightarrow> handled" where
  "getCurrentCase env identity db =
    (case identity of None \<Rightarrow> (Inl (Public AUTHENTICATION_REQUIRED), db)
     | Some actor \<Rightarrow> (case transaction (readCurrentCase env (as_guest actor)) db of
         (Inl e, db') \<Rightarrow> (Inl (Database_Error False), db') | (Inr p, db') \<Rightarrow> (Inr (Projected p), db')))"

definition getOwnedAttempt :: "store_env \<Rightarrow> auth_session option \<Rightarrow> string \<Rightarrow> game_db \<Rightarrow> handled" where
  "getOwnedAttempt env identity attemptId db =
    (case identity of None \<Rightarrow> (Inl (Public AUTHENTICATION_REQUIRED), db)
     | Some actor \<Rightarrow> (case transaction (readOwnedAttempt env (as_guest actor) attemptId) db of
         (Inl e, db') \<Rightarrow> (Inl (Database_Error False), db')
       | (Inr None, db') \<Rightarrow> (Inl (Public RESOURCE_NOT_FOUND), db')
       | (Inr (Some p), db') \<Rightarrow> (Inr (Projected p), db')))"

definition mutation_result :: "(store_error + command_result) \<times> game_db \<Rightarrow> handled" where
  "mutation_result r =
    (case r of (Inl e, db') \<Rightarrow> (Inl (Database_Error False), db')
     | (Inr (CommandRejected code p), db') \<Rightarrow> (Inl (Public (rejectGameplay code)), db')
     | (Inr (CommandOk oc p replayed), db') \<Rightarrow> (Inr (Outcome oc replayed p), db'))"

definition handle_start :: "store_env \<Rightarrow> auth_session option \<Rightarrow> string \<Rightarrow> game_db \<Rightarrow> handled" where
  "handle_start env identity idempotencyKey db =
    (case identity of None \<Rightarrow> (Inl (Public AUTHENTICATION_REQUIRED), db)
     | Some actor \<Rightarrow> mutation_result (transaction (startCurrentAttempt env
         \<lparr>sr_guest = as_guest actor, sr_session = as_session actor, sr_key = idempotencyKey\<rparr>) db))"

definition runGameplayCommand ::
  "store_env \<Rightarrow> auth_session option \<Rightarrow> string \<Rightarrow> string \<Rightarrow> command_body \<Rightarrow> game_db \<Rightarrow> handled" where
  "runGameplayCommand env identity attemptId idempotencyKey body db =
    (case identity of None \<Rightarrow> (Inl (Public AUTHENTICATION_REQUIRED), db)
     | Some actor \<Rightarrow> mutation_result (transaction (executeGameplayCommand env
         \<lparr>cr_guest = as_guest actor, cr_session = as_session actor, cr_attempt = attemptId,
          cr_expectedVersion = int_number (cb_expectedVersion body), cr_key = idempotencyKey,
          cr_command = command_value (cb_command body)\<rparr>) db))"

section \<open>The kernel\<close>

definition success_schema :: "zod \<Rightarrow> operation \<Rightarrow> answer \<Rightarrow> bool" where
  "success_schema z op a =
    (case a of
       Projected p \<Rightarrow> if op = OP_getCurrentCase then caseProjectionSchema z p else attemptProjectionSchema z p
     | Outcome oc replayed p \<Rightarrow>
         if op = OP_startCurrentAttempt then startAttemptResponseSchema z oc p replayed else commandResponseSchema z oc p replayed)"

fun public_of :: "handler_error \<Rightarrow> api_error" where
  "public_of (Public c) = c"
| "public_of (Database_Error timeout) = (if timeout then REQUEST_TIMEOUT else INTERNAL_ERROR)"

text \<open>The handlers give the success status, so only the schema of the body is checked.\<close>

definition invokeHandler :: "zod \<Rightarrow> operation \<Rightarrow> handler_error + answer \<Rightarrow> api_error + answer" where
  "invokeHandler z op r =
    (case r of Inl e \<Rightarrow> Inl (public_of e)
     | Inr a \<Rightarrow> if success_schema z op a then Inr a else Inl INTERNAL_ERROR)"

section \<open>What the client reads\<close>

text \<open>An error response the kernel sends, as the client reads it.\<close>

definition error_payload :: "api_error \<Rightarrow> string \<Rightarrow> js_value" where
  "error_payload c requestId = Object [(''error'', Object [(''code'', String (api_error_name c)), (''requestId'', String requestId)])]"

definition error_response :: "api_error \<Rightarrow> string \<Rightarrow> http_response" where
  "error_response c requestId = \<lparr>hr_status = API_ERROR_STATUS c, hr_contentType = Some ''application/json; charset=utf-8'',
     hr_retryAfter = None, hr_body = Some (error_payload c requestId)\<rparr>"

definition client_reads :: "operation \<Rightarrow> api_error \<Rightarrow> client_error" where
  "client_reads op c = (if API_ERROR_STATUS c \<in> set (error_statuses op)
     then \<lparr>ce_kind = API_ERROR, ce_apiCode = Some c, ce_retryAfter = None\<rparr> else client_error MALFORMED_RESPONSE)"

lemma error_of_name_name: "error_of_name (api_error_name c) = Some c"
  by (cases c) (simp_all add: error_of_name_def API_ERROR_CODES_def)

lemma error_is_read:
  assumes "z_uuid z requestId" "c \<noteq> RATE_LIMITED"
  shows "read_response z accepts op aborted (error_response c requestId) = Inl (client_reads op c)"
proof -
  have ct: "json_content_type ''application/json; charset=utf-8''" by code_simp
  have e: "errorResponseSchema z (error_payload c requestId) = Some (c, requestId)"
    using assms(1) by (simp add: errorResponseSchema_def error_payload_def strict_object_def error_of_name_name Let_def)
  have "API_ERROR_STATUS c \<noteq> operation_success op" by (cases c; cases op) simp_all
  then show ?thesis
    using e ct assms(2) by (simp add: read_response_def responseJson_def error_response_def client_reads_def bindE_def)
qed

text \<open>The exception.\<close>

lemma unknown_attempt_is_unreadable:
  assumes "z_uuid z requestId"
  shows "GAMEPLAY_REJECTION_HTTP R_UNKNOWN_ATTEMPT = (404, RESOURCE_NOT_FOUND)"
    "read_response z accepts OP_runGameplayCommand aborted (error_response (rejectGameplay R_UNKNOWN_ATTEMPT) requestId) =
       Inl (client_error MALFORMED_RESPONSE)"
    "retryDirective OP_runGameplayCommand (client_error MALFORMED_RESPONSE) 0 = REPLAY_EXACT_MUTATION 0"
  using error_is_read [OF assms, of RESOURCE_NOT_FOUND accepts OP_runGameplayCommand aborted]
  by (simp_all add: rejectGameplay_def client_reads_def MUTATION_ERRORS_def COMMON_ERRORS_def retryDirective_def client_error_def)

text \<open>A timeout of the database is answered with a status that only the gameplay mutations declare.\<close>

lemma read_timeouts_are_undeclared:
  "client_reads op (public_of (Database_Error True)) = client_error MALFORMED_RESPONSE \<longleftrightarrow> operation_auth op \<noteq> AUTH_GAMEPLAY_MUTATION"
  by (cases op) (simp_all add: client_reads_def MUTATION_ERRORS_def COMMON_ERRORS_def client_error_def)

end
