(* ===== verification/Exactly_Once.thy ===== *)
theory Exactly_Once
  imports Gameplay_Routes
begin

text \<open>
  The page, the network and the service together. Requests of the controller are delivered any number of times, in any
  order and at any later time, or never; answers may get lost; the page may be reloaded at any moment; and the player may do other
  things elsewhere. A success the page is told of is one the service answered with; every failure may be
  reported at any time.

  Result: each action of the player is applied at most once, and when the page shows that it succeeded it
  has been applied.
\<close>

section \<open>The world\<close>












section \<open>Receipts\<close>












section \<open>The invariant of the world\<close>










section \<open>Exactly once\<close>






end
