(* ===== verification/Transactions.thy ===== *)
theory Transactions
  imports Js_Value
begin

text \<open>
  The transaction protocol of the database package (\<^verbatim>\<open>packages/database/src/gameplay/runtime.ts\<close> and
  \<^verbatim>\<open>packages/database/src/deadline.ts\<close>): \<^verbatim>\<open>transaction\<close> takes a client of the pool, runs the work between
  \<^verbatim>\<open>BEGIN\<close> and \<^verbatim>\<open>COMMIT\<close>, and gives the client back, while the signal of the request may abort at any moment.

  The function is a machine: a state for every \<^verbatim>\<open>await\<close> of the source, and a step for everything that may happen at
  one (the answer of the pool, of a statement or of the work, the timer, the abort of the signal, the \<^verbatim>\<open>end\<close> and
  \<^verbatim>\<open>error\<close> events of a client that is being closed). A step runs the code to its next \<^verbatim>\<open>await\<close>. PostgreSQL,
  \<^verbatim>\<open>pg\<close> and the work are the environment: any answer in any order. The record_entry has what was sent, answered and released.

  Results: a client is released exactly once, and goes back to the pool only with no transaction open and no work
  running on it; the caller sees a success exactly when the \<^verbatim>\<open>COMMIT\<close> was acknowledged; every answer brings the machine
  closer to its end.
\<close>

section \<open>Deadlines and errors\<close>

datatype timeout_phase = Phase_CLIENT_DISCONNECT | Phase_DEADLINE | Phase_LOCK | Phase_POOL | Phase_STATEMENT

text \<open>What is thrown: an error of PostgreSQL or of the work has its \<^verbatim>\<open>code\<close>, if it is a string.\<close>

datatype fault =
    DatabaseTimeoutError timeout_phase
  | DatabaseRollbackError
  | RangeFault
  | Fault "string option"

text \<open>The abort signal: not aborted, or aborted with a reason.\<close>

type_synonym abort_signal = "string option"

definition cancellationReason :: "abort_signal \<Rightarrow> timeout_phase" where
  "cancellationReason signal = (if signal = Some ''CLIENT_DISCONNECT'' then Phase_CLIENT_DISCONNECT else Phase_DEADLINE)"

text \<open>The API's clock counts in whole milliseconds, so \<^verbatim>\<open>Math.ceil\<close> has no effect.\<close>

definition remainingMilliseconds :: "int \<Rightarrow> int \<Rightarrow> int" where
  "remainingMilliseconds deadlineAt now = max 0 (deadlineAt - now)"

definition throwIfCancelled :: "int \<Rightarrow> int \<Rightarrow> abort_signal \<Rightarrow> fault + unit" where
  "throwIfCancelled deadlineAt now signal =
    throwIf (signal \<noteq> None \<or> remainingMilliseconds deadlineAt now = 0) (DatabaseTimeoutError (cancellationReason signal))"

fun isDatabaseTimeoutError :: "fault \<Rightarrow> bool" where
  "isDatabaseTimeoutError (DatabaseTimeoutError _) = True"
| "isDatabaseTimeoutError (Fault code) = (code = Some ''DATABASE_TIMEOUT'')"
| "isDatabaseTimeoutError _ = False"

definition MAXIMUM_LOCK_TIMEOUT_MS :: int where "MAXIMUM_LOCK_TIMEOUT_MS = 1000"
definition MAXIMUM_STATEMENT_TIMEOUT_MS :: int where "MAXIMUM_STATEMENT_TIMEOUT_MS = 3000"

record transaction_options =
  to_deadline :: "int option"
  to_lockTimeoutMs :: "js_number option"
  to_readOnly :: bool
  to_role :: "string option"
  to_statementTimeoutMs :: "js_number option"

definition timeoutError :: "transaction_options \<Rightarrow> abort_signal \<Rightarrow> fault \<Rightarrow> fault" where
  "timeoutError opts signal error =
    (if (case error of DatabaseTimeoutError _ \<Rightarrow> True | _ \<Rightarrow> False) then error
     else if to_deadline opts \<noteq> None \<and> signal \<noteq> None then DatabaseTimeoutError (cancellationReason signal)
     else if error = Fault (Some ''55P03'') then DatabaseTimeoutError Phase_LOCK
     else if error = Fault (Some ''57014'') then DatabaseTimeoutError Phase_STATEMENT
     else error)"

definition boundedTimeout :: "js_number option \<Rightarrow> int \<Rightarrow> fault + int" where
  "boundedTimeout value maximum =
    (let timeout = (case value of None \<Rightarrow> int_number maximum | Some v \<Rightarrow> v)
     in bindE (throwIf (\<not> is_safe_integer timeout \<or> js_floor timeout < 1) RangeFault)
          (\<lambda>_. Inr (min (js_floor timeout) maximum)))"

section \<open>The state\<close>

datatype sql = BEGIN bool | SET_ROLE string | SET_LOCK_TIMEOUT int | SET_STATEMENT_TIMEOUT int | COMMIT | ROLLBACK

text \<open>\<open>Work\<close> is the call of the caller's function; \<open>Release b\<close> is \<^verbatim>\<open>client.release\<close>, with an error (so that
  the pool closes the client) when \<open>b\<close>.\<close>

datatype entry = Connect | Acquired | Sent sql | Answered sql bool | Work | Worked bool | Release bool

text \<open>What \<^verbatim>\<open>cancellationComplete\<close> is: undefined, or a promise.\<close>

datatype end_promise = No_Promise | Promise_Pending | Promise_Resolved | Promise_Rejected fault

datatype 'a point =
    Acquiring
  | Querying sql
  | Working
  | Committing 'a
  | Rolling_Back fault
  | Ending fault
  | Finished "fault + 'a"

record 'a transaction_state =
  tx_point :: "'a point"
  tx_signal :: abort_signal
  tx_listening :: bool
  tx_timedOut :: bool
  tx_released :: bool
  tx_started :: bool
  tx_cancelling :: bool
  tx_complete :: end_promise
  tx_ended :: bool
  tx_statement :: int
  tx_log :: "entry list"

type_synonym 'a tx_step = "'a transaction_state \<Rightarrow> 'a transaction_state"

definition record_entry :: "entry \<Rightarrow> 'a tx_step" where
  "record_entry e s = s\<lparr>tx_log := e # tx_log s\<rparr>"

definition query :: "sql \<Rightarrow> 'a tx_step" where
  "query q s = record_entry (Sent q) (s\<lparr>tx_point := Querying q\<rparr>)"

definition waitForClientEnd :: "'a tx_step" where
  "waitForClientEnd s = s\<lparr>tx_complete := (if tx_ended s then Promise_Resolved else Promise_Pending)\<rparr>"

definition release_with_error :: "'a tx_step" where
  "release_with_error s = record_entry (Release True) (waitForClientEnd s)\<lparr>tx_released := True\<rparr>"

definition cancel_client :: "'a tx_step" where
  "cancel_client s = (if tx_released s \<or> tx_cancelling s then s else release_with_error (s\<lparr>tx_cancelling := True\<rparr>))"

text \<open>The \<^verbatim>\<open>finally\<close> block.\<close>

definition finish :: "fault + 'a \<Rightarrow> 'a tx_step" where
  "finish r s =
    (let s' = s\<lparr>tx_listening := False, tx_point := Finished r\<rparr>
     in if tx_released s then s' else record_entry (Release False) s'\<lparr>tx_released := True\<rparr>)"

text \<open>\<^verbatim>\<open>await cancellationComplete; throw error\<close>\<close>

definition finish_after_end :: "fault \<Rightarrow> 'a tx_step" where
  "finish_after_end error s =
    (case tx_complete s of
       Promise_Rejected e \<Rightarrow> finish (Inl e) s
     | Promise_Pending \<Rightarrow> s\<lparr>tx_point := Ending error\<rparr>
     | _ \<Rightarrow> finish (Inl error) s)"

text \<open>The \<^verbatim>\<open>catch\<close> block up to the \<^verbatim>\<open>ROLLBACK\<close>, and after a \<^verbatim>\<open>ROLLBACK\<close> that failed.\<close>

definition catch :: "transaction_options \<Rightarrow> fault \<Rightarrow> 'a tx_step" where
  "catch opts caught s =
    (let error = timeoutError opts (tx_signal s) caught
     in if tx_complete s \<noteq> No_Promise then finish_after_end error s
        else if tx_started s then record_entry (Sent ROLLBACK) (s\<lparr>tx_point := Rolling_Back error\<rparr>)
        else finish (Inl error) s)"

definition rollback_failed :: "fault \<Rightarrow> 'a tx_step" where
  "rollback_failed error s =
    (let final = (case error of DatabaseTimeoutError p \<Rightarrow> error | _ \<Rightarrow> DatabaseRollbackError)
     in if tx_released s then finish (Inl final) s else finish_after_end final (release_with_error s))"

section \<open>The steps\<close>

text \<open>The call: \<^verbatim>\<open>acquireClient\<close> up to its first wait.\<close>

definition begin_transaction :: "transaction_options \<Rightarrow> int \<Rightarrow> abort_signal \<Rightarrow> 'a transaction_state" where
  "begin_transaction opts now signal =
    (let s = \<lparr>tx_point = Acquiring, tx_signal = signal, tx_listening = False, tx_timedOut = False, tx_released = False,
              tx_started = False, tx_cancelling = False, tx_complete = No_Promise, tx_ended = False, tx_statement = 0,
              tx_log = []\<rparr>
     in case to_deadline opts of
          None \<Rightarrow> record_entry Connect s
        | Some d \<Rightarrow> (case throwIfCancelled d now signal of
            Inl e \<Rightarrow> s\<lparr>tx_point := Finished (Inl e)\<rparr> | Inr _ \<Rightarrow> record_entry Connect s))"

datatype 'a tx_event =
    Connected
  | Connect_Failed fault
  | Pool_Timer
  | Abort string
  | Answer "fault option"
  | Work_Settles "fault + 'a"
  | Client_End
  | Client_Error fault

text \<open>The pool answers: the client of a call that has given up goes straight back.\<close>

definition connected :: "transaction_options \<Rightarrow> int \<Rightarrow> 'a tx_step" where
  "connected opts now s =
    (case tx_point s of
       Acquiring \<Rightarrow>
         (case to_deadline opts of
            None \<Rightarrow> query (BEGIN (to_readOnly opts)) (record_entry Acquired s)
          | Some d \<Rightarrow>
              (let s' = record_entry Acquired (s\<lparr>tx_listening := True\<rparr>)
               in case throwIfCancelled d now (tx_signal s) of
                    Inl e \<Rightarrow> catch opts e s' | Inr _ \<Rightarrow> query (BEGIN (to_readOnly opts)) s'))
     | _ \<Rightarrow> if tx_timedOut s
            then record_entry (Release False) (record_entry Acquired (s\<lparr>tx_timedOut := False, tx_released := True\<rparr>)) else s)"

definition connect_failed :: "fault \<Rightarrow> 'a tx_step" where
  "connect_failed e s =
    (if tx_point s = Acquiring then s\<lparr>tx_point := Finished (Inl e)\<rparr> else s\<lparr>tx_timedOut := False\<rparr>)"

definition reject_acquisition :: "timeout_phase \<Rightarrow> 'a tx_step" where
  "reject_acquisition p s = s\<lparr>tx_timedOut := True, tx_point := Finished (Inl (DatabaseTimeoutError p))\<rparr>"

definition pool_timer :: "transaction_options \<Rightarrow> 'a tx_step" where
  "pool_timer opts s =
    (if tx_point s = Acquiring \<and> to_deadline opts \<noteq> None
     then reject_acquisition (if tx_signal s \<noteq> None then cancellationReason (tx_signal s) else Phase_POOL) s else s)"

text \<open>The limits of the transaction are computed when its role is set.\<close>

definition send_limits :: "transaction_options \<Rightarrow> int \<Rightarrow> 'a tx_step" where
  "send_limits opts now s =
    (case bindE (boundedTimeout (to_lockTimeoutMs opts) MAXIMUM_LOCK_TIMEOUT_MS) (\<lambda>lockMs.
       bindE (boundedTimeout (to_statementTimeoutMs opts) MAXIMUM_STATEMENT_TIMEOUT_MS) (\<lambda>configured.
         Inr (lockMs, case to_deadline opts of None \<Rightarrow> configured
                      | Some d \<Rightarrow> max 1 (min configured (remainingMilliseconds d now)))))
     of Inl e \<Rightarrow> catch opts e s
      | Inr (lockMs, statementMs) \<Rightarrow> query (SET_LOCK_TIMEOUT lockMs) (s\<lparr>tx_statement := statementMs\<rparr>))"

text \<open>\<^verbatim>\<open>runWork(work(client), deadline)\<close>: the work is called first; an aborted signal rejects at once.\<close>

definition run_work :: "transaction_options \<Rightarrow> 'a tx_step" where
  "run_work opts s =
    (let s' = record_entry Work (s\<lparr>tx_point := Working\<rparr>)
     in if to_deadline opts \<noteq> None \<and> tx_signal s \<noteq> None
        then catch opts (DatabaseTimeoutError (cancellationReason (tx_signal s))) s' else s')"

definition work_settles :: "transaction_options \<Rightarrow> int \<Rightarrow> fault + 'a \<Rightarrow> 'a tx_step" where
  "work_settles opts now r s =
    (if tx_point s \<noteq> Working then s
     else case r of
       Inl e \<Rightarrow> catch opts e (record_entry (Worked False) s)
     | Inr v \<Rightarrow>
         (let s' = record_entry (Worked True) s;
              checked = (case to_deadline opts of None \<Rightarrow> Inr () | Some d \<Rightarrow> throwIfCancelled d now (tx_signal s))
          in case checked of
               Inl e \<Rightarrow> catch opts e s'
             | Inr _ \<Rightarrow> record_entry (Sent COMMIT) (s'\<lparr>tx_listening := tx_listening s \<and> to_readOnly opts, tx_point := Committing v\<rparr>)))"

definition answer :: "transaction_options \<Rightarrow> int \<Rightarrow> fault option \<Rightarrow> 'a tx_step" where
  "answer opts now r s =
    (case tx_point s of
       Querying q \<Rightarrow>
         (let s' = record_entry (Answered q (r = None)) s
          in case r of Some e \<Rightarrow> catch opts e s'
             | None \<Rightarrow> (case q of
                 BEGIN _ \<Rightarrow> query (SET_ROLE (case to_role opts of None \<Rightarrow> ''loremaster_runtime'' | Some role \<Rightarrow> role))
                             (s'\<lparr>tx_started := True\<rparr>)
               | SET_ROLE _ \<Rightarrow> send_limits opts now s'
               | SET_LOCK_TIMEOUT _ \<Rightarrow> query (SET_STATEMENT_TIMEOUT (tx_statement s)) s'
               | _ \<Rightarrow> run_work opts s'))
     | Committing v \<Rightarrow>
         (let s' = record_entry (Answered COMMIT (r = None)) s
          in case r of Some e \<Rightarrow> catch opts e s' | None \<Rightarrow> finish (Inr v) (s'\<lparr>tx_started := False\<rparr>))
     | Rolling_Back error \<Rightarrow>
         (let s' = record_entry (Answered ROLLBACK (r = None)) s
          in case r of Some _ \<Rightarrow> rollback_failed error s' | None \<Rightarrow> finish (Inl error) (s'\<lparr>tx_started := False\<rparr>))
     | _ \<Rightarrow> s)"

text \<open>The abort of the signal: the listener of the transaction runs first, then a race that waits on the signal is
  rejected.\<close>

definition abort_transaction :: "transaction_options \<Rightarrow> string \<Rightarrow> 'a tx_step" where
  "abort_transaction opts reason s =
    (if to_deadline opts = None \<or> tx_signal s \<noteq> None then s
     else let s' = s\<lparr>tx_signal := Some reason\<rparr>;
              s'' = (if tx_listening s then cancel_client s' else s');
              e = cancellationReason (Some reason)
          in case tx_point s of
               Acquiring \<Rightarrow> reject_acquisition e s''
             | Working \<Rightarrow> catch opts (DatabaseTimeoutError e) s''
             | Committing _ \<Rightarrow> if to_readOnly opts then catch opts (DatabaseTimeoutError e) s'' else s''
             | _ \<Rightarrow> s'')"

definition settle_end :: "fault option \<Rightarrow> 'a tx_step" where
  "settle_end failure s =
    (if tx_complete s \<noteq> Promise_Pending then s
     else let s' = s\<lparr>tx_complete := (case failure of None \<Rightarrow> Promise_Resolved | Some e \<Rightarrow> Promise_Rejected e)\<rparr>
          in case tx_point s of Ending error \<Rightarrow> finish_after_end error s' | _ \<Rightarrow> s')"

fun tx_step :: "transaction_options \<Rightarrow> 'a transaction_state \<Rightarrow> int \<times> 'a tx_event \<Rightarrow> 'a transaction_state" where
  "tx_step opts s (now, Connected) = connected opts now s"
| "tx_step opts s (now, Connect_Failed e) = connect_failed e s"
| "tx_step opts s (now, Pool_Timer) = pool_timer opts s"
| "tx_step opts s (now, Abort reason) = abort_transaction opts reason s"
| "tx_step opts s (now, Answer r) = answer opts now r s"
| "tx_step opts s (now, Work_Settles r) = work_settles opts now r s"
| "tx_step opts s (now, Client_End) = settle_end None (s\<lparr>tx_ended := True\<rparr>)"
| "tx_step opts s (now, Client_Error e) = settle_end (Some e) s"

definition run_transaction ::
  "transaction_options \<Rightarrow> int \<Rightarrow> abort_signal \<Rightarrow> (int \<times> 'a tx_event) list \<Rightarrow> 'a transaction_state" where
  "run_transaction opts now signal events = foldl (tx_step opts) (begin_transaction opts now signal) events"

end
