(* ===== verification/Transactions_Correct.thy ===== *)
theory Transactions_Correct
  imports Transactions Game_Store
begin

text \<open>
  What the transaction protocol guarantees whatever the pool, the server, the work and the signal do: the accounting
  of the client (\<open>protocol\<close> over the log), what a result says about the \<^verbatim>\<open>COMMIT\<close>, what an abort leads to, and that
  the answers it waits for run out.
\<close>

section \<open>What the log says\<close>

text \<open>The log has the latest entry first. A transaction is open on the server from an acknowledged \<^verbatim>\<open>BEGIN\<close> to an
  acknowledged \<^verbatim>\<open>COMMIT\<close> or \<^verbatim>\<open>ROLLBACK\<close>; the work runs until it has settled; a statement is pending until answered.\<close>

fun open_in :: "entry list \<Rightarrow> bool" where
  "open_in [] = False"
| "open_in (Answered q ok # l) =
     (if \<not> ok then open_in l else case q of BEGIN _ \<Rightarrow> True | COMMIT \<Rightarrow> False | ROLLBACK \<Rightarrow> False | _ \<Rightarrow> open_in l)"
| "open_in (_ # l) = open_in l"

fun working_in :: "entry list \<Rightarrow> bool" where
  "working_in [] = False"
| "working_in (Work # l) = True"
| "working_in (Worked _ # l) = False"
| "working_in (_ # l) = working_in l"

fun pending_in :: "entry list \<Rightarrow> bool" where
  "pending_in [] = False"
| "pending_in (Sent _ # l) = True"
| "pending_in (Answered _ _ # l) = False"
| "pending_in (_ # l) = pending_in l"

definition is_released :: "entry list \<Rightarrow> bool" where
  "is_released l \<longleftrightarrow> Release True \<in> set l \<or> Release False \<in> set l"

text \<open>The rules: a client that was acquired is released at most once; to the pool only when no transaction is open on
  it, no statement is pending and no work uses it; and then nothing is sent on it; \<^verbatim>\<open>COMMIT\<close> is sent once, and only
  for work that succeeded.\<close>

fun protocol :: "entry list \<Rightarrow> bool" where
  "protocol [] = True"
| "protocol (Release destroy # l) =
     (Acquired \<in> set l \<and> \<not> is_released l \<and> (destroy \<or> \<not> open_in l \<and> \<not> pending_in l \<and> \<not> working_in l) \<and> protocol l)"
| "protocol (Sent q # l) =
     (Acquired \<in> set l \<and> Release False \<notin> set l \<and>
      (q = COMMIT \<longrightarrow> open_in l \<and> \<not> is_released l \<and> Worked True \<in> set l \<and> Sent COMMIT \<notin> set l) \<and> protocol l)"
| "protocol (Work # l) = (open_in l \<and> Release False \<notin> set l \<and> protocol l)"
| "protocol (_ # l) = protocol l"

section \<open>The invariant\<close>

definition live :: "transaction_options \<Rightarrow> 'a transaction_state \<Rightarrow> bool" where
  "live opts s \<longleftrightarrow> \<not> tx_timedOut s \<and> Acquired \<in> set (tx_log s) \<and> Release False \<notin> set (tx_log s) \<and>
     (tx_released s \<longleftrightarrow> tx_complete s \<noteq> No_Promise) \<and> Answered COMMIT True \<notin> set (tx_log s)"

definition attentive :: "transaction_options \<Rightarrow> 'a transaction_state \<Rightarrow> bool" where
  "attentive opts s \<longleftrightarrow> (to_deadline opts \<noteq> None \<longrightarrow> tx_listening s \<and> (tx_signal s \<noteq> None \<longleftrightarrow> tx_released s)) \<and>
     (to_deadline opts = None \<longrightarrow> \<not> tx_released s) \<and> Sent COMMIT \<notin> set (tx_log s)"

fun setting_up :: "sql \<Rightarrow> bool \<Rightarrow> bool" where
  "setting_up (BEGIN _) started = (\<not> started)"
| "setting_up COMMIT started = False"
| "setting_up ROLLBACK started = False"
| "setting_up _ started = started"

definition at_point :: "transaction_options \<Rightarrow> 'a transaction_state \<Rightarrow> bool" where
  "at_point opts s =
    (let l = tx_log s in case tx_point s of
       Acquiring \<Rightarrow> l = [Connect] \<and> tx_complete s = No_Promise \<and> \<not> tx_timedOut s \<and> \<not> tx_listening s \<and>
         (to_deadline opts \<noteq> None \<longrightarrow> tx_signal s = None)
     | Querying q \<Rightarrow> live opts s \<and> attentive opts s \<and> \<not> working_in l \<and>
         setting_up q (tx_started s)
     | Working \<Rightarrow> live opts s \<and> attentive opts s \<and> tx_started s \<and> \<not> pending_in l \<and> \<not> tx_released s \<and>
         (to_deadline opts \<noteq> None \<longrightarrow> tx_signal s = None)
     | Committing v \<Rightarrow> live opts s \<and> tx_started s \<and> \<not> tx_released s \<and> \<not> working_in l \<and>
         (tx_listening s \<longleftrightarrow> to_readOnly opts \<and> to_deadline opts \<noteq> None) \<and> (tx_listening s \<longrightarrow> tx_signal s = None)
     | Rolling_Back e \<Rightarrow> live opts s \<and> tx_started s \<and> (working_in l \<longrightarrow> tx_released s)
     | Ending e \<Rightarrow> live opts s \<and> tx_complete s = Promise_Pending
     | Finished r \<Rightarrow> \<not> tx_listening s \<and> (Acquired \<in> set l \<longrightarrow> tx_released s) \<and> (tx_timedOut s \<longrightarrow> l = [Connect]) \<and>
         (Answered COMMIT True \<in> set l \<longleftrightarrow> (\<exists>v. r = Inr v)))"

definition tx_inv :: "transaction_options \<Rightarrow> 'a transaction_state \<Rightarrow> bool" where
  "tx_inv opts s \<longleftrightarrow> protocol (tx_log s) \<and> (tx_released s \<longleftrightarrow> is_released (tx_log s)) \<and> (tx_started s \<longleftrightarrow> open_in (tx_log s)) \<and>
     (tx_cancelling s \<longrightarrow> tx_released s) \<and> (tx_listening s \<longrightarrow> to_deadline opts \<noteq> None) \<and> at_point opts s"

lemmas tx_defs = record_entry_def query_def waitForClientEnd_def release_with_error_def cancel_client_def finish_def
  finish_after_end_def catch_def rollback_failed_def Let_def

lemmas inv_defs = tx_inv_def at_point_def live_def attentive_def is_released_def Let_def

lemma begin_inv: "tx_inv opts (begin_transaction opts now signal)"
  by (auto simp: begin_transaction_def inv_defs record_entry_def throwIfCancelled_def throwIf_def split: option.splits)

text \<open>The \<^verbatim>\<open>catch\<close> block is entered with a client whose work and statements have settled, or that is being closed.\<close>

lemma catch_inv:
  assumes "protocol (tx_log s)" "tx_released s \<longleftrightarrow> is_released (tx_log s)" "tx_started s \<longleftrightarrow> open_in (tx_log s)"
    "tx_cancelling s \<longrightarrow> tx_released s" "tx_listening s \<longrightarrow> to_deadline opts \<noteq> None" "live opts s"
    "tx_released s \<or> \<not> working_in (tx_log s) \<and> \<not> pending_in (tx_log s)"
  shows "tx_inv opts (catch opts e s)"
  using assms by (cases "tx_complete s") (auto simp: inv_defs tx_defs)

lemma finish_inv:
  assumes "protocol (tx_log s)" "tx_released s \<longleftrightarrow> is_released (tx_log s)" "tx_started s \<longleftrightarrow> open_in (tx_log s)"
    "tx_cancelling s \<longrightarrow> tx_released s" "Acquired \<in> set (tx_log s)" "\<not> tx_timedOut s"
    "tx_released s \<or> \<not> tx_started s \<and> \<not> working_in (tx_log s) \<and> \<not> pending_in (tx_log s)"
    "Answered COMMIT True \<in> set (tx_log s) \<longleftrightarrow> (\<exists>v. r = Inr v)"
  shows "tx_inv opts (finish r s)"
  using assms by (auto simp: inv_defs tx_defs)

section \<open>Every step keeps it\<close>

lemma connected_inv: "tx_inv opts s \<Longrightarrow> tx_inv opts (connected opts now s)"
  by (cases "tx_point s")
    (auto simp: connected_def inv_defs record_entry_def query_def throwIfCancelled_def throwIf_def catch_def finish_def
      split: option.splits)

lemma connect_failed_inv: "tx_inv opts s \<Longrightarrow> tx_inv opts (connect_failed e s)"
  by (cases "tx_point s") (auto simp: connect_failed_def inv_defs)

lemma pool_timer_inv: "tx_inv opts s \<Longrightarrow> tx_inv opts (pool_timer opts s)"
  by (auto simp: pool_timer_def reject_acquisition_def inv_defs)

lemma settle_end_inv: "tx_inv opts s \<Longrightarrow> tx_inv opts (settle_end failure (s\<lparr>tx_ended := e\<rparr>))"
  by (cases "tx_point s"; cases failure; cases "tx_complete s")
    (simp_all add: settle_end_def finish_after_end_def finish_def inv_defs, auto)

lemma settle_end_error_inv: "tx_inv opts s \<Longrightarrow> tx_inv opts (settle_end failure s)"
  using settle_end_inv [of opts s failure "tx_ended s"] by simp

lemma work_settles_inv: "tx_inv opts s \<Longrightarrow> tx_inv opts (work_settles opts now r s)"
  by (auto simp: work_settles_def throwIfCancelled_def throwIf_def Let_def split: sum.splits option.splits
      intro!: catch_inv) (auto simp: inv_defs record_entry_def)

lemma run_work_inv:
  assumes "tx_inv opts s" "tx_point s = Querying q" "q = SET_STATEMENT_TIMEOUT n"
  shows "tx_inv opts (run_work opts (record_entry (Answered q True) s))"
proof (cases "to_deadline opts \<noteq> None \<and> tx_signal s \<noteq> None")
  case True
  have "tx_inv opts (catch opts e (record_entry Work (record_entry (Answered q True) s\<lparr>tx_point := Working\<rparr>)))" for e
    using assms True by (intro catch_inv) (auto simp: inv_defs record_entry_def)
  then show ?thesis using True by (simp add: run_work_def record_entry_def)
next
  case False
  then show ?thesis using assms by (auto simp: run_work_def inv_defs record_entry_def)
qed

lemma send_limits_inv:
  assumes "tx_inv opts s" "tx_point s = Querying q" "q = SET_ROLE role"
  shows "tx_inv opts (send_limits opts now (record_entry (Answered q True) s))"
proof -
  have "tx_inv opts (catch opts e (record_entry (Answered q True) s))" for e
    using assms by (intro catch_inv) (auto simp: inv_defs record_entry_def)
  moreover have "tx_inv opts (query (SET_LOCK_TIMEOUT n) (record_entry (Answered q True) s\<lparr>tx_statement := m\<rparr>))" for n m
    using assms by (auto simp: inv_defs record_entry_def query_def)
  ultimately show ?thesis by (auto simp: send_limits_def split: sum.splits)
qed

lemma answer_ok_inv:
  assumes "tx_inv opts s" "tx_point s = Querying q"
  shows "tx_inv opts (answer opts now None s)"
proof (cases q)
  case (BEGIN b)
  then show ?thesis using assms by (auto simp: answer_def inv_defs record_entry_def query_def)
next
  case (SET_ROLE role)
  then show ?thesis using assms send_limits_inv [OF assms] by (simp add: answer_def)
next
  case (SET_LOCK_TIMEOUT n)
  then show ?thesis using assms by (auto simp: answer_def inv_defs record_entry_def query_def)
next
  case (SET_STATEMENT_TIMEOUT n)
  then show ?thesis using assms run_work_inv [OF assms] by (simp add: answer_def)
qed (use assms in \<open>auto simp: inv_defs\<close>)

lemma rollback_failed_inv:
  assumes "tx_inv opts s" "tx_point s = Rolling_Back e"
  shows "tx_inv opts (rollback_failed e (record_entry (Answered ROLLBACK False) s))"
proof (cases "tx_released s")
  case True
  have "tx_inv opts (finish (Inl f) (record_entry (Answered ROLLBACK False) s))" for f
    using assms True by (intro finish_inv) (auto simp: inv_defs record_entry_def)
  then show ?thesis using True by (simp add: rollback_failed_def record_entry_def)
next
  case False
  have "tx_inv opts (finish_after_end f (release_with_error (record_entry (Answered ROLLBACK False) s)))" for f
    using assms False by (auto simp: inv_defs tx_defs)
  then show ?thesis using False by (simp add: rollback_failed_def record_entry_def)
qed

lemma answered_with_error_inv:
  assumes "tx_inv opts s" "tx_point s = Querying q \<or> tx_point s = Committing v \<and> q = COMMIT"
  shows "tx_inv opts (catch opts e (record_entry (Answered q False) s))"
  using assms by (intro catch_inv) (auto simp: inv_defs record_entry_def)

lemma answer_inv:
  assumes "tx_inv opts s"
  shows "tx_inv opts (answer opts now r s)"
proof (cases "tx_point s")
  case (Querying q)
  then show ?thesis
    using answer_ok_inv [OF assms Querying] answered_with_error_inv [OF assms, of q] by (cases r) (simp_all add: answer_def)
next
  case (Committing v)
  have "tx_inv opts (finish (Inr v) (record_entry (Answered COMMIT True) s\<lparr>tx_started := False\<rparr>))"
    using assms Committing by (intro finish_inv) (auto simp: inv_defs record_entry_def)
  then show ?thesis
    using Committing answered_with_error_inv [OF assms, of COMMIT v] by (cases r) (simp_all add: answer_def)
next
  case (Rolling_Back e)
  have "tx_inv opts (finish (Inl e) (record_entry (Answered ROLLBACK True) s\<lparr>tx_started := False\<rparr>))"
    using assms Rolling_Back by (intro finish_inv) (auto simp: inv_defs record_entry_def)
  then show ?thesis
    using Rolling_Back rollback_failed_inv [OF assms Rolling_Back] by (cases r) (simp_all add: answer_def)
qed (use assms in \<open>simp_all add: answer_def\<close>)

lemma cancel_released: "tx_released (cancel_client s) \<or> tx_cancelling s"
  by (auto simp: tx_defs)

lemma aborted_race_inv:
  assumes "tx_inv opts s" "tx_listening s" "tx_point s = Working \<or> tx_point s = Committing v"
  shows "tx_inv opts (catch opts e (cancel_client (s\<lparr>tx_signal := Some reason\<rparr>)))"
  using assms by (intro catch_inv) (auto simp: inv_defs cancel_client_def release_with_error_def record_entry_def waitForClientEnd_def)

lemma aborted_inv:
  assumes "tx_inv opts s" "to_deadline opts \<noteq> None" "tx_signal s = None" "tx_point s \<noteq> Acquiring" "tx_point s \<noteq> Working"
    "\<And>v. tx_point s = Committing v \<Longrightarrow> \<not> to_readOnly opts"
  shows "tx_inv opts (if tx_listening s then cancel_client (s\<lparr>tx_signal := Some reason\<rparr>) else s\<lparr>tx_signal := Some reason\<rparr>)"
  using assms by (cases "tx_point s")
    (auto simp: inv_defs cancel_client_def release_with_error_def record_entry_def waitForClientEnd_def)

lemma abort_inv:
  assumes "tx_inv opts s"
  shows "tx_inv opts (abort_transaction opts reason s)"
proof (cases "to_deadline opts = None \<or> tx_signal s \<noteq> None")
  case True
  then show ?thesis using assms by (simp add: abort_transaction_def)
next
  case False
  show ?thesis
  proof (cases "tx_point s")
    case Acquiring
    then show ?thesis using assms False by (auto simp: abort_transaction_def inv_defs reject_acquisition_def)
  next
    case Working
    have "tx_listening s" using assms False Working by (simp add: inv_defs)
    then show ?thesis using aborted_race_inv [OF assms] False Working by (auto simp: abort_transaction_def Let_def)
  next
    case (Committing v)
    have "tx_listening s \<longleftrightarrow> to_readOnly opts" using assms False Committing by (simp add: inv_defs)
    then show ?thesis
      using aborted_race_inv [OF assms] aborted_inv [OF assms] False Committing by (auto simp: abort_transaction_def Let_def)
  qed (use aborted_inv [OF assms] False in \<open>auto simp: abort_transaction_def Let_def\<close>)
qed

lemma step_inv: "tx_inv opts s \<Longrightarrow> tx_inv opts (tx_step opts s e)"
  by (cases "(opts, s, e)" rule: tx_step.cases)
    (simp_all add: connected_inv connect_failed_inv pool_timer_inv abort_inv answer_inv work_settles_inv settle_end_inv
      settle_end_error_inv)

interpretation tx: guarded_machine "tx_step opts" "tx_inv opts" for opts :: transaction_options
  by unfold_locales (rule step_inv)

lemma run_inv: "tx_inv opts (run_transaction opts now signal events)"
  unfolding run_transaction_def by (rule tx.run_good [OF begin_inv])

section \<open>The client\<close>

definition is_finished :: "'a transaction_state \<Rightarrow> bool" where
  "is_finished s = (case tx_point s of Finished _ \<Rightarrow> True | _ \<Rightarrow> False)"

text \<open>Property C8. Whatever the pool, the server, the work and the signal of the request do, in whatever order: a client is
  released at most once and, when the call has returned, exactly once if one was ever acquired; it goes back to the
  pool only when no transaction is open on it, no statement is unanswered and the work no longer uses it, and nothing
  is sent on it afterwards; \<^verbatim>\<open>COMMIT\<close> is sent at most once, inside a transaction, after the work has succeeded, and
  never after the client was given up.\<close>

theorem client_is_returned_clean:
  assumes "s = run_transaction opts now signal events"
  shows "protocol (tx_log s) \<and> (is_finished s \<and> Acquired \<in> set (tx_log s) \<longrightarrow> is_released (tx_log s))"
  using run_inv [of opts now signal events] assms
  by (auto simp: tx_inv_def at_point_def is_finished_def Let_def split: point.splits)

definition sample_options :: transaction_options where
  "sample_options = \<lparr>to_deadline = Some 5000, to_lockTimeoutMs = None, to_readOnly = False, to_role = None,
     to_statementTimeoutMs = Some (int_number 2000)\<rparr>"

text \<open>The client disconnects while the work runs; its connection is closed, and then the caller gets the timeout.\<close>

definition disconnected_run :: "(int \<times> nat tx_event) list" where
  "disconnected_run = [(10, Connected), (11, Answer None), (12, Answer None), (13, Answer None), (14, Answer None),
     (20, Abort ''CLIENT_DISCONNECT''), (21, Work_Settles (Inr 7)), (22, Client_End)]"

theorem client_is_returned_clean_witness:
  "let s = run_transaction sample_options 0 None disconnected_run in
     tx_point s = Finished (Inl (DatabaseTimeoutError Phase_CLIENT_DISCONNECT)) \<and> is_finished s \<and>
     tx_log s = [Release True, Work, Answered (SET_STATEMENT_TIMEOUT 2000) True, Sent (SET_STATEMENT_TIMEOUT 2000),
       Answered (SET_LOCK_TIMEOUT 1000) True, Sent (SET_LOCK_TIMEOUT 1000), Answered (SET_ROLE ''loremaster_runtime'') True,
       Sent (SET_ROLE ''loremaster_runtime''), Answered (BEGIN False) True, Sent (BEGIN False), Acquired, Connect] \<and>
     is_released (tx_log s) \<and> protocol (tx_log s)"
proof -
  define s where "s = run_transaction sample_options 0 None disconnected_run"
  have "tx_point s = Finished (Inl (DatabaseTimeoutError Phase_CLIENT_DISCONNECT)) \<and> is_finished s \<and>
     tx_log s = [Release True, Work, Answered (SET_STATEMENT_TIMEOUT 2000) True, Sent (SET_STATEMENT_TIMEOUT 2000),
       Answered (SET_LOCK_TIMEOUT 1000) True, Sent (SET_LOCK_TIMEOUT 1000), Answered (SET_ROLE ''loremaster_runtime'') True,
       Sent (SET_ROLE ''loremaster_runtime''), Answered (BEGIN False) True, Sent (BEGIN False), Acquired, Connect]"
    unfolding s_def by code_simp
  then show ?thesis using client_is_returned_clean [OF s_def] unfolding s_def Let_def by simp
qed

section \<open>The commit\<close>

lemma commit_iff_success:
  "tx_inv opts s \<Longrightarrow> (Answered COMMIT True \<in> set (tx_log s) \<longleftrightarrow> (\<exists>v. tx_point s = Finished (Inr v)))"
  by (cases "tx_point s") (simp_all add: tx_inv_def at_point_def live_def Let_def)

text \<open>The work settles as it does on the store, and only the value of the work is returned.\<close>

fun settles_as :: "'a tx \<Rightarrow> game_db \<Rightarrow> int \<times> 'a tx_event \<Rightarrow> bool" where
  "settles_as work db (now, Work_Settles (Inr v)) = (case work db of Inl e \<Rightarrow> False | Inr (a, db') \<Rightarrow> a = v)"
| "settles_as work db _ = True"

definition carries :: "('a \<Rightarrow> bool) \<Rightarrow> 'a transaction_state \<Rightarrow> bool" where
  "carries P s = (case tx_point s of Committing v \<Rightarrow> P v | Finished (Inr v) \<Rightarrow> P v | _ \<Rightarrow> True)"

lemma carries_simps [simp]:
  "carries P (finish (Inl e) s)" "carries P (finish (Inr v) s) = P v"
  "carries P (finish_after_end e s)" "carries P (catch opts e s)" "carries P (rollback_failed e s)"
  by (simp_all add: carries_def finish_def finish_after_end_def catch_def rollback_failed_def record_entry_def Let_def
      split: end_promise.split)

lemma carries_log [simp]: "carries P (record_entry l s) = carries P s"
  by (simp add: carries_def record_entry_def)

lemma carries_query [simp]: "carries P (query q s)"
  by (simp add: carries_def query_def record_entry_def)

lemma carries_cong: "tx_point s' = tx_point s \<Longrightarrow> carries P s' = carries P s"
  by (simp add: carries_def)

lemma point_cancel [simp]: "tx_point (cancel_client s) = tx_point s"
  by (simp add: tx_defs)

lemma step_carries:
  assumes "carries P s" "\<And>v. snd e = Work_Settles (Inr v) \<Longrightarrow> P v"
  shows "carries P (tx_step opts s e)"
proof (cases "(opts, s, e)" rule: tx_step.cases)
  case (1 opts' s' now)
  then show ?thesis using assms
    by (auto simp: connected_def Let_def split: point.splits option.splits sum.splits) (auto simp: carries_def)
next
  case (2 opts' s' now x)
  then show ?thesis using assms by (auto simp: connect_failed_def) (auto simp: carries_def)
next
  case (3 opts' s' now)
  then show ?thesis using assms by (auto simp: pool_timer_def reject_acquisition_def) (auto simp: carries_def)
next
  case (4 opts' s' now reason)
  then show ?thesis using assms
    by (auto simp: abort_transaction_def reject_acquisition_def Let_def split: point.splits) (auto simp: carries_def)
next
  case (5 opts' s' now r)
  then show ?thesis using assms
    by (cases "tx_point s"; cases r)
      (auto simp: answer_def send_limits_def run_work_def Let_def carries_def [of P "tx_point_update _ _"] split: sql.splits sum.splits,
       auto simp: carries_def)
next
  case (6 opts' s' now r)
  then show ?thesis using assms
    by (auto simp: work_settles_def Let_def split: sum.splits option.splits) (auto simp: carries_def)
next
  case (7 opts' s' now)
  then show ?thesis using assms
    by (auto simp: settle_end_def Let_def split: point.splits) (auto simp: carries_def)
next
  case (8 opts' s' now x)
  then show ?thesis using assms
    by (auto simp: settle_end_def Let_def split: point.splits) (auto simp: carries_def)
qed

lemma run_carries:
  assumes "\<And>v now. (now, Work_Settles (Inr v)) \<in> set events \<Longrightarrow> P v"
  shows "carries P (run_transaction opts now signal events)"
proof -
  have "carries P s \<Longrightarrow> carries P (foldl (tx_step opts) s events)" for s
    using assms
  proof (induction events arbitrary: s)
    case (Cons e events)
    have "carries P (tx_step opts s e)" using Cons.prems by (intro step_carries) (cases e; auto)+
    then show ?case using Cons by auto
  qed simp
  moreover have "carries P (begin_transaction opts now signal)"
    by (auto simp: carries_def begin_transaction_def record_entry_def Let_def split: option.splits sum.splits)
  ultimately show ?thesis by (simp add: run_transaction_def)
qed

text \<open>The store after the call: a \<^verbatim>\<open>COMMIT\<close> that was acknowledged was applied; one that was sent and not acknowledged
  may have been (\<open>lost\<close>: the server applied it and its answer did not arrive).\<close>

definition store_after :: "'a tx \<Rightarrow> game_db \<Rightarrow> bool \<Rightarrow> entry list \<Rightarrow> game_db" where
  "store_after work db lost l =
    (case work db of Inl e \<Rightarrow> db
     | Inr (a, db') \<Rightarrow> if Answered COMMIT True \<in> set l \<or> lost \<and> Sent COMMIT \<in> set l then db' else db)"

text \<open>Property C7. The protocol refines the atomic transaction the gameplay store is modelled with. When the call returns a
  value, it is the value of the atomic transaction and the store is the one it leaves; when it throws, the store is
  unchanged, unless a \<^verbatim>\<open>COMMIT\<close> was sent and its acknowledgement was lost, and then it is the store the atomic
  transaction leaves, never anything in between.\<close>

theorem transactions_are_atomic:
  assumes "list_all (settles_as work db) events" "s = run_transaction opts now signal events" "tx_point s = Finished r"
  shows "case r of
      Inr v \<Rightarrow> transaction work db = (Inr v, store_after work db lost (tx_log s))
    | Inl e \<Rightarrow> store_after work db lost (tx_log s) =
        (if lost \<and> Sent COMMIT \<in> set (tx_log s) then snd (transaction work db) else db)"
proof -
  have inv: "tx_inv opts s" using assms(2) run_inv by blast
  have "carries (\<lambda>v. case work db of Inl e \<Rightarrow> False | Inr (a, db') \<Rightarrow> a = v) s" unfolding assms(2)
    by (rule run_carries) (use assms(1) in \<open>auto simp: list_all_iff\<close>)
  then have v: "r = Inr v \<Longrightarrow> \<exists>db'. work db = Inr (v, db')" for v
    using assms(3) by (auto simp: carries_def split: sum.splits)
  have "Answered COMMIT True \<in> set (tx_log s) \<longleftrightarrow> (\<exists>v. r = Inr v)" using commit_iff_success [OF inv] assms(3) by simp
  then show ?thesis using v by (cases r) (auto simp: store_after_def transaction_def split: sum.splits)
qed

definition committed_run :: "(int \<times> unit tx_event) list" where
  "committed_run = [(10, Connected), (11, Answer None), (12, Answer None), (13, Answer None), (14, Answer None),
     (20, Work_Settles (Inr ())), (21, Abort ''CLIENT_DISCONNECT''), (22, Answer None)]"

theorem transactions_are_atomic_witness:
  "\<forall>db. let s = run_transaction sample_options 0 None committed_run in
     tx_point s = Finished (Inr ()) \<and> transaction (returnT ()) db = (Inr (), store_after (returnT ()) db False (tx_log s))"
proof
  fix db
  define s where "s = run_transaction sample_options 0 None committed_run"
  have p: "tx_point s = Finished (Inr ())" unfolding s_def by code_simp
  have "list_all (settles_as (returnT ()) db) committed_run" by (simp add: committed_run_def)
  from transactions_are_atomic [OF this s_def p]
  show "let s = run_transaction sample_options 0 None committed_run in
     tx_point s = Finished (Inr ()) \<and> transaction (returnT ()) db = (Inr (), store_after (returnT ()) db False (tx_log s))"
    using p unfolding s_def by simp
qed

section \<open>The end\<close>

text \<open>What the call waits for at each point.\<close>

fun awaits :: "transaction_options \<Rightarrow> 'a transaction_state \<Rightarrow> 'a tx_event \<Rightarrow> bool" where
  "awaits opts s Connected = (tx_point s = Acquiring)"
| "awaits opts s (Connect_Failed e) = (tx_point s = Acquiring)"
| "awaits opts s Pool_Timer = (tx_point s = Acquiring \<and> to_deadline opts \<noteq> None)"
| "awaits opts s (Answer r) = (case tx_point s of Querying q \<Rightarrow> True | Committing v \<Rightarrow> True | Rolling_Back e \<Rightarrow> True | _ \<Rightarrow> False)"
| "awaits opts s (Work_Settles r) = (tx_point s = Working)"
| "awaits opts s Client_End = (case tx_point s of Ending e \<Rightarrow> True | _ \<Rightarrow> False)"
| "awaits opts s (Client_Error f) = (case tx_point s of Ending e \<Rightarrow> True | _ \<Rightarrow> False)"
| "awaits opts s (Abort reason) = False"

fun sql_rank :: "sql \<Rightarrow> nat" where
  "sql_rank (BEGIN _) = 8"
| "sql_rank (SET_ROLE _) = 7"
| "sql_rank (SET_LOCK_TIMEOUT _) = 6"
| "sql_rank _ = 5"

definition rank :: "'a transaction_state \<Rightarrow> nat" where
  "rank s = (case tx_point s of Acquiring \<Rightarrow> 9 | Querying q \<Rightarrow> sql_rank q | Working \<Rightarrow> 4 | Committing v \<Rightarrow> 3
     | Rolling_Back e \<Rightarrow> 2 | Ending e \<Rightarrow> 1 | Finished r \<Rightarrow> 0)"

lemma rank_finish [simp]: "rank (finish r s) = 0"
  by (simp add: rank_def finish_def record_entry_def Let_def)

lemma rank_log [simp]: "rank (record_entry l s) = rank s"
  by (simp add: rank_def record_entry_def)

lemma rank_query [simp]: "rank (query q s) = sql_rank q"
  by (simp add: rank_def query_def record_entry_def)

lemma rank_catch: "rank (catch opts e s) \<le> 2"
  by (simp add: rank_def catch_def finish_after_end_def finish_def record_entry_def Let_def split: end_promise.split)

lemma rank_catch_le: "2 \<le> n \<Longrightarrow> rank (catch opts e s) \<le> n"
  using rank_catch le_trans by blast

lemma rank_finish_after_end: "rank (finish_after_end e s) \<le> 1"
  by (simp add: rank_def finish_after_end_def finish_def record_entry_def Let_def split: end_promise.split)

lemma rank_cancel [simp]: "rank (cancel_client s) = rank s"
  by (simp add: rank_def)

lemma rank_rollback_failed: "rank (rollback_failed e s) \<le> 1"
  by (simp add: rollback_failed_def Let_def rank_finish_after_end [simplified])

lemma sql_rank_ge: "5 \<le> sql_rank q"
  by (cases q) simp_all

text \<open>A step of each kind.\<close>

lemma send_limits_rank: "rank (send_limits opts now s) \<le> 6"
  by (auto simp: send_limits_def rank_catch_le split: sum.splits)

lemma run_work_rank: "rank (run_work opts s) \<le> 4"
  by (auto simp: run_work_def Let_def rank_catch_le) (simp_all add: rank_def)

lemma answer_rank:
  assumes "tx_inv opts s" "awaits opts s (Answer r)"
  shows "rank (answer opts now r s) < rank s"
proof (cases "tx_point s")
  case (Querying q)
  have c: "rank (catch opts e s') < sql_rank q" for e s'
    using rank_catch [of opts e s'] sql_rank_ge [of q] by linarith
  show ?thesis
  proof (cases r)
    case (Some e)
    then show ?thesis using Querying c by (simp add: answer_def rank_def [of s])
  next
    case None
    have "rank (answer opts now None s) < sql_rank q"
    proof (cases q)
      case (SET_ROLE x)
      then show ?thesis using Querying send_limits_rank [of opts now] by (simp add: answer_def less_Suc_eq_le numeral_eq_Suc)
    next
      case (SET_STATEMENT_TIMEOUT n)
      then show ?thesis using Querying run_work_rank [of opts] by (simp add: answer_def less_Suc_eq_le numeral_eq_Suc)
    qed (use Querying assms(1) in \<open>auto simp: answer_def inv_defs\<close>)
    then show ?thesis using Querying None by (simp add: rank_def [of s])
  qed
next
  case (Committing v)
  then show ?thesis using rank_catch_le [of 2]
    by (auto simp: answer_def Let_def rank_def [of s] less_Suc_eq_le numeral_eq_Suc split: option.splits)
next
  case (Rolling_Back e)
  then show ?thesis using rank_rollback_failed
    by (auto simp: answer_def Let_def rank_def [of s] less_Suc_eq_le numeral_eq_Suc split: option.splits)
qed (use assms(2) in simp_all)

lemma answer_rank_le: "tx_inv opts s \<Longrightarrow> rank (answer opts now r s) + (if awaits opts s (Answer r) then 1 else 0) \<le> rank s"
  using answer_rank [of opts s r now] by (cases "tx_point s") (auto simp: answer_def)

lemma work_rank: "rank (work_settles opts now r s) + (if awaits opts s (Work_Settles r) then 1 else 0) \<le> rank s"
proof (cases "tx_point s = Working")
  case True
  have "rank (work_settles opts now r s) \<le> 3"
    using True by (auto simp: work_settles_def Let_def rank_catch_le split: sum.splits option.splits) (simp_all add: rank_def)
  then show ?thesis using True by (simp add: rank_def [of s])
qed (simp add: work_settles_def)

lemma end_rank:
  assumes "tx_inv opts s" "tx_complete s' = tx_complete s" "tx_point s' = tx_point s"
  shows "rank (settle_end failure s') + (case tx_point s of Ending e \<Rightarrow> 1 | _ \<Rightarrow> 0) \<le> rank s"
  using assms by (cases "tx_point s"; cases failure)
    (auto simp: settle_end_def inv_defs finish_after_end_def rank_def [of s] rank_def [of s'] rank_def [of "tx_complete_update _ _"])

lemma connected_rank: "rank (connected opts now s) + (if tx_point s = Acquiring then 1 else 0) \<le> rank s"
proof (cases "tx_point s = Acquiring")
  case True
  have "rank (connected opts now s) \<le> 8"
    using True by (auto simp: connected_def Let_def rank_catch_le split: sum.splits option.splits)
  then show ?thesis using True by (simp add: rank_def [of s])
next
  case False
  then show ?thesis by (cases "tx_point s") (simp_all add: connected_def, simp_all add: rank_def)
qed

lemma abort_rank: "rank (abort_transaction opts reason s) \<le> rank s"
  by (cases "tx_point s")
    (auto simp: abort_transaction_def Let_def rank_def [of s] rank_catch_le, auto simp: rank_def reject_acquisition_def)

lemma step_rank:
  assumes "tx_inv opts s"
  shows "rank (tx_step opts s e) + (if awaits opts s (snd e) then 1 else 0) \<le> rank s"
proof (cases "(opts, s, e)" rule: tx_step.cases)
  case (1 opts' s' now)
  then show ?thesis using connected_rank [of opts now s] by simp
next
  case (2 opts' s' now x)
  then show ?thesis by (auto simp: connect_failed_def rank_def)
next
  case (3 opts' s' now)
  then show ?thesis by (auto simp: pool_timer_def reject_acquisition_def rank_def)
next
  case (4 opts' s' now reason)
  then show ?thesis using abort_rank by simp
next
  case (5 opts' s' now r)
  then show ?thesis using answer_rank_le [OF assms] by simp
next
  case (6 opts' s' now r)
  then show ?thesis using work_rank [of opts now r s] by simp
next
  case (7 opts' s' now)
  then show ?thesis using end_rank [OF assms, of "s\<lparr>tx_ended := True\<rparr>" None] by (cases "tx_point s") simp_all
next
  case (8 opts' s' now x)
  then show ?thesis using end_rank [OF assms, of s "Some x"] by (cases "tx_point s") simp_all
qed

fun awaited :: "transaction_options \<Rightarrow> 'a transaction_state \<Rightarrow> (int \<times> 'a tx_event) list \<Rightarrow> nat" where
  "awaited opts s [] = 0"
| "awaited opts s (e # es) = (if awaits opts s (snd e) then 1 else 0) + awaited opts (tx_step opts s e) es"

lemma run_rank: "tx_inv opts s \<Longrightarrow> rank (foldl (tx_step opts) s events) + awaited opts s events \<le> rank s"
proof (induction events arbitrary: s)
  case (Cons e events)
  show ?case using Cons.IH [OF step_inv [OF Cons.prems], of e] step_rank [OF Cons.prems, of e] by simp
qed simp

text \<open>Property C40. The call ends: it waits for at most nine answers (of the pool, of a statement, of the work or of the
  connection it closes), whatever else happens in between, and after the ninth it has returned.\<close>

theorem transaction_ends_after_nine_answers:
  assumes "s = begin_transaction opts now signal" "9 \<le> awaited opts s events"
  shows "is_finished (run_transaction opts now signal events)"
proof -
  have "rank s \<le> 9" unfolding assms(1)
    by (auto simp: begin_transaction_def Let_def split: option.splits sum.splits) (simp_all add: rank_def)
  then have "rank (run_transaction opts now signal events) = 0"
    using run_rank [OF begin_inv, of opts now signal events] assms by (simp add: run_transaction_def)
  then show ?thesis using sql_rank_ge [of q for q]
    by (auto simp: rank_def is_finished_def split: point.splits) (metis not_numeral_le_zero)
qed

text \<open>The longest run: the \<^verbatim>\<open>COMMIT\<close> fails, the \<^verbatim>\<open>ROLLBACK\<close> fails, and the connection is closed.\<close>

definition longest_run :: "(int \<times> nat tx_event) list" where
  "longest_run = [(1, Connected), (2, Answer None), (3, Answer None), (4, Answer None), (5, Answer None),
     (6, Work_Settles (Inr 7)), (7, Answer (Some (Fault None))), (8, Answer (Some (Fault None))), (9, Client_End)]"

theorem transaction_ends_after_nine_answers_witness:
  "awaited sample_options (begin_transaction sample_options 0 None) longest_run = 9 \<and>
    is_finished (run_transaction sample_options 0 None longest_run)"
proof -
  have "awaited sample_options (begin_transaction sample_options 0 None) longest_run = 9" by code_simp
  then show ?thesis
    using transaction_ends_after_nine_answers [of "begin_transaction sample_options 0 None" sample_options 0 None longest_run] by simp
qed

section \<open>An abort\<close>

text \<open>The call has not reached the \<^verbatim>\<open>COMMIT\<close> of a transaction that writes, nor failed.\<close>

definition abortable :: "transaction_options \<Rightarrow> 'a transaction_state \<Rightarrow> bool" where
  "abortable opts s = (to_deadline opts \<noteq> None \<and> tx_signal s = None \<and>
     (case tx_point s of Acquiring \<Rightarrow> True | Querying q \<Rightarrow> True | Working \<Rightarrow> True | Committing v \<Rightarrow> to_readOnly opts | _ \<Rightarrow> False))"

text \<open>An event that brings no error of its own: neither an \<^verbatim>\<open>error\<close> event of the connection that is being closed nor a
  statement that fails with the package's own timeout error.\<close>

fun plain_event :: "int \<times> 'a tx_event \<Rightarrow> bool" where
  "plain_event (now, Client_Error e) = False"
| "plain_event (now, Answer (Some (DatabaseTimeoutError p))) = False"
| "plain_event _ = True"

definition doomed :: "transaction_options \<Rightarrow> timeout_phase \<Rightarrow> 'a transaction_state \<Rightarrow> bool" where
  "doomed opts p s \<longleftrightarrow> to_deadline opts \<noteq> None \<and> tx_signal s \<noteq> None \<and> cancellationReason (tx_signal s) = p \<and>
     (\<forall>e. tx_complete s \<noteq> Promise_Rejected e) \<and>
     (case tx_point s of
        Querying q \<Rightarrow> tx_complete s \<noteq> No_Promise
      | Ending e \<Rightarrow> e = DatabaseTimeoutError p
      | Finished r \<Rightarrow> r = Inl (DatabaseTimeoutError p)
      | _ \<Rightarrow> False)"

lemma doomed_catch:
  assumes "to_deadline opts \<noteq> None" "tx_signal s = Some reason" "tx_complete s = Promise_Pending \<or> tx_complete s = Promise_Resolved"
    "\<And>q. e = DatabaseTimeoutError q \<Longrightarrow> q = cancellationReason (Some reason)"
  shows "doomed opts (cancellationReason (Some reason)) (catch opts e s)"
proof -
  have "timeoutError opts (tx_signal s) e = DatabaseTimeoutError (cancellationReason (Some reason))"
    using assms(1,2,4) by (cases e) (auto simp: timeoutError_def)
  then show ?thesis using assms(1-3)
    by (auto simp: doomed_def catch_def finish_after_end_def finish_def record_entry_def Let_def split: if_splits)
qed

lemma plain_fault: "plain_event (now, Answer (Some e)) \<Longrightarrow> e = DatabaseTimeoutError q \<Longrightarrow> False"
  by simp

lemma doomed_answer:
  assumes "doomed opts p s" "plain_event (now, Answer r)"
  shows "doomed opts p (answer opts now' r s)"
proof (cases "tx_point s")
  case (Querying q)
  obtain reason where r: "tx_signal s = Some reason" "p = cancellationReason (Some reason)" "to_deadline opts \<noteq> None"
    using assms(1) by (auto simp: doomed_def)
  have c: "tx_complete s = Promise_Pending \<or> tx_complete s = Promise_Resolved"
    using assms(1) Querying by (cases "tx_complete s") (auto simp: doomed_def)
  have f: "doomed opts p (catch opts e (record_entry l s))" if "\<And>q. e = DatabaseTimeoutError q \<Longrightarrow> q = p" for e l
    unfolding r(2) by (rule doomed_catch) (use r c that in \<open>auto simp: record_entry_def\<close>)
  have q: "doomed opts p (query q' (record_entry l s))" "doomed opts p (query q' (record_entry l s\<lparr>tx_started := b\<rparr>))"
    "doomed opts p (query q' (record_entry l s\<lparr>tx_statement := n\<rparr>))" for q' l b n
    using assms(1) Querying by (auto simp: doomed_def query_def record_entry_def)
  have l: "doomed opts p (send_limits opts now' (record_entry l s))" for l
    using q f [of RangeFault] by (auto simp: send_limits_def boundedTimeout_def bindE_throwIf Let_def)
  have w: "doomed opts p (run_work opts (record_entry l s))" for l
  proof -
    have "doomed opts p (catch opts (DatabaseTimeoutError p) (record_entry Work (record_entry l s\<lparr>tx_point := Working\<rparr>)))"
      unfolding r(2) by (rule doomed_catch) (use r c in \<open>auto simp: record_entry_def\<close>)
    then show ?thesis using r by (simp add: run_work_def record_entry_def)
  qed
  show ?thesis
  proof (cases r)
    case None
    then show ?thesis using Querying q l w by (cases q) (simp_all add: answer_def)
  next
    case (Some e)
    then have "doomed opts p (catch opts e (record_entry (Answered q False) s))" using assms(2) plain_fault by (intro f) blast
    then show ?thesis using Querying Some by (simp add: answer_def)
  qed
qed (use assms in \<open>simp_all add: answer_def doomed_def\<close>)

lemma doomed_step:
  assumes "doomed opts p s" "tx_inv opts s" "plain_event e"
  shows "doomed opts p (tx_step opts s e)"
proof (cases "(opts, s, e)" rule: tx_step.cases)
  case (5 opts' s' now r)
  then show ?thesis using doomed_answer [OF assms(1), of now r] assms(3) by simp
next
  case (6 opts' s' now r)
  then show ?thesis using assms by (auto simp: work_settles_def doomed_def)
next
  case (7 opts' s' now)
  then show ?thesis using assms
    by (cases "tx_point s") (auto simp: settle_end_def doomed_def finish_after_end_def finish_def record_entry_def Let_def split: if_splits)
qed (use assms in \<open>auto simp: doomed_def connected_def connect_failed_def pool_timer_def abort_transaction_def record_entry_def split: point.splits\<close>)

lemma abort_dooms:
  assumes "tx_inv opts s" "abortable opts s"
  shows "doomed opts (cancellationReason (Some reason)) (abort_transaction opts reason s)"
proof -
  define s' where "s' = cancel_client (s\<lparr>tx_signal := Some reason\<rparr>)"
  have d: "to_deadline opts \<noteq> None" "tx_signal s = None" using assms(2) by (simp_all add: abortable_def)
  have s': "tx_signal s' = Some reason" "tx_complete s' = Promise_Pending \<or> tx_complete s' = Promise_Resolved"
    "tx_point s' = tx_point s" if "tx_point s \<noteq> Acquiring"
    using that assms by (cases "tx_point s"; auto simp: s'_def cancel_client_def release_with_error_def waitForClientEnd_def
        record_entry_def inv_defs abortable_def)+
  have c: "doomed opts (cancellationReason (Some reason)) (catch opts (DatabaseTimeoutError (cancellationReason (Some reason))) s')"
    if "tx_point s \<noteq> Acquiring"
    using d(1) s' [OF that] by (intro doomed_catch) auto
  show ?thesis
  proof (cases "tx_point s")
    case Acquiring
    then show ?thesis using assms d by (auto simp: abort_transaction_def doomed_def inv_defs reject_acquisition_def)
  next
    case (Querying q)
    then have "tx_listening s" using assms(1) d by (simp add: inv_defs)
    then have "abort_transaction opts reason s = s'" using d Querying by (auto simp: abort_transaction_def s'_def Let_def)
    then show ?thesis using d s' Querying by (auto simp: doomed_def)
  next
    case Working
    then have "tx_listening s" using assms(1) d by (simp add: inv_defs)
    then show ?thesis using d Working c by (auto simp: abort_transaction_def s'_def Let_def)
  next
    case (Committing v)
    then have "tx_listening s" "to_readOnly opts" using assms d by (simp_all add: inv_defs abortable_def)
    then show ?thesis using d Committing c by (auto simp: abort_transaction_def s'_def Let_def)
  qed (use assms(2) in \<open>simp_all add: abortable_def\<close>)
qed

lemma doomed_run: "doomed opts p s \<Longrightarrow> tx_inv opts s \<Longrightarrow> list_all plain_event es \<Longrightarrow> doomed opts p (foldl (tx_step opts) s es)"
  by (induction es arbitrary: s) (auto simp: doomed_step step_inv)

text \<open>A call that is aborted before it sends the \<^verbatim>\<open>COMMIT\<close> of its writes (a reading call: before it has
  returned or failed) never returns a value: whatever is still answered, it ends with the timeout error of the reason of the
  abort. Only errors that come later (of the connection being closed, or a timeout error thrown by a statement) can replace
  it.\<close>

lemma aborted_call_times_out:
  assumes "abortable opts (run_transaction opts now None before)" "list_all plain_event after"
    "tx_point (run_transaction opts now None (before @ (t, Abort reason) # after)) = Finished r"
  shows "r = Inl (DatabaseTimeoutError (cancellationReason (Some reason)))"
proof -
  let ?s = "run_transaction opts now None before"
  have "doomed opts (cancellationReason (Some reason)) (foldl (tx_step opts) (abort_transaction opts reason ?s) after)"
    by (rule doomed_run [OF abort_dooms [OF run_inv assms(1)] abort_inv [OF run_inv] assms(2)])
  then show ?thesis using assms(3) by (simp add: run_transaction_def doomed_def)
qed

lemma aborted_call_times_out_example:
  "tx_point (run_transaction sample_options 0 None disconnected_run) = Finished (Inl (DatabaseTimeoutError Phase_CLIENT_DISCONNECT))"
proof -
  let ?before = "take 5 disconnected_run" and ?after = "drop 6 disconnected_run"
  have a: "abortable sample_options (run_transaction sample_options 0 None ?before)" by code_simp
  have p: "list_all plain_event ?after" by code_simp
  have split: "?before @ (20, Abort ''CLIENT_DISCONNECT'') # ?after = disconnected_run" by code_simp
  have "is_finished (run_transaction sample_options 0 None disconnected_run)" by code_simp
  then obtain r where "tx_point (run_transaction sample_options 0 None disconnected_run) = Finished r"
    by (auto simp: is_finished_def split: point.splits)
  then show ?thesis using aborted_call_times_out [OF a p, of 20 "''CLIENT_DISCONNECT''" r]
    unfolding split by (simp add: cancellationReason_def)
qed

end
