(* ===== verification/Content_Pack.thy ===== *)
theory Content_Pack
  imports Response_Schema Http Json_Text "HOL-Library.Sublist"
begin

text \<open>
  The validator of an editorial content pack (\<^verbatim>\<open>packages/database/src/content/validate.ts\<close> and
  \<^verbatim>\<open>packages/database/src/content/schema.ts\<close>): from an untyped value to a pack or a sorted list of diagnostics.

  A reading function returns the diagnostics it adds to the context, in order, with what it read. Arguments of the model
  (\<open>text_lib\<close>): \<open>tl_canonical\<close> is \<^verbatim>\<open>value.normalize('NFKC').trim().toLocaleLowerCase('en-US')\<close>, \<open>tl_locale\<close> the comparison
  \<^verbatim>\<open>localeCompare(_, 'en')\<close>, and \<open>tl_parse\<close> is \<^verbatim>\<open>Date.parse\<close>, which is implementation-defined on texts that are not of the
  format of ISO 8601; \<open>None\<close> is \<^verbatim>\<open>NaN\<close>.
\<close>

record text_lib =
  tl_canonical :: "string \<Rightarrow> string"
  tl_locale :: "string \<Rightarrow> string \<Rightarrow> int"
  tl_parse :: "string \<Rightarrow> int option"

section \<open>The pack\<close>

record pack_entity =
  pe_aliases :: "string list"
  pe_canonicalName :: string
  pe_id :: string
  pe_role :: string

record pack_evidence =
  pv_explanation :: string
  pv_order :: int
  pv_text :: string

record pack_region =
  pr_displayName :: string
  pr_id :: string

record pack_source =
  ps_citation :: string
  ps_id :: string

record content_pack =
  cp_answerEntityId :: string
  cp_author :: string
  cp_briefing :: string
  cp_caseId :: string
  cp_closesAt :: string
  cp_contentVersion :: string
  cp_entities :: "pack_entity list"
  cp_evidence :: "pack_evidence list"
  cp_opensAt :: string
  cp_provenance :: string
  cp_regionIds :: "string list"
  cp_regions :: "pack_region list"
  cp_revisionNumber :: int
  cp_schemaVersion :: int
  cp_slotId :: string
  cp_sourceIds :: "string list"
  cp_sources :: "pack_source list"
  cp_stableKey :: string
  cp_title :: string

section \<open>Diagnostics\<close>

datatype content_code =
    AMBIGUOUS_ALIAS | DUPLICATE_VALUE | EXTERNAL_URL | INVALID_DAY_WINDOW | INVALID_FORMAT | INVALID_TYPE | OUT_OF_BOUNDS
  | UNKNOWN_ANSWER_ID | UNKNOWN_FIELD | UNKNOWN_PROVENANCE | UNKNOWN_REGION_ID | UNKNOWN_SOURCE_ID | UNSAFE_MARKUP

fun code_text :: "content_code \<Rightarrow> string" where
  "code_text AMBIGUOUS_ALIAS = ''AMBIGUOUS_ALIAS''"
| "code_text DUPLICATE_VALUE = ''DUPLICATE_VALUE''"
| "code_text EXTERNAL_URL = ''EXTERNAL_URL''"
| "code_text INVALID_DAY_WINDOW = ''INVALID_DAY_WINDOW''"
| "code_text INVALID_FORMAT = ''INVALID_FORMAT''"
| "code_text INVALID_TYPE = ''INVALID_TYPE''"
| "code_text OUT_OF_BOUNDS = ''OUT_OF_BOUNDS''"
| "code_text UNKNOWN_ANSWER_ID = ''UNKNOWN_ANSWER_ID''"
| "code_text UNKNOWN_FIELD = ''UNKNOWN_FIELD''"
| "code_text UNKNOWN_PROVENANCE = ''UNKNOWN_PROVENANCE''"
| "code_text UNKNOWN_REGION_ID = ''UNKNOWN_REGION_ID''"
| "code_text UNKNOWN_SOURCE_ID = ''UNKNOWN_SOURCE_ID''"
| "code_text UNSAFE_MARKUP = ''UNSAFE_MARKUP''"

type_synonym diagnostic = "content_code \<times> string"
type_synonym 'a reading = "diagnostic list \<times> 'a"

definition compare_diagnostics :: "text_lib \<Rightarrow> diagnostic \<Rightarrow> diagnostic \<Rightarrow> int" where
  "compare_diagnostics lib l r =
    (let c = tl_locale lib (snd l) (snd r) in if c \<noteq> 0 then c else tl_locale lib (code_text (fst l)) (code_text (fst r)))"

definition finish_context :: "text_lib \<Rightarrow> diagnostic list \<Rightarrow> diagnostic list" where
  "finish_context lib ds = js_sort (compare_diagnostics lib) (uniq ds)"

definition note_if :: "bool \<Rightarrow> content_code \<Rightarrow> string \<Rightarrow> diagnostic list" where
  "note_if b code path = (if b then [(code, path)] else [])"

section \<open>Patterns\<close>

text \<open>\<open>entityIdSchema\<close> is the pattern of an identifier.\<close>

definition source_identifier :: "string \<Rightarrow> bool" where
  "source_identifier s = list_all entityIdSchema (js_split (CHR ''/'') s)"

definition digits_then :: "(string \<Rightarrow> bool) \<Rightarrow> string \<Rightarrow> bool" where
  "digits_then p s = (takeWhile is_digit s \<noteq> [] \<and> p (dropWhile is_digit s))"

definition after :: "char \<Rightarrow> (string \<Rightarrow> bool) \<Rightarrow> string \<Rightarrow> bool" where
  "after c p s = (case s of [] \<Rightarrow> False | d # r \<Rightarrow> d = c \<and> p r)"

definition prerelease :: "string \<Rightarrow> bool" where
  "prerelease s = (s = [] \<or>
     after (CHR ''-'') (\<lambda>r. r \<noteq> [] \<and> list_all (\<lambda>c. lower_letter c \<or> is_digit c \<or> c = CHR ''.'' \<or> c = CHR ''-'') r) s)"

definition version_pattern :: "string \<Rightarrow> bool" where
  "version_pattern = digits_then (after (CHR ''.'') (digits_then (after (CHR ''.'') (digits_then prerelease))))"

definition slot_pattern :: "string \<Rightarrow> bool" where
  "slot_pattern s = (match_day s \<noteq> None)"

definition utc_midnight :: "string \<Rightarrow> bool" where
  "utc_midnight s = (slot_pattern (take 10 s) \<and> (drop 10 s = ''T00:00:00Z'' \<or> drop 10 s = ''T00:00:00.000Z''))"

definition ascii_letter :: "char \<Rightarrow> bool" where
  "ascii_letter c = list_all lower_letter (ascii_lower [c])"

definition word_char :: "char \<Rightarrow> bool" where
  "word_char c = (ascii_letter c \<or> is_digit c \<or> c = CHR ''_'')"

definition scheme_char :: "char \<Rightarrow> bool" where
  "scheme_char c = (ascii_letter c \<or> is_digit c \<or> c = CHR ''+'' \<or> c = CHR ''.'' \<or> c = CHR ''-'')"

fun external_url :: "bool \<Rightarrow> string \<Rightarrow> bool" where
  "external_url inside [] = False"
| "external_url inside (c # s) =
     (\<not> inside \<and> ascii_letter c \<and> prefix ''://'' (dropWhile scheme_char s) \<or>
      prefix ''www.'' (ascii_lower (c # s)) \<or> prefix ''mailto:'' (ascii_lower (c # s)) \<or> external_url (word_char c) s)"

fun unsafe_markup :: "string \<Rightarrow> bool" where
  "unsafe_markup [] = False"
| "unsafe_markup (c # s) =
     (c = CHR ''<'' \<or> c = CHR ''>'' \<or> c = CHR '']'' \<and> prefix ''('' (dropWhile js_space s) \<or>
      prefix ''javascript:'' (ascii_lower (c # s)) \<or> prefix ''data:'' (ascii_lower (c # s)) \<or> unsafe_markup s)"

section \<open>Reading\<close>

record string_options =
  st_format :: "(string \<Rightarrow> bool) option"
  st_max :: nat
  st_plainText :: bool

definition formatted :: "(string \<Rightarrow> bool) \<Rightarrow> nat \<Rightarrow> string_options" where
  "formatted p n = \<lparr>st_format = Some p, st_max = n, st_plainText = False\<rparr>"

definition plain_text :: "nat \<Rightarrow> string_options" where
  "plain_text n = \<lparr>st_format = None, st_max = n, st_plainText = True\<rparr>"

definition any_text :: "nat \<Rightarrow> string_options" where
  "any_text n = \<lparr>st_format = None, st_max = n, st_plainText = False\<rparr>"

definition source_text :: string_options where
  "source_text = \<lparr>st_format = Some source_identifier, st_max = 128, st_plainText = True\<rparr>"

definition isRecord :: "js_value \<Rightarrow> bool" where
  "isRecord v = (case v of Object _ \<Rightarrow> True | _ \<Rightarrow> False)"

definition object_keys :: "js_value \<Rightarrow> string list" where
  "object_keys v = (case v of Object fs \<Rightarrow> map fst fs | _ \<Rightarrow> [])"

definition rejectUnknownFields :: "js_value \<Rightarrow> string list \<Rightarrow> string \<Rightarrow> diagnostic list" where
  "rejectUnknownFields v allowed path =
    map (\<lambda>key. (UNKNOWN_FIELD, path @ ''.'' @ key)) (filter (\<lambda>key. key \<notin> set allowed) (sort (object_keys v)))"

definition string_diagnostics :: "string_options \<Rightarrow> string \<Rightarrow> string \<Rightarrow> diagnostic list" where
  "string_diagnostics opts path s =
    note_if (length s < 1 \<or> st_max opts < length s) OUT_OF_BOUNDS path @
    note_if (case st_format opts of None \<Rightarrow> False | Some p \<Rightarrow> \<not> p s) INVALID_FORMAT path @
    note_if (st_plainText opts \<and> external_url False s) EXTERNAL_URL path @
    note_if (st_plainText opts \<and> unsafe_markup s) UNSAFE_MARKUP path"

definition readString :: "string_options \<Rightarrow> string \<Rightarrow> js_value \<Rightarrow> string option reading" where
  "readString opts path v =
    (case v of String s \<Rightarrow> (string_diagnostics opts path s, Some s) | _ \<Rightarrow> ([(INVALID_TYPE, path)], None))"

text \<open>\<^verbatim>\<open>forEach\<close> and \<^verbatim>\<open>map\<close> over the items, keeping what could be read.\<close>

fun read_items :: "(nat \<Rightarrow> js_value \<Rightarrow> 'a option reading) \<Rightarrow> nat \<Rightarrow> js_value list \<Rightarrow> 'a list reading" where
  "read_items f i [] = ([], [])"
| "read_items f i (v # vs) =
     (case f i v of (ds, a) \<Rightarrow> case read_items f (Suc i) vs of (ds', as) \<Rightarrow>
        (ds @ ds', (case a of None \<Rightarrow> as | Some x \<Rightarrow> x # as)))"

definition at_index :: "string \<Rightarrow> nat \<Rightarrow> string" where
  "at_index path i = path @ ''['' @ decimal i @ '']''"

definition readStringArray :: "nat \<Rightarrow> string_options \<Rightarrow> string \<Rightarrow> js_value \<Rightarrow> string list reading" where
  "readStringArray maximum opts path v =
    (case v of
       Array vs \<Rightarrow> (case read_items (\<lambda>i. readString opts (at_index path i)) 0 vs of (ds, xs) \<Rightarrow>
         (note_if (length vs < 1 \<or> maximum < length vs) OUT_OF_BOUNDS path @ ds, xs))
     | _ \<Rightarrow> ([(INVALID_TYPE, path)], []))"

fun duplicates_from :: "text_lib \<Rightarrow> string \<Rightarrow> nat \<Rightarrow> string list \<Rightarrow> string list \<Rightarrow> diagnostic list" where
  "duplicates_from lib path i sofar [] = []"
| "duplicates_from lib path i sofar (x # xs) =
     note_if (tl_canonical lib x \<in> set sofar) DUPLICATE_VALUE (at_index path i) @
     duplicates_from lib path (Suc i) (tl_canonical lib x # sofar) xs"

definition reportDuplicates :: "text_lib \<Rightarrow> string list \<Rightarrow> string \<Rightarrow> diagnostic list" where
  "reportDuplicates lib values path = duplicates_from lib path 0 [] values"

section \<open>The parts of a pack\<close>

definition read_region :: "nat \<Rightarrow> js_value \<Rightarrow> pack_region option reading" where
  "read_region index item =
    (let path = at_index ''$.regions'' index
     in if \<not> isRecord item then ([(INVALID_TYPE, path)], None)
        else case readString (formatted entityIdSchema 64) (path @ ''.id'') (js_field item ''id'') of (d1, ident) \<Rightarrow>
             case readString (plain_text 80) (path @ ''.displayName'') (js_field item ''displayName'') of (d2, displayName) \<Rightarrow>
          (rejectUnknownFields item [''displayName'', ''id''] path @ d1 @ d2,
           (case (ident, displayName) of
              (Some i, Some n) \<Rightarrow> Some \<lparr>pr_displayName = n, pr_id = i\<rparr> | _ \<Rightarrow> None)))"

definition readRegions :: "text_lib \<Rightarrow> js_value \<Rightarrow> pack_region list reading" where
  "readRegions lib v =
    (case v of
       Array vs \<Rightarrow> (case read_items read_region 0 vs of (ds, rs) \<Rightarrow>
         (note_if (length vs < 1 \<or> 8 < length vs) OUT_OF_BOUNDS ''$.regions'' @ ds @
          reportDuplicates lib (map pr_id rs) ''$.regions'', rs))
     | _ \<Rightarrow> ([(INVALID_TYPE, ''$.regions'')], []))"

text \<open>The names of an entity against their owners so far; the second result are the owners.\<close>

fun ambiguous_names ::
  "text_lib \<Rightarrow> nat \<Rightarrow> string \<Rightarrow> nat \<Rightarrow> (string \<times> string) list \<Rightarrow> string list \<Rightarrow> (string \<times> string) list reading" where
  "ambiguous_names lib entityIndex ident nameIndex owners [] = ([], owners)"
| "ambiguous_names lib entityIndex ident nameIndex owners (name # names) =
     (let normalized = tl_canonical lib name;
          path = (if nameIndex = 0 then at_index ''$.entities'' entityIndex @ ''.canonicalName''
                  else at_index (at_index ''$.entities'' entityIndex @ ''.aliases'') (nameIndex - 1))
      in case map_of owners normalized of
           Some owner \<Rightarrow>
             if owner \<noteq> ident
             then (case ambiguous_names lib entityIndex ident (Suc nameIndex) owners names of (ds, os) \<Rightarrow> ((AMBIGUOUS_ALIAS, path) # ds, os))
             else ambiguous_names lib entityIndex ident (Suc nameIndex) ((normalized, ident) # owners) names
         | None \<Rightarrow> ambiguous_names lib entityIndex ident (Suc nameIndex) ((normalized, ident) # owners) names)"

definition entity_names :: "pack_entity \<Rightarrow> string list" where
  "entity_names e = pe_canonicalName e # pe_aliases e"

fun ambiguous_entities :: "text_lib \<Rightarrow> nat \<Rightarrow> (string \<times> string) list \<Rightarrow> pack_entity list \<Rightarrow> diagnostic list" where
  "ambiguous_entities lib i owners [] = []"
| "ambiguous_entities lib i owners (e # es) =
     (case ambiguous_names lib i (pe_id e) 0 owners (entity_names e) of (ds, os) \<Rightarrow>
        ds @ ambiguous_entities lib (Suc i) os es)"

definition reportAmbiguousAliases :: "text_lib \<Rightarrow> pack_entity list \<Rightarrow> diagnostic list" where
  "reportAmbiguousAliases lib es = ambiguous_entities lib 0 [] es"

definition read_entity :: "text_lib \<Rightarrow> nat \<Rightarrow> js_value \<Rightarrow> pack_entity option reading" where
  "read_entity lib index item =
    (let path = at_index ''$.entities'' index
     in if \<not> isRecord item then ([(INVALID_TYPE, path)], None)
        else case readString (formatted entityIdSchema 64) (path @ ''.id'') (js_field item ''id'') of (d1, ident) \<Rightarrow>
             case readString (plain_text 80) (path @ ''.canonicalName'') (js_field item ''canonicalName'') of (d2, canonicalName) \<Rightarrow>
             case readString (plain_text 160) (path @ ''.role'') (js_field item ''role'') of (d3, role) \<Rightarrow>
             case readStringArray 8 (plain_text 80) (path @ ''.aliases'') (js_field item ''aliases'') of (d4, others) \<Rightarrow>
          (rejectUnknownFields item [''aliases'', ''canonicalName'', ''id'', ''role''] path @ d1 @ d2 @ d3 @ d4 @
             reportDuplicates lib others (path @ ''.aliases''),
           (case (ident, canonicalName, role) of
              (Some i, Some n, Some r) \<Rightarrow> Some \<lparr>pe_aliases = others, pe_canonicalName = n, pe_id = i, pe_role = r\<rparr>
            | _ \<Rightarrow> None)))"

definition readEntities :: "text_lib \<Rightarrow> js_value \<Rightarrow> pack_entity list reading" where
  "readEntities lib v =
    (case v of
       Array vs \<Rightarrow> (case read_items (read_entity lib) 0 vs of (ds, es) \<Rightarrow>
         (note_if (length vs < 2 \<or> 32 < length vs) OUT_OF_BOUNDS ''$.entities'' @ ds @
          reportDuplicates lib (map pe_id es) ''$.entities'' @ reportAmbiguousAliases lib es, es))
     | _ \<Rightarrow> ([(INVALID_TYPE, ''$.entities'')], []))"

definition order_diagnostics :: "string \<Rightarrow> js_value \<Rightarrow> diagnostic list" where
  "order_diagnostics path v =
    (case as_integer v of None \<Rightarrow> [(INVALID_TYPE, path)] | Some i \<Rightarrow> note_if (i < 1 \<or> 4 < i) OUT_OF_BOUNDS path)"

definition read_evidence :: "nat \<Rightarrow> js_value \<Rightarrow> pack_evidence option reading" where
  "read_evidence index item =
    (let path = at_index ''$.evidence'' index; order = js_field item ''order''
     in if \<not> isRecord item then ([(INVALID_TYPE, path)], None)
        else case readString (plain_text 1000) (path @ ''.text'') (js_field item ''text'') of (d1, text) \<Rightarrow>
             case readString (plain_text 1500) (path @ ''.explanation'') (js_field item ''explanation'') of (d2, explanation) \<Rightarrow>
          (rejectUnknownFields item [''explanation'', ''order'', ''text''] path @ order_diagnostics (path @ ''.order'') order @ d1 @ d2,
           (case (as_integer order, text, explanation) of
              (Some i, Some t, Some x) \<Rightarrow>
                if 1 \<le> i \<and> i \<le> 4 then Some \<lparr>pv_explanation = x, pv_order = i, pv_text = t\<rparr> else None
            | _ \<Rightarrow> None)))"

definition readEvidence :: "text_lib \<Rightarrow> js_value \<Rightarrow> pack_evidence list reading" where
  "readEvidence lib v =
    (case v of
       Array vs \<Rightarrow> (case read_items read_evidence 0 vs of (ds, es) \<Rightarrow>
         (note_if (length vs \<noteq> 4) OUT_OF_BOUNDS ''$.evidence'' @ ds @
          reportDuplicates lib (map (\<lambda>e. json_int (pv_order e)) es) ''$.evidence'' @
          concat (map (\<lambda>order. note_if (order \<notin> pv_order ` set es) INVALID_FORMAT (''$.evidence[order='' @ json_int order @ '']''))
            [1, 2, 3, 4]), es))
     | _ \<Rightarrow> ([(INVALID_TYPE, ''$.evidence'')], []))"

definition read_source :: "nat \<Rightarrow> js_value \<Rightarrow> pack_source option reading" where
  "read_source index item =
    (let path = at_index ''$.sources'' index
     in if \<not> isRecord item then ([(INVALID_TYPE, path)], None)
        else case readString source_text (path @ ''.id'') (js_field item ''id'') of (d1, ident) \<Rightarrow>
             case readString (plain_text 240) (path @ ''.citation'') (js_field item ''citation'') of (d2, citation) \<Rightarrow>
          (rejectUnknownFields item [''citation'', ''id''] path @ d1 @ d2,
           (case (ident, citation) of (Some i, Some c) \<Rightarrow> Some \<lparr>ps_citation = c, ps_id = i\<rparr> | _ \<Rightarrow> None)))"

definition readSources :: "text_lib \<Rightarrow> js_value \<Rightarrow> pack_source list reading" where
  "readSources lib v =
    (case v of
       Array vs \<Rightarrow> (case read_items read_source 0 vs of (ds, ss) \<Rightarrow>
         (note_if (length vs < 1 \<or> 16 < length vs) OUT_OF_BOUNDS ''$.sources'' @ ds @
          reportDuplicates lib (map ps_id ss) ''$.sources'', ss))
     | _ \<Rightarrow> ([(INVALID_TYPE, ''$.sources'')], []))"

section \<open>The window and the references\<close>

text \<open>\<^verbatim>\<open>new Date(t).toISOString()\<close>: beyond the range of dates it throws, beyond the years of four digits it writes
  a sign and six digits.\<close>

definition six_digits :: "int \<Rightarrow> string" where
  "six_digits n = map digit_char [n div 100000 mod 10, n div 10000 mod 10] @ four_digits n"

definition toISOString :: "int \<Rightarrow> string result" where
  "toISOString t =
    (if 8640000000000000 < \<bar>t\<bar> then Inl (RangeError ''Invalid time value'')
     else let y = year (civil_of_day (t div MILLISECONDS_PER_DAY)); text = iso_timestamp t
          in Inr (if 0 \<le> y \<and> y \<le> 9999 then text
                  else (if y < 0 then ''-'' else ''+'') @ six_digits \<bar>y\<bar> @ drop 4 text))"

definition is_some :: "'a option \<Rightarrow> bool" where
  "is_some a = (a \<noteq> None)"

definition exact_window :: "text_lib \<Rightarrow> string \<Rightarrow> string \<Rightarrow> string \<Rightarrow> bool result" where
  "exact_window lib slotId opensAt closesAt =
    (let opens = tl_parse lib opensAt; closes = tl_parse lib closesAt
     in bindE (case opens of None \<Rightarrow> Inr [] | Some t \<Rightarrow> toISOString (t + 86400000)) (\<lambda>expectedClose.
        if slot_pattern slotId \<and> utc_midnight opensAt \<and> utc_midnight closesAt
        then case (opens, closes) of
            (Some o', Some c) \<Rightarrow>
              bindE (toISOString o') (\<lambda>openText.
                if openText \<noteq> slotId @ ''T00:00:00.000Z'' then Inr False
                else bindE (toISOString c) (\<lambda>closeText. Inr (closeText = expectedClose)))
          | _ \<Rightarrow> Inr False
        else Inr False))"

definition validateWindow :: "text_lib \<Rightarrow> string option \<Rightarrow> string option \<Rightarrow> string option \<Rightarrow> diagnostic list result" where
  "validateWindow lib slotId opensAt closesAt =
    (case (slotId, opensAt, closesAt) of
       (Some s, Some o', Some c) \<Rightarrow>
         bindE (exact_window lib s o' c) (\<lambda>isExact. Inr (note_if (\<not> isExact) INVALID_DAY_WINDOW ''$.opensAt''))
     | _ \<Rightarrow> Inr [])"

definition unknown_ids :: "content_code \<Rightarrow> string \<Rightarrow> string list \<Rightarrow> string list \<Rightarrow> diagnostic list" where
  "unknown_ids code path known ids =
    concat (map (\<lambda>(i, index). note_if (i \<notin> set known) code (at_index path index)) (zip ids [0..<length ids]))"

definition validateReferences ::
  "string option \<Rightarrow> string list \<Rightarrow> string list \<Rightarrow> pack_entity list \<Rightarrow> pack_region list \<Rightarrow> pack_source list \<Rightarrow> diagnostic list" where
  "validateReferences answerEntityId regionIds sourceIds es rs ss =
    note_if (case answerEntityId of None \<Rightarrow> False | Some a \<Rightarrow> a \<notin> pe_id ` set es) UNKNOWN_ANSWER_ID ''$.answerEntityId'' @
    unknown_ids UNKNOWN_REGION_ID ''$.regionIds'' (map pr_id rs) regionIds @
    unknown_ids UNKNOWN_SOURCE_ID ''$.sourceIds'' (map ps_id ss) sourceIds"

section \<open>The validator\<close>

datatype content_validation = Content_Invalid "diagnostic list" | Content_Valid content_pack

definition ROOT_FIELDS :: "string list" where
  "ROOT_FIELDS = [''answerEntityId'', ''author'', ''briefing'', ''caseId'', ''closesAt'', ''contentVersion'', ''entities'',
     ''evidence'', ''opensAt'', ''provenance'', ''regionIds'', ''regions'', ''revisionNumber'', ''schemaVersion'', ''slotId'',
     ''sourceIds'', ''sources'', ''stableKey'', ''title'']"

text \<open>The texts at the root, with the options each is read with, in the order of the code.\<close>

definition ROOT_TEXTS :: "(string \<times> string_options) list" where
  "ROOT_TEXTS = [(''stableKey'', formatted entityIdSchema 64), (''caseId'', formatted entityIdSchema 64),
     (''author'', plain_text 120), (''contentVersion'', formatted version_pattern 32), (''title'', plain_text 120),
     (''briefing'', plain_text 2000), (''answerEntityId'', formatted entityIdSchema 64), (''slotId'', formatted slot_pattern 10),
     (''opensAt'', any_text 24), (''closesAt'', any_text 24)]"

definition root_path :: "string \<Rightarrow> string" where
  "root_path name = ''$.'' @ name"

definition read_root :: "js_value \<Rightarrow> string \<times> string_options \<Rightarrow> string option reading" where
  "read_root input f = readString (snd f) (root_path (fst f)) (js_field input (fst f))"

definition schema_version_diagnostics :: "js_value \<Rightarrow> diagnostic list" where
  "schema_version_diagnostics v =
    (case as_integer v of None \<Rightarrow> [(INVALID_TYPE, ''$.schemaVersion'')] | Some i \<Rightarrow> note_if (i \<noteq> 1) INVALID_FORMAT ''$.schemaVersion'')"

definition revision_number_diagnostics :: "js_value \<Rightarrow> diagnostic list" where
  "revision_number_diagnostics v =
    (case as_integer v of None \<Rightarrow> [(INVALID_TYPE, ''$.revisionNumber'')]
     | Some i \<Rightarrow> note_if (i < 1 \<or> 2147483647 < i) OUT_OF_BOUNDS ''$.revisionNumber'')"

definition provenance_diagnostics :: "js_value \<Rightarrow> diagnostic list" where
  "provenance_diagnostics v =
    (case readString (any_text 32) ''$.provenance'' v of (ds, p) \<Rightarrow>
       ds @ note_if (case p of None \<Rightarrow> False | Some s \<Rightarrow> s \<noteq> ''ORIGINAL_AUTHORED'') UNKNOWN_PROVENANCE ''$.provenance'')"

text \<open>Without diagnostics every part was read; \<open>text_at\<close> and \<open>number_at\<close> are the reads the code asserts to be defined.\<close>

definition text_at :: "js_value \<Rightarrow> string \<Rightarrow> string" where
  "text_at input name = (case js_field input name of String s \<Rightarrow> s | _ \<Rightarrow> [])"

definition number_at :: "js_value \<Rightarrow> string \<Rightarrow> int" where
  "number_at input name = (case as_integer (js_field input name) of Some i \<Rightarrow> i | None \<Rightarrow> 0)"

definition string_at :: "js_value \<Rightarrow> string \<Rightarrow> string option" where
  "string_at input name = (case js_field input name of String s \<Rightarrow> Some s | _ \<Rightarrow> None)"

definition validateContentPack :: "text_lib \<Rightarrow> js_value \<Rightarrow> content_validation result" where
  "validateContentPack lib input =
    (if \<not> isRecord input then Inr (Content_Invalid [(INVALID_TYPE, ''$'')])
     else
       case readRegions lib (js_field input ''regions'') of (d_regions, rs) \<Rightarrow>
       case readEntities lib (js_field input ''entities'') of (d_entities, es) \<Rightarrow>
       case readEvidence lib (js_field input ''evidence'') of (d_evidence, vs) \<Rightarrow>
       case readSources lib (js_field input ''sources'') of (d_sources, ss) \<Rightarrow>
       case readStringArray 8 (formatted entityIdSchema 64) ''$.regionIds'' (js_field input ''regionIds'') of (d_regionIds, regionIds) \<Rightarrow>
       case readStringArray 16 source_text ''$.sourceIds'' (js_field input ''sourceIds'') of (d_sourceIds, sourceIds) \<Rightarrow>
       bindE (validateWindow lib (string_at input ''slotId'') (string_at input ''opensAt'') (string_at input ''closesAt''))
         (\<lambda>d_window.
           let diagnostics = finish_context lib
             (rejectUnknownFields input ROOT_FIELDS ''$'' @ concat (map (\<lambda>f. fst (read_root input f)) ROOT_TEXTS) @
              schema_version_diagnostics (js_field input ''schemaVersion'') @
              revision_number_diagnostics (js_field input ''revisionNumber'') @
              provenance_diagnostics (js_field input ''provenance'') @
              d_regions @ d_entities @ d_evidence @ d_sources @ d_regionIds @ d_sourceIds @
              reportDuplicates lib regionIds ''$.regionIds'' @ reportDuplicates lib sourceIds ''$.sourceIds'' @ d_window @
              validateReferences (string_at input ''answerEntityId'') regionIds sourceIds es rs ss)
           in Inr (if diagnostics \<noteq> [] then Content_Invalid diagnostics
                   else Content_Valid \<lparr>
                     cp_answerEntityId = text_at input ''answerEntityId'', cp_author = text_at input ''author'',
                     cp_briefing = text_at input ''briefing'', cp_caseId = text_at input ''caseId'',
                     cp_closesAt = text_at input ''closesAt'', cp_contentVersion = text_at input ''contentVersion'',
                     cp_entities = es, cp_evidence = vs, cp_opensAt = text_at input ''opensAt'',
                     cp_provenance = text_at input ''provenance'', cp_regionIds = regionIds, cp_regions = rs,
                     cp_revisionNumber = number_at input ''revisionNumber'', cp_schemaVersion = number_at input ''schemaVersion'',
                     cp_slotId = text_at input ''slotId'', cp_sourceIds = sourceIds, cp_sources = ss,
                     cp_stableKey = text_at input ''stableKey'', cp_title = text_at input ''title''\<rparr>)))"

end
