(* ===== verification/Content_Correct.thy ===== *)
theory Content_Correct
  imports Content_Pack
begin

text \<open>
  What the validator of content packs accepts: a declarative description of a valid pack and of the value that
  represents it, and the proof that the validator returns a pack exactly when the value represents a valid one.
\<close>

section \<open>No diagnostics\<close>

lemma finish_context_nil [simp]: "finish_context lib ds = [] \<longleftrightarrow> ds = []"
  by (metis finish_context_def set_empty set_js_sort set_uniq)

lemma note_if_nil [simp]: "note_if b c p = [] \<longleftrightarrow> \<not> b" "[] = note_if b c p \<longleftrightarrow> \<not> b"
  by (simp_all add: note_if_def)

definition fits :: "string_options \<Rightarrow> string \<Rightarrow> bool" where
  "fits opts s \<longleftrightarrow> sized 1 (st_max opts) s \<and> (case st_format opts of None \<Rightarrow> True | Some p \<Rightarrow> p s) \<and>
     (st_plainText opts \<longrightarrow> \<not> external_url False s \<and> \<not> unsafe_markup s)"

lemma string_diagnostics_nil [simp]: "string_diagnostics opts path s = [] \<longleftrightarrow> fits opts s"
  by (auto simp: string_diagnostics_def fits_def sized_def Suc_le_eq split: option.splits)

definition keys_within :: "js_value \<Rightarrow> string list \<Rightarrow> bool" where
  "keys_within v allowed \<longleftrightarrow> isRecord v \<and> set (object_keys v) \<subseteq> set allowed"

lemma rejectUnknownFields_nil: "isRecord v \<Longrightarrow> rejectUnknownFields v allowed path = [] \<longleftrightarrow> keys_within v allowed"
  by (auto simp: rejectUnknownFields_def keys_within_def filter_empty_conv)

lemma duplicates_from_nil:
  "duplicates_from lib path i sofar xs = [] \<longleftrightarrow>
     distinct (map (tl_canonical lib) xs) \<and> set (map (tl_canonical lib) xs) \<inter> set sofar = {}"
  by (induction lib path i sofar xs rule: duplicates_from.induct) auto

lemma reportDuplicates_nil [simp]: "reportDuplicates lib xs path = [] \<longleftrightarrow> distinct (map (tl_canonical lib) xs)"
  by (simp add: reportDuplicates_def duplicates_from_nil)

lemma unknown_ids_nil [simp]: "unknown_ids c path known xs = [] \<longleftrightarrow> set xs \<subseteq> set known"
proof -
  have "(\<forall>p \<in> set (zip xs [0..<length xs]). fst p \<in> set known) \<longleftrightarrow> set xs \<subseteq> set known"
    by (auto simp: set_zip in_set_conv_nth subset_iff)
  then show ?thesis by (auto simp: unknown_ids_def case_prod_beta)
qed

section \<open>Reading an item\<close>

text \<open>The contract of the readers: one that adds no diagnostics has read an item, and \<open>R\<close> says which.\<close>

locale item_reader =
  fixes reader :: "nat \<Rightarrow> js_value \<Rightarrow> 'a option reading" and R :: "js_value \<Rightarrow> 'a \<Rightarrow> bool"
  assumes reads: "reader i v = ([], a) \<longleftrightarrow> (\<exists>x. a = Some x \<and> R v x)"
begin

lemma reads_items: "read_items reader i vs = ([], xs) \<longleftrightarrow> list_all2 R vs xs"
proof (induction vs arbitrary: i xs)
  case Nil
  show ?case by (cases xs) auto
next
  case (Cons v vs)
  obtain ds a ds' as where r: "reader i v = (ds, a)" "read_items reader (Suc i) vs = (ds', as)" by fastforce
  have "reader i v = ([], b) \<longleftrightarrow> ds = [] \<and> b = a" for b using r(1) by auto
  then have h: "(\<exists>x. b = Some x \<and> R v x) \<longleftrightarrow> ds = [] \<and> b = a" for b using reads by simp
  have t: "list_all2 R vs ys \<longleftrightarrow> ds' = [] \<and> ys = as" for ys using Cons.IH [of "Suc i" ys] r(2) by auto
  show ?case
  proof (cases a)
    case None
    then have "ds \<noteq> []" using h [of a] by auto
    moreover have "\<not> R v x" for x using h [of "Some x"] None by auto
    ultimately show ?thesis using r None by (cases xs) auto
  next
    case (Some x)
    have "R v y \<longleftrightarrow> ds = [] \<and> y = x" for y using h [of "Some y"] Some by auto
    then show ?thesis using r t Some by (cases xs) auto
  qed
qed

end

definition as_text :: "js_value \<Rightarrow> string option" where
  "as_text v = (case v of String s \<Rightarrow> Some s | _ \<Rightarrow> None)"

lemma as_text_Some: "as_text v = Some s \<longleftrightarrow> v = String s"
  by (cases v) (simp_all add: as_text_def)

lemma readString_text: "readString opts path v =
    (case as_text v of None \<Rightarrow> ([(INVALID_TYPE, path)], None) | Some s \<Rightarrow> (string_diagnostics opts path s, Some s))"
  by (cases v) (simp_all add: as_text_def readString_def)

definition reads_text :: "string_options \<Rightarrow> js_value \<Rightarrow> string \<Rightarrow> bool" where
  "reads_text opts v s \<longleftrightarrow> as_text v = Some s \<and> fits opts s"

lemma reads_text_iff: "reads_text opts v s \<longleftrightarrow> v = String s \<and> fits opts s"
  by (simp add: reads_text_def as_text_Some)

lemma readString_iff: "readString opts path v = ([], a) \<longleftrightarrow> (\<exists>s. a = Some s \<and> reads_text opts v s)"
  by (cases "as_text v") (auto simp: readString_text reads_text_def)

interpretation texts: item_reader "\<lambda>i. readString opts (at_index path i)" "reads_text opts" for opts path
  by unfold_locales (rule readString_iff)

definition reads_texts :: "nat \<Rightarrow> string_options \<Rightarrow> js_value \<Rightarrow> string list \<Rightarrow> bool" where
  "reads_texts maximum opts v xs \<longleftrightarrow> (\<exists>vs. v = Array vs \<and> sized 1 maximum vs \<and> list_all2 (reads_text opts) vs xs)"

text \<open>A list that is read: its items, and its size.\<close>

lemma items_iff:
  assumes "read_items f 0 vs = (ds, ys)" "read_items f 0 vs = ([], xs) \<longleftrightarrow> list_all2 R vs xs"
  shows "ds = [] \<and> ys = xs \<longleftrightarrow> list_all2 R vs xs"
  using assms by auto

lemma readStringArray_iff: "readStringArray maximum opts path v = ([], xs) \<longleftrightarrow> reads_texts maximum opts v xs"
proof (cases v)
  case (Array vs)
  obtain ds ys where r: "read_items (\<lambda>i. readString opts (at_index path i)) 0 vs = (ds, ys)" by fastforce
  have "readStringArray maximum opts path v = ([], xs) \<longleftrightarrow> sized 1 maximum vs \<and> ds = [] \<and> ys = xs"
    using Array r by (auto simp: readStringArray_def sized_def Suc_le_eq)
  then show ?thesis using items_iff [OF r texts.reads_items] Array by (simp add: reads_texts_def)
qed (auto simp: readStringArray_def reads_texts_def)

section \<open>Regions and sources\<close>

definition reads_region :: "js_value \<Rightarrow> pack_region \<Rightarrow> bool" where
  "reads_region v r \<longleftrightarrow> keys_within v [''displayName'', ''id''] \<and> reads_text (formatted entityIdSchema 64) (js_field v ''id'') (pr_id r) \<and>
     reads_text (plain_text 80) (js_field v ''displayName'') (pr_displayName r)"

lemma read_region_iff: "read_region i v = ([], a) \<longleftrightarrow> (\<exists>x. a = Some x \<and> reads_region v x)"
proof (cases "isRecord v")
  case True
  then show ?thesis
    by (cases "as_text (js_field v ''id'')"; cases "as_text (js_field v ''displayName'')")
      (auto simp: read_region_def readString_text rejectUnknownFields_nil reads_region_def reads_text_def Let_def
        intro: pack_region.equality)
qed (simp add: read_region_def reads_region_def keys_within_def)

interpretation region_items: item_reader read_region reads_region
  by unfold_locales (rule read_region_iff)

definition reads_regions :: "text_lib \<Rightarrow> js_value \<Rightarrow> pack_region list \<Rightarrow> bool" where
  "reads_regions lib v rs \<longleftrightarrow> (\<exists>vs. v = Array vs \<and> sized 1 8 vs \<and> list_all2 reads_region vs rs) \<and>
     distinct (map (tl_canonical lib \<circ> pr_id) rs)"

lemma readRegions_iff: "readRegions lib v = ([], rs) \<longleftrightarrow> reads_regions lib v rs"
proof (cases v)
  case (Array vs)
  obtain ds ys where r: "read_items read_region 0 vs = (ds, ys)" by fastforce
  have "readRegions lib v = ([], rs) \<longleftrightarrow> sized 1 8 vs \<and> (ds = [] \<and> ys = rs) \<and> distinct (map (tl_canonical lib \<circ> pr_id) rs)"
    using Array r by (auto simp: readRegions_def sized_def Suc_le_eq)
  then show ?thesis using items_iff [OF r region_items.reads_items] Array by (simp add: reads_regions_def)
qed (auto simp: readRegions_def reads_regions_def)

definition reads_source :: "js_value \<Rightarrow> pack_source \<Rightarrow> bool" where
  "reads_source v s \<longleftrightarrow> keys_within v [''citation'', ''id''] \<and> reads_text source_text (js_field v ''id'') (ps_id s) \<and>
     reads_text (plain_text 240) (js_field v ''citation'') (ps_citation s)"

lemma read_source_iff: "read_source i v = ([], a) \<longleftrightarrow> (\<exists>x. a = Some x \<and> reads_source v x)"
proof (cases "isRecord v")
  case True
  then show ?thesis
    by (cases "as_text (js_field v ''id'')"; cases "as_text (js_field v ''citation'')")
      (auto simp: read_source_def readString_text rejectUnknownFields_nil reads_source_def reads_text_def Let_def
        intro: pack_source.equality)
qed (simp add: read_source_def reads_source_def keys_within_def)

interpretation source_items: item_reader read_source reads_source
  by unfold_locales (rule read_source_iff)

definition reads_sources :: "text_lib \<Rightarrow> js_value \<Rightarrow> pack_source list \<Rightarrow> bool" where
  "reads_sources lib v ss \<longleftrightarrow> (\<exists>vs. v = Array vs \<and> sized 1 16 vs \<and> list_all2 reads_source vs ss) \<and>
     distinct (map (tl_canonical lib \<circ> ps_id) ss)"

lemma readSources_iff: "readSources lib v = ([], ss) \<longleftrightarrow> reads_sources lib v ss"
proof (cases v)
  case (Array vs)
  obtain ds ys where r: "read_items read_source 0 vs = (ds, ys)" by fastforce
  have "readSources lib v = ([], ss) \<longleftrightarrow> sized 1 16 vs \<and> (ds = [] \<and> ys = ss) \<and> distinct (map (tl_canonical lib \<circ> ps_id) ss)"
    using Array r by (auto simp: readSources_def sized_def Suc_le_eq)
  then show ?thesis using items_iff [OF r source_items.reads_items] Array by (simp add: reads_sources_def)
qed (auto simp: readSources_def reads_sources_def)

section \<open>Evidence\<close>

definition reads_evidence :: "js_value \<Rightarrow> pack_evidence \<Rightarrow> bool" where
  "reads_evidence v e \<longleftrightarrow> keys_within v [''explanation'', ''order'', ''text''] \<and>
     as_integer (js_field v ''order'') = Some (pv_order e) \<and> 1 \<le> pv_order e \<and> pv_order e \<le> 4 \<and>
     reads_text (plain_text 1000) (js_field v ''text'') (pv_text e) \<and>
     reads_text (plain_text 1500) (js_field v ''explanation'') (pv_explanation e)"

lemma read_evidence_iff: "read_evidence i v = ([], a) \<longleftrightarrow> (\<exists>x. a = Some x \<and> reads_evidence v x)"
proof (cases "isRecord v")
  case True
  then show ?thesis
    by (cases "as_text (js_field v ''text'')"; cases "as_text (js_field v ''explanation'')"; cases "as_integer (js_field v ''order'')")
      (auto simp: read_evidence_def readString_text rejectUnknownFields_nil reads_evidence_def reads_text_def Let_def
        order_diagnostics_def simp del: as_integer.simps intro: pack_evidence.equality)
qed (simp add: read_evidence_def reads_evidence_def keys_within_def)

interpretation evidence_items: item_reader read_evidence reads_evidence
  by unfold_locales (rule read_evidence_iff)

definition reads_evidences :: "text_lib \<Rightarrow> js_value \<Rightarrow> pack_evidence list \<Rightarrow> bool" where
  "reads_evidences lib v es \<longleftrightarrow> (\<exists>vs. v = Array vs \<and> length vs = 4 \<and> list_all2 reads_evidence vs es) \<and>
     distinct (map (\<lambda>e. tl_canonical lib (json_int (pv_order e))) es) \<and> {1, 2, 3, 4} \<subseteq> pv_order ` set es"

lemma readEvidence_iff: "readEvidence lib v = ([], es) \<longleftrightarrow> reads_evidences lib v es"
proof (cases v)
  case (Array vs)
  obtain ds ys where r: "read_items read_evidence 0 vs = (ds, ys)" by fastforce
  have "readEvidence lib v = ([], es) \<longleftrightarrow> length vs = 4 \<and> (ds = [] \<and> ys = es) \<and>
      distinct (map (\<lambda>e. tl_canonical lib (json_int (pv_order e))) es) \<and> {1, 2, 3, 4} \<subseteq> pv_order ` set es"
    using Array r by (auto simp: readEvidence_def comp_def)
  then show ?thesis using items_iff [OF r evidence_items.reads_items] Array by (simp add: reads_evidences_def)
qed (auto simp: readEvidence_def reads_evidences_def)

section \<open>Entities\<close>

definition reads_entity :: "text_lib \<Rightarrow> js_value \<Rightarrow> pack_entity \<Rightarrow> bool" where
  "reads_entity lib v e \<longleftrightarrow> keys_within v [''aliases'', ''canonicalName'', ''id'', ''role''] \<and>
     reads_text (formatted entityIdSchema 64) (js_field v ''id'') (pe_id e) \<and>
     reads_text (plain_text 80) (js_field v ''canonicalName'') (pe_canonicalName e) \<and>
     reads_text (plain_text 160) (js_field v ''role'') (pe_role e) \<and>
     reads_texts 8 (plain_text 80) (js_field v ''aliases'') (pe_aliases e) \<and> distinct (map (tl_canonical lib) (pe_aliases e))"

lemma read_entity_iff: "read_entity lib i v = ([], a) \<longleftrightarrow> (\<exists>x. a = Some x \<and> reads_entity lib v x)"
proof (cases "isRecord v")
  case True
  obtain d4 xs where 4: "readStringArray 8 (plain_text 80) (at_index ''$.entities'' i @ ''.aliases'') (js_field v ''aliases'') = (d4, xs)"
    by fastforce
  have e: "reads_texts 8 (plain_text 80) (js_field v ''aliases'') ys \<longleftrightarrow> d4 = [] \<and> ys = xs" for ys
    using readStringArray_iff [of 8 "plain_text 80" "at_index ''$.entities'' i @ ''.aliases''" "js_field v ''aliases''" ys] 4 by auto
  show ?thesis using True
    by (cases "as_text (js_field v ''id'')"; cases "as_text (js_field v ''canonicalName'')"; cases "as_text (js_field v ''role'')")
      (auto simp: read_entity_def readString_text rejectUnknownFields_nil reads_entity_def reads_text_def Let_def 4 e
        intro: pack_entity.equality)
qed (simp add: read_entity_def reads_entity_def keys_within_def)

interpretation entity_items: item_reader "read_entity lib" "reads_entity lib" for lib
  by unfold_locales (rule read_entity_iff)

text \<open>The names of an entity are free, or its own.\<close>

definition unclaimed :: "text_lib \<Rightarrow> (string \<times> string) list \<Rightarrow> string \<Rightarrow> string list \<Rightarrow> bool" where
  "unclaimed lib owners i names \<longleftrightarrow>
     (\<forall>n \<in> set names. map_of owners (tl_canonical lib n) = None \<or> map_of owners (tl_canonical lib n) = Some i)"

definition claims :: "text_lib \<Rightarrow> string \<Rightarrow> string list \<Rightarrow> (string \<times> string) list" where
  "claims lib i names = rev (map (\<lambda>n. (tl_canonical lib n, i)) names)"

lemma ambiguous_names_iff:
  "ambiguous_names lib k i m owners names = ([], os) \<longleftrightarrow> unclaimed lib owners i names \<and> os = claims lib i names @ owners"
proof (induction lib k i m owners names arbitrary: os rule: ambiguous_names.induct)
  case (1 lib k i m owners)
  show ?case by (auto simp: unclaimed_def claims_def)
next
  case (2 lib k i m owners n names)
  have u: "unclaimed lib ((tl_canonical lib n, i) # owners) i names \<longleftrightarrow> unclaimed lib owners i names"
    if "map_of owners (tl_canonical lib n) = None \<or> map_of owners (tl_canonical lib n) = Some i"
    using that by (auto simp: unclaimed_def)
  show ?case
  proof (cases "map_of owners (tl_canonical lib n)")
    case None
    then show ?thesis using 2(1) [OF refl refl None] u by (simp add: claims_def unclaimed_def [of lib owners i "n # names"] unclaimed_def [of lib owners i names])
  next
    case (Some j)
    then show ?thesis using 2(3) [OF refl refl Some] u
      by (cases "j = i") (auto simp: claims_def unclaimed_def [of lib owners i "n # names"] unclaimed_def [of lib owners i names]
          split: prod.splits)
  qed
qed

lemma map_of_claims: "map_of (claims lib i names @ owners) x = (if x \<in> tl_canonical lib ` set names then Some i else map_of owners x)"
proof (induction names rule: rev_induct)
  case Nil
  show ?case by (simp add: claims_def)
next
  case (snoc n names)
  then show ?case by (simp add: claims_def)
qed

definition distinguished :: "text_lib \<Rightarrow> pack_entity \<Rightarrow> pack_entity \<Rightarrow> bool" where
  "distinguished lib e f \<longleftrightarrow> pe_id e = pe_id f \<or>
     tl_canonical lib ` set (entity_names e) \<inter> tl_canonical lib ` set (entity_names f) = {}"

lemma unclaimed_claims:
  assumes "unclaimed lib owners (pe_id e) (entity_names e)"
  shows "unclaimed lib (claims lib (pe_id e) (entity_names e) @ owners) (pe_id f) (entity_names f) \<longleftrightarrow>
    unclaimed lib owners (pe_id f) (entity_names f) \<and> distinguished lib e f"
proof (cases "pe_id e = pe_id f")
  case True
  have own: "map_of owners x = None \<or> map_of owners x = Some (pe_id f)" if "x \<in> tl_canonical lib ` set (entity_names e)" for x
    using assms that True by (auto simp: unclaimed_def)
  have d: "distinguished lib e f" using True by (simp add: distinguished_def)
  show ?thesis using own unfolding True [symmetric] unclaimed_def map_of_claims by (simp add: d) metis
next
  case False
  then show ?thesis
    by (auto simp: unclaimed_def map_of_claims distinguished_def simp del: map_of_append) (metis image_eqI)
qed

lemma ambiguous_entities_nil:
  "ambiguous_entities lib k owners es = [] \<longleftrightarrow>
     (\<forall>e \<in> set es. unclaimed lib owners (pe_id e) (entity_names e)) \<and> sorted_wrt (distinguished lib) es"
proof (induction es arbitrary: k owners)
  case Nil
  show ?case by simp
next
  case (Cons e es)
  obtain ds os where r: "ambiguous_names lib k (pe_id e) 0 owners (entity_names e) = (ds, os)" by fastforce
  have d: "ds = [] \<and> x = os \<longleftrightarrow> unclaimed lib owners (pe_id e) (entity_names e) \<and> x = claims lib (pe_id e) (entity_names e) @ owners" for x
    using ambiguous_names_iff [of lib k "pe_id e" 0 owners "entity_names e" x] r by auto
  show ?case
  proof (cases "unclaimed lib owners (pe_id e) (entity_names e)")
    case True
    then have "ds = []" "os = claims lib (pe_id e) (entity_names e) @ owners" using d by auto
    then show ?thesis using r Cons.IH unclaimed_claims [OF True] True by auto
  next
    case False
    then have "ds \<noteq> []" using d by auto
    then show ?thesis using r False by simp
  qed
qed

definition reads_entities :: "text_lib \<Rightarrow> js_value \<Rightarrow> pack_entity list \<Rightarrow> bool" where
  "reads_entities lib v es \<longleftrightarrow> (\<exists>vs. v = Array vs \<and> sized 2 32 vs \<and> list_all2 (reads_entity lib) vs es) \<and>
     distinct (map (tl_canonical lib \<circ> pe_id) es) \<and> sorted_wrt (distinguished lib) es"

lemma readEntities_iff: "readEntities lib v = ([], es) \<longleftrightarrow> reads_entities lib v es"
proof (cases v)
  case (Array vs)
  obtain ds ys where r: "read_items (read_entity lib) 0 vs = (ds, ys)" by fastforce
  have "readEntities lib v = ([], es) \<longleftrightarrow> sized 2 32 vs \<and> (ds = [] \<and> ys = es) \<and>
      distinct (map (tl_canonical lib \<circ> pe_id) es) \<and> sorted_wrt (distinguished lib) es"
    using Array r by (auto simp: readEntities_def sized_def reportAmbiguousAliases_def ambiguous_entities_nil unclaimed_def)
  then show ?thesis using items_iff [OF r entity_items.reads_items] Array by (simp add: reads_entities_def)
qed (auto simp: readEntities_def reads_entities_def)

section \<open>The window\<close>

definition reads_window :: "text_lib \<Rightarrow> string \<Rightarrow> string \<Rightarrow> string \<Rightarrow> bool" where
  "reads_window lib slot opens closes \<longleftrightarrow> exact_window lib slot opens closes = Inr True"

lemma validateWindow_nil:
  "validateWindow lib (Some slot) (Some opens) (Some closes) = Inr [] \<longleftrightarrow> reads_window lib slot opens closes"
  by (auto simp: validateWindow_def reads_window_def bindE_eq_Inr)

section \<open>The pack\<close>

definition reads_root :: "js_value \<Rightarrow> string \<Rightarrow> string_options \<Rightarrow> string \<Rightarrow> bool" where
  "reads_root v name opts s \<longleftrightarrow> reads_text opts (js_field v name) s"

text \<open>A value represents a valid pack.\<close>

definition reads_pack :: "text_lib \<Rightarrow> js_value \<Rightarrow> content_pack \<Rightarrow> bool" where
  "reads_pack lib v p \<longleftrightarrow> keys_within v ROOT_FIELDS \<and>
     reads_root v ''stableKey'' (formatted entityIdSchema 64) (cp_stableKey p) \<and>
     reads_root v ''caseId'' (formatted entityIdSchema 64) (cp_caseId p) \<and>
     reads_root v ''author'' (plain_text 120) (cp_author p) \<and>
     reads_root v ''contentVersion'' (formatted version_pattern 32) (cp_contentVersion p) \<and>
     reads_root v ''title'' (plain_text 120) (cp_title p) \<and>
     reads_root v ''briefing'' (plain_text 2000) (cp_briefing p) \<and>
     reads_root v ''answerEntityId'' (formatted entityIdSchema 64) (cp_answerEntityId p) \<and>
     reads_root v ''slotId'' (formatted slot_pattern 10) (cp_slotId p) \<and>
     reads_root v ''opensAt'' (any_text 24) (cp_opensAt p) \<and>
     reads_root v ''closesAt'' (any_text 24) (cp_closesAt p) \<and>
     as_integer (js_field v ''schemaVersion'') = Some (cp_schemaVersion p) \<and> cp_schemaVersion p = 1 \<and>
     as_integer (js_field v ''revisionNumber'') = Some (cp_revisionNumber p) \<and>
     1 \<le> cp_revisionNumber p \<and> cp_revisionNumber p \<le> 2147483647 \<and>
     reads_root v ''provenance'' (any_text 32) (cp_provenance p) \<and> cp_provenance p = ''ORIGINAL_AUTHORED'' \<and>
     reads_regions lib (js_field v ''regions'') (cp_regions p) \<and>
     reads_entities lib (js_field v ''entities'') (cp_entities p) \<and>
     reads_evidences lib (js_field v ''evidence'') (cp_evidence p) \<and>
     reads_sources lib (js_field v ''sources'') (cp_sources p) \<and>
     reads_texts 8 (formatted entityIdSchema 64) (js_field v ''regionIds'') (cp_regionIds p) \<and>
     reads_texts 16 source_text (js_field v ''sourceIds'') (cp_sourceIds p) \<and>
     distinct (map (tl_canonical lib) (cp_regionIds p)) \<and> distinct (map (tl_canonical lib) (cp_sourceIds p)) \<and>
     reads_window lib (cp_slotId p) (cp_opensAt p) (cp_closesAt p) \<and>
     cp_answerEntityId p \<in> pe_id ` set (cp_entities p) \<and>
     set (cp_regionIds p) \<subseteq> pr_id ` set (cp_regions p) \<and> set (cp_sourceIds p) \<subseteq> ps_id ` set (cp_sources p)"

lemma read_root_nil: "fst (read_root v (name, opts)) = [] \<longleftrightarrow> reads_root v name opts (text_at v name)"
  by (cases "js_field v name")
    (simp_all add: read_root_def readString_text reads_root_def reads_text_def as_text_def text_at_def)

lemma reads_root_unique: "reads_root v name opts s \<longleftrightarrow> string_at v name = Some s \<and> reads_root v name opts (text_at v name)"
  by (cases "js_field v name") (auto simp: reads_root_def reads_text_def as_text_def text_at_def string_at_def)

lemma string_at_read: "reads_root v name opts (text_at v name) \<Longrightarrow> string_at v name = Some (text_at v name)"
  using reads_root_unique by blast

lemma text_at_read: "reads_root v name opts s \<Longrightarrow> text_at v name = s"
  by (simp add: reads_root_def reads_text_iff text_at_def)

lemma reads_text_at: "reads_text opts (js_field v name) s \<longleftrightarrow> reads_root v name opts (text_at v name) \<and> text_at v name = s"
  using text_at_read [of v name opts s] by (auto simp: reads_root_def)

lemma number_read: "as_integer (js_field v name) = Some i \<Longrightarrow> number_at v name = i"
  by (simp add: number_at_def)

lemma schema_version_nil: "schema_version_diagnostics v = [] \<longleftrightarrow> as_integer v = Some 1"
  by (cases "as_integer v") (simp_all add: schema_version_diagnostics_def)

lemma revision_number_nil: "revision_number_diagnostics v = [] \<longleftrightarrow> (\<exists>i. as_integer v = Some i \<and> 1 \<le> i \<and> i \<le> 2147483647)"
  by (cases "as_integer v") (auto simp: revision_number_diagnostics_def)

lemma provenance_nil: "provenance_diagnostics v = [] \<longleftrightarrow> reads_text (any_text 32) v ''ORIGINAL_AUTHORED''"
  by (cases "as_text v") (auto simp: provenance_diagnostics_def readString_text reads_text_def)

lemma root_texts_nil:
  "concat (map (\<lambda>f. fst (read_root v f)) ROOT_TEXTS) = [] \<longleftrightarrow>
     (\<forall>f \<in> set ROOT_TEXTS. reads_root v (fst f) (snd f) (text_at v (fst f)))"
  by (simp add: ROOT_TEXTS_def read_root_nil)

lemma validator_accepts_parts:
  "(validateContentPack lib v = Inr (Content_Valid p) \<longleftrightarrow> reads_pack lib v p) \<and>
   validateContentPack lib v \<noteq> Inr (Content_Invalid [])"
proof (cases "isRecord v")
  case False
  then show ?thesis by (simp add: validateContentPack_def reads_pack_def keys_within_def)
next
  case True
  obtain d1 rs where 1: "readRegions lib (js_field v ''regions'') = (d1, rs)" by fastforce
  obtain d2 es where 2: "readEntities lib (js_field v ''entities'') = (d2, es)" by fastforce
  obtain d3 vs where 3: "readEvidence lib (js_field v ''evidence'') = (d3, vs)" by fastforce
  obtain d4 ss where 4: "readSources lib (js_field v ''sources'') = (d4, ss)" by fastforce
  obtain d5 ris where 5: "readStringArray 8 (formatted entityIdSchema 64) ''$.regionIds'' (js_field v ''regionIds'') = (d5, ris)" by fastforce
  obtain d6 sis where 6: "readStringArray 16 source_text ''$.sourceIds'' (js_field v ''sourceIds'') = (d6, sis)" by fastforce
  have r1: "reads_regions lib (js_field v ''regions'') x \<longleftrightarrow> d1 = [] \<and> x = rs" for x
    using readRegions_iff [of lib "js_field v ''regions''" x] 1 by auto
  have r2: "reads_entities lib (js_field v ''entities'') x \<longleftrightarrow> d2 = [] \<and> x = es" for x
    using readEntities_iff [of lib "js_field v ''entities''" x] 2 by auto
  have r3: "reads_evidences lib (js_field v ''evidence'') x \<longleftrightarrow> d3 = [] \<and> x = vs" for x
    using readEvidence_iff [of lib "js_field v ''evidence''" x] 3 by auto
  have r4: "reads_sources lib (js_field v ''sources'') x \<longleftrightarrow> d4 = [] \<and> x = ss" for x
    using readSources_iff [of lib "js_field v ''sources''" x] 4 by auto
  have r5: "reads_texts 8 (formatted entityIdSchema 64) (js_field v ''regionIds'') x \<longleftrightarrow> d5 = [] \<and> x = ris" for x
    using readStringArray_iff [of 8 "formatted entityIdSchema 64" "''$.regionIds''" "js_field v ''regionIds''" x] 5 by auto
  have r6: "reads_texts 16 source_text (js_field v ''sourceIds'') x \<longleftrightarrow> d6 = [] \<and> x = sis" for x
    using readStringArray_iff [of 16 source_text "''$.sourceIds''" "js_field v ''sourceIds''" x] 6 by auto
  define q where "q = \<lparr>
    cp_answerEntityId = text_at v ''answerEntityId'', cp_author = text_at v ''author'',
    cp_briefing = text_at v ''briefing'', cp_caseId = text_at v ''caseId'',
    cp_closesAt = text_at v ''closesAt'', cp_contentVersion = text_at v ''contentVersion'',
    cp_entities = es, cp_evidence = vs, cp_opensAt = text_at v ''opensAt'',
    cp_provenance = text_at v ''provenance'', cp_regionIds = ris, cp_regions = rs,
    cp_revisionNumber = number_at v ''revisionNumber'', cp_schemaVersion = number_at v ''schemaVersion'',
    cp_slotId = text_at v ''slotId'', cp_sourceIds = sis, cp_sources = ss,
    cp_stableKey = text_at v ''stableKey'', cp_title = text_at v ''title''\<rparr>"
  let ?texts = "\<forall>f \<in> set ROOT_TEXTS. reads_root v (fst f) (snd f) (text_at v (fst f))"
  let ?window = "validateWindow lib (string_at v ''slotId'') (string_at v ''opensAt'') (string_at v ''closesAt'')"
  let ?clean = "keys_within v ROOT_FIELDS \<and> ?texts \<and> as_integer (js_field v ''schemaVersion'') = Some 1 \<and>
    (\<exists>i. as_integer (js_field v ''revisionNumber'') = Some i \<and> 1 \<le> i \<and> i \<le> 2147483647) \<and>
    reads_text (any_text 32) (js_field v ''provenance'') ''ORIGINAL_AUTHORED'' \<and>
    d1 = [] \<and> d2 = [] \<and> d3 = [] \<and> d4 = [] \<and> d5 = [] \<and> d6 = [] \<and>
    distinct (map (tl_canonical lib) ris) \<and> distinct (map (tl_canonical lib) sis) \<and> ?window = Inr [] \<and>
    validateReferences (string_at v ''answerEntityId'') ris sis es rs ss = []"
  have valid: "validateContentPack lib v = Inr (Content_Valid p) \<longleftrightarrow> ?clean \<and> p = q"
    unfolding validateContentPack_def using True
    by (cases ?window)
      (auto simp: 1 2 3 4 5 6 q_def rejectUnknownFields_nil schema_version_nil revision_number_nil provenance_nil
        root_texts_nil [simplified] Let_def)
  have "validateContentPack lib v \<noteq> Inr (Content_Invalid [])"
    unfolding validateContentPack_def using True by (cases ?window) (simp_all add: 1 2 3 4 5 6 Let_def)
  have texts: "string_at v ''slotId'' = Some (text_at v ''slotId'')" "string_at v ''opensAt'' = Some (text_at v ''opensAt'')"
    "string_at v ''closesAt'' = Some (text_at v ''closesAt'')" "string_at v ''answerEntityId'' = Some (text_at v ''answerEntityId'')"
    if ?texts using that by (auto simp: ROOT_TEXTS_def intro: string_at_read)
  have clean: "?clean \<longleftrightarrow> ?texts \<and> reads_pack lib v q"
  proof (cases ?texts)
    case True
    then show ?thesis unfolding texts [OF True] validateWindow_nil
      by (auto simp: reads_pack_def q_def r1 r2 r3 r4 r5 r6 number_at_def reads_text_at ROOT_TEXTS_def validateReferences_def)
  next
    case False
    then show ?thesis by blast
  qed
  have "reads_pack lib v q \<Longrightarrow> ?texts" by (simp add: reads_pack_def q_def ROOT_TEXTS_def)
  moreover have "p = q" if "reads_pack lib v p"
    using that unfolding reads_pack_def q_def
    by (intro content_pack.equality) (auto simp: r1 r2 r3 r4 r5 r6 number_at_def dest!: text_at_read)
  ultimately show ?thesis using valid clean \<open>validateContentPack lib v \<noteq> Inr (Content_Invalid [])\<close> by blast
qed

text \<open>Property C14. The validator returns a pack exactly when the value represents a valid pack, and it is that pack: every
  text within its bounds and format and free of markup and links, no unknown field, four pieces of evidence of the four
  levels, no two entities with a common name, references to what the pack itself defines, and a window of exactly the day
  of the slot. Every other value, unless a date is so far away that the validator throws, is answered with at least one diagnostic.\<close>

theorem validator_accepts_exactly_valid_packs:
  "(validateContentPack lib v = Inr (Content_Valid p) \<longleftrightarrow> reads_pack lib v p) \<and>
   validateContentPack lib v \<noteq> Inr (Content_Invalid [])"
  by (rule validator_accepts_parts)

end
