(* ===== verification/Content_Import.thy ===== *)
theory Content_Import
  imports Content_Correct "HOL-Library.Word"
begin

unbundle bit_operations_syntax

text \<open>
  The importer of content packs (\<^verbatim>\<open>packages/database/src/content/import.ts\<close>): a validated pack becomes the rows of a revision, in one
  transaction, as a draft or published; a dry run only looks.

  The tables are those of \<open>Game_Store\<close> with the packs and, of a revision, the pack and the number it belongs to. The
  constraints and triggers of the migrations are the checks of the insertions, with their SQLSTATE. Columns nothing in
  the model reads (titles, display names, citations) are checked and not stored; no answer (NULL) is the empty text.
  Arguments (\<open>import_env\<close>): the digest of SHA-256, PostgreSQL's cast of a text to an instant, and what happens when the
  transaction is begun.
\<close>

section \<open>Errors\<close>

text \<open>What is thrown: an error of PostgreSQL with its code and constraint, an error of the connection with another code,
  or an error of the program.\<close>

datatype import_fault = Sql string string | No_Code

datatype import_code =
    Content content_code | DATABASE_UNAVAILABLE | DUPLICATE_REVISION | IMPORT_CONSTRAINT_VIOLATION
  | PUBLISHED_CONTENT_IMMUTABLE | SLOT_OVERLAP

type_synonym import_diagnostic = "import_code \<times> string"

definition mapDatabaseError :: "import_fault \<Rightarrow> import_diagnostic" where
  "mapDatabaseError e =
    (case e of
       No_Code \<Rightarrow> (DATABASE_UNAVAILABLE, ''$'')
     | Sql code constraint \<Rightarrow>
         if code = ''23P01'' then (SLOT_OVERLAP, ''$.opensAt'')
         else if code = ''23505'' \<and> (constraint = ''case_revisions_pack_id_revision_number_key'' \<or> constraint = ''case_revisions_pkey'')
         then (DUPLICATE_REVISION, ''$.revisionNumber'')
         else if code = ''55000'' then (PUBLISHED_CONTENT_IMMUTABLE, ''$'')
         else if take 2 code = ''23'' then (IMPORT_CONSTRAINT_VIOLATION, ''$'')
         else (DATABASE_UNAVAILABLE, ''$''))"

section \<open>Identifiers\<close>

type_synonym byte = "8 word"

record import_env =
  ie_lib :: text_lib
  ie_digest :: "string \<Rightarrow> byte list"
  ie_timestamptz :: "string \<Rightarrow> int option"
  ie_begin :: "import_fault option"

definition hex_byte :: "byte \<Rightarrow> string" where
  "hex_byte b = [''0123456789abcdef'' ! unat (drop_bit 4 b), ''0123456789abcdef'' ! unat (b AND 0x0F)]"

definition version_bytes :: "byte list \<Rightarrow> byte list" where
  "version_bytes bs = bs[6 := (bs ! 6 AND 0x0F) OR 0x80, 8 := (bs ! 8 AND 0x3F) OR 0x80]"

definition deterministicUuid :: "import_env \<Rightarrow> string \<Rightarrow> string" where
  "deterministicUuid env scope =
    (let h = concat (map hex_byte (version_bytes (take 16 (ie_digest env scope))))
     in take 8 h @ ''-'' @ take 4 (drop 8 h) @ ''-'' @ take 4 (drop 12 h) @ ''-'' @ take 4 (drop 16 h) @ ''-'' @ drop 20 h)"

definition revisionUuid :: "import_env \<Rightarrow> content_pack \<Rightarrow> string" where
  "revisionUuid env p = deterministicUuid env (''revision:'' @ cp_stableKey p @ '':'' @ json_int (cp_revisionNumber p))"

definition entityUuid :: "import_env \<Rightarrow> string \<Rightarrow> string \<Rightarrow> string" where
  "entityUuid env revisionId entityId = deterministicUuid env (''entity:'' @ revisionId @ '':'' @ entityId)"

section \<open>Tables\<close>

record content_store =
  cs_game :: game_db
  cs_packs :: "(string \<times> string) list"
  cs_numbers :: "(string \<times> string \<times> int) list"

type_synonym statement = "content_store \<Rightarrow> import_fault + content_store"

definition check :: "bool \<Rightarrow> string \<Rightarrow> string \<Rightarrow> import_fault + unit" where
  "check ok code constraint = throwIf (\<not> ok) (Sql code constraint)"

definition on_game :: "(game_db \<Rightarrow> game_db) \<Rightarrow> content_store \<Rightarrow> content_store" where
  "on_game f cs = cs\<lparr>cs_game := f (cs_game cs)\<rparr>"

fun each :: "('a \<Rightarrow> statement) \<Rightarrow> 'a list \<Rightarrow> statement" where
  "each f [] cs = Inr cs"
| "each f (x # xs) cs = bindE (f x cs) (each f xs)"

definition findExistingRevision :: "content_pack \<Rightarrow> content_store \<Rightarrow> bool" where
  "findExistingRevision p cs \<longleftrightarrow> list_ex (\<lambda>(r, packId, number). number = cp_revisionNumber p \<and>
     list_ex (\<lambda>(i, key). i = packId \<and> key = cp_stableKey p) (cs_packs cs)) (cs_numbers cs)"

definition overlaps :: "int \<Rightarrow> int \<Rightarrow> revision_row \<Rightarrow> bool" where
  "overlaps opens closes r \<longleftrightarrow> rv_published r \<and> rv_opens r < closes \<and> opens < rv_closes r"

definition cast_instant :: "import_env \<Rightarrow> string \<Rightarrow> import_fault + int" where
  "cast_instant env text = (case ie_timestamptz env text of None \<Rightarrow> Inl (Sql ''22008'' []) | Some t \<Rightarrow> Inr t)"

definition hasPublishedOverlap :: "import_env \<Rightarrow> content_pack \<Rightarrow> content_store \<Rightarrow> import_fault + bool" where
  "hasPublishedOverlap env p cs =
    bindE (cast_instant env (cp_opensAt p)) (\<lambda>opens. bindE (cast_instant env (cp_closesAt p)) (\<lambda>closes.
      Inr (list_ex (overlaps opens closes) (revisions (cs_game cs)))))"

section \<open>Insertions\<close>

text \<open>\<^verbatim>\<open>ON CONFLICT (stable_key) DO NOTHING\<close>\<close>

definition insert_pack :: "import_env \<Rightarrow> content_pack \<Rightarrow> statement" where
  "insert_pack env p cs =
    (let i = deterministicUuid env (''pack:'' @ cp_stableKey p)
     in bindE (check (entityIdSchema (cp_stableKey p)) ''23514'' ''content_packs_stable_key_check'') (\<lambda>_.
        if cp_stableKey p \<in> snd ` set (cs_packs cs) then Inr cs
        else bindE (check (i \<notin> fst ` set (cs_packs cs)) ''23505'' ''content_packs_pkey'') (\<lambda>_.
          Inr (cs\<lparr>cs_packs := cs_packs cs @ [(i, cp_stableKey p)]\<rparr>))))"

definition pack_id :: "content_pack \<Rightarrow> content_store \<Rightarrow> import_fault + string" where
  "pack_id p cs = (case find (\<lambda>(i, key). key = cp_stableKey p) (cs_packs cs) of None \<Rightarrow> Inl No_Code | Some (i, key) \<Rightarrow> Inr i)"

definition metadata_checks :: "content_pack \<Rightarrow> import_fault + unit" where
  "metadata_checks p =
    bindE (check (entityIdSchema (cp_caseId p)) ''23514'' ''case_revision_case_key_format'') (\<lambda>_.
    bindE (check (sized 1 120 (cp_title p)) ''23514'' ''case_revision_title_bounds'') (\<lambda>_.
    bindE (check (sized 1 120 (cp_author p)) ''23514'' ''case_revision_author_bounds'') (\<lambda>_.
    bindE (check (cp_provenance p = ''ORIGINAL_AUTHORED'') ''23514'' ''case_revision_known_provenance'') (\<lambda>_.
    check (sized 1 32 (cp_contentVersion p) \<and> version_pattern (cp_contentVersion p)) ''23514'' ''case_revision_content_version_format''))))"

text \<open>The cast of the slot to a date, and its midnight.\<close>

definition cast_slot :: "string \<Rightarrow> import_fault + int" where
  "cast_slot slot = (if validSlotId slot then
     (case match_day slot of Some c \<Rightarrow> Inr (day_number c * MILLISECONDS_PER_DAY) | None \<Rightarrow> Inl (Sql ''22007'' []))
     else Inl (Sql ''22008'' []))"

definition insert_revision :: "import_env \<Rightarrow> content_pack \<Rightarrow> string \<Rightarrow> string \<Rightarrow> statement" where
  "insert_revision env p revisionId packId cs =
    bindE (cast_slot (cp_slotId p)) (\<lambda>midnight.
    bindE (cast_instant env (cp_opensAt p)) (\<lambda>opens.
    bindE (cast_instant env (cp_closesAt p)) (\<lambda>closes.
    bindE (metadata_checks p) (\<lambda>_.
    bindE (check (0 < cp_revisionNumber p) ''23514'' ''case_revisions_revision_number_check'') (\<lambda>_.
    bindE (check (closes = opens + MILLISECONDS_PER_DAY) ''23514'' ''case_revisions_check1'') (\<lambda>_.
    bindE (check (opens = midnight) ''23514'' ''case_revisions_check2'') (\<lambda>_.
    bindE (check (revisionId \<notin> rv_id ` set (revisions (cs_game cs))) ''23505'' ''case_revisions_pkey'') (\<lambda>_.
    bindE (check ((packId, cp_revisionNumber p) \<notin> snd ` set (cs_numbers cs)) ''23505'' ''case_revisions_pack_id_revision_number_key'') (\<lambda>_.
      Inr (on_game (\<lambda>db. db\<lparr>revisions := revisions db @ [\<lparr>rv_id = revisionId, rv_published = False, rv_slot = cp_slotId p,
              rv_opens = opens, rv_closes = closes, rv_briefing = cp_briefing p, rv_answer = []\<rparr>]\<rparr>)
            (cs\<lparr>cs_numbers := cs_numbers cs @ [(revisionId, packId, cp_revisionNumber p)]\<rparr>)))))))))))"

text \<open>The trigger of every child table: a published revision is frozen; a missing one is an error of the trigger.\<close>

definition not_frozen :: "string \<Rightarrow> content_store \<Rightarrow> import_fault + unit" where
  "not_frozen revisionId cs =
    (case find (\<lambda>r. rv_id r = revisionId) (revisions (cs_game cs)) of
       None \<Rightarrow> Inl (Sql ''P0002'' []) | Some r \<Rightarrow> check (\<not> rv_published r) ''55000'' [])"

definition insert_alias :: "string \<Rightarrow> string \<Rightarrow> string \<Rightarrow> statement" where
  "insert_alias revisionId entityId name cs =
    bindE (not_frozen revisionId cs) (\<lambda>_.
    bindE (check (\<not> list_ex (\<lambda>a. al_revision a = revisionId \<and> al_alias a = name) (aliases (cs_game cs))) ''23505'' ''entity_aliases_pkey'') (\<lambda>_.
      Inr (on_game (\<lambda>db. db\<lparr>aliases := aliases db @ [\<lparr>al_revision = revisionId, al_entity = entityId, al_alias = name\<rparr>]\<rparr>) cs)))"

definition insert_entity :: "import_env \<Rightarrow> string \<Rightarrow> pack_entity \<Rightarrow> statement" where
  "insert_entity env revisionId e cs =
    (let i = entityUuid env revisionId (pe_id e); mine = filter (\<lambda>r. en_revision r = revisionId) (entities (cs_game cs))
     in bindE (not_frozen revisionId cs) (\<lambda>_.
        bindE (check (entityIdSchema (pe_id e)) ''23514'' ''case_entity_public_id_format'') (\<lambda>_.
        bindE (check (i \<notin> en_id ` set mine) ''23505'' ''case_entities_pkey'') (\<lambda>_.
        bindE (check (pe_canonicalName e \<notin> en_name ` set mine) ''23505'' ''case_entities_revision_id_canonical_name_key'') (\<lambda>_.
        bindE (check (pe_id e \<notin> en_publicId ` set mine) ''23505'' ''case_entity_public_id_per_revision'') (\<lambda>_.
          each (insert_alias revisionId i) (pe_aliases e)
            (on_game (\<lambda>db. db\<lparr>entities := entities db @ [\<lparr>en_revision = revisionId, en_id = i, en_publicId = pe_id e,
               en_name = pe_canonicalName e, en_role = pe_role e, en_eligible = True\<rparr>]\<rparr>) cs)))))))"

definition insert_catalog :: "pack_region \<Rightarrow> statement" where
  "insert_catalog r cs =
    bindE (check (entityIdSchema (pr_id r)) ''23514'' ''region_catalog_id_check'') (\<lambda>_.
      Inr (if pr_id r \<in> set (region_catalog (cs_game cs)) then cs
           else on_game (\<lambda>db. db\<lparr>region_catalog := region_catalog db @ [pr_id r]\<rparr>) cs))"

text \<open>\<^verbatim>\<open>regionById.get(regionId)!.displayName\<close> throws for a region the pack does not have.\<close>

definition insert_region :: "content_pack \<Rightarrow> string \<Rightarrow> string \<Rightarrow> statement" where
  "insert_region p revisionId region cs =
    (if region \<notin> pr_id ` set (cp_regions p) then Inl No_Code
     else bindE (not_frozen revisionId cs) (\<lambda>_.
       bindE (check ((revisionId, region) \<notin> (\<lambda>r. (rr_revision r, rr_region r)) ` set (revision_regions (cs_game cs)))
         ''23505'' ''revision_regions_pkey'') (\<lambda>_.
       Inr (on_game (\<lambda>db. db\<lparr>revision_regions := revision_regions db @ [\<lparr>rr_revision = revisionId, rr_region = region\<rparr>]\<rparr>) cs))))"

definition insert_evidence :: "string \<Rightarrow> pack_evidence \<Rightarrow> statement" where
  "insert_evidence revisionId e cs =
    bindE (not_frozen revisionId cs) (\<lambda>_.
    bindE (check (1 \<le> pv_order e \<and> pv_order e \<le> 4) ''23514'' ''case_evidence_evidence_order_check'') (\<lambda>_.
    bindE (check ((revisionId, pv_order e) \<notin> (\<lambda>r. (ev_revision r, ev_order r)) ` set (evidences (cs_game cs)))
      ''23505'' ''case_evidence_pkey'') (\<lambda>_.
      Inr (on_game (\<lambda>db. db\<lparr>evidences := evidences db @ [\<lparr>ev_revision = revisionId, ev_order = pv_order e, ev_text = pv_text e,
        ev_explanation = pv_explanation e\<rparr>]\<rparr>) cs))))"

definition insert_source :: "content_pack \<Rightarrow> string \<Rightarrow> nat \<times> string \<Rightarrow> statement" where
  "insert_source p revisionId entry cs =
    (let mine = filter (\<lambda>r. so_revision r = revisionId) (case_sources (cs_game cs)); order = int (fst entry) + 1
     in if snd entry \<notin> ps_id ` set (cp_sources p) then Inl No_Code
        else bindE (not_frozen revisionId cs) (\<lambda>_.
          bindE (check (order \<notin> so_order ` set mine) ''23505'' ''case_sources_pkey'') (\<lambda>_.
          bindE (check (snd entry \<notin> so_id ` set mine) ''23505'' ''case_sources_revision_id_source_id_key'') (\<lambda>_.
          Inr (on_game (\<lambda>db. db\<lparr>case_sources := case_sources db @ [\<lparr>so_revision = revisionId, so_order = order, so_id = snd entry\<rparr>]\<rparr>) cs)))))"

text \<open>An update of the revision, guarded by its trigger and, when it is published, by the exclusion of overlapping windows.\<close>

definition map_revision :: "string \<Rightarrow> (revision_row \<Rightarrow> revision_row) \<Rightarrow> content_store \<Rightarrow> content_store" where
  "map_revision revisionId f =
    on_game (\<lambda>db. db\<lparr>revisions := map (\<lambda>r. if rv_id r = revisionId then f r else r) (revisions db)\<rparr>)"

definition set_answer :: "import_env \<Rightarrow> content_pack \<Rightarrow> string \<Rightarrow> statement" where
  "set_answer env p revisionId cs =
    (if cp_answerEntityId p \<notin> pe_id ` set (cp_entities p) then Inl No_Code
     else bindE (not_frozen revisionId cs) (\<lambda>_.
       Inr (map_revision revisionId (\<lambda>r. r\<lparr>rv_answer := entityUuid env revisionId (cp_answerEntityId p)\<rparr>) cs)))"

definition insertPackGraph :: "import_env \<Rightarrow> content_pack \<Rightarrow> string \<Rightarrow> statement" where
  "insertPackGraph env p revisionId cs =
    bindE (insert_pack env p cs) (\<lambda>cs. bindE (pack_id p cs) (\<lambda>packId.
    bindE (insert_revision env p revisionId packId cs) (\<lambda>cs.
    bindE (each (insert_entity env revisionId) (cp_entities p) cs) (\<lambda>cs.
    bindE (each insert_catalog (cp_regions p) cs) (\<lambda>cs.
    bindE (each (insert_region p revisionId) (cp_regionIds p) cs) (\<lambda>cs.
    bindE (each (insert_evidence revisionId) (cp_evidence p) cs) (\<lambda>cs.
    bindE (each (insert_source p revisionId) (enumerate 0 (cp_sourceIds p)) cs)
      (set_answer env p revisionId))))))))"

definition publish :: "string \<Rightarrow> statement" where
  "publish revisionId cs =
    (case find (\<lambda>r. rv_id r = revisionId) (revisions (cs_game cs)) of
       None \<Rightarrow> Inr cs
     | Some r \<Rightarrow>
         (let orders = map ev_order (filter (\<lambda>e. ev_revision e = revisionId) (evidences (cs_game cs)))
          in bindE (not_frozen revisionId cs) (\<lambda>_.
             bindE (check (rv_answer r \<noteq> [] \<and> length orders = 4 \<and> {1, 2, 3, 4} \<subseteq> set orders) ''23514'' []) (\<lambda>_.
             bindE (check (\<not> list_ex (overlaps (rv_opens r) (rv_closes r)) (filter (\<lambda>x. rv_id x \<noteq> revisionId) (revisions (cs_game cs))))
               ''23P01'' ''published_case_windows_do_not_overlap'') (\<lambda>_.
             Inr (map_revision revisionId (\<lambda>r. r\<lparr>rv_published := True\<rparr>) cs))))))"

text \<open>The deferred reference of the answer to an eligible entity, checked at \<^verbatim>\<open>COMMIT\<close>.\<close>

definition commit_checks :: "string \<Rightarrow> content_store \<Rightarrow> import_fault + unit" where
  "commit_checks revisionId cs =
    check (list_all (\<lambda>r. rv_id r = revisionId \<and> rv_answer r \<noteq> [] \<longrightarrow>
        list_ex (\<lambda>e. en_revision e = revisionId \<and> en_id e = rv_answer r \<and> en_eligible e) (entities (cs_game cs)))
      (revisions (cs_game cs))) ''23503'' ''answer_must_be_an_eligible_revision_entity''"

section \<open>The importer\<close>

datatype import_mode = DRAFT | PUBLISH

datatype import_result = Imported string import_mode | Import_Refused "import_diagnostic list"

definition content_diagnostics :: "diagnostic list \<Rightarrow> import_diagnostic list" where
  "content_diagnostics ds = map (\<lambda>(c, path). (Content c, path)) ds"

definition import_graph :: "import_env \<Rightarrow> import_mode \<Rightarrow> content_pack \<Rightarrow> content_store \<Rightarrow> import_fault + content_store" where
  "import_graph env mode p cs =
    (let revisionId = revisionUuid env p
     in bindE (insertPackGraph env p revisionId cs) (\<lambda>cs.
        bindE (if mode = PUBLISH then publish revisionId cs else Inr cs) (\<lambda>cs.
        bindE (commit_checks revisionId cs) (\<lambda>_. Inr cs))))"

definition importContentPack :: "import_env \<Rightarrow> js_value \<Rightarrow> import_mode \<Rightarrow> content_store \<Rightarrow> import_result \<times> content_store" where
  "importContentPack env input mode cs =
    (case ie_begin env of
       Some e \<Rightarrow> (Import_Refused [mapDatabaseError e], cs)
     | None \<Rightarrow> (case validateContentPack (ie_lib env) input of
         Inl e \<Rightarrow> (Import_Refused [mapDatabaseError No_Code], cs)
       | Inr (Content_Invalid ds) \<Rightarrow> (Import_Refused (content_diagnostics ds), cs)
       | Inr (Content_Valid p) \<Rightarrow>
           if findExistingRevision p cs then (Import_Refused [(DUPLICATE_REVISION, ''$.revisionNumber'')], cs)
           else (case import_graph env mode p cs of
               Inl e \<Rightarrow> (Import_Refused [mapDatabaseError e], cs)
             | Inr cs' \<Rightarrow> (Imported (revisionUuid env p) mode, cs'))))"

datatype dry_run_result = Dry_Valid | Dry_Refused "import_diagnostic list"

definition dryRunContentPack :: "import_env \<Rightarrow> js_value \<Rightarrow> content_store \<Rightarrow> dry_run_result" where
  "dryRunContentPack env input cs =
    (case ie_begin env of
       Some e \<Rightarrow> Dry_Refused [mapDatabaseError e]
     | None \<Rightarrow> (case validateContentPack (ie_lib env) input of
         Inl e \<Rightarrow> Dry_Refused [mapDatabaseError No_Code]
       | Inr (Content_Invalid ds) \<Rightarrow> Dry_Refused (content_diagnostics ds)
       | Inr (Content_Valid p) \<Rightarrow>
           if findExistingRevision p cs then Dry_Refused [(DUPLICATE_REVISION, ''$.revisionNumber'')]
           else (case hasPublishedOverlap env p cs of
               Inl e \<Rightarrow> Dry_Refused [mapDatabaseError e]
             | Inr True \<Rightarrow> Dry_Refused [(SLOT_OVERLAP, ''$.opensAt'')]
             | Inr False \<Rightarrow> Dry_Valid)))"

end
