(* ===== verification/Content_Window.thy ===== *)
theory Content_Window
  imports Content_Pack
begin

text \<open>
  The window of a content pack: \<^verbatim>\<open>toISOString\<close> writes different instants differently, so the comparisons of
  \<^verbatim>\<open>validateWindow\<close> accept exactly one instant for the opening, the midnight of the slot, and one for the closing, a
  day later, whatever \<^verbatim>\<open>Date.parse\<close> does with other texts.
\<close>

section \<open>Digits\<close>

lemma digit_char_eq: "digit_char (a mod 10) = digit_char (b mod 10) \<longleftrightarrow> a mod 10 = b mod 10"
  using digit_char_digit digit_mod by metis

lemma div_step:
  fixes a b k :: int
  assumes "0 < k" "a div (k * 10) = b div (k * 10)" "a div k mod 10 = b div k mod 10"
  shows "a div k = b div k"
proof -
  have "a div k = 10 * (a div k div 10) + a div k mod 10" "b div k = 10 * (b div k div 10) + b div k mod 10" by simp_all
  then show ?thesis using assms by (simp add: zdiv_zmult2_eq)
qed

lemma two_digits_eq:
  assumes "0 \<le> a" "a < 100" "0 \<le> b" "b < 100"
  shows "two_digits a = two_digits b \<longleftrightarrow> a = b"
proof
  assume "two_digits a = two_digits b"
  then have d: "a div 10 mod 10 = b div 10 mod 10" "a mod 10 = b mod 10"
    by (simp_all add: two_digits_def digit_char_eq)
  have "a div 100 = b div 100" using assms by simp
  then have "a div 10 = b div 10" using div_step [of 10 a b] d(1) by simp
  then show "a = b" using div_step [of 1 a b] d(2) by simp
qed simp

lemma three_digits_eq:
  assumes "0 \<le> a" "a < 1000" "0 \<le> b" "b < 1000"
  shows "three_digits a = three_digits b \<longleftrightarrow> a = b"
proof
  assume "three_digits a = three_digits b"
  then have d: "a div 100 mod 10 = b div 100 mod 10" "a div 10 mod 10 = b div 10 mod 10" "a mod 10 = b mod 10"
    by (simp_all add: three_digits_def digit_char_eq)
  have "a div 1000 = b div 1000" using assms by simp
  then have "a div 100 = b div 100" using div_step [of 100 a b] d(1) by simp
  then have "a div 10 = b div 10" using div_step [of 10 a b] d(2) by simp
  then show "a = b" using div_step [of 1 a b] d(3) by simp
qed simp

lemma four_digits_eq:
  assumes "0 \<le> a" "a < 10000" "0 \<le> b" "b < 10000"
  shows "four_digits a = four_digits b \<longleftrightarrow> a = b"
proof
  assume "four_digits a = four_digits b"
  then have d: "a div 1000 mod 10 = b div 1000 mod 10" "a div 100 mod 10 = b div 100 mod 10" "a div 10 mod 10 = b div 10 mod 10" "a mod 10 = b mod 10"
    by (simp_all add: four_digits_def digit_char_eq)
  have "a div 10000 = b div 10000" using assms by simp
  then have "a div 1000 = b div 1000" using div_step [of 1000 a b] d(1) by simp
  then have "a div 100 = b div 100" using div_step [of 100 a b] d(2) by simp
  then have "a div 10 = b div 10" using div_step [of 10 a b] d(3) by simp
  then show "a = b" using div_step [of 1 a b] d(4) by simp
qed simp

lemma six_digits_eq:
  assumes "0 \<le> a" "a < 1000000" "0 \<le> b" "b < 1000000"
  shows "six_digits a = six_digits b \<longleftrightarrow> a = b"
proof
  assume "six_digits a = six_digits b"
  then have d: "a div 100000 mod 10 = b div 100000 mod 10" "a div 10000 mod 10 = b div 10000 mod 10" "a div 1000 mod 10 = b div 1000 mod 10" "a div 100 mod 10 = b div 100 mod 10" "a div 10 mod 10 = b div 10 mod 10" "a mod 10 = b mod 10"
    by (simp_all add: six_digits_def four_digits_def digit_char_eq)
  have "a div 1000000 = b div 1000000" using assms by simp
  then have "a div 100000 = b div 100000" using div_step [of 100000 a b] d(1) by simp
  then have "a div 10000 = b div 10000" using div_step [of 10000 a b] d(2) by simp
  then have "a div 1000 = b div 1000" using div_step [of 1000 a b] d(3) by simp
  then have "a div 100 = b div 100" using div_step [of 100 a b] d(4) by simp
  then have "a div 10 = b div 10" using div_step [of 10 a b] d(5) by simp
  then show "a = b" using div_step [of 1 a b] d(6) by simp
qed simp

section \<open>Instants\<close>

definition clock_text :: "int \<Rightarrow> string" where
  "clock_text ms = two_digits (ms div 3600000) @ '':'' @ two_digits (ms div 60000 mod 60) @ '':'' @
     two_digits (ms div 1000 mod 60) @ ''.'' @ three_digits (ms mod 1000) @ ''Z''"

definition day_text :: "civil \<Rightarrow> string" where
  "day_text c = ''-'' @ two_digits (month c) @ ''-'' @ two_digits (day c) @ ''T''"

lemma length_clock_text [simp]: "length (clock_text ms) = 13"
  by (simp add: clock_text_def)

lemma length_day_text [simp]: "length (day_text c) = 7"
  by (simp add: day_text_def)

lemma iso_timestamp_parts:
  "iso_timestamp t = four_digits (year (civil_of_day (t div MILLISECONDS_PER_DAY))) @
     day_text (civil_of_day (t div MILLISECONDS_PER_DAY)) @ clock_text (t mod MILLISECONDS_PER_DAY)"
  by (cases "civil_of_day (t div MILLISECONDS_PER_DAY)") (simp add: iso_timestamp_def Let_def clock_text_def day_text_def)

lemma clock_text_eq:
  assumes "0 \<le> a" "a < MILLISECONDS_PER_DAY" "0 \<le> b" "b < MILLISECONDS_PER_DAY" "clock_text a = clock_text b"
  shows "a = b"
proof -
  have "two_digits (a div 3600000) = two_digits (b div 3600000) \<and>
      two_digits (a div 60000 mod 60) = two_digits (b div 60000 mod 60) \<and>
      two_digits (a div 1000 mod 60) = two_digits (b div 1000 mod 60) \<and> three_digits (a mod 1000) = three_digits (b mod 1000)"
    using assms(5) by (simp add: clock_text_def)
  then have e: "a div 3600000 = b div 3600000" "a div 60000 mod 60 = b div 60000 mod 60" "a div 1000 mod 60 = b div 1000 mod 60"
    "a mod 1000 = b mod 1000"
    using assms(1-4) pos_mod_bound [of 60 "a div 60000"] pos_mod_bound [of 60 "b div 60000"] pos_mod_bound [of 60 "a div 1000"]
      pos_mod_bound [of 60 "b div 1000"]
    by (auto simp: MILLISECONDS_PER_DAY_def two_digits_eq three_digits_eq)
  have split: "n = 3600000 * (n div 3600000) + 60000 * (n div 60000 mod 60) + 1000 * (n div 1000 mod 60) + n mod 1000" for n :: int
  proof -
    have "n div 3600000 = n div 60000 div 60" "n div 60000 = n div 1000 div 60" by (simp_all add: zdiv_zmult2_eq [symmetric])
    then show ?thesis
      using mult_div_mod_eq [of 60 "n div 60000"] mult_div_mod_eq [of 60 "n div 1000"] mult_div_mod_eq [of 1000 n] by linarith
  qed
  show ?thesis using split [of a] split [of b] e by simp
qed

lemma civil_bounds: "1 \<le> month (civil_of_day n) \<and> month (civil_of_day n) \<le> 12 \<and> 1 \<le> day (civil_of_day n) \<and> day (civil_of_day n) \<le> 31"
  using day_number_civil_of_day [of n] days_in_month_bounds [of "month (civil_of_day n)" "year (civil_of_day n)"]
  by (cases "civil_of_day n") auto

lemma day_text_eq: "day_text (civil_of_day m) = day_text (civil_of_day n) \<Longrightarrow>
    month (civil_of_day m) = month (civil_of_day n) \<and> day (civil_of_day m) = day (civil_of_day n)"
  using civil_bounds [of m] civil_bounds [of n] by (simp add: day_text_def two_digits_eq)

lemma civil_of_day_eq: "civil_of_day m = civil_of_day n \<longleftrightarrow> m = n"
  by (metis day_number_civil_of_day)

lemma day_from_year_le: "y \<le> z \<Longrightarrow> day_from_year y \<le> day_from_year z"
  using day_from_year_mono [of y z] by (cases "y = z") auto

lemma year_bounds:
  assumes "\<bar>t\<bar> \<le> 8640000000000000"
  shows "\<bar>year (civil_of_day (t div MILLISECONDS_PER_DAY))\<bar> < 1000000"
proof -
  let ?n = "t div MILLISECONDS_PER_DAY"
  have n: "- 100000000 \<le> ?n" "?n \<le> 100000000" using assms by (auto simp: MILLISECONDS_PER_DAY_def)
  have y: "day_from_year (year_of_day ?n) \<le> ?n \<and> ?n < day_from_year (year_of_day ?n + 1)" using year_of_day_bounds by blast
  have "year_of_day ?n < 999999"
  proof (rule ccontr)
    assume "\<not> year_of_day ?n < 999999"
    then have "day_from_year 999999 \<le> day_from_year (year_of_day ?n)"
      by (intro day_from_year_le) simp
    then show False using y n by (simp add: day_from_year_def)
  qed
  moreover have "- 999999 < year_of_day ?n"
  proof (rule ccontr)
    assume "\<not> - 999999 < year_of_day ?n"
    then have "day_from_year (year_of_day ?n + 1) \<le> day_from_year (- 999998)"
      by (intro day_from_year_le) simp
    then show False using y n by (simp add: day_from_year_def)
  qed
  ultimately show ?thesis by (simp add: year_civil_of_day)
qed

text \<open>The year part of the text.\<close>

definition year_text :: "int \<Rightarrow> string" where
  "year_text y = (if 0 \<le> y \<and> y \<le> 9999 then four_digits y else (if y < 0 then ''-'' else ''+'') @ six_digits \<bar>y\<bar>)"

lemma length_year_text: "length (year_text y) = (if 0 \<le> y \<and> y \<le> 9999 then 4 else 7)"
  by (simp add: year_text_def six_digits_def)

lemma year_text_eq:
  assumes "\<bar>x\<bar> < 1000000" "\<bar>y\<bar> < 1000000" "year_text x = year_text y"
  shows "x = y"
proof (cases "0 \<le> x \<and> x \<le> 9999")
  case True
  then have y: "0 \<le> y \<and> y \<le> 9999" using assms(3) length_year_text [of x] length_year_text [of y] by (auto split: if_splits)
  then show ?thesis using True assms(3) by (simp add: year_text_def four_digits_eq)
next
  case False
  then have y: "\<not> (0 \<le> y \<and> y \<le> 9999)" using assms(3) length_year_text [of x] length_year_text [of y] by (auto split: if_splits)
  then have "six_digits \<bar>x\<bar> = six_digits \<bar>y\<bar>" "(x < 0) = (y < 0)"
    using False assms(3) by (auto simp: year_text_def split: if_splits)
  then show ?thesis using assms(1,2) six_digits_eq [of "\<bar>x\<bar>" "\<bar>y\<bar>"] by auto
qed

lemma toISOString_text: "toISOString t = Inr s \<longleftrightarrow> \<bar>t\<bar> \<le> 8640000000000000 \<and>
    s = year_text (year (civil_of_day (t div MILLISECONDS_PER_DAY))) @
      day_text (civil_of_day (t div MILLISECONDS_PER_DAY)) @ clock_text (t mod MILLISECONDS_PER_DAY)"
  by (auto simp: toISOString_def iso_timestamp_parts year_text_def Let_def)

lemma toISOString_inject:
  assumes "toISOString a = Inr s" "toISOString b = Inr s"
  shows "a = b"
proof -
  let ?c = "civil_of_day (a div MILLISECONDS_PER_DAY)" and ?d = "civil_of_day (b div MILLISECONDS_PER_DAY)"
  have r: "\<bar>a\<bar> \<le> 8640000000000000" "\<bar>b\<bar> \<le> 8640000000000000" using assms by (simp_all add: toISOString_text)
  have "year_text (year ?c) @ day_text ?c @ clock_text (a mod MILLISECONDS_PER_DAY) =
      year_text (year ?d) @ day_text ?d @ clock_text (b mod MILLISECONDS_PER_DAY)"
    using assms by (simp add: toISOString_text)
  then have e: "year_text (year ?c) = year_text (year ?d)" "day_text ?c = day_text ?d"
    "clock_text (a mod MILLISECONDS_PER_DAY) = clock_text (b mod MILLISECONDS_PER_DAY)"
    by (simp_all add: append_eq_append_conv)
  have "?c = ?d" using year_text_eq [OF year_bounds [OF r(1)] year_bounds [OF r(2)] e(1)] day_text_eq [OF e(2)]
    by (cases ?c; cases ?d) simp
  then have "a div MILLISECONDS_PER_DAY = b div MILLISECONDS_PER_DAY" by (simp add: civil_of_day_eq)
  moreover have "a mod MILLISECONDS_PER_DAY = b mod MILLISECONDS_PER_DAY"
    using clock_text_eq [OF _ _ _ _ e(3)] by (simp add: MILLISECONDS_PER_DAY_def)
  ultimately show ?thesis by (metis mult_div_mod_eq)
qed

section \<open>The accepted window\<close>

text \<open>The midnight of a slot, in milliseconds.\<close>

definition slot_midnight :: "string \<Rightarrow> int" where
  "slot_midnight slot = (case match_day slot of None \<Rightarrow> 0 | Some c \<Rightarrow> day_number c * MILLISECONDS_PER_DAY)"

lemma midnight_text:
  assumes "toISOString t = Inr (slot @ ''T00:00:00.000Z'')" "slot_pattern slot"
  shows "validSlotId slot \<and> t = slot_midnight slot"
proof -
  let ?c = "civil_of_day (t div MILLISECONDS_PER_DAY)"
  obtain c where c: "match_day slot = Some c" using assms(2) by (auto simp: slot_pattern_def)
  then have len: "length slot = 10" by (auto simp: match_day_def split: list.splits)
  moreover have "slot @ ''T00:00:00.000Z'' = year_text (year ?c) @ day_text ?c @ clock_text (t mod MILLISECONDS_PER_DAY)"
    using assms(1) by (simp only: toISOString_text)
  then have "length (slot @ ''T00:00:00.000Z'') = length (year_text (year ?c) @ day_text ?c @ clock_text (t mod MILLISECONDS_PER_DAY))"
    by (rule arg_cong)
  ultimately have "length (year_text (year ?c)) = 4" by simp
  then have y: "0 \<le> year ?c" "year ?c \<le> 9999" by (auto simp: length_year_text split: if_splits)
  have "year_text (year ?c) @ day_text ?c @ clock_text (t mod MILLISECONDS_PER_DAY) = iso_date ?c @ ''T'' @ clock_text (t mod MILLISECONDS_PER_DAY)"
    using y by (cases ?c) (simp add: year_text_def day_text_def)
  then have "slot @ ''T00:00:00.000Z'' = iso_date ?c @ ''T'' @ clock_text (t mod MILLISECONDS_PER_DAY)"
    using assms(1) by (simp add: toISOString_text)
  moreover have "length (iso_date ?c) = 10" by (cases ?c) simp
  ultimately have e: "slot = iso_date ?c" "clock_text (t mod MILLISECONDS_PER_DAY) = ''00:00:00.000Z''"
    using len by (simp_all add: append_eq_append_conv)
  have v: "valid_civil ?c" using day_number_civil_of_day by blast
  have "clock_text 0 = ''00:00:00.000Z''" by code_simp
  then have "t mod MILLISECONDS_PER_DAY = 0"
    using clock_text_eq [of "t mod MILLISECONDS_PER_DAY" 0] e(2) by (simp add: MILLISECONDS_PER_DAY_def)
  moreover have "match_day slot = Some ?c" using match_iso_date [OF v y] e(1) by simp
  ultimately have "t = slot_midnight slot"
    using day_number_civil_of_day [of "t div MILLISECONDS_PER_DAY"] mult_div_mod_eq [of MILLISECONDS_PER_DAY t]
    by (simp add: slot_midnight_def mult.commute)
  moreover have "calendar_day slot ?c" using v y e(1) by (simp add: calendar_day_def)
  ultimately show ?thesis using validSlotId_calendar by blast
qed

lemma exact_window_slot:
  assumes "exact_window lib slot opens closes = Inr True"
  shows "validSlotId slot \<and> utc_midnight opens \<and> utc_midnight closes \<and> tl_parse lib opens = Some (slot_midnight slot) \<and>
    tl_parse lib closes = Some (slot_midnight slot + MILLISECONDS_PER_DAY)"
proof -
  obtain t where t: "tl_parse lib opens = Some t" and o': "slot_pattern slot" "utc_midnight opens" "utc_midnight closes"
    using assms by (auto simp: exact_window_def Let_def resultE split: option.splits if_splits)
  obtain c s where c: "tl_parse lib closes = Some c" "toISOString (t + 86400000) = Inr s" "toISOString c = Inr s"
    "toISOString t = Inr (slot @ ''T00:00:00.000Z'')"
    using assms t by (auto simp: exact_window_def Let_def resultE split: option.splits if_splits)
  then have "c = t + 86400000" using toISOString_inject by blast
  then show ?thesis using t c o' midnight_text [OF c(4) o'(1)] by (simp add: MILLISECONDS_PER_DAY_def)
qed

text \<open>A date so far away that the next day has no text makes the validator throw, whatever else the value has.\<close>

lemma far_window_throws:
  assumes "string_at v ''slotId'' = Some slot" "string_at v ''opensAt'' = Some opens" "string_at v ''closesAt'' = Some closes"
    "isRecord v" "tl_parse lib opens = Some 8640000000000000"
  shows "validateContentPack lib v = Inl (RangeError ''Invalid time value'')"
  using assms by (simp add: validateContentPack_def validateWindow_def exact_window_def toISOString_def case_prod_beta)

end
