(* ===== verification/Content_Import_Correct.thy ===== *)
theory Content_Import_Correct
  imports Content_Import Content_Window
begin

text \<open>
  The importer on the tables: what a whole import adds and when it succeeds, that it keeps the invariants the gameplay store
  relies on (so imported content is playable), and that a dry run tells what a publication would do.
\<close>

section \<open>Rows of a revision\<close>

lemma checked [simp]: "check ok c n = Inr u \<longleftrightarrow> ok"
  by (simp add: check_def throwIf_def)

lemma on_game_game [simp]: "cs_game (on_game f cs) = f (cs_game cs)" "cs_packs (on_game f cs) = cs_packs cs"
  "cs_numbers (on_game f cs) = cs_numbers cs" "on_game f (on_game g cs) = on_game (f \<circ> g) cs"
  by (simp_all add: on_game_def)

lemma bind_known:
  assumes "\<And>c. m = Inr c \<longleftrightarrow> P \<and> c = x"
  shows "bindE m f = Inr y \<longleftrightarrow> P \<and> f x = Inr y"
  unfolding bindE_eq_Inr assms by blast

lemma on_game_id: "on_game (\<lambda>db. db) cs = cs"
  by (simp add: on_game_def)

definition draft :: "string \<Rightarrow> content_store \<Rightarrow> bool" where
  "draft rid cs \<longleftrightarrow> not_frozen rid cs = Inr ()"

lemma draft_revisions: "revisions (cs_game cs) = revisions (cs_game cs') \<Longrightarrow> draft rid cs = draft rid cs'"
  by (simp add: draft_def not_frozen_def)

definition entity_rows :: "import_env \<Rightarrow> string \<Rightarrow> pack_entity list \<Rightarrow> entity_row list" where
  "entity_rows env rid es = map (\<lambda>e. \<lparr>en_revision = rid, en_id = entityUuid env rid (pe_id e), en_publicId = pe_id e,
     en_name = pe_canonicalName e, en_role = pe_role e, en_eligible = True\<rparr>) es"

definition alias_rows :: "string \<Rightarrow> string \<Rightarrow> string list \<Rightarrow> alias_row list" where
  "alias_rows rid i names = map (\<lambda>n. \<lparr>al_revision = rid, al_entity = i, al_alias = n\<rparr>) names"

definition all_alias_rows :: "import_env \<Rightarrow> string \<Rightarrow> pack_entity list \<Rightarrow> alias_row list" where
  "all_alias_rows env rid es = concat (map (\<lambda>e. alias_rows rid (entityUuid env rid (pe_id e)) (pe_aliases e)) es)"

definition region_rows :: "string \<Rightarrow> string list \<Rightarrow> region_row list" where
  "region_rows rid is = map (\<lambda>i. \<lparr>rr_revision = rid, rr_region = i\<rparr>) is"

definition evidence_rows :: "string \<Rightarrow> pack_evidence list \<Rightarrow> evidence_row list" where
  "evidence_rows rid es = map (\<lambda>e. \<lparr>ev_revision = rid, ev_order = pv_order e, ev_text = pv_text e,
     ev_explanation = pv_explanation e\<rparr>) es"

definition source_rows :: "string \<Rightarrow> (nat \<times> string) list \<Rightarrow> source_row list" where
  "source_rows rid is = map (\<lambda>(k, i). \<lparr>so_revision = rid, so_order = int k + 1, so_id = i\<rparr>) is"

text \<open>What a table has of a revision.\<close>

definition ids_of :: "string \<Rightarrow> content_store \<Rightarrow> entity_row set" where
  "ids_of rid cs = set (filter (\<lambda>e. en_revision e = rid) (entities (cs_game cs)))"

definition names_of :: "string \<Rightarrow> content_store \<Rightarrow> string set" where
  "names_of rid cs = set (map al_alias (filter (\<lambda>a. al_revision a = rid) (aliases (cs_game cs))))"

lemma filter_alias_rows [simp]: "filter (\<lambda>a. al_revision a = rid) (alias_rows rid i names) = alias_rows rid i names"
  by (simp add: alias_rows_def comp_def)

lemma map_alias_rows [simp]: "map al_alias (alias_rows rid i names) = names"
  by (simp add: alias_rows_def comp_def)

lemma each_alias:
  assumes "draft rid cs"
  shows "each (insert_alias rid i) names cs = Inr cs' \<longleftrightarrow> distinct names \<and> set names \<inter> names_of rid cs = {} \<and>
    cs' = on_game (\<lambda>db. db\<lparr>aliases := aliases db @ alias_rows rid i names\<rparr>) cs"
  using assms
proof (induction names arbitrary: cs)
  case Nil
  show ?case by (auto simp: alias_rows_def on_game_def)
next
  case (Cons n names)
  define cs1 where "cs1 = on_game (\<lambda>db. db\<lparr>aliases := aliases db @ [\<lparr>al_revision = rid, al_entity = i, al_alias = n\<rparr>]\<rparr>) cs"
  have d: "draft rid cs1" using Cons.prems draft_revisions [of cs1 cs] by (simp add: cs1_def)
  have n: "names_of rid cs1 = insert n (names_of rid cs)" by (simp add: names_of_def cs1_def)
  have "insert_alias rid i n cs = Inr cs2 \<longleftrightarrow> n \<notin> names_of rid cs \<and> cs2 = cs1" for cs2
    using Cons.prems by (auto simp: insert_alias_def draft_def cs1_def names_of_def list_ex_iff resultE)
  then have "each (insert_alias rid i) (n # names) cs = Inr cs' \<longleftrightarrow>
      n \<notin> names_of rid cs \<and> each (insert_alias rid i) names cs1 = Inr cs'"
    by (auto simp: bindE_eq_Inr)
  then show ?case using Cons.IH [OF d] n by (auto simp: cs1_def alias_rows_def comp_def)
qed

definition add_entities :: "import_env \<Rightarrow> string \<Rightarrow> pack_entity list \<Rightarrow> content_store \<Rightarrow> content_store" where
  "add_entities env rid es = on_game (\<lambda>db. db\<lparr>entities := entities db @ entity_rows env rid es,
     aliases := aliases db @ all_alias_rows env rid es\<rparr>)"

definition entity_ok :: "import_env \<Rightarrow> string \<Rightarrow> content_store \<Rightarrow> pack_entity \<Rightarrow> bool" where
  "entity_ok env rid cs e \<longleftrightarrow> entityIdSchema (pe_id e) \<and> entityUuid env rid (pe_id e) \<notin> en_id ` ids_of rid cs \<and>
     pe_canonicalName e \<notin> en_name ` ids_of rid cs \<and> pe_id e \<notin> en_publicId ` ids_of rid cs \<and>
     distinct (pe_aliases e) \<and> set (pe_aliases e) \<inter> names_of rid cs = {}"

lemma insert_entity_iff:
  assumes "draft rid cs"
  shows "insert_entity env rid e cs = Inr cs' \<longleftrightarrow> entity_ok env rid cs e \<and> cs' = add_entities env rid [e] cs"
proof -
  let ?new = "\<lambda>db. db\<lparr>entities := entities db @ entity_rows env rid [e]\<rparr>"
  have d: "draft rid (on_game ?new cs)" using assms draft_revisions [of "on_game ?new cs" cs] by simp
  have n: "names_of rid (on_game ?new cs) = names_of rid cs" by (simp add: names_of_def)
  show ?thesis using assms each_alias [OF d, of "entityUuid env rid (pe_id e)" "pe_aliases e" cs'] n
    by (auto simp: insert_entity_def draft_def ids_of_def entity_ok_def add_entities_def all_alias_rows_def
        entity_rows_def Let_def resultE comp_def image_iff)
qed

text \<open>The entities of one pack do not collide.\<close>

definition entities_apart :: "import_env \<Rightarrow> string \<Rightarrow> pack_entity list \<Rightarrow> bool" where
  "entities_apart env rid es \<longleftrightarrow> distinct (map (\<lambda>e. entityUuid env rid (pe_id e)) es) \<and> distinct (map pe_canonicalName es) \<and>
     distinct (map pe_id es) \<and> sorted_wrt (\<lambda>e f. set (pe_aliases e) \<inter> set (pe_aliases f) = {}) es"

lemma each_entity:
  assumes "draft rid cs"
  shows "each (insert_entity env rid) es cs = Inr cs' \<longleftrightarrow> list_all (entity_ok env rid cs) es \<and> entities_apart env rid es \<and>
    cs' = add_entities env rid es cs"
  using assms
proof (induction es arbitrary: cs)
  case Nil
  show ?case by (auto simp: add_entities_def entity_rows_def all_alias_rows_def entities_apart_def on_game_def)
next
  case (Cons e es)
  define cs1 where "cs1 = add_entities env rid [e] cs"
  have d: "draft rid cs1" using Cons.prems draft_revisions [of cs1 cs] by (simp add: cs1_def add_entities_def)
  have i: "ids_of rid cs1 = ids_of rid cs \<union> set (entity_rows env rid [e])"
    by (auto simp: ids_of_def cs1_def add_entities_def entity_rows_def)
  have n: "names_of rid cs1 = names_of rid cs \<union> set (pe_aliases e)"
    by (auto simp: names_of_def cs1_def add_entities_def all_alias_rows_def simp flip: set_map)
  have ok: "entity_ok env rid cs1 f \<longleftrightarrow> entity_ok env rid cs f \<and> entityUuid env rid (pe_id e) \<noteq> entityUuid env rid (pe_id f) \<and>
      pe_canonicalName e \<noteq> pe_canonicalName f \<and> pe_id e \<noteq> pe_id f \<and> set (pe_aliases e) \<inter> set (pe_aliases f) = {}" for f
    unfolding entity_ok_def i n by (auto simp: entity_rows_def)
  have "each (insert_entity env rid) (e # es) cs = Inr cs' \<longleftrightarrow>
      entity_ok env rid cs e \<and> each (insert_entity env rid) es cs1 = Inr cs'"
    using insert_entity_iff [OF Cons.prems, of env e] by (auto simp: bindE_eq_Inr cs1_def)
  also have "\<dots> \<longleftrightarrow> entity_ok env rid cs e \<and> list_all (entity_ok env rid cs1) es \<and> entities_apart env rid es \<and>
      cs' = add_entities env rid es cs1"
    using Cons.IH [OF d] by simp
  also have "add_entities env rid es cs1 = add_entities env rid (e # es) cs"
    by (simp add: cs1_def add_entities_def entity_rows_def all_alias_rows_def comp_def)
  also have "list_all (entity_ok env rid cs1) es \<longleftrightarrow> list_all (entity_ok env rid cs) es \<and> (\<forall>f \<in> set es.
      entityUuid env rid (pe_id e) \<noteq> entityUuid env rid (pe_id f) \<and> pe_canonicalName e \<noteq> pe_canonicalName f \<and>
      pe_id e \<noteq> pe_id f \<and> set (pe_aliases e) \<inter> set (pe_aliases f) = {})"
    by (auto simp: list_all_iff ok)
  finally have all: "each (insert_entity env rid) (e # es) cs = Inr cs' \<longleftrightarrow> entity_ok env rid cs e \<and>
      (list_all (entity_ok env rid cs) es \<and> (\<forall>f \<in> set es.
        entityUuid env rid (pe_id e) \<noteq> entityUuid env rid (pe_id f) \<and> pe_canonicalName e \<noteq> pe_canonicalName f \<and>
        pe_id e \<noteq> pe_id f \<and> set (pe_aliases e) \<inter> set (pe_aliases f) = {})) \<and> entities_apart env rid es \<and>
      cs' = add_entities env rid (e # es) cs" .
  have apart: "entities_apart env rid (e # es) \<longleftrightarrow> entities_apart env rid es \<and> (\<forall>f \<in> set es.
      entityUuid env rid (pe_id e) \<noteq> entityUuid env rid (pe_id f) \<and> pe_canonicalName e \<noteq> pe_canonicalName f \<and>
      pe_id e \<noteq> pe_id f \<and> set (pe_aliases e) \<inter> set (pe_aliases f) = {})"
    unfolding entities_apart_def list.map distinct.simps sorted_wrt.simps set_map image_iff by blast
  show ?case unfolding all apart list.pred_inject by blast
qed

fun add_catalog :: "string list \<Rightarrow> string list \<Rightarrow> string list" where
  "add_catalog [] known = known"
| "add_catalog (i # is) known = add_catalog is (if i \<in> set known then known else known @ [i])"

lemma each_catalog:
  "each insert_catalog rs cs = Inr cs' \<longleftrightarrow> list_all (\<lambda>r. entityIdSchema (pr_id r)) rs \<and>
     cs' = on_game (\<lambda>db. db\<lparr>region_catalog := add_catalog (map pr_id rs) (region_catalog db)\<rparr>) cs"
proof (induction rs arbitrary: cs)
  case Nil
  show ?case by (auto simp: on_game_def)
next
  case (Cons r rs)
  have e: "insert_catalog r cs = Inr c \<longleftrightarrow> entityIdSchema (pr_id r) \<and>
      c = on_game (\<lambda>db. db\<lparr>region_catalog := add_catalog [pr_id r] (region_catalog db)\<rparr>) cs" for c
    by (auto simp: insert_catalog_def resultE on_game_def)
  show ?case unfolding each.simps bindE_eq_Inr e using Cons.IH by (auto simp: comp_def)
qed

definition regions_of_revision :: "string \<Rightarrow> content_store \<Rightarrow> string set" where
  "regions_of_revision rid cs = set (map rr_region (filter (\<lambda>r. rr_revision r = rid) (revision_regions (cs_game cs))))"

lemma each_region:
  assumes "draft rid cs"
  shows "each (insert_region p rid) is cs = Inr cs' \<longleftrightarrow> set is \<subseteq> pr_id ` set (cp_regions p) \<and> distinct is \<and>
    set is \<inter> regions_of_revision rid cs = {} \<and>
    cs' = on_game (\<lambda>db. db\<lparr>revision_regions := revision_regions db @ region_rows rid is\<rparr>) cs"
  using assms
proof (induction "is" arbitrary: cs)
  case Nil
  show ?case by (auto simp: region_rows_def on_game_def)
next
  case (Cons i "is")
  define cs1 where "cs1 = on_game (\<lambda>db. db\<lparr>revision_regions := revision_regions db @ region_rows rid [i]\<rparr>) cs"
  have d: "draft rid cs1" using Cons.prems draft_revisions [of cs1 cs] by (simp add: cs1_def)
  have n: "regions_of_revision rid cs1 = insert i (regions_of_revision rid cs)"
    by (simp add: regions_of_revision_def cs1_def region_rows_def)
  have e: "insert_region p rid i cs = Inr c \<longleftrightarrow> i \<in> pr_id ` set (cp_regions p) \<and> i \<notin> regions_of_revision rid cs \<and> c = cs1" for c
    using Cons.prems by (auto simp: insert_region_def draft_def regions_of_revision_def resultE cs1_def region_rows_def)
  have c: "on_game (\<lambda>db. db\<lparr>revision_regions := revision_regions db @ region_rows rid is\<rparr>) cs1 =
      on_game (\<lambda>db. db\<lparr>revision_regions := revision_regions db @ region_rows rid (i # is)\<rparr>) cs"
    by (simp add: cs1_def region_rows_def comp_def)
  have "each (insert_region p rid) (i # is) cs = Inr cs' \<longleftrightarrow>
      i \<in> pr_id ` set (cp_regions p) \<and> i \<notin> regions_of_revision rid cs \<and> each (insert_region p rid) is cs1 = Inr cs'"
    by (auto simp: bindE_eq_Inr e)
  then show ?case unfolding Cons.IH [OF d] n c by auto
qed

definition orders_of :: "string \<Rightarrow> content_store \<Rightarrow> int set" where
  "orders_of rid cs = set (map ev_order (filter (\<lambda>r. ev_revision r = rid) (evidences (cs_game cs))))"

lemma each_evidence:
  assumes "draft rid cs"
  shows "each (insert_evidence rid) es cs = Inr cs' \<longleftrightarrow> list_all (\<lambda>e. 1 \<le> pv_order e \<and> pv_order e \<le> 4) es \<and>
    distinct (map pv_order es) \<and> pv_order ` set es \<inter> orders_of rid cs = {} \<and>
    cs' = on_game (\<lambda>db. db\<lparr>evidences := evidences db @ evidence_rows rid es\<rparr>) cs"
  using assms
proof (induction es arbitrary: cs)
  case Nil
  show ?case by (auto simp: evidence_rows_def on_game_def)
next
  case (Cons e es)
  define cs1 where "cs1 = on_game (\<lambda>db. db\<lparr>evidences := evidences db @ evidence_rows rid [e]\<rparr>) cs"
  have d: "draft rid cs1" using Cons.prems draft_revisions [of cs1 cs] by (simp add: cs1_def)
  have n: "orders_of rid cs1 = insert (pv_order e) (orders_of rid cs)"
    by (simp add: orders_of_def cs1_def evidence_rows_def)
  have e: "insert_evidence rid e cs = Inr c \<longleftrightarrow> 1 \<le> pv_order e \<and> pv_order e \<le> 4 \<and> pv_order e \<notin> orders_of rid cs \<and> c = cs1" for c
    using Cons.prems by (auto simp: insert_evidence_def draft_def orders_of_def resultE cs1_def evidence_rows_def)
  have c: "on_game (\<lambda>db. db\<lparr>evidences := evidences db @ evidence_rows rid es\<rparr>) cs1 =
      on_game (\<lambda>db. db\<lparr>evidences := evidences db @ evidence_rows rid (e # es)\<rparr>) cs"
    by (simp add: cs1_def evidence_rows_def comp_def)
  have "each (insert_evidence rid) (e # es) cs = Inr cs' \<longleftrightarrow>
      1 \<le> pv_order e \<and> pv_order e \<le> 4 \<and> pv_order e \<notin> orders_of rid cs \<and> each (insert_evidence rid) es cs1 = Inr cs'"
    by (auto simp: bindE_eq_Inr e)
  then show ?case unfolding Cons.IH [OF d] n c by auto
qed

definition sources_of_revision :: "string \<Rightarrow> content_store \<Rightarrow> source_row set" where
  "sources_of_revision rid cs = set (filter (\<lambda>r. so_revision r = rid) (case_sources (cs_game cs)))"

lemma each_source:
  assumes "draft rid cs"
  shows "each (insert_source p rid) is cs = Inr cs' \<longleftrightarrow> snd ` set is \<subseteq> ps_id ` set (cp_sources p) \<and>
    distinct (map fst is) \<and> distinct (map snd is) \<and>
    (\<lambda>i. int (fst i) + 1) ` set is \<inter> so_order ` sources_of_revision rid cs = {} \<and>
    snd ` set is \<inter> so_id ` sources_of_revision rid cs = {} \<and>
    cs' = on_game (\<lambda>db. db\<lparr>case_sources := case_sources db @ source_rows rid is\<rparr>) cs"
  using assms
proof (induction "is" arbitrary: cs)
  case Nil
  show ?case by (auto simp: source_rows_def on_game_def)
next
  case (Cons i "is")
  define cs1 where "cs1 = on_game (\<lambda>db. db\<lparr>case_sources := case_sources db @ source_rows rid [i]\<rparr>) cs"
  have d: "draft rid cs1" using Cons.prems draft_revisions [of cs1 cs] by (simp add: cs1_def)
  have n: "sources_of_revision rid cs1 = insert \<lparr>so_revision = rid, so_order = int (fst i) + 1, so_id = snd i\<rparr> (sources_of_revision rid cs)"
    by (cases i) (simp add: sources_of_revision_def cs1_def source_rows_def)
  have e: "insert_source p rid i cs = Inr c \<longleftrightarrow> snd i \<in> ps_id ` set (cp_sources p) \<and>
      int (fst i) + 1 \<notin> so_order ` sources_of_revision rid cs \<and> snd i \<notin> so_id ` sources_of_revision rid cs \<and> c = cs1" for c
    using Cons.prems
    by (cases i) (auto simp: insert_source_def draft_def sources_of_revision_def resultE cs1_def source_rows_def Let_def)
  have c: "on_game (\<lambda>db. db\<lparr>case_sources := case_sources db @ source_rows rid is\<rparr>) cs1 =
      on_game (\<lambda>db. db\<lparr>case_sources := case_sources db @ source_rows rid (i # is)\<rparr>) cs"
    by (simp add: cs1_def source_rows_def comp_def)
  have "each (insert_source p rid) (i # is) cs = Inr cs' \<longleftrightarrow> snd i \<in> ps_id ` set (cp_sources p) \<and>
      int (fst i) + 1 \<notin> so_order ` sources_of_revision rid cs \<and> snd i \<notin> so_id ` sources_of_revision rid cs \<and>
      each (insert_source p rid) is cs1 = Inr cs'"
    by (auto simp: bindE_eq_Inr e)
  then show ?case unfolding Cons.IH [OF d] n c by (auto simp: image_iff)
qed

section \<open>Linked tables\<close>

text \<open>The rows of the content belong to revisions, the revisions to packs: what the foreign keys keep. An eligible entity of a
  published revision is complete by then.\<close>

definition children_ok :: "game_db \<Rightarrow> bool" where
  "children_ok db \<longleftrightarrow> en_revision ` set (entities db) \<subseteq> rv_id ` set (revisions db) \<and>
     al_revision ` set (aliases db) \<subseteq> rv_id ` set (revisions db) \<and> ev_revision ` set (evidences db) \<subseteq> rv_id ` set (revisions db) \<and>
     so_revision ` set (case_sources db) \<subseteq> rv_id ` set (revisions db) \<and>
     rr_revision ` set (revision_regions db) \<subseteq> rv_id ` set (revisions db)"

definition linked :: "content_store \<Rightarrow> bool" where
  "linked cs \<longleftrightarrow> children_ok (cs_game cs) \<and> (\<lambda>(r, packId, n). packId) ` set (cs_numbers cs) \<subseteq> fst ` set (cs_packs cs)"

lemma nothing_of_new:
  assumes "children_ok (cs_game cs)" "rid \<notin> rv_id ` set (revisions (cs_game cs))"
  shows "ids_of rid cs = {}" "names_of rid cs = {}" "regions_of_revision rid cs = {}" "orders_of rid cs = {}"
    "sources_of_revision rid cs = {}"
  using assms
  by (auto simp: children_ok_def ids_of_def names_of_def regions_of_revision_def orders_of_def sources_of_revision_def filter_empty_conv)

section \<open>The whole graph\<close>

definition revision_of :: "content_pack \<Rightarrow> string \<Rightarrow> int \<Rightarrow> revision_row" where
  "revision_of p rid opens = \<lparr>rv_id = rid, rv_published = False, rv_slot = cp_slotId p, rv_opens = opens,
     rv_closes = opens + MILLISECONDS_PER_DAY, rv_briefing = cp_briefing p, rv_answer = []\<rparr>"

definition answered :: "import_env \<Rightarrow> content_pack \<Rightarrow> string \<Rightarrow> revision_row \<Rightarrow> revision_row" where
  "answered env p rid r = r\<lparr>rv_answer := entityUuid env rid (cp_answerEntityId p)\<rparr>"

text \<open>The store with a new revision: its row, and the rows of its parts.\<close>

definition with_revision :: "import_env \<Rightarrow> content_pack \<Rightarrow> string \<Rightarrow> revision_row \<Rightarrow> game_db \<Rightarrow> game_db" where
  "with_revision env p rid r db = db\<lparr>
     revisions := revisions db @ [r],
     entities := entities db @ entity_rows env rid (cp_entities p),
     aliases := aliases db @ all_alias_rows env rid (cp_entities p),
     region_catalog := add_catalog (map pr_id (cp_regions p)) (region_catalog db),
     revision_regions := revision_regions db @ region_rows rid (cp_regionIds p),
     evidences := evidences db @ evidence_rows rid (cp_evidence p),
     case_sources := case_sources db @ source_rows rid (enumerate 0 (cp_sourceIds p))\<rparr>"

text \<open>What the inserts of the graph need of the pack, beside a revision that is new.\<close>

definition graph_ok :: "import_env \<Rightarrow> content_pack \<Rightarrow> string \<Rightarrow> bool" where
  "graph_ok env p rid \<longleftrightarrow> list_all (\<lambda>e. entityIdSchema (pe_id e) \<and> distinct (pe_aliases e)) (cp_entities p) \<and>
     entities_apart env rid (cp_entities p) \<and> list_all (\<lambda>r. entityIdSchema (pr_id r)) (cp_regions p) \<and>
     set (cp_regionIds p) \<subseteq> pr_id ` set (cp_regions p) \<and> distinct (cp_regionIds p) \<and>
     list_all (\<lambda>e. 1 \<le> pv_order e \<and> pv_order e \<le> 4) (cp_evidence p) \<and> distinct (map pv_order (cp_evidence p)) \<and>
     set (cp_sourceIds p) \<subseteq> ps_id ` set (cp_sources p) \<and> distinct (cp_sourceIds p) \<and>
     cp_answerEntityId p \<in> pe_id ` set (cp_entities p)"

definition children :: "import_env \<Rightarrow> content_pack \<Rightarrow> string \<Rightarrow> statement" where
  "children env p rid cs =
    bindE (each (insert_entity env rid) (cp_entities p) cs) (\<lambda>cs.
    bindE (each insert_catalog (cp_regions p) cs) (\<lambda>cs.
    bindE (each (insert_region p rid) (cp_regionIds p) cs) (\<lambda>cs.
    bindE (each (insert_evidence rid) (cp_evidence p) cs) (\<lambda>cs.
    bindE (each (insert_source p rid) (enumerate 0 (cp_sourceIds p)) cs)
      (set_answer env p rid)))))"

lemma insertPackGraph_children: "insertPackGraph env p rid cs =
    bindE (insert_pack env p cs) (\<lambda>cs. bindE (pack_id p cs) (\<lambda>packId.
    bindE (insert_revision env p rid packId cs) (children env p rid)))"
  by (simp add: insertPackGraph_def children_def [abs_def])

lemma set_answer_iff:
  assumes "draft rid cs"
  shows "set_answer env p rid cs = Inr cs' \<longleftrightarrow>
    cp_answerEntityId p \<in> pe_id ` set (cp_entities p) \<and> cs' = map_revision rid (answered env p rid) cs"
  using assms by (auto simp: set_answer_def draft_def answered_def [abs_def])

lemma children_iff:
  assumes "children_ok (cs_game cs0)" "rid \<notin> rv_id ` set (revisions (cs_game cs0))" "rv_id r = rid" "\<not> rv_published r"
    and cs: "cs = on_game (\<lambda>db. db\<lparr>revisions := revisions db @ [r]\<rparr>) cs0"
  shows "children env p rid cs = Inr cs' \<longleftrightarrow> graph_ok env p rid \<and>
    cs' = on_game (with_revision env p rid (answered env p rid r)) cs0"
proof -
  let ?c1 = "add_entities env rid (cp_entities p) cs"
  let ?c2 = "on_game (\<lambda>db. db\<lparr>region_catalog := add_catalog (map pr_id (cp_regions p)) (region_catalog db)\<rparr>) ?c1"
  let ?c3 = "on_game (\<lambda>db. db\<lparr>revision_regions := revision_regions db @ region_rows rid (cp_regionIds p)\<rparr>) ?c2"
  let ?c4 = "on_game (\<lambda>db. db\<lparr>evidences := evidences db @ evidence_rows rid (cp_evidence p)\<rparr>) ?c3"
  let ?c5 = "on_game (\<lambda>db. db\<lparr>case_sources := case_sources db @ source_rows rid (enumerate 0 (cp_sourceIds p))\<rparr>) ?c4"
  have "find (\<lambda>x. rv_id x = rid) (revisions (cs_game cs0)) = None" using assms(2) by (auto simp: find_None_iff)
  then have "find (\<lambda>x. rv_id x = rid) (revisions (cs_game cs)) = Some r" using assms(3) by (simp add: cs find_later)
  then have d: "draft rid cs" using assms(4) by (simp add: draft_def not_frozen_def check_def)
  have dd: "draft rid ?c1" "draft rid ?c2" "draft rid ?c3" "draft rid ?c4" "draft rid ?c5"
    using d by (simp_all add: draft_def not_frozen_def add_entities_def)
  note new = nothing_of_new [OF assms(1,2)]
  have n: "ids_of rid cs = {}" "names_of rid cs = {}" "regions_of_revision rid ?c2 = {}" "orders_of rid ?c3 = {}"
    "sources_of_revision rid ?c4 = {}"
    using new by (simp_all add: ids_of_def names_of_def regions_of_revision_def orders_of_def sources_of_revision_def cs add_entities_def)
  have fst_en: "distinct (map fst (enumerate 0 (cp_sourceIds p)))" "map snd (enumerate 0 (cp_sourceIds p)) = cp_sourceIds p"
    by (simp_all add: enumerate_eq_zip)
  have snd_en: "snd ` set (enumerate 0 (cp_sourceIds p)) = set (cp_sourceIds p)" by (metis fst_en(2) set_map)
  have keep: "map (\<lambda>x. if rv_id x = rid then answered env p rid x else x) (revisions (cs_game cs0)) = revisions (cs_game cs0)"
    by (rule map_idI) (use assms(2) in auto)
  have final: "map_revision rid (answered env p rid) ?c5 = on_game (with_revision env p rid (answered env p rid r)) cs0"
    using keep assms(3) by (simp add: map_revision_def cs add_entities_def on_game_def with_revision_def comp_def)
  have "children env p rid cs = Inr cs' \<longleftrightarrow> list_all (entity_ok env rid cs) (cp_entities p) \<and>
      entities_apart env rid (cp_entities p) \<and> list_all (\<lambda>r. entityIdSchema (pr_id r)) (cp_regions p) \<and>
      (set (cp_regionIds p) \<subseteq> pr_id ` set (cp_regions p) \<and> distinct (cp_regionIds p) \<and>
        set (cp_regionIds p) \<inter> regions_of_revision rid ?c2 = {}) \<and>
      (list_all (\<lambda>e. 1 \<le> pv_order e \<and> pv_order e \<le> 4) (cp_evidence p) \<and> distinct (map pv_order (cp_evidence p)) \<and>
        pv_order ` set (cp_evidence p) \<inter> orders_of rid ?c3 = {}) \<and>
      (snd ` set (enumerate 0 (cp_sourceIds p)) \<subseteq> ps_id ` set (cp_sources p) \<and>
        distinct (map fst (enumerate 0 (cp_sourceIds p))) \<and> distinct (map snd (enumerate 0 (cp_sourceIds p))) \<and>
        (\<lambda>i. int (fst i) + 1) ` set (enumerate 0 (cp_sourceIds p)) \<inter> so_order ` sources_of_revision rid ?c4 = {} \<and>
        snd ` set (enumerate 0 (cp_sourceIds p)) \<inter> so_id ` sources_of_revision rid ?c4 = {}) \<and>
      cp_answerEntityId p \<in> pe_id ` set (cp_entities p) \<and> cs' = map_revision rid (answered env p rid) ?c5"
    unfolding children_def bind_known [OF each_entity [OF d, folded conj_assoc]] bind_known [OF each_catalog]
      bind_known [OF each_region [OF dd(2), folded conj_assoc]] bind_known [OF each_evidence [OF dd(3), folded conj_assoc]]
      bind_known [OF each_source [OF dd(4), folded conj_assoc]] set_answer_iff [OF dd(5)] conj_assoc
    by (rule refl)
  moreover have "list_all (entity_ok env rid cs) (cp_entities p) \<longleftrightarrow>
      list_all (\<lambda>e. entityIdSchema (pe_id e) \<and> distinct (pe_aliases e)) (cp_entities p)"
    by (simp add: entity_ok_def n(1,2) list_all_iff)
  ultimately show ?thesis
    unfolding graph_ok_def n snd_en final fst_en by (simp only: image_empty Int_empty_right simp_thms conj_assoc fst_en)
qed

end
