(* ===== verification/Content_Sample.thy ===== *)
theory Content_Sample
  imports Content_Import_Correct
begin

text \<open>
  A pack, the value it is read from and a store with a published revision, for the evaluation of the properties of the
  importer at a concrete input.
\<close>

section \<open>A sample pack\<close>

definition sample_texts :: "(string \<times> string) list \<Rightarrow> js_value" where
  "sample_texts fs = Object (map (\<lambda>(k, s). (k, String s)) fs)"

definition sample_entity :: "string \<Rightarrow> string \<Rightarrow> js_value" where
  "sample_entity i n = Object [(''id'', String i), (''canonicalName'', String n), (''role'', String ''S''), (''aliases'', Array [String (n @ ''s'')])]"

definition sample_evidence_value :: "int \<Rightarrow> js_value" where
  "sample_evidence_value k = Object [(''order'', JInt k), (''text'', String ''C''), (''explanation'', String ''W'')]"

definition sample_pack_value :: js_value where
  "sample_pack_value = Object
    [(''schemaVersion'', JInt 1), (''stableKey'', String ''pack''), (''revisionNumber'', JInt 1), (''caseId'', String ''case-1''),
     (''slotId'', String ''2024-02-29''), (''opensAt'', String ''2024-02-29T00:00:00Z''), (''closesAt'', String ''2024-03-01T00:00:00.000Z''),
     (''title'', String ''Case''), (''author'', String ''Ann''), (''provenance'', String ''ORIGINAL_AUTHORED''),
     (''contentVersion'', String ''1.0.0''), (''briefing'', String ''Who?''),
     (''answerEntityId'', String ''tha''),
     (''entities'', Array [sample_entity ''tha'' ''Tha'', sample_entity ''mirel'' ''Mi'']),
     (''evidence'', Array (map sample_evidence_value [1, 2, 3, 4])),
     (''regions'', Array [sample_texts [(''id'', ''nor''), (''displayName'', ''North'')]]), (''regionIds'', Array [String ''nor'']),
     (''sources'', Array [sample_texts [(''id'', ''a/b''), (''citation'', ''One'')]]), (''sourceIds'', Array [String ''a/b''])]"

text \<open>\<^verbatim>\<open>Date.parse\<close> on the midnights, and a digest that keeps the length of the text.\<close>

definition sample_parse :: "string \<Rightarrow> int option" where
  "sample_parse s = (case match_day (take 10 s) of None \<Rightarrow> None
     | Some c \<Rightarrow> map_option (\<lambda>n. n * MILLISECONDS_PER_DAY) (date_parse c))"

definition sample_lib :: text_lib where
  "sample_lib = \<lparr>tl_canonical = ascii_lower \<circ> js_trim, tl_locale = (\<lambda>a b. if a = b then 0 else if a < b then - 1 else 1), tl_parse = sample_parse\<rparr>"

definition sample_import_env :: import_env where
  "sample_import_env = \<lparr>ie_lib = sample_lib, ie_digest = (\<lambda>s. replicate 16 (word_of_nat (length s))),
     ie_timestamptz = sample_parse, ie_begin = None\<rparr>"

definition sample_content_store :: content_store where
  "sample_content_store = \<lparr>cs_game = served_store, cs_packs = [], cs_numbers = []\<rparr>"

definition sample_pack :: content_pack where
  "sample_pack = \<lparr>cp_answerEntityId = ''tha'', cp_author = ''Ann'', cp_briefing = ''Who?'', cp_caseId = ''case-1'',
     cp_closesAt = ''2024-03-01T00:00:00.000Z'', cp_contentVersion = ''1.0.0'',
     cp_entities = [\<lparr>pe_aliases = [''Thas''], pe_canonicalName = ''Tha'', pe_id = ''tha'', pe_role = ''S''\<rparr>,
       \<lparr>pe_aliases = [''Mis''], pe_canonicalName = ''Mi'', pe_id = ''mirel'', pe_role = ''S''\<rparr>],
     cp_evidence = map (\<lambda>k. \<lparr>pv_explanation = ''W'', pv_order = k, pv_text = ''C''\<rparr>) [1, 2, 3, 4],
     cp_opensAt = ''2024-02-29T00:00:00Z'', cp_provenance = ''ORIGINAL_AUTHORED'', cp_regionIds = [''nor''],
     cp_regions = [\<lparr>pr_displayName = ''North'', pr_id = ''nor''\<rparr>], cp_revisionNumber = 1, cp_schemaVersion = 1,
     cp_slotId = ''2024-02-29'', cp_sourceIds = [''a/b''], cp_sources = [\<lparr>ps_citation = ''One'', ps_id = ''a/b''\<rparr>],
     cp_stableKey = ''pack'', cp_title = ''Case''\<rparr>"

lemma sample_regions: "readRegions sample_lib (js_field sample_pack_value ''regions'') = ([], cp_regions sample_pack)" by code_simp
lemma sample_entities: "readEntities sample_lib (js_field sample_pack_value ''entities'') = ([], cp_entities sample_pack)" by code_simp
lemma sample_evidence: "readEvidence sample_lib (js_field sample_pack_value ''evidence'') = ([], cp_evidence sample_pack)" by code_simp
lemma sample_sources: "readSources sample_lib (js_field sample_pack_value ''sources'') = ([], cp_sources sample_pack)" by code_simp
lemma sample_regionIds: "readStringArray 8 (formatted entityIdSchema 64) ''$.regionIds'' (js_field sample_pack_value ''regionIds'') = ([], cp_regionIds sample_pack)" by code_simp
lemma sample_window: "exact_window sample_lib ''2024-02-29'' ''2024-02-29T00:00:00Z'' ''2024-03-01T00:00:00.000Z'' = Inr True" by code_simp
lemma sample_root: "map (\<lambda>f. fst (read_root sample_pack_value f)) ROOT_TEXTS = replicate (length ROOT_TEXTS) []" by code_simp
lemma sample_linked: "linked sample_content_store" by code_simp

lemma sample_sourceIds: "readStringArray 16 source_text ''$.sourceIds'' (js_field sample_pack_value ''sourceIds'') = ([], cp_sourceIds sample_pack)"
  by code_simp

lemma sample_root_at: "reads_root sample_pack_value n o' (text_at sample_pack_value n)" if "(n, o') \<in> set ROOT_TEXTS"
proof -
  have "concat (map (\<lambda>f. fst (read_root sample_pack_value f)) ROOT_TEXTS) = []" unfolding sample_root by (simp add: concat_eq_Nil_conv)
  then show ?thesis using that unfolding root_texts_nil by fastforce
qed

lemma sample_keys: "keys_within sample_pack_value ROOT_FIELDS" by code_simp

lemma sample_text_at:
  "text_at sample_pack_value ''stableKey'' = cp_stableKey sample_pack" "text_at sample_pack_value ''caseId'' = cp_caseId sample_pack"
  "text_at sample_pack_value ''author'' = cp_author sample_pack" "text_at sample_pack_value ''contentVersion'' = cp_contentVersion sample_pack"
  "text_at sample_pack_value ''title'' = cp_title sample_pack" "text_at sample_pack_value ''briefing'' = cp_briefing sample_pack"
  "text_at sample_pack_value ''answerEntityId'' = cp_answerEntityId sample_pack" "text_at sample_pack_value ''slotId'' = cp_slotId sample_pack"
  "text_at sample_pack_value ''opensAt'' = cp_opensAt sample_pack" "text_at sample_pack_value ''closesAt'' = cp_closesAt sample_pack"
  by code_simp+

lemma sample_provenance: "provenance_diagnostics (js_field sample_pack_value ''provenance'') = []" by code_simp
lemma sample_numbers: "as_integer (js_field sample_pack_value ''schemaVersion'') = Some (cp_schemaVersion sample_pack)"
  "as_integer (js_field sample_pack_value ''revisionNumber'') = Some (cp_revisionNumber sample_pack)" by code_simp+
lemma sample_reads: "reads_pack sample_lib sample_pack_value sample_pack"
proof -
  note root = sample_root_at [unfolded ROOT_TEXTS_def] and texts = sample_text_at
  have "reads_root sample_pack_value ''stableKey'' (formatted entityIdSchema 64) (cp_stableKey sample_pack)"
    "reads_root sample_pack_value ''caseId'' (formatted entityIdSchema 64) (cp_caseId sample_pack)"
    "reads_root sample_pack_value ''author'' (plain_text 120) (cp_author sample_pack)"
    "reads_root sample_pack_value ''contentVersion'' (formatted version_pattern 32) (cp_contentVersion sample_pack)"
    "reads_root sample_pack_value ''title'' (plain_text 120) (cp_title sample_pack)"
    "reads_root sample_pack_value ''briefing'' (plain_text 2000) (cp_briefing sample_pack)"
    "reads_root sample_pack_value ''answerEntityId'' (formatted entityIdSchema 64) (cp_answerEntityId sample_pack)"
    "reads_root sample_pack_value ''slotId'' (formatted slot_pattern 10) (cp_slotId sample_pack)"
    "reads_root sample_pack_value ''opensAt'' (any_text 24) (cp_opensAt sample_pack)"
    "reads_root sample_pack_value ''closesAt'' (any_text 24) (cp_closesAt sample_pack)"
    by (simp_all add: root flip: texts)
  moreover have "reads_root sample_pack_value ''provenance'' (any_text 32) (cp_provenance sample_pack)"
    using sample_provenance by (simp add: provenance_nil reads_root_def sample_pack_def)
  moreover have "reads_window sample_lib (cp_slotId sample_pack) (cp_opensAt sample_pack) (cp_closesAt sample_pack)"
    using sample_window by (simp add: reads_window_def sample_pack_def)
  ultimately show ?thesis
    using sample_keys sample_numbers sample_regions sample_entities sample_evidence sample_sources sample_regionIds sample_sourceIds
    unfolding reads_pack_def readRegions_iff readEntities_iff readEvidence_iff readSources_iff readStringArray_iff
    by (simp add: sample_pack_def)
qed

lemma sample_valid: "validateContentPack sample_lib sample_pack_value = Inr (Content_Valid sample_pack)"
  using validator_accepts_parts sample_reads by blast

text \<open>The parser of the sample reads no year beyond those of four digits.\<close>

lemma sample_parse_year: "sample_parse s = Some t \<Longrightarrow> t < LAST_INSTANT"
proof -
  assume "sample_parse s = Some t"
  then obtain c n where c: "match_day (take 10 s) = Some c" "date_parse c = Some n" "t = n * MILLISECONDS_PER_DAY"
    by (auto simp: sample_parse_def split: option.splits)
  have "year c \<le> 9999" using match_day_Some [OF c(1)] by simp
  then have "day_from_year (year_of_day n + 1) \<le> day_from_year 10000"
    using year_date_parse [OF c(2)] by (intro day_from_year_le) (simp add: year_civil_of_day)
  then have "n < day_from_year 10000" using year_of_day_bounds [of n] by linarith
  then show ?thesis by (simp add: c(3) LAST_INSTANT_def MILLISECONDS_PER_DAY_def day_from_year_def)
qed

lemma sample_fields [simp]: "ie_lib sample_import_env = sample_lib" "tl_parse sample_lib = sample_parse" "cs_game sample_content_store = served_store"
  by (simp_all add: sample_import_env_def sample_lib_def sample_content_store_def)

end
