(* ===== verification/Content_Published.thy ===== *)
theory Content_Published
  imports Content_Sample
begin

text \<open>
  From the validator to the game: an imported pack leaves the store in the state the gameplay code relies on, a published one
  can be played, and a dry run that finds nothing wrong announces a publication that succeeds.
\<close>

section \<open>What a valid pack has\<close>














section \<open>A whole import\<close>



















section \<open>A dry run announces the publication\<close>


section \<open>The game with a new revision\<close>




lemma unchanged_tables [simp]:
  "attempts (with_revision env p rid row db) = attempts db" "guests (with_revision env p rid row db) = guests db"
  "guesses (with_revision env p rid row db) = guesses db" "receipts (with_revision env p rid row db) = receipts db"
  "finalizations (with_revision env p rid row db) = finalizations db" "contributions (with_revision env p rid row db) = contributions db"
  "entries (with_revision env p rid row db) = entries db" "knowledge (with_revision env p rid row db) = knowledge db"
  by (simp_all add: with_revision_def)


















end
