(* ===== verification/Content_Cli.thy ===== *)
theory Content_Cli
  imports Content_Published Json Suggestion_Cache
begin

text \<open>
  The command line of the importer (\<^verbatim>\<open>packages/database/src/content/cli-core.ts\<close> and \<^verbatim>\<open>cli.ts\<close>): its arguments, the bounded
  reading of the file, and the exit code and line of JSON it ends with. The file system is what \<^verbatim>\<open>stat\<close> and \<^verbatim>\<open>readFile\<close> answer
  (\<open>None\<close> when they reject); texts have characters below 256, as in \<open>Json\<close>.
\<close>

section \<open>Arguments\<close>

datatype cli_mode = Dry_Run | Publish_Run

datatype cli_code = FILE_READ_FAILED | FILE_TOO_LARGE | INVALID_ARGUMENTS | INVALID_JSON | MISSING_DATABASE_URL

type_synonym cli_diagnostic = "(cli_code + import_code) \<times> string"



section \<open>The file\<close>




datatype cli_outcome =
    Cli_Ok cli_mode "string option"
  | Cli_Failed "cli_diagnostic list" int cli_mode



section \<open>The command\<close>

definition import_failure :: "cli_mode \<Rightarrow> import_diagnostic list \<Rightarrow> cli_outcome" where
  "import_failure mode ds =
    Cli_Failed (map (\<lambda>(code, path). (Inr code, path)) ds) (if DATABASE_UNAVAILABLE \<in> fst ` set ds then 3 else 2) mode"







fun outcome_exit :: "cli_outcome \<Rightarrow> int" where
  "outcome_exit (Cli_Ok _ _) = 0"
| "outcome_exit (Cli_Failed _ exit _) = exit"


section \<open>Correctness\<close>

text \<open>The options a command line spells.\<close>

datatype cli_option = Opt_Dry_Run | Opt_File string


definition option_mode :: "cli_mode \<Rightarrow> cli_option list \<Rightarrow> cli_mode" where
  "option_mode mode opts = (if Opt_Dry_Run \<in> set opts then Dry_Run else mode)"

definition option_path :: "string option \<Rightarrow> cli_option list \<Rightarrow> string option" where
  "option_path path opts = foldl (\<lambda>p opt. case opt of Opt_File f \<Rightarrow> Some f | Opt_Dry_Run \<Rightarrow> p) path opts"

lemma option_mode_simps [simp]:
  "option_mode m [] = m" "option_mode m (Opt_Dry_Run # opts) = Dry_Run" "option_mode m (Opt_File p # opts) = option_mode m opts"
  "option_mode Dry_Run opts = Dry_Run"
  by (simp_all add: option_mode_def)

lemma option_path_simps [simp]:
  "option_path p [] = p" "option_path p (Opt_Dry_Run # opts) = option_path p opts" "option_path p (Opt_File f # opts) = option_path (Some f) opts"
  by (simp_all add: option_path_def)






lemma no_failure_code: "import_failure mode ds \<noteq> Cli_Ok m r" "outcome_exit (import_failure mode ds) \<noteq> 0"
  by (auto simp: import_failure_def)








end
