(* ===== verification/Base64url.thy ===== *)
theory Base64url
  imports Raw_Json
begin

text \<open>
  The encodings of Node's \<^verbatim>\<open>Buffer\<close> the cursors and keys use: \<^verbatim>\<open>base64url\<close> without padding and UTF-8 for characters below 256.
  Decoding skips what is not of either alphabet and drops a last lone character, as \<^verbatim>\<open>Buffer.from(_, 'base64url')\<close> does.
  Result: what is encoded is read back.
\<close>

section \<open>Base64\<close>

definition base64_char :: "nat \<Rightarrow> char" where
  "base64_char n = char_of (if n < 26 then n + 65 else if n < 52 then n + 71 else if n < 62 then n - 4 else if n = 62 then 45 else 95)"

definition sextet :: "char \<Rightarrow> nat option" where
  "sextet c = (let n = (of_char c :: nat)
     in if 65 \<le> n \<and> n \<le> 90 then Some (n - 65) else if 97 \<le> n \<and> n \<le> 122 then Some (n - 71)
        else if 48 \<le> n \<and> n \<le> 57 then Some (n + 4) else if n = 45 \<or> n = 43 then Some 62
        else if n = 95 \<or> n = 47 then Some 63 else None)"

fun sextets :: "nat list \<Rightarrow> nat list" where
  "sextets [] = []"
| "sextets [a] = [a div 4, a mod 4 * 16]"
| "sextets [a, b] = [a div 4, a mod 4 * 16 + b div 16, b mod 16 * 4]"
| "sextets (a # b # c # r) = [a div 4, a mod 4 * 16 + b div 16, b mod 16 * 4 + c div 64, c mod 64] @ sextets r"

fun octets :: "nat list \<Rightarrow> nat list" where
  "octets [] = []"
| "octets [x] = []"
| "octets [x, y] = [x * 4 + y div 16]"
| "octets [x, y, z] = [x * 4 + y div 16, y mod 16 * 16 + z div 4]"
| "octets (x # y # z # w # r) = [x * 4 + y div 16, y mod 16 * 16 + z div 4, z mod 4 * 64 + w] @ octets r"

definition base64url_encode :: "byte list \<Rightarrow> string" where
  "base64url_encode bs = map base64_char (sextets (map unat bs))"

definition base64url_decode :: "string \<Rightarrow> byte list" where
  "base64url_decode s = map word_of_nat (octets (List.map_filter sextet s))"

lemma octets_sextets: "list_all (\<lambda>n. n < 256) ns \<Longrightarrow> octets (sextets ns) = ns"
  by (induction ns rule: sextets.induct) auto

lemma sextets_bound: "list_all (\<lambda>n. n < 256) ns \<Longrightarrow> list_all (\<lambda>n. n < 64) (sextets ns)"
  by (induction ns rule: sextets.induct) auto

lemma sextet_char: "n < 64 \<Longrightarrow> sextet (base64_char n) = Some n"
proof -
  assume "n < 64"
  then consider "n < 26" | "26 \<le> n" "n < 52" | m where "n = m + 52" "m < 10" | "n = 62" | "n = 63"
  proof -
    assume c: "n < 26 \<Longrightarrow> thesis" "26 \<le> n \<Longrightarrow> n < 52 \<Longrightarrow> thesis" "\<And>m. n = m + 52 \<Longrightarrow> m < 10 \<Longrightarrow> thesis" "n = 62 \<Longrightarrow> thesis" "n = 63 \<Longrightarrow> thesis"
    have "n < 26 \<or> 26 \<le> n \<and> n < 52 \<or> n = (n - 52) + 52 \<and> n - 52 < 10 \<or> n = 62 \<or> n = 63" using \<open>n < 64\<close> by linarith
    then show thesis using c(1,2,4,5) c(3) [of "n - 52"] by blast
  qed
  then show ?thesis by cases (simp_all add: sextet_def base64_char_def Let_def of_char_of)
qed

lemma read_sextets: "list_all (\<lambda>n. n < 64) ns \<Longrightarrow> List.map_filter sextet (map base64_char ns) = ns"
  by (induction ns) (simp_all add: sextet_char List.map_filter_simps)

lemma bytes_bound: "list_all (\<lambda>n. n < 256) (map unat (bs :: byte list))"
  by (auto simp: list_all_iff intro: order_less_le_trans [OF unsigned_less])

lemma base64url_round_trip [simp]: "base64url_decode (base64url_encode bs) = bs"
  by (simp add: base64url_decode_def base64url_encode_def read_sextets sextets_bound bytes_bound octets_sextets comp_def map_idI)

lemma base64url_inject: "base64url_encode bs = base64url_encode bs' \<longleftrightarrow> bs = bs'"
  by (metis base64url_round_trip)

text \<open>The length without padding, and the alphabet.\<close>

lemma length_sextets: "length (sextets ns) = (4 * length ns + 2) div 3"
  by (induction ns rule: sextets.induct) auto

lemma length_base64url [simp]: "length (base64url_encode bs) = (4 * length bs + 2) div 3"
  by (simp add: base64url_encode_def length_sextets)

definition url_safe :: "char \<Rightarrow> bool" where
  "url_safe c \<longleftrightarrow> (let n = (of_char c :: nat) in 65 \<le> n \<and> n \<le> 90 \<or> 97 \<le> n \<and> n \<le> 122 \<or> 48 \<le> n \<and> n \<le> 57 \<or> n = 95 \<or> n = 45)"

lemma base64_char_safe: "n < 64 \<Longrightarrow> url_safe (base64_char n)"
  by (auto simp: url_safe_def base64_char_def Let_def of_char_of)

lemma base64url_safe: "list_all url_safe (base64url_encode bs)"
  using sextets_bound [OF bytes_bound [of bs]] base64_char_safe by (auto simp: base64url_encode_def list_all_iff)

section \<open>UTF-8\<close>

definition utf8_char :: "char \<Rightarrow> byte list" where
  "utf8_char c = (let n = (of_char c :: nat)
     in if n < 128 then [word_of_nat n] else [word_of_nat (192 + n div 64), word_of_nat (128 + n mod 64)])"

definition utf8_encode :: "string \<Rightarrow> byte list" where
  "utf8_encode s = concat (map utf8_char s)"

lemma uint_byte: "n < 256 \<Longrightarrow> uint (word_of_nat n :: byte) = int n"
  by (simp add: uint_nat unat_of_nat)

lemma of_char_256: "of_char c < (256 :: nat)"
  by simp

lemma utf8_decode_char: "utf8_decode (utf8_char c @ bs) = bindE (utf8_decode bs) (\<lambda>s. Inr (c # s))"
proof -
  define n where "n = (of_char c :: nat)"
  have n: "n < 256" "char_of n = c" by (simp_all add: n_def)
  show ?thesis
  proof (cases "n < 128")
    case True
    then show ?thesis using n by (simp add: utf8_char_def Let_def uint_byte flip: n_def)
  next
    case False
    have d: "n div 64 = 2 \<or> n div 64 = 3" 
    proof -
      have "n div 64 < 4" using n(1) by (intro less_mult_imp_div_less) simp
      moreover have "2 \<le> n div 64" using False div_le_mono [of 128 n 64] by simp
      ultimately show ?thesis by linarith
    qed
    have b: "utf8_char c = [word_of_nat (192 + n div 64), word_of_nat (128 + n mod 64)]" using False by (simp add: utf8_char_def Let_def flip: n_def)
    have u: "uint (word_of_nat (192 + n div 64) :: byte) = 192 + int (n div 64)" "uint (word_of_nat (128 + n mod 64) :: byte) = 128 + int (n mod 64)"
    proof -
      have "192 + n div 64 < 256" "128 + n mod 64 < 256" using d by auto
      then show "uint (word_of_nat (192 + n div 64) :: byte) = 192 + int (n div 64)" "uint (word_of_nat (128 + n mod 64) :: byte) = 128 + int (n mod 64)"
        using uint_byte [of "192 + n div 64"] uint_byte [of "128 + n mod 64"] by simp_all
    qed
    have "n = n div 64 * 64 + n mod 64" by simp
    then have v: "int (n div 64) * 64 + int (n mod 64) = int n"
      by (metis of_nat_add of_nat_mult of_nat_numeral)
    have m: "n mod 64 < 64" by simp
    have r: "byte_in 194 223 (word_of_nat (192 + n div 64))" "\<not> uint (word_of_nat (192 + n div 64) :: byte) < 128"
      using d unfolding byte_in_def u by auto
    have r': "byte_in 128 191 (word_of_nat (128 + n mod 64))" using m unfolding byte_in_def u by linarith
    show ?thesis unfolding b using r r' n by (simp add: u v Let_def del: of_nat_add of_nat_numeral word_of_nat_eq_0_iff)
  qed
qed

lemma utf8_round_trip [simp]: "utf8_decode (utf8_encode s) = Inr s"
  by (induction s) (simp_all add: utf8_encode_def utf8_decode_char)

lemma utf8_inject: "utf8_encode s = utf8_encode t \<longleftrightarrow> s = t"
  by (metis utf8_round_trip sum.inject(2))

end
