(* ===== verification/Reporting.thy ===== *)
theory Reporting
  imports Web_Api Profile Suggestions Base64url
begin

text \<open>
  The reporting routes of the API (\<^verbatim>\<open>apps/api/src/routes/reporting.ts\<close>): the leaderboard's signed cursors and the handlers of
  leaderboard, profile and suggestions. The HMAC is an argument \<open>mac\<close>, a function of the key and the bytes signed.

  Results: a cursor is read back as the position it was issued for, with the active or the previous key and only for its own
  day; changing any part of it is noticed as long as the signature of the changed text is not known; and following the
  cursors through the handler yields the whole leaderboard.
\<close>

section \<open>Cursors\<close>

record hmac_key =
  hk_version :: string
  hk_key :: "byte list"

record cursor_keys =
  ks_active :: hmac_key
  ks_previous :: "hmac_key option"

type_synonym hmac = "byte list \<Rightarrow> byte list \<Rightarrow> byte list"

definition configured_keys :: "cursor_keys \<Rightarrow> hmac_key list" where
  "configured_keys keys = ks_active keys # (case ks_previous keys of None \<Rightarrow> [] | Some k \<Rightarrow> [k])"

definition ORDERING_SCHEMA :: string where
  "ORDERING_SCHEMA = ''e-w-elapsed-id-v1''"

definition invalidCursor :: http_error where
  "invalidCursor = \<lparr>he_code = INVALID_REQUEST, he_fields = [\<lparr>fe_code = INVALID_FORMAT, fe_path = ''$.cursor''\<rparr>]\<rparr>"

definition cursorSignature :: "hmac \<Rightarrow> hmac_key \<Rightarrow> string \<Rightarrow> byte list" where
  "cursorSignature mac key text = mac (hk_key key) (utf8_encode text)"

definition cursor_payload :: "string \<Rightarrow> leaderboard_position \<Rightarrow> js_value" where
  "cursor_payload slotId p = Object [(''version'', JInt 1), (''slotId'', String slotId), (''orderingSchema'', String ORDERING_SCHEMA),
     (''attemptId'', String (lp_attemptId p)), (''evidenceLevel'', Number (lp_level p)), (''totalWrongGuesses'', Number (lp_wrong p)),
     (''elapsedMilliseconds'', Number (lp_elapsed p))]"

definition signed_part :: "hmac_key \<Rightarrow> string \<Rightarrow> string" where
  "signed_part key payload = ''v1.'' @ hk_version key @ ''.'' @ base64url_encode (utf8_encode payload)"

text \<open>\<open>None\<close>: a number of the position has no text in the model (\<open>json_text\<close>), which the numbers of a row never are.\<close>

definition encodeCursor :: "hmac \<Rightarrow> cursor_keys \<Rightarrow> string \<Rightarrow> leaderboard_position \<Rightarrow> string option" where
  "encodeCursor mac keys slotId p =
    map_option (\<lambda>payload. let authenticated = signed_part (ks_active keys) payload
      in authenticated @ ''.'' @ base64url_encode (cursorSignature mac (ks_active keys) authenticated))
    (json_text (cursor_payload slotId p))"

definition leaderboardCursorPayloadSchema :: "zod \<Rightarrow> js_value \<Rightarrow> (string \<times> leaderboard_position) option" where
  "leaderboardCursorPayloadSchema z v =
    (if strict_object [''version'', ''slotId'', ''orderingSchema'', ''evidenceLevel'', ''totalWrongGuesses'', ''elapsedMilliseconds'', ''attemptId''] v \<and>
        js_field v ''version'' = JInt 1 \<and> js_field v ''orderingSchema'' = String ORDERING_SCHEMA
     then (case (js_field v ''slotId'', js_field v ''attemptId'', as_integer (js_field v ''evidenceLevel''),
                as_integer (js_field v ''totalWrongGuesses''), as_integer (js_field v ''elapsedMilliseconds'')) of
         (String slotId, String attemptId, Some level, Some wrong, Some elapsed) \<Rightarrow>
           if validSlotId slotId \<and> z_uuid z attemptId \<and> 0 \<le> level \<and> level \<le> 4 \<and> 0 \<le> wrong \<and> wrong \<le> 15 \<and>
             safeNonNegativeIntegerSchema elapsed
           then Some (slotId, \<lparr>lp_attemptId = attemptId, lp_elapsed = int_number elapsed, lp_level = int_number level, lp_wrong = int_number wrong\<rparr>)
           else None
       | _ \<Rightarrow> None)
     else None)"

text \<open>The payload of a signed text: bytes that are no text in the model cannot be a payload either, since the schema
  leaves no place for other characters.\<close>

definition read_payload :: "zod \<Rightarrow> string \<Rightarrow> string \<Rightarrow> http_error + leaderboard_position" where
  "read_payload z slotId encoded =
    (case utf8_decode (base64url_decode encoded) of
       Inl e \<Rightarrow> Inl invalidCursor
     | Inr text \<Rightarrow> (case JSON_parse text of
         Inl e \<Rightarrow> Inl invalidCursor
       | Inr v \<Rightarrow> (case leaderboardCursorPayloadSchema z v of
           None \<Rightarrow> Inl invalidCursor
         | Some (s, p) \<Rightarrow> if s \<noteq> slotId then Inl invalidCursor else Inr p)))"

definition decodeCursor :: "zod \<Rightarrow> hmac \<Rightarrow> cursor_keys \<Rightarrow> string \<Rightarrow> string \<Rightarrow> http_error + leaderboard_position" where
  "decodeCursor z mac keys slotId cursor =
    (let parts = js_split (CHR ''.'') cursor
     in if length parts \<noteq> 4 \<or> parts ! 0 \<noteq> ''v1'' then Inl invalidCursor
        else (case find (\<lambda>k. hk_version k = parts ! 1) (configured_keys keys) of
            None \<Rightarrow> Inl invalidCursor
          | Some key \<Rightarrow>
              if base64url_decode (parts ! 3) \<noteq> cursorSignature mac key (js_join ''.'' (take 3 parts)) then Inl invalidCursor
              else read_payload z slotId (parts ! 2)))"

text \<open>\<^verbatim>\<open>^[A-Za-z0-9][A-Za-z0-9_-]{0,15}$\<close>\<close>

definition version_text :: "string \<Rightarrow> bool" where
  "version_text s \<longleftrightarrow> 1 \<le> length s \<and> length s \<le> 16 \<and> list_all url_safe s \<and> hd s \<noteq> CHR ''_'' \<and> hd s \<noteq> CHR ''-''"

definition validateKeys :: "cursor_keys \<Rightarrow> unit result" where
  "validateKeys keys =
    (if list_ex (\<lambda>k. \<not> version_text (hk_version k) \<or> length (hk_key k) < 32) (configured_keys keys) \<or>
        (case ks_previous keys of None \<Rightarrow> False
         | Some k \<Rightarrow> hk_version (ks_active keys) = hk_version k \<or> hk_key (ks_active keys) = hk_key k)
     then Inl (JsError ''invalid leaderboard cursor keys'') else Inr ())"

section \<open>Handlers\<close>

datatype reporting_error = Refused http_error | Threw js_error | Store_Failed store_error

record leaderboard_body =
  lb_items :: "leaderboard_item list"
  lb_nextCursor :: "string option"

text \<open>\<^verbatim>\<open>Number(query.limit)\<close> on the texts the query schema passes.\<close>

definition limit_number :: "string option \<Rightarrow> js_number" where
  "limit_number limit = (case limit of None \<Rightarrow> int_number 20
     | Some s \<Rightarrow> if s \<noteq> [] \<and> list_all is_digit s then int_number (digits_value s) else NaN)"

definition page_answer :: "hmac \<Rightarrow> cursor_keys \<Rightarrow> string \<Rightarrow> leaderboard_page result \<Rightarrow> reporting_error + leaderboard_body" where
  "page_answer mac keys slotId r =
    (case r of
       Inl (RangeError m) \<Rightarrow> Inl (Refused invalidCursor)
     | Inl e \<Rightarrow> Inl (Threw e)
     | Inr page \<Rightarrow> Inr \<lparr>lb_items = lp_items page, lb_nextCursor = Option.bind (lp_next page) (encodeCursor mac keys slotId)\<rparr>)"

definition getLeaderboard ::
  "zod \<Rightarrow> hmac \<Rightarrow> cursor_keys \<Rightarrow> auth_session option \<Rightarrow> string \<Rightarrow> string option \<Rightarrow> string option \<Rightarrow> game_db \<Rightarrow>
   reporting_error + leaderboard_body" where
  "getLeaderboard z mac keys identity slotId limit cursor db =
    (if identity = None then Inl (Refused (public_error AUTHENTICATION_REQUIRED))
     else (case cursor of
         None \<Rightarrow> page_answer mac keys slotId
           (readDailyLeaderboardPage \<lparr>pr_cursor = None, pr_limit = limit_number limit, pr_slot = slotId\<rparr> db)
       | Some c \<Rightarrow> (case decodeCursor z mac keys slotId c of
           Inl e \<Rightarrow> Inl (Refused e)
         | Inr p \<Rightarrow> page_answer mac keys slotId
             (readDailyLeaderboardPage \<lparr>pr_cursor = Some p, pr_limit = limit_number limit, pr_slot = slotId\<rparr> db))))"

definition getProfile ::
  "store_env \<Rightarrow> auth_session option \<Rightarrow> game_db \<Rightarrow> (reporting_error + profile_projection) \<times> game_db" where
  "getProfile env identity db =
    (case identity of
       None \<Rightarrow> (Inl (Refused (public_error AUTHENTICATION_REQUIRED)), db)
     | Some actor \<Rightarrow> (case transaction (readProfile env (as_guest actor)) db of
         (Inl e, db') \<Rightarrow> (Inl (Store_Failed e), db')
       | (Inr None, db') \<Rightarrow> (Inl (Refused (public_error AUTHENTICATION_REQUIRED)), db')
       | (Inr (Some p), db') \<Rightarrow> (Inr p, db')))"

definition getSuggestions ::
  "store_env \<Rightarrow> (string \<Rightarrow> string) \<Rightarrow> (string \<Rightarrow> cache_answer) option \<Rightarrow> auth_session option \<Rightarrow> string \<Rightarrow> string \<Rightarrow> game_db \<Rightarrow>
   (reporting_error + entity_suggestion list) \<times> game_db" where
  "getSuggestions env sql_lower cache identity attemptId q db =
    (case identity of
       None \<Rightarrow> (Inl (Refused (public_error AUTHENTICATION_REQUIRED)), db)
     | Some actor \<Rightarrow> (case readAttemptSuggestions env sql_lower cache (as_guest actor) attemptId q db of
         (Inl e, db') \<Rightarrow> (Inl (Store_Failed e), db')
       | (Inr None, db') \<Rightarrow> (Inl (Refused (public_error RESOURCE_NOT_FOUND)), db')
       | (Inr (Some items), db') \<Rightarrow> (Inr items, db')))"

section \<open>Reading a cursor back\<close>

lemma no_dot: "list_all url_safe s \<Longrightarrow> CHR ''.'' \<notin> set s"
  by (auto simp: list_all_iff url_safe_def Let_def)

lemma configured_cases: "k \<in> set (configured_keys keys) \<longleftrightarrow> k = ks_active keys \<or> ks_previous keys = Some k"
  by (auto simp: configured_keys_def split: option.splits)

lemma valid_keys_versions:
  assumes "validateKeys keys = Inr ()"
  shows "k \<in> set (configured_keys keys) \<Longrightarrow> version_text (hk_version k)"
    "k \<in> set (configured_keys keys) \<Longrightarrow> find (\<lambda>k'. hk_version k' = hk_version k) (configured_keys keys) = Some k"
  using assms by (auto simp: validateKeys_def configured_keys_def split: if_splits option.splits)

lemma split_four:
  "c \<notin> set s \<Longrightarrow> c \<notin> set t \<Longrightarrow> c \<notin> set u \<Longrightarrow> c \<notin> set v \<Longrightarrow> js_split c (s @ c # t @ c # u @ c # v) = [s, t, u, v]"
  by (simp add: js_split_append js_split_no_sep)

lemma cursor_parts:
  assumes "version_text (hk_version key)" "list_all url_safe tag"
  shows "js_split (CHR ''.'') (signed_part key payload @ ''.'' @ tag) =
    [''v1'', hk_version key, base64url_encode (utf8_encode payload), tag]"
proof -
  have d: "CHR ''.'' \<notin> set (hk_version key)" "CHR ''.'' \<notin> set tag" "CHR ''.'' \<notin> set (base64url_encode (utf8_encode payload))"
    using no_dot assms base64url_safe unfolding version_text_def by blast+
  have "signed_part key payload @ ''.'' @ tag =
      ''v1'' @ CHR ''.'' # hk_version key @ CHR ''.'' # base64url_encode (utf8_encode payload) @ CHR ''.'' # tag"
    by (simp add: signed_part_def)
  then show ?thesis using split_four [of "CHR ''.''" "''v1''", OF _ d(1,3,2)] by simp
qed

lemma signed_part_join: "js_join ''.'' [''v1'', hk_version key, base64url_encode (utf8_encode payload)] = signed_part key payload"
  by (simp add: signed_part_def)

text \<open>What a cursor with a correctly formed signed part decodes to, whatever its tag.\<close>

lemma decode_signed:
  assumes "validateKeys keys = Inr ()" "key \<in> set (configured_keys keys)" "list_all url_safe tag"
  shows "decodeCursor z mac keys slotId (signed_part key payload @ ''.'' @ tag) =
    (if base64url_decode tag \<noteq> cursorSignature mac key (signed_part key payload) then Inl invalidCursor
     else read_payload z slotId (base64url_encode (utf8_encode payload)))"
proof -
  note v = valid_keys_versions [OF assms(1)]
  have p: "js_split (CHR ''.'') (signed_part key payload @ ''.'' @ tag) =
      [''v1'', hk_version key, base64url_encode (utf8_encode payload), tag]"
    by (rule cursor_parts) (use v(1) assms(2,3) in auto)
  have j: "js_join ''.'' (take 3 [''v1'', hk_version key, base64url_encode (utf8_encode payload), tag]) = signed_part key payload"
    using signed_part_join by simp
  show ?thesis unfolding decodeCursor_def p Let_def j using v(2) [OF assms(2)] by simp
qed

definition cursor_position :: "zod \<Rightarrow> leaderboard_position \<Rightarrow> bool" where
  "cursor_position z p \<longleftrightarrow> z_uuid z (lp_attemptId p) \<and> in_range (lp_level p) 0 4 \<and> in_range (lp_wrong p) 0 15 \<and>
     is_safe_integer (lp_elapsed p) \<and> 0 \<le> js_floor (lp_elapsed p)"

lemma safe_number: "is_safe_integer n \<Longrightarrow> \<exists>i. n = int_number i \<and> js_floor n = i \<and> is_safe_int i"
  by (cases n) (auto simp: is_safe_integer_def is_integer_iff int_number_def)

lemma payload_schema:
  assumes "validSlotId slotId" "cursor_position z p"
  shows "leaderboardCursorPayloadSchema z (cursor_payload slotId p) = Some (slotId, p)"
proof -
  obtain a b c where n: "lp_level p = int_number a" "lp_wrong p = int_number b" "lp_elapsed p = int_number c" "is_safe_int c"
    using assms(2) safe_number by (metis cursor_position_def in_range_def)
  have J: "Number (int_number i) = JInt i" for i by (simp add: JInt_def int_number_def)
  have r: "0 \<le> a" "a \<le> 4" "0 \<le> b" "b \<le> 15" "0 \<le> c" "z_uuid z (lp_attemptId p)"
    using assms(2) by (simp_all add: cursor_position_def in_range_def n)
  have p: "p = \<lparr>lp_attemptId = lp_attemptId p, lp_elapsed = int_number c, lp_level = int_number a, lp_wrong = int_number b\<rparr>"
    by (rule leaderboard_position.equality) (simp_all add: n)
  have "leaderboardCursorPayloadSchema z (cursor_payload slotId p) =
      Some (slotId, \<lparr>lp_attemptId = lp_attemptId p, lp_elapsed = int_number c, lp_level = int_number a, lp_wrong = int_number b\<rparr>)"
    using assms(1) n(4) r
    by (simp add: leaderboardCursorPayloadSchema_def cursor_payload_def strict_object_def n J safeNonNegativeIntegerSchema_def is_safe_int_def)
  then show ?thesis using p by simp
qed

lemma plain_payload: "cursor_position z p \<Longrightarrow> plain (cursor_payload slotId p) \<and> unique_fields (cursor_payload slotId p)"
proof -
  assume "cursor_position z p"
  then have "is_safe_integer (lp_level p)" "is_safe_integer (lp_wrong p)" "is_safe_integer (lp_elapsed p)"
    by (simp_all add: cursor_position_def in_range_def)
  moreover have "plain (JInt 1)" by code_simp
  ultimately show ?thesis by (simp add: cursor_payload_def JInt_def)
qed

lemma read_payload_position:
  assumes "validSlotId slotId" "cursor_position z p"
  shows "\<exists>t. json_text (cursor_payload slotId p) = Some t \<and>
    (\<forall>s. read_payload z s (base64url_encode (utf8_encode t)) = (if s = slotId then Inr p else Inl invalidCursor))"
proof -
  obtain t where t: "json_text (cursor_payload slotId p) = Some t" "JSON_parse t = Inr (cursor_payload slotId p)"
    using JSON_round_trip plain_payload [OF assms(2), of slotId] by blast
  then show ?thesis using payload_schema [OF assms] by (intro exI [of _ t]) (simp add: read_payload_def)
qed

text \<open>Property C18. A cursor the server issues is read back, by a server that still knows the key it was signed with, as exactly
  the position it stands for, and only for its own day. A text with the same signed part is accepted only with the same
  signature.\<close>

theorem cursors_are_read_back:
  assumes "validateKeys keys = Inr ()" "validateKeys keys' = Inr ()" "ks_active keys \<in> set (configured_keys keys')"
    "validSlotId slotId" "cursor_position z p"
  shows "\<exists>authenticated tag. encodeCursor mac keys slotId p = Some (authenticated @ ''.'' @ tag) \<and>
    (\<forall>day. decodeCursor z mac keys' day (authenticated @ ''.'' @ tag) = (if day = slotId then Inr p else Inl invalidCursor)) \<and>
    (\<forall>day tag'. list_all url_safe tag' \<and> base64url_decode tag' \<noteq> base64url_decode tag \<longrightarrow>
       decodeCursor z mac keys' day (authenticated @ ''.'' @ tag') = Inl invalidCursor)"
proof -
  obtain t where t: "json_text (cursor_payload slotId p) = Some t"
    "\<And>s. read_payload z s (base64url_encode (utf8_encode t)) = (if s = slotId then Inr p else Inl invalidCursor)"
    using read_payload_position [OF assms(4,5)] by blast
  let ?a = "signed_part (ks_active keys) t"
  let ?tag = "base64url_encode (cursorSignature mac (ks_active keys) ?a)"
  have "encodeCursor mac keys slotId p = Some (?a @ ''.'' @ ?tag)" by (simp add: encodeCursor_def t(1) Let_def)
  moreover have "decodeCursor z mac keys' day (?a @ ''.'' @ ?tag) = (if day = slotId then Inr p else Inl invalidCursor)" for day
    using decode_signed [OF assms(2,3) base64url_safe] t(2) by simp
  moreover have "decodeCursor z mac keys' day (?a @ ''.'' @ tag') = Inl invalidCursor"
    if "list_all url_safe tag'" "base64url_decode tag' \<noteq> base64url_decode ?tag" for day tag'
    using decode_signed [OF assms(2,3) that(1)] that(2) by simp
  ultimately show ?thesis by blast
qed

section \<open>Following the cursors\<close>

fun browse ::
  "nat \<Rightarrow> zod \<Rightarrow> hmac \<Rightarrow> cursor_keys \<Rightarrow> auth_session option \<Rightarrow> string \<Rightarrow> string option \<Rightarrow> string option \<Rightarrow> game_db \<Rightarrow>
   reporting_error + leaderboard_item list" where
  "browse 0 z mac keys identity slotId limit cursor db = Inl (Threw (JsError ''out of fuel''))"
| "browse (Suc n) z mac keys identity slotId limit cursor db =
    bindE (getLeaderboard z mac keys identity slotId limit cursor db) (\<lambda>b. case lb_nextCursor b of
        None \<Rightarrow> Inr (lb_items b)
      | Some c \<Rightarrow> bindE (browse n z mac keys identity slotId limit (Some c) db) (\<lambda>rest. Inr (lb_items b @ rest)))"

text \<open>The cursor that leads to the rows from the \<open>k\<close>-th on.\<close>

definition cursor_after :: "hmac \<Rightarrow> cursor_keys \<Rightarrow> string \<Rightarrow> js_number \<Rightarrow> game_db \<Rightarrow> nat \<Rightarrow> string option" where
  "cursor_after mac keys slotId limit db k =
    Option.bind (pr_cursor (request_after slotId limit db k)) (encodeCursor mac keys slotId)"

lemma position_after:
  assumes "pageable slotId limit db" "list_all (\<lambda>e. z_uuid z (le_attempt e)) (day_entries slotId db)" "k \<le> length (day_entries slotId db)" "0 < k"
  shows "\<exists>p. pr_cursor (request_after slotId limit db k) = Some p \<and> cursor_position z p"
proof -
  let ?e = "day_entries slotId db ! (k - 1)"
  have k: "k - 1 < length (day_entries slotId db)" using assms(3,4) by simp
  then obtain r where r: "ranked_entries slotId db ! (k - 1) = (?e, r)" using ranked_pair by blast
  have "cursor_entry ?e" "z_uuid z (le_attempt ?e)" using pageable_entry [OF assms(1) k] assms(2) k by (simp_all add: list_all_length)
  then have "cursor_position z (position_of (projectRow (?e, r)))"
    by (simp add: cursor_position_def position_of_def projectRow_def cursor_entry_def in_range_def is_safe_int_def MAX_SAFE_INTEGER_def)
  then show ?thesis using assms(4) unfolding request_after_def r [symmetric] by simp
qed

lemma getLeaderboard_after:
  assumes "validateKeys keys = Inr ()" "pageable slotId (limit_number limit) db"
    "list_all (\<lambda>e. z_uuid z (le_attempt e)) (day_entries slotId db)" "k \<le> length (day_entries slotId db)"
  shows "getLeaderboard z mac keys (Some actor) slotId limit (cursor_after mac keys slotId (limit_number limit) db k) db =
    page_answer mac keys slotId (readDailyLeaderboardPage (request_after slotId (limit_number limit) db k) db)"
proof (cases "k = 0")
  case True
  then show ?thesis by (simp add: getLeaderboard_def cursor_after_def request_after_def)
next
  case False
  then obtain p where p: "pr_cursor (request_after slotId (limit_number limit) db k) = Some p" "cursor_position z p"
    using position_after [OF assms(2,3,4)] by blast
  have slot: "validSlotId slotId" using assms(2) by (simp add: pageable_def)
  have self: "ks_active keys \<in> set (configured_keys keys)" by (simp add: configured_cases)
  obtain t where t: "json_text (cursor_payload slotId p) = Some t"
    "\<And>s. read_payload z s (base64url_encode (utf8_encode t)) = (if s = slotId then Inr p else Inl invalidCursor)"
    using read_payload_position [OF slot p(2)] by blast
  let ?a = "signed_part (ks_active keys) t"
  let ?c = "?a @ ''.'' @ base64url_encode (cursorSignature mac (ks_active keys) ?a)"
  have "cursor_after mac keys slotId (limit_number limit) db k = Some ?c"
    by (simp add: cursor_after_def p(1) encodeCursor_def t(1) Let_def)
  moreover have "decodeCursor z mac keys slotId ?c = Inr p"
    using decode_signed [OF assms(1) self base64url_safe] t(2) by simp
  moreover have "\<lparr>pr_cursor = Some p, pr_limit = limit_number limit, pr_slot = slotId\<rparr> = request_after slotId (limit_number limit) db k"
    using p(1) by (simp add: request_after_def)
  ultimately show ?thesis by (simp add: getLeaderboard_def)
qed

lemma browse_after:
  assumes "validateKeys keys = Inr ()" "pageable slotId (limit_number limit) db"
    "list_all (\<lambda>e. z_uuid z (le_attempt e)) (day_entries slotId db)"
    "k \<le> length (day_entries slotId db)" "length (day_entries slotId db) < k + fuel"
  shows "browse fuel z mac keys (Some actor) slotId limit (cursor_after mac keys slotId (limit_number limit) db k) db =
    Inr (map projectRow (drop k (ranked_entries slotId db)))"
  using assms(4,5)
proof (induction fuel arbitrary: k)
  case 0
  then show ?case by simp
next
  case (Suc fuel)
  let ?R = "ranked_entries slotId db" and ?n = "nat (js_floor (limit_number limit))"
  have n: "0 < ?n" using assms(2) by (simp add: pageable_def in_range_def)
  note page = getLeaderboard_after [OF assms(1,2,3) Suc.prems(1), where mac = mac and actor = actor] page_after [OF assms(2) Suc.prems(1)]
  show ?case
  proof (cases "k + ?n < length ?R")
    case False
    then show ?thesis by (simp add: page page_answer_def)
  next
    case True
    then obtain p where p: "pr_cursor (request_after slotId (limit_number limit) db (k + ?n)) = Some p" "cursor_position z p"
      using position_after [OF assms(2,3), of "k + ?n"] n by auto
    have slot: "validSlotId slotId" using assms(2) by (simp add: pageable_def)
    obtain c where c: "encodeCursor mac keys slotId p = Some c"
      using read_payload_position [OF slot p(2)] by (auto simp: encodeCursor_def)
    have "browse fuel z mac keys (Some actor) slotId limit (cursor_after mac keys slotId (limit_number limit) db (k + ?n)) db =
        Inr (map projectRow (drop (k + ?n) ?R))"
      using Suc.prems n True by (intro Suc.IH) auto
    then have "browse fuel z mac keys (Some actor) slotId limit (Some c) db = Inr (map projectRow (drop (k + ?n) ?R))"
      by (simp add: cursor_after_def p(1) c)
    moreover have "take ?n (drop k ?R) @ drop (k + ?n) ?R = drop k ?R"
      by (metis add.commute append_take_drop_id drop_drop)
    ultimately show ?thesis using True p(1) c
      by (simp add: page page_answer_def flip: map_append)
  qed
qed

text \<open>Property C17. A signed-in player who follows the cursors of a day's leaderboard from the first page, each as the handler
  returned it, gets every row exactly once, in order and with its rank, and then the end, whatever the page size between 1
  and 100.\<close>

theorem browsing_covers_the_leaderboard:
  assumes "validateKeys keys = Inr ()" "pageable slotId (limit_number limit) db"
    "list_all (\<lambda>e. z_uuid z (le_attempt e)) (day_entries slotId db)" "length (day_entries slotId db) \<le> fuel"
  shows "browse (Suc fuel) z mac keys (Some actor) slotId limit None db = Inr (map projectRow (ranked_entries slotId db))"
  using browse_after [OF assms(1,2,3), of 0 "Suc fuel"] assms(4) by (simp add: cursor_after_def request_after_def)

definition sample_cursor_keys :: cursor_keys where
  "sample_cursor_keys = \<lparr>ks_active = \<lparr>hk_version = ''k2'', hk_key = replicate 32 2\<rparr>,
     ks_previous = Some \<lparr>hk_version = ''k1'', hk_key = replicate 32 1\<rparr>\<rparr>"

definition retired_cursor_keys :: cursor_keys where
  "retired_cursor_keys = \<lparr>ks_active = \<lparr>hk_version = ''k1'', hk_key = replicate 32 1\<rparr>, ks_previous = None\<rparr>"

definition sample_position :: leaderboard_position where
  "sample_position = \<lparr>lp_attemptId = ''a'', lp_elapsed = int_number 5, lp_level = int_number 1, lp_wrong = int_number 2\<rparr>"

theorem cursors_are_read_back_witness:
  "\<exists>c. encodeCursor (\<lambda>k m. k) retired_cursor_keys ''1970-01-01'' sample_position = Some c \<and>
     decodeCursor any_zod (\<lambda>k m. k) sample_cursor_keys ''1970-01-01'' c = Inr sample_position \<and>
     decodeCursor any_zod (\<lambda>k m. k) sample_cursor_keys ''1970-01-02'' c = Inl invalidCursor"
proof -
  have "validateKeys retired_cursor_keys = Inr ()" "validateKeys sample_cursor_keys = Inr ()"
    "ks_active retired_cursor_keys \<in> set (configured_keys sample_cursor_keys)" by code_simp+
  moreover have "validSlotId ''1970-01-01''" by code_simp
  moreover have "cursor_position any_zod sample_position"
    by (simp add: cursor_position_def sample_position_def in_range_def any_zod_def is_safe_int_def MAX_SAFE_INTEGER_def)
  ultimately show ?thesis using cursors_are_read_back [where mac = "\<lambda>k m. k"] by fastforce
qed

theorem browsing_covers_the_leaderboard_witness:
  "\<forall>actor. browse 4 any_zod (\<lambda>k m. k) sample_cursor_keys (Some actor) ''1970-01-01'' (Some ''2'') None small_board =
    Inr (map projectRow (ranked_entries ''1970-01-01'' small_board))"
proof -
  have h: "validateKeys sample_cursor_keys = Inr ()" "pageable ''1970-01-01'' (limit_number (Some ''2'')) small_board"
    "list_all (\<lambda>e. z_uuid any_zod (le_attempt e)) (day_entries ''1970-01-01'' small_board)"
    "length (day_entries ''1970-01-01'' small_board) \<le> 3" by code_simp+
  show ?thesis using browsing_covers_the_leaderboard [OF h] by simp
qed

end
