(* ===== verification/Secret_File.thy ===== *)
theory Secret_File
  imports Base64url
begin

text \<open>
  Secrets in files (\<^verbatim>\<open>packages/config/src/secret-file.ts\<close>). An environment is the list of its variables; the file system is
  what \<^verbatim>\<open>lstat\<close>, opening with \<^verbatim>\<open>O_NOFOLLOW\<close> and \<^verbatim>\<open>fstat\<close>, and reading answer for a path (\<open>None\<close> when they throw).
  Results: a secret is read only from an absolute path without symbolic links, from a regular file that is read-only and belongs
  to the process or to root; the texts of secrets have characters below 256.
\<close>

type_synonym environment = "(string \<times> string) list"

record file_status =
  ft_isFile :: bool
  ft_isSymbolicLink :: bool
  ft_dev :: int
  ft_ino :: int
  ft_size :: int
  ft_mode :: int
  ft_uid :: int

record secret_fs =
  sf_lstat :: "string \<Rightarrow> file_status option"
  sf_open :: "string \<Rightarrow> file_status option"
  sf_bytes :: "string \<Rightarrow> byte list option"
  sf_win32 :: bool
  sf_uid :: int

definition MAXIMUM_SECRET_BYTES :: int where
  "MAXIMUM_SECRET_BYTES = 4096"

text \<open>The permissions \<^verbatim>\<open>0o400\<close>, \<^verbatim>\<open>0o440\<close> and \<^verbatim>\<open>0o444\<close>.\<close>

definition READ_ONLY_MODES :: "int set" where
  "READ_ONLY_MODES = {256, 288, 292}"

definition absolute_path :: "string \<Rightarrow> bool" where
  "absolute_path path \<longleftrightarrow> (case path of [] \<Rightarrow> False | c # _ \<Rightarrow> c = CHR ''/'')"

text \<open>\<^verbatim>\<open>dirname\<close> on POSIX: trailing slashes are dropped, then the last part, and one slash before it.\<close>

definition dirname :: "string \<Rightarrow> string" where
  "dirname path =
    (case path of [] \<Rightarrow> ''.''
     | c # body \<Rightarrow> (case dropWhile (\<lambda>x. x \<noteq> CHR ''/'') (dropWhile (\<lambda>x. x = CHR ''/'') (rev body)) of
         [] \<Rightarrow> if c = CHR ''/'' then ''/'' else ''.''
       | [_] \<Rightarrow> if c = CHR ''/'' then ''//'' else [c]
       | _ # rest \<Rightarrow> c # rev rest))"

text \<open>The loop over the directories above the file, of an absolute path: none of them is a symbolic link. Each step
  shortens the path, so as many steps as it has characters are enough.\<close>

fun directories_are_real :: "nat \<Rightarrow> secret_fs \<Rightarrow> string \<Rightarrow> bool" where
  "directories_are_real 0 fs parent = False"
| "directories_are_real (Suc n) fs parent =
     (if parent = ''/'' then True
      else (case sf_lstat fs parent of
          None \<Rightarrow> False
        | Some s \<Rightarrow> \<not> ft_isSymbolicLink s \<and> directories_are_real n fs (dirname parent)))"

definition same_file :: "file_status \<Rightarrow> file_status \<Rightarrow> bool" where
  "same_file opened before \<longleftrightarrow> ft_isFile opened \<and> ft_dev opened = ft_dev before \<and> ft_ino opened = ft_ino before \<and>
     ft_size opened \<noteq> 0 \<and> ft_size opened \<le> MAXIMUM_SECRET_BYTES"

definition protected_file :: "secret_fs \<Rightarrow> file_status \<Rightarrow> bool" where
  "protected_file fs opened \<longleftrightarrow> sf_win32 fs \<or> ft_mode opened mod 512 \<in> READ_ONLY_MODES \<and> (ft_uid opened = 0 \<or> ft_uid opened = sf_uid fs)"

definition readSecret :: "secret_fs \<Rightarrow> string \<Rightarrow> string \<Rightarrow> string + string" where
  "readSecret fs path field =
    (if path = [] \<or> 4096 < length path \<or> js_trim path \<noteq> path \<or> CHR 0x00 \<in> set path \<or> \<not> absolute_path path then Inl field
     else if \<not> directories_are_real (Suc (length path)) fs (dirname path) then Inl field
     else (case (sf_lstat fs path, sf_open fs path, sf_bytes fs path) of
         (Some before, Some opened, Some bytes) \<Rightarrow>
           if \<not> ft_isFile before \<or> ft_isSymbolicLink before \<or> \<not> same_file opened before \<or> \<not> protected_file fs opened \<or>
              int (length bytes) \<noteq> ft_size opened \<or> 0 \<in> set bytes then Inl field
           else (case text_decode bytes of
               Inl e \<Rightarrow> Inl field
             | Inr v \<Rightarrow> if js_trim v \<noteq> v \<or> v = [] then Inl field else Inr v)
       | _ \<Rightarrow> Inl field))"

definition file_key :: "string \<Rightarrow> string" where
  "file_key key = key @ ''_FILE''"

fun resolve_secrets :: "secret_fs \<Rightarrow> environment \<Rightarrow> environment \<Rightarrow> string list \<Rightarrow> string + environment" where
  "resolve_secrets fs original resolved [] = Inr resolved"
| "resolve_secrets fs original resolved (key # keys) =
     (case map_of original (file_key key) of
        None \<Rightarrow> resolve_secrets fs original resolved keys
      | Some path \<Rightarrow>
          if map_of original key \<noteq> None then Inl (file_key key)
          else bindE (readSecret fs path (file_key key)) (\<lambda>v.
            resolve_secrets fs original (AList.delete (file_key key) (AList.update key v resolved)) keys))"

definition resolveFileSecrets :: "secret_fs \<Rightarrow> environment \<Rightarrow> string list \<Rightarrow> string + environment" where
  "resolveFileSecrets fs env keys = resolve_secrets fs env env keys"

datatype server_mode = Local_Mode | Production

definition requireFilesInProduction :: "environment \<Rightarrow> server_mode \<Rightarrow> string list \<Rightarrow> string + unit" where
  "requireFilesInProduction original mode keys =
    (if mode \<noteq> Production then Inr ()
     else (case find (\<lambda>key. map_of original key \<noteq> None) keys of None \<Rightarrow> Inr () | Some key \<Rightarrow> Inl (file_key key)))"

section \<open>What is read\<close>

lemma dropWhile_le: "length (dropWhile p xs) \<le> length xs"
  by (rule length_dropWhile_le)

text \<open>The directory of a longer absolute path is an absolute path and shorter, so the loop ends at the root.\<close>

lemma dirname_shorter:
  assumes "absolute_path path" "1 < length path"
  shows "absolute_path (dirname path)" "length (dirname path) < length path"
proof -
  obtain body where p: "path = CHR ''/'' # body" "body \<noteq> []" using assms by (cases path) (auto simp: absolute_path_def)
  let ?r = "dropWhile (\<lambda>x. x \<noteq> CHR ''/'') (dropWhile (\<lambda>x. x = CHR ''/'') (rev body))"
  have l: "length ?r \<le> length (dropWhile (\<lambda>x. x = CHR ''/'') (rev body))" by (rule dropWhile_le)
  have l2: "length (dropWhile (\<lambda>x. x = CHR ''/'') (rev body)) \<le> length body" using dropWhile_le [of _ "rev body"] by simp
  have two: "2 \<le> length body" if "?r = [a]" for a
  proof (rule ccontr)
    assume "\<not> 2 \<le> length body"
    then obtain b where b: "body = [b]" using p(2) by (cases body) (auto simp: Suc_le_eq)
    then show False using that by (auto split: if_splits)
  qed
  show "absolute_path (dirname path)" "length (dirname path) < length path"
    using l l2 p(2) two by (auto simp: p(1) dirname_def absolute_path_def split: list.split)
qed

lemma directories_fuel:
  "absolute_path path \<Longrightarrow> length path < n \<Longrightarrow> length path < m \<Longrightarrow> directories_are_real n fs path = directories_are_real m fs path"
proof (induction n arbitrary: path m)
  case (Suc n)
  then obtain k where m: "m = Suc k" by (cases m) auto
  show ?case
  proof (cases "path = ''/''")
    case False
    then have "1 < length path" using Suc.prems(1) by (cases path; cases "tl path") (auto simp: absolute_path_def)
    then have "directories_are_real n fs (dirname path) = directories_are_real k fs (dirname path)"
      using Suc.prems m dirname_shorter [OF Suc.prems(1)] by (intro Suc.IH) auto
    then show ?thesis using m by (auto split: option.split)
  qed (simp add: m)
qed simp

text \<open>The directories above a path.\<close>

lemma directories_checked:
  assumes "absolute_path path" "length path < n"
  shows "directories_are_real n fs path \<longleftrightarrow>
    path = ''/'' \<or> (\<exists>s. sf_lstat fs path = Some s \<and> \<not> ft_isSymbolicLink s) \<and> directories_are_real n fs (dirname path)"
proof (cases "path = ''/''")
  case False
  obtain k where n: "n = Suc k" using assms(2) by (cases n) auto
  have "1 < length path" using False assms(1) by (cases path; cases "tl path") (auto simp: absolute_path_def)
  note d = dirname_shorter [OF assms(1) this]
  have "directories_are_real k fs (dirname path) = directories_are_real n fs (dirname path)"
    using d assms(2) n by (intro directories_fuel) auto
  then show ?thesis using False n by (auto split: option.split)
qed (use assms(2) in \<open>cases n; simp\<close>)

lemma secret_is_protected:
  assumes "readSecret fs path field = Inr v"
  shows "absolute_path path \<and> directories_are_real (Suc (length path)) fs (dirname path) \<and> v \<noteq> [] \<and> js_trim v = v \<and>
    (\<exists>before opened bytes. sf_lstat fs path = Some before \<and> ft_isFile before \<and> \<not> ft_isSymbolicLink before \<and>
       sf_open fs path = Some opened \<and> same_file opened before \<and> protected_file fs opened \<and>
       sf_bytes fs path = Some bytes \<and> length bytes \<le> 4096 \<and> text_decode bytes = Inr v)"
proof -
  have a: "\<not> (path = [] \<or> 4096 < length path \<or> js_trim path \<noteq> path \<or> CHR 0x00 \<in> set path \<or> \<not> absolute_path path)"
    "directories_are_real (Suc (length path)) fs (dirname path)"
    using assms by (auto simp: readSecret_def simp del: directories_are_real.simps split: if_splits)
  obtain before opened bytes where f: "sf_lstat fs path = Some before" "sf_open fs path = Some opened" "sf_bytes fs path = Some bytes"
    using assms a by (auto simp: readSecret_def simp del: directories_are_real.simps split: if_splits option.splits)
  have "ft_isFile before \<and> \<not> ft_isSymbolicLink before \<and> same_file opened before \<and> protected_file fs opened \<and>
      int (length bytes) = ft_size opened \<and> text_decode bytes = Inr v \<and> js_trim v = v \<and> v \<noteq> []"
    using assms a f by (auto simp: readSecret_def simp del: directories_are_real.simps split: if_splits sum.splits)
  moreover from this have "length bytes \<le> 4096" by (auto simp: same_file_def MAXIMUM_SECRET_BYTES_def)
  ultimately show ?thesis using a f by blast
qed

text \<open>In a resolved environment a secret comes from the variable itself or from a protected file.\<close>

definition from_file :: "secret_fs \<Rightarrow> environment \<Rightarrow> string \<Rightarrow> string \<Rightarrow> bool" where
  "from_file fs env key v \<longleftrightarrow> (\<exists>path. map_of env (file_key key) = Some path \<and> readSecret fs path (file_key key) = Inr v)"

lemma file_key_inject [simp]: "file_key a = file_key b \<longleftrightarrow> a = b"
  by (simp add: file_key_def)

lemma file_key_other [simp]: "file_key a \<noteq> a" "a \<noteq> file_key a"
  by (simp_all add: file_key_def)

lemma map_of_delete: "map_of (AList.delete k m) = (map_of m)(k := None)"
  by (rule delete_conv')

lemma resolved_keys:
  assumes "resolve_secrets fs original resolved keys = Inr env'" "k \<notin> set keys" "k \<notin> file_key ` set keys"
  shows "map_of env' k = map_of resolved k"
  using assms
proof (induction keys arbitrary: resolved)
  case (Cons key keys)
  then show ?case
    by (auto simp: bindE_eq_Inr map_of_delete update_conv' split: option.splits if_splits)
qed simp

lemma resolved_secret:
  assumes "resolve_secrets fs original resolved keys = Inr env'" "distinct keys" "k \<in> set keys"
    "\<forall>a \<in> set keys. \<forall>b \<in> set keys. a \<noteq> file_key b" "map_of resolved k = map_of original k"
  shows "map_of env' k = (case map_of original (file_key k) of None \<Rightarrow> map_of original k | Some path \<Rightarrow>
      (case readSecret fs path (file_key k) of Inr v \<Rightarrow> Some v | Inl e \<Rightarrow> None)) \<and>
    (map_of original (file_key k) \<noteq> None \<longrightarrow> map_of original k = None \<and> (\<exists>v. from_file fs original k v))"
  using assms
proof (induction keys arbitrary: resolved)
  case (Cons key keys)
  show ?case
  proof (cases "k = key")
    case True
    have out: "k \<notin> set keys" "k \<notin> file_key ` set keys" using Cons.prems True by auto
    show ?thesis
    proof (cases "map_of original (file_key k)")
      case None
      then show ?thesis using Cons.prems(1,5) resolved_keys [OF _ out] True by auto
    next
      case (Some path)
      then obtain v where v: "map_of original k = None" "readSecret fs path (file_key k) = Inr v"
        "resolve_secrets fs original (AList.delete (file_key k) (AList.update k v resolved)) keys = Inr env'"
        using Cons.prems(1) True by (auto simp: bindE_eq_Inr split: if_splits)
      then show ?thesis using resolved_keys [OF v(3) out] Some by (auto simp: map_of_delete update_conv' from_file_def)
    qed
  next
    case False
    then have k: "k \<in> set keys" using Cons.prems(3) by simp
    have "k \<noteq> file_key key" using Cons.prems(4) k by auto
    show ?thesis
    proof (cases "map_of original (file_key key)")
      case None
      then show ?thesis using Cons k by auto
    next
      case (Some path)
      then obtain v where v: "resolve_secrets fs original (AList.delete (file_key key) (AList.update key v resolved)) keys = Inr env'"
        using Cons.prems(1) by (auto simp: bindE_eq_Inr split: if_splits)
      have "map_of (AList.delete (file_key key) (AList.update key v resolved)) k = map_of original k"
        using Cons.prems(5) False \<open>k \<noteq> file_key key\<close> by (simp add: map_of_delete update_conv')
      then show ?thesis using Cons.IH [OF v] Cons.prems(2,4) k by simp
    qed
  qed
qed simp

text \<open>Where secrets must be in files, the value of a secret was read from one.\<close>

lemma file_secret:
  assumes "resolveFileSecrets fs env keys = Inr env'" "requireFilesInProduction env Production keys = Inr ()"
    "distinct keys" "\<forall>a \<in> set keys. \<forall>b \<in> set keys. a \<noteq> file_key b" "key \<in> set keys" "map_of env' key = Some v"
  shows "map_of env key = None \<and> from_file fs env key v"
proof -
  have none: "map_of env key = None"
    using assms(2,5) by (auto simp: requireFilesInProduction_def find_None_iff split: option.splits)
  moreover have "map_of env' key = (case map_of env (file_key key) of None \<Rightarrow> map_of env key | Some path \<Rightarrow>
      (case readSecret fs path (file_key key) of Inr v \<Rightarrow> Some v | Inl e \<Rightarrow> None))"
    using resolved_secret [OF assms(1) [unfolded resolveFileSecrets_def] assms(3,5,4)] by simp
  ultimately show ?thesis using assms(6) by (auto simp: from_file_def split: option.splits sum.splits)
qed

end
