(* ===== verification/Server_Config.thy ===== *)
theory Server_Config
  imports Secret_File Reporting Admission
begin

text \<open>
  The configuration of the API server (\<^verbatim>\<open>packages/config/src/index.ts\<close>): from the environment to a configuration, or to the
  sorted names of the variables that are wrong. Parsing functions return the names they report with what they read.
  Arguments: the file system of the secrets, \<open>cl_url\<close> (the URL parser, \<open>None\<close> when it throws) and \<open>cl_ip6\<close> (\<^verbatim>\<open>isIP(text) === 6\<close>).

  Results: a configuration that is accepted is one the server can be run with: its cursor keys pass the check of the routes, its
  timeouts are nested, and in production secrets come from protected files only, the origin is \<^verbatim>\<open>https\<close> and the cookies are
  \<^verbatim>\<open>Secure\<close> with the \<^verbatim>\<open>__Host-\<close> prefix; a configuration that is refused names at least one variable.
\<close>

section \<open>The library\<close>

record url =
  ur_protocol :: string
  ur_username :: string
  ur_password :: string
  ur_hostname :: string
  ur_port :: string
  ur_pathname :: string
  ur_search :: string
  ur_hash :: string
  ur_origin :: string

record config_lib =
  cl_fs :: secret_fs
  cl_url :: "string \<Rightarrow> url option"
  cl_ip6 :: "string \<Rightarrow> bool"

section \<open>The configuration\<close>

record trusted_proxy =
  xp_address :: string
  xp_prefixLength :: int
  xp_version :: int

record server_configuration =
  sc_mode :: server_mode
  sc_databaseUrl :: string
  sc_origin :: string
  sc_port :: int
  sc_listenHost :: string
  sc_trustedProxies :: "trusted_proxy list"
  sc_sessionCookie :: cookie_config
  sc_csrfCookie :: cookie_config
  sc_commandMs :: int
  sc_lockMs :: int
  sc_statementMs :: int
  sc_active :: hmac_key
  sc_previous :: "hmac_key option"
  sc_previousGraceSeconds :: int
  sc_guestCapacity :: int
  sc_ipCapacity :: int

text \<open>The constants of the limiter and of the session.\<close>

definition limiter_constants :: "(string \<times> int) list" where
  "limiter_constants = [(''windowMs'', 60000), (''mutationsPerGuest'', 30), (''mutationsPerIp'', 120), (''autocompletePerGuest'', 120),
     (''autocompletePerIp'', 300), (''sessionCreationsPerIp'', 10)]"

definition SESSION_ABSOLUTE_TTL_DAYS :: int where
  "SESSION_ABSOLUTE_TTL_DAYS = 30"

definition ENVIRONMENT_KEYS :: "string list" where
  "ENVIRONMENT_KEYS = [''LOREMASTER_API_MODE'', ''LOREMASTER_API_LISTEN_HOST'', ''DATABASE_URL'', ''DATABASE_URL_FILE'',
     ''LOREMASTER_API_ORIGIN'', ''LOREMASTER_API_TRUSTED_PROXIES'', ''PORT'', ''LOREMASTER_API_SESSION_COOKIE_NAME'',
     ''LOREMASTER_API_CSRF_COOKIE_NAME'', ''LOREMASTER_API_COMMAND_TIMEOUT_MS'', ''LOREMASTER_API_LOCK_TIMEOUT_MS'',
     ''LOREMASTER_API_STATEMENT_TIMEOUT_MS'', ''LOREMASTER_API_CURSOR_ACTIVE_VERSION'', ''LOREMASTER_API_CURSOR_ACTIVE_KEY'',
     ''LOREMASTER_API_CURSOR_ACTIVE_KEY_FILE'', ''LOREMASTER_API_CURSOR_PREVIOUS_VERSION'', ''LOREMASTER_API_CURSOR_PREVIOUS_KEY'',
     ''LOREMASTER_API_CURSOR_PREVIOUS_KEY_FILE'', ''LOREMASTER_API_CURSOR_PREVIOUS_GRACE_SECONDS'',
     ''LOREMASTER_API_LIMITER_GUEST_CAPACITY'', ''LOREMASTER_API_LIMITER_IP_CAPACITY'']"

definition SECRET_KEYS :: "string list" where
  "SECRET_KEYS = [''DATABASE_URL'', ''LOREMASTER_API_CURSOR_ACTIVE_KEY'', ''LOREMASTER_API_CURSOR_PREVIOUS_KEY'']"

definition configuration_error :: "string list \<Rightarrow> string list" where
  "configuration_error wrong = sort (remdups wrong)"

section \<open>Parsing\<close>

type_synonym 'a parsed = "string list \<times> 'a"

definition report :: "bool \<Rightarrow> string list \<Rightarrow> string list" where
  "report b wrong = (if b then wrong else [])"

definition required :: "environment \<Rightarrow> string \<Rightarrow> string parsed" where
  "required env key =
    (case map_of env key of
       None \<Rightarrow> ([key], [])
     | Some v \<Rightarrow> if v = [] then ([key], []) else (report (js_trim v \<noteq> v) [key], v))"

definition exactInteger :: "environment \<Rightarrow> string \<Rightarrow> int \<Rightarrow> int \<Rightarrow> int \<Rightarrow> int parsed" where
  "exactInteger env key fallback minimum maximum =
    (case map_of env key of
       None \<Rightarrow> ([], fallback)
     | Some raw \<Rightarrow>
         if \<not> decimal_form raw then ([key], fallback)
         else let n = digits_value raw
           in if MAX_SAFE_INTEGER < n \<or> n < minimum \<or> maximum < n then ([key], fallback) else ([], n))"

definition fixedInteger :: "environment \<Rightarrow> string \<Rightarrow> int \<Rightarrow> int parsed" where
  "fixedInteger env key expected = exactInteger env key expected expected expected"

definition parseOrigin :: "config_lib \<Rightarrow> string \<Rightarrow> server_mode \<Rightarrow> string parsed" where
  "parseOrigin lib raw mode =
    (case cl_url lib raw of
       None \<Rightarrow> ([''LOREMASTER_API_ORIGIN''], raw)
     | Some u \<Rightarrow>
         let isHttp = (ur_protocol u = ''http:'' \<or> ur_protocol u = ''https:'');
             isExactOrigin = (ur_username u = [] \<and> ur_password u = [] \<and> ur_pathname u = ''/'' \<and> ur_search u = [] \<and> ur_hash u = [] \<and>
               raw = ur_origin u)
         in (report (\<not> isHttp \<or> \<not> isExactOrigin \<or> mode = Production \<and> ur_protocol u \<noteq> ''https:'') [''LOREMASTER_API_ORIGIN''],
             ur_origin u))"

definition validateDatabaseUrl :: "config_lib \<Rightarrow> string \<Rightarrow> string parsed" where
  "validateDatabaseUrl lib raw =
    (case cl_url lib raw of
       None \<Rightarrow> ([''DATABASE_URL''], raw)
     | Some u \<Rightarrow> (report (ur_protocol u \<notin> {''postgres:'', ''postgresql:''} \<or> ur_hostname u = [] \<or> ur_username u = [] \<or>
         ur_password u = [] \<or> ur_pathname u = [] \<or> ur_pathname u = ''/'') [''DATABASE_URL''], raw))"

definition ip_version :: "config_lib \<Rightarrow> string \<Rightarrow> int" where
  "ip_version lib host = (if isIPv4 host then 4 else if cl_ip6 lib host then 6 else 0)"

definition parse_proxy :: "config_lib \<Rightarrow> string \<Rightarrow> trusted_proxy option" where
  "parse_proxy lib entry =
    (if entry = [] \<or> js_trim entry \<noteq> entry then None
     else (case js_split (CHR ''/'') entry of
         [host] \<Rightarrow> (let v = ip_version lib host
           in if v = 0 then None else Some \<lparr>xp_address = host, xp_prefixLength = (if v = 4 then 32 else 128), xp_version = v\<rparr>)
       | [host, bits] \<Rightarrow> (let v = ip_version lib host
           in if v = 0 \<or> \<not> decimal_form bits \<or> (if v = 4 then 32 else 128) < digits_value bits then None
              else Some \<lparr>xp_address = host, xp_prefixLength = digits_value bits, xp_version = v\<rparr>)
       | _ \<Rightarrow> None))"

fun proxy_loop :: "config_lib \<Rightarrow> (string \<times> int) list \<Rightarrow> string list \<Rightarrow> trusted_proxy list parsed" where
  "proxy_loop lib visited [] = ([], [])"
| "proxy_loop lib visited (entry # rest) =
     (case parse_proxy lib entry of
        None \<Rightarrow> (case proxy_loop lib visited rest of (es, ps) \<Rightarrow> (''LOREMASTER_API_TRUSTED_PROXIES'' # es, ps))
      | Some p \<Rightarrow>
          if (xp_address p, xp_prefixLength p) \<in> set visited
          then (case proxy_loop lib visited rest of (es, ps) \<Rightarrow> (''LOREMASTER_API_TRUSTED_PROXIES'' # es, ps))
          else (case proxy_loop lib ((xp_address p, xp_prefixLength p) # visited) rest of (es, ps) \<Rightarrow> (es, p # ps)))"

definition parseTrustedProxies :: "config_lib \<Rightarrow> string option \<Rightarrow> trusted_proxy list parsed" where
  "parseTrustedProxies lib raw =
    (case raw of None \<Rightarrow> ([], []) | Some s \<Rightarrow> if s = [] then ([], []) else proxy_loop lib [] (js_split (CHR '','') s))"

definition parseCursorKey :: "environment \<Rightarrow> string \<Rightarrow> string \<Rightarrow> bool \<Rightarrow> hmac_key option parsed" where
  "parseCursorKey env versionKey materialKey requiredKey =
    (let version = map_of env versionKey; material = map_of env materialKey
     in if version = None \<and> material = None \<and> \<not> requiredKey then ([], None)
        else
          let versionErrors = report (case version of None \<Rightarrow> True | Some v \<Rightarrow> \<not> version_text v) [versionKey]
          in (case material of
              None \<Rightarrow> (versionErrors @ [materialKey], None)
            | Some m \<Rightarrow>
                if m = [] \<or> \<not> list_all url_safe m then (versionErrors @ [materialKey], None)
                else
                  let decoded = base64url_decode m
                  in (versionErrors @ report (length decoded < 32 \<or> base64url_encode decoded \<noteq> m) [materialKey],
                      map_option (\<lambda>v. \<lparr>hk_version = v, hk_key = decoded\<rparr>) version)))"

definition cookie_name_char :: "char \<Rightarrow> bool" where
  "cookie_name_char c \<longleftrightarrow> url_safe c \<or> c \<in> set ''!#$%&*+.^`|~'' \<or> c = CHR 0x27"

definition cookie_name_text :: "string \<Rightarrow> bool" where
  "cookie_name_text s \<longleftrightarrow> s \<noteq> [] \<and> list_all cookie_name_char s"

definition config_cookie :: "string \<Rightarrow> bool \<Rightarrow> bool \<Rightarrow> cookie_config" where
  "config_cookie name secure httpOnly = \<lparr>ck_name = name, ck_path = ''/'', ck_httpOnly = httpOnly, ck_secure = secure\<rparr>"

definition or_default :: "environment \<Rightarrow> string \<Rightarrow> string \<Rightarrow> string" where
  "or_default env key fallback = (case map_of env key of None \<Rightarrow> fallback | Some v \<Rightarrow> v)"

definition expected_session_name :: "server_mode \<Rightarrow> string" where
  "expected_session_name mode = (if mode = Production then ''__Host-loremaster_session'' else ''loremaster_local_session'')"

definition expected_csrf_name :: "server_mode \<Rightarrow> string" where
  "expected_csrf_name mode = (if mode = Production then ''__Host-loremaster_csrf'' else ''loremaster_local_csrf'')"

definition starts_with :: "string \<Rightarrow> string \<Rightarrow> bool" where
  "starts_with p s \<longleftrightarrow> take (length p) s = p"

definition unknown_keys :: "environment \<Rightarrow> string list" where
  "unknown_keys env = filter (\<lambda>key. (starts_with ''LOREMASTER_API_'' key \<or> starts_with ''DATABASE_'' key) \<and> key \<notin> set ENVIRONMENT_KEYS) (map fst env)"

definition parse_mode :: "environment \<Rightarrow> server_mode parsed" where
  "parse_mode env =
    (case required env ''LOREMASTER_API_MODE'' of (es, raw) \<Rightarrow>
       (es @ report (raw \<noteq> ''local'' \<and> raw \<noteq> ''production'') [''LOREMASTER_API_MODE''],
        if raw = ''production'' then Production else Local_Mode))"

definition parse_cookie_names :: "environment \<Rightarrow> server_mode \<Rightarrow> (string \<times> string) parsed" where
  "parse_cookie_names env mode =
    (let sessionName = or_default env ''LOREMASTER_API_SESSION_COOKIE_NAME'' (expected_session_name mode);
         csrfName = or_default env ''LOREMASTER_API_CSRF_COOKIE_NAME'' (expected_csrf_name mode)
     in (report (\<not> cookie_name_text sessionName \<or> sessionName \<noteq> expected_session_name mode) [''LOREMASTER_API_SESSION_COOKIE_NAME''] @
         report (\<not> cookie_name_text csrfName \<or> csrfName \<noteq> expected_csrf_name mode) [''LOREMASTER_API_CSRF_COOKIE_NAME''] @
         report (sessionName = csrfName) [''LOREMASTER_API_SESSION_COOKIE_NAME'', ''LOREMASTER_API_CSRF_COOKIE_NAME''],
         (sessionName, csrfName)))"

definition parse_timeouts :: "environment \<Rightarrow> (int \<times> int \<times> int) parsed" where
  "parse_timeouts env =
    (case fixedInteger env ''LOREMASTER_API_COMMAND_TIMEOUT_MS'' 5000 of (e1, commandMs) \<Rightarrow>
     case fixedInteger env ''LOREMASTER_API_LOCK_TIMEOUT_MS'' 1000 of (e2, lockMs) \<Rightarrow>
     case fixedInteger env ''LOREMASTER_API_STATEMENT_TIMEOUT_MS'' 3000 of (e3, statementMs) \<Rightarrow>
       (e1 @ e2 @ e3 @ report (\<not> (lockMs < statementMs \<and> statementMs < commandMs))
          [''LOREMASTER_API_LOCK_TIMEOUT_MS'', ''LOREMASTER_API_STATEMENT_TIMEOUT_MS'', ''LOREMASTER_API_COMMAND_TIMEOUT_MS''],
        (commandMs, lockMs, statementMs)))"

definition parse_cursor_keys :: "environment \<Rightarrow> (hmac_key option \<times> hmac_key option \<times> int) parsed" where
  "parse_cursor_keys env =
    (case parseCursorKey env ''LOREMASTER_API_CURSOR_ACTIVE_VERSION'' ''LOREMASTER_API_CURSOR_ACTIVE_KEY'' True of (e1, active) \<Rightarrow>
     case parseCursorKey env ''LOREMASTER_API_CURSOR_PREVIOUS_VERSION'' ''LOREMASTER_API_CURSOR_PREVIOUS_KEY'' False of (e2, previous) \<Rightarrow>
     case fixedInteger env ''LOREMASTER_API_CURSOR_PREVIOUS_GRACE_SECONDS'' 86400 of (e3, grace) \<Rightarrow>
       (e1 @ e2 @ e3 @
        report (case (active, previous) of
            (Some a, Some p) \<Rightarrow> hk_version a = hk_version p \<or> hk_key a = hk_key p | _ \<Rightarrow> False)
          [''LOREMASTER_API_CURSOR_PREVIOUS_VERSION'', ''LOREMASTER_API_CURSOR_PREVIOUS_KEY''],
        (active, previous, grace)))"

definition parse_resolved :: "config_lib \<Rightarrow> environment \<Rightarrow> environment \<Rightarrow> string list + server_configuration" where
  "parse_resolved lib original env =
    (case parse_mode env of (e_mode, mode) \<Rightarrow>
     case required env ''DATABASE_URL'' of (e_db, rawDatabase) \<Rightarrow>
     case validateDatabaseUrl lib rawDatabase of (e_db', databaseUrl) \<Rightarrow>
     case required env ''LOREMASTER_API_ORIGIN'' of (e_origin, rawOrigin) \<Rightarrow>
     case parseOrigin lib rawOrigin mode of (e_origin', origin) \<Rightarrow>
     case exactInteger env ''PORT'' 3000 1 65535 of (e_port, port) \<Rightarrow>
     case parseTrustedProxies lib (map_of env ''LOREMASTER_API_TRUSTED_PROXIES'') of (e_proxies, proxies) \<Rightarrow>
     case parse_cookie_names env mode of (e_cookies, (sessionName, csrfName)) \<Rightarrow>
     case parse_timeouts env of (e_timeouts, (commandMs, lockMs, statementMs)) \<Rightarrow>
     case parse_cursor_keys env of (e_keys, (active, previous, grace)) \<Rightarrow>
     case exactInteger env ''LOREMASTER_API_LIMITER_GUEST_CAPACITY'' 10000 300 1000000 of (e_guest, guestCapacity) \<Rightarrow>
     case exactInteger env ''LOREMASTER_API_LIMITER_IP_CAPACITY'' 10000 300 1000000 of (e_ip, ipCapacity) \<Rightarrow>
       let listenHost = or_default env ''LOREMASTER_API_LISTEN_HOST'' ''127.0.0.1'';
           e_files = (case requireFilesInProduction original mode SECRET_KEYS of Inl field \<Rightarrow> [field] | Inr u \<Rightarrow> []);
           errors = unknown_keys env @ e_mode @ e_files @ e_db @ e_db' @ e_origin @ e_origin' @
             report (listenHost \<noteq> ''127.0.0.1'' \<and> listenHost \<noteq> ''0.0.0.0'') [''LOREMASTER_API_LISTEN_HOST''] @
             e_port @ e_proxies @ e_cookies @ e_timeouts @ e_keys @ e_guest @ e_ip
       in (case active of
           None \<Rightarrow> Inl (configuration_error errors)
         | Some key \<Rightarrow>
             if errors \<noteq> [] then Inl (configuration_error errors)
             else Inr \<lparr>sc_mode = mode, sc_databaseUrl = databaseUrl, sc_origin = origin, sc_port = port, sc_listenHost = listenHost,
               sc_trustedProxies = proxies, sc_sessionCookie = config_cookie sessionName (mode = Production) True,
               sc_csrfCookie = config_cookie csrfName (mode = Production) False, sc_commandMs = commandMs, sc_lockMs = lockMs,
               sc_statementMs = statementMs, sc_active = key, sc_previous = previous, sc_previousGraceSeconds = grace,
               sc_guestCapacity = guestCapacity, sc_ipCapacity = ipCapacity\<rparr>))"

definition parseServerEnvironment :: "config_lib \<Rightarrow> environment \<Rightarrow> string list + server_configuration" where
  "parseServerEnvironment lib original =
    (case resolveFileSecrets (cl_fs lib) original SECRET_KEYS of
       Inl field \<Rightarrow> Inl (configuration_error [field])
     | Inr env \<Rightarrow> parse_resolved lib original env)"

section \<open>What is written of it\<close>

definition cookie_value :: "cookie_config \<Rightarrow> js_value" where
  "cookie_value c = Object [(''name'', String (ck_name c)), (''secure'', Boolean (ck_secure c)), (''httpOnly'', Boolean (ck_httpOnly c)),
     (''sameSite'', String ''lax''), (''path'', String (ck_path c))]"

definition redacted_key :: "hmac_key \<Rightarrow> js_value" where
  "redacted_key k = Object [(''version'', String (hk_version k)), (''key'', String ''[REDACTED]'')]"

definition redacted :: "server_configuration \<Rightarrow> js_value" where
  "redacted c = Object
    [(''mode'', String (case sc_mode c of Production \<Rightarrow> ''production'' | Local_Mode \<Rightarrow> ''local'')), (''databaseUrl'', String ''[REDACTED]''),
     (''origin'', String (sc_origin c)), (''port'', JInt (sc_port c)), (''listenHost'', String (sc_listenHost c)),
     (''trustedProxies'', Array (map (\<lambda>p. Object [(''address'', String (xp_address p)), (''prefixLength'', JInt (xp_prefixLength p)),
        (''version'', JInt (xp_version p))]) (sc_trustedProxies c))),
     (''cookies'', Object [(''session'', cookie_value (sc_sessionCookie c)), (''csrf'', cookie_value (sc_csrfCookie c))]),
     (''timeouts'', Object [(''commandMs'', JInt (sc_commandMs c)), (''lockMs'', JInt (sc_lockMs c)), (''statementMs'', JInt (sc_statementMs c))]),
     (''cursor'', Object ([(''active'', redacted_key (sc_active c))] @
        (case sc_previous c of None \<Rightarrow> [] | Some k \<Rightarrow> [(''previous'', redacted_key k)]) @
        [(''previousGraceSeconds'', JInt (sc_previousGraceSeconds c))])),
     (''limiter'', Object (map (\<lambda>(k, n). (k, JInt n)) limiter_constants @
        [(''guestCapacity'', JInt (sc_guestCapacity c)), (''ipCapacity'', JInt (sc_ipCapacity c))])),
     (''sessionAbsoluteTtlDays'', JInt SESSION_ABSOLUTE_TTL_DAYS)]"

lemma redacted_hides_secrets:
  "redacted (c\<lparr>sc_databaseUrl := url, sc_active := (sc_active c)\<lparr>hk_key := k\<rparr>,
     sc_previous := map_option (\<lambda>p. p\<lparr>hk_key := k'\<rparr>) (sc_previous c)\<rparr>) = redacted c"
  by (cases "sc_previous c") (simp_all add: redacted_def redacted_key_def)

section \<open>Accepted configurations\<close>

lemma report_nil [simp]: "report b wrong = [] \<longleftrightarrow> \<not> b \<or> wrong = []" "set (report b wrong) = (if b then set wrong else {})"
  by (simp_all add: report_def)

lemma required_value: "required env key = ([], v) \<Longrightarrow> map_of env key = Some v \<and> v \<noteq> []"
  by (auto simp: required_def split: option.splits if_splits)

lemma exactInteger_value:
  "exactInteger env key fallback lo hi = ([], n) \<Longrightarrow> lo \<le> fallback \<Longrightarrow> fallback \<le> hi \<Longrightarrow> lo \<le> n \<and> n \<le> hi"
  by (auto simp: exactInteger_def Let_def split: option.splits if_splits)

lemma cursor_key_checked:
  assumes "parseCursorKey env versionKey materialKey requiredKey = ([], k)"
  shows "case k of None \<Rightarrow> \<not> requiredKey | Some key \<Rightarrow> version_text (hk_version key) \<and> 32 \<le> length (hk_key key)"
  using assms by (auto simp: parseCursorKey_def Let_def split: option.splits if_splits)

lemma proxy_loop_distinct:
  assumes "proxy_loop lib visited texts = (es, ps)"
  shows "distinct (map (\<lambda>p. (xp_address p, xp_prefixLength p)) ps) \<and> (\<lambda>p. (xp_address p, xp_prefixLength p)) ` set ps \<inter> set visited = {}"
  using assms
proof (induction visited texts arbitrary: es ps rule: proxy_loop.induct)
  case (2 lib visited entry rest)
  show ?case
  proof (cases "parse_proxy lib entry")
    case None
    then show ?thesis using 2(1) 2(4) by (auto split: prod.splits)
  next
    case (Some p)
    show ?thesis
    proof (cases "(xp_address p, xp_prefixLength p) \<in> set visited")
      case True
      then show ?thesis using 2(2) [OF Some True] 2(4) Some by (auto split: prod.splits)
    next
      case False
      obtain es' ps' where r: "proxy_loop lib ((xp_address p, xp_prefixLength p) # visited) rest = (es', ps')" by fastforce
      then have "ps = p # ps'" using 2(4) Some False by simp
      then show ?thesis using 2(3) [OF Some False r] False by auto
    qed
  qed
qed simp

lemma parse_resolved_Inr:
  assumes "parse_resolved lib original env = Inr c"
  shows "parse_mode env = ([], sc_mode c)" "requireFilesInProduction original (sc_mode c) SECRET_KEYS = Inr ()"
    "\<exists>raw. required env ''DATABASE_URL'' = ([], raw) \<and> validateDatabaseUrl lib raw = ([], sc_databaseUrl c)"
    "\<exists>raw. required env ''LOREMASTER_API_ORIGIN'' = ([], raw) \<and> parseOrigin lib raw (sc_mode c) = ([], sc_origin c)"
    "exactInteger env ''PORT'' 3000 1 65535 = ([], sc_port c)"
    "parseTrustedProxies lib (map_of env ''LOREMASTER_API_TRUSTED_PROXIES'') = ([], sc_trustedProxies c)"
    "parse_cookie_names env (sc_mode c) = ([], (ck_name (sc_sessionCookie c), ck_name (sc_csrfCookie c)))"
    "sc_sessionCookie c = config_cookie (ck_name (sc_sessionCookie c)) (sc_mode c = Production) True"
    "sc_csrfCookie c = config_cookie (ck_name (sc_csrfCookie c)) (sc_mode c = Production) False"
    "parse_timeouts env = ([], (sc_commandMs c, sc_lockMs c, sc_statementMs c))"
    "parse_cursor_keys env = ([], (Some (sc_active c), sc_previous c, sc_previousGraceSeconds c))"
    "exactInteger env ''LOREMASTER_API_LIMITER_GUEST_CAPACITY'' 10000 300 1000000 = ([], sc_guestCapacity c)"
    "exactInteger env ''LOREMASTER_API_LIMITER_IP_CAPACITY'' 10000 300 1000000 = ([], sc_ipCapacity c)"
    "sc_listenHost c = ''127.0.0.1'' \<or> sc_listenHost c = ''0.0.0.0''" "unknown_keys env = []"
proof -
  obtain e1 mode where 1: "parse_mode env = (e1, mode)" by fastforce
  obtain e2 raw where 2: "required env ''DATABASE_URL'' = (e2, raw)" by fastforce
  obtain e3 db where 3: "validateDatabaseUrl lib raw = (e3, db)" by fastforce
  obtain e4 raw' where 4: "required env ''LOREMASTER_API_ORIGIN'' = (e4, raw')" by fastforce
  obtain e5 origin where 5: "parseOrigin lib raw' mode = (e5, origin)" by fastforce
  obtain e6 port where 6: "exactInteger env ''PORT'' 3000 1 65535 = (e6, port)" by fastforce
  obtain e7 ps where 7: "parseTrustedProxies lib (map_of env ''LOREMASTER_API_TRUSTED_PROXIES'') = (e7, ps)" by fastforce
  obtain e8 n1 n2 where 8: "parse_cookie_names env mode = (e8, (n1, n2))" by (metis prod.collapse)
  obtain e9 t1 t2 t3 where 9: "parse_timeouts env = (e9, (t1, t2, t3))" by (metis prod.collapse)
  obtain e10 k1 k2 g where 10: "parse_cursor_keys env = (e10, (k1, k2, g))" by (metis prod.collapse)
  obtain e11 c1 where 11: "exactInteger env ''LOREMASTER_API_LIMITER_GUEST_CAPACITY'' 10000 300 1000000 = (e11, c1)" by fastforce
  obtain e12 c2 where 12: "exactInteger env ''LOREMASTER_API_LIMITER_IP_CAPACITY'' 10000 300 1000000 = (e12, c2)" by fastforce
  note parts = 1 2 3 4 5 6 7 8 9 10 11 12
  obtain key where k: "k1 = Some key" using assms unfolding parse_resolved_def parts prod.case Let_def by (cases k1) simp_all
  let ?files = "case requireFilesInProduction original mode SECRET_KEYS of Inl field \<Rightarrow> [field] | Inr u \<Rightarrow> []"
  let ?host = "or_default env ''LOREMASTER_API_LISTEN_HOST'' ''127.0.0.1''"
  let ?errors = "unknown_keys env @ e1 @ ?files @ e2 @ e3 @ e4 @ e5 @
    report (?host \<noteq> ''127.0.0.1'' \<and> ?host \<noteq> ''0.0.0.0'') [''LOREMASTER_API_LISTEN_HOST''] @ e6 @ e7 @ e8 @ e9 @ e10 @ e11 @ e12"
  have n: "?errors = []" and c: "c = \<lparr>sc_mode = mode, sc_databaseUrl = db, sc_origin = origin, sc_port = port, sc_listenHost = ?host,
      sc_trustedProxies = ps, sc_sessionCookie = config_cookie n1 (mode = Production) True,
      sc_csrfCookie = config_cookie n2 (mode = Production) False, sc_commandMs = t1, sc_lockMs = t2,
      sc_statementMs = t3, sc_active = key, sc_previous = k2, sc_previousGraceSeconds = g, sc_guestCapacity = c1, sc_ipCapacity = c2\<rparr>"
    using assms unfolding parse_resolved_def parts prod.case Let_def k option.case by (simp_all only: sum.inject sum.distinct split: if_splits)
  have e: "unknown_keys env = []" "e1 = []" "e2 = []" "e3 = []" "e4 = []" "e5 = []" "e6 = []" "e7 = []" "e8 = []" "e9 = []" "e10 = []"
    "e11 = []" "e12 = []" "?files = []" "?host = ''127.0.0.1'' \<or> ?host = ''0.0.0.0''"
    using n unfolding append_is_Nil_conv report_nil by blast+
  show "parse_mode env = ([], sc_mode c)" "exactInteger env ''PORT'' 3000 1 65535 = ([], sc_port c)"
    "parseTrustedProxies lib (map_of env ''LOREMASTER_API_TRUSTED_PROXIES'') = ([], sc_trustedProxies c)"
    "parse_cookie_names env (sc_mode c) = ([], (ck_name (sc_sessionCookie c), ck_name (sc_csrfCookie c)))"
    "sc_sessionCookie c = config_cookie (ck_name (sc_sessionCookie c)) (sc_mode c = Production) True"
    "sc_csrfCookie c = config_cookie (ck_name (sc_csrfCookie c)) (sc_mode c = Production) False"
    "parse_timeouts env = ([], (sc_commandMs c, sc_lockMs c, sc_statementMs c))"
    "parse_cursor_keys env = ([], (Some (sc_active c), sc_previous c, sc_previousGraceSeconds c))"
    "exactInteger env ''LOREMASTER_API_LIMITER_GUEST_CAPACITY'' 10000 300 1000000 = ([], sc_guestCapacity c)"
    "exactInteger env ''LOREMASTER_API_LIMITER_IP_CAPACITY'' 10000 300 1000000 = ([], sc_ipCapacity c)"
    "unknown_keys env = []"
    using parts e by (simp_all add: c k config_cookie_def)
  show "sc_listenHost c = ''127.0.0.1'' \<or> sc_listenHost c = ''0.0.0.0''" using e(15) by (simp add: c)
  show "requireFilesInProduction original (sc_mode c) SECRET_KEYS = Inr ()"
    using e(14) by (cases "requireFilesInProduction original mode SECRET_KEYS") (simp_all add: c)
  show "\<exists>raw. required env ''DATABASE_URL'' = ([], raw) \<and> validateDatabaseUrl lib raw = ([], sc_databaseUrl c)"
    using 2 3 e by (simp add: c)
  show "\<exists>raw. required env ''LOREMASTER_API_ORIGIN'' = ([], raw) \<and> parseOrigin lib raw (sc_mode c) = ([], sc_origin c)"
    using 4 5 e by (simp add: c)
qed

text \<open>What running the server relies on.\<close>

definition sound_configuration :: "config_lib \<Rightarrow> environment \<Rightarrow> server_configuration \<Rightarrow> bool" where
  "sound_configuration lib env c \<longleftrightarrow>
     validateKeys \<lparr>ks_active = sc_active c, ks_previous = sc_previous c\<rparr> = Inr () \<and>
     sc_lockMs c < sc_statementMs c \<and> sc_statementMs c < sc_commandMs c \<and> 1 \<le> sc_port c \<and> sc_port c \<le> 65535 \<and>
     300 \<le> sc_guestCapacity c \<and> sc_guestCapacity c \<le> 1000000 \<and> 300 \<le> sc_ipCapacity c \<and> sc_ipCapacity c \<le> 1000000 \<and>
     (sc_listenHost c = ''127.0.0.1'' \<or> sc_listenHost c = ''0.0.0.0'') \<and>
     distinct (map (\<lambda>p. (xp_address p, xp_prefixLength p)) (sc_trustedProxies c)) \<and>
     ck_name (sc_sessionCookie c) \<noteq> ck_name (sc_csrfCookie c) \<and> ck_httpOnly (sc_sessionCookie c) \<and> \<not> ck_httpOnly (sc_csrfCookie c)"

definition hardened_configuration :: "config_lib \<Rightarrow> environment \<Rightarrow> server_configuration \<Rightarrow> bool" where
  "hardened_configuration lib env c \<longleftrightarrow>
     (\<exists>u. cl_url lib (sc_origin c) = Some u \<and> ur_protocol u = ''https:'' \<and> ur_origin u = sc_origin c) \<and>
     ck_secure (sc_sessionCookie c) \<and> ck_secure (sc_csrfCookie c) \<and>
     starts_with ''__Host-'' (ck_name (sc_sessionCookie c)) \<and> starts_with ''__Host-'' (ck_name (sc_csrfCookie c)) \<and>
     (\<forall>key \<in> set SECRET_KEYS. map_of env key = None) \<and>
     from_file (cl_fs lib) env ''DATABASE_URL'' (sc_databaseUrl c) \<and>
     (\<exists>material. from_file (cl_fs lib) env ''LOREMASTER_API_CURSOR_ACTIVE_KEY'' material \<and> hk_key (sc_active c) = base64url_decode material)"

lemma active_material:
  "parseCursorKey env versionKey materialKey requiredKey = ([], Some k) \<Longrightarrow>
     \<exists>m. map_of env materialKey = Some m \<and> hk_key k = base64url_decode m"
  by (auto simp: parseCursorKey_def Let_def split: option.splits if_splits)

lemma cursor_keys_sound:
  assumes "parse_cursor_keys env = ([], (Some a, previous, grace))"
  shows "validateKeys \<lparr>ks_active = a, ks_previous = previous\<rparr> = Inr ()"
    "\<exists>m. map_of env ''LOREMASTER_API_CURSOR_ACTIVE_KEY'' = Some m \<and> hk_key a = base64url_decode m"
proof -
  have k: "parseCursorKey env ''LOREMASTER_API_CURSOR_ACTIVE_VERSION'' ''LOREMASTER_API_CURSOR_ACTIVE_KEY'' True = ([], Some a)"
    "parseCursorKey env ''LOREMASTER_API_CURSOR_PREVIOUS_VERSION'' ''LOREMASTER_API_CURSOR_PREVIOUS_KEY'' False = ([], previous)"
    "case previous of None \<Rightarrow> True | Some p \<Rightarrow> hk_version a \<noteq> hk_version p \<and> hk_key a \<noteq> hk_key p"
    using assms by (auto simp: parse_cursor_keys_def split: prod.splits option.splits)
  show "validateKeys \<lparr>ks_active = a, ks_previous = previous\<rparr> = Inr ()"
    using cursor_key_checked [OF k(1)] cursor_key_checked [OF k(2)] k(3)
    by (auto simp: validateKeys_def configured_keys_def not_less split: option.splits)
  show "\<exists>m. map_of env ''LOREMASTER_API_CURSOR_ACTIVE_KEY'' = Some m \<and> hk_key a = base64url_decode m"
    by (rule active_material [OF k(1)])
qed

lemma secret_keys_facts:
  "distinct SECRET_KEYS" "\<forall>a \<in> set SECRET_KEYS. \<forall>b \<in> set SECRET_KEYS. a \<noteq> file_key b"
  by code_simp+

lemma production_secret:
  assumes "resolveFileSecrets fs env SECRET_KEYS = Inr env'" "requireFilesInProduction env Production SECRET_KEYS = Inr ()"
    "key \<in> set SECRET_KEYS" "map_of env' key = Some v"
  shows "map_of env key = None \<and> from_file fs env key v"
  by (rule file_secret [OF assms(1,2) secret_keys_facts assms(3,4)])

text \<open>Property C23. A configuration the server accepts is one it can be run with: the cursor keys pass the check of the routes, the
  lock timeout is below the statement timeout and that below the command timeout, port and capacities are in range, no proxy
  is listed twice and the two cookies differ. In production the origin is an \<^verbatim>\<open>https\<close> origin, both cookies are \<^verbatim>\<open>Secure\<close> with
  the \<^verbatim>\<open>__Host-\<close> prefix, no secret is in the environment itself, and the database URL and the active key were read from
  protected files.\<close>

theorem accepted_configuration_is_sound:
  assumes "parseServerEnvironment lib env = Inr c"
  shows "sound_configuration lib env c \<and> (sc_mode c = Production \<longrightarrow> hardened_configuration lib env c)"
proof -
  obtain env' where r: "resolveFileSecrets (cl_fs lib) env SECRET_KEYS = Inr env'" "parse_resolved lib env env' = Inr c"
    using assms by (auto simp: parseServerEnvironment_def split: sum.splits)
  note p = parse_resolved_Inr [OF r(2)]
  note keys = cursor_keys_sound [OF p(11)]
  have times: "sc_lockMs c < sc_statementMs c \<and> sc_statementMs c < sc_commandMs c"
    using p(10) by (auto simp: parse_timeouts_def split: prod.splits)
  have cookies: "ck_name (sc_sessionCookie c) = expected_session_name (sc_mode c)" "ck_name (sc_csrfCookie c) = expected_csrf_name (sc_mode c)"
    using p(7) by (auto simp: parse_cookie_names_def Let_def split: if_splits)
  have flags: "ck_httpOnly (sc_sessionCookie c)" "\<not> ck_httpOnly (sc_csrfCookie c)" "ck_secure (sc_sessionCookie c) = (sc_mode c = Production)"
    "ck_secure (sc_csrfCookie c) = (sc_mode c = Production)"
    using p(8,9) by (metis cookie_config.select_convs(3,4) config_cookie_def)+
  have proxies: "distinct (map (\<lambda>p. (xp_address p, xp_prefixLength p)) (sc_trustedProxies c))"
    using p(6) proxy_loop_distinct by (auto simp: parseTrustedProxies_def split: option.splits if_splits)
  have "expected_session_name (sc_mode c) \<noteq> expected_csrf_name (sc_mode c)"
    by (simp add: expected_session_name_def expected_csrf_name_def)
  then have "sound_configuration lib env c"
    using keys(1) times cookies flags proxies exactInteger_value [OF p(5)] exactInteger_value [OF p(12)] exactInteger_value [OF p(13)] p(14)
    by (simp add: sound_configuration_def)
  moreover have "hardened_configuration lib env c" if m: "sc_mode c = Production"
  proof -
    note secret = production_secret [OF r(1) p(2) [unfolded m]]
    obtain raw where raw: "required env' ''DATABASE_URL'' = ([], raw)" "validateDatabaseUrl lib raw = ([], sc_databaseUrl c)" using p(3) by blast
    have "sc_databaseUrl c = raw" using raw(2) by (auto simp: validateDatabaseUrl_def split: option.splits)
    then have db: "from_file (cl_fs lib) env ''DATABASE_URL'' (sc_databaseUrl c)"
      using secret [of "''DATABASE_URL''"] required_value [OF raw(1)] by (simp add: SECRET_KEYS_def)
    obtain m' where m': "map_of env' ''LOREMASTER_API_CURSOR_ACTIVE_KEY'' = Some m'" "hk_key (sc_active c) = base64url_decode m'"
      using keys(2) by blast
    have key: "from_file (cl_fs lib) env ''LOREMASTER_API_CURSOR_ACTIVE_KEY'' m'"
      using secret [of "''LOREMASTER_API_CURSOR_ACTIVE_KEY''"] m'(1) by (simp add: SECRET_KEYS_def)
    have none: "\<forall>key \<in> set SECRET_KEYS. map_of env key = None"
      using p(2) m by (auto simp: requireFilesInProduction_def find_None_iff split: option.splits)
    obtain raw' where o': "parseOrigin lib raw' Production = ([], sc_origin c)" using p(4) m by auto
    then have origin: "\<exists>u. cl_url lib (sc_origin c) = Some u \<and> ur_protocol u = ''https:'' \<and> ur_origin u = sc_origin c"
      by (auto simp: parseOrigin_def Let_def split: option.splits)
    show ?thesis unfolding hardened_configuration_def
      using db key m'(2) none origin flags m by (auto simp: cookies expected_session_name_def expected_csrf_name_def starts_with_def)
  qed
  ultimately show ?thesis by blast
qed

section \<open>Refused configurations\<close>

lemma active_reported:
  "parse_cursor_keys env = (es, (None, previous, grace)) \<Longrightarrow> es \<noteq> []"
  by (auto simp: parse_cursor_keys_def parseCursorKey_def Let_def split: prod.splits option.splits if_splits)

lemma configuration_error_names: "set (configuration_error es) = set es" "sorted (configuration_error es)" "distinct (configuration_error es)"
  by (simp_all add: configuration_error_def)

lemma configuration_error_nil: "configuration_error es = [] \<longleftrightarrow> es = []"
  using configuration_error_names(1) [of es] by (metis set_empty)

text \<open>Every function reports only variables of the server.\<close>

definition known :: "string list \<Rightarrow> bool" where
  "known es \<longleftrightarrow> set es \<subseteq> set ENVIRONMENT_KEYS"

lemma known_parts: "known (a @ b) \<longleftrightarrow> known a \<and> known b" "known (report ok es) \<longleftrightarrow> \<not> ok \<or> known es" "known []"
  by (auto simp: known_def)

lemma reported_names:
  "key \<in> set ENVIRONMENT_KEYS \<Longrightarrow> known (fst (required env key))"
  "key \<in> set ENVIRONMENT_KEYS \<Longrightarrow> known (fst (exactInteger env key a b d))"
  "key \<in> set ENVIRONMENT_KEYS \<Longrightarrow> known (fst (fixedInteger env key a))"
  "vk \<in> set ENVIRONMENT_KEYS \<Longrightarrow> mk \<in> set ENVIRONMENT_KEYS \<Longrightarrow> known (fst (parseCursorKey env vk mk r))"
  by (auto simp: known_def required_def exactInteger_def fixedInteger_def parseCursorKey_def Let_def split: option.splits if_splits)

lemma proxy_names: "known (fst (proxy_loop lib visited texts))"
proof (induction lib visited texts rule: proxy_loop.induct)
  case (2 lib visited entry rest)
  then show ?case
    by (auto simp: known_def ENVIRONMENT_KEYS_def split: option.splits prod.splits)
qed (simp add: known_def)

lemma parts_names:
  "known (fst (parse_mode env))" "known (fst (validateDatabaseUrl lib raw))" "known (fst (parseOrigin lib raw mode))"
  "known (fst (parseTrustedProxies lib raws))" "known (fst (parse_cookie_names env mode))" "known (fst (parse_timeouts env))"
  "known (fst (parse_cursor_keys env))"
proof -
  have k: "known [''LOREMASTER_API_MODE'']" "known [''DATABASE_URL'']" "known [''LOREMASTER_API_ORIGIN'']"
    "known [''LOREMASTER_API_SESSION_COOKIE_NAME'']" "known [''LOREMASTER_API_CSRF_COOKIE_NAME'']"
    "known [''LOREMASTER_API_SESSION_COOKIE_NAME'', ''LOREMASTER_API_CSRF_COOKIE_NAME'']"
    "known [''LOREMASTER_API_LOCK_TIMEOUT_MS'', ''LOREMASTER_API_STATEMENT_TIMEOUT_MS'', ''LOREMASTER_API_COMMAND_TIMEOUT_MS'']"
    "known [''LOREMASTER_API_CURSOR_PREVIOUS_VERSION'', ''LOREMASTER_API_CURSOR_PREVIOUS_KEY'']"
    by (simp_all add: known_def ENVIRONMENT_KEYS_def)
  have m: "''LOREMASTER_API_MODE'' \<in> set ENVIRONMENT_KEYS" "''LOREMASTER_API_COMMAND_TIMEOUT_MS'' \<in> set ENVIRONMENT_KEYS"
    "''LOREMASTER_API_LOCK_TIMEOUT_MS'' \<in> set ENVIRONMENT_KEYS" "''LOREMASTER_API_STATEMENT_TIMEOUT_MS'' \<in> set ENVIRONMENT_KEYS"
    "''LOREMASTER_API_CURSOR_PREVIOUS_GRACE_SECONDS'' \<in> set ENVIRONMENT_KEYS"
    "''LOREMASTER_API_CURSOR_ACTIVE_VERSION'' \<in> set ENVIRONMENT_KEYS" "''LOREMASTER_API_CURSOR_ACTIVE_KEY'' \<in> set ENVIRONMENT_KEYS"
    "''LOREMASTER_API_CURSOR_PREVIOUS_VERSION'' \<in> set ENVIRONMENT_KEYS" "''LOREMASTER_API_CURSOR_PREVIOUS_KEY'' \<in> set ENVIRONMENT_KEYS"
    by (simp_all add: ENVIRONMENT_KEYS_def)
  show "known (fst (parse_mode env))" using reported_names(1) [OF m(1), of env] k(1)
    by (simp add: parse_mode_def case_prod_beta known_parts)
  show "known (fst (validateDatabaseUrl lib raw))" using k(2) by (simp add: validateDatabaseUrl_def known_parts split: option.split)
  show "known (fst (parseOrigin lib raw mode))" using k(3) by (simp add: parseOrigin_def Let_def known_parts split: option.split)
  show "known (fst (parseTrustedProxies lib raws))"
    using proxy_names by (simp add: parseTrustedProxies_def known_parts split: option.split)
  show "known (fst (parse_cookie_names env mode))" using k(4,5,6) by (simp add: parse_cookie_names_def Let_def known_parts)
  show "known (fst (parse_timeouts env))"
    using reported_names(3) [OF m(2), of env] reported_names(3) [OF m(3), of env] reported_names(3) [OF m(4), of env] k(7)
    by (simp add: parse_timeouts_def case_prod_beta known_parts)
  show "known (fst (parse_cursor_keys env))"
    using reported_names(4) [OF m(6,7), of env] reported_names(4) [OF m(8,9), of env] reported_names(3) [OF m(5), of env] k(8)
    by (simp add: parse_cursor_keys_def case_prod_beta known_parts)
qed

lemma resolved_names: "resolve_secrets fs original resolved keys = Inr env' \<Longrightarrow> fst ` set env' \<subseteq> fst ` set resolved \<union> set keys"
proof (induction keys arbitrary: resolved)
  case (Cons key keys)
  show ?case
  proof (cases "map_of original (file_key key)")
    case None
    then show ?thesis using Cons by auto
  next
    case (Some path)
    then obtain v where v: "resolve_secrets fs original (AList.delete (file_key key) (AList.update key v resolved)) keys = Inr env'"
      using Cons.prems by (auto simp: bindE_eq_Inr split: if_splits)
    have "fst ` set (AList.delete (file_key key) (AList.update key v resolved)) \<subseteq> insert key (fst ` set resolved)"
      unfolding dom_map_of_conv_image_fst [symmetric] by (auto simp: map_of_delete update_conv' split: if_splits)
    with Cons.IH [OF v] show ?thesis unfolding list.set by blast
  qed
qed simp

lemma unresolved_name: "resolve_secrets fs original resolved keys = Inl field \<Longrightarrow> field \<in> file_key ` set keys"
  by (induction keys arbitrary: resolved)
    (auto simp: readSecret_def simp del: directories_are_real.simps split: option.splits if_splits sum.splits dest!: bindE_Inl [THEN iffD1])

lemma parse_resolved_Inl:
  assumes "parse_resolved lib original env = Inl wrong"
  shows "wrong \<noteq> [] \<and> sorted wrong \<and> distinct wrong \<and> set wrong \<subseteq> set ENVIRONMENT_KEYS \<union> fst ` set env"
proof -
  obtain e1 mode where 1: "parse_mode env = (e1, mode)" by fastforce
  obtain e2 raw where 2: "required env ''DATABASE_URL'' = (e2, raw)" by fastforce
  obtain e3 db where 3: "validateDatabaseUrl lib raw = (e3, db)" by fastforce
  obtain e4 raw' where 4: "required env ''LOREMASTER_API_ORIGIN'' = (e4, raw')" by fastforce
  obtain e5 origin where 5: "parseOrigin lib raw' mode = (e5, origin)" by fastforce
  obtain e6 port where 6: "exactInteger env ''PORT'' 3000 1 65535 = (e6, port)" by fastforce
  obtain e7 ps where 7: "parseTrustedProxies lib (map_of env ''LOREMASTER_API_TRUSTED_PROXIES'') = (e7, ps)" by fastforce
  obtain e8 n1 n2 where 8: "parse_cookie_names env mode = (e8, (n1, n2))" by (metis prod.collapse)
  obtain e9 t1 t2 t3 where 9: "parse_timeouts env = (e9, (t1, t2, t3))" by (metis prod.collapse)
  obtain e10 k1 k2 g where 10: "parse_cursor_keys env = (e10, (k1, k2, g))" by (metis prod.collapse)
  obtain e11 c1 where 11: "exactInteger env ''LOREMASTER_API_LIMITER_GUEST_CAPACITY'' 10000 300 1000000 = (e11, c1)" by fastforce
  obtain e12 c2 where 12: "exactInteger env ''LOREMASTER_API_LIMITER_IP_CAPACITY'' 10000 300 1000000 = (e12, c2)" by fastforce
  note parts = 1 2 3 4 5 6 7 8 9 10 11 12
  let ?files = "case requireFilesInProduction original mode SECRET_KEYS of Inl field \<Rightarrow> [field] | Inr u \<Rightarrow> []"
  let ?host = "or_default env ''LOREMASTER_API_LISTEN_HOST'' ''127.0.0.1''"
  let ?errors = "unknown_keys env @ e1 @ ?files @ e2 @ e3 @ e4 @ e5 @
    report (?host \<noteq> ''127.0.0.1'' \<and> ?host \<noteq> ''0.0.0.0'') [''LOREMASTER_API_LISTEN_HOST''] @ e6 @ e7 @ e8 @ e9 @ e10 @ e11 @ e12"
  have w: "wrong = configuration_error ?errors" "?errors \<noteq> [] \<or> k1 = None"
  proof -
    have r: "(case k1 of None \<Rightarrow> Inl (configuration_error ?errors) | Some key \<Rightarrow> if ?errors \<noteq> [] then Inl (configuration_error ?errors) else Inr (f key)) = Inl wrong
      \<Longrightarrow> wrong = configuration_error ?errors \<and> (?errors \<noteq> [] \<or> k1 = None)" for f :: "hmac_key \<Rightarrow> server_configuration"
      by (cases k1; cases "?errors = []") (simp_all only: option.case if_True if_False sum.inject sum.distinct simp_thms HOL.not_False_eq_True)
    note w = r [OF assms [unfolded parse_resolved_def parts prod.case Let_def]]
    show "wrong = configuration_error ?errors" "?errors \<noteq> [] \<or> k1 = None" using w by (rule conjunct1, rule conjunct2)
  qed
  have e10: "k1 = None \<Longrightarrow> e10 \<noteq> []" using active_reported 10 by blast
  have some: "?errors \<noteq> []" using w(2) e10 unfolding append_is_Nil_conv by blast
  have in_keys: "''DATABASE_URL'' \<in> set ENVIRONMENT_KEYS" "''LOREMASTER_API_ORIGIN'' \<in> set ENVIRONMENT_KEYS" "''PORT'' \<in> set ENVIRONMENT_KEYS"
    "''LOREMASTER_API_LIMITER_GUEST_CAPACITY'' \<in> set ENVIRONMENT_KEYS" "''LOREMASTER_API_LIMITER_IP_CAPACITY'' \<in> set ENVIRONMENT_KEYS"
    by (simp_all add: ENVIRONMENT_KEYS_def)
  have ne1: "known e1" using parts_names(1) [of env] unfolding 1 by simp
  have ne2: "known e2" using reported_names(1) [OF in_keys(1), of env] unfolding 2 by simp
  have ne3: "known e3" using parts_names(2) [of lib raw] unfolding 3 by simp
  have ne4: "known e4" using reported_names(1) [OF in_keys(2), of env] unfolding 4 by simp
  have ne5: "known e5" using parts_names(3) [of lib raw' mode] unfolding 5 by simp
  have ne6: "known e6" using reported_names(2) [OF in_keys(3), of env 3000 1 65535] unfolding 6 by simp
  have ne7: "known e7" using parts_names(4) [of lib "map_of env ''LOREMASTER_API_TRUSTED_PROXIES''"] unfolding 7 by simp
  have ne8: "known e8" using parts_names(5) [of env mode] unfolding 8 by simp
  have ne9: "known e9" using parts_names(6) [of env] unfolding 9 by simp
  have ne10: "known e10" using parts_names(7) [of env] unfolding 10 by simp
  have ne11: "known e11" using reported_names(2) [OF in_keys(4), of env 10000 300 1000000] unfolding 11 by simp
  have ne12: "known e12" using reported_names(2) [OF in_keys(5), of env 10000 300 1000000] unfolding 12 by simp
  have nfiles: "known ?files"
    by (auto simp: known_def requireFilesInProduction_def ENVIRONMENT_KEYS_def SECRET_KEYS_def file_key_def split: option.splits)
  have nhost: "known [''LOREMASTER_API_LISTEN_HOST'']" by (simp add: known_def ENVIRONMENT_KEYS_def)
  have nunknown: "set (unknown_keys env) \<subseteq> fst ` set env" by (auto simp: unknown_keys_def)
  note all = ne1 ne2 ne3 ne4 ne5 ne6 ne7 ne8 ne9 ne10 ne11 ne12
  have host: "known (report (?host \<noteq> ''127.0.0.1'' \<and> ?host \<noteq> ''0.0.0.0'') [''LOREMASTER_API_LISTEN_HOST''])"
    unfolding known_parts using nhost by blast
  have "known (e1 @ ?files @ e2 @ e3 @ e4 @ e5 @
    report (?host \<noteq> ''127.0.0.1'' \<and> ?host \<noteq> ''0.0.0.0'') [''LOREMASTER_API_LISTEN_HOST''] @ e6 @ e7 @ e8 @ e9 @ e10 @ e11 @ e12)"
    unfolding known_parts(1) by (intro conjI all nfiles host)
  then have "set ?errors \<subseteq> set ENVIRONMENT_KEYS \<union> fst ` set env" using nunknown unfolding known_def set_append [of "unknown_keys env"] by blast
  with some show ?thesis
    unfolding w(1) configuration_error_names configuration_error_nil by (intro conjI TrueI configuration_error_names)
qed

text \<open>A configuration that is refused names at least one wrong variable, each once and in order, and no others than those
  of the server and those that are set.\<close>

lemma refused_configuration_names_variables:
  assumes "parseServerEnvironment lib env = Inl wrong"
  shows "wrong \<noteq> [] \<and> sorted wrong \<and> distinct wrong \<and> set wrong \<subseteq> set ENVIRONMENT_KEYS \<union> fst ` set env"
proof (cases "resolveFileSecrets (cl_fs lib) env SECRET_KEYS")
  case (Inl field)
  then have "field \<in> file_key ` set SECRET_KEYS" using unresolved_name by (metis resolveFileSecrets_def)
  then have "field \<in> set ENVIRONMENT_KEYS" by (auto simp: SECRET_KEYS_def ENVIRONMENT_KEYS_def file_key_def)
  moreover have "wrong = configuration_error [field]" using assms Inl by (simp add: parseServerEnvironment_def)
  ultimately show ?thesis by (simp add: configuration_error_def)
next
  case (Inr env')
  then have "fst ` set env' \<subseteq> fst ` set env \<union> set SECRET_KEYS" using resolved_names by (metis resolveFileSecrets_def)
  moreover have "set SECRET_KEYS \<subseteq> set ENVIRONMENT_KEYS" by (simp add: SECRET_KEYS_def ENVIRONMENT_KEYS_def)
  moreover have "parse_resolved lib env env' = Inl wrong" using assms Inr by (simp add: parseServerEnvironment_def)
  ultimately show ?thesis using parse_resolved_Inl [of lib env env' wrong] by blast
qed

section \<open>Witnesses\<close>

text \<open>A production environment with its secrets in two files of root.\<close>

definition sample_status :: "int \<Rightarrow> int \<Rightarrow> file_status" where
  "sample_status ino len = \<lparr>ft_isFile = True, ft_isSymbolicLink = False, ft_dev = 1, ft_ino = ino, ft_size = len, ft_mode = 33024, ft_uid = 0\<rparr>"

definition sample_database_url :: string where
  "sample_database_url = ''postgres://u:p@h/d''"

definition sample_lstat :: "string \<Rightarrow> file_status option" where
  "sample_lstat path =
    (if path = ''/s'' then Some \<lparr>ft_isFile = False, ft_isSymbolicLink = False, ft_dev = 1, ft_ino = 2, ft_size = 64, ft_mode = 16877, ft_uid = 0\<rparr>
     else if path = ''/s/d'' then Some (sample_status 3 18) else if path = ''/s/k'' then Some (sample_status 4 43) else None)"

definition sample_bytes :: "string \<Rightarrow> byte list option" where
  "sample_bytes path =
    (if path = ''/s/d'' then Some (map of_char sample_database_url) else if path = ''/s/k'' then Some (replicate 43 65) else None)"

definition sample_url :: "string \<Rightarrow> url option" where
  "sample_url text =
    (if text = ''https://lore.example'' then Some \<lparr>ur_protocol = ''https:'', ur_username = [], ur_password = [], ur_hostname = ''lore.example'',
        ur_port = [], ur_pathname = ''/'', ur_search = [], ur_hash = [], ur_origin = text\<rparr>
     else if text = sample_database_url then Some \<lparr>ur_protocol = ''postgres:'', ur_username = ''u'', ur_password = ''p'', ur_hostname = ''h'',
        ur_port = [], ur_pathname = ''/d'', ur_search = [], ur_hash = [], ur_origin = ''null''\<rparr>
     else None)"

definition sample_config_lib :: config_lib where
  "sample_config_lib = \<lparr>cl_fs = \<lparr>sf_lstat = sample_lstat, sf_open = sample_lstat, sf_bytes = sample_bytes, sf_win32 = False, sf_uid = 1000\<rparr>,
     cl_url = sample_url, cl_ip6 = (\<lambda>host. False)\<rparr>"

definition production_environment :: environment where
  "production_environment = [(''LOREMASTER_API_MODE'', ''production''), (''DATABASE_URL_FILE'', ''/s/d''),
     (''LOREMASTER_API_ORIGIN'', ''https://lore.example''), (''LOREMASTER_API_TRUSTED_PROXIES'', ''10.0.0.0/8,192.0.2.7''),
     (''LOREMASTER_API_CURSOR_ACTIVE_VERSION'', ''v1''), (''LOREMASTER_API_CURSOR_ACTIVE_KEY_FILE'', ''/s/k'')]"

definition production_configuration :: server_configuration where
  "production_configuration = \<lparr>sc_mode = Production, sc_databaseUrl = sample_database_url, sc_origin = ''https://lore.example'', sc_port = 3000,
     sc_listenHost = ''127.0.0.1'', sc_trustedProxies = [\<lparr>xp_address = ''10.0.0.0'', xp_prefixLength = 8, xp_version = 4\<rparr>,
       \<lparr>xp_address = ''192.0.2.7'', xp_prefixLength = 32, xp_version = 4\<rparr>],
     sc_sessionCookie = config_cookie ''__Host-loremaster_session'' True True,
     sc_csrfCookie = config_cookie ''__Host-loremaster_csrf'' True False, sc_commandMs = 5000, sc_lockMs = 1000, sc_statementMs = 3000,
     sc_active = \<lparr>hk_version = ''v1'', hk_key = replicate 32 0\<rparr>, sc_previous = None, sc_previousGraceSeconds = 86400,
     sc_guestCapacity = 10000, sc_ipCapacity = 10000\<rparr>"

lemma production_accepted: "parseServerEnvironment sample_config_lib production_environment = Inr production_configuration"
  by code_simp

theorem accepted_configuration_is_sound_witness:
  "sound_configuration sample_config_lib production_environment production_configuration \<and>
   hardened_configuration sample_config_lib production_environment production_configuration"
  using accepted_configuration_is_sound [OF production_accepted] by (simp add: production_configuration_def)

text \<open>An environment with the material of the key in the environment itself, in production.\<close>

definition exposed_environment :: environment where
  "exposed_environment = (''LOREMASTER_API_CURSOR_ACTIVE_KEY'', replicate 43 (CHR ''A'')) # (''PORT'', ''08'') # butlast production_environment"

lemma exposed_refused:
  "parseServerEnvironment sample_config_lib exposed_environment = Inl [''LOREMASTER_API_CURSOR_ACTIVE_KEY_FILE'', ''PORT'']"
  by code_simp

lemma refused_configuration_names_variables_example:
  "set [''LOREMASTER_API_CURSOR_ACTIVE_KEY_FILE'', ''PORT''] \<subseteq> set ENVIRONMENT_KEYS \<union> fst ` set exposed_environment"
  using refused_configuration_names_variables [OF exposed_refused] by blast

end
