(* ===== verification/Redis_Config.thy ===== *)
theory Redis_Config
  imports Server_Config
begin

text \<open>
  The Redis configuration of the API, of the worker and of the queue observer (\<^verbatim>\<open>packages/config/src/redis.ts\<close>). A parser stops at
  the first field that is wrong and throws its name. Arguments as in \<open>Server_Config\<close>; \<^verbatim>\<open>decodeURIComponent\<close> is defined, on code points.

  Results: every client of Redis is configured with the one user of its role, over TLS in production; secrets of production
  come from protected files; the key of the limiter is a canonical text of 32 to 64 bytes and none of the cursor keys.
\<close>

section \<open>Decoding of URI components\<close>

text \<open>The bytes of a text with its escapes replaced; a character that is not escaped stands for its own UTF-8 bytes.\<close>

fun uri_bytes :: "string \<Rightarrow> byte list option" where
  "uri_bytes [] = Some []"
| "uri_bytes (c # cs) =
     (if c = CHR ''%'' then
        (case cs of h # l # rest \<Rightarrow>
            (case (hex_digit_value h, hex_digit_value l) of
               (Some a, Some b) \<Rightarrow> map_option (\<lambda>bs. word_of_nat (16 * a + b) # bs) (uri_bytes rest)
             | _ \<Rightarrow> None)
         | _ \<Rightarrow> None)
      else map_option (\<lambda>bs. utf8_char c @ bs) (uri_bytes cs))"

definition tail_value :: "byte \<Rightarrow> int" where
  "tail_value b = uint b - 128"

fun utf8_points :: "byte list \<Rightarrow> int list option" where
  "utf8_points [] = Some []"
| "utf8_points (a # bs) =
    (if uint a < 128 then map_option ((#) (uint a)) (utf8_points bs)
     else if byte_in 194 223 a then
       (case bs of b # bs' \<Rightarrow> if byte_in 128 191 b
            then map_option ((#) ((uint a - 192) * 64 + tail_value b)) (utf8_points bs') else None
        | _ \<Rightarrow> None)
     else if byte_in 224 239 a then
       (case bs of b # c # bs' \<Rightarrow>
            if byte_in (if uint a = 224 then 160 else 128) (if uint a = 237 then 159 else 191) b \<and> tail_bytes [c]
            then map_option ((#) ((uint a - 224) * 4096 + tail_value b * 64 + tail_value c)) (utf8_points bs') else None
        | _ \<Rightarrow> None)
     else if byte_in 240 244 a then
       (case bs of b # c # d # bs' \<Rightarrow>
            if byte_in (if uint a = 240 then 144 else 128) (if uint a = 244 then 143 else 191) b \<and> tail_bytes [c, d]
            then map_option ((#) ((uint a - 240) * 262144 + tail_value b * 4096 + tail_value c * 64 + tail_value d)) (utf8_points bs')
            else None
        | _ \<Rightarrow> None)
     else None)"

definition decodeURIComponent :: "string \<Rightarrow> int list option" where
  "decodeURIComponent s = Option.bind (uri_bytes s) utf8_points"

definition points :: "string \<Rightarrow> int list" where
  "points s = map of_char s"

section \<open>Fields\<close>

definition containsControl :: "int list \<Rightarrow> bool \<Rightarrow> bool" where
  "containsControl v includeSpace = list_ex (\<lambda>code. code \<le> (if includeSpace then 32 else 31) \<or> code = 127) v"

definition api_keys :: "string list" where
  "api_keys = [''LOREMASTER_REDIS_ENABLED'', ''LOREMASTER_REDIS_CACHE_URL'', ''LOREMASTER_REDIS_LIMITER_URL'',
     ''LOREMASTER_REDIS_PRODUCER_URL'', ''LOREMASTER_REDIS_PRODUCER_DATABASE_URL'', ''LOREMASTER_REDIS_LIMITER_HMAC_KEY'',
     ''LOREMASTER_REDIS_LIMITER_HMAC_VERSION'']"

definition worker_keys :: "string list" where
  "worker_keys = [''LOREMASTER_WORKER_REDIS_URL'', ''LOREMASTER_WORKER_CACHE_REDIS_URL'', ''LOREMASTER_WORKER_DATABASE_URL'',
     ''LOREMASTER_WORKER_CONCURRENCY'', ''LOREMASTER_WORKER_LISTEN_HOST'']"

definition observer_keys :: "string list" where
  "observer_keys = [''LOREMASTER_OBSERVER_REDIS_URL'', ''LOREMASTER_OBSERVER_LISTEN_HOST'']"

definition apiSecrets :: "string list" where
  "apiSecrets = [''LOREMASTER_REDIS_CACHE_URL'', ''LOREMASTER_REDIS_LIMITER_URL'', ''LOREMASTER_REDIS_PRODUCER_URL'',
     ''LOREMASTER_REDIS_PRODUCER_DATABASE_URL'', ''LOREMASTER_REDIS_LIMITER_HMAC_KEY'']"

definition workerSecrets :: "string list" where
  "workerSecrets = [''LOREMASTER_WORKER_REDIS_URL'', ''LOREMASTER_WORKER_CACHE_REDIS_URL'', ''LOREMASTER_WORKER_DATABASE_URL'']"

definition observerSecrets :: "string list" where
  "observerSecrets = [''LOREMASTER_OBSERVER_REDIS_URL'']"

definition invalid_when :: "bool \<Rightarrow> string \<Rightarrow> string + unit" where
  "invalid_when wrong field = (if wrong then Inl field else Inr ())"

definition validate_names :: "environment \<Rightarrow> string list \<Rightarrow> string list \<Rightarrow> string + unit" where
  "validate_names env keys secretKeys =
    (case find (\<lambda>key. (starts_with ''LOREMASTER_REDIS_'' key \<or> starts_with ''LOREMASTER_WORKER_'' key \<or> starts_with ''LOREMASTER_OBSERVER_'' key) \<and>
        key \<notin> set (''LOREMASTER_REDIS_MODE'' # keys @ map file_key secretKeys)) (map fst env) of
       None \<Rightarrow> Inr () | Some key \<Rightarrow> Inl key)"

definition redis_mode :: "environment \<Rightarrow> string + server_mode" where
  "redis_mode env =
    (let v = or_default env ''LOREMASTER_REDIS_MODE'' (or_default env ''LOREMASTER_API_MODE'' ''local'')
     in if v \<noteq> ''local'' \<and> v \<noteq> ''production'' then Inl ''LOREMASTER_REDIS_MODE''
        else if map_of env ''LOREMASTER_API_MODE'' \<noteq> None \<and> map_of env ''LOREMASTER_API_MODE'' \<noteq> Some v then Inl ''LOREMASTER_REDIS_MODE''
        else Inr (if v = ''production'' then Production else Local_Mode))"

definition fileSecrets :: "secret_fs \<Rightarrow> environment \<Rightarrow> string list \<Rightarrow> string + environment" where
  "fileSecrets fs env keys =
    bindE (resolveFileSecrets fs env keys) (\<lambda>resolved.
    bindE (redis_mode env) (\<lambda>m.
    bindE (requireFilesInProduction env m keys) (\<lambda>_. Inr resolved)))"

text \<open>The text of a URL field before it is parsed.\<close>

definition url_text :: "environment \<Rightarrow> string \<Rightarrow> string + string" where
  "url_text env field =
    (case map_of env field of
       None \<Rightarrow> Inl field
     | Some raw \<Rightarrow> if raw = [] \<or> 2048 < length raw \<or> js_trim raw \<noteq> raw \<or> containsControl (points raw) True then Inl field else Inr raw)"

definition user_text :: "int list \<Rightarrow> bool" where
  "user_text v \<longleftrightarrow> 1 \<le> length v \<and> length v \<le> 64 \<and> list_all (\<lambda>p. 0 \<le> p \<and> p < 128 \<and> url_safe (char_of (nat p))) v"

definition redis_url_valid :: "url \<Rightarrow> int list \<Rightarrow> int list \<Rightarrow> bool" where
  "redis_url_valid u username password \<longleftrightarrow>
     ur_protocol u \<in> {''redis:'', ''rediss:''} \<and> ur_hostname u \<noteq> [] \<and> ur_search u = [] \<and> ur_hash u = [] \<and>
     ur_pathname u \<in> {'''', ''/'', ''/0''} \<and> ur_port u \<noteq> ''0'' \<and> user_text username \<and> password \<noteq> [] \<and> \<not> containsControl password False"

definition redisUrl :: "config_lib \<Rightarrow> environment \<Rightarrow> string \<Rightarrow> string + string" where
  "redisUrl lib env field =
    bindE (url_text env field) (\<lambda>raw.
      case cl_url lib raw of
        None \<Rightarrow> Inl field
      | Some u \<Rightarrow>
          (case (decodeURIComponent (ur_username u), decodeURIComponent (ur_password u)) of
             (Some username, Some password) \<Rightarrow>
               if \<not> redis_url_valid u username password then Inl field
               else (case redis_mode env of
                   Inl _ \<Rightarrow> Inl field
                 | Inr m \<Rightarrow> if m = Production \<and> (ur_protocol u \<noteq> ''rediss:'' \<or> ur_username u = [] \<or> ur_password u = []) then Inl field
                     else Inr raw)
           | _ \<Rightarrow> Inl field))"

definition user_of :: "config_lib \<Rightarrow> string \<Rightarrow> int list option" where
  "user_of lib raw = Option.bind (cl_url lib raw) (\<lambda>u. decodeURIComponent (ur_username u))"

definition roleRedisUrl :: "config_lib \<Rightarrow> environment \<Rightarrow> string \<Rightarrow> string \<Rightarrow> string + string" where
  "roleRedisUrl lib env field expectedUser =
    bindE (redisUrl lib env field) (\<lambda>raw.
    bindE (invalid_when (user_of lib raw \<noteq> Some (points expectedUser)) field) (\<lambda>_. Inr raw))"

definition postgres_url :: "config_lib \<Rightarrow> environment \<Rightarrow> string \<Rightarrow> string + string" where
  "postgres_url lib env field =
    bindE (url_text env field) (\<lambda>raw.
      case cl_url lib raw of
        None \<Rightarrow> Inl field
      | Some u \<Rightarrow>
          bindE (invalid_when (ur_protocol u \<notin> {''postgres:'', ''postgresql:''} \<or> ur_hostname u = [] \<or> ur_username u = [] \<or>
            ur_password u = [] \<or> length (ur_pathname u) < 2) field) (\<lambda>_. Inr raw))"

definition producerDatabaseUrl :: "config_lib \<Rightarrow> environment \<Rightarrow> string + string" where
  "producerDatabaseUrl lib env = postgres_url lib env ''LOREMASTER_REDIS_PRODUCER_DATABASE_URL''"

definition redis_listenHost :: "environment \<Rightarrow> string \<Rightarrow> string + string" where
  "redis_listenHost env field =
    (let v = or_default env field ''127.0.0.1''
     in bindE (invalid_when (v \<noteq> ''127.0.0.1'' \<and> v \<noteq> ''0.0.0.0'') field) (\<lambda>_. Inr v))"

section \<open>The three configurations\<close>

record api_redis =
  ar_cacheUrl :: string
  ar_limiterUrl :: string
  ar_producerUrl :: string
  ar_producerDatabaseUrl :: string
  ar_limiterHmacKey :: "byte list"
  ar_limiterHmacVersion :: string

datatype api_redis_configuration = Redis_Disabled | Redis_Enabled api_redis

definition limiter_key :: "environment \<Rightarrow> byte list list \<Rightarrow> string + byte list" where
  "limiter_key env cursorKeys =
    (case map_of env ''LOREMASTER_REDIS_LIMITER_HMAC_KEY'' of
       None \<Rightarrow> Inl ''LOREMASTER_REDIS_LIMITER_HMAC_KEY''
     | Some material \<Rightarrow>
         bindE (invalid_when (\<not> (43 \<le> length material \<and> length material \<le> 86 \<and> list_all url_safe material))
           ''LOREMASTER_REDIS_LIMITER_HMAC_KEY'') (\<lambda>_.
         let key = base64url_decode material
         in bindE (invalid_when (length key < 32 \<or> 64 < length key \<or> base64url_encode key \<noteq> material \<or>
               map_of env ''LOREMASTER_API_CURSOR_ACTIVE_KEY'' = Some material \<or>
               map_of env ''LOREMASTER_API_CURSOR_PREVIOUS_KEY'' = Some material \<or> key \<in> set cursorKeys)
             ''LOREMASTER_REDIS_LIMITER_HMAC_KEY'') (\<lambda>_. Inr key)))"

definition limiter_version :: "environment \<Rightarrow> string + string" where
  "limiter_version env =
    (case map_of env ''LOREMASTER_REDIS_LIMITER_HMAC_VERSION'' of
       None \<Rightarrow> Inl ''LOREMASTER_REDIS_LIMITER_HMAC_VERSION''
     | Some v \<Rightarrow> bindE (invalid_when (\<not> version_text v) ''LOREMASTER_REDIS_LIMITER_HMAC_VERSION'') (\<lambda>_. Inr v))"

definition redis_disabled :: "environment \<Rightarrow> string + api_redis_configuration" where
  "redis_disabled env =
    (case find (\<lambda>key. map_of env key \<noteq> None \<or> map_of env (file_key key) \<noteq> None) (tl api_keys) of
       None \<Rightarrow> Inr Redis_Disabled | Some key \<Rightarrow> Inl key)"

definition redis_enabled :: "config_lib \<Rightarrow> environment \<Rightarrow> byte list list \<Rightarrow> string + api_redis_configuration" where
  "redis_enabled lib original cursorKeys =
    bindE (fileSecrets (cl_fs lib) original apiSecrets) (\<lambda>env.
    bindE (roleRedisUrl lib env ''LOREMASTER_REDIS_CACHE_URL'' ''loremaster_api_cache'') (\<lambda>cacheUrl.
    bindE (roleRedisUrl lib env ''LOREMASTER_REDIS_LIMITER_URL'' ''loremaster_api_limiter'') (\<lambda>limiterUrl.
    bindE (roleRedisUrl lib env ''LOREMASTER_REDIS_PRODUCER_URL'' ''loremaster_producer'') (\<lambda>producerUrl.
    bindE (producerDatabaseUrl lib env) (\<lambda>producerDbUrl.
    let usernames = map (user_of lib) [cacheUrl, limiterUrl, producerUrl]
    in bindE (invalid_when (length (remdups usernames) \<noteq> 3 \<or> Some [] \<in> set usernames) ''LOREMASTER_REDIS_CACHE_URL'') (\<lambda>_.
    bindE (limiter_key env cursorKeys) (\<lambda>key.
    bindE (limiter_version env) (\<lambda>version.
      Inr (Redis_Enabled \<lparr>ar_cacheUrl = cacheUrl, ar_limiterUrl = limiterUrl, ar_producerUrl = producerUrl,
        ar_producerDatabaseUrl = producerDbUrl, ar_limiterHmacKey = key, ar_limiterHmacVersion = version\<rparr>)))))))))"

definition parseApiRedisConfiguration :: "config_lib \<Rightarrow> environment \<Rightarrow> byte list list \<Rightarrow> string + api_redis_configuration" where
  "parseApiRedisConfiguration lib env cursorKeys =
    bindE (validate_names env api_keys apiSecrets) (\<lambda>_.
    bindE (redis_mode env) (\<lambda>_.
    let enabled = or_default env ''LOREMASTER_REDIS_ENABLED'' ''false''
    in bindE (invalid_when (enabled \<noteq> ''false'' \<and> enabled \<noteq> ''true'') ''LOREMASTER_REDIS_ENABLED'') (\<lambda>_.
      if enabled = ''false'' then redis_disabled env else redis_enabled lib env cursorKeys)))"

record worker_configuration =
  wc_redisUrl :: string
  wc_cacheRedisUrl :: string
  wc_databaseUrl :: string
  wc_healthHost :: string
  wc_concurrency :: int

definition parseWorkerConfiguration :: "config_lib \<Rightarrow> environment \<Rightarrow> string + worker_configuration" where
  "parseWorkerConfiguration lib original =
    bindE (validate_names original worker_keys workerSecrets) (\<lambda>_.
    bindE (redis_mode original) (\<lambda>_.
    bindE (fileSecrets (cl_fs lib) original workerSecrets) (\<lambda>env.
    bindE (roleRedisUrl lib env ''LOREMASTER_WORKER_REDIS_URL'' ''loremaster_worker'') (\<lambda>redis.
    bindE (roleRedisUrl lib env ''LOREMASTER_WORKER_CACHE_REDIS_URL'' ''loremaster_worker_cache'') (\<lambda>cacheRedis.
    bindE (invalid_when (user_of lib redis = user_of lib cacheRedis) ''LOREMASTER_WORKER_CACHE_REDIS_URL'') (\<lambda>_.
    bindE (postgres_url lib env ''LOREMASTER_WORKER_DATABASE_URL'') (\<lambda>databaseUrl.
    let raw = or_default env ''LOREMASTER_WORKER_CONCURRENCY'' ''2''
    in bindE (invalid_when (raw \<notin> {''1'', ''2'', ''3'', ''4''}) ''LOREMASTER_WORKER_CONCURRENCY'') (\<lambda>_.
    bindE (redis_listenHost env ''LOREMASTER_WORKER_LISTEN_HOST'') (\<lambda>healthHost.
      Inr \<lparr>wc_redisUrl = redis, wc_cacheRedisUrl = cacheRedis, wc_databaseUrl = databaseUrl, wc_healthHost = healthHost,
        wc_concurrency = digits_value raw\<rparr>)))))))))"

definition parseObserverConfiguration :: "config_lib \<Rightarrow> environment \<Rightarrow> string + (string \<times> string)" where
  "parseObserverConfiguration lib original =
    bindE (validate_names original observer_keys observerSecrets) (\<lambda>_.
    bindE (redis_mode original) (\<lambda>_.
    bindE (fileSecrets (cl_fs lib) original observerSecrets) (\<lambda>env.
    bindE (roleRedisUrl lib env ''LOREMASTER_OBSERVER_REDIS_URL'' ''loremaster_observer'') (\<lambda>redis.
    bindE (redis_listenHost env ''LOREMASTER_OBSERVER_LISTEN_HOST'') (\<lambda>healthHost. Inr (redis, healthHost))))))"

text \<open>The configuration of an API process (\<^verbatim>\<open>runProcess\<close> of \<^verbatim>\<open>apps/api/src/index.ts\<close>).\<close>

definition api_process_configuration :: "config_lib \<Rightarrow> environment \<Rightarrow> string list + server_configuration \<times> api_redis_configuration" where
  "api_process_configuration lib env =
    (case parseServerEnvironment lib env of
       Inl wrong \<Rightarrow> Inl wrong
     | Inr config \<Rightarrow>
         (case parseApiRedisConfiguration lib env
             (hk_key (sc_active config) # (case sc_previous config of None \<Rightarrow> [] | Some k \<Rightarrow> [hk_key k])) of
            Inl field \<Rightarrow> Inl [field] | Inr redis \<Rightarrow> Inr (config, redis)))"

section \<open>Roles\<close>

lemma invalid_when_simps [simp]: "invalid_when wrong field = Inr u \<longleftrightarrow> \<not> wrong"
  by (simp add: invalid_when_def)

text \<open>A URL a client of the given role can be opened with.\<close>

definition role_client :: "config_lib \<Rightarrow> server_mode \<Rightarrow> string \<Rightarrow> string \<Rightarrow> bool" where
  "role_client lib m user raw \<longleftrightarrow>
     (\<exists>u password. cl_url lib raw = Some u \<and> decodeURIComponent (ur_username u) = Some (points user) \<and>
        decodeURIComponent (ur_password u) = Some password \<and> password \<noteq> [] \<and> ur_hostname u \<noteq> [] \<and>
        (if m = Production then ur_protocol u = ''rediss:'' else ur_protocol u \<in> {''redis:'', ''rediss:''}))"

lemma url_text_Inr: "url_text env field = Inr raw \<Longrightarrow> map_of env field = Some raw"
  by (auto simp: url_text_def split: option.splits if_splits)

lemma redisUrl_Inr:
  assumes "redisUrl lib env field = Inr raw" "redis_mode env = Inr m"
  shows "map_of env field = Some raw \<and> (\<exists>u username password. cl_url lib raw = Some u \<and> decodeURIComponent (ur_username u) = Some username \<and>
    decodeURIComponent (ur_password u) = Some password \<and> redis_url_valid u username password \<and> (m = Production \<longrightarrow> ur_protocol u = ''rediss:''))"
proof -
  obtain raw' where t: "url_text env field = Inr raw'" using assms(1) by (cases "url_text env field") (auto simp: redisUrl_def)
  obtain u where u: "cl_url lib raw' = Some u" using assms(1) by (cases "cl_url lib raw'") (auto simp: redisUrl_def t)
  obtain username where n: "decodeURIComponent (ur_username u) = Some username"
    using assms(1) by (cases "decodeURIComponent (ur_username u)") (auto simp: redisUrl_def t u)
  obtain password where d: "decodeURIComponent (ur_password u) = Some password"
    using assms(1) by (cases "decodeURIComponent (ur_password u)") (auto simp: redisUrl_def t u n)
  have "raw' = raw \<and> redis_url_valid u username password \<and> (m = Production \<longrightarrow> ur_protocol u = ''rediss:'')"
    using assms by (auto simp: redisUrl_def t u n d split: if_splits)
  then show ?thesis using url_text_Inr [OF t] u n d by auto
qed

lemma roleRedisUrl_Inr:
  assumes "roleRedisUrl lib env field user = Inr raw" "redis_mode env = Inr m"
  shows "map_of env field = Some raw \<and> role_client lib m user raw"
proof -
  have r: "redisUrl lib env field = Inr raw" "user_of lib raw = Some (points user)"
    using assms(1) by (auto simp: roleRedisUrl_def bindE_eq_Inr)
  show ?thesis using redisUrl_Inr [OF r(1) assms(2)] r(2)
    by (auto simp: role_client_def redis_url_valid_def user_of_def)
qed

lemma postgres_url_Inr: "postgres_url lib env field = Inr raw \<Longrightarrow> map_of env field = Some raw"
  by (auto simp: postgres_url_def bindE_eq_Inr dest!: url_text_Inr split: option.splits)

lemma limiter_key_Inr:
  assumes "limiter_key env ks = Inr key"
  shows "32 \<le> length key \<and> length key \<le> 64 \<and> key \<notin> set ks \<and>
    (\<exists>material. map_of env ''LOREMASTER_REDIS_LIMITER_HMAC_KEY'' = Some material \<and> key = base64url_decode material)"
  using assms by (auto simp: limiter_key_def bindE_eq_Inr Let_def split: option.splits)

section \<open>Secrets\<close>

lemma fileSecrets_Inr:
  assumes "fileSecrets fs env keys = Inr env'"
  shows "resolveFileSecrets fs env keys = Inr env'" "\<exists>m. redis_mode env = Inr m \<and> requireFilesInProduction env m keys = Inr ()"
  using assms by (auto simp: fileSecrets_def bindE_eq_Inr)

lemma redis_mode_cong:
  "map_of env ''LOREMASTER_REDIS_MODE'' = map_of env' ''LOREMASTER_REDIS_MODE'' \<Longrightarrow>
   map_of env ''LOREMASTER_API_MODE'' = map_of env' ''LOREMASTER_API_MODE'' \<Longrightarrow> redis_mode env = redis_mode env'"
  by (simp add: redis_mode_def or_default_def Let_def)

lemma fileSecrets_mode:
  assumes "fileSecrets fs env keys = Inr env'" "''LOREMASTER_REDIS_MODE'' \<notin> set keys \<union> file_key ` set keys"
    "''LOREMASTER_API_MODE'' \<notin> set keys \<union> file_key ` set keys"
  shows "redis_mode env' = redis_mode env"
  using fileSecrets_Inr(1) [OF assms(1), unfolded resolveFileSecrets_def] assms(2,3) by (intro redis_mode_cong resolved_keys) auto

lemma fileSecrets_production:
  assumes "fileSecrets fs env keys = Inr env'" "redis_mode env = Inr Production" "distinct keys"
    "\<forall>a \<in> set keys. \<forall>b \<in> set keys. a \<noteq> file_key b" "key \<in> set keys" "map_of env' key = Some v"
  shows "from_file fs env key v"
  using file_secret [OF fileSecrets_Inr(1) [OF assms(1)] _ assms(3-6)] fileSecrets_Inr(2) [OF assms(1)] assms(2) by auto

lemma api_secret_facts:
  "distinct apiSecrets" "\<forall>a \<in> set apiSecrets. \<forall>b \<in> set apiSecrets. a \<noteq> file_key b"
  "''LOREMASTER_REDIS_MODE'' \<notin> set apiSecrets \<union> file_key ` set apiSecrets" "''LOREMASTER_API_MODE'' \<notin> set apiSecrets \<union> file_key ` set apiSecrets"
  by code_simp+

lemma worker_secret_facts:
  "distinct workerSecrets" "\<forall>a \<in> set workerSecrets. \<forall>b \<in> set workerSecrets. a \<noteq> file_key b"
  "''LOREMASTER_REDIS_MODE'' \<notin> set workerSecrets \<union> file_key ` set workerSecrets"
  "''LOREMASTER_API_MODE'' \<notin> set workerSecrets \<union> file_key ` set workerSecrets"
  by code_simp+

section \<open>Accepted configurations\<close>

text \<open>What the clients of Redis of an API process rely on.\<close>

definition api_redis_sound :: "config_lib \<Rightarrow> environment \<Rightarrow> server_mode \<Rightarrow> byte list list \<Rightarrow> api_redis \<Rightarrow> bool" where
  "api_redis_sound lib env m cursorKeys c \<longleftrightarrow>
     role_client lib m ''loremaster_api_cache'' (ar_cacheUrl c) \<and> role_client lib m ''loremaster_api_limiter'' (ar_limiterUrl c) \<and>
     role_client lib m ''loremaster_producer'' (ar_producerUrl c) \<and>
     32 \<le> length (ar_limiterHmacKey c) \<and> length (ar_limiterHmacKey c) \<le> 64 \<and> ar_limiterHmacKey c \<notin> set cursorKeys \<and>
     version_text (ar_limiterHmacVersion c) \<and>
     (m = Production \<longrightarrow>
        from_file (cl_fs lib) env ''LOREMASTER_REDIS_CACHE_URL'' (ar_cacheUrl c) \<and>
        from_file (cl_fs lib) env ''LOREMASTER_REDIS_LIMITER_URL'' (ar_limiterUrl c) \<and>
        from_file (cl_fs lib) env ''LOREMASTER_REDIS_PRODUCER_URL'' (ar_producerUrl c) \<and>
        from_file (cl_fs lib) env ''LOREMASTER_REDIS_PRODUCER_DATABASE_URL'' (ar_producerDatabaseUrl c) \<and>
        (\<exists>material. from_file (cl_fs lib) env ''LOREMASTER_REDIS_LIMITER_HMAC_KEY'' material \<and> ar_limiterHmacKey c = base64url_decode material))"

lemma api_redis_is_sound:
  assumes "parseApiRedisConfiguration lib env ks = Inr (Redis_Enabled c)"
  shows "\<exists>m. redis_mode env = Inr m \<and> api_redis_sound lib env m ks c"
proof -
  obtain m where m: "redis_mode env = Inr m" using assms by (auto simp: parseApiRedisConfiguration_def bindE_eq_Inr)
  have "redis_enabled lib env ks = Inr (Redis_Enabled c)"
    using assms by (auto simp: parseApiRedisConfiguration_def bindE_eq_Inr Let_def redis_disabled_def split: if_splits option.splits)
  then obtain env' where e: "fileSecrets (cl_fs lib) env apiSecrets = Inr env'"
    and r: "roleRedisUrl lib env' ''LOREMASTER_REDIS_CACHE_URL'' ''loremaster_api_cache'' = Inr (ar_cacheUrl c)"
      "roleRedisUrl lib env' ''LOREMASTER_REDIS_LIMITER_URL'' ''loremaster_api_limiter'' = Inr (ar_limiterUrl c)"
      "roleRedisUrl lib env' ''LOREMASTER_REDIS_PRODUCER_URL'' ''loremaster_producer'' = Inr (ar_producerUrl c)"
      "postgres_url lib env' ''LOREMASTER_REDIS_PRODUCER_DATABASE_URL'' = Inr (ar_producerDatabaseUrl c)"
      "limiter_key env' ks = Inr (ar_limiterHmacKey c)" "limiter_version env' = Inr (ar_limiterHmacVersion c)"
    unfolding redis_enabled_def bindE_eq_Inr Let_def producerDatabaseUrl_def by auto
  have m': "redis_mode env' = Inr m" using fileSecrets_mode [OF e api_secret_facts(3,4)] m by simp
  have v: "version_text (ar_limiterHmacVersion c)" using r(6) by (auto simp: limiter_version_def bindE_eq_Inr split: option.splits)
  note urls = roleRedisUrl_Inr [OF r(1) m'] roleRedisUrl_Inr [OF r(2) m'] roleRedisUrl_Inr [OF r(3) m']
  note key = limiter_key_Inr [OF r(5)]
  have "api_redis_sound lib env m ks c"
  proof (cases "m = Production")
    case True
    note secret = fileSecrets_production [OF e m [unfolded True] api_secret_facts(1,2)]
    have "from_file (cl_fs lib) env ''LOREMASTER_REDIS_CACHE_URL'' (ar_cacheUrl c)"
      "from_file (cl_fs lib) env ''LOREMASTER_REDIS_LIMITER_URL'' (ar_limiterUrl c)"
      "from_file (cl_fs lib) env ''LOREMASTER_REDIS_PRODUCER_URL'' (ar_producerUrl c)"
      "from_file (cl_fs lib) env ''LOREMASTER_REDIS_PRODUCER_DATABASE_URL'' (ar_producerDatabaseUrl c)"
      using urls postgres_url_Inr [OF r(4)] by (simp_all add: secret apiSecrets_def)
    moreover have "\<exists>material. from_file (cl_fs lib) env ''LOREMASTER_REDIS_LIMITER_HMAC_KEY'' material \<and> ar_limiterHmacKey c = base64url_decode material"
      using key secret [of "''LOREMASTER_REDIS_LIMITER_HMAC_KEY''"] by (auto simp: apiSecrets_def)
    ultimately show ?thesis using urls key v unfolding api_redis_sound_def by blast
  qed (use urls key v in \<open>simp add: api_redis_sound_def\<close>)
  with m show ?thesis by blast
qed

lemma worker_configuration_is_sound:
  assumes "parseWorkerConfiguration lib env = Inr c"
  shows "\<exists>m. redis_mode env = Inr m \<and> role_client lib m ''loremaster_worker'' (wc_redisUrl c) \<and>
    role_client lib m ''loremaster_worker_cache'' (wc_cacheRedisUrl c) \<and> 1 \<le> wc_concurrency c \<and> wc_concurrency c \<le> 4 \<and>
    (m = Production \<longrightarrow> from_file (cl_fs lib) env ''LOREMASTER_WORKER_REDIS_URL'' (wc_redisUrl c) \<and>
       from_file (cl_fs lib) env ''LOREMASTER_WORKER_CACHE_REDIS_URL'' (wc_cacheRedisUrl c) \<and>
       from_file (cl_fs lib) env ''LOREMASTER_WORKER_DATABASE_URL'' (wc_databaseUrl c))"
proof -
  obtain m env' raw where m: "redis_mode env = Inr m" and e: "fileSecrets (cl_fs lib) env workerSecrets = Inr env'"
    and r: "roleRedisUrl lib env' ''LOREMASTER_WORKER_REDIS_URL'' ''loremaster_worker'' = Inr (wc_redisUrl c)"
      "roleRedisUrl lib env' ''LOREMASTER_WORKER_CACHE_REDIS_URL'' ''loremaster_worker_cache'' = Inr (wc_cacheRedisUrl c)"
      "postgres_url lib env' ''LOREMASTER_WORKER_DATABASE_URL'' = Inr (wc_databaseUrl c)"
    and n: "raw \<in> {''1'', ''2'', ''3'', ''4''}" "wc_concurrency c = digits_value raw"
    using assms unfolding parseWorkerConfiguration_def bindE_eq_Inr Let_def invalid_when_simps
    by (elim exE conjE) (simp only: not_not, metis sum.inject(2) worker_configuration.select_convs)
  have m': "redis_mode env' = Inr m" using fileSecrets_mode [OF e worker_secret_facts(3,4)] m by simp
  note urls = roleRedisUrl_Inr [OF r(1) m'] roleRedisUrl_Inr [OF r(2) m'] postgres_url_Inr [OF r(3)]
  have "digits_value ''1'' = 1" "digits_value ''2'' = 2" "digits_value ''3'' = 3" "digits_value ''4'' = 4" by code_simp+
  then have c: "1 \<le> wc_concurrency c \<and> wc_concurrency c \<le> 4" using n by auto
  have "from_file (cl_fs lib) env ''LOREMASTER_WORKER_REDIS_URL'' (wc_redisUrl c) \<and>
       from_file (cl_fs lib) env ''LOREMASTER_WORKER_CACHE_REDIS_URL'' (wc_cacheRedisUrl c) \<and>
       from_file (cl_fs lib) env ''LOREMASTER_WORKER_DATABASE_URL'' (wc_databaseUrl c)" if "m = Production"
    using urls fileSecrets_production [OF e m [unfolded that] worker_secret_facts(1,2)] by (simp add: workerSecrets_def)
  then show ?thesis using m urls c by blast
qed

text \<open>The two parsers read the same mode.\<close>

lemma same_mode:
  assumes "parseServerEnvironment lib env = Inr c" "redis_mode env = Inr m"
  shows "m = sc_mode c"
proof -
  obtain env' where r: "resolve_secrets (cl_fs lib) env env SECRET_KEYS = Inr env'" "parse_resolved lib env env' = Inr c"
    using assms(1) by (auto simp: parseServerEnvironment_def resolveFileSecrets_def split: sum.splits)
  have "''LOREMASTER_API_MODE'' \<notin> set SECRET_KEYS \<and> ''LOREMASTER_API_MODE'' \<notin> file_key ` set SECRET_KEYS" by code_simp
  then have e: "map_of env' ''LOREMASTER_API_MODE'' = map_of env ''LOREMASTER_API_MODE''" using resolved_keys [OF r(1)] by blast
  obtain raw where q: "required env' ''LOREMASTER_API_MODE'' = ([], raw)" "sc_mode c = (if raw = ''production'' then Production else Local_Mode)"
    using parse_resolved_Inr(1) [OF r(2)] by (auto simp: parse_mode_def split: prod.splits)
  have "map_of env ''LOREMASTER_API_MODE'' = Some raw" using required_value [OF q(1)] e by simp
  then show ?thesis using assms(2) q(2) by (auto simp: redis_mode_def or_default_def Let_def split: if_splits)
qed

text \<open>Property C22. An API process that starts with Redis has one mode for the server and for Redis. Cache, limiter and producer each log in as
  the one user of their role, in production over TLS and with secrets from protected files only; the key that blinds the limiter's
  identities has 32 to 64 bytes and is none of the keys that sign cursors.\<close>

theorem started_api_separates_its_roles:
  assumes "api_process_configuration lib env = Inr (config, Redis_Enabled redis)"
  shows "redis_mode env = Inr (sc_mode config) \<and> ar_limiterHmacKey redis \<noteq> hk_key (sc_active config) \<and>
    (case sc_previous config of None \<Rightarrow> True | Some k \<Rightarrow> ar_limiterHmacKey redis \<noteq> hk_key k) \<and>
    api_redis_sound lib env (sc_mode config) [hk_key (sc_active config)] redis"
proof -
  let ?ks = "hk_key (sc_active config) # (case sc_previous config of None \<Rightarrow> [] | Some k \<Rightarrow> [hk_key k])"
  have c: "parseServerEnvironment lib env = Inr config" "parseApiRedisConfiguration lib env ?ks = Inr (Redis_Enabled redis)"
    using assms by (auto simp: api_process_configuration_def split: sum.splits)
  obtain m where m: "redis_mode env = Inr m" "api_redis_sound lib env m ?ks redis" using api_redis_is_sound [OF c(2)] by blast
  then show ?thesis using same_mode [OF c(1) m(1)] by (auto simp: api_redis_sound_def split: option.splits)
qed

section \<open>Witness\<close>

definition redis_sample_url :: "string \<Rightarrow> string \<Rightarrow> url" where
  "redis_sample_url protocol user = \<lparr>ur_protocol = protocol, ur_username = user, ur_password = ''p%20w'', ur_hostname = ''r'',
     ur_port = [], ur_pathname = [], ur_search = [], ur_hash = [], ur_origin = ''null''\<rparr>"

definition redis_sample_lib :: config_lib where
  "redis_sample_lib = sample_config_lib\<lparr>cl_url := (\<lambda>text.
     if text = ''redis://c'' then Some (redis_sample_url ''redis:'' ''loremaster_api_cache'')
     else if text = ''redis://l'' then Some (redis_sample_url ''redis:'' ''loremaster%5Fapi_limiter'')
     else if text = ''redis://p'' then Some (redis_sample_url ''redis:'' ''loremaster_producer'')
     else sample_url text)\<rparr>"

definition redis_environment :: environment where
  "redis_environment = [(''LOREMASTER_API_MODE'', ''local''), (''DATABASE_URL'', sample_database_url),
     (''LOREMASTER_API_ORIGIN'', ''https://lore.example''), (''LOREMASTER_API_CURSOR_ACTIVE_VERSION'', ''v1''),
     (''LOREMASTER_API_CURSOR_ACTIVE_KEY'', replicate 43 (CHR ''A'')), (''LOREMASTER_REDIS_ENABLED'', ''true''),
     (''LOREMASTER_REDIS_CACHE_URL'', ''redis://c''), (''LOREMASTER_REDIS_LIMITER_URL'', ''redis://l''),
     (''LOREMASTER_REDIS_PRODUCER_URL'', ''redis://p''), (''LOREMASTER_REDIS_PRODUCER_DATABASE_URL'', sample_database_url),
     (''LOREMASTER_REDIS_LIMITER_HMAC_KEY'', CHR ''B'' # replicate 42 (CHR ''A'')), (''LOREMASTER_REDIS_LIMITER_HMAC_VERSION'', ''v1'')]"

definition redis_sample :: api_redis where
  "redis_sample = \<lparr>ar_cacheUrl = ''redis://c'', ar_limiterUrl = ''redis://l'', ar_producerUrl = ''redis://p'',
     ar_producerDatabaseUrl = sample_database_url, ar_limiterHmacKey = 4 # replicate 31 0, ar_limiterHmacVersion = ''v1''\<rparr>"

definition local_configuration :: server_configuration where
  "local_configuration = production_configuration\<lparr>sc_mode := Local_Mode, sc_trustedProxies := [],
     sc_sessionCookie := config_cookie ''loremaster_local_session'' False True, sc_csrfCookie := config_cookie ''loremaster_local_csrf'' False False\<rparr>"

lemma redis_started: "api_process_configuration redis_sample_lib redis_environment = Inr (local_configuration, Redis_Enabled redis_sample)"
  by code_simp

theorem started_api_separates_its_roles_witness:
  "redis_mode redis_environment = Inr Local_Mode \<and>
   api_redis_sound redis_sample_lib redis_environment Local_Mode [replicate 32 0] redis_sample"
  using started_api_separates_its_roles [OF redis_started] by (simp add: local_configuration_def production_configuration_def)

end
