(* ===== verification/Warm_Queue.thy ===== *)
theory Warm_Queue
  imports Cache_Redis Shared_Limiter Http
begin

text \<open>
  The queue that warms the cache of suggestions (\<^verbatim>\<open>packages/queue/src\<close>): payloads and job identities (\<^verbatim>\<open>index.ts\<close>), the
  producer with its admission script (\<^verbatim>\<open>producer.ts\<close>), the processing of a job (\<^verbatim>\<open>worker.ts\<close>) and the guard of the scripts
  (\<^verbatim>\<open>script-guard.ts\<close>). Of BullMQ the model has what the code relies on: jobs are kept by identity, adding one that exists does
  nothing, a job is in one of six places and leaves the terminal ones only by being removed.

  The producers and the workers are a step relation: a producer's run is a sequence of commands, each atomic at Redis, and other
  steps may come between them. Results: with any number of producers at most 128 jobs are outstanding, and a job the
  producers enqueued passes every check of the worker.
\<close>

section \<open>Payloads and identities\<close>

definition WARM_JOB_NAME :: string where
  "WARM_JOB_NAME = ''warm-current-revision-v1''"

definition payloadMaxBytes :: nat where "payloadMaxBytes = 128"
definition maximumOutstandingJobs :: int where "maximumOutstandingJobs = 128"
definition maximumAgeMs :: int where "maximumAgeMs = 172800000"
definition producerDeadlineMs :: int where "producerDeadlineMs = 1000"
definition warm_attempts :: int where "warm_attempts = 3"

definition warm_payload :: "string \<Rightarrow> js_value" where
  "warm_payload revisionId = Object [(''version'', JInt 1), (''revisionId'', String revisionId)]"

text \<open>\<open>None\<close> where \<^verbatim>\<open>parseWarmPayload\<close> throws, else the revision of the payload.\<close>

definition parseWarmPayload :: "js_value \<Rightarrow> string option" where
  "parseWarmPayload v =
    (case record_fields v [''version'', ''revisionId''] of
       Inl e \<Rightarrow> None
     | Inr fs \<Rightarrow>
         if js_field v ''version'' \<noteq> JInt 1 then None
         else (case js_field v ''revisionId'' of
             String r \<Rightarrow>
               if \<not> is_revision_id r then None
               else (case json_text (warm_payload r) of
                   None \<Rightarrow> None
                 | Some t \<Rightarrow> if payloadMaxBytes < length t then None else Some r)
           | _ \<Rightarrow> None))"

definition parseWarmResult :: "js_value \<Rightarrow> bool" where
  "parseWarmResult v \<longleftrightarrow> (\<exists>fs. record_fields v [''version'', ''status''] = Inr fs) \<and>
     js_field v ''version'' = JInt 1 \<and> js_field v ''status'' = String ''warmed''"

definition warmJobId :: "string \<Rightarrow> string option" where
  "warmJobId revisionId = map_option ((@) ''warm-v1-'') (parseWarmPayload (warm_payload revisionId))"

section \<open>The admission script\<close>

datatype job_place = Waiting | Active | Delayed | Prioritized | Completed | Failed

record warm_job =
  wj_place :: job_place
  wj_name :: string
  wj_data :: js_value
  wj_timestamp :: int

type_synonym jobs = "(string \<times> warm_job) list"

definition outstanding :: "job_place \<Rightarrow> bool" where
  "outstanding p \<longleftrightarrow> p \<noteq> Completed \<and> p \<noteq> Failed"

definition in_place :: "job_place \<Rightarrow> jobs \<Rightarrow> jobs" where
  "in_place p js = filter (\<lambda>j. wj_place (snd j) = p) js"

definition admission_key :: string where
  "admission_key = ''loremaster:v1:queue:loremaster-warm-v1:admission''"

text \<open>\<open>PRODUCER_ADMISSION_V1_LUA\<close>: the answer 0 (full), 1 (admitted) or 2 (reserved already) and the database.\<close>

definition admission_script :: "int \<Rightarrow> jobs \<Rightarrow> string \<Rightarrow> int \<Rightarrow> redis_db \<Rightarrow> int \<times> redis_db" where
  "admission_script us js ident maximum db =
    (let now = now_ms us; db1 = zremrangebyscore now admission_key db
     in if ident \<in> fst ` set (zmembers now admission_key db1) then (2, db1)
        else let count = length (zmembers now admission_key db1) + length (in_place Waiting js) + length (in_place Active js) +
               length (in_place Delayed js) + length (in_place Prioritized js)
          in if maximum \<le> int count then (0, db1) else (1, zadd_pexpire now admission_key (now + 2000) ident 3000 db1))"

definition zrem :: "int \<Rightarrow> string \<Rightarrow> string \<Rightarrow> redis_db \<Rightarrow> redis_db" where
  "zrem now k member db = db\<lparr>r_sets := (r_sets db)(k :=
     (case live now (r_sets db k) of None \<Rightarrow> None | Some ms \<Rightarrow> Some (AList.delete member ms, set_expiry now k db)))\<rparr>"

section \<open>Producers and workers\<close>

text \<open>Where a run of a producer stands: it read the current revision, looked for the job, and so on. A run that is over,
  whether it succeeded, found a duplicate, met an error or its deadline, is \<open>Idle\<close>.\<close>

datatype run_state = Idle
  | Looking int string
  | Removing int string
  | Reserving int string
  | Adding int string
  | Releasing int string

record warm_world =
  ww_us :: int
  ww_jobs :: jobs
  ww_redis :: redis_db
  ww_runs :: "nat \<Rightarrow> run_state"

definition set_run :: "nat \<Rightarrow> run_state \<Rightarrow> warm_world \<Rightarrow> warm_world" where
  "set_run p r w = w\<lparr>ww_runs := (ww_runs w)(p := r)\<rparr>"

definition queue_job :: "string \<Rightarrow> int \<Rightarrow> warm_job" where
  "queue_job revisionId timestamp =
    \<lparr>wj_place = Waiting, wj_name = WARM_JOB_NAME, wj_data = warm_payload revisionId, wj_timestamp = timestamp\<rparr>"

definition the_id :: "string \<Rightarrow> string" where
  "the_id revisionId = ''warm-v1-'' @ revisionId"

text \<open>\<open>queue.add\<close> with a \<^verbatim>\<open>jobId\<close>: an existing job stays as it is.\<close>

definition add_job :: "string \<Rightarrow> warm_job \<Rightarrow> jobs \<Rightarrow> jobs" where
  "add_job ident j js = (case map_of js ident of None \<Rightarrow> (ident, j) # js | Some _ \<Rightarrow> js)"

text \<open>After \<^verbatim>\<open>getJob\<close> and \<^verbatim>\<open>getState\<close>: a finished job is removed, any other is a duplicate.\<close>

definition after_look :: "int \<Rightarrow> string \<Rightarrow> jobs \<Rightarrow> run_state" where
  "after_look started rv js =
    (case map_of js (the_id rv) of
       None \<Rightarrow> Reserving started rv
     | Some j \<Rightarrow> if wj_place j = Completed \<or> wj_place j = Failed then Removing started rv else Idle)"

definition after_admission :: "int \<Rightarrow> string \<Rightarrow> int \<Rightarrow> run_state" where
  "after_admission started rv admitted = (if admitted = 1 then Adding started rv else Idle)"

text \<open>A command is sent before the deadline of its run, one second after the run began, and the connection is cut at the
  deadline; \<open>timely\<close> lets Redis execute it up to one second later.\<close>

definition timely :: "int \<Rightarrow> warm_world \<Rightarrow> bool" where
  "timely started w \<longleftrightarrow> now_ms (ww_us w) < started + producerDeadlineMs + 1000"

inductive warm_step :: "warm_world \<Rightarrow> warm_world \<Rightarrow> bool" where
  tick: "ww_us w \<le> t \<Longrightarrow> warm_step w (w\<lparr>ww_us := t\<rparr>)"
| begin_run: "ww_runs w p = Idle \<Longrightarrow> warmJobId rv \<noteq> None \<Longrightarrow> warm_step w (set_run p (Looking (now_ms (ww_us w)) rv) w)"
| give_up: "warm_step w (set_run p Idle w)"
| look: "ww_runs w p = Looking started rv \<Longrightarrow> timely started w \<Longrightarrow> warm_step w (set_run p (after_look started rv (ww_jobs w)) w)"
| remove_old: "ww_runs w p = Removing started rv \<Longrightarrow> timely started w \<Longrightarrow>
    warm_step w (set_run p (Reserving started rv) (w\<lparr>ww_jobs := AList.delete (the_id rv) (ww_jobs w)\<rparr>))"
| reserve: "ww_runs w p = Reserving started rv \<Longrightarrow> timely started w \<Longrightarrow>
    admission_script (ww_us w) (ww_jobs w) (the_id rv) maximumOutstandingJobs (ww_redis w) = (admitted, db) \<Longrightarrow>
    warm_step w (set_run p (after_admission started rv admitted) (w\<lparr>ww_redis := db\<rparr>))"
| add: "ww_runs w p = Adding started rv \<Longrightarrow> timely started w \<Longrightarrow>
    warm_step w (set_run p (Releasing started rv) (w\<lparr>ww_jobs := add_job (the_id rv) (queue_job rv (now_ms (ww_us w))) (ww_jobs w)\<rparr>))"
| release: "ww_runs w p = Releasing started rv \<Longrightarrow> timely started w \<Longrightarrow>
    warm_step w (set_run p Idle (w\<lparr>ww_redis := zrem (now_ms (ww_us w)) admission_key (the_id rv) (ww_redis w)\<rparr>))"
| move_job: "map_of (ww_jobs w) ident = Some j \<Longrightarrow> outstanding (wj_place j) \<Longrightarrow>
    warm_step w (w\<lparr>ww_jobs := AList.update ident (j\<lparr>wj_place := place\<rparr>) (ww_jobs w)\<rparr>)"
| drop_job: "warm_step w (w\<lparr>ww_jobs := AList.delete ident (ww_jobs w)\<rparr>)"

definition empty_queue :: warm_world where
  "empty_queue = \<lparr>ww_us = 0, ww_jobs = [], ww_redis = empty_redis, ww_runs = (\<lambda>_. Idle)\<rparr>"

inductive reachable :: "warm_world \<Rightarrow> bool" where
  start: "reachable empty_queue"
| step: "reachable w \<Longrightarrow> warm_step w w' \<Longrightarrow> reachable w'"

section \<open>Processing of a job\<close>

text \<open>What a port answers: a value, or an error that is the codec's, an \<open>UnrecoverableError\<close> or another; and whether the signal is
  aborted by then.\<close>

datatype port_error = Invalid_Index | Unrecoverable_Error | Other_Error
datatype warm_event = E_warmed | E_poison | E_transient
datatype job_failure = Unrecoverable string | Retryable string

definition job_checks :: "int \<Rightarrow> string \<Rightarrow> warm_job \<Rightarrow> string option" where
  "job_checks now ident j =
    (if wj_name j \<noteq> WARM_JOB_NAME \<or> \<not> is_safe_int (wj_timestamp j) \<or> now + 60000 < wj_timestamp j \<or> maximumAgeMs < now - wj_timestamp j
     then None
     else (case parseWarmPayload (wj_data j) of
         None \<Rightarrow> None
       | Some r \<Rightarrow> if Some ident \<noteq> warmJobId r then None else Some r))"

definition port_failure :: "port_error \<Rightarrow> job_failure \<times> warm_event" where
  "port_failure e =
    (case e of
       Invalid_Index \<Rightarrow> (Unrecoverable ''Invalid published suggestion index'', E_poison)
     | Unrecoverable_Error \<Rightarrow> (Unrecoverable ''Published revision unavailable'', E_poison)
     | Other_Error \<Rightarrow> (Retryable ''Warm dependency unavailable'', E_transient))"

definition processWarmJob ::
  "int \<Rightarrow> string \<Rightarrow> warm_job \<Rightarrow> (string \<Rightarrow> (port_error + 'i option) \<times> bool) \<Rightarrow> ('i \<Rightarrow> (port_error + unit) \<times> bool) \<Rightarrow>
     (job_failure + unit) \<times> warm_event" where
  "processWarmJob now ident j readIndex writeIndex =
    (case job_checks now ident j of
       None \<Rightarrow> (Inl (Unrecoverable ''Invalid warm job''), E_poison)
     | Some rv \<Rightarrow>
         (case readIndex rv of
            (Inl e, aborted) \<Rightarrow> (Inl (fst (port_failure e)), snd (port_failure e))
          | (Inr None, aborted) \<Rightarrow> (Inl (fst (port_failure Unrecoverable_Error)), snd (port_failure Unrecoverable_Error))
          | (Inr (Some index), aborted) \<Rightarrow>
              if aborted then (Inl (fst (port_failure Other_Error)), snd (port_failure Other_Error))
              else (case writeIndex index of
                  (Inl e, late) \<Rightarrow> (Inl (fst (port_failure e)), snd (port_failure e))
                | (Inr u, late) \<Rightarrow>
                    if late then (Inl (fst (port_failure Other_Error)), snd (port_failure Other_Error)) else (Inr (), E_warmed))))"

text \<open>The options a job comes with; they are replaced by the worker's own before the job runs.\<close>

definition processJob ::
  "int \<Rightarrow> int option \<Rightarrow> int \<Rightarrow> string \<Rightarrow> warm_job \<Rightarrow> (string \<Rightarrow> (port_error + 'i option) \<times> bool) \<Rightarrow> ('i \<Rightarrow> (port_error + unit) \<times> bool) \<Rightarrow>
     (job_failure + unit) \<times> warm_event" where
  "processJob now optAttempts attemptsMade ident j readIndex writeIndex =
    (if (case optAttempts of None \<Rightarrow> False | Some a \<Rightarrow> is_safe_int a \<and> 1 \<le> a \<and> a \<le> warm_attempts) \<and> attemptsMade < warm_attempts
     then processWarmJob now ident j readIndex writeIndex
     else (Inl (Unrecoverable ''Invalid warm options''), E_poison))"

section \<open>The guard of the scripts\<close>

record reviewed_script =
  rs_roles :: "string list"
  rs_numberOfKeys :: nat
  rs_sha256 :: string

record script_inventory =
  sv_bullmqVersion :: string
  sv_scripts :: "(string \<times> reviewed_script) list"

definition queue_key_start :: string where
  "queue_key_start = ''loremaster:v1:queue:loremaster-warm-v1:''"

definition queue_key :: "js_value \<Rightarrow> bool" where
  "queue_key v \<longleftrightarrow> (case v of
     String s \<Rightarrow> take (length queue_key_start) s = queue_key_start \<and> drop (length queue_key_start) s \<noteq> [] \<and>
       list_all (\<lambda>c. alphanumeric c \<or> c \<in> set '':_-'') (drop (length queue_key_start) s)
   | _ \<Rightarrow> False)"

text \<open>The review of a script the client defines, and of a call of it; \<open>digest_of\<close> is the hexadecimal digest of \<^verbatim>\<open>node:crypto\<close>.\<close>

definition reviewed :: "script_inventory \<Rightarrow> string \<Rightarrow> reviewed_script option" where
  "reviewed inventory name =
    (case js_split (CHR '':'') name of base # _ \<Rightarrow> if base = [] then None else map_of (sv_scripts inventory) base | [] \<Rightarrow> None)"

definition script_valid :: "(string \<Rightarrow> string) \<Rightarrow> script_inventory \<Rightarrow> string \<Rightarrow> string \<Rightarrow> nat option \<Rightarrow> string \<Rightarrow> bool" where
  "script_valid digest_of inventory role name numberOfKeys lua \<longleftrightarrow>
     (case (js_split (CHR '':'') name, reviewed inventory name) of
        (_ # version # _, Some r) \<Rightarrow> version = sv_bullmqVersion inventory \<and> role \<in> set (rs_roles r) \<and>
          numberOfKeys = Some (rs_numberOfKeys r) \<and> rs_sha256 r = digest_of lua
      | _ \<Rightarrow> False)"

definition call_admitted ::
  "(string \<Rightarrow> string) \<Rightarrow> script_inventory \<Rightarrow> string \<Rightarrow> string \<Rightarrow> nat option \<Rightarrow> string \<Rightarrow> js_value \<Rightarrow> bool" where
  "call_admitted digest_of inventory role name numberOfKeys lua args \<longleftrightarrow>
     script_valid digest_of inventory role name numberOfKeys lua \<and>
     (case (args, reviewed inventory name) of
        (Array vs, Some r) \<Rightarrow> rs_numberOfKeys r \<le> length vs \<and> list_all queue_key (take (rs_numberOfKeys r) vs)
      | _ \<Rightarrow> False)"

section \<open>Identities are read back\<close>

lemma revision_chars:
  assumes "is_revision_id s"
  shows "length s = 36" "\<forall>c \<in> set s. c \<in> set (CHR ''-'' # LOWER_HEX)"
proof -
  have l: "list_all2 (\<lambda>c cs. c \<in> set cs) s revision_key_classes" using assms by (simp add: is_revision_id_def)
  then show "length s = 36" by (auto simp: revision_key_classes_def dest!: list_all2_lengthD)
  have sub: "\<forall>cs \<in> set revision_key_classes. set cs \<subseteq> set (CHR ''-'' # LOWER_HEX)"
    unfolding revision_key_classes_def by (simp add: subset_iff)
  show "\<forall>c \<in> set s. c \<in> set (CHR ''-'' # LOWER_HEX)"
  proof
    fix c assume "c \<in> set s"
    then obtain k where k: "k < length s" "c = s ! k" by (auto simp: in_set_conv_nth)
    have "s ! k \<in> set (revision_key_classes ! k)" "revision_key_classes ! k \<in> set revision_key_classes"
      using list_all2_nthD [OF l k(1)] list_all2_lengthD [OF l] k(1) nth_mem by auto
    then show "c \<in> set (CHR ''-'' # LOWER_HEX)" using sub k(2) by blast
  qed
qed

lemma plain_chars: "\<forall>c \<in> set (CHR ''-'' # LOWER_HEX). json_char c = [c]"
  by code_simp

lemma payload_text:
  assumes "is_revision_id s"
  shows "\<exists>t. json_text (warm_payload s) = Some t \<and> length t \<le> payloadMaxBytes"
proof -
  have "\<forall>c \<in> set s. json_char c = [c]" using revision_chars(2) [OF assms] plain_chars by blast
  then have "concat (map json_char s) = s" by (induction s) auto
  then have s: "json_string s = CHR 34 # s @ [CHR 34]" by (simp add: json_string_def)
  have f: "json_string ''version'' = CHR 34 # ''version'' @ [CHR 34]" "json_string ''revisionId'' = CHR 34 # ''revisionId'' @ [CHR 34]"
    "json_text (JInt 1) = Some ''1''"
    by code_simp+
  show ?thesis using revision_chars(1) [OF assms]
    by (simp add: warm_payload_def f s those_def json_object_def JInt_def [symmetric] del: json_text.simps(4)) (simp add: payloadMaxBytes_def f s json_object_def)
qed

lemma payload_read [simp]: "parseWarmPayload (warm_payload r) = (if is_revision_id r then Some r else None)"
  using payload_text [of r] by (auto simp: parseWarmPayload_def record_fields_def warm_payload_def split: if_splits option.splits)

lemma warmJobId_iff: "warmJobId r = (if is_revision_id r then Some (the_id r) else None)"
  by (simp add: warmJobId_def the_id_def)

lemma the_id_inject [simp]: "the_id a = the_id b \<longleftrightarrow> a = b"
  by (simp add: the_id_def)

section \<open>Reservations\<close>

definition reservations :: "redis_db \<Rightarrow> (string \<times> int) list" where
  "reservations db = (case r_sets db admission_key of None \<Rightarrow> [] | Some (ms, e) \<Rightarrow> ms)"

text \<open>The key of the reservations outlives each of them.\<close>

definition db_ok :: "int \<Rightarrow> redis_db \<Rightarrow> bool" where
  "db_ok n db \<longleftrightarrow> (case r_sets db admission_key of None \<Rightarrow> True | Some (ms, e) \<Rightarrow> \<forall>m \<in> set ms. snd m \<le> e \<and> snd m \<le> n + 2000)"

definition holds :: "int \<Rightarrow> string \<Rightarrow> redis_db \<Rightarrow> bool" where
  "holds until ident db \<longleftrightarrow> (\<exists>s. (ident, s) \<in> set (reservations db) \<and> until \<le> s)"

abbreviation reserved :: "int \<Rightarrow> redis_db \<Rightarrow> string set" where
  "reserved n db \<equiv> fst ` set (zmembers n admission_key db)"

lemma members_are_reservations: "set (zmembers n k db) \<subseteq> set (case r_sets db k of None \<Rightarrow> [] | Some (ms, e) \<Rightarrow> ms)"
  by (auto simp: zmembers_def live_def split: option.splits if_splits)

lemma db_ok_mono: "db_ok n db \<Longrightarrow> n \<le> n' \<Longrightarrow> db_ok n' db"
  by (force simp: db_ok_def split: option.splits)

lemma held_is_reserved: "db_ok n db \<Longrightarrow> holds until ident db \<Longrightarrow> n < until \<Longrightarrow> ident \<in> reserved n db"
  by (force simp: db_ok_def holds_def reservations_def zmembers_def live_def split: option.splits prod.splits)

lemma reserved_mono: "n \<le> n' \<Longrightarrow> reserved n' db \<subseteq> reserved n db"
  by (auto simp: zmembers_def live_def split: option.splits if_splits)

lemma purge:
  "db_ok n db \<Longrightarrow> db_ok n (zremrangebyscore n admission_key db)"
  "reserved n (zremrangebyscore n admission_key db) \<subseteq> reserved n db"
  "db_ok n db \<Longrightarrow> n < until \<Longrightarrow> holds until ident db \<Longrightarrow> holds until ident (zremrangebyscore n admission_key db)"
  by (force simp: db_ok_def holds_def reservations_def zmembers_def live_def zremrangebyscore_def set_expiry_def split: option.splits if_splits prod.splits)+

lemma set_delete_key: "set (AList.delete k m) = {x \<in> set m. fst x \<noteq> k}"
  by (auto simp: AList.delete_eq)

lemma set_update_key:
  "(k, v) \<in> set (AList.update k v m)" "set (AList.update k v m) \<subseteq> insert (k, v) (set m)"
  "fst x \<noteq> k \<Longrightarrow> x \<in> set (AList.update k v m) \<longleftrightarrow> x \<in> set m" "fst ` set (AList.update k v m) = insert k (fst ` set m)"
  by (induction m) auto

lemma removed:
  assumes "db_ok n db"
  shows "db_ok n (zrem n admission_key i db)" "reserved n (zrem n admission_key i db) \<subseteq> reserved n db"
    "n < until \<Longrightarrow> ident \<noteq> i \<Longrightarrow> holds until ident db \<Longrightarrow> holds until ident (zrem n admission_key i db)"
proof -
  show "db_ok n (zrem n admission_key i db)"
    using assms by (auto simp: db_ok_def zrem_def live_def set_expiry_def set_delete_key split: option.splits)
  show "reserved n (zrem n admission_key i db) \<subseteq> reserved n db"
    by (auto simp: zmembers_def live_def zrem_def set_expiry_def set_delete_key split: option.splits if_splits)
  assume a: "n < until" "ident \<noteq> i" "holds until ident db"
  then obtain s ms e where s: "r_sets db admission_key = Some (ms, e)" "(ident, s) \<in> set ms" "until \<le> s"
    by (cases "r_sets db admission_key") (auto simp: holds_def reservations_def)
  then have "s \<le> e" using assms by (auto simp: db_ok_def)
  then show "holds until ident (zrem n admission_key i db)"
    using s a by (auto simp: holds_def reservations_def zrem_def live_def set_delete_key)
qed

lemma admitted:
  assumes "db_ok n db"
  shows "db_ok n (zadd_pexpire n admission_key (n + 2000) i 3000 db)"
    "reserved n (zadd_pexpire n admission_key (n + 2000) i 3000 db) = insert i (reserved n db)"
    "until \<le> n + 2000 \<Longrightarrow> holds until i (zadd_pexpire n admission_key (n + 2000) i 3000 db)"
    "n < until \<Longrightarrow> ident \<noteq> i \<Longrightarrow> holds until ident db \<Longrightarrow> holds until ident (zadd_pexpire n admission_key (n + 2000) i 3000 db)"
proof -
  let ?db = "zadd_pexpire n admission_key (n + 2000) i 3000 db"
  show "db_ok n ?db"
    using assms subsetD [OF set_update_key(2) [of i "n + 2000" "zmembers n admission_key db"]]
    by (fastforce simp: db_ok_def zadd_pexpire_def zmembers_def live_def split: option.splits if_splits)
  show "reserved n ?db = insert i (reserved n db)"
    using zmembers_zadd [of 3000 n admission_key "n + 2000" i db] by (simp add: set_update_key)
  show "until \<le> n + 2000 \<Longrightarrow> holds until i ?db"
    using set_update_key(1) by (auto simp: holds_def reservations_def zadd_pexpire_def intro!: exI [of _ "n + 2000"])
  assume a: "n < until" "ident \<noteq> i" "holds until ident db"
  then obtain s ms e where s: "r_sets db admission_key = Some (ms, e)" "(ident, s) \<in> set ms" "until \<le> s"
    by (cases "r_sets db admission_key") (auto simp: holds_def reservations_def)
  then have "s \<le> e" using assms by (auto simp: db_ok_def)
  then have "(ident, s) \<in> set (zmembers n admission_key db)" using s a by (simp add: zmembers_def live_def)
  then show "holds until ident ?db"
    using s(3) a(2) by (auto simp: holds_def reservations_def zadd_pexpire_def set_update_key(3))
qed

section \<open>The capacity of the queue\<close>

fun pending :: "run_state \<Rightarrow> (int \<times> string) option" where
  "pending (Adding s r) = Some (s, r)"
| "pending (Releasing s r) = Some (s, r)"
| "pending _ = None"

fun begun :: "run_state \<Rightarrow> (int \<times> string) option" where
  "begun Idle = None"
| "begun (Looking s r) = Some (s, r)"
| "begun (Removing s r) = Some (s, r)"
| "begun (Reserving s r) = Some (s, r)"
| "begun (Adding s r) = Some (s, r)"
| "begun (Releasing s r) = Some (s, r)"

definition out_ids :: "jobs \<Rightarrow> string set" where
  "out_ids js = fst ` {j \<in> set js. outstanding (wj_place (snd j))}"

definition produced :: "int \<Rightarrow> string \<times> warm_job \<Rightarrow> bool" where
  "produced n j \<longleftrightarrow> (\<exists>r. is_revision_id r \<and> fst j = the_id r \<and> wj_name (snd j) = WARM_JOB_NAME \<and> wj_data (snd j) = warm_payload r \<and>
     0 \<le> wj_timestamp (snd j) \<and> wj_timestamp (snd j) \<le> n)"

definition queue_ok :: "int \<Rightarrow> redis_db \<Rightarrow> jobs \<Rightarrow> bool" where
  "queue_ok n db js \<longleftrightarrow> 0 \<le> n \<and> db_ok n db \<and> distinct (map fst js) \<and> (\<forall>j \<in> set js. produced n j) \<and>
     int (card (out_ids js \<union> reserved n db)) \<le> maximumOutstandingJobs"

text \<open>A run that adds or releases while it may still execute holds its reservation, alone.\<close>

definition runs_ok :: "int \<Rightarrow> redis_db \<Rightarrow> (nat \<Rightarrow> run_state) \<Rightarrow> bool" where
  "runs_ok n db runs \<longleftrightarrow>
     (\<forall>p s r. begun (runs p) = Some (s, r) \<longrightarrow> s \<le> n \<and> is_revision_id r) \<and>
     (\<forall>p s r. pending (runs p) = Some (s, r) \<and> n < s + 2000 \<longrightarrow> holds (s + 2000) (the_id r) db) \<and>
     (\<forall>p q s s' r. p \<noteq> q \<and> pending (runs p) = Some (s, r) \<and> pending (runs q) = Some (s', r) \<longrightarrow> \<not> (n < s + 2000 \<and> n < s' + 2000))"

lemma out_ids_finite [simp]: "finite (out_ids js)"
  by (simp add: out_ids_def)

lemma produced_mono: "produced n j \<Longrightarrow> n \<le> n' \<Longrightarrow> produced n' j"
  by (force simp: produced_def)

lemma queue_mono: "queue_ok n db js \<Longrightarrow> n \<le> n' \<Longrightarrow> queue_ok n' db js"
proof -
  assume q: "queue_ok n db js" and n: "n \<le> n'"
  have "card (out_ids js \<union> reserved n' db) \<le> card (out_ids js \<union> reserved n db)"
    using reserved_mono [OF n] by (intro card_mono) auto
  then show ?thesis using q n db_ok_mono [of n db n'] produced_mono [of n _ n'] by (auto simp: queue_ok_def)
qed

lemma queue_fewer:
  assumes "queue_ok n db js" "db_ok n db'" "distinct (map fst js')" "\<forall>j \<in> set js'. produced n j"
    "out_ids js' \<union> reserved n db' \<subseteq> out_ids js \<union> reserved n db"
  shows "queue_ok n db' js'"
proof -
  have "card (out_ids js' \<union> reserved n db') \<le> card (out_ids js \<union> reserved n db)"
    using assms(5) by (intro card_mono) auto
  then show ?thesis using assms(1-4) by (auto simp: queue_ok_def)
qed

lemma runs_mono: "runs_ok n db runs \<Longrightarrow> n \<le> n' \<Longrightarrow> runs_ok n' db runs"
  by (fastforce simp: runs_ok_def)

lemma runs_db:
  "runs_ok n db runs \<Longrightarrow> (\<And>p s r. pending (runs p) = Some (s, r) \<Longrightarrow> n < s + 2000 \<Longrightarrow> holds (s + 2000) (the_id r) db') \<Longrightarrow> runs_ok n db' runs"
  by (fastforce simp: runs_ok_def)

lemma runs_idle:
  "runs_ok n db runs \<Longrightarrow> pending r = None \<Longrightarrow> (\<And>s rv. begun r = Some (s, rv) \<Longrightarrow> s \<le> n \<and> is_revision_id rv) \<Longrightarrow> runs_ok n db (runs(p := r))"
  by (auto simp: runs_ok_def)

lemma runs_release: "runs_ok n db runs \<Longrightarrow> runs p = Adding s r \<Longrightarrow> runs_ok n db (runs(p := Releasing s r))"
proof -
  assume ok: "runs_ok n db runs" and p: "runs p = Adding s r"
  have "pending ((runs(p := Releasing s r)) q) = pending (runs q)" "begun ((runs(p := Releasing s r)) q) = begun (runs q)" for q
    using p by simp_all
  then show ?thesis using ok unfolding runs_ok_def by metis
qed

lemma runs_begun: "runs_ok n db runs \<Longrightarrow> begun (runs p) = Some (s, r) \<Longrightarrow> s \<le> n \<and> is_revision_id r"
  by (auto simp: runs_ok_def)

lemma runs_holds: "runs_ok n db runs \<Longrightarrow> pending (runs p) = Some (s, r) \<Longrightarrow> n < s + 2000 \<Longrightarrow> holds (s + 2000) (the_id r) db"
  by (auto simp: runs_ok_def)

lemma runs_alone:
  "runs_ok n db runs \<Longrightarrow> pending (runs p) = Some (s, r) \<Longrightarrow> n < s + 2000 \<Longrightarrow> pending (runs q) = Some (s', r) \<Longrightarrow> n < s' + 2000 \<Longrightarrow> p = q"
  unfolding runs_ok_def by blast

lemma runs_reserve:
  assumes "runs_ok n db runs" "s \<le> n" "is_revision_id r" "holds (s + 2000) (the_id r) db"
    "\<And>q s'. q \<noteq> p \<Longrightarrow> pending (runs q) = Some (s', r) \<Longrightarrow> \<not> n < s' + 2000"
  shows "runs_ok n db (runs(p := Adding s r))"
  using assms unfolding runs_ok_def by auto

lemma out_ids_update:
  "map_of js i = Some j \<Longrightarrow> outstanding (wj_place j) \<Longrightarrow> out_ids (AList.update i (j\<lparr>wj_place := place\<rparr>) js) \<subseteq> out_ids js"
  using set_update_key(2) [of i "j\<lparr>wj_place := place\<rparr>" js] map_of_SomeD [of js i j] by (force simp: out_ids_def)

lemma count_outstanding:
  "length (in_place Waiting js) + length (in_place Active js) + length (in_place Delayed js) + length (in_place Prioritized js) =
     length (filter (\<lambda>j. outstanding (wj_place (snd j))) js)"
proof (induction js)
  case (Cons j js)
  then show ?case by (cases "wj_place (snd j)") (auto simp: in_place_def outstanding_def)
qed (simp add: in_place_def)

lemma out_ids_count: "card (out_ids js) \<le> length (filter (\<lambda>j. outstanding (wj_place (snd j))) js)"
proof -
  have "out_ids js = set (map fst (filter (\<lambda>j. outstanding (wj_place (snd j))) js))" by (auto simp: out_ids_def)
  then show ?thesis using card_length by (metis length_map)
qed

definition warm_ok :: "warm_world \<Rightarrow> bool" where
  "warm_ok w \<longleftrightarrow> queue_ok (now_ms (ww_us w)) (ww_redis w) (ww_jobs w) \<and> runs_ok (now_ms (ww_us w)) (ww_redis w) (ww_runs w)"

lemma admission_keeps:
  assumes q: "queue_ok n db js" and u: "n = now_ms us" and r: "admission_script us js i maximumOutstandingJobs db = (a, db')"
  shows "queue_ok n db' js" "a = 1 \<Longrightarrow> until \<le> n + 2000 \<Longrightarrow> holds until i db'"
    "n < until \<Longrightarrow> holds until ident db \<Longrightarrow> holds until ident db' \<and> (a = 1 \<longrightarrow> ident \<noteq> i)"
proof -
  let ?db1 = "zremrangebyscore n admission_key db"
  have ok: "db_ok n db" "distinct (map fst js)" "\<forall>j \<in> set js. produced n j" using q by (auto simp: queue_ok_def)
  note ok1 = purge(1) [OF ok(1)]
  have q1: "queue_ok n ?db1 js" using queue_fewer [OF q ok1 ok(2,3)] purge(2) [of n db] by blast
  let ?count = "length (zmembers n admission_key ?db1) + length (filter (\<lambda>j. outstanding (wj_place (snd j))) js)"
  have e: "length (zmembers n admission_key ?db1) + length (in_place Waiting js) + length (in_place Active js) +
      length (in_place Delayed js) + length (in_place Prioritized js) = ?count"
    using count_outstanding [of js] by simp
  have script: "(a, db') = (if i \<in> reserved n ?db1 then (2, ?db1)
      else if maximumOutstandingJobs \<le> int ?count then (0, ?db1) else (1, zadd_pexpire n admission_key (n + 2000) i 3000 ?db1))"
    using r [symmetric] unfolding admission_script_def u [symmetric] Let_def e .
  consider "db' = ?db1" "a \<noteq> 1"
    | "i \<notin> reserved n ?db1" "int ?count < maximumOutstandingJobs" "a = 1" "db' = zadd_pexpire n admission_key (n + 2000) i 3000 ?db1"
    using script by (auto split: if_splits)
  note cases = this
  from cases show "queue_ok n db' js"
  proof cases
    case 2
    have "card (out_ids js \<union> reserved n ?db1) \<le> card (out_ids js) + card (reserved n ?db1)" by (rule card_Un_le)
    also have "\<dots> \<le> ?count" using out_ids_count [of js] card_image_le [of "set (zmembers n admission_key ?db1)" fst] card_length [of "zmembers n admission_key ?db1"]
      by auto
    finally have "int (card (insert i (out_ids js \<union> reserved n ?db1))) \<le> maximumOutstandingJobs"
      using 2(2) by (simp add: card_insert_if)
    moreover have "out_ids js \<union> reserved n db' = insert i (out_ids js \<union> reserved n ?db1)" using admitted(2) [OF ok1, of i] 2(4) by blast
    ultimately show ?thesis using q ok admitted(1) [OF ok1, of i] 2(4) by (simp add: queue_ok_def)
  qed (use q1 in simp)
  show "a = 1 \<Longrightarrow> until \<le> n + 2000 \<Longrightarrow> holds until i db'" using cases admitted(3) [OF ok1] by cases auto
  show "holds until ident db' \<and> (a = 1 \<longrightarrow> ident \<noteq> i)" if h: "n < until" "holds until ident db"
  proof -
    note h1 = purge(3) [OF ok(1) h]
    from cases show ?thesis
    proof cases
      case 2
      then have "ident \<noteq> i" using held_is_reserved [OF ok1 h1 h(1)] by blast
      then show ?thesis using admitted(4) [OF ok1 h(1) _ h1] 2(4) by blast
    qed (use h1 in simp)
  qed
qed

lemma fewer_jobs: "queue_ok n db js \<Longrightarrow> queue_ok n db (AList.delete i js)"
  by (rule queue_fewer) (auto simp: queue_ok_def set_delete_key out_ids_def distinct_delete)

lemma warm_step_keeps: "warm_step w w' \<Longrightarrow> warm_ok w \<Longrightarrow> warm_ok w'"
proof (induction rule: warm_step.induct)
  case (tick w t)
  then show ?case using queue_mono runs_mono now_ms_mono [OF tick(1)] by (auto simp: warm_ok_def)
next
  case (begin_run w p r)
  then show ?case by (auto simp: warm_ok_def set_run_def warmJobId_iff split: if_splits intro!: runs_idle)
next
  case (give_up w p)
  then show ?case by (auto simp: warm_ok_def set_run_def intro!: runs_idle)
next
  case (look w p started r)
  have "begun (ww_runs w p) = Some (started, r)" using look(1) by simp
  then have b: "started \<le> now_ms (ww_us w) \<and> is_revision_id r" using look(3) runs_begun by (auto simp: warm_ok_def)
  have "runs_ok (now_ms (ww_us w)) (ww_redis w) ((ww_runs w)(p := after_look started r (ww_jobs w)))"
    using look(3) b by (intro runs_idle) (auto simp: warm_ok_def after_look_def split: option.splits if_splits)
  then show ?case using look(3) by (simp add: warm_ok_def set_run_def)
next
  case (remove_old w p started r)
  have "begun (ww_runs w p) = Some (started, r)" using remove_old(1) by simp
  then have b: "started \<le> now_ms (ww_us w) \<and> is_revision_id r" using remove_old(3) runs_begun by (auto simp: warm_ok_def)
  have "runs_ok (now_ms (ww_us w)) (ww_redis w) ((ww_runs w)(p := Reserving started r))"
    using remove_old(3) b by (intro runs_idle) (auto simp: warm_ok_def)
  then show ?case using remove_old(3) fewer_jobs by (simp add: warm_ok_def set_run_def)
next
  case (reserve w p started r a db)
  let ?n = "now_ms (ww_us w)"
  have ok: "queue_ok ?n (ww_redis w) (ww_jobs w)" "runs_ok ?n (ww_redis w) (ww_runs w)" using reserve(4) by (auto simp: warm_ok_def)
  have "begun (ww_runs w p) = Some (started, r)" using reserve(1) by simp
  then have b: "started \<le> ?n" "is_revision_id r" using ok(2) runs_begun by blast+
  note kept = admission_keeps [OF ok(1) refl reserve(3)]
  have runs: "runs_ok ?n db (ww_runs w)"
    by (rule runs_db [OF ok(2)]) (use kept(3) runs_holds [OF ok(2)] in blast)
  have "runs_ok ?n db ((ww_runs w)(p := after_admission started r a))"
  proof (cases "a = 1")
    case True
    have "\<not> ?n < s' + 2000" if "pending (ww_runs w q) = Some (s', r)" for q s'
      using kept(3) [OF _ runs_holds [OF ok(2) that]] True by blast
    moreover have "holds (started + 2000) (the_id r) db" using kept(2) [OF True] b by simp
    ultimately show ?thesis using runs b True by (auto simp: after_admission_def intro!: runs_reserve)
  qed (auto simp: after_admission_def intro!: runs_idle runs)
  then show ?case using kept(1) by (simp add: warm_ok_def set_run_def)
next
  case (add w p started r)
  let ?n = "now_ms (ww_us w)" and ?js = "add_job (the_id r) (queue_job r (now_ms (ww_us w))) (ww_jobs w)"
  have ok: "queue_ok ?n (ww_redis w) (ww_jobs w)" "runs_ok ?n (ww_redis w) (ww_runs w)" using add(3) by (auto simp: warm_ok_def)
  have t: "?n < started + 2000" using add(2) by (simp add: timely_def producerDeadlineMs_def)
  have p: "pending (ww_runs w p) = Some (started, r)" "begun (ww_runs w p) = Some (started, r)" using add(1) by simp_all
  have d: "db_ok ?n (ww_redis w)" "0 \<le> ?n" using ok(1) by (auto simp: queue_ok_def)
  have h: "the_id r \<in> reserved ?n (ww_redis w)" using held_is_reserved [OF d(1) runs_holds [OF ok(2) p(1) t] t] .
  have "queue_ok ?n (ww_redis w) ?js"
  proof (rule queue_fewer [OF ok(1) d(1)])
    show "distinct (map fst ?js)" using ok(1) by (auto simp: queue_ok_def add_job_def map_of_eq_None_iff split: option.split)
    show "\<forall>j \<in> set ?js. produced ?n j"
      using ok(1) d(2) runs_begun [OF ok(2) p(2)] by (auto simp: queue_ok_def add_job_def produced_def queue_job_def split: option.split)
    have "out_ids ?js \<subseteq> insert (the_id r) (out_ids (ww_jobs w))" by (auto simp: out_ids_def add_job_def split: option.split)
    then show "out_ids ?js \<union> reserved ?n (ww_redis w) \<subseteq> out_ids (ww_jobs w) \<union> reserved ?n (ww_redis w)"
      using h by blast
  qed
  then show ?case using runs_release [OF ok(2) add(1)] by (simp add: warm_ok_def set_run_def)
next
  case (release w p started r)
  let ?n = "now_ms (ww_us w)"
  let ?db = "zrem ?n admission_key (the_id r) (ww_redis w)"
  have ok: "queue_ok ?n (ww_redis w) (ww_jobs w)" "runs_ok ?n (ww_redis w) (ww_runs w)" using release(3) by (auto simp: warm_ok_def)
  have t: "?n < started + 2000" using release(2) by (simp add: timely_def producerDeadlineMs_def)
  have p: "pending (ww_runs w p) = Some (started, r)" using release(1) by simp
  have d: "db_ok ?n (ww_redis w)" using ok(1) by (auto simp: queue_ok_def)
  have idle: "runs_ok ?n (ww_redis w) ((ww_runs w)(p := Idle))" by (rule runs_idle [OF ok(2)]) simp_all
  have "runs_ok ?n ?db ((ww_runs w)(p := Idle))"
  proof (rule runs_db [OF idle])
    fix q s' r' assume q: "pending (((ww_runs w)(p := Idle)) q) = Some (s', r')" "?n < s' + 2000"
    then have q': "q \<noteq> p" "pending (ww_runs w q) = Some (s', r')" by (auto split: if_splits)
    have "r' \<noteq> r" using runs_alone [OF ok(2) p t _ q(2), of q] q' by auto
    then show "holds (s' + 2000) (the_id r') ?db" using removed(3) [OF d q(2) _ runs_holds [OF ok(2) q'(2) q(2)]] by simp
  qed
  moreover have "queue_ok ?n ?db (ww_jobs w)"
    by (rule queue_fewer [OF ok(1) removed(1) [OF d]]) (use ok(1) removed(2) [OF d, of "the_id r"] in \<open>auto simp: queue_ok_def\<close>)
  ultimately show ?case by (simp add: warm_ok_def set_run_def)
next
  case (move_job w ident j place)
  let ?n = "now_ms (ww_us w)" and ?js = "AList.update ident (j\<lparr>wj_place := place\<rparr>) (ww_jobs w)"
  have ok: "queue_ok ?n (ww_redis w) (ww_jobs w)" using move_job(3) by (auto simp: warm_ok_def)
  have "produced ?n (ident, j)" using ok map_of_SomeD [OF move_job(1)] by (auto simp: queue_ok_def)
  then have "produced ?n (ident, j\<lparr>wj_place := place\<rparr>)" by (auto simp: produced_def)
  then have "\<forall>x \<in> set ?js. produced ?n x" using ok set_update_key(2) [of ident "j\<lparr>wj_place := place\<rparr>" "ww_jobs w"] by (auto simp: queue_ok_def)
  then have "queue_ok ?n (ww_redis w) ?js"
    using ok out_ids_update [OF move_job(1,2), of place] by (intro queue_fewer [OF ok]) (auto simp: queue_ok_def distinct_update)
  then show ?case using move_job(3) by (simp add: warm_ok_def)
next
  case (drop_job w ident)
  then show ?case by (simp add: warm_ok_def fewer_jobs)
qed

lemma reachable_ok: "reachable w \<Longrightarrow> warm_ok w"
proof (induction rule: reachable.induct)
  case start
  show ?case by (simp add: warm_ok_def queue_ok_def runs_ok_def empty_queue_def now_ms_def db_ok_def empty_redis_def out_ids_def
      zmembers_def live_def maximumOutstandingJobs_def)
qed (rule warm_step_keeps)

lemma outstanding_ids:
  assumes "distinct (map fst js)"
  shows "length (filter (\<lambda>j. outstanding (wj_place (snd j))) js) = card (out_ids js)"
proof -
  let ?out = "filter (\<lambda>j. outstanding (wj_place (snd j))) js"
  have "distinct (map fst ?out)" using assms by (rule distinct_map_filter)
  moreover have "out_ids js = set (map fst ?out)" by (auto simp: out_ids_def)
  ultimately show ?thesis using distinct_card by (metis length_map)
qed

text \<open>Property C20. However many producers run, and whatever comes between their commands and the work of the workers, at most 128 jobs
  are waiting, active or delayed at a time, as long as every command is executed within two seconds of the start of its run.\<close>

theorem warm_queue_stays_within_capacity:
  assumes "reachable w"
  shows "int (length (filter (\<lambda>j. outstanding (wj_place (snd j))) (ww_jobs w))) \<le> maximumOutstandingJobs"
proof -
  let ?n = "now_ms (ww_us w)"
  have ok: "distinct (map fst (ww_jobs w))" "int (card (out_ids (ww_jobs w) \<union> reserved ?n (ww_redis w))) \<le> maximumOutstandingJobs"
    using reachable_ok [OF assms] by (auto simp: warm_ok_def queue_ok_def)
  have "card (out_ids (ww_jobs w)) \<le> card (out_ids (ww_jobs w) \<union> reserved ?n (ww_redis w))" by (intro card_mono) auto
  then show ?thesis using ok by (simp add: outstanding_ids)
qed

lemma produced_checks:
  assumes "reachable w" "map_of (ww_jobs w) ident = Some j" "wj_timestamp j \<le> now + 60000" "now \<le> wj_timestamp j + maximumAgeMs"
    "is_safe_int (now_ms (ww_us w))"
  shows "\<exists>r. ident = the_id r \<and> job_checks now ident j = Some r"
proof -
  have "produced (now_ms (ww_us w)) (ident, j)"
    using reachable_ok [OF assms(1)] map_of_SomeD [OF assms(2)] by (auto simp: warm_ok_def queue_ok_def)
  then obtain r where r: "is_revision_id r" "ident = the_id r" "wj_name j = WARM_JOB_NAME" "wj_data j = warm_payload r"
    "0 \<le> wj_timestamp j" "wj_timestamp j \<le> now_ms (ww_us w)"
    by (auto simp: produced_def)
  have "is_safe_int (wj_timestamp j)" using r(5,6) assms(5) by (auto simp: is_safe_int_def)
  then show ?thesis using r assms(3,4) by (auto simp: job_checks_def warmJobId_iff)
qed

text \<open>Property C21. A worker that takes a job the producers enqueued, at most two days old, never finds it invalid: it reads the index of the
  revision the job is named after, and the job succeeds exactly when the index was read and written in time; a
  failure of a port is retried unless the index is missing or invalid.\<close>

theorem produced_jobs_are_processed:
  assumes "reachable w" "map_of (ww_jobs w) ident = Some j" "wj_timestamp j \<le> now + 60000" "now \<le> wj_timestamp j + maximumAgeMs"
    "is_safe_int (now_ms (ww_us w))"
  shows "\<exists>r. ident = the_id r \<and>
    (case processWarmJob now ident j readIndex writeIndex of
       (Inr u, event) \<Rightarrow> event = E_warmed \<and> (\<exists>index. readIndex r = (Inr (Some index), False) \<and> writeIndex index = (Inr (), False))
     | (Inl (Retryable reason), event) \<Rightarrow> event = E_transient \<and>
         \<not> (\<exists>index. readIndex r = (Inr (Some index), False) \<and> writeIndex index = (Inr (), False))
     | (Inl (Unrecoverable reason), event) \<Rightarrow> event = E_poison \<and> reason \<noteq> ''Invalid warm job'' \<and>
         (fst (readIndex r) \<in> {Inr None, Inl Invalid_Index, Inl Unrecoverable_Error} \<or>
          (\<exists>index. fst (readIndex r) = Inr (Some index) \<and> fst (writeIndex index) \<in> {Inl Invalid_Index, Inl Unrecoverable_Error})))"
proof -
  obtain r where r: "ident = the_id r" "job_checks now ident j = Some r" using produced_checks [OF assms] by blast
  show ?thesis
    unfolding processWarmJob_def r(2) option.case
    by (rule exI [of _ r]) (auto simp: r(1) port_failure_def split: prod.split sum.split option.split port_error.split)
qed

section \<open>Witnesses\<close>

definition sample_revision :: string where
  "sample_revision = ''00000000-0000-4000-8000-00000000002a''"

definition looked :: warm_world where
  "looked = set_run 0 (Looking 0 sample_revision) empty_queue"

definition absent :: warm_world where
  "absent = set_run 0 (after_look 0 sample_revision (ww_jobs looked)) looked"

definition admitted_world :: warm_world where
  "admitted_world = (case admission_script (ww_us absent) (ww_jobs absent) (the_id sample_revision) maximumOutstandingJobs (ww_redis absent) of
     (a, db) \<Rightarrow> set_run 0 (after_admission 0 sample_revision a) (absent\<lparr>ww_redis := db\<rparr>))"

definition enqueued :: warm_world where
  "enqueued = set_run 0 (Releasing 0 sample_revision) (admitted_world\<lparr>ww_jobs :=
     add_job (the_id sample_revision) (queue_job sample_revision (now_ms (ww_us admitted_world))) (ww_jobs admitted_world)\<rparr>)"

lemma enqueued_reachable: "reachable enqueued"
proof -
  have r: "warmJobId sample_revision \<noteq> None" by code_simp
  have 1: "reachable looked"
    using reachable.step [OF reachable.start warm_step.begin_run [of empty_queue 0, OF _ r]]
    by (simp add: looked_def empty_queue_def now_ms_def)
  have t: "timely 0 looked" "timely 0 absent" "timely 0 admitted_world" by code_simp+
  have s: "ww_runs looked 0 = Looking 0 sample_revision" "ww_runs absent 0 = Reserving 0 sample_revision"
    "ww_runs admitted_world 0 = Adding 0 sample_revision"
    by code_simp+
  have 2: "reachable absent"
    using reachable.step [OF 1 warm_step.look [OF s(1) t(1)]] by (simp add: absent_def)
  obtain a db where a: "admission_script (ww_us absent) (ww_jobs absent) (the_id sample_revision) maximumOutstandingJobs (ww_redis absent) = (a, db)"
    by fastforce
  have 3: "reachable admitted_world"
    using reachable.step [OF 2 warm_step.reserve [OF s(2) t(2) a]] by (simp add: admitted_world_def a)
  show ?thesis using reachable.step [OF 3 warm_step.add [OF s(3) t(3)]] by (simp add: enqueued_def)
qed

theorem warm_queue_stays_within_capacity_witness:
  "int (length (filter (\<lambda>j. outstanding (wj_place (snd j))) (ww_jobs enqueued))) \<le> maximumOutstandingJobs \<and> length (ww_jobs enqueued) = 1"
proof -
  have "length (ww_jobs enqueued) = 1" by code_simp
  then show ?thesis using warm_queue_stays_within_capacity [OF enqueued_reachable] by blast
qed

theorem produced_jobs_are_processed_witness:
  "\<exists>r. the_id sample_revision = the_id r \<and>
    (case processWarmJob 5 (the_id sample_revision) (queue_job sample_revision 0) (\<lambda>_. (Inr (Some (7 :: nat)), False)) (\<lambda>_. (Inr (), False)) of
       (Inr u, event) \<Rightarrow> event = E_warmed
     | (Inl failure, event) \<Rightarrow> False)"
proof -
  have m: "map_of (ww_jobs enqueued) (the_id sample_revision) = Some (queue_job sample_revision 0)" by code_simp
  have t: "wj_timestamp (queue_job sample_revision 0) \<le> 5 + 60000" "(5 :: int) \<le> wj_timestamp (queue_job sample_revision 0) + maximumAgeMs"
    "is_safe_int (now_ms (ww_us enqueued))"
    by code_simp+
  show ?thesis
    using produced_jobs_are_processed [OF enqueued_reachable m t, of "\<lambda>_. (Inr (Some (7 :: nat)), False)" "\<lambda>_. (Inr (), False)"]
    by (auto split: prod.splits sum.splits job_failure.splits)
qed

end
