(* ===== verification/Reporting_Controller.thy ===== *)
theory Reporting_Controller
  imports Latest_Read
begin

text \<open>
  The state of the profile and leaderboard pages (\<^verbatim>\<open>apps/web/src/reporting/controller.ts\<close>). A leaderboard request is known by its
  number; its answer, its failure and its \<^verbatim>\<open>finally\<close> are separate steps, in any order with the calls of the pages. The profile
  is read through \<open>Latest_Read\<close>; a caller that waits for it goes on with a step of its own. Listeners, which only see the state,
  are left out.

  Result: whatever the user selects, refreshes or appends, and whenever the answers come, the entries shown are consecutive
  pages of the selected day, from the first one on, and the cursor kept is the one of the last.
\<close>

section \<open>State\<close>

datatype read_status = R_Idle | R_Loading | R_Ready | R_Error | R_Appending

text \<open>\<^verbatim>\<open>undefined\<close>, \<^verbatim>\<open>null\<close> or a text.\<close>

datatype next_cursor = Absent_Cursor | Null_Cursor | Text_Cursor string

record lb_request =
  rq_slot :: string
  rq_cursor :: "string option"
  rq_generation :: nat
  rq_aborted :: bool
  rq_open :: bool

record ('e, 'p) reporting =
  rs_profile :: "'p option"
  rs_profileError :: "client_error option"
  rs_profileStatus :: read_status
  rs_entries :: "'e list"
  rs_error :: "client_error option"
  rs_next :: next_cursor
  rs_slot :: "string option"
  rs_status :: read_status
  rs_read :: "'p latest_read"
  rs_waiting :: "nat list"
  rs_abort :: "nat option"
  rs_generation :: nat
  rs_requestKey :: "string option"
  rs_request :: "nat option"
  rs_requests :: "lb_request list"

definition new_reporting :: "('e, 'p) reporting" where
  "new_reporting = \<lparr>rs_profile = None, rs_profileError = None, rs_profileStatus = R_Idle, rs_entries = [], rs_error = None,
     rs_next = Absent_Cursor, rs_slot = None, rs_status = R_Idle, rs_read = new_read, rs_waiting = [], rs_abort = None,
     rs_generation = 0, rs_requestKey = None, rs_request = None, rs_requests = []\<rparr>"

section \<open>The leaderboard\<close>

definition request_key :: "string \<Rightarrow> string option \<Rightarrow> string" where
  "request_key slotId cursor = slotId @ CHR 0x0A # (case cursor of None \<Rightarrow> [] | Some c \<Rightarrow> c)"

definition abort_current :: "('e, 'p) reporting \<Rightarrow> ('e, 'p) reporting" where
  "abort_current s = (case rs_abort s of None \<Rightarrow> s
     | Some i \<Rightarrow> s\<lparr>rs_requests := (rs_requests s)[i := (rs_requests s ! i)\<lparr>rq_aborted := True\<rparr>]\<rparr>)"

definition loadLeaderboard :: "string \<Rightarrow> string option \<Rightarrow> bool \<Rightarrow> ('e, 'p) reporting \<Rightarrow> ('e, 'p) reporting" where
  "loadLeaderboard slotId cursor replace s =
    (let key = request_key slotId cursor
     in if rs_requestKey s = Some key \<and> rs_request s \<noteq> None then s
        else
          let s1 = (if replace then (abort_current s)\<lparr>rs_generation := rs_generation s + 1\<rparr> else s);
              i = length (rs_requests s1);
              s2 = s1\<lparr>rs_abort := Some i, rs_requestKey := Some key, rs_slot := Some slotId,
                rs_status := (if cursor = None then R_Loading else R_Appending), rs_error := None,
                rs_requests := rs_requests s1 @ [\<lparr>rq_slot = slotId, rq_cursor = cursor, rq_generation = rs_generation s1, rq_aborted = False, rq_open = True\<rparr>],
                rs_request := Some i\<rparr>
          in if replace then s2\<lparr>rs_entries := [], rs_next := Absent_Cursor\<rparr> else s2)"

definition selectLeaderboardSlot :: "string \<Rightarrow> ('e, 'p) reporting \<Rightarrow> ('e, 'p) reporting" where
  "selectLeaderboardSlot slotId s =
    (if rs_slot s = Some slotId \<and> rs_status s \<noteq> R_Idle then s else loadLeaderboard slotId None True s)"

definition refreshLeaderboard :: "('e, 'p) reporting \<Rightarrow> ('e, 'p) reporting" where
  "refreshLeaderboard s = (case rs_slot s of None \<Rightarrow> s | Some slotId \<Rightarrow> loadLeaderboard slotId None True s)"

definition loadMoreLeaderboard :: "('e, 'p) reporting \<Rightarrow> ('e, 'p) reporting" where
  "loadMoreLeaderboard s =
    (case (rs_slot s, rs_next s) of (Some slotId, Text_Cursor c) \<Rightarrow> loadLeaderboard slotId (Some c) False s | _ \<Rightarrow> s)"

definition stale :: "('e, 'p) reporting \<Rightarrow> lb_request \<Rightarrow> bool" where
  "stale s r \<longleftrightarrow> rq_aborted r \<or> rq_generation r \<noteq> rs_generation s"

definition close_request :: "nat \<Rightarrow> ('e, 'p) reporting \<Rightarrow> ('e, 'p) reporting" where
  "close_request i s = s\<lparr>rs_requests := (rs_requests s)[i := (rs_requests s ! i)\<lparr>rq_open := False\<rparr>]\<rparr>"

definition page_arrived :: "nat \<Rightarrow> 'e list \<Rightarrow> next_cursor \<Rightarrow> ('e, 'p) reporting \<Rightarrow> ('e, 'p) reporting" where
  "page_arrived i items next_page s =
    (if i < length (rs_requests s) \<and> rq_open (rs_requests s ! i) then
       let r = rs_requests s ! i; s1 = close_request i s
       in if stale s r then s1
          else s1\<lparr>rs_entries := (if rq_cursor r = None then items else rs_entries s @ items), rs_next := next_page,
            rs_status := R_Ready, rs_error := None\<rparr>
     else s)"

definition page_failed :: "nat \<Rightarrow> client_error \<Rightarrow> ('e, 'p) reporting \<Rightarrow> ('e, 'p) reporting" where
  "page_failed i e s =
    (if i < length (rs_requests s) \<and> rq_open (rs_requests s ! i) then
       let s1 = close_request i s
       in if stale s (rs_requests s ! i) then s1 else s1\<lparr>rs_status := R_Error, rs_error := Some e\<rparr>
     else s)"

definition request_over :: "nat \<Rightarrow> ('e, 'p) reporting \<Rightarrow> ('e, 'p) reporting" where
  "request_over i s =
    (if i < length (rs_requests s) \<and> \<not> rq_open (rs_requests s ! i) \<and> rs_request s = Some i
     then s\<lparr>rs_request := None, rs_requestKey := None\<rparr> else s)"

definition cancelLeaderboard :: "('e, 'p) reporting \<Rightarrow> ('e, 'p) reporting" where
  "cancelLeaderboard s = (abort_current s)\<lparr>rs_generation := rs_generation s + 1, rs_abort := None, rs_request := None, rs_requestKey := None\<rparr>"

section \<open>The profile\<close>

definition refreshProfile :: "bool \<Rightarrow> ('e, 'p) reporting \<Rightarrow> ('e, 'p) reporting" where
  "refreshProfile replace s =
    (if \<not> replace \<and> rs_profileStatus s = R_Ready then s
     else (case run_read replace (rs_read s) of (g, lr) \<Rightarrow>
       s\<lparr>rs_profileStatus := R_Loading, rs_profileError := None, rs_read := lr, rs_waiting := rs_waiting s @ [g]\<rparr>))"

text \<open>A caller of \<^verbatim>\<open>refreshProfile\<close> goes on when the promise it waits for is settled.\<close>

definition profile_resumes :: "nat \<Rightarrow> ('e, 'p) reporting \<Rightarrow> ('e, 'p) reporting" where
  "profile_resumes k s =
    (if k < length (rs_waiting s) then
       (case lr_promise (rs_read s) (rs_waiting s ! k) of
          Settled (Inr (v, accepted)) \<Rightarrow>
            let s1 = s\<lparr>rs_waiting := take k (rs_waiting s) @ drop (Suc k) (rs_waiting s)\<rparr>
            in if accepted then s1\<lparr>rs_profile := Some v, rs_profileStatus := R_Ready, rs_profileError := None\<rparr> else s1
        | Settled (Inl e) \<Rightarrow>
            s\<lparr>rs_waiting := take k (rs_waiting s) @ drop (Suc k) (rs_waiting s), rs_profileStatus := R_Error, rs_profileError := Some e\<rparr>
        | _ \<Rightarrow> s)
     else s)"

section \<open>The calls of the pages\<close>

definition refreshAfterTerminal :: "string \<Rightarrow> ('e, 'p) reporting \<Rightarrow> ('e, 'p) reporting" where
  "refreshAfterTerminal slotId s = loadLeaderboard slotId None True (refreshProfile True s)"

definition reset_reporting :: "('e, 'p) reporting \<Rightarrow> ('e, 'p) reporting" where
  "reset_reporting s =
    (cancelLeaderboard (s\<lparr>rs_read := cancel_read (rs_read s)\<rparr>))
      \<lparr>rs_profile := None, rs_profileError := None, rs_profileStatus := R_Idle, rs_entries := [], rs_error := None,
       rs_next := Absent_Cursor, rs_slot := None, rs_status := R_Idle\<rparr>"

definition dispose_reporting :: "('e, 'p) reporting \<Rightarrow> ('e, 'p) reporting" where
  "dispose_reporting s = cancelLeaderboard (s\<lparr>rs_read := cancel_read (rs_read s)\<rparr>)"

datatype ('e, 'p) reporting_event =
    Select_Slot string
  | Refresh_Slot
  | Load_More
  | After_Terminal string
  | Refresh_Profile bool
  | Page_Arrived nat "'e list" next_cursor
  | Page_Failed nat client_error
  | Request_Over nat
  | Profile_Read nat "client_error + 'p"
  | Profile_Over nat
  | Profile_Resumes nat
  | Reset
  | Dispose

fun reporting_step :: "('e, 'p) reporting \<Rightarrow> ('e, 'p) reporting_event \<Rightarrow> ('e, 'p) reporting" where
  "reporting_step s (Select_Slot slotId) = selectLeaderboardSlot slotId s"
| "reporting_step s Refresh_Slot = refreshLeaderboard s"
| "reporting_step s Load_More = loadMoreLeaderboard s"
| "reporting_step s (After_Terminal slotId) = refreshAfterTerminal slotId s"
| "reporting_step s (Refresh_Profile replace) = refreshProfile replace s"
| "reporting_step s (Page_Arrived i items next_page) = page_arrived i items next_page s"
| "reporting_step s (Page_Failed i e) = page_failed i e s"
| "reporting_step s (Request_Over i) = request_over i s"
| "reporting_step s (Profile_Read g outcome) = s\<lparr>rs_read := answer_read g outcome (rs_read s)\<rparr>"
| "reporting_step s (Profile_Over g) = s\<lparr>rs_read := finally_read g (rs_read s)\<rparr>"
| "reporting_step s (Profile_Resumes k) = profile_resumes k s"
| "reporting_step s Reset = reset_reporting s"
| "reporting_step s Dispose = dispose_reporting s"

section \<open>The pages shown\<close>

text \<open>The answer the server may give to a request of a page; consecutive pages, from a cursor on.\<close>

type_synonym 'e server = "string \<Rightarrow> string option \<Rightarrow> 'e list \<Rightarrow> next_cursor \<Rightarrow> bool"

fun chain :: "'e server \<Rightarrow> string \<Rightarrow> string option \<Rightarrow> ('e list \<times> next_cursor) list \<Rightarrow> bool" where
  "chain served slotId c [] = True"
| "chain served slotId c ((items, next_page) # ps) \<longleftrightarrow> served slotId c items next_page \<and>
     (ps = [] \<or> (case next_page of Text_Cursor c' \<Rightarrow> chain served slotId (Some c') ps | _ \<Rightarrow> False))"

fun answered_by :: "'e server \<Rightarrow> ('e, 'p) reporting \<Rightarrow> ('e, 'p) reporting_event \<Rightarrow> bool" where
  "answered_by served s (Page_Arrived i items next_page) \<longleftrightarrow>
     (i < length (rs_requests s) \<longrightarrow> served (rq_slot (rs_requests s ! i)) (rq_cursor (rs_requests s ! i)) items next_page)"
| "answered_by served s _ \<longleftrightarrow> True"

fun run_answered :: "'e server \<Rightarrow> ('e, 'p) reporting \<Rightarrow> ('e, 'p) reporting_event list \<Rightarrow> bool" where
  "run_answered served s [] = True"
| "run_answered served s (e # es) \<longleftrightarrow> answered_by served s e \<and> run_answered served (reporting_step s e) es"

definition displays :: "'e server \<Rightarrow> ('e, 'p) reporting \<Rightarrow> ('e list \<times> next_cursor) list \<Rightarrow> bool" where
  "displays served s ps \<longleftrightarrow> rs_entries s = concat (map fst ps) \<and>
     (if ps = [] then rs_next s = Absent_Cursor
      else rs_next s = snd (last ps) \<and> (\<exists>slotId. rs_slot s = Some slotId \<and> chain served slotId None ps))"

text \<open>The one request whose answer counts.\<close>

definition live_request :: "('e, 'p) reporting \<Rightarrow> nat \<Rightarrow> bool" where
  "live_request s i \<longleftrightarrow> i < length (rs_requests s) \<and> rq_open (rs_requests s ! i) \<and> \<not> stale s (rs_requests s ! i)"

definition reporting_ok :: "'e server \<Rightarrow> ('e, 'p) reporting \<Rightarrow> bool" where
  "reporting_ok served s \<longleftrightarrow> (\<exists>ps. displays served s ps) \<and>
     (\<forall>i < length (rs_requests s). rq_generation (rs_requests s ! i) \<le> rs_generation s) \<and>
     (\<forall>i. rs_abort s = Some i \<longrightarrow> i < length (rs_requests s)) \<and>
     (\<forall>i. live_request s i \<longrightarrow> rs_request s = Some i \<and>
        rs_requestKey s = Some (request_key (rq_slot (rs_requests s ! i)) (rq_cursor (rs_requests s ! i))) \<and>
        rs_slot s = Some (rq_slot (rs_requests s ! i)) \<and>
        (case rq_cursor (rs_requests s ! i) of None \<Rightarrow> rs_next s = Absent_Cursor \<and> rs_entries s = []
         | Some c \<Rightarrow> rs_next s = Text_Cursor c))"

lemma chain_append:
  "chain served slotId c ps \<Longrightarrow> ps \<noteq> [] \<Longrightarrow> snd (last ps) = Text_Cursor c' \<Longrightarrow> served slotId (Some c') items n \<Longrightarrow>
   chain served slotId c (ps @ [(items, n)])"
  by (induction served slotId c ps rule: chain.induct) (auto split: next_cursor.splits if_splits)

text \<open>What the leaderboard part of the state consists of; the profile is not among it.\<close>

lemma ok_cong:
  assumes "rs_entries s' = rs_entries s" "rs_next s' = rs_next s" "rs_slot s' = rs_slot s" "rs_requests s' = rs_requests s"
    "rs_generation s' = rs_generation s" "rs_abort s' = rs_abort s" "rs_request s' = rs_request s" "rs_requestKey s' = rs_requestKey s"
  shows "reporting_ok served s' = reporting_ok served s"
  unfolding reporting_ok_def displays_def live_request_def stale_def assms ..

lemma abort_current_simps [simp]:
  "rs_generation (abort_current s) = rs_generation s" "length (rs_requests (abort_current s)) = length (rs_requests s)"
  "rs_entries (abort_current s) = rs_entries s" "rs_next (abort_current s) = rs_next s" "rs_slot (abort_current s) = rs_slot s"
  by (simp_all add: abort_current_def split: option.split)

lemma abort_current_generation:
  "i < length (rs_requests s) \<Longrightarrow> rq_generation (rs_requests (abort_current s) ! i) = rq_generation (rs_requests s ! i)"
  by (cases "rs_abort s = Some i") (auto simp: abort_current_def split: option.split)

lemma replaced_ok:
  assumes "reporting_ok served s"
  shows "reporting_ok served (loadLeaderboard slotId None True s)"
proof (cases "rs_requestKey s = Some (request_key slotId None) \<and> rs_request s \<noteq> None")
  case False
  let ?s = "loadLeaderboard slotId None True s" and ?i = "length (rs_requests s)"
  have g: "\<And>i. i < ?i \<Longrightarrow> rq_generation (rs_requests (abort_current s) ! i) \<le> rs_generation s"
    using assms abort_current_generation [of _ s] by (auto simp: reporting_ok_def)
  have f: "rs_entries ?s = []" "rs_next ?s = Absent_Cursor" "rs_slot ?s = Some slotId" "rs_generation ?s = rs_generation s + 1"
    "rs_abort ?s = Some ?i" "rs_request ?s = Some ?i" "rs_requestKey ?s = Some (request_key slotId None)"
    "rs_requests ?s = rs_requests (abort_current s) @ [\<lparr>rq_slot = slotId, rq_cursor = None, rq_generation = rs_generation s + 1, rq_aborted = False, rq_open = True\<rparr>]"
    using False by (auto simp: loadLeaderboard_def Let_def)
  have live: "i = ?i" if "live_request ?s i" for i
  proof (rule ccontr)
    assume "i \<noteq> ?i"
    then have "i < ?i" using that by (auto simp: live_request_def f)
    then show False using that g [of i] by (auto simp: live_request_def stale_def f nth_append)
  qed
  have "displays served ?s []" by (simp add: displays_def f)
  moreover have "rq_generation (rs_requests ?s ! i) \<le> rs_generation ?s" if "i < length (rs_requests ?s)" for i
    using that g [of i] by (auto simp: f nth_append less_Suc_eq)
  ultimately show ?thesis unfolding reporting_ok_def using live by (auto simp: f nth_append)
qed (use assms in \<open>simp add: loadLeaderboard_def\<close>)

lemma appended_ok:
  assumes "reporting_ok served s" "rs_slot s = Some slotId" "rs_next s = Text_Cursor c"
  shows "reporting_ok served (loadLeaderboard slotId (Some c) False s)"
proof (cases "rs_requestKey s = Some (request_key slotId (Some c)) \<and> rs_request s \<noteq> None")
  case False
  let ?s = "loadLeaderboard slotId (Some c) False s" and ?i = "length (rs_requests s)"
  have f: "rs_entries ?s = rs_entries s" "rs_next ?s = rs_next s" "rs_slot ?s = rs_slot s" "rs_generation ?s = rs_generation s"
    "rs_abort ?s = Some ?i" "rs_request ?s = Some ?i" "rs_requestKey ?s = Some (request_key slotId (Some c))"
    "rs_requests ?s = rs_requests s @ [\<lparr>rq_slot = slotId, rq_cursor = Some c, rq_generation = rs_generation s, rq_aborted = False, rq_open = True\<rparr>]"
    using False assms(2) by (auto simp: loadLeaderboard_def Let_def)
  have none: "\<not> live_request s i" for i
    using assms False by (auto simp: reporting_ok_def split: option.splits)
  have live: "i = ?i" if "live_request ?s i" for i
  proof (rule ccontr)
    assume "i \<noteq> ?i"
    then have "live_request s i" using that by (auto simp: live_request_def stale_def f nth_append)
    then show False using none by blast
  qed
  obtain ps where "displays served s ps" using assms(1) by (auto simp: reporting_ok_def)
  then have "displays served ?s ps" by (simp add: displays_def f)
  moreover have "rq_generation (rs_requests ?s ! i) \<le> rs_generation ?s" if "i < length (rs_requests ?s)" for i
    using that assms(1) by (auto simp: reporting_ok_def f nth_append less_Suc_eq)
  ultimately show ?thesis unfolding reporting_ok_def using live assms(2,3) by (auto simp: f nth_append)
qed (use assms in \<open>simp add: loadLeaderboard_def\<close>)

lemma closed_request:
  "i < length (rs_requests s) \<Longrightarrow> live_request (close_request i s) k \<longleftrightarrow> live_request s k \<and> k \<noteq> i"
  by (auto simp: live_request_def close_request_def stale_def nth_list_update)

lemma closed_fields:
  "rs_entries (close_request i s) = rs_entries s" "rs_next (close_request i s) = rs_next s" "rs_slot (close_request i s) = rs_slot s"
  "rs_generation (close_request i s) = rs_generation s" "rs_abort (close_request i s) = rs_abort s"
  "rs_request (close_request i s) = rs_request s" "rs_requestKey (close_request i s) = rs_requestKey s"
  "length (rs_requests (close_request i s)) = length (rs_requests s)"
  by (simp_all add: close_request_def)

lemma closed_requests:
  "i < length (rs_requests s) \<Longrightarrow> k < length (rs_requests s) \<Longrightarrow>
   rq_slot (rs_requests (close_request i s) ! k) = rq_slot (rs_requests s ! k) \<and>
   rq_cursor (rs_requests (close_request i s) ! k) = rq_cursor (rs_requests s ! k) \<and>
   rq_generation (rs_requests (close_request i s) ! k) = rq_generation (rs_requests s ! k)"
  by (auto simp: close_request_def nth_list_update)

text \<open>Closing a request keeps the state in order; if it was the live one, none is left.\<close>

lemma close_ok:
  assumes "reporting_ok served s" "i < length (rs_requests s)"
  shows "reporting_ok served (close_request i s)"
proof -
  let ?s = "close_request i s"
  obtain ps where "displays served s ps" using assms(1) by (auto simp: reporting_ok_def)
  then have "displays served ?s ps" by (simp add: displays_def closed_fields)
  moreover have "k < length (rs_requests s)" if "live_request s k" for k using that by (simp add: live_request_def)
  ultimately show ?thesis using assms closed_requests [OF assms(2)]
    unfolding reporting_ok_def closed_fields closed_request [OF assms(2)] by fastforce
qed

lemma arrived_ok:
  assumes "reporting_ok served s" "answered_by served s (Page_Arrived i items n)"
  shows "reporting_ok served (page_arrived i items n s)"
proof (cases "i < length (rs_requests s) \<and> rq_open (rs_requests s ! i) \<and> \<not> stale s (rs_requests s ! i)")
  case False
  then show ?thesis using assms(1) close_ok by (auto simp: page_arrived_def Let_def)
next
  case True
  let ?r = "rs_requests s ! i" and ?s = "page_arrived i items n s"
  have i: "i < length (rs_requests s)" and l: "live_request s i" using True by (auto simp: live_request_def)
  have served: "served (rq_slot ?r) (rq_cursor ?r) items n" using assms(2) i by simp
  have ok: "rs_request s = Some i" "rs_slot s = Some (rq_slot ?r)"
    "case rq_cursor ?r of None \<Rightarrow> rs_next s = Absent_Cursor \<and> rs_entries s = [] | Some c \<Rightarrow> rs_next s = Text_Cursor c"
    using assms(1) l by (auto simp: reporting_ok_def)
  have s: "?s = (close_request i s)\<lparr>rs_entries := (if rq_cursor ?r = None then items else rs_entries s @ items), rs_next := n,
      rs_status := R_Ready, rs_error := None\<rparr>"
    using True by (simp add: page_arrived_def Let_def)
  obtain ps where ps: "displays served s ps" using assms(1) by (auto simp: reporting_ok_def)
  have none: "\<not> live_request ?s k" for k
  proof
    assume "live_request ?s k"
    then have "live_request (close_request i s) k" by (simp add: s live_request_def stale_def)
    then have k: "live_request s k" "k \<noteq> i" using closed_request [OF i] by auto
    then show False using assms(1) ok(1) by (auto simp: reporting_ok_def)
  qed
  have "\<exists>qs. displays served ?s qs"
  proof (cases "rq_cursor ?r")
    case None
    then have "displays served ?s [(items, n)]" using served ok(2) by (simp add: displays_def s closed_fields)
    then show ?thesis ..
  next
    case (Some c)
    then have n: "rs_next s = Text_Cursor c" using ok(3) by simp
    then have "ps \<noteq> []" using ps by (auto simp: displays_def)
    then have "chain served (rq_slot ?r) None (ps @ [(items, n)])"
      using ps ok(2) served n Some by (intro chain_append [where c' = c]) (auto simp: displays_def)
    then have "displays served ?s (ps @ [(items, n)])" using ps ok(2) Some by (simp add: displays_def s closed_fields)
    then show ?thesis ..
  qed
  moreover have "\<forall>k < length (rs_requests ?s). rq_generation (rs_requests ?s ! k) \<le> rs_generation ?s"
    using assms(1) closed_requests [OF i] by (auto simp: reporting_ok_def s closed_fields)
  moreover have "\<forall>k. rs_abort ?s = Some k \<longrightarrow> k < length (rs_requests ?s)" using assms(1) by (auto simp: reporting_ok_def s closed_fields)
  ultimately show ?thesis unfolding reporting_ok_def using none by blast
qed

lemma failed_ok: "reporting_ok served s \<Longrightarrow> reporting_ok served (page_failed i e s)"
proof -
  assume ok: "reporting_ok served s"
  have "reporting_ok served ((close_request i s)\<lparr>rs_status := R_Error, rs_error := Some e\<rparr>)" if "i < length (rs_requests s)"
    using close_ok [OF ok that] by (subst ok_cong) auto
  then show ?thesis using ok close_ok by (auto simp: page_failed_def Let_def)
qed

lemma over_ok: "reporting_ok served s \<Longrightarrow> reporting_ok served (request_over i s)"
proof (cases "i < length (rs_requests s) \<and> \<not> rq_open (rs_requests s ! i) \<and> rs_request s = Some i")
  case True
  assume ok: "reporting_ok served s"
  have none: "\<not> live_request s k" for k
  proof
    assume k: "live_request s k"
    then have "rs_request s = Some k" using ok by (auto simp: reporting_ok_def)
    then show False using True k by (auto simp: live_request_def)
  qed
  have e: "request_over i s = s\<lparr>rs_request := None, rs_requestKey := None\<rparr>" using True by (simp add: request_over_def)
  have "live_request (request_over i s) k = live_request s k" "displays served (request_over i s) ps = displays served s ps" for k ps
    unfolding e by (simp_all add: live_request_def stale_def displays_def)
  then show ?thesis using ok none by (simp add: reporting_ok_def) (simp add: e)
qed (auto simp: request_over_def)

lemma cancel_ok: "reporting_ok served s \<Longrightarrow> reporting_ok served (cancelLeaderboard s)"
proof -
  assume ok: "reporting_ok served s"
  let ?s = "cancelLeaderboard s"
  have f: "rs_entries ?s = rs_entries s" "rs_next ?s = rs_next s" "rs_slot ?s = rs_slot s" "rs_generation ?s = rs_generation s + 1"
    "rs_abort ?s = None" "rs_requests ?s = rs_requests (abort_current s)"
    by (simp_all add: cancelLeaderboard_def)
  have g: "k < length (rs_requests s) \<Longrightarrow> rq_generation (rs_requests (abort_current s) ! k) \<le> rs_generation s" for k
    using ok abort_current_generation [of k s] by (auto simp: reporting_ok_def)
  have "\<not> live_request ?s k" for k using g [of k] by (auto simp: live_request_def stale_def f)
  moreover have "displays served ?s ps = displays served s ps" for ps by (simp add: displays_def f)
  ultimately show ?thesis using ok g by (auto simp: reporting_ok_def f intro: le_SucI)
qed

lemma cancelled_live: "reporting_ok served s \<Longrightarrow> \<not> live_request (cancelLeaderboard s) k"
proof -
  assume ok: "reporting_ok served s"
  have "k < length (rs_requests s) \<Longrightarrow> rq_generation (rs_requests (abort_current s) ! k) \<le> rs_generation s"
    using ok abort_current_generation [of k s] by (auto simp: reporting_ok_def)
  then show ?thesis by (auto simp: live_request_def stale_def cancelLeaderboard_def)
qed

lemma cleared_ok:
  assumes "reporting_ok served s" "\<And>k. \<not> live_request s k" "rs_entries s' = []" "rs_next s' = Absent_Cursor" "rs_requests s' = rs_requests s"
    "rs_generation s' = rs_generation s" "rs_abort s' = rs_abort s"
  shows "reporting_ok served s'"
proof -
  have "\<not> live_request s' k" for k using assms(2) [of k] by (simp add: live_request_def stale_def assms(5,6))
  moreover have "displays served s' []" by (simp add: displays_def assms(3,4))
  ultimately show ?thesis using assms(1) unfolding reporting_ok_def assms(5-7) by blast
qed

lemma step_ok: "reporting_ok served s \<Longrightarrow> answered_by served s e \<Longrightarrow> reporting_ok served (reporting_step s e)"
proof -
  assume ok: "reporting_ok served s" and a: "answered_by served s e"
  have profile: "reporting_ok served (refreshProfile r s)" for r
    by (subst ok_cong [where s = s]) (simp_all add: ok refreshProfile_def split: prod.split)
  have cancelled: "reporting_ok served (s\<lparr>rs_read := lr\<rparr>)" for lr using ok by (subst ok_cong) auto
  show ?thesis
  proof (cases e)
    case (Profile_Resumes k)
    have "rs_entries (profile_resumes k s) = rs_entries s" "rs_next (profile_resumes k s) = rs_next s" "rs_slot (profile_resumes k s) = rs_slot s"
      "rs_requests (profile_resumes k s) = rs_requests s" "rs_generation (profile_resumes k s) = rs_generation s"
      "rs_abort (profile_resumes k s) = rs_abort s" "rs_request (profile_resumes k s) = rs_request s"
      "rs_requestKey (profile_resumes k s) = rs_requestKey s"
      by (simp_all add: profile_resumes_def Let_def split: promise.split sum.split prod.split)
    then show ?thesis unfolding Profile_Resumes reporting_step.simps using ok ok_cong by blast
  next
    case Reset
    let ?c = "cancelLeaderboard (s\<lparr>rs_read := cancel_read (rs_read s)\<rparr>)"
    have "reporting_ok served ?c" "\<And>k. \<not> live_request ?c k" using cancel_ok [OF cancelled] cancelled_live [OF cancelled] by blast+
    then show ?thesis unfolding Reset reporting_step.simps by (rule cleared_ok) (simp_all add: reset_reporting_def)
  next
    case Dispose
    then show ?thesis using cancel_ok [OF cancelled] by (simp add: dispose_reporting_def)
  next
    case Load_More
    then show ?thesis using ok appended_ok [OF ok] by (simp add: loadMoreLeaderboard_def split: option.split next_cursor.split)
  next
    case (Page_Arrived i items n)
    then show ?thesis using arrived_ok [OF ok] a by simp
  next
    case (After_Terminal slotId)
    then show ?thesis using replaced_ok [OF profile] by (simp add: refreshAfterTerminal_def)
  next
    case Refresh_Slot
    then show ?thesis using replaced_ok [OF ok] ok by (simp add: refreshLeaderboard_def split: option.split)
  qed (simp_all add: selectLeaderboardSlot_def ok profile cancelled replaced_ok failed_ok over_ok)
qed

lemma new_reporting_ok: "reporting_ok served new_reporting"
proof -
  have "displays served new_reporting []" by (simp add: displays_def new_reporting_def)
  then show ?thesis by (auto simp: reporting_ok_def new_reporting_def live_request_def)
qed

lemma reporting_run_ok: "reporting_ok served s \<Longrightarrow> run_answered served s es \<Longrightarrow> reporting_ok served (foldl reporting_step s es)"
  by (induction es arbitrary: s) (auto intro: step_ok)

text \<open>Property C19. In every run of the pages, with answers in any order, the entries shown are the consecutive pages of the selected
  day from the first one on, each the server's answer for the cursor of the one before; the cursor kept is that of the last page,
  so the next page is appended in its place. Nothing is shown twice and no other day's entries are mixed in.\<close>

theorem leaderboard_shows_consecutive_pages:
  assumes "run_answered served new_reporting es"
  shows "\<exists>ps. displays served (foldl reporting_step new_reporting es) ps"
  using reporting_run_ok [OF new_reporting_ok assms] by (auto simp: reporting_ok_def)

section \<open>Two reads that go wrong\<close>

text \<open>A profile read that \<open>reset\<close> cancels comes back as the error of the page.\<close>

definition cancelled_profile_run :: "('e, nat) reporting_event list" where
  "cancelled_profile_run = [Refresh_Profile False, Reset, Profile_Read 1 (Inl (client_error CANCELLED)), Profile_Over 1, Profile_Resumes 0]"

lemma reset_leaves_an_error:
  "let s = foldl reporting_step new_reporting cancelled_profile_run
   in rs_profileStatus s = R_Error \<and> rs_profileError s = Some (client_error CANCELLED)"
  by code_simp

text \<open>A refresh after the end of an attempt is dropped while a read of the same day is under way.\<close>

lemma terminal_refresh_is_dropped:
  assumes "rs_requestKey s = Some (request_key slotId None)" "rs_request s \<noteq> None"
  shows "refreshAfterTerminal slotId s = refreshProfile True s"
proof -
  have "rs_requestKey (refreshProfile True s) = rs_requestKey s" "rs_request (refreshProfile True s) = rs_request s"
    by (simp_all add: refreshProfile_def split: prod.split)
  then show ?thesis using assms by (simp add: refreshAfterTerminal_def loadLeaderboard_def)
qed

section \<open>Witness\<close>

definition sample_server :: "nat server" where
  "sample_server slotId c items n \<longleftrightarrow> (case c of None \<Rightarrow> items = [1, 2] \<and> n = Text_Cursor ''x'' | Some _ \<Rightarrow> items = [3] \<and> n = Null_Cursor)"

definition sample_pages_run :: "(nat, nat) reporting_event list" where
  "sample_pages_run = [Select_Slot ''a'', Select_Slot ''b'', Page_Arrived 1 [1, 2] (Text_Cursor ''x''), Request_Over 1, Load_More,
     Page_Arrived 0 [1, 2] (Text_Cursor ''x''), Load_More, Page_Arrived 2 [3] Null_Cursor, Request_Over 2, Load_More]"

theorem leaderboard_shows_consecutive_pages_witness:
  "rs_entries (foldl reporting_step new_reporting sample_pages_run) = [1, 2, 3] \<and>
   (\<exists>ps. displays sample_server (foldl reporting_step new_reporting sample_pages_run) ps)"
proof -
  have "run_answered sample_server new_reporting sample_pages_run" by code_simp
  moreover have "rs_entries (foldl reporting_step new_reporting sample_pages_run) = [1, 2, 3]" by code_simp
  ultimately show ?thesis using leaderboard_shows_consecutive_pages by blast
qed

end
