(* ===== verification/Observability.thy ===== *)
theory Observability
  imports Json_Text Js_Value Prelude "HOL-Library.AList"
begin

text \<open>
  What the processes tell about themselves: the metrics of the queue (\<^verbatim>\<open>packages/observability/src/queue.ts\<close>) with the readings of
  the observer (\<^verbatim>\<open>apps/queue-observer/src/index.ts\<close>), the answers of the private health server (\<^verbatim>\<open>health.ts\<close>), and the
  bounded messages of the API and the worker (\<^verbatim>\<open>boundedSignal\<close> of \<^verbatim>\<open>apps/api/src/server.ts\<close>). \<open>to_number\<close> is \<^verbatim>\<open>Number\<close> on a text.

  Results: whatever Redis answers, the observer has a snapshot that can be rendered; a message is written at most once a minute
  for each code; the process is alive whatever its dependencies do.
\<close>

section \<open>Metrics\<close>

record queue_snapshot =
  qs_waiting :: int
  qs_active :: int
  qs_delayed :: int
  qs_completed :: int
  qs_failed :: int
  qs_oldestRetainedAgeSeconds :: int
  qs_workerConnected :: int
  qs_degraded :: int

definition QUEUE_METRICS :: "(string \<times> int) list" where
  "QUEUE_METRICS = [(''loremaster_queue_waiting'', 128), (''loremaster_queue_active'', 128), (''loremaster_queue_delayed'', 128),
     (''loremaster_queue_completed'', 128), (''loremaster_queue_failed'', 128), (''loremaster_queue_oldest_retained_age_seconds'', 172800),
     (''loremaster_queue_worker_connected'', 1), (''loremaster_queue_degraded'', 1)]"

definition snapshot_counts :: "queue_snapshot \<Rightarrow> int list" where
  "snapshot_counts v = [qs_waiting v, qs_active v, qs_delayed v, qs_completed v, qs_failed v, qs_oldestRetainedAgeSeconds v,
     qs_workerConnected v, qs_degraded v]"

definition metric_line :: "string \<Rightarrow> int \<Rightarrow> string" where
  "metric_line name reading = ''# TYPE '' @ name @ '' gauge'' @ CHR 0x0A # name @ ''{queue='' @ CHR 0x22 # ''loremaster-warm-v1'' @ CHR 0x22 #
     '',version='' @ CHR 0x22 # ''1'' @ CHR 0x22 # ''} '' @ json_int reading @ [CHR 0x0A]"

definition count_in_range :: "string \<times> int \<Rightarrow> int \<Rightarrow> bool" where
  "count_in_range metric reading \<longleftrightarrow> is_safe_int reading \<and> 0 \<le> reading \<and> reading \<le> snd metric"

definition renderQueueMetrics :: "queue_snapshot \<Rightarrow> string option" where
  "renderQueueMetrics v =
    (if list_all2 count_in_range QUEUE_METRICS (snapshot_counts v)
     then Some (concat (map2 (\<lambda>m. metric_line (fst m)) QUEUE_METRICS (snapshot_counts v))) else None)"

section \<open>The readings of the observer\<close>

record queue_replies =
  qr_waiting :: int
  qr_active :: int
  qr_delayed :: int
  qr_completed :: int
  qr_failed :: int
  qr_oldestCompleted :: "string list"
  qr_oldestFailed :: "string list"
  qr_heartbeat :: "string option"

definition unavailable_snapshot :: queue_snapshot where
  "unavailable_snapshot = \<lparr>qs_waiting = 0, qs_active = 0, qs_delayed = 0, qs_completed = 0, qs_failed = 0,
     qs_oldestRetainedAgeSeconds = 0, qs_workerConnected = 0, qs_degraded = 1\<rparr>"

text \<open>The age of a pair of a member and its score; \<open>None\<close> where the code throws.\<close>

definition retained_age :: "(string \<Rightarrow> js_number) \<Rightarrow> int \<Rightarrow> string list \<Rightarrow> int option" where
  "retained_age to_number now pair =
    (case pair of
       [] \<Rightarrow> Some 0
     | [_, sc] \<Rightarrow>
         let t = to_number sc
         in if \<not> is_safe_integer t \<or> js_floor t < 0 \<or> now + 60000 < js_floor t then None
            else Some (min 172800 (max 0 ((now - js_floor t) div 1000)))
     | _ \<Rightarrow> None)"

definition snapshot_of :: "(string \<Rightarrow> js_number) \<Rightarrow> int \<Rightarrow> queue_replies \<Rightarrow> queue_snapshot option" where
  "snapshot_of to_number now r =
    (case (retained_age to_number now (qr_oldestCompleted r), retained_age to_number now (qr_oldestFailed r)) of
       (Some a, Some b) \<Rightarrow>
         if qr_heartbeat r \<noteq> None \<and> qr_heartbeat r \<noteq> Some ''1'' then None
         else let connected = (qr_heartbeat r = Some ''1'');
                  v = \<lparr>qs_waiting = qr_waiting r, qs_active = qr_active r, qs_delayed = qr_delayed r, qs_completed = qr_completed r,
                    qs_failed = qr_failed r, qs_oldestRetainedAgeSeconds = max (max 0 a) b,
                    qs_workerConnected = (if connected then 1 else 0), qs_degraded = (if connected then 0 else 1)\<rparr>
           in if 128 < qr_waiting r + qr_active r + qr_delayed r then None
              else (case renderQueueMetrics v of None \<Rightarrow> None | Some _ \<Rightarrow> Some v)
     | _ \<Rightarrow> None)"

record observation =
  ob_last :: "(int \<times> queue_snapshot) option"
  ob_valid :: bool

definition new_observation :: observation where
  "new_observation = \<lparr>ob_last = None, ob_valid = False\<rparr>"

text \<open>An inspection at \<open>now\<close>; the replies, \<open>None\<close> for an error of the connection, are looked at and kept at \<open>later\<close>.\<close>

definition inspect_queue ::
  "(string \<Rightarrow> js_number) \<Rightarrow> observation \<Rightarrow> int \<Rightarrow> queue_replies option \<Rightarrow> int \<Rightarrow> queue_snapshot \<times> observation" where
  "inspect_queue to_number ob now replies later =
    (case ob_last ob of
       Some (since, v) \<Rightarrow> if now - since < 1000 then (v, ob) else
         (case Option.bind replies (snapshot_of to_number later) of
            None \<Rightarrow> (unavailable_snapshot, \<lparr>ob_last = Some (later, unavailable_snapshot), ob_valid = False\<rparr>)
          | Some w \<Rightarrow> (w, \<lparr>ob_last = Some (later, w), ob_valid = True\<rparr>))
     | None \<Rightarrow>
         (case Option.bind replies (snapshot_of to_number later) of
            None \<Rightarrow> (unavailable_snapshot, \<lparr>ob_last = Some (later, unavailable_snapshot), ob_valid = False\<rparr>)
          | Some w \<Rightarrow> (w, \<lparr>ob_last = Some (later, w), ob_valid = True\<rparr>)))"

definition renders :: "queue_snapshot \<Rightarrow> bool" where
  "renders v \<longleftrightarrow> renderQueueMetrics v \<noteq> None"

definition observation_ok :: "observation \<Rightarrow> bool" where
  "observation_ok ob \<longleftrightarrow> (case ob_last ob of None \<Rightarrow> \<not> ob_valid ob | Some (since, v) \<Rightarrow> renders v \<and> (ob_valid ob \<longrightarrow> qs_degraded v = 1 - qs_workerConnected v))"

lemma unavailable_renders: "renders unavailable_snapshot"
  by (simp add: renders_def renderQueueMetrics_def unavailable_snapshot_def QUEUE_METRICS_def snapshot_counts_def count_in_range_def
      is_safe_int_def MAX_SAFE_INTEGER_def)

lemma snapshot_renders:
  "snapshot_of to_number now r = Some v \<Longrightarrow> renders v \<and> qs_degraded v = 1 - qs_workerConnected v \<and> qs_waiting v + qs_active v + qs_delayed v \<le> 128"
  by (auto simp: snapshot_of_def renders_def Let_def split: option.splits if_splits)

text \<open>Whatever the connection answers, the metrics can be rendered.\<close>

lemma metrics_always_render:
  assumes "observation_ok ob" "inspect_queue to_number ob now replies later = (v, ob')"
  shows "renders v \<and> observation_ok ob'"
proof -
  have fresh: "renders v \<and> observation_ok ob'"
    if "(case Option.bind replies (snapshot_of to_number later) of
            None \<Rightarrow> (unavailable_snapshot, \<lparr>ob_last = Some (later, unavailable_snapshot), ob_valid = False\<rparr>)
          | Some w \<Rightarrow> (w, \<lparr>ob_last = Some (later, w), ob_valid = True\<rparr>)) = (v, ob')"
  proof (cases "Option.bind replies (snapshot_of to_number later)")
    case None
    then show ?thesis using that unavailable_renders by (auto simp: observation_ok_def)
  next
    case (Some w)
    then obtain r where "snapshot_of to_number later r = Some w" by (cases replies) auto
    then show ?thesis using that Some snapshot_renders by (auto simp: observation_ok_def)
  qed
  show ?thesis
  proof (cases "ob_last ob")
    case None
    then show ?thesis using assms(2) fresh by (simp add: inspect_queue_def)
  next
    case (Some x)
    then obtain since w where w: "ob_last ob = Some (since, w)" by (cases x) auto
    show ?thesis
    proof (cases "now - since < 1000")
      case True
      then show ?thesis using assms w by (auto simp: inspect_queue_def observation_ok_def)
    qed (use assms(2) w fresh in \<open>simp add: inspect_queue_def\<close>)
  qed
qed

section \<open>Health\<close>

datatype health_answer = Health_State int string | Health_Metrics string

text \<open>A request of the private server. \<open>ready\<close> and \<open>metrics\<close> are what the probes give, \<open>None\<close> when they fail or are late;
  \<open>drained\<close> tells whether the server began to drain before the probe was over.\<close>

definition health_response ::
  "bool \<Rightarrow> bool \<Rightarrow> bool \<Rightarrow> string \<Rightarrow> string \<Rightarrow> bool option \<Rightarrow> string option \<Rightarrow> health_answer" where
  "health_response hasMetrics draining drained method path ready metrics =
    (if method \<noteq> ''GET'' then Health_State 405 ''unavailable''
     else if path = ''/health/live'' then Health_State 200 ''ok''
     else if path \<noteq> ''/health/ready'' \<and> \<not> (hasMetrics \<and> path = ''/metrics'') then Health_State 404 ''unavailable''
     else if draining then Health_State 503 ''draining''
     else if path = ''/metrics'' \<and> hasMetrics then
       (case metrics of Some m \<Rightarrow> Health_Metrics m | None \<Rightarrow> Health_State 503 ''unavailable'')
     else let r = (ready = Some True)
       in Health_State (if r \<and> \<not> drained then 200 else 503) (if drained then ''draining'' else if r then ''ready'' else ''unavailable''))"

lemma alive_whatever_happens: "health_response hasMetrics draining drained ''GET'' ''/health/live'' ready metrics = Health_State 200 ''ok''"
  by (simp add: health_response_def)

lemma ready_means_ready:
  "health_response hasMetrics draining drained method ''/health/ready'' ready metrics = Health_State 200 state \<longleftrightarrow>
     method = ''GET'' \<and> \<not> draining \<and> \<not> drained \<and> ready = Some True \<and> state = ''ready''"
  by (auto simp: health_response_def Let_def)

section \<open>Bounded messages\<close>

type_synonym signal_log = "(string \<times> int) list"

text \<open>Whether a message is written, and the time kept of it.\<close>

definition boundedSignal :: "signal_log \<Rightarrow> int \<Rightarrow> string \<Rightarrow> bool \<times> signal_log" where
  "boundedSignal kept now code =
    (if now - (case map_of kept code of None \<Rightarrow> 0 | Some t \<Rightarrow> t) < 60000 then (False, kept) else (True, AList.update code now kept))"

definition worker_signal :: "signal_log \<Rightarrow> int \<Rightarrow> string \<Rightarrow> bool \<times> signal_log" where
  "worker_signal kept now code = (if code = ''warmed'' then (False, kept) else boundedSignal kept now code)"

fun written :: "signal_log \<Rightarrow> (int \<times> string) list \<Rightarrow> (int \<times> string) list" where
  "written kept [] = []"
| "written kept ((now, code) # es) = (case boundedSignal kept now code of (w, kept') \<Rightarrow> (if w then [(now, code)] else []) @ written kept' es)"

lemma written_subset: "set (written kept es) \<subseteq> set es"
proof (induction es arbitrary: kept)
  case (Cons e es)
  obtain n c where e: "e = (n, c)" by fastforce
  obtain w kept' where "boundedSignal kept n c = (w, kept')" by fastforce
  then show ?case using Cons.IH [of kept'] by (auto simp: e split: if_splits)
qed simp

lemma written_after:
  "map_of kept code = Some t \<Longrightarrow> (now, code) \<in> set (written kept es) \<Longrightarrow> sorted (map fst es) \<Longrightarrow> t + 60000 \<le> now"
proof (induction es arbitrary: kept t)
  case (Cons e es)
  obtain n c where e: "e = (n, c)" by fastforce
  obtain w kept' where b: "boundedSignal kept n c = (w, kept')" by fastforce
  show ?case
  proof (cases "w \<and> c = code")
    case True
    then have "t + 60000 \<le> n" using b Cons.prems(1) by (auto simp: boundedSignal_def split: if_splits)
    moreover have "n \<le> now"
    proof -
      have "(now, code) \<in> set (e # es)" using written_subset Cons.prems(2) by blast
      then show ?thesis using Cons.prems(3) e by (auto dest: set_ConsD)
    qed
    ultimately show ?thesis by simp
  next
    case False
    then have "map_of kept' code = Some t" using b Cons.prems(1) by (auto simp: boundedSignal_def update_conv' split: if_splits)
    moreover have "(now, code) \<in> set (written kept' es)" using Cons.prems(2) False by (auto simp: e b split: if_splits)
    ultimately show ?thesis using Cons.IH Cons.prems(3) by auto
  qed
qed simp

text \<open>Two messages of one code are at least a minute apart.\<close>

lemma messages_are_bounded:
  assumes "sorted (map fst es)" "written kept es = xs @ (t, code) # ys" "(now, code) \<in> set ys"
  shows "t + 60000 \<le> now"
  using assms
proof (induction es arbitrary: kept xs)
  case (Cons e es)
  obtain n c where e: "e = (n, c)" by fastforce
  obtain w kept' where b: "boundedSignal kept n c = (w, kept')" by fastforce
  show ?case
  proof (cases "w \<and> xs = []")
    case True
    then have "n = t" "c = code" "written kept' es = ys" using Cons.prems(2) by (auto simp: e b)
    moreover from this have "map_of kept' code = Some t" using b True by (auto simp: boundedSignal_def update_conv' split: if_splits)
    ultimately show ?thesis using written_after Cons.prems(1,3) by auto
  next
    case False
    then have "\<exists>xs'. written kept' es = xs' @ (t, code) # ys" using Cons.prems(2) by (cases xs) (auto simp: e b split: if_splits)
    then show ?thesis using Cons.IH Cons.prems(1,3) by auto
  qed
qed simp

end
