(* ===== verification/Request_Validation.thy ===== *)
theory Request_Validation
  imports Gameplay_Routes Raw_Json
begin

text \<open>
  The request validator of the kernel (\<^verbatim>\<open>requestValidator\<close> in \<^verbatim>\<open>apps/api/src/app.ts\<close>) and the life of a response: its deadline
  (\<^verbatim>\<open>http/deadline.ts\<close>) and its log (\<^verbatim>\<open>http/telemetry.ts\<close>). The schemas are arguments: a function from the untyped input to
  the issues \<^verbatim>\<open>zod\<close> reports or the value it gives. The names of the query are those \<^verbatim>\<open>URLSearchParams\<close> lists, in order.

  Results: every error of the validator is one the client can read, and it names public paths only; a response is logged once.
\<close>

section \<open>Issues\<close>

record validation_issue =
  vi_code :: string
  vi_missing :: bool
  vi_path :: "string list"

definition safePath :: "string list \<Rightarrow> string option \<Rightarrow> string" where
  "safePath path start =
    (let segments = (case start of None \<Rightarrow> [] | Some s \<Rightarrow> [s]) @ path;
         candidate = (if segments = [] then ''$'' else ''$.'' @ js_join ''.'' segments)
     in if candidate \<in> set PUBLIC_ERROR_FIELD_PATHS then candidate else ''$'')"

definition issueCode :: "validation_issue \<Rightarrow> field_code" where
  "issueCode i =
    (if vi_code i = ''unrecognized_keys'' then UNKNOWN_FIELD
     else if vi_code i = ''invalid_type'' then (if vi_missing i then REQUIRED else INVALID_TYPE)
     else if vi_code i = ''too_big'' \<or> vi_code i = ''too_small'' then OUT_OF_BOUNDS
     else INVALID_FORMAT)"

definition validationError :: "validation_issue list \<Rightarrow> string option \<Rightarrow> http_error" where
  "validationError issues start = \<lparr>he_code = INVALID_REQUEST,
     he_fields = map (\<lambda>i. \<lparr>fe_code = issueCode i, fe_path = safePath (vi_path i) start\<rparr>) (take 32 issues)\<rparr>"

definition duplicate_field :: "string \<Rightarrow> http_error" where
  "duplicate_field path = \<lparr>he_code = INVALID_REQUEST,
     he_fields = [\<lparr>fe_code = DUPLICATE_FIELD, fe_path = (if path \<in> set PUBLIC_ERROR_FIELD_PATHS then path else ''$'')\<rparr>]\<rparr>"

section \<open>The validator\<close>

type_synonym schema = "js_value \<Rightarrow> validation_issue list + js_value"

record operation_schemas =
  os_body :: "schema option"
  os_headers :: "schema option"
  os_path :: "schema option"
  os_query :: "schema option"

record api_request =
  aq_request :: http_request
  aq_queryNames :: "string list"
  aq_params :: js_value
  aq_query :: js_value
  aq_body :: body_result

record validated =
  va_body :: js_value
  va_headers :: js_value
  va_params :: js_value
  va_query :: js_value

definition security_headers :: "string list" where
  "security_headers = [''content-type'', ''idempotency-key'', ''origin'', ''x-csrf-token'']"

text \<open>\<^verbatim>\<open>/-([a-z])/\<close> replaced by the letter in upper case.\<close>

fun camel_case :: "string \<Rightarrow> string" where
  "camel_case (c # d # rest) =
     (if c = CHR ''-'' \<and> 97 \<le> (of_char d :: nat) \<and> (of_char d :: nat) \<le> 122 then char_of (of_char d - 32 :: nat) # camel_case rest
      else c # camel_case (d # rest))"
| "camel_case s = s"

definition header_path :: "string \<Rightarrow> string" where
  "header_path name = (if name = ''x-csrf-token'' then ''$.headers.csrfToken'' else ''$.headers.'' @ camel_case name)"

definition rejectRepeatedSecurityHeaders :: "http_request \<Rightarrow> http_error + unit" where
  "rejectRepeatedSecurityHeaders r =
    (case find (\<lambda>h. 1 < rawHeaderCount r h) security_headers of
       None \<Rightarrow> Inr () | Some h \<Rightarrow> Inl (duplicate_field (header_path h)))"

definition rejectRepeatedQueryParameters :: "string list \<Rightarrow> http_error + unit" where
  "rejectRepeatedQueryParameters keys =
    (case find (\<lambda>k. 2 \<le> length (filter (\<lambda>x. x = k) keys)) keys of
       None \<Rightarrow> Inr () | Some k \<Rightarrow> Inl (duplicate_field (''$.'' @ k)))"

definition header_value :: "http_request \<Rightarrow> string \<Rightarrow> js_value" where
  "header_value r name = (case header r name of None \<Rightarrow> Undefined | Some v \<Rightarrow> String v)"

definition normalizedHeaders :: "http_request \<Rightarrow> auth_policy \<Rightarrow> js_value" where
  "normalizedHeaders r policy =
    (if policy = AUTH_BOOTSTRAP
     then Object [(''contentType'', header_value r ''content-type''), (''origin'', header_value r ''origin'')]
     else Object [(''contentType'', header_value r ''content-type''), (''csrfToken'', header_value r ''x-csrf-token''),
       (''idempotencyKey'', header_value r ''idempotency-key''), (''origin'', header_value r ''origin'')])"

definition parseWithSchema :: "schema option \<Rightarrow> js_value \<Rightarrow> string option \<Rightarrow> http_error + js_value" where
  "parseWithSchema s input start =
    (case s of None \<Rightarrow> Inr Undefined
     | Some f \<Rightarrow> (case f input of Inl issues \<Rightarrow> Inl (validationError issues start) | Inr v \<Rightarrow> Inr v))"

text \<open>\<open>None\<close> when the body is a text outside the model.\<close>

definition validated_body :: "schema option \<Rightarrow> api_request \<Rightarrow> (http_error + js_value) option" where
  "validated_body s q =
    (case s of None \<Rightarrow> Some (Inr Undefined)
     | Some f \<Rightarrow>
         (case aq_body q of
            BodyOutOfModel \<Rightarrow> None
          | BodyError e \<Rightarrow> Some (Inl e)
          | Body v \<Rightarrow> Some (parseWithSchema s v None)))"

definition requestValidator :: "operation_schemas \<Rightarrow> auth_policy \<Rightarrow> api_request \<Rightarrow> (http_error + validated) option" where
  "requestValidator s policy q =
    (case bindE (rejectRepeatedSecurityHeaders (aq_request q)) (\<lambda>_.
          bindE (rejectRepeatedQueryParameters (aq_queryNames q)) (\<lambda>_.
            if os_body s \<noteq> None \<and> header (aq_request q) ''content-type'' \<noteq> Some ''application/json''
            then Inl (public_error UNSUPPORTED_MEDIA_TYPE) else Inr ())) of
       Inl e \<Rightarrow> Some (Inl e)
     | Inr u \<Rightarrow> map_option (\<lambda>b.
         bindE b (\<lambda>body.
         bindE (parseWithSchema (os_headers s) (normalizedHeaders (aq_request q) policy) (Some ''headers'')) (\<lambda>headers.
         bindE (parseWithSchema (os_path s) (aq_params q) None) (\<lambda>params.
         bindE (parseWithSchema (os_query s) (aq_query q) None) (\<lambda>query.
           Inr \<lparr>va_body = body, va_headers = headers, va_params = params, va_query = query\<rparr>)))))
         (validated_body (os_body s) q))"

section \<open>The error as it is sent\<close>

fun field_code_name :: "field_code \<Rightarrow> string" where
  "field_code_name REQUIRED = ''REQUIRED''"
| "field_code_name INVALID_TYPE = ''INVALID_TYPE''"
| "field_code_name INVALID_FORMAT = ''INVALID_FORMAT''"
| "field_code_name OUT_OF_BOUNDS = ''OUT_OF_BOUNDS''"
| "field_code_name UNKNOWN_FIELD = ''UNKNOWN_FIELD''"
| "field_code_name DUPLICATE_FIELD = ''DUPLICATE_FIELD''"

definition error_value :: "error_body \<Rightarrow> js_value" where
  "error_value b = Object [(''error'', Object ([(''code'', String (api_error_name (eb_code b))), (''requestId'', String (eb_requestId b))] @
     (if eb_fields b = [] then []
      else [(''fields'', Array (map (\<lambda>f. Object [(''code'', String (field_code_name (fe_code f))), (''path'', String (fe_path f))]) (eb_fields b)))])))]"

lemma field_code_named: "field_code_name c \<in> set FIELD_CODES"
  by (cases c) (simp_all add: FIELD_CODES_def)

lemma root_is_public: "''$'' \<in> set PUBLIC_ERROR_FIELD_PATHS"
  by (simp add: PUBLIC_ERROR_FIELD_PATHS_def)

lemma sent_paths:
  "f \<in> set (eb_fields (sendPublicError PUBLIC_ERROR_FIELD_PATHS requestId e)) \<Longrightarrow> fe_path f \<in> set PUBLIC_ERROR_FIELD_PATHS"
  "length (eb_fields (sendPublicError PUBLIC_ERROR_FIELD_PATHS requestId e)) \<le> 32"
  using root_is_public by (auto simp: sendPublicError_def)

text \<open>Whatever error a handler or the validator gives, the client reads the response as that error.\<close>

lemma sent_error_is_readable:
  assumes "z_uuid z requestId"
  shows "errorResponseSchema z (error_value (sendPublicError PUBLIC_ERROR_FIELD_PATHS requestId e)) = Some (he_code e, requestId)"
proof -
  let ?b = "sendPublicError PUBLIC_ERROR_FIELD_PATHS requestId e"
  have b: "eb_code ?b = he_code e" "eb_requestId ?b = requestId" by (simp_all add: sendPublicError_def)
  have "field_schema (Object [(''code'', String (field_code_name (fe_code f))), (''path'', String (fe_path f))])" if "f \<in> set (eb_fields ?b)" for f
    using sent_paths(1) [OF that] field_code_named by (simp add: field_schema_def strict_object_def)
  then show ?thesis using assms sent_paths(2) [of requestId e]
    by (auto simp: errorResponseSchema_def error_value_def strict_object_def error_of_name_name Let_def b list_all_iff)
qed

lemma validation_paths: "f \<in> set (he_fields (validationError issues start)) \<Longrightarrow> fe_path f \<in> set PUBLIC_ERROR_FIELD_PATHS"
  using root_is_public by (auto simp: validationError_def safePath_def Let_def)

lemma duplicate_paths: "f \<in> set (he_fields (duplicate_field path)) \<Longrightarrow> fe_path f \<in> set PUBLIC_ERROR_FIELD_PATHS"
  using root_is_public by (auto simp: duplicate_field_def)

lemma three_checks:
  fixes a b :: "'e + unit"
  shows "bindE a (\<lambda>_. bindE b (\<lambda>_. if wrong then Inl e else Inr ())) = Inr () \<Longrightarrow> a = Inr () \<and> b = Inr () \<and> \<not> wrong"
  by (cases a; cases b) (simp_all split: if_splits)

text \<open>A request that is validated has no security header and no query parameter twice, and a body is JSON by its header.\<close>

lemma validated_request:
  assumes "requestValidator s policy q = Some (Inr v)"
  shows "\<forall>h \<in> set security_headers. rawHeaderCount (aq_request q) h \<le> 1" "distinct (aq_queryNames q)"
    "os_body s \<noteq> None \<Longrightarrow> header (aq_request q) ''content-type'' = Some ''application/json''"
proof -
  have c: "rejectRepeatedSecurityHeaders (aq_request q) = Inr ()" "rejectRepeatedQueryParameters (aq_queryNames q) = Inr ()"
    "os_body s \<noteq> None \<Longrightarrow> header (aq_request q) ''content-type'' = Some ''application/json''"
  proof -
    let ?first = "bindE (rejectRepeatedSecurityHeaders (aq_request q)) (\<lambda>_.
      bindE (rejectRepeatedQueryParameters (aq_queryNames q)) (\<lambda>_.
        if os_body s \<noteq> None \<and> header (aq_request q) ''content-type'' \<noteq> Some ''application/json''
        then Inl (public_error UNSUPPORTED_MEDIA_TYPE) else Inr ()))"
    have "?first = Inr ()" using assms unfolding requestValidator_def by (cases ?first) simp_all
    note checked = three_checks [OF this]
    show "rejectRepeatedSecurityHeaders (aq_request q) = Inr ()" "rejectRepeatedQueryParameters (aq_queryNames q) = Inr ()"
      "os_body s \<noteq> None \<Longrightarrow> header (aq_request q) ''content-type'' = Some ''application/json''"
      using checked by blast+
  qed
  show "\<forall>h \<in> set security_headers. rawHeaderCount (aq_request q) h \<le> 1"
    using c(1) by (auto simp: rejectRepeatedSecurityHeaders_def find_None_iff not_less split: option.splits)
  have two: "length (filter (\<lambda>x. x = k) (aq_queryNames q)) < 2" if "k \<in> set (aq_queryNames q)" for k
    using c(2) that by (auto simp: rejectRepeatedQueryParameters_def find_None_iff split: option.splits)
  show "distinct (aq_queryNames q)"
  proof (rule ccontr)
    assume "\<not> distinct (aq_queryNames q)"
    then obtain xs ys zs y where d: "aq_queryNames q = xs @ [y] @ ys @ [y] @ zs" using not_distinct_decomp by blast
    then show False using two [of y] by simp
  qed
  show "os_body s \<noteq> None \<Longrightarrow> header (aq_request q) ''content-type'' = Some ''application/json''" by (rule c(3))
qed

section \<open>The life of a response\<close>

text \<open>Events of a request and its response; each \<^verbatim>\<open>once\<close> listener acts the first time only. \<open>Response_Closed ended\<close> tells
  whether the response was ended by then.\<close>

datatype life_event = Deadline_Timer | Request_Aborted | Response_Finished | Response_Closed bool

record response_life =
  rl_timer :: bool
  rl_reason :: "string option"
  rl_aborted :: bool
  rl_finished :: bool
  rl_closed :: bool
  rl_logs :: nat

definition new_life :: response_life where
  "new_life = \<lparr>rl_timer = True, rl_reason = None, rl_aborted = False, rl_finished = False, rl_closed = False, rl_logs = 0\<rparr>"

text \<open>\<^verbatim>\<open>controller.abort\<close>: the first reason stays.\<close>

definition abort_with :: "string \<Rightarrow> response_life \<Rightarrow> response_life" where
  "abort_with reason l = (if rl_reason l = None then l\<lparr>rl_reason := Some reason\<rparr> else l)"

definition record_response :: "response_life \<Rightarrow> response_life" where
  "record_response l = (if rl_finished l \<or> rl_closed l then l else l\<lparr>rl_logs := rl_logs l + 1\<rparr>)"

fun life_step :: "response_life \<Rightarrow> life_event \<Rightarrow> response_life" where
  "life_step l Deadline_Timer = (if rl_timer l then (abort_with ''DEADLINE'' l)\<lparr>rl_timer := False\<rparr> else l)"
| "life_step l Request_Aborted = (if rl_aborted l then l else (abort_with ''CLIENT_DISCONNECT'' l)\<lparr>rl_aborted := True\<rparr>)"
| "life_step l Response_Finished = (if rl_finished l then l else (record_response l)\<lparr>rl_timer := False, rl_finished := True\<rparr>)"
| "life_step l (Response_Closed ended) =
     (if rl_closed l then l
      else let l1 = (record_response l)\<lparr>rl_timer := False, rl_closed := True\<rparr>
        in if ended then l1 else abort_with ''CLIENT_DISCONNECT'' l1)"

definition statusClass :: "int \<Rightarrow> string" where
  "statusClass status = (if status < 300 then ''2xx'' else if status < 400 then ''3xx'' else if status < 500 then ''4xx'' else ''5xx'')"

definition over :: "life_event \<Rightarrow> bool" where
  "over e \<longleftrightarrow> (case e of Response_Finished \<Rightarrow> True | Response_Closed _ \<Rightarrow> True | _ \<Rightarrow> False)"

definition life_ok :: "response_life \<Rightarrow> bool" where
  "life_ok l \<longleftrightarrow> rl_logs l = (if rl_finished l \<or> rl_closed l then 1 else 0) \<and> (rl_finished l \<or> rl_closed l \<longrightarrow> \<not> rl_timer l)"

lemma life_step_ok: "life_ok l \<Longrightarrow> life_ok (life_step l e)"
  by (cases e) (auto simp: life_ok_def abort_with_def record_response_def Let_def)

interpretation life: guarded_machine life_step life_ok
  by unfold_locales (rule life_step_ok)

lemma new_life_ok: "life_ok new_life"
  by (simp add: life_ok_def new_life_def)

definition ended :: "response_life \<Rightarrow> bool" where
  "ended l \<longleftrightarrow> rl_finished l \<or> rl_closed l"

lemma life_over: "ended (life_step l e) = (ended l \<or> over e)"
  by (cases e) (auto simp: ended_def over_def abort_with_def record_response_def Let_def)

lemma run_over: "ended (foldl life_step l es) = (ended l \<or> list_ex over es)"
  by (induction es arbitrary: l) (simp_all add: life_over disj_assoc)

text \<open>A response is logged exactly once, when it is finished or closed, and its deadline cannot abort it afterwards.\<close>

lemma responses_are_logged_once:
  "rl_logs (foldl life_step new_life es) = (if list_ex over es then 1 else 0)"
proof -
  have "rl_logs (foldl life_step new_life es) = (if ended (foldl life_step new_life es) then 1 else 0)"
    using life.run_good [OF new_life_ok, of es] unfolding life_ok_def ended_def by blast
  then show ?thesis by (simp add: run_over) (simp add: ended_def new_life_def)
qed

lemma no_deadline_after_the_end:
  assumes "life_ok l" "rl_finished l \<or> rl_closed l"
  shows "rl_reason (life_step l Deadline_Timer) = rl_reason l"
  using assms by (simp add: life_ok_def)

end
