(* ===== verification/Redis_Connection.thy ===== *)
theory Redis_Connection
  imports Prelude Complex_Main
begin

text \<open>
  The connections of the processes to Redis (\<^verbatim>\<open>packages/cache/src/redis-connection.ts\<close>). A client of \<^verbatim>\<open>ioredis\<close> is known by a number.
  A run of a command is split where it waits: for the connection and for the command; other runs may come between. What the client, the
  timer and the signal make of a wait is an event.

  Result: a client whose run failed, was late or was cancelled is destroyed and never used again, so no command of it can be
  executed after a reconnect; a closed connection runs nothing.
\<close>

section \<open>Policies\<close>

datatype redis_profile = Api_Cache | Api_Limiter | Producer_Profile | Worker_Profile | Observer_Profile

definition connectTimeoutMs :: int where "connectTimeoutMs = 500"
definition reconnectMinimumMs :: int where "reconnectMinimumMs = 100"
definition reconnectMaximumMs :: int where "reconnectMaximumMs = 2000"

fun commandTimeoutMs :: "redis_profile \<Rightarrow> int" where
  "commandTimeoutMs Api_Cache = 100"
| "commandTimeoutMs Api_Limiter = 100"
| "commandTimeoutMs Producer_Profile = 1000"
| "commandTimeoutMs Worker_Profile = 5000"
| "commandTimeoutMs Observer_Profile = 1000"

text \<open>The delay before a reconnect, with the random draw between 0 and 1 as an argument.\<close>

definition retry_base :: "nat \<Rightarrow> int" where
  "retry_base attempt = min reconnectMaximumMs (reconnectMinimumMs * 2 ^ min attempt 5)"

definition retry_delay :: "real \<Rightarrow> nat \<Rightarrow> int" where
  "retry_delay draw attempt = \<lfloor>real_of_int (retry_base attempt) * (1 - 2 / 10 + draw * (2 / 10) * 2) + 1 / 2\<rfloor>"

section \<open>Errors\<close>

datatype redis_reason = Redis_Timeout | Redis_Unavailable | Redis_Cancelled | Acl_Denied | Redis_Capacity

datatype redis_error = Operation_Error redis_reason | Driver_Error string | Other_Value

fun occurs :: "string \<Rightarrow> string \<Rightarrow> bool" where
  "occurs p [] = (p = [])"
| "occurs p (c # s) = (take (length p) (c # s) = p \<or> occurs p s)"

definition redisFailure :: "redis_error \<Rightarrow> redis_reason" where
  "redisFailure e =
    (case e of
       Operation_Error r \<Rightarrow> r
     | _ \<Rightarrow>
       let message = (case e of Driver_Error m \<Rightarrow> m | _ \<Rightarrow> [])
       in if occurs ''NOPERM'' message \<or> occurs ''NOAUTH'' message \<or> occurs ''WRONGPASS'' message then Acl_Denied
          else if occurs ''OOM'' message \<or> occurs ''noeviction'' message then Redis_Capacity else Redis_Unavailable)"

section \<open>The connection\<close>

record redis_connection =
  rn_client :: "nat option"
  rn_next :: nat
  rn_connecting :: bool
  rn_closed :: bool
  rn_destroyed :: "nat list"

definition new_connection :: redis_connection where
  "new_connection = \<lparr>rn_client = None, rn_next = 0, rn_connecting = False, rn_closed = False, rn_destroyed = []\<rparr>"

text \<open>The start of a run: an error, or the client it uses and whether it has to wait for the connection.\<close>

definition begin_run :: "bool \<Rightarrow> bool \<Rightarrow> redis_connection \<Rightarrow> redis_error + (nat \<times> bool) \<times> redis_connection" where
  "begin_run aborted online k =
    (if rn_closed k then Inl (Operation_Error Redis_Unavailable)
     else if aborted then Inl (Operation_Error Redis_Cancelled)
     else (case rn_client k of
         Some c \<Rightarrow> Inr ((c, \<not> online), if online then k else k\<lparr>rn_connecting := True\<rparr>)
       | None \<Rightarrow> Inr ((rn_next k, True), k\<lparr>rn_client := Some (rn_next k), rn_next := rn_next k + 1, rn_connecting := True\<rparr>)))"

definition fail_run :: "nat \<Rightarrow> redis_connection \<Rightarrow> redis_connection" where
  "fail_run c k = k\<lparr>rn_destroyed := c # rn_destroyed k, rn_client := (if rn_client k = Some c then None else rn_client k), rn_connecting := False\<rparr>"

text \<open>The end of a wait: the operation's own outcome, the timer or the signal, whichever is first; after the connection the
  signal is looked at once more.\<close>

datatype 'v wait_outcome = Wait_Done 'v | Wait_Failed redis_error | Wait_Late | Wait_Cancelled

fun waited :: "'v wait_outcome \<Rightarrow> redis_error + 'v" where
  "waited (Wait_Done v) = Inr v"
| "waited (Wait_Failed e) = Inl e"
| "waited Wait_Late = Inl (Operation_Error Redis_Timeout)"
| "waited Wait_Cancelled = Inl (Operation_Error Redis_Cancelled)"

definition after_connect :: "nat \<Rightarrow> unit wait_outcome \<Rightarrow> bool \<Rightarrow> redis_connection \<Rightarrow> (redis_error + unit) \<times> redis_connection" where
  "after_connect c r aborted k =
    (case waited r of
       Inl e \<Rightarrow> (Inl e, fail_run c k)
     | Inr u \<Rightarrow> let k' = k\<lparr>rn_connecting := False\<rparr>
         in if aborted then (Inl (Operation_Error Redis_Cancelled), fail_run c k') else (Inr (), k'))"

definition after_command :: "nat \<Rightarrow> 'v wait_outcome \<Rightarrow> redis_connection \<Rightarrow> (redis_error + 'v) \<times> redis_connection" where
  "after_command c r k = (case waited r of Inl e \<Rightarrow> (Inl e, fail_run c k) | Inr v \<Rightarrow> (Inr v, k))"

definition close_connection :: "redis_connection \<Rightarrow> redis_connection" where
  "close_connection k = k\<lparr>rn_closed := True, rn_client := None, rn_connecting := False,
     rn_destroyed := (case rn_client k of None \<Rightarrow> rn_destroyed k | Some c \<Rightarrow> c # rn_destroyed k)\<rparr>"

section \<open>Runs\<close>

text \<open>Runs that wait belong to clients that were created; a step names the client of its run.\<close>

datatype 'v connection_event = Begin_Run bool bool | After_Connect nat "unit wait_outcome" bool | After_Command nat "'v wait_outcome" | Close_Connection

fun connection_step :: "redis_connection \<Rightarrow> 'v connection_event \<Rightarrow> redis_connection" where
  "connection_step k (Begin_Run aborted online) = (case begin_run aborted online k of Inl e \<Rightarrow> k | Inr (c, k') \<Rightarrow> k')"
| "connection_step k (After_Connect c r aborted) = (if c < rn_next k then snd (after_connect c r aborted k) else k)"
| "connection_step k (After_Command c r) = (if c < rn_next k then snd (after_command c r k) else k)"
| "connection_step k Close_Connection = close_connection k"

definition connection_ok :: "redis_connection \<Rightarrow> bool" where
  "connection_ok k \<longleftrightarrow> (\<forall>c. rn_client k = Some c \<longrightarrow> c < rn_next k \<and> c \<notin> set (rn_destroyed k) \<and> \<not> rn_closed k) \<and>
     (\<forall>c \<in> set (rn_destroyed k). c < rn_next k)"

lemma fail_ok: "connection_ok k \<Longrightarrow> c < rn_next k \<Longrightarrow> connection_ok (fail_run c k)"
  by (auto simp: connection_ok_def fail_run_def)

lemma connecting_ok [simp]: "connection_ok (k\<lparr>rn_connecting := b\<rparr>) = connection_ok k"
  by (simp add: connection_ok_def)

lemma connection_step_ok: "connection_ok k \<Longrightarrow> connection_ok (connection_step k e)"
proof (cases e)
  case (Begin_Run aborted online)
  assume "connection_ok k"
  then show ?thesis by (cases "rn_client k") (auto simp: Begin_Run begin_run_def connection_ok_def)
next
  case (After_Connect c r aborted)
  assume k: "connection_ok k"
  have "connection_ok (fail_run c (k\<lparr>rn_connecting := False\<rparr>))" if "c < rn_next k" using k that by (intro fail_ok) simp_all
  then show ?thesis using k fail_ok [OF k] by (auto simp: After_Connect after_connect_def Let_def split: sum.splits)
next
  case (After_Command c r)
  assume "connection_ok k"
  then show ?thesis using fail_ok by (auto simp: After_Command after_command_def split: sum.splits)
next
  case Close_Connection
  assume "connection_ok k"
  then show ?thesis by (auto simp: Close_Connection close_connection_def connection_ok_def split: option.splits)
qed

interpretation redis_runs: guarded_machine connection_step connection_ok
  by unfold_locales (rule connection_step_ok)

lemma new_connection_ok: "connection_ok new_connection"
  by (simp add: connection_ok_def new_connection_def)

text \<open>A client that was destroyed is not used by any later run.\<close>

lemma destroyed_clients_stay_out:
  assumes "c \<in> set (rn_destroyed (foldl connection_step new_connection es))"
    "begin_run aborted online (foldl connection_step new_connection es) = Inr ((c', wait), k)"
  shows "c' \<noteq> c"
  using redis_runs.run_good [OF new_connection_ok, of es] assms by (auto simp: begin_run_def connection_ok_def split: if_splits option.splits)

text \<open>A run that does not give a value destroys its client.\<close>

lemma failed_run_destroys:
  "fst (after_command c r k) = Inl e \<Longrightarrow> c \<in> set (rn_destroyed (snd (after_command c r k)))"
  "fst (after_connect c r' aborted k) = Inl e \<Longrightarrow> c \<in> set (rn_destroyed (snd (after_connect c r' aborted k)))"
  by (auto simp: after_command_def after_connect_def fail_run_def Let_def split: sum.splits if_splits)

lemma closed_runs_nothing: "rn_closed k \<Longrightarrow> begin_run aborted online k = Inl (Operation_Error Redis_Unavailable)"
  by (simp add: begin_run_def)

text \<open>Reconnects come after 80 to 2400 milliseconds.\<close>

lemma retry_delay_bounds:
  assumes "0 \<le> draw" "draw < 1"
  shows "80 \<le> retry_delay draw attempt \<and> retry_delay draw attempt \<le> 2400"
proof -
  have b: "100 \<le> retry_base attempt" "retry_base attempt \<le> 2000"
    by (simp_all add: retry_base_def reconnectMaximumMs_def reconnectMinimumMs_def)
  let ?f = "1 - 2 / 10 + draw * (2 / 10) * 2 :: real"
  have f: "8 / 10 \<le> ?f" "?f < 12 / 10" using assms by (simp_all add: field_simps)
  have "100 * (8 / 10) \<le> real_of_int (retry_base attempt) * ?f" using b(1) f(1) by (intro mult_mono) auto
  moreover have "real_of_int (retry_base attempt) * ?f \<le> 2000 * (12 / 10)" using b f by (intro mult_mono) auto
  ultimately show ?thesis by (simp add: retry_delay_def le_floor_iff floor_le_iff)
qed

end
