(* ===== verification/Api_Server.thy ===== *)
theory Api_Server
  imports Redis_Config Gameplay_Routes
begin

text \<open>
  The composition of the API process (\<^verbatim>\<open>apps/api/src/server.ts\<close>): the session and health handlers, and the life of the process with its
  start, its stop and its signals; and the address of the API the browser is configured with (\<^verbatim>\<open>apps/web/src/public-config.ts\<close>).
  The start is split where it waits for the socket, the stop where it waits for the open requests.

  Results: a stop after a completed start releases everything; a stop while the socket is being opened does not, the server then
  listens with its databases closed.
\<close>

section \<open>Session and health handlers\<close>

text \<open>What \<^verbatim>\<open>createGuestSession\<close> or a query gives: a value, or an error and whether it is a timeout of the database.\<close>

definition createSession_handler :: "bool + 'session \<Rightarrow> handler_error + (int \<times> 'session)" where
  "createSession_handler r =
    (case r of
       Inl timeout \<Rightarrow> Inl (if timeout then Database_Error True else Public SERVICE_UNAVAILABLE)
     | Inr s \<Rightarrow> Inr (201, s))"

definition getSession_handler :: "'identity option \<Rightarrow> handler_error + (int \<times> 'identity)" where
  "getSession_handler ident = (case ident of None \<Rightarrow> Inl (Public AUTHENTICATION_REQUIRED) | Some i \<Rightarrow> Inr (200, i))"

definition healthLive_handler :: "int \<times> string" where
  "healthLive_handler = (200, ''ok'')"

definition healthReady_handler :: "bool \<Rightarrow> handler_error + (int \<times> string)" where
  "healthReady_handler answered = (if answered then Inr (200, ''ready'') else Inl (Public SERVICE_UNAVAILABLE))"

section \<open>The runtime\<close>

datatype runtime_resource = Producer_Loop | Producer_Database | Cache_Connection | Limiter_Connection | Main_Database

datatype stop_phase = Running | Draining | Stopped | Stop_Failed

record api_runtime =
  rt_listening :: bool
  rt_opening :: nat
  rt_started :: bool
  rt_phase :: stop_phase
  rt_producing :: bool
  rt_open :: "runtime_resource list"

definition runtime_resources :: "bool \<Rightarrow> runtime_resource list" where
  "runtime_resources redis = (if redis then [Producer_Database, Cache_Connection, Limiter_Connection] else []) @ [Main_Database]"

definition valid_listen_port :: "int \<Rightarrow> int \<Rightarrow> bool" where
  "valid_listen_port listenPort drainTimeoutMs \<longleftrightarrow>
     is_safe_int listenPort \<and> 0 \<le> listenPort \<and> listenPort \<le> 65535 \<and> is_safe_int drainTimeoutMs \<and> 1 \<le> drainTimeoutMs"

definition new_runtime :: "bool \<Rightarrow> api_runtime" where
  "new_runtime redis = \<lparr>rt_listening = False, rt_opening = 0, rt_started = False, rt_phase = Running, rt_producing = False,
     rt_open = runtime_resources redis\<rparr>"

text \<open>What follows the end of the open requests, or comes at once where nothing was started: producer, databases, connections.\<close>

definition release_all :: "api_runtime \<Rightarrow> api_runtime" where
  "release_all r = r\<lparr>rt_producing := False, rt_open := [], rt_phase := Stopped\<rparr>"

datatype runtime_event = Start_Called | Listen_Done bool | Stop_Called | Server_Closed bool

fun runtime_step :: "bool \<Rightarrow> api_runtime \<Rightarrow> runtime_event \<Rightarrow> api_runtime" where
  "runtime_step redis r Start_Called = (if rt_started r then r else r\<lparr>rt_opening := rt_opening r + 1\<rparr>)"
| "runtime_step redis r (Listen_Done done_well) =
     (if rt_opening r = 0 then r
      else if done_well then r\<lparr>rt_opening := rt_opening r - 1, rt_listening := True, rt_started := True, rt_producing := redis \<and> rt_phase r = Running\<rparr>
      else r\<lparr>rt_opening := rt_opening r - 1\<rparr>)"
| "runtime_step redis r Stop_Called =
     (if rt_phase r \<noteq> Running then r
      else if rt_started r then r\<lparr>rt_phase := Draining\<rparr> else release_all r)"
| "runtime_step redis r (Server_Closed well) =
     (if rt_phase r \<noteq> Draining then r
      else if well then release_all (r\<lparr>rt_listening := False, rt_started := False\<rparr>)
      else r\<lparr>rt_phase := Stop_Failed\<rparr>)"

text \<open>The handlers of \<^verbatim>\<open>SIGINT\<close> and \<^verbatim>\<open>SIGTERM\<close>: the first signal stops the runtime, a later one does nothing.\<close>

definition signal_received :: "bool \<Rightarrow> bool \<times> api_runtime \<Rightarrow> bool \<times> api_runtime" where
  "signal_received redis s = (case s of (handling, r) \<Rightarrow> if handling then s else (True, runtime_step redis r Stop_Called))"

text \<open>Once the start is over, a stop and the end of the open requests leave nothing open.\<close>

lemma stopped_after_start:
  assumes "rt_phase r = Running" "rt_opening r = 0" "rt_listening r \<longrightarrow> rt_started r"
  shows "let s = runtime_step redis (runtime_step redis r Stop_Called) (Server_Closed True)
    in rt_phase s = Stopped \<and> rt_open s = [] \<and> \<not> rt_producing s \<and> \<not> rt_listening s"
  using assms by (auto simp: release_all_def Let_def)

lemma started_listens:
  "rt_listening r \<longrightarrow> rt_started r \<Longrightarrow> rt_listening (runtime_step redis r e) \<longrightarrow> rt_started (runtime_step redis r e)"
  by (cases e) (auto simp: release_all_def)

text \<open>A signal while the socket is being opened.\<close>

lemma stop_during_start:
  "let r = foldl (runtime_step redis) (new_runtime redis) [Start_Called, Stop_Called, Listen_Done True]
   in rt_listening r \<and> rt_started r \<and> rt_open r = [] \<and> rt_phase r = Stopped \<and>
     runtime_step redis r Stop_Called = r \<and> runtime_step redis r (Server_Closed True) = r"
  by (simp add: new_runtime_def release_all_def Let_def)

section \<open>The address of the API\<close>

definition API_PATH :: string where
  "API_PATH = ''/api/v1''"

definition loopback_host :: "string \<Rightarrow> bool" where
  "loopback_host h \<longleftrightarrow> h \<in> {''127.0.0.1'', ''localhost'', ''[::1]''}"

text \<open>\<open>cl_resolve raw origin\<close> is \<^verbatim>\<open>new URL(raw, new URL(origin))\<close> with its \<^verbatim>\<open>href\<close>; \<open>None\<close> when it throws.\<close>

definition parseApiBaseUrl :: "(string \<Rightarrow> string \<Rightarrow> (string \<times> url) option) \<Rightarrow> string \<Rightarrow> string \<Rightarrow> url option" where
  "parseApiBaseUrl cl_resolve raw browserOrigin =
    (if raw = [] \<or> js_trim raw \<noteq> raw \<or> CHR 0x5C \<in> set raw then None
     else (case cl_resolve raw browserOrigin of
         None \<Rightarrow> None
       | Some (href, u) \<Rightarrow>
           let exactValue = (if hd raw = CHR ''/'' then raw = API_PATH else raw = href);
               safeTransport = (ur_protocol u = ''https:'' \<or> ur_protocol u = ''http:'' \<and> loopback_host (ur_hostname u))
           in if \<not> exactValue \<or> \<not> safeTransport \<or> ur_pathname u \<noteq> API_PATH \<or> ur_username u \<noteq> [] \<or> ur_password u \<noteq> [] \<or>
                 ur_search u \<noteq> [] \<or> ur_hash u \<noteq> []
              then None else Some u))"

definition readPublicConfiguration :: "(string \<Rightarrow> string \<Rightarrow> (string \<times> url) option) \<Rightarrow> string option \<Rightarrow> string \<Rightarrow> url option" where
  "readPublicConfiguration cl_resolve configured browserOrigin =
    parseApiBaseUrl cl_resolve (case configured of None \<Rightarrow> API_PATH | Some v \<Rightarrow> v) browserOrigin"

lemma api_address_is_safe:
  assumes "readPublicConfiguration cl_resolve configured browserOrigin = Some u"
  shows "ur_pathname u = API_PATH \<and> ur_username u = [] \<and> ur_password u = [] \<and> ur_search u = [] \<and> ur_hash u = [] \<and>
    (ur_protocol u \<noteq> ''https:'' \<longrightarrow> ur_protocol u = ''http:'' \<and> loopback_host (ur_hostname u))"
  using assms by (auto simp: readPublicConfiguration_def parseApiBaseUrl_def Let_def split: if_splits option.splits)

datatype app_view = View_Case | View_Profile | View_Leaderboard

definition routes :: "(string \<times> app_view) list" where
  "routes = [(''/'', View_Case), (''/profile'', View_Profile), (''/leaderboard'', View_Leaderboard)]"

definition viewFromPath :: "string \<Rightarrow> app_view" where
  "viewFromPath pathname = (case map_of routes pathname of None \<Rightarrow> View_Case | Some v \<Rightarrow> v)"

lemma routes_are_found: "(href, v) \<in> set routes \<Longrightarrow> viewFromPath href = v"
  by (auto simp: routes_def viewFromPath_def)

end
