(* ===== verification/Spec2Isabelle.thy ===== *)
theory Spec2Isabelle
  imports Gameplay_Theorems Leaderboard_Page Profile Suggestions Cache_Redis Shared_Limiter Admission Exactly_Once Transactions_Correct Content_Cli
    Reporting Redis_Config Warm_Queue Reporting_Controller Observability Request_Validation Redis_Connection Api_Server
begin

text \<open>
  \<^bold>\<open>Loremaster\<close>, a daily deduction game: a guest starts the case of the UTC day, guesses entities of its catalog, reveals evidence,
  may give up, and sees statistics and a daily leaderboard. This development models the program's own logic, from the domain rules to the
  browser's state machines, and proves what makes it correct. This theory only imports the others; each property stands in the theory of its
  component, after a text that names it.

  \<^bold>\<open>The parts and how they interact.\<close> The browser (\<^verbatim>\<open>apps/web\<close>) calls the HTTP API (\<^verbatim>\<open>apps/api\<close>), whose kernel checks origin, session,
  CSRF token, rate limit and schema before it runs a handler. Handlers call the repositories of \<^verbatim>\<open>packages/database\<close>, each a PostgreSQL
  transaction that reads rows, asks the pure functions of \<^verbatim>\<open>packages/domain\<close> for the next state and writes it back. Redis keeps the counters
  of the shared limiter and the cached suggestion indexes (\<^verbatim>\<open>packages/cache\<close>); a queue (\<^verbatim>\<open>packages/queue\<close>, \<^verbatim>\<open>apps/worker\<close>) warms
  that cache. Editors import content packs with a command line of \<^verbatim>\<open>packages/database\<close>. \<^verbatim>\<open>packages/config\<close> reads the environment and
  \<^verbatim>\<open>packages/contracts\<close> has the schemas and tables both sides share.

  \<^bold>\<open>Foundations.\<close> \<open>Prelude\<close>: errors as sums (\<open>bindE\<close>, \<open>throwIf\<close>), the stable sort of JavaScript with the locale of a comparator, first-occurrence
  deduplication, and the locales of machines that keep an invariant, use up a budget or only evolve. \<open>Window_Limit\<close>: machines driven by a clock
  and the contract of a fixed-window limiter. \<open>Js_Value\<close>: values of unknown type. \<open>Calendar\<close>: days and instants, the proleptic Gregorian
  calendar. \<open>Json_Text\<close>, \<open>Json\<close>: \<^verbatim>\<open>JSON.stringify\<close> and \<^verbatim>\<open>JSON.parse\<close>. \<open>Base64url\<close>: the encodings of \<^verbatim>\<open>Buffer\<close>. \<open>Redis\<close>: the commands of
  the scripts.

  \<^bold>\<open>Domain\<close> (\<^verbatim>\<open>packages/domain/src\<close>, one theory a file). \<open>Attempt_Engine\<close>: snapshots, guesses, evidence, giving up, expiry; the check of stored
  snapshots accepts exactly the reachable ones and an attempt is over after fifteen moves. \<open>Aggregates\<close>: streaks, accuracy, regional
  knowledge. \<open>Leaderboard\<close>: competition ranks. \<open>Projections\<close>: what a player is shown; an active attempt discloses nothing of the solution.

  \<^bold>\<open>Gameplay transactions\<close> (\<^verbatim>\<open>packages/database/src/gameplay\<close>). \<open>Game_Store\<close>: the tables with the constraints of the migrations.
  \<open>Attempt_Records\<close>: \<^verbatim>\<open>attempt-records.ts\<close>, \<^verbatim>\<open>reconciliation.ts\<close>. \<open>Gameplay\<close>: \<^verbatim>\<open>attempts.ts\<close>. \<open>Store_Invariant\<close>, \<open>Gameplay_Correct\<close>,
  \<open>Gameplay_Properties\<close>, \<open>Gameplay_Theorems\<close>: the consistency of the store and its preservation by every operation in every history, one engine
  transition for each committed command, refusals, idempotent retries, progress; \<open>Fingerprints\<close>: a key is bound to its command.
  \<open>Leaderboard_Page\<close>, \<open>Profile\<close>, \<open>Suggestions\<close>: the three reads, against the domain's reference definitions. \<open>Transactions\<close>,
  \<open>Transactions_Correct\<close>: \<^verbatim>\<open>runtime.ts\<close> and \<^verbatim>\<open>deadline.ts\<close> as a machine with a state for each await, whatever the pool, the server and the signal
  answer; transactions are atomic, the client goes back clean, and a call ends after nine answers. \<open>Sessions\<close>: guests and sessions.

  \<^bold>\<open>Content\<close> (\<^verbatim>\<open>packages/database/src/content\<close>). \<open>Content_Pack\<close>, \<open>Content_Window\<close>, \<open>Content_Correct\<close>: the validator accepts exactly the values of
  the packs that a declarative description allows. \<open>Content_Import\<close>, \<open>Content_Import_Correct\<close>, \<open>Content_Sample\<close>, \<open>Content_Published\<close>: imports
  keep the store playable, and a dry run announces what a publication does. \<open>Content_Cli\<close>: the command line.

  \<^bold>\<open>Redis and the queue.\<close> \<open>Suggestion_Cache\<close>, \<open>Cache_Redis\<close>: the codec, the script and its bounds. \<open>Shared_Limiter\<close>: the script fulfils
  the contract of \<open>Window_Limit\<close>. \<open>Redis_Connection\<close>: clients that failed are destroyed. \<open>Warm_Queue\<close>: producers and workers as a step relation;
  at most 128 jobs are outstanding and no enqueued job is refused by the worker.

  \<^bold>\<open>API\<close> (\<^verbatim>\<open>apps/api/src\<close>). \<open>Http\<close>: errors, operations, header fields. \<open>Raw_Json\<close>: request bodies. \<open>Request_Validation\<close>: the validator, the
  errors as they are sent, deadline and log of a response. \<open>Security\<close>, \<open>Admission\<close>: every control and the order they run in; a handler runs
  with the session of its cookie. \<open>Response_Schema\<close>: answers of the database code pass their schemas. \<open>Gameplay_Routes\<close>, \<open>Reporting\<close>: the
  handlers; following the signed cursors visits each leaderboard row once. \<open>Secret_File\<close>, \<open>Server_Config\<close>, \<open>Redis_Config\<close>: \<^verbatim>\<open>packages/config\<close>.
  \<open>Api_Server\<close>: \<^verbatim>\<open>server.ts\<close>. \<open>Observability\<close>: metrics, health answers, bounded messages.

  \<^bold>\<open>Browser\<close> (\<^verbatim>\<open>apps/web/src\<close>). \<open>Web_Api\<close>: reading of responses and retries. \<open>Pending_Operation\<close>: the stored mutation. \<open>Latest_Read\<close>: overlapping
  reads. \<open>Game_Controller\<close>, \<open>Controller_Correct\<close>: the game's controller, split where it awaits; a pending mutation is kept until it is
  settled and sent again unchanged. \<open>Reporting_Controller\<close>: profile and leaderboard pages. \<open>Exactly_Once\<close> puts browser, network and service
  together: each action is applied at most once.

  \<^bold>\<open>Conventions.\<close> A record has the fields of the source's type with a short prefix; a thrown error is \<open>Inl\<close>. A statement of SQL is a function on the
  table lists; a transaction commits its store or keeps the old one. Code that awaits is split there, and whatever happens in between is an
  event of the machine. Integers are unbounded where the code checks them to be safe integers, so no rounding occurs; bytes are \<open>8 word\<close>.
  Texts are lists of code units below 256; decoders report other texts as outside the model instead of guessing.

  \<^bold>\<open>Arguments of the model\<close>: SHA-256 and HMAC, random draws, clocks, \<^verbatim>\<open>lower\<close> and the collation of PostgreSQL, NFKC folding and \<^verbatim>\<open>localeCompare\<close>, the
  URL parser, \<^verbatim>\<open>isIP\<close> for version 6 and \<^verbatim>\<open>BlockList\<close>, the zod formats, the file system, and the answers of \<^verbatim>\<open>pg\<close>, \<^verbatim>\<open>ioredis\<close> and BullMQ.
  What a property needs of them is a hypothesis with its name (that fresh identifiers are fresh, that a hash separates the
  texts compared) and its witness evaluates it on concrete functions.

  \<^bold>\<open>Bounds and fuel.\<close> Recursion is structural or has a measure, with few exceptions: the JSON parser takes as fuel the length of its text, of which
  each call consumes a character, and the walk over the directories above a secret takes one step for each character of its path, which
  every step shortens (\<open>directories_fuel\<close>).

  \<^bold>\<open>Not modelled.\<close> The React components (\<^verbatim>\<open>.tsx\<close>), which are markup over the states of the controllers; listeners and focus events that only call
  modelled operations; registering routes with Express and the wiring of \<^verbatim>\<open>createComposedApplication\<close>; building the URL and header fields of
  a browser request; the zod schemas of sessions, profiles and suggestions and of paths and headers; timers that reconnect or repeat (the
  producer's recovery, the worker's heartbeat), the life of the health server and of the worker and observer processes, which only start and
  stop other parts; the redaction of the Redis configuration; the pool, the migrations' execution, the test sinks, fixtures and indexes;
  and \<^verbatim>\<open>scripts\<close> and \<^verbatim>\<open>deploy\<close>, tooling that runs docker, git and tests.

  \<^bold>\<open>What modelling showed.\<close> Besides the properties, lemmas record behaviour that differs from what the code means to do: a refusal of an unknown
  attempt and a timeout of a read have statuses the client does not accept (\<open>Gameplay_Routes\<close>); the validator throws on the last representable
  day (\<open>far_window_throws\<close>); \<open>reset\<close> of the pages lets a cancelled read show an error, and a refresh after the end of an attempt can be dropped
  (\<open>Reporting_Controller\<close>); a signal while the server opens its socket leaves it listening without databases (\<open>stop_during_start\<close>).
\<close>

end
